(* ===== verification/XMP_Prelude.thy ===== *)
theory XMP_Prelude
  imports Main "HOL-Library.Word"
begin

text \<open>
  Shared vocabulary of the development: the machine integer types of the C++ sources
  (\<open>uint8_t\<close>, \<open>uint32_t\<close>, \<open>uint64_t\<close>), bounds-checked reads and writes of C arrays
  (an access outside the array is \<open>None\<close>), and the generic lemmas on words, lists and
  options that several components use.
\<close>

section \<open>Types\<close>

type_synonym u8 = "8 word"
type_synonym u32 = "32 word"
type_synonym u64 = "64 word"

named_theorems word_bounds \<open>bounds on the numeric value of machine words\<close>
named_theorems arr_simps \<open>rules for bounds-checked array accesses\<close>

section \<open>Bounds-checked arrays\<close>

text \<open>\<open>a[i]\<close> for a C array of known extent: \<open>None\<close> is a read outside of it.\<close>

definition arr_get :: "'a list \<Rightarrow> int \<Rightarrow> 'a option" where
  "arr_get a i = (if 0 \<le> i \<and> i < int (length a) then Some (a ! nat i) else None)"

text \<open>\<open>a[i] = v\<close>: \<open>None\<close> is a write outside of the array.\<close>

definition arr_set :: "'a list \<Rightarrow> int \<Rightarrow> 'a \<Rightarrow> 'a list option" where
  "arr_set a i v = (if 0 \<le> i \<and> i < int (length a) then Some (a[nat i := v]) else None)"

lemma arr_get_Some [arr_simps]: "0 \<le> i \<Longrightarrow> i < int (length a) \<Longrightarrow> arr_get a i = Some (a ! nat i)"
  by (simp add: arr_get_def)

lemma arr_get_nat [arr_simps]: "i < length a \<Longrightarrow> arr_get a (int i) = Some (a ! i)"
  by (simp add: arr_get_def)

lemma arr_get_None [arr_simps]: "i < 0 \<or> int (length a) \<le> i \<Longrightarrow> arr_get a i = None"
  by (auto simp: arr_get_def)

lemma arr_get_nat_None [arr_simps]: "length a \<le> i \<Longrightarrow> arr_get a (int i) = None"
  by (simp add: arr_get_def)

lemma arr_set_Some [arr_simps]: "0 \<le> i \<Longrightarrow> i < int (length a) \<Longrightarrow> arr_set a i v = Some (a[nat i := v])"
  by (simp add: arr_set_def)

lemma arr_set_nat [arr_simps]: "i < length a \<Longrightarrow> arr_set a (int i) v = Some (a[i := v])"
  by (simp add: arr_set_def)

lemma arr_set_None [arr_simps]: "i < 0 \<or> int (length a) \<le> i \<Longrightarrow> arr_set a i v = None"
  by (auto simp: arr_set_def)

lemma arr_set_nat_None [arr_simps]: "length a \<le> i \<Longrightarrow> arr_set a (int i) v = None"
  by (simp add: arr_set_def)

lemma arr_set_length: "arr_set a i v = Some b \<Longrightarrow> length b = length a"
  by (auto simp: arr_set_def split: if_splits)

section \<open>Words\<close>

lemma unat_minus_one_less: "d \<noteq> 0 \<Longrightarrow> unat (d - 1 :: 'a::len word) < unat d"
  by (metis unat_minus_one diff_less less_one unat_gt_0)

lemma unat_minus_two_less: "d \<noteq> 1 \<Longrightarrow> unat (d - 2 :: 'a::len word) < unat (d - 1)"
  using unat_minus_one_less [of "d - 1"] by simp

lemma unat_of_nat_u32 [word_bounds]: "n < 2 ^ 32 \<Longrightarrow> unat (of_nat n :: u32) = n"
  by (simp add: unat_of_nat take_bit_nat_eq_self)

lemma unat_of_nat_u64 [word_bounds]: "n < 2 ^ 64 \<Longrightarrow> unat (of_nat n :: u64) = n"
  by (simp add: unat_of_nat take_bit_nat_eq_self)

lemma of_nat_u32_eq_0_iff: "n < 2 ^ 32 \<Longrightarrow> (of_nat n = (0 :: u32)) = (n = 0)"
  by (auto simp: word_of_nat_eq_0_iff dest: dvd_imp_le)

lemma unat_u32_less [word_bounds]: "unat (x :: u32) < 4294967296"
  using unsigned_less [of x] by simp

lemma unat_u64_less [word_bounds]: "unat (x :: u64) < 18446744073709551616"
  using unsigned_less [of x] by simp

lemma unat_ucast_u32_u64 [word_bounds]: "unat (ucast (m :: u32) :: u64) = unat m"
proof -
  have "unat (ucast m :: u64) = take_bit 64 (unat m)"
    by (simp add: unsigned_ucast_eq)
  then show ?thesis
    using unat_u32_less [of m] by (simp add: take_bit_nat_eq_self)
qed

lemma uint_of_int_u64: "0 \<le> k \<Longrightarrow> k < 2 ^ 64 \<Longrightarrow> uint (of_int k :: u64) = k"
  by (simp add: uint_word_of_int take_bit_int_eq_self)

lemma unat_sum_list_u64:
  "unat (sum_list xs :: u64) = sum_list (map unat xs) mod 2 ^ 64"
  by (induction xs) (simp_all add: unat_word_ariths mod_simps)

section \<open>Counted loops\<close>

text \<open>\<open>for (i = lo; i < hi; i++) body\<close> is \<open>foldM body [lo..<hi]\<close>: the body may fail (\<open>None\<close>),
  which ends the run.\<close>

fun foldM :: "('i \<Rightarrow> 's \<Rightarrow> 's option) \<Rightarrow> 'i list \<Rightarrow> 's \<Rightarrow> 's option" where
  "foldM f [] s = Some s"
| "foldM f (x # xs) s = (case f x s of None \<Rightarrow> None | Some s' \<Rightarrow> foldM f xs s')"

lemma foldM_append: "foldM f (xs @ ys) s = (case foldM f xs s of None \<Rightarrow> None | Some s' \<Rightarrow> foldM f ys s')"
  by (induction xs arbitrary: s) (auto split: option.splits)

lemma foldM_upt_Suc: "lo \<le> hi \<Longrightarrow>
    foldM f [lo..<Suc hi] s = (case foldM f [lo..<hi] s of None \<Rightarrow> None | Some s' \<Rightarrow> f hi s')"
  by (simp add: foldM_append split: option.splits)

text \<open>Total correctness of a counted loop: an invariant that every iteration establishes for the
  next index.\<close>

lemma foldM_upt_rule:
  assumes "P lo s" and "lo \<le> hi"
    and "\<And>i s. lo \<le> i \<Longrightarrow> i < hi \<Longrightarrow> P i s \<Longrightarrow> \<exists>s'. f i s = Some s' \<and> P (Suc i) s'"
  shows "\<exists>s'. foldM f [lo..<hi] s = Some s' \<and> P hi s'"
  using assms(2,3)
proof (induction hi)
  case 0
  with assms(1) show ?case by simp
next
  case (Suc hi)
  show ?case
  proof (cases "lo = Suc hi")
    case True
    with assms(1) show ?thesis by simp
  next
    case False
    with Suc.prems(1) have "lo \<le> hi" by simp
    moreover have "\<And>i s. lo \<le> i \<Longrightarrow> i < hi \<Longrightarrow> P i s \<Longrightarrow> \<exists>s'. f i s = Some s' \<and> P (Suc i) s'"
      using Suc.prems(2) by simp
    ultimately obtain s' where "foldM f [lo..<hi] s = Some s'" "P hi s'"
      using Suc.IH by blast
    moreover from this(2) Suc.prems(2) \<open>lo \<le> hi\<close> obtain s'' where "f hi s' = Some s''" "P (Suc hi) s''"
      by blast
    ultimately show ?thesis using \<open>lo \<le> hi\<close> by (simp add: foldM_append)
  qed
qed

text \<open>A loop whose body cannot fail is a fold.\<close>

lemma foldM_total: "(\<And>x s. x \<in> set xs \<Longrightarrow> f x s = Some (g x s)) \<Longrightarrow> foldM f xs s = Some (fold g xs s)"
  by (induction xs arbitrary: s) simp_all

end
