(* ===== verification/CH3_Hash.thy ===== *)
theory CH3_Hash
  imports XMP_Prelude "HOL-Library.Monad_Syntax"
begin

unbundle bit_operations_syntax

text \<open>
  The furc consistent hash of \<open>src/ch3_hash.cpp\<close> (MurmurHash64A, the cached bit stream
  \<open>furc_get_bit\<close> and \<open>furc_hash\<close>) and the textual copy that \<open>inc/filler_hash.h\<close> keeps for
  the filler fiber.  All arithmetic is on the machine words of the source.  A \<open>const char *key\<close> is
  the function from offsets to the bytes it points at (\<open>None\<close> is \<open>NULL\<close>); the on-stack cache
  \<open>uint64_t hash[FURC_CACHE_SIZE]\<close> and \<open>old_ord\<close> start with arbitrary contents, and an
  access outside the cache is \<open>None\<close>.

  The lemmas show that the word-level code computes an unbounded specification
  \<open>furc_spec\<close> over the pure bit stream of the key (so it never leaves the cache, never
  overflows and does not depend on uninitialised memory), and that this specification is a
  consistent hash.
\<close>

section \<open>MurmurHash64A\<close>

definition SEED :: u32 where "SEED = 4193360111"
definition MAX_TRIES :: nat where "MAX_TRIES = 32"
definition FURC_SHIFT :: u32 where "FURC_SHIFT = 23"
definition FURC_CACHE_SIZE :: nat where "FURC_CACHE_SIZE = 1024"

definition murmur_m :: u64 where "murmur_m = 0xc6a4a7935bd1e995"

text \<open>\<open>x ^= x >> r\<close> with \<open>r = 47\<close>.\<close>

definition xorshift47 :: "u64 \<Rightarrow> u64" where
  "xorshift47 x = x XOR drop_bit 47 x"

definition murmur_rehash_64A :: "u64 \<Rightarrow> u64" where
  "murmur_rehash_64A k =
    (let h = ucast SEED XOR (8 * murmur_m);
         k = k * murmur_m;
         k = xorshift47 k;
         k = k * murmur_m;
         h = h XOR k;
         h = h * murmur_m;
         h = xorshift47 h;
         h = h * murmur_m
     in xorshift47 h)"

text \<open>The 8-byte little-endian load \<open>*data\<close> of the block loop.\<close>

definition load64 :: "(nat \<Rightarrow> u8) \<Rightarrow> nat \<Rightarrow> u64" where
  "load64 key p = fold (\<lambda>j acc. acc OR push_bit (8 * j) (ucast (key (p + j)))) [0..<8] 0"

definition murmur_block :: "(nat \<Rightarrow> u8) \<Rightarrow> nat \<Rightarrow> u64 \<Rightarrow> u64" where
  "murmur_block key i h =
    (let k = load64 key (8 * i);
         k = k * murmur_m;
         k = xorshift47 k;
         k = k * murmur_m
     in (h XOR k) * murmur_m)"

text \<open>The \<open>switch (len & 7)\<close> whose cases fall through from the highest byte to byte 0.\<close>

definition murmur_tail :: "(nat \<Rightarrow> u8) \<Rightarrow> nat \<Rightarrow> u64 \<Rightarrow> u64" where
  "murmur_tail key len h =
    (let t = len mod 8; p = 8 * (len div 8);
         h = (if 7 \<le> t then h XOR push_bit 48 (ucast (key (p + 6))) else h);
         h = (if 6 \<le> t then h XOR push_bit 40 (ucast (key (p + 5))) else h);
         h = (if 5 \<le> t then h XOR push_bit 32 (ucast (key (p + 4))) else h);
         h = (if 4 \<le> t then h XOR push_bit 24 (ucast (key (p + 3))) else h);
         h = (if 3 \<le> t then h XOR push_bit 16 (ucast (key (p + 2))) else h);
         h = (if 2 \<le> t then h XOR push_bit 8 (ucast (key (p + 1))) else h)
     in if 1 \<le> t then (h XOR ucast (key p)) * murmur_m else h)"

definition murmur_hash_64A :: "(nat \<Rightarrow> u8) \<Rightarrow> nat \<Rightarrow> u32 \<Rightarrow> u64" where
  "murmur_hash_64A key len seed =
    (let h = ucast seed XOR (of_nat len * murmur_m);
         h = fold (murmur_block key) [0..<len div 8] h;
         h = murmur_tail key len h;
         h = xorshift47 h;
         h = h * murmur_m
     in xorshift47 h)"

section \<open>The cached bit stream and the hash\<close>

type_synonym furc_cache = "u64 list \<times> int"

text \<open>The loop \<open>for (n = *old_ord_p + 1; n <= ord; n++)\<close> that extends the cache; the two
  hash functions are arguments because \<open>inc/filler_hash.h\<close> repeats the loop over its own copies.\<close>

function furc_fill ::
  "u64 \<Rightarrow> (u64 \<Rightarrow> u64) \<Rightarrow> int \<Rightarrow> int \<Rightarrow> u64 list \<Rightarrow> u64 list option" where
  "furc_fill first rehash n ord hash =
    (if n \<le> ord then
       (case (if n = 0 then Some first else map_option rehash (arr_get hash (n - 1))) of
          None \<Rightarrow> None
        | Some v \<Rightarrow>
            (case arr_set hash n v of
               None \<Rightarrow> None
             | Some hash' \<Rightarrow> furc_fill first rehash (n + 1) ord hash'))
     else Some hash)"
  by pat_completeness auto
termination
  by (relation "measure (\<lambda>(first, rehash, n, ord, hash). nat (ord + 1 - n))") auto

declare furc_fill.simps [simp del]

definition furc_get_bit_with ::
  "((nat \<Rightarrow> u8) \<Rightarrow> nat \<Rightarrow> u32 \<Rightarrow> u64) \<Rightarrow> (u64 \<Rightarrow> u64) \<Rightarrow>
   (nat \<Rightarrow> u8) option \<Rightarrow> nat \<Rightarrow> u32 \<Rightarrow> furc_cache \<Rightarrow> (u32 \<times> furc_cache) option" where
  "furc_get_bit_with murmur rehash key len idx c =
    (case c of (hash, old_ord) \<Rightarrow>
      let ord = uint (drop_bit 6 idx) in
      case key of
        None \<Rightarrow> Some (0, (hash, -1))
      | Some k \<Rightarrow>
          do {
            (hash, old_ord) \<leftarrow>
              (if old_ord < ord
               then map_option (\<lambda>h. (h, ord))
                      (furc_fill (murmur k len SEED) rehash (old_ord + 1) ord hash)
               else Some (hash, old_ord));
            h \<leftarrow> arr_get hash ord;
            Some (ucast (drop_bit (unat (idx AND 0x3f)) h AND 1), (hash, old_ord))
          })"

definition furc_get_bit ::
  "(nat \<Rightarrow> u8) option \<Rightarrow> nat \<Rightarrow> u32 \<Rightarrow> furc_cache \<Rightarrow> (u32 \<times> furc_cache) option" where
  "furc_get_bit = furc_get_bit_with murmur_hash_64A murmur_rehash_64A"

text \<open>\<open>for (d = 0; m > (1ul << d); d++)\<close>.  A shift by 64 or more is undefined in C++;
  \<open>furc_log_le_32\<close> below shows that the loop stops long before.\<close>

function furc_log :: "u32 \<Rightarrow> nat \<Rightarrow> nat" where
  "furc_log m d = (if d < 64 \<and> push_bit d (1 :: u64) < ucast m then furc_log m (Suc d) else d)"
  by pat_completeness auto
termination
  by (relation "measure (\<lambda>(m, d). 64 - d)") auto

declare furc_log.simps [simp del]

text \<open>\<open>while (!furc_get_bit(key, len, a, hash, &old_ord)) { if (--d == 0) return 0; a = d; }\<close>:
  \<open>Inl 0\<close> is the early return, \<open>Inr (d, a, cache)\<close> the state the loop leaves.\<close>

function furc_down ::
  "(u32 \<Rightarrow> 's \<Rightarrow> (u32 \<times> 's) option) \<Rightarrow> u32 \<Rightarrow> u32 \<Rightarrow> 's \<Rightarrow> (u32 + (u32 \<times> u32 \<times> 's)) option" where
  "furc_down get d a s =
    (case get a s of
       None \<Rightarrow> None
     | Some (b, s') \<Rightarrow>
         if b = 0 then
           (if d - 1 = 0 then Some (Inl 0) else furc_down get (d - 1) (d - 1) s')
         else Some (Inr (d, a, s')))"
  by pat_completeness auto
termination
  by (relation "measure (\<lambda>(get, d, a, s). unat (d - 1))")
    (auto simp: unat_minus_two_less)

declare furc_down.simps [simp del]

text \<open>\<open>for (i = 0; i < d - 1; i++) { num = (num << 1) | bit; a += FURC_SHIFT; }\<close>.\<close>

fun furc_num ::
  "(u32 \<Rightarrow> 's \<Rightarrow> (u32 \<times> 's) option) \<Rightarrow> nat \<Rightarrow> u32 \<Rightarrow> u32 \<Rightarrow> 's \<Rightarrow> (u32 \<times> u32 \<times> 's) option" where
  "furc_num get 0 num a s = Some (num, a, s)"
| "furc_num get (Suc i) num a s =
    do {
      (b, s') \<leftarrow> get a s;
      furc_num get i (push_bit 1 num OR b) (a + FURC_SHIFT) s'
    }"

text \<open>The attempt loop; the first argument is \<open>MAX_TRIES - attempt\<close>.\<close>

fun furc_attempts ::
  "(u32 \<Rightarrow> 's \<Rightarrow> (u32 \<times> 's) option) \<Rightarrow> u32 \<Rightarrow> nat \<Rightarrow> u32 \<Rightarrow> u32 \<Rightarrow> 's \<Rightarrow> u32 option" where
  "furc_attempts get m 0 d a s = Some 0"
| "furc_attempts get m (Suc tries) d a s =
    do {
      r \<leftarrow> furc_down get d a s;
      (case r of
         Inl v \<Rightarrow> Some v
       | Inr (d, a, s) \<Rightarrow>
           do {
             (num, a, s) \<leftarrow> furc_num get (unat (d - 1)) 1 (a + FURC_SHIFT) s;
             if num < m then Some num else furc_attempts get m tries d a s
           })
    }"

definition furc_hash_with ::
  "((nat \<Rightarrow> u8) option \<Rightarrow> nat \<Rightarrow> u32 \<Rightarrow> furc_cache \<Rightarrow> (u32 \<times> furc_cache) option) \<Rightarrow>
   (nat \<Rightarrow> u8) option \<Rightarrow> nat \<Rightarrow> u32 \<Rightarrow> furc_cache \<Rightarrow> u32 option" where
  "furc_hash_with get_bit key len m c =
    (if m \<le> 1 then Some 0
     else
       do {
         (_, c) \<leftarrow> get_bit None 0 0 c;
         let d = of_nat (furc_log m 0);
         furc_attempts (get_bit key len) m MAX_TRIES d d c
       })"

text \<open>\<open>uint32_t furc_hash(key, len, m)\<close>; \<open>c\<close> is the uninitialised content of its local cache.\<close>

definition furc_hash ::
  "(nat \<Rightarrow> u8) option \<Rightarrow> nat \<Rightarrow> u32 \<Rightarrow> furc_cache \<Rightarrow> u32 option" where
  "furc_hash = furc_hash_with furc_get_bit"

section \<open>The unbounded specification\<close>

text \<open>The bit stream of a key: bit \<open>i\<close> of the infinite chain of rehashes.\<close>

fun hash_chain :: "u64 \<Rightarrow> (u64 \<Rightarrow> u64) \<Rightarrow> nat \<Rightarrow> u64" where
  "hash_chain first rehash 0 = first"
| "hash_chain first rehash (Suc n) = rehash (hash_chain first rehash n)"

definition stream_bit ::
  "((nat \<Rightarrow> u8) \<Rightarrow> nat \<Rightarrow> u32 \<Rightarrow> u64) \<Rightarrow> (u64 \<Rightarrow> u64) \<Rightarrow>
   (nat \<Rightarrow> u8) option \<Rightarrow> nat \<Rightarrow> nat \<Rightarrow> bool" where
  "stream_bit murmur rehash key len i =
    (case key of
       None \<Rightarrow> False
     | Some k \<Rightarrow> bit (hash_chain (murmur k len SEED) rehash (i div 64)) (i mod 64))"

definition key_bit :: "(nat \<Rightarrow> u8) option \<Rightarrow> nat \<Rightarrow> nat \<Rightarrow> bool" where
  "key_bit = stream_bit murmur_hash_64A murmur_rehash_64A"

fun spec_log :: "nat \<Rightarrow> nat \<Rightarrow> nat \<Rightarrow> nat" where
  "spec_log 0 m d = d"
| "spec_log (Suc k) m d = (if 2 ^ d < m then spec_log k m (Suc d) else d)"

fun spec_down :: "(nat \<Rightarrow> bool) \<Rightarrow> nat \<Rightarrow> nat \<Rightarrow> (nat \<times> nat) option" where
  "spec_down pb 0 a = None"
| "spec_down pb (Suc d) a =
    (if pb a then Some (Suc d, a) else if d = 0 then None else spec_down pb d d)"

fun spec_num :: "(nat \<Rightarrow> bool) \<Rightarrow> nat \<Rightarrow> nat \<Rightarrow> nat \<Rightarrow> nat" where
  "spec_num pb 0 num a = num"
| "spec_num pb (Suc i) num a = spec_num pb i (2 * num + of_bool (pb a)) (a + 23)"

text \<open>\<open>None\<close> is giving up after the last attempt; the code then returns 0.\<close>

fun spec_attempts :: "(nat \<Rightarrow> bool) \<Rightarrow> nat \<Rightarrow> nat \<Rightarrow> nat \<Rightarrow> nat \<Rightarrow> nat option" where
  "spec_attempts pb m 0 d a = None"
| "spec_attempts pb m (Suc tries) d a =
    (case spec_down pb d a of
       None \<Rightarrow> Some 0
     | Some (d, a) \<Rightarrow>
         let num = spec_num pb (d - 1) 1 (a + 23)
         in if num < m then Some num else spec_attempts pb m tries d (a + 23 * d))"

definition furc_spec :: "(nat \<Rightarrow> bool) \<Rightarrow> nat \<Rightarrow> nat option" where
  "furc_spec pb m =
    (if m \<le> 1 then Some 0 else let d = spec_log 64 m 0 in spec_attempts pb m MAX_TRIES d d)"


lemma spec_down_Some:
  "spec_down pb d a = Some (d', a') \<Longrightarrow>
     0 < d' \<and> d' \<le> d \<and> pb a' \<and> (d' = d \<and> a' = a \<or> d' < d \<and> a' = d')"
  by (induction pb d a rule: spec_down.induct) (auto split: if_splits)

lemma spec_num_bounds:
  "num * 2 ^ k \<le> spec_num pb k num a \<and> spec_num pb k num a < (num + 1) * 2 ^ k"
proof (induction k arbitrary: num a)
  case (Suc k)
  have "(2 * num + of_bool (pb a)) * 2 ^ k \<le> spec_num pb (Suc k) num a"
    and "spec_num pb (Suc k) num a < (2 * num + of_bool (pb a) + 1) * 2 ^ k"
    using Suc.IH [of "2 * num + of_bool (pb a)" "a + 23"] by simp_all
  moreover have "num * 2 ^ Suc k \<le> (2 * num + of_bool (pb a)) * 2 ^ k"
    by (simp add: algebra_simps)
  moreover have "(2 * num + of_bool (pb a) + 1) * 2 ^ k \<le> (num + 1) * 2 ^ Suc k"
    by (simp add: algebra_simps)
  ultimately show ?case by linarith
qed simp

lemma spec_num_range:
  assumes "0 < d"
  shows "2 ^ (d - 1) \<le> spec_num pb (d - 1) 1 a" and "spec_num pb (d - 1) 1 a < 2 ^ d"
proof -
  have "(2::nat) ^ d = 2 * 2 ^ (d - 1)"
    using assms by (cases d) simp_all
  then show "2 ^ (d - 1) \<le> spec_num pb (d - 1) 1 a" and "spec_num pb (d - 1) 1 a < 2 ^ d"
    using spec_num_bounds [of 1 "d - 1" pb a] by simp_all
qed

lemma spec_attempts_less:
  "spec_attempts pb m tries d a = Some r \<Longrightarrow> 0 < m \<Longrightarrow> r < m"
  by (induction tries arbitrary: d a) (auto simp: Let_def split: option.splits if_splits)

section \<open>The loops over a bit source\<close>

text \<open>
  What \<open>furc_hash\<close> needs of its bit source: reading bit \<open>idx\<close> (below \<open>64 * FURC_CACHE_SIZE\<close>)
  from a good cache succeeds, gives the bit of the pure stream and leaves a good cache.
\<close>

locale bit_source =
  fixes get :: "u32 \<Rightarrow> 's \<Rightarrow> (u32 \<times> 's) option"
    and ok :: "'s \<Rightarrow> bool"
    and pb :: "nat \<Rightarrow> bool"
  assumes get_ok: "ok s \<Longrightarrow> i < 65536 \<Longrightarrow>
    \<exists>s'. get (of_nat i) s = Some (of_bool (pb i), s') \<and> ok s'"
begin


lemma furc_down_spec:
  assumes "ok s" and "d \<le> 32" and "a < 65536" and "0 < d"
  shows "case spec_down pb d a of
           None \<Rightarrow> furc_down get (of_nat d) (of_nat a) s = Some (Inl 0)
         | Some (d', a') \<Rightarrow> \<exists>s'. ok s' \<and>
             furc_down get (of_nat d) (of_nat a) s = Some (Inr (of_nat d', of_nat a', s'))"
  using assms
proof (induction d arbitrary: a s)
  case (Suc d)
  from get_ok [OF Suc.prems(1,3)] obtain s' where
    g: "get (of_nat a) s = Some (of_bool (pb a), s')" and s': "ok s'" by blast
  have z: "(of_nat d = (0 :: u32)) = (d = 0)"
    using Suc.prems(2) by (intro of_nat_u32_eq_0_iff) simp
  show ?case
  proof (cases "pb a \<or> d = 0")
    case True
    with g s' z show ?thesis by (subst (1 2) furc_down.simps) auto
  next
    case False
    then have "case spec_down pb d d of
           None \<Rightarrow> furc_down get (of_nat d) (of_nat d) s' = Some (Inl 0)
         | Some (d', a') \<Rightarrow> \<exists>s''. ok s'' \<and>
             furc_down get (of_nat d) (of_nat d) s' = Some (Inr (of_nat d', of_nat a', s''))"
      using Suc.prems(2) s' by (intro Suc.IH) auto
    with False g z show ?thesis by (subst (1 2) furc_down.simps) (auto split: option.splits)
  qed
qed simp

lemma furc_num_spec:
  assumes "ok s" and "a + 23 * k \<le> 65536"
  shows "\<exists>s'. ok s' \<and>
    furc_num get k (of_nat num) (of_nat a) s =
      Some (of_nat (spec_num pb k num a), of_nat (a + 23 * k), s')"
  using assms
proof (induction k arbitrary: num a s)
  case (Suc k)
  then have "a < 65536" by simp
  from get_ok [OF Suc.prems(1) this] obtain s' where
    g: "get (of_nat a) s = Some (of_bool (pb a), s')" and s': "ok s'" by blast
  have n: "push_bit 1 (of_nat num :: u32) OR of_bool (pb a) = of_nat (2 * num + of_bool (pb a))"
    by (simp add: or_one_eq push_bit_eq_mult mult.commute)
  have a: "(of_nat a :: u32) + FURC_SHIFT = of_nat (a + 23)"
    by (simp add: FURC_SHIFT_def)
  have "\<exists>s''. ok s'' \<and>
    furc_num get k (of_nat (2 * num + of_bool (pb a))) (of_nat (a + 23)) s' =
      Some (of_nat (spec_num pb k (2 * num + of_bool (pb a)) (a + 23)), of_nat (a + 23 + 23 * k), s'')"
    using Suc.prems(2) s' by (intro Suc.IH) auto
  then obtain s'' where s'': "ok s''"
    "furc_num get k (of_nat (2 * num + of_bool (pb a))) (of_nat (a + 23)) s' =
      Some (of_nat (spec_num pb k (2 * num + of_bool (pb a)) (a + 23)), of_nat (a + 23 + 23 * k), s'')"
    by blast
  have "furc_num get (Suc k) (of_nat num) (of_nat a) s =
      furc_num get k (of_nat (2 * num + of_bool (pb a))) (of_nat (a + 23)) s'"
    using g n a by simp
  moreover have "a + 23 + 23 * k = a + 23 * Suc k" by simp
  ultimately show ?case using s'' by (metis spec_num.simps(2))
qed simp

lemma furc_attempts_spec:
  assumes "ok s" and "0 < d" and "d \<le> 32" and "a \<le> b" and "32 \<le> b"
    and "b + 736 * tries \<le> 65535"
  shows "furc_attempts get m tries (of_nat d) (of_nat a) s =
    Some (case spec_attempts pb (unat m) tries d a of None \<Rightarrow> 0 | Some r \<Rightarrow> of_nat r)"
  using assms
proof (induction tries arbitrary: d a b s)
  case (Suc tries)
  have "a < 65536" using Suc.prems by simp
  note down = furc_down_spec [OF Suc.prems(1,3) this Suc.prems(2)]
  show ?case
  proof (cases "spec_down pb d a")
    case None
    with down show ?thesis by simp
  next
    case (Some p)
    obtain d' a' where p: "spec_down pb d a = Some (d', a')" using Some by (cases p) auto
    with down obtain s1 where s1: "ok s1"
      and e1: "furc_down get (of_nat d) (of_nat a) s = Some (Inr (of_nat d', of_nat a', s1))" by auto
    from spec_down_Some [OF p] Suc.prems have d': "0 < d'" "d' \<le> 32" "a' \<le> b" by auto
    let ?num = "spec_num pb (d' - 1) 1 (a' + 23)"
    have "a' + 23 + 23 * (d' - 1) \<le> 65536" using d' Suc.prems by (cases d') auto
    from furc_num_spec [OF s1 this, of 1] obtain s2 where s2: "ok s2"
      and e2: "furc_num get (d' - 1) 1 (of_nat (a' + 23)) s1 =
        Some (of_nat ?num, of_nat (a' + 23 + 23 * (d' - 1)), s2)" by auto
    have u: "unat (of_nat d' - 1 :: u32) = d' - 1"
      using d' by (cases d') (auto simp: unat_of_nat_u32)
    have fs: "(of_nat a' :: u32) + FURC_SHIFT = of_nat (a' + 23)"
      by (simp add: FURC_SHIFT_def)
    have n32: "?num < 2 ^ 32"
      using spec_num_range(2) [of d' pb "a' + 23"] d'(1,2) power_increasing [of d' 32 "2::nat"] by simp
    then have cmp: "(of_nat ?num < m) = (?num < unat m)"
      by (simp add: word_less_nat_alt unat_of_nat_u32)
    have a2: "a' + 23 + 23 * (d' - 1) = a' + 23 * d'" using d'(1) by (cases d') auto
    have ih: "furc_attempts get m tries (of_nat d') (of_nat (a' + 23 * d')) s2 =
      Some (case spec_attempts pb (unat m) tries d' (a' + 23 * d') of None \<Rightarrow> 0 | Some r \<Rightarrow> of_nat r)"
      by (rule Suc.IH [OF s2 d'(1,2), of "a' + 23 * d'" "b + 736"]) (use d' Suc.prems in auto)
    show ?thesis
      using e1 e2 [unfolded a2] u fs cmp ih p by (simp add: Let_def del: of_nat_add)
  qed
qed simp

end


section \<open>The cache is a good bit source\<close>

definition cache_ok :: "u64 \<Rightarrow> (u64 \<Rightarrow> u64) \<Rightarrow> furc_cache \<Rightarrow> bool" where
  "cache_ok first rehash c =
    (length (fst c) = FURC_CACHE_SIZE \<and> -1 \<le> snd c \<and> snd c < 1024 \<and>
     (\<forall>n. int n \<le> snd c \<longrightarrow> fst c ! n = hash_chain first rehash n))"

lemma furc_fill_chain:
  assumes "length h = FURC_CACHE_SIZE" and "0 \<le> n" and "ord < 1024"
    and "\<forall>k. int k < n \<longrightarrow> h ! k = hash_chain first rehash k"
  shows "\<exists>h'. furc_fill first rehash n ord h = Some h' \<and> length h' = FURC_CACHE_SIZE \<and>
    (\<forall>k. int k \<le> max (n - 1) ord \<longrightarrow> h' ! k = hash_chain first rehash k)"
  using assms
proof (induction first rehash n ord h rule: furc_fill.induct)
  case (1 first rehash n ord h)
  show ?case
  proof (cases "n \<le> ord")
    case True
    obtain j where j: "n = int j" using "1.prems"(2) by (metis nonneg_int_cases)
    let ?v = "hash_chain first rehash j"
    let ?h = "h[j := ?v]"
    have v: "(if n = 0 then Some first else map_option rehash (arr_get h (n - 1))) = Some ?v"
    proof (cases j)
      case (Suc i)
      have "arr_get h (int i) = Some (h ! i)"
        using True "1.prems" Suc j by (intro arr_get_nat) (simp add: FURC_CACHE_SIZE_def)
      then show ?thesis using Suc j "1.prems"(4) by simp
    qed (simp add: j)
    have w: "arr_set h n ?v = Some ?h"
      using True "1.prems" j by (simp add: arr_simps FURC_CACHE_SIZE_def)
    have "\<exists>h'. furc_fill first rehash (n + 1) ord ?h = Some h' \<and> length h' = FURC_CACHE_SIZE \<and>
      (\<forall>k. int k \<le> max (n + 1 - 1) ord \<longrightarrow> h' ! k = hash_chain first rehash k)"
    proof (rule "1.IH" [OF True v w])
      show "\<forall>k. int k < n + 1 \<longrightarrow> ?h ! k = hash_chain first rehash k"
        using "1.prems" j True by (auto simp: nth_list_update FURC_CACHE_SIZE_def)
    qed (use "1.prems" in auto)
    then show ?thesis
      using True v w by (subst furc_fill.simps) (simp add: max_def)
  next
    case False
    with "1.prems" show ?thesis by (subst furc_fill.simps) (simp add: max_def)
  qed
qed

lemma bit_of_word_at:
  "(ucast (drop_bit (unat (idx AND 0x3f)) (h :: u64) AND 1) :: u32) =
   of_bool (bit h (unat (idx :: u32) mod 64))"
proof -
  have "idx AND 0x3f = take_bit 6 idx"
    by (simp add: take_bit_eq_mask mask_eq_exp_minus_1)
  then have "unat (idx AND 0x3f) = take_bit 6 (unat idx)"
    by (simp only: unsigned_take_bit_eq)
  then have "unat (idx AND 0x3f) = unat idx mod 64"
    by (simp only: take_bit_eq_mod) simp
  then show ?thesis
    by (simp add: bit_iff_and_drop_bit_eq_1 and_one_eq bit_iff_odd_drop_bit mod_2_eq_odd)
qed

lemma furc_get_bit_with_ok:
  assumes ok: "\<forall>k. key = Some k \<longrightarrow> cache_ok (murmur k len SEED) rehash c" and i: "i < 65536"
  shows "\<exists>c'. furc_get_bit_with murmur rehash key len (of_nat i) c =
      Some (of_bool (stream_bit murmur rehash key len i), c') \<and>
    (\<forall>k. key = Some k \<longrightarrow> cache_ok (murmur k len SEED) rehash c')"
proof (cases key)
  case None
  then show ?thesis
    by (cases c) (simp add: furc_get_bit_with_def stream_bit_def)
next
  case (Some k)
  obtain h oo where c: "c = (h, oo)" by (cases c)
  let ?f = "murmur k len SEED"
  have u: "unat (of_nat i :: u32) = i" using i by (intro unat_of_nat_u32) simp
  have ord: "uint (drop_bit 6 (of_nat i :: u32)) = int (i div 64)"
  proof -
    have "unat (drop_bit 6 (of_nat i :: u32)) = drop_bit 6 i"
      using i by (simp only: unsigned_drop_bit_eq u) (simp add: take_bit_nat_eq_self)
    then show ?thesis by (simp only: uint_nat) (simp add: drop_bit_eq_div)
  qed
  have lt: "i div 64 < 1024" using i by simp
  from ok Some c have ch: "length h = FURC_CACHE_SIZE" "-1 \<le> oo" "oo < 1024"
    "\<forall>n. int n \<le> oo \<longrightarrow> h ! n = hash_chain ?f rehash n"
    by (auto simp: cache_ok_def)
  show ?thesis
  proof (cases "oo < int (i div 64)")
    case True
    have "\<exists>h'. furc_fill ?f rehash (oo + 1) (int (i div 64)) h = Some h' \<and> length h' = FURC_CACHE_SIZE \<and>
      (\<forall>n. int n \<le> max (oo + 1 - 1) (int (i div 64)) \<longrightarrow> h' ! n = hash_chain ?f rehash n)"
      using ch lt by (intro furc_fill_chain) auto
    then obtain h' where h': "furc_fill ?f rehash (oo + 1) (int (i div 64)) h = Some h'"
      "length h' = FURC_CACHE_SIZE" "\<forall>n. n \<le> i div 64 \<longrightarrow> h' ! n = hash_chain ?f rehash n"
      using True by auto
    then have "arr_get h' (int (i div 64)) = Some (hash_chain ?f rehash (i div 64))"
      using lt by (simp add: arr_simps FURC_CACHE_SIZE_def)
    then show ?thesis
      using Some True h' lt ord u
      by (simp add: furc_get_bit_with_def stream_bit_def c Let_def bit_of_word_at cache_ok_def)
  next
    case False
    then have "arr_get h (int (i div 64)) = Some (hash_chain ?f rehash (i div 64))"
      using lt ch by (simp add: arr_simps FURC_CACHE_SIZE_def)
    then show ?thesis
      using Some False ch ord u
      by (simp add: furc_get_bit_with_def stream_bit_def c Let_def bit_of_word_at cache_ok_def)
  qed
qed

definition furc_ok ::
  "((nat \<Rightarrow> u8) \<Rightarrow> nat \<Rightarrow> u32 \<Rightarrow> u64) \<Rightarrow> (u64 \<Rightarrow> u64) \<Rightarrow>
   (nat \<Rightarrow> u8) option \<Rightarrow> nat \<Rightarrow> furc_cache \<Rightarrow> bool" where
  "furc_ok murmur rehash key len c =
    (\<forall>k. key = Some k \<longrightarrow> cache_ok (murmur k len SEED) rehash c)"

interpretation cached: bit_source
  "furc_get_bit_with murmur rehash key len" "furc_ok murmur rehash key len"
  "stream_bit murmur rehash key len" for murmur rehash key len
  by unfold_locales (use furc_get_bit_with_ok in \<open>simp add: furc_ok_def\<close>)

section \<open>The logarithm loop\<close>

lemma furc_log_spec: "d \<le> 64 \<Longrightarrow> furc_log m d = spec_log (64 - d) (unat m) d"
proof (induction m d rule: furc_log.induct)
  case (1 m d)
  have "push_bit d (1 :: u64) < ucast m \<longleftrightarrow> 2 ^ d < unat m" if "d < 64"
  proof -
    have "unat (push_bit d (1 :: u64)) = take_bit 64 (push_bit d (unat (1 :: u64)))"
      by (simp only: unsigned_push_bit_eq) simp
    also have "\<dots> = 2 ^ d"
      using that by (simp add: take_bit_nat_eq_self power_strict_increasing)
    finally have "unat (push_bit d (1 :: u64)) = 2 ^ d" .
    moreover have "unat (ucast m :: u64) = unat m"
      by (rule unat_ucast_u32_u64)
    ultimately show ?thesis by (simp add: word_less_nat_alt)
  qed
  note cmp = this
  show ?case
  proof (cases "d < 64")
    case True
    then have "64 - d = Suc (64 - Suc d)" by simp
    with True cmp 1 show ?thesis by (subst furc_log.simps) simp
  next
    case False
    with 1 show ?thesis by (subst furc_log.simps) simp
  qed
qed

lemma spec_log_props:
  assumes "m \<le> 2 ^ (d + k)"
  shows "m \<le> 2 ^ spec_log k m d \<and> d \<le> spec_log k m d \<and>
    (spec_log k m d = d \<or> 2 ^ (spec_log k m d - 1) < m)"
  using assms
proof (induction k m d rule: spec_log.induct)
  case (2 k m d)
  then show ?case by (cases "2 ^ d < m") auto
qed simp

lemma spec_log_range:
  assumes "1 < m" and "m < 2 ^ 32"
  shows "m \<le> 2 ^ spec_log 64 m 0" and "0 < spec_log 64 m 0" and "spec_log 64 m 0 \<le> 32"
    and "2 ^ (spec_log 64 m 0 - 1) < m"
proof -
  let ?d = "spec_log 64 m 0"
  have p: "m \<le> 2 ^ ?d \<and> (?d = 0 \<or> 2 ^ (?d - 1) < m)"
    using spec_log_props [of m 0 64] assms by simp
  then show "m \<le> 2 ^ ?d" by simp
  from p assms show d: "0 < ?d" by (cases ?d) auto
  with p show "2 ^ (?d - 1) < m" by simp
  then have "(2::nat) ^ (?d - 1) < 2 ^ 32" using assms(2) by (rule less_trans)
  then have "?d - 1 < 32" by (rule power_less_imp_less_exp [rotated]) simp
  then show "?d \<le> 32" by simp
qed

lemma spec_log_ge: "d \<le> spec_log k m d"
  by (induction k m d rule: spec_log.induct) auto

lemma spec_log_mono: "m \<le> m' \<Longrightarrow> spec_log k m d \<le> spec_log k m' d"
  by (induction k m d rule: spec_log.induct) (auto intro: Suc_leD [OF spec_log_ge])

section \<open>The code computes the specification\<close>

definition fresh_cache :: "furc_cache \<Rightarrow> bool" where
  "fresh_cache c = (length (fst c) = FURC_CACHE_SIZE)"

lemma furc_hash_with_spec:
  assumes "fresh_cache c"
  shows "furc_hash_with (furc_get_bit_with murmur rehash) key len m c =
    Some (case furc_spec (stream_bit murmur rehash key len) (unat m) of
            None \<Rightarrow> 0 | Some r \<Rightarrow> of_nat r)"
proof (cases "m \<le> 1")
  case True
  then show ?thesis by (simp add: furc_hash_with_def furc_spec_def word_le_nat_alt)
next
  case False
  then have m: "1 < unat m" by (simp add: word_le_nat_alt not_le)
  obtain h oo where c: "c = (h, oo)" by (cases c)
  let ?d = "spec_log 64 (unat m) 0"
  have r: "0 < ?d" "?d \<le> 32"
    using spec_log_range [OF m] unat_u32_less [of m] by simp_all
  have ok: "furc_ok murmur rehash key len (h, -1)"
    using assms c by (simp add: furc_ok_def cache_ok_def fresh_cache_def)
  have nb: "furc_get_bit_with murmur rehash None 0 0 c = Some (0, (h, -1))"
    by (simp add: furc_get_bit_with_def c)
  have "furc_attempts (furc_get_bit_with murmur rehash key len) m MAX_TRIES (of_nat ?d) (of_nat ?d) (h, -1)
     = Some (case spec_attempts (stream_bit murmur rehash key len) (unat m) MAX_TRIES ?d ?d of
            None \<Rightarrow> 0 | Some r \<Rightarrow> of_nat r)"
    by (rule cached.furc_attempts_spec [OF ok r, of _ 32]) (use r in \<open>simp_all add: MAX_TRIES_def\<close>)
  with False m nb show ?thesis
    by (simp add: furc_hash_with_def furc_spec_def Let_def furc_log_spec)
qed

lemma furc_hash_spec:
  assumes "fresh_cache c"
  shows "furc_hash key len m c =
    Some (case furc_spec (key_bit key len) (unat m) of None \<Rightarrow> 0 | Some r \<Rightarrow> of_nat r)"
  using furc_hash_with_spec [OF assms]
  by (simp add: furc_hash_def furc_get_bit_def key_bit_def)

lemma furc_spec_less: "furc_spec pb m = Some r \<Longrightarrow> 0 < m \<Longrightarrow> r < m"
  by (auto simp: furc_spec_def Let_def split: if_splits dest: spec_attempts_less)

section \<open>Consistent hashing\<close>

text \<open>Lowering the bound from \<open>m'\<close> to \<open>m\<close> keeps a result below \<open>m\<close>, when the search starts in
  the same state.\<close>

lemma spec_attempts_mono_bound:
  "spec_attempts pb m' tries d a = Some r \<Longrightarrow> r < m \<Longrightarrow> m \<le> m' \<Longrightarrow>
   spec_attempts pb m tries d a = Some r"
  by (induction tries arbitrary: d a) (auto simp: Let_def split: option.splits if_splits)

lemma spec_attempts_more_tries:
  "spec_attempts pb m tries d a = Some r \<Longrightarrow> spec_attempts pb m (tries + k) d a = Some r"
  by (induction tries arbitrary: d a) (auto simp: Let_def split: option.splits if_splits)

text \<open>A search that starts on a level above that of \<open>m\<close> and ends below \<open>m\<close> passes through the
  state in which the search for \<open>m\<close> starts.\<close>

lemma spec_attempts_level_down:
  assumes "spec_attempts pb m' tries d' a' = Some r" and "r < m" and "m \<le> m'"
    and "m \<le> 2 ^ d" and "d < d'" and "0 < d"
  shows "\<exists>t \<le> tries. spec_attempts pb m t d d = Some r"
  using assms
proof (induction tries arbitrary: d' a')
  case (Suc tries)
  note fewer = Suc.IH
  from Suc.prems(5,1) show ?case
  proof (induction d' arbitrary: a')
    case (Suc e)
    show ?case
    proof (cases "pb a'")
      case True
      let ?num = "spec_num pb e 1 (a' + 23)"
      have "(2::nat) ^ d \<le> 2 ^ e" using Suc.prems(1) by (intro power_increasing) auto
      also have "2 ^ e \<le> ?num" using spec_num_range(1) [of "Suc e" pb "a' + 23"] by simp
      finally have "m \<le> ?num" using \<open>m \<le> 2 ^ d\<close> by simp
      with True Suc.prems(2) \<open>r < m\<close>
      have "spec_attempts pb m' tries (Suc e) (a' + 23 * Suc e) = Some r"
        by (auto simp: Let_def split: if_splits)
      from fewer [OF this \<open>r < m\<close> \<open>m \<le> m'\<close> \<open>m \<le> 2 ^ d\<close> Suc.prems(1) \<open>0 < d\<close>]
      show ?thesis by (meson le_Suc_eq)
    next
      case False
      have "e \<noteq> 0" using Suc.prems(1) \<open>0 < d\<close> by simp
      with False Suc.prems(2) have e: "spec_attempts pb m' (Suc tries) e e = Some r" by simp
      show ?thesis
      proof (cases "e = d")
        case True
        with e spec_attempts_mono_bound [OF _ \<open>r < m\<close> \<open>m \<le> m'\<close>] show ?thesis by blast
      next
        case False
        with Suc.prems(1) have "d < e" by simp
        from Suc.IH [OF this e] show ?thesis .
      qed
    qed
  qed simp
qed simp

lemma furc_spec_consistent:
  assumes "furc_spec pb m' = Some r" and "r < m" and "m \<le> m'" and "m' < 2 ^ 32"
  shows "furc_spec pb m = Some r"
proof (cases "m \<le> 1")
  case True
  with assms(2) show ?thesis by (simp add: furc_spec_def)
next
  case False
  let ?d = "spec_log 64 m 0" and ?d' = "spec_log 64 m' 0"
  have m: "1 < m" "m < 2 ^ 32" using False assms by auto
  have s': "spec_attempts pb m' MAX_TRIES ?d' ?d' = Some r"
    using assms(1) False assms(3) by (simp add: furc_spec_def Let_def)
  have "spec_attempts pb m MAX_TRIES ?d ?d = Some r"
  proof (cases "?d = ?d'")
    case True
    with s' assms show ?thesis by (metis spec_attempts_mono_bound)
  next
    case False
    with spec_log_mono [OF assms(3), of 64 0] have "?d < ?d'" by simp
    from spec_attempts_level_down [OF s' assms(2,3) spec_log_range(1) [OF m] this spec_log_range(2) [OF m]]
    obtain t where "t \<le> MAX_TRIES" "spec_attempts pb m t ?d ?d = Some r" by blast
    with spec_attempts_more_tries [of pb m t ?d ?d r "MAX_TRIES - t"] show ?thesis by simp
  qed
  with False show ?thesis by (simp add: furc_spec_def Let_def)
qed

section \<open>The copy run by the filler fiber\<close>

text \<open>\<open>inc/filler_hash.h\<close> repeats the three functions under other names.\<close>

definition murmur_rehash_64A_probed :: "u64 \<Rightarrow> u64" where
  "murmur_rehash_64A_probed k =
    (let h = ucast SEED XOR (8 * murmur_m);
         k = k * murmur_m;
         k = xorshift47 k;
         k = k * murmur_m;
         h = h XOR k;
         h = h * murmur_m;
         h = xorshift47 h;
         h = h * murmur_m
     in xorshift47 h)"

definition murmur_hash_64A_probed :: "(nat \<Rightarrow> u8) \<Rightarrow> nat \<Rightarrow> u32 \<Rightarrow> u64" where
  "murmur_hash_64A_probed key len seed =
    (let h = ucast seed XOR (of_nat len * murmur_m);
         h = fold (murmur_block key) [0..<len div 8] h;
         h = murmur_tail key len h;
         h = xorshift47 h;
         h = h * murmur_m
     in xorshift47 h)"

definition furc_get_bit_probed ::
  "(nat \<Rightarrow> u8) option \<Rightarrow> nat \<Rightarrow> u32 \<Rightarrow> furc_cache \<Rightarrow> (u32 \<times> furc_cache) option" where
  "furc_get_bit_probed = furc_get_bit_with murmur_hash_64A_probed murmur_rehash_64A_probed"

definition furc_hash_probed ::
  "(nat \<Rightarrow> u8) option \<Rightarrow> nat \<Rightarrow> u32 \<Rightarrow> furc_cache \<Rightarrow> u32 option" where
  "furc_hash_probed = furc_hash_with furc_get_bit_probed"

section \<open>Which bytes are read\<close>

lemma load64_cong: "(\<And>j. j < 8 \<Longrightarrow> k (p + j) = k' (p + j)) \<Longrightarrow> load64 k p = load64 k' p"
  unfolding load64_def by (intro fold_cong) auto

lemma murmur_tail_cong:
  assumes "\<And>i. i < len \<Longrightarrow> k i = k' i"
  shows "murmur_tail k len h = murmur_tail k' len h"
proof -
  have "k (8 * (len div 8) + j) = k' (8 * (len div 8) + j)" if "Suc j \<le> len mod 8" for j
    by (rule assms) (use that mult_div_mod_eq [of 8 len] in linarith)
  from this [of 6] this [of 5] this [of 4] this [of 3] this [of 2] this [of 1] this [of 0]
  show ?thesis by (simp add: murmur_tail_def Let_def)
qed

lemma murmur_hash_64A_cong:
  assumes "\<And>i. i < len \<Longrightarrow> k i = k' i"
  shows "murmur_hash_64A k len seed = murmur_hash_64A k' len seed"
proof -
  have "fold (murmur_block k) [0..<len div 8] h = fold (murmur_block k') [0..<len div 8] h" for h
  proof (rule fold_cong)
    fix i assume "i \<in> set [0..<len div 8]"
    then have "load64 k (8 * i) = load64 k' (8 * i)"
      by (intro load64_cong assms) auto
    then show "murmur_block k i = murmur_block k' i"
      by (simp add: murmur_block_def fun_eq_iff)
  qed simp_all
  with murmur_tail_cong [of len k k', OF assms] show ?thesis
    by (simp add: murmur_hash_64A_def)
qed

lemma key_bit_cong:
  "(\<And>i. i < len \<Longrightarrow> k i = k' i) \<Longrightarrow> key_bit (Some k) len = key_bit (Some k') len"
  using murmur_hash_64A_cong [of len k k' SEED] by (simp add: key_bit_def stream_bit_def fun_eq_iff)

lemma furc_hash_range:
  assumes "fresh_cache c" and "0 < m"
  shows "\<exists>r. furc_hash key len m c = Some r \<and> r < m"
proof (cases "furc_spec (key_bit key len) (unat m)")
  case None
  with assms show ?thesis by (simp add: furc_hash_spec)
next
  case (Some r)
  have "0 < unat m" using assms(2) by (simp add: word_less_nat_alt)
  with Some have "r < unat m" by (rule furc_spec_less)
  moreover from this have "unat (of_nat r :: u32) = r"
    using unat_u32_less [of m] by (intro unat_of_nat_u32) simp
  ultimately show ?thesis using assms(1) Some by (simp add: furc_hash_spec word_less_nat_alt)
qed

section \<open>Properties\<close>

text \<open>C1: For every key (also \<open>NULL\<close>), every positive number of shards \<open>m\<close> and whatever the
  uninitialised on-stack cache holds, \<open>furc_hash\<close> returns (all its loops terminate), never
  accesses the cache outside its \<open>FURC_CACHE_SIZE\<close> entries, and its result is a shard number
  below \<open>m\<close>.\<close>

theorem furc_hash_in_range:
  assumes "fresh_cache c" and "0 < m"
  shows "\<exists>r. furc_hash key len m c = Some r \<and> r < m"
  by (rule furc_hash_range [OF assms])

theorem furc_hash_in_range_witness:
  "\<exists>r. furc_hash (Some (\<lambda>_. 97)) 29 16 (replicate 1024 0, 0) = Some r \<and> r < 16"
  by (rule furc_hash_in_range) (simp_all add: fresh_cache_def FURC_CACHE_SIZE_def)

text \<open>The hash is a function of the first \<open>len\<close> key bytes and \<open>m\<close> alone: two runs that
  find different garbage in the cache and in \<open>old_ord\<close>, and whose keys agree on the bytes before
  \<open>len\<close>, return the same shard, so no uninitialised or out-of-range byte influences it.\<close>

theorem furc_hash_deterministic:
  assumes "fresh_cache c" and "fresh_cache c'" and "\<And>i. i < len \<Longrightarrow> k i = k' i"
  shows "furc_hash (Some k) len m c = furc_hash (Some k') len m c'"
  using assms key_bit_cong [of len k k'] by (simp add: furc_hash_spec)

theorem furc_hash_deterministic_witness:
  "furc_hash (Some (\<lambda>_. 97)) 3 16 (replicate 1024 0, 0) =
   furc_hash (Some (\<lambda>i. if i < 3 then 97 else 5)) 3 16 (replicate 1024 7, 12)"
  by (rule furc_hash_deterministic) (simp_all add: fresh_cache_def FURC_CACHE_SIZE_def)




text \<open>The copy of the hash that runs in the filler fiber (\<open>inc/filler_hash.h\<close>) computes the
  same function as \<open>furc_hash\<close>, for every key, length, bound and initial cache.\<close>

theorem furc_hash_probed_eq: "furc_hash_probed = furc_hash"
proof -
  have "murmur_hash_64A_probed = murmur_hash_64A" and "murmur_rehash_64A_probed = murmur_rehash_64A"
    by (simp_all add: fun_eq_iff murmur_hash_64A_probed_def murmur_hash_64A_def
        murmur_rehash_64A_probed_def murmur_rehash_64A_def)
  then show ?thesis
    by (simp add: furc_hash_probed_def furc_hash_def furc_get_bit_probed_def furc_get_bit_def)
qed

end
