(* ===== verification/Timer_Stats.thy ===== *)
theory Timer_Stats
  imports XMP_Prelude "HOL-Library.Multiset" "HOL-Library.Monad_Syntax"
begin

text \<open>
  The measurement arithmetic: the macros of \<open>inc/timer_utils.h\<close> that average time stamp
  differences, the statistics of \<open>src/stats.cpp\<close> and \<open>src/rps.cpp\<close>.  Samples are \<open>uint64_t\<close>
  (64-bit words, subtraction and sums wrap around); \<open>None\<close> is an access outside an array or a
  division by zero.  The C square root and the conversion to \<open>double\<close> are the parameter \<open>csqrt\<close>;
  printing returns the printed values.
\<close>

section \<open>Time stamp differences (timer_utils.h)\<close>

definition gen_diff_array :: "u64 list \<Rightarrow> u64 list \<Rightarrow> u64 list \<Rightarrow> int \<Rightarrow> u64 list option" where
  "gen_diff_array dst array1 array2 sz =
    foldM (\<lambda>i dst.
      do {
        y \<leftarrow> arr_get array2 (int i);
        x \<leftarrow> arr_get array1 (int i);
        arr_set dst (int i) (y - x)
      }) [0..<nat sz] dst"

text \<open>Unsigned division of a \<open>uint64_t\<close> by an \<open>int\<close>, which is converted to \<open>uint64_t\<close>.\<close>

definition udiv_int :: "u64 \<Rightarrow> int \<Rightarrow> u64 option" where
  "udiv_int x n = (if (of_int n :: u64) = 0 then None else Some (x div of_int n))"

definition do_sum_array :: "u64 list \<Rightarrow> int \<Rightarrow> u64 option" where
  "do_sum_array array iter =
    do {
      accum \<leftarrow> foldM (\<lambda>i accum. map_option (\<lambda>x. accum + x) (arr_get array (int i))) [1..<nat iter] 0;
      udiv_int accum iter
    }"

text \<open>\<open>avg_samples_from_arrays(diff, avg, after, before, n)\<close>: the new \<open>diff\<close> and \<open>avg\<close>.  The
  trailing \<open>do_avg(avg, n)\<close> of the macro is an expression without effect, but it also divides by
  \<open>n\<close>.\<close>

definition avg_samples_from_arrays ::
  "u64 list \<Rightarrow> u64 list \<Rightarrow> u64 list \<Rightarrow> int \<Rightarrow> (u64 list \<times> u64) option" where
  "avg_samples_from_arrays diff after before num_samples =
    do {
      diff \<leftarrow> gen_diff_array diff before after num_samples;
      avg \<leftarrow> do_sum_array diff num_samples;
      _ \<leftarrow> udiv_int avg num_samples;
      Some (diff, avg)
    }"

section \<open>Statistics (stats.cpp, rps.cpp)\<close>

definition avg_from_array :: "u64 list \<Rightarrow> int \<Rightarrow> u64 option" where
  "avg_from_array arr sz =
    do {
      sum \<leftarrow> foldM (\<lambda>i sum. map_option (\<lambda>x. sum + x) (arr_get arr (int i))) [0..<nat sz] 0;
      udiv_int sum sz
    }"

definition variance_from_array :: "u64 list \<Rightarrow> int \<Rightarrow> u64 option" where
  "variance_from_array arr sz =
    do {
      avg \<leftarrow> avg_from_array arr sz;
      sum \<leftarrow> foldM (\<lambda>i sum. map_option (\<lambda>x. sum + (x - avg) * (x - avg)) (arr_get arr (int i)))
               [0..<nat sz] 0;
      udiv_int sum sz
    }"

definition stddev_from_array :: "(u64 \<Rightarrow> 'd) \<Rightarrow> u64 list \<Rightarrow> int \<Rightarrow> 'd option" where
  "stddev_from_array csqrt arr sz = map_option csqrt (variance_from_array arr sz)"

definition median_from_array :: "u64 list \<Rightarrow> int \<Rightarrow> u64 option" where
  "median_from_array arr sz =
    (if sz < 0 \<or> int (length arr) < sz then None
     else arr_get (sort (take (nat sz) arr)) (sz div 2))"

definition print_mean_median_stdev :: "(u64 \<Rightarrow> 'd) \<Rightarrow> u64 list \<Rightarrow> int \<Rightarrow> (u64 \<times> u64 \<times> 'd) option" where
  "print_mean_median_stdev csqrt arr sz =
    do {
      mean \<leftarrow> avg_from_array arr sz;
      median \<leftarrow> median_from_array arr sz;
      stdev \<leftarrow> stddev_from_array csqrt arr sz;
      Some (mean, median, stdev)
    }"

text \<open>\<open>calculate_rps_from_samples\<close> up to the printed quotient: the average interval.\<close>

definition calculate_rps_from_samples :: "u64 list \<Rightarrow> int \<Rightarrow> u64 option" where
  "calculate_rps_from_samples samples intervals =
    do {
      sum \<leftarrow> foldM (\<lambda>i sum.
               do {
                 t1 \<leftarrow> arr_get samples (int i + 1);
                 t0 \<leftarrow> arr_get samples (int i);
                 Some (sum + (t1 - t0))
               }) [0..<nat intervals] 0;
      udiv_int sum intervals
    }"

section \<open>What the loops compute\<close>

lemma foldM_sum_array:
  assumes "hi \<le> length arr" and "lo \<le> hi"
  shows "foldM (\<lambda>i sum. map_option (\<lambda>x. sum + f x) (arr_get arr (int i))) [lo..<hi] (s :: u64) =
    Some (s + (\<Sum>i = lo..<hi. f (arr ! i)))"
proof -
  have "\<exists>s'. foldM (\<lambda>i sum. map_option (\<lambda>x. sum + f x) (arr_get arr (int i))) [lo..<hi] s = Some s' \<and>
    s' = s + (\<Sum>i = lo..<hi. f (arr ! i))"
    by (rule foldM_upt_rule [where P = "\<lambda>h s'. s' = s + (\<Sum>i = lo..<h. f (arr ! i))"])
      (use assms in \<open>auto simp: arr_simps algebra_simps\<close>)
  then show ?thesis by simp
qed

lemma udiv_int_pos:
  assumes "0 < n" and "n < 2 ^ 31"
  shows "udiv_int x n = Some (x div of_int n)" and "unat (x div of_int n) = unat x div nat n"
proof -
  have u: "unat (of_int n :: u64) = nat n"
    using assms by (simp add: unat_of_nat_u64 flip: of_nat_nat)
  then have "(of_int n :: u64) \<noteq> 0" using assms by auto
  then show "udiv_int x n = Some (x div of_int n)" by (simp add: udiv_int_def)
  show "unat (x div of_int n) = unat x div nat n" by (simp add: unat_div u)
qed

lemma gen_diff_array_spec:
  assumes "nat n \<le> length dst" and "nat n \<le> length a1" and "nat n \<le> length a2"
  shows "\<exists>d. gen_diff_array dst a1 a2 n = Some d \<and> length d = length dst \<and>
    (\<forall>i < length dst. d ! i = (if i < nat n then a2 ! i - a1 ! i else dst ! i))"
  unfolding gen_diff_array_def
  by (rule foldM_upt_rule [where P = "\<lambda>h d. length d = length dst \<and>
        (\<forall>i < length dst. d ! i = (if i < h then a2 ! i - a1 ! i else dst ! i))"])
    (use assms in \<open>auto simp: arr_simps nth_list_update less_Suc_eq\<close>)


lemma unat_sum_u64:
  assumes "(\<Sum>i \<in> A. unat (f i :: u64)) < 2 ^ 64"
  shows "unat (\<Sum>i \<in> A. f i) = (\<Sum>i \<in> A. unat (f i))"
proof (cases "finite A")
  case True
  have "unat (\<Sum>i \<in> A. f i) = (\<Sum>i \<in> A. unat (f i)) mod 2 ^ 64"
    using True by (induction rule: finite_induct) (simp_all add: unat_word_ariths mod_simps)
  with assms show ?thesis by simp
qed simp

lemma sum_list_upt_nth: "sum_list (map f xs) = (\<Sum>i = 0..<length xs. f (xs ! i))"
  for f :: "'a \<Rightarrow> 'b::comm_monoid_add"
  by (simp add: sum_list_sum_nth)

lemma avg_from_array_eval:
  assumes "0 < n" and "n < 2 ^ 31" and "nat n \<le> length arr"
  shows "avg_from_array arr n = Some ((\<Sum>i = 0..<nat n. arr ! i) div of_int n)"
  using foldM_sum_array [OF assms(3), of 0 "\<lambda>x. x" 0] udiv_int_pos [OF assms(1,2)]
  by (simp add: avg_from_array_def)

lemma do_sum_array_eval:
  assumes "0 < n" and "n < 2 ^ 31" and "nat n \<le> length arr"
  shows "do_sum_array arr n = Some ((\<Sum>i = 1..<nat n. arr ! i) div of_int n)"
  using foldM_sum_array [OF assms(3), of 1 "\<lambda>x. x" 0] udiv_int_pos [OF assms(1,2)] assms(1)
  by (simp add: do_sum_array_def)

lemma avg_samples_eval:
  assumes "0 < n" and "n < 2 ^ 31"
    and "nat n \<le> length diff" and "nat n \<le> length after" and "nat n \<le> length before"
  shows "\<exists>d. avg_samples_from_arrays diff after before n =
    Some (d, (\<Sum>i = 1..<nat n. after ! i - before ! i) div of_int n)"
proof -
  obtain d where d: "gen_diff_array diff before after n = Some d" "length d = length diff"
    "\<forall>i < length diff. d ! i = (if i < nat n then after ! i - before ! i else diff ! i)"
    using gen_diff_array_spec [OF assms(3,5,4)] by blast
  have "(\<Sum>i = 1..<nat n. d ! i) = (\<Sum>i = 1..<nat n. after ! i - before ! i)"
    using d assms(3) by (intro sum.cong) auto
  moreover have "do_sum_array d n = Some ((\<Sum>i = 1..<nat n. d ! i) div of_int n)"
    using assms d(2) by (intro do_sum_array_eval) simp_all
  ultimately show ?thesis
    using d(1) udiv_int_pos [OF assms(1,2)] by (simp add: avg_samples_from_arrays_def)
qed

lemma sorted_filter_less_nth:
  assumes "sorted xs" and "k < length xs"
  shows "length (filter (\<lambda>x. x < xs ! k) xs) \<le> k"
    and "length (filter (\<lambda>x. xs ! k < x) xs) \<le> length xs - Suc k"
proof -
  have "{i. i < length xs \<and> xs ! i < xs ! k} \<subseteq> {..<k}"
    using assms by (auto simp: not_less [symmetric] dest: sorted_nth_mono [rotated -1])
  from card_mono [OF _ this] show "length (filter (\<lambda>x. x < xs ! k) xs) \<le> k"
    by (simp add: length_filter_conv_card)
  have "{i. i < length xs \<and> xs ! k < xs ! i} \<subseteq> {Suc k..<length xs}"
    using assms by (auto simp: Suc_le_eq) (meson leD leI sorted_nth_mono)
  from card_mono [OF _ this] show "length (filter (\<lambda>x. xs ! k < x) xs) \<le> length xs - Suc k"
    by (simp add: length_filter_conv_card)
qed

lemma length_filter_sort: "length (filter P (sort xs)) = length (filter P xs)"
  by (metis mset_filter mset_sort size_mset)

section \<open>Properties\<close>

text \<open>When the sum of the samples fits in 64 bits, \<open>avg_from_array\<close> over all samples returns
  their exact mean, rounded down.\<close>

theorem avg_from_array_mean:
  assumes "0 < n" and "n < 2 ^ 31" and "length arr = nat n" and "sum_list (map unat arr) < 2 ^ 64"
  shows "\<exists>a. avg_from_array arr n = Some a \<and> unat a = sum_list (map unat arr) div nat n"
proof -
  have "(\<Sum>i = 0..<nat n. unat (arr ! i)) = sum_list (map unat arr)"
    using assms(3) by (simp add: sum_list_upt_nth)
  with assms unat_sum_u64 [of "\<lambda>i. arr ! i" "{0..<nat n}"] show ?thesis
    by (simp add: avg_from_array_eval udiv_int_pos(2))
qed

theorem avg_from_array_mean_witness: "\<exists>a. avg_from_array [3, 5, 9] 3 = Some a \<and> unat a = 5"
  using avg_from_array_mean [of 3 "[3, 5, 9]"] by simp

text \<open>C32: \<open>median_from_array\<close> returns one of the first \<open>n\<close> samples; at most \<open>n / 2\<close> of them are
  smaller and at most \<open>n - 1 - n / 2\<close> are larger, so it is the upper median.\<close>

theorem median_from_array_correct:
  assumes "0 < n" and "nat n \<le> length arr"
  shows "\<exists>m. median_from_array arr n = Some m \<and> m \<in> set (take (nat n) arr) \<and>
    length (filter (\<lambda>x. x < m) (take (nat n) arr)) \<le> nat n div 2 \<and>
    length (filter (\<lambda>x. m < x) (take (nat n) arr)) \<le> nat n - 1 - nat n div 2"
proof -
  let ?xs = "take (nat n) arr"
  let ?s = "sort ?xs"
  have k: "nat n div 2 < length ?s" using assms by simp
  have "median_from_array arr n = Some (?s ! (nat n div 2))"
    using assms k arr_get_nat [of "nat n div 2" ?s]
    by (auto simp: median_from_array_def zdiv_int)
  moreover have "?s ! (nat n div 2) \<in> set ?xs"
    using nth_mem [OF k] by simp
  moreover note sorted_filter_less_nth [OF sorted_sort k] assms
  ultimately show ?thesis by (simp add: length_filter_sort)
qed

theorem median_from_array_correct_witness:
  "\<exists>m. median_from_array [7, 1, 4] 3 = Some m \<and> m \<in> set (take 3 [7, 1, 4]) \<and>
    length (filter (\<lambda>x. x < m) (take 3 [7, 1, 4])) \<le> 1 \<and>
    length (filter (\<lambda>x. m < x) (take 3 [7, 1, 4])) \<le> 1"
  using median_from_array_correct [of 3 "[7, 1, 4]"] by simp

text \<open>The sum of squared deviations is computed in wrap-around arithmetic, and sample minus
  mean is often negative; still \<open>stddev_from_array\<close> takes the root of the exact integer variance
  around the (rounded) mean whenever the true sum of squares fits in 64 bits.\<close>

theorem variance_from_array_exact:
  assumes "0 < n" and "n < 2 ^ 31" and "nat n \<le> length arr"
    and "avg_from_array arr n = Some a"
    and "(\<Sum>i = 0..<nat n. (uint (arr ! i) - uint a)\<^sup>2) < 2 ^ 64"
  shows "\<exists>v :: u64. stddev_from_array csqrt arr n = Some (csqrt v) \<and>
    uint v = (\<Sum>i = 0..<nat n. (uint (arr ! i) - uint a)\<^sup>2) div n"
proof -
  let ?S = "\<Sum>i = 0..<nat n. (uint (arr ! i) - uint a)\<^sup>2"
  let ?w = "\<Sum>i = 0..<nat n. (arr ! i - a) * (arr ! i - a)"
  have sq: "(x - a) * (x - a) = (of_int ((uint x - uint a)\<^sup>2) :: u64)" for x
    by (simp add: power2_eq_square)
  have w: "?w = of_int ?S" by (simp only: sq of_int_sum)
  have "0 \<le> ?S" by (simp add: sum_nonneg)
  then have uw: "uint ?w = ?S"
    unfolding w using assms(5) by (rule uint_of_int_u64)
  have "variance_from_array arr n = Some (?w div of_int n)"
    using foldM_sum_array [OF assms(3), of 0 "\<lambda>x. (x - a) * (x - a)" 0]
      udiv_int_pos(1) [OF assms(1,2)] assms(4)
    by (simp add: variance_from_array_def)
  moreover have "uint (?w div of_int n) = ?S div n"
  proof -
    have "int (unat ?w) = ?S" by (rule trans [OF uint_nat [symmetric] uw])
    moreover have "uint (?w div of_int n) = int (unat ?w div nat n)"
      by (simp only: uint_nat [of "?w div of_int n"] udiv_int_pos(2) [OF assms(1,2), of ?w])
    ultimately show ?thesis
      using assms(1) by (simp only: zdiv_int) simp
  qed
  ultimately show ?thesis unfolding stddev_from_array_def by auto
qed

theorem variance_from_array_exact_witness:
  "\<exists>v :: u64. stddev_from_array unat [2, 4, 9] 3 = Some (unat v) \<and> uint v = 26 div 3"
proof -
  have a: "avg_from_array [2, 4, 9] 3 = Some 5" by code_simp
  have s: "(\<Sum>i = 0..<nat 3. (uint ([2, 4, 9 :: u64] ! i) - uint (5 :: u64))\<^sup>2) = 26"
    by (simp add: numeral_3_eq_3)
  show ?thesis
    using variance_from_array_exact [of 3 "[2, 4, 9]" 5 unat] a s by simp
qed

text \<open>The per-request averages of the executors (\<open>avg_samples_from_arrays\<close>) leave out sample 0
  but divide by the number of all samples: when every one of \<open>n\<close> requests takes exactly \<open>v > 0\<close>
  cycles, the reported average is \<open>(n - 1) * v / n\<close>, which is less than \<open>v\<close>.\<close>

theorem avg_samples_underestimates:
  assumes "0 < n" and "n < 2 ^ 31"
    and "nat n \<le> length diff" and "nat n \<le> length after" and "nat n \<le> length before"
    and "\<forall>i < nat n. after ! i - before ! i = v" and "nat n * unat v < 2 ^ 64" and "0 < v"
  shows "\<exists>d avg. avg_samples_from_arrays diff after before n = Some (d, avg) \<and>
    unat avg = (nat n - 1) * unat v div nat n \<and> avg < v"
proof -
  let ?avg = "(\<Sum>i = 1..<nat n. after ! i - before ! i) div of_int n"
  have s: "(\<Sum>i = 1..<nat n. unat (after ! i - before ! i)) = (nat n - 1) * unat v"
    using assms(6) by (simp add: sum.cong)
  also have "\<dots> < 2 ^ 64"
    using assms(7) by (rule le_less_trans [rotated]) (simp add: mult_le_mono1)
  finally have u: "unat ?avg = (nat n - 1) * unat v div nat n"
    using s by (simp only: udiv_int_pos(2) [OF assms(1,2)] unat_sum_u64)
  moreover have "(nat n - 1) * unat v div nat n < unat v"
    using assms(1,8) by (simp add: div_less_iff_less_mult word_less_nat_alt mult.commute)
  ultimately have "?avg < v" by (simp only: word_less_nat_alt)
  with u avg_samples_eval [OF assms(1-5)] show ?thesis by blast
qed

theorem avg_samples_underestimates_witness:
  "\<exists>d avg. avg_samples_from_arrays [0, 0] [110, 215] [100, 205] 2 = Some (d, avg) \<and>
    unat avg = 1 * 10 div 2 \<and> avg < 10"
proof -
  have "\<forall>i < nat 2. [110, 215 :: u64] ! i - [100, 205] ! i = 10"
    by (auto simp: less_2_cases_iff)
  with avg_samples_underestimates [of 2 "[0, 0]" "[110, 215]" "[100, 205]" 10] show ?thesis
    by simp
qed

text \<open>The intervals that \<open>calculate_rps_from_samples\<close> sums telescope: the average interval it
  reports is the last time stamp minus the first one, divided by the number of intervals, also when
  the counter wraps around in between.\<close>

theorem calculate_rps_telescopes:
  assumes "0 < n" and "n < 2 ^ 31" and "nat n < length ts"
  shows "calculate_rps_from_samples ts n = Some ((ts ! nat n - ts ! 0) div of_int n)"
proof -
  let ?f = "\<lambda>i sum. do { t1 \<leftarrow> arr_get ts (int i + 1); t0 \<leftarrow> arr_get ts (int i); Some (sum + (t1 - t0)) }"
  have "\<exists>s. foldM ?f [0..<nat n] 0 = Some s \<and> s = ts ! nat n - ts ! 0"
  proof (rule foldM_upt_rule [where P = "\<lambda>h s. s = ts ! h - ts ! 0"])
    fix i s assume "0 \<le> i" "i < nat n" "s = ts ! i - ts ! 0"
    moreover from this have "arr_get ts (int i + 1) = Some (ts ! Suc i)" "arr_get ts (int i) = Some (ts ! i)"
      using assms(3) arr_get_nat [of "Suc i" ts] by (auto simp: arr_simps add.commute)
    ultimately show "\<exists>s'. ?f i s = Some s' \<and> s' = ts ! Suc i - ts ! 0" by simp
  qed simp_all
  then show ?thesis
    using udiv_int_pos(1) [OF assms(1,2)] by (simp add: calculate_rps_from_samples_def)
qed

theorem calculate_rps_telescopes_witness:
  "calculate_rps_from_samples [100, 140, 160] 2 = Some 30"
  using calculate_rps_telescopes [of 2 "[100, 140, 160]"] by simp

end
