(* ===== verification/Payload_Gen.thy ===== *)
theory Payload_Gen
  imports XMP_Prelude "HOL-Library.While_Combinator" "HOL-Library.Multiset" "HOL-Library.Monad_Syntax"
begin

text \<open>
  The input generators of \<open>src/payload_gen.cpp\<close> and the pointer chasing kernels of
  \<open>src/pointer_chase.cpp\<close>.  Characters are bytes; a \<open>malloc\<close>ed buffer is a list whose initial
  contents are arbitrary (bytes) or \<open>None\<close> (pointer slots never written).  \<open>rand()\<close> is the stream
  \<open>rnd\<close> of its results.  A pointer \<open>&memory[k]\<close> into a block of pointers is the slot number \<open>k\<close>.
  \<open>None\<close> is an access outside a block, a read of an uninitialised slot, or a loop that never ends.
\<close>

section \<open>Compressible payloads\<close>

definition gen_compressible_string :: "string \<Rightarrow> nat \<Rightarrow> string option" where
  "gen_compressible_string append_string input_size =
    while_option (\<lambda>payload. length payload < input_size) (\<lambda>payload. payload @ append_string) []"

text \<open>\<open>memcpy(&dst[at], src, n)\<close>.\<close>

definition memcpy_at :: "'a list \<Rightarrow> int \<Rightarrow> 'a list \<Rightarrow> int \<Rightarrow> 'a list option" where
  "memcpy_at dst at src n =
    (if 0 \<le> at \<and> 0 \<le> n \<and> at + n \<le> int (length dst) \<and> n \<le> int (length src)
     then Some (take (nat at) dst @ take (nat n) src @ drop (nat (at + n)) dst) else None)"

partial_function (option) gen_buf_loop ::
  "string \<Rightarrow> int \<Rightarrow> int \<Rightarrow> int \<Rightarrow> string \<Rightarrow> string option" where
  "gen_buf_loop append_string input_size i cpylen payload =
    (if i < input_size then
       let cpylen = (if input_size < i + int (length append_string) then input_size - i else cpylen) in
       Option.bind (memcpy_at payload i append_string cpylen)
         (\<lambda>payload. gen_buf_loop append_string input_size (i + cpylen) cpylen payload)
     else Some payload)"

text \<open>\<open>garbage\<close> is the content of the freshly allocated buffer, one byte per byte of it.\<close>

definition gen_compressible_buf :: "string \<Rightarrow> string \<Rightarrow> string option" where
  "gen_compressible_buf append_string garbage =
    gen_buf_loop append_string (int (length garbage)) 0 (int (length append_string)) garbage"

section \<open>Random pointer chains\<close>

text \<open>The Fisher-Yates loop; \<open>k\<close> counts the calls of \<open>rand()\<close>, the first argument is \<open>i\<close>.\<close>

fun perm_loop :: "(nat \<Rightarrow> nat) \<Rightarrow> nat \<Rightarrow> nat \<Rightarrow> nat list \<Rightarrow> nat list option" where
  "perm_loop rnd 0 k array = Some array"
| "perm_loop rnd (Suc i) k array =
    do {
      let j = rnd k mod (Suc i + 1);
      temp \<leftarrow> arr_get array (int (Suc i));
      aj \<leftarrow> arr_get array (int j);
      array \<leftarrow> arr_set array (int (Suc i)) aj;
      array \<leftarrow> arr_set array (int j) temp;
      perm_loop rnd i (Suc k) array
    }"

definition random_permutation :: "(nat \<Rightarrow> nat) \<Rightarrow> nat list \<Rightarrow> nat \<Rightarrow> nat list option" where
  "random_permutation rnd array sz = perm_loop rnd (sz - 1) 0 array"

text \<open>Both chain builders: slot \<open>indices[i-1] * 8\<close> gets the address of line \<open>indices[i]\<close>, and the
  last line points back to the first.  With no line at all the code reads
  \<open>indices[len - 1]\<close> with \<open>len - 1\<close> wrapped around, outside of \<open>indices\<close>.\<close>

definition link_chain :: "(nat \<Rightarrow> 'p) \<Rightarrow> nat list \<Rightarrow> 'p option list \<Rightarrow> 'p option list option" where
  "link_chain addr indices memory =
    do {
      memory \<leftarrow> foldM (\<lambda>i memory.
                  do {
                    prev \<leftarrow> arr_get indices (int i - 1);
                    cur \<leftarrow> arr_get indices (int i);
                    arr_set memory (int (prev * 8)) (Some (addr (cur * 8)))
                  }) [1..<length indices] memory;
      last \<leftarrow> arr_get indices (int (length indices) - 1);
      first \<leftarrow> arr_get indices 0;
      arr_set memory (int (last * 8)) (Some (addr (first * 8)))
    }"

definition create_chain :: "(nat \<Rightarrow> nat) \<Rightarrow> (nat \<Rightarrow> 'p) \<Rightarrow> nat \<Rightarrow> 'p option list option" where
  "create_chain rnd addr sz =
    do {
      let len = sz div 64;
      let memory = replicate (sz div 8) None;
      indices \<leftarrow> random_permutation rnd [0..<len] len;
      link_chain addr indices memory
    }"

definition create_random_chain :: "(nat \<Rightarrow> nat) \<Rightarrow> nat \<Rightarrow> nat option list option" where
  "create_random_chain rnd sz = create_chain rnd (\<lambda>k. k) sz"

text \<open>The addresses are taken in the block at \<open>st_addr\<close> instead of in the new block.\<close>

definition create_random_chain_starting_at ::
  "(nat \<Rightarrow> nat) \<Rightarrow> nat \<Rightarrow> u64 \<Rightarrow> u64 option list option" where
  "create_random_chain_starting_at rnd sz st_addr =
    create_chain rnd (\<lambda>k. st_addr + 8 * of_nat k) sz"

section \<open>Pointer chasing\<close>

definition deref :: "nat option list \<Rightarrow> nat \<Rightarrow> nat option" where
  "deref memory p = Option.bind (arr_get memory (int p)) (\<lambda>v. v)"

fun chase_loop :: "nat option list \<Rightarrow> nat \<Rightarrow> nat \<Rightarrow> nat option" where
  "chase_loop memory 0 p = Some p"
| "chase_loop memory (Suc cnt) p = Option.bind (deref memory p) (chase_loop memory cnt)"

text \<open>\<open>chase_pointers\<close>: the value stored into \<open>chase_pointers_global\<close>.\<close>

definition chase_pointers :: "nat option list \<Rightarrow> nat \<Rightarrow> int \<Rightarrow> nat option" where
  "chase_pointers memory p cnt = Option.bind (chase_loop memory (nat cnt) p) (deref memory)"

text \<open>\<open>debug_chain\<close>: the number of pointers it prints; it loops until it is back at the start.\<close>

partial_function (option) debug_loop :: "nat option list \<Rightarrow> nat \<Rightarrow> nat \<Rightarrow> nat \<Rightarrow> nat option" where
  "debug_loop memory start p cnt =
    Option.bind (deref memory p)
      (\<lambda>p. if p \<noteq> start then debug_loop memory start p (Suc cnt) else Some (Suc cnt))"

definition debug_chain :: "nat option list \<Rightarrow> nat \<Rightarrow> nat option" where
  "debug_chain memory start = debug_loop memory start start 0"

section \<open>The generators\<close>

lemma memcpy_at_nat:
  "i + n \<le> length dst \<Longrightarrow> n \<le> length src \<Longrightarrow>
    memcpy_at dst (int i) src (int n) = Some (take i dst @ take n src @ drop (i + n) dst)"
  by (simp add: memcpy_at_def flip: of_nat_add)

definition cyclic_upto :: "'a list \<Rightarrow> nat \<Rightarrow> 'a list \<Rightarrow> bool" where
  "cyclic_upto pat i buf \<longleftrightarrow> (\<forall>j < i. buf ! j = pat ! (j mod length pat))"

lemma gen_buf_loop_spec:
  assumes "pat \<noteq> []" and "i \<le> length buf" and "cyclic_upto pat i buf"
    and "i < length buf \<longrightarrow> length pat dvd i"
  shows "\<exists>p. gen_buf_loop pat (int (length buf)) (int i) (int (length pat)) buf = Some p \<and>
    length p = length buf \<and> cyclic_upto pat (length buf) p"
  using assms(2-)
proof (induction "length buf - i" arbitrary: i buf rule: less_induct)
  case less
  show ?case
  proof (cases "i < length buf")
    case False
    with less.prems show ?thesis by (subst gen_buf_loop.simps) (auto simp: le_antisym)
  next
    case True
    let ?n = "if length buf < i + length pat then length buf - i else length pat"
    let ?buf = "take i buf @ take ?n pat @ drop (i + ?n) buf"
    have n: "0 < ?n" "i + ?n \<le> length buf" "?n \<le> length pat" using True assms(1) by auto
    have len: "length ?buf = length buf" using n True by simp
    have dvd: "length pat dvd i" using less.prems(3) True by simp
    have cyc: "cyclic_upto pat (i + ?n) ?buf"
      unfolding cyclic_upto_def
    proof (intro allI impI)
      fix j assume j: "j < i + ?n"
      show "?buf ! j = pat ! (j mod length pat)"
      proof (cases "j < i")
        case True
        with less.prems(2) n show ?thesis by (simp add: nth_append cyclic_upto_def)
      next
        case False
        then obtain k where k: "j = i + k" "k < ?n" using j by (metis le_add_diff_inverse not_less nat_add_left_cancel_less)
        have "(i + k) mod length pat = k mod length pat"
          using dvd by (metis add_0 mod_add_left_eq dvd_eq_mod_eq_0)
        with k n have "j mod length pat = k" by simp
        with k n True show ?thesis by (simp add: nth_append)
      qed
    qed
    have step: "gen_buf_loop pat (int (length buf)) (int i) (int (length pat)) buf =
        gen_buf_loop pat (int (length buf)) (int (i + ?n)) (int ?n) ?buf"
    proof -
      have "(if int (length buf) < int i + int (length pat) then int (length buf) - int i
          else int (length pat)) = int ?n"
        using True by (auto simp: of_nat_diff)
      moreover have "memcpy_at buf (int i) pat (int ?n) = Some ?buf"
        using n by (intro memcpy_at_nat)
      ultimately show ?thesis
        using True by (subst gen_buf_loop.simps) (simp only: Let_def bind.bind_lunit of_nat_add of_nat_less_iff if_True)
    qed
    show ?thesis
    proof (cases "length buf < i + length pat")
      case True
      then have "i + ?n = length buf" using n by simp
      with step cyc len show ?thesis by (subst (asm) gen_buf_loop.simps) auto
    next
      case False
      then have "?n = length pat" by simp
      moreover have "length buf - (i + ?n) < length buf - i" using n True by simp
      ultimately show ?thesis
        using less.hyps [of "?buf" "i + ?n"] len cyc n dvd step by simp
    qed
  qed
qed


lemma perm_loop_mset:
  assumes "i < length a \<or> i = 0"
  shows "\<exists>b. perm_loop rnd i k a = Some b \<and> mset b = mset a"
  using assms
proof (induction rnd i k a rule: perm_loop.induct)
  case (2 rnd i k a)
  let ?j = "rnd k mod (Suc i + 1)"
  let ?a = "(a[Suc i := a ! ?j])[?j := a ! Suc i]"
  have b: "Suc i < length a" using "2.prems" by simp
  have "?j < Suc i + 1" by (rule mod_less_divisor) simp
  with b have j: "?j < length a" by linarith
  have e: "arr_get a (int (Suc i)) = Some (a ! Suc i)" "arr_get a (int ?j) = Some (a ! ?j)"
    "arr_set a (int (Suc i)) (a ! ?j) = Some (a[Suc i := a ! ?j])"
    "arr_set (a[Suc i := a ! ?j]) (int ?j) (a ! Suc i) = Some ?a"
    using b j by (simp_all only: arr_get_nat arr_set_nat length_list_update)
  have "i < length ?a \<or> i = 0" using b by simp
  from "2.IH" [OF refl e this] obtain c where
    c: "perm_loop rnd i (Suc k) ?a = Some c" "mset c = mset ?a" by blast
  have "mset ?a = mset a" using mset_swap [OF j b] by (metis list_update_swap list_update_overwrite)
  with c e show ?case by (simp only: perm_loop.simps Let_def bind.bind_lunit) simp
qed simp

lemma random_permutation_mset:
  "\<exists>b. random_permutation rnd a (length a) = Some b \<and> mset b = mset a"
  unfolding random_permutation_def by (rule perm_loop_mset) auto

lemma link_chain_spec:
  assumes "distinct p" and "p \<noteq> []" and "\<forall>x \<in> set p. x * 8 < length mem"
  shows "\<exists>m. link_chain addr p mem = Some m \<and> length m = length mem \<and>
    (\<forall>i < length p. m ! (p ! i * 8) = Some (addr (p ! (Suc i mod length p) * 8)))"
proof -
  let ?n = "length p"
  let ?f = "\<lambda>i memory. do {
      prev \<leftarrow> arr_get p (int i - 1); cur \<leftarrow> arr_get p (int i);
      arr_set memory (int (prev * 8)) (Some (addr (cur * 8))) }"
  let ?P = "\<lambda>h m. length m = length mem \<and>
    (\<forall>i < h - 1. m ! (p ! i * 8) = Some (addr (p ! Suc i * 8)))"
  have in_mem: "p ! i * 8 < length mem" if "i < ?n" for i
    using assms(3) that nth_mem by blast
  have inj: "p ! i * 8 = p ! j * 8 \<longleftrightarrow> i = j" if "i < ?n" "j < ?n" for i j
    using that assms(1) by (simp add: nth_eq_iff_index_eq)
  have "1 \<le> ?n" using assms(2) by (cases p) simp_all
  have "\<exists>m. foldM ?f [1..<?n] mem = Some m \<and> ?P ?n m"
  proof (rule foldM_upt_rule)
    fix i m assume i: "1 \<le> i" "i < ?n" and P: "?P i m"
    obtain j where j: "i = Suc j" using i(1) by (cases i) simp_all
    have "arr_get p (int i - 1) = Some (p ! j)" using i j arr_get_nat [of j p] by simp
    moreover have "arr_get p (int i) = Some (p ! i)" using i by (simp only: arr_get_nat)
    moreover have "arr_set m (int (p ! j * 8)) v = Some (m[p ! j * 8 := v])" for v
      by (rule arr_set_nat) (use in_mem [of j] i j P in simp)
    moreover have "?P (Suc i) (m[p ! j * 8 := Some (addr (p ! i * 8))])"
    proof (intro conjI allI impI)
      fix h assume "h < Suc i - 1"
      then have h: "h < j \<or> h = j" "h < ?n" "p ! h * 8 < length m"
        using i j in_mem [of h] P by auto
      show "m[p ! j * 8 := Some (addr (p ! i * 8))] ! (p ! h * 8) = Some (addr (p ! Suc h * 8))"
        using h(1,3) inj [of j h] h(2) i j P by (cases "h = j") simp_all
    qed (use P in simp)
    ultimately show "\<exists>m'. ?f i m = Some m' \<and> ?P (Suc i) m'" by auto
  qed (use \<open>1 \<le> ?n\<close> in auto)
  then obtain m where m: "foldM ?f [1..<?n] mem = Some m" "?P ?n m" by blast
  obtain l where l: "?n = Suc l" using \<open>1 \<le> ?n\<close> by (cases ?n) simp_all
  have "arr_get p (int ?n - 1) = Some (p ! l)" using l arr_get_nat [of l p] by simp
  moreover have "arr_get p 0 = Some (p ! 0)" using l arr_get_nat [of 0 p] by simp
  moreover have "arr_set m (int (p ! l * 8)) v = Some (m[p ! l * 8 := v])" for v
    by (rule arr_set_nat) (use in_mem [of l] l m in simp)
  ultimately have "link_chain addr p mem = Some (m[p ! l * 8 := Some (addr (p ! 0 * 8))])"
    using m(1) by (simp add: link_chain_def)
  moreover have "\<forall>i < ?n. m[p ! l * 8 := Some (addr (p ! 0 * 8))] ! (p ! i * 8) =
      Some (addr (p ! (Suc i mod ?n) * 8))"
  proof (intro allI impI)
    fix h assume h: "h < ?n"
    then have "p ! h * 8 < length m" using in_mem m(2) by simp
    then show "m[p ! l * 8 := Some (addr (p ! 0 * 8))] ! (p ! h * 8) =
        Some (addr (p ! (Suc h mod ?n) * 8))"
      using h inj [of l h] l m(2) by (cases "h = l") simp_all
  qed
  ultimately show ?thesis using m(2) by auto
qed

text \<open>A block is one cycle through its cache lines when the lines can be listed, without
  repetition, so that each slot points at the next one and the last at the first.\<close>

definition line_cycle :: "nat list \<Rightarrow> nat \<Rightarrow> nat option list \<Rightarrow> bool" where
  "line_cycle p len mem \<longleftrightarrow> distinct p \<and> set p = {0..<len} \<and> length p = len \<and>
    (\<forall>i < len. deref mem (p ! i * 8) = Some (p ! (Suc i mod len) * 8))"

lemma line_slot_less:
  assumes "x < (sz :: nat) div 64" shows "x * 8 < sz div 8"
proof -
  have "x * 8 + 8 \<le> sz div 64 * 8" using assms by simp
  also have "sz div 64 * 8 \<le> sz div 8" by (simp add: div_mult2_eq [of sz 8 8, simplified])
  finally show ?thesis by simp
qed

lemma create_chain_spec:
  assumes "64 \<le> sz"
  shows "\<exists>p m. create_chain rnd addr sz = Some m \<and> length m = sz div 8 \<and>
    distinct p \<and> set p = {0..<sz div 64} \<and> length p = sz div 64 \<and>
    (\<forall>i < sz div 64. m ! (p ! i * 8) = Some (addr (p ! (Suc i mod (sz div 64)) * 8)))"
proof -
  let ?len = "sz div 64"
  obtain p where p: "random_permutation rnd [0..<?len] ?len = Some p" "mset p = mset [0..<?len]"
    using random_permutation_mset [of rnd "[0..<?len]"] by auto
  have d: "distinct p" "set p = {0..<?len}" "length p = ?len"
    using p(2) mset_eq_imp_distinct_iff [OF p(2)] mset_eq_setD [OF p(2)] mset_eq_length [OF p(2)] by simp_all
  have "1 \<le> ?len" using div_le_mono [OF assms, of 64] by simp
  with d(3) have ne: "p \<noteq> []" by auto
  from d have "\<forall>x \<in> set p. x * 8 < length (replicate (sz div 8) (None :: 'a option))"
    by (simp add: line_slot_less)
  then obtain m where m: "link_chain addr p (replicate (sz div 8) None) = Some m"
    "length m = sz div 8" "\<forall>i < ?len. m ! (p ! i * 8) = Some (addr (p ! (Suc i mod ?len) * 8))"
    using link_chain_spec [OF d(1) ne, of "replicate (sz div 8) None" addr] d(3) by auto
  have "create_chain rnd addr sz = Some m"
    using p(1) m(1) by (simp add: create_chain_def)
  with m(2,3) d show ?thesis by blast
qed

lemma create_random_chain_cycle:
  assumes "64 \<le> sz"
  shows "\<exists>p m. create_random_chain rnd sz = Some m \<and> line_cycle p (sz div 64) m"
proof -
  obtain p m where pm: "create_chain rnd (\<lambda>k. k) sz = Some m" "length m = sz div 8"
    "distinct p" "set p = {0..<sz div 64}" "length p = sz div 64"
    "\<forall>i < sz div 64. m ! (p ! i * 8) = Some (p ! (Suc i mod (sz div 64)) * 8)"
    using create_chain_spec [OF assms, of rnd "\<lambda>k. k"] by blast
  have "deref m (p ! i * 8) = m ! (p ! i * 8)" if "i < sz div 64" for i
  proof -
    have "p ! i < sz div 64" using pm(4,5) that nth_mem by fastforce
    then have "p ! i * 8 < length m" unfolding pm(2) by (rule line_slot_less)
    then show ?thesis by (simp only: deref_def arr_get_nat bind.bind_lunit)
  qed
  with pm show ?thesis by (auto simp: create_random_chain_def line_cycle_def)
qed

lemma chase_loop_cycle:
  assumes "line_cycle p len mem" and "i < len"
  shows "chase_loop mem n (p ! i * 8) = Some (p ! ((i + n) mod len) * 8)"
  using assms(2)
proof (induction n arbitrary: i)
  case (Suc n)
  have "Suc i mod len < len" using Suc.prems by (intro mod_less_divisor) simp
  then have "chase_loop mem n (p ! (Suc i mod len) * 8) = Some (p ! ((Suc i mod len + n) mod len) * 8)"
    by (rule Suc.IH)
  moreover have "(Suc i mod len + n) mod len = (i + Suc n) mod len"
    by (metis add_Suc_shift mod_add_left_eq)
  ultimately show ?case using assms(1) Suc.prems by (simp add: line_cycle_def)
qed simp

lemma line_cycle_index:
  assumes "line_cycle p len mem" and "l < len"
  obtains i where "i < len" and "p ! i = l"
  using assms by (metis atLeastLessThan_iff in_set_conv_nth le0 line_cycle_def)

lemma debug_loop_cycle:
  assumes "line_cycle p len mem" and "i < len" and "k < len"
  shows "debug_loop mem (p ! i * 8) (p ! ((i + k) mod len) * 8) k = Some len"
  using assms(3)
proof (induction "len - k" arbitrary: k)
  case (Suc d)
  let ?j = "(i + k) mod len"
  have j: "?j < len" using assms(2) by (intro mod_less_divisor) simp
  have s: "Suc ?j mod len = (i + Suc k) mod len" by (simp add: mod_Suc_eq)
  have d: "deref mem (p ! ?j * 8) = Some (p ! ((i + Suc k) mod len) * 8)"
    using assms(1) j s by (simp add: line_cycle_def)
  have jl: "(i + Suc k) mod len < len" using assms(2) by (intro mod_less_divisor) simp
  have eq: "p ! ((i + Suc k) mod len) = p ! i \<longleftrightarrow> (i + Suc k) mod len = i"
    using assms(1,2) jl by (simp add: line_cycle_def nth_eq_iff_index_eq)
  show ?case
  proof (cases "Suc k = len")
    case True
    then have "(i + Suc k) mod len = i" using assms(2) by simp
    with d eq True show ?thesis by (subst debug_loop.simps) simp
  next
    case False
    with Suc.prems have k: "Suc k < len" by simp
    have "(i + Suc k) mod len \<noteq> i"
    proof
      assume a: "(i + Suc k) mod len = i"
      show False
      proof (cases "i + Suc k < len")
        case False
        then have "(i + Suc k) mod len = i + Suc k - len"
          using assms(2) k by (simp add: mod_if)
        with a k False show False by simp
      qed (use a in simp)
    qed
    moreover have "debug_loop mem (p ! i * 8) (p ! ((i + Suc k) mod len) * 8) (Suc k) = Some len"
      using Suc.hyps(2) k by (intro Suc.hyps(1)) simp_all
    ultimately show ?thesis using d eq by (subst debug_loop.simps) simp
  qed
qed simp


section \<open>Properties\<close>

lemma string_loop_diverges:
  assumes "0 < n"
  shows "while_option (\<lambda>payload. length payload < n) (\<lambda>payload. payload @ []) ([] :: 'a list) = None"
proof (rule ccontr)
  assume "while_option (\<lambda>payload. length payload < n) (\<lambda>payload. payload @ []) ([] :: 'a list) \<noteq> None"
  then obtain p :: "'a list" where
    "while_option (\<lambda>payload. length payload < n) (\<lambda>payload. payload @ []) [] = Some p"
    by blast
  from while_option_rule [where P = "\<lambda>p. p = []", OF _ this] while_option_stop [OF this] assms
  show False by simp
qed

lemma string_loop_spec:
  assumes "pat \<noteq> []"
  shows "\<exists>p k. while_option (\<lambda>payload. length payload < n) (\<lambda>payload. payload @ pat) [] = Some p \<and>
    p = concat (replicate k pat) \<and> n \<le> length p \<and> (k = 0 \<or> (k - 1) * length pat < n)"
proof -
  let ?b = "\<lambda>payload. length payload < n" and ?c = "\<lambda>payload. payload @ pat"
  let ?P = "\<lambda>p. \<exists>k. p = concat (replicate k pat) \<and> (k = 0 \<or> (k - 1) * length pat < n)"
  have "\<exists>p. while_option ?b ?c [] = Some p"
    by (rule measure_while_option_Some [where P = "\<lambda>_. True" and f = "\<lambda>p. n - length p" and s = "[]",
      simplified simp_thms]) (use assms in \<open>auto intro: diff_less_mono2\<close>)
  then obtain p where p: "while_option ?b ?c [] = Some p" by blast
  have "?P p"
  proof (rule while_option_rule [where P = ?P, OF _ p])
    fix q assume "?P q" and q: "length q < n"
    then obtain k where k: "q = concat (replicate k pat)" by blast
    then have "q @ pat = concat (replicate (Suc k) pat)"
      by (simp only: replicate_append_same [symmetric] replicate_Suc) simp
    moreover have "k * length pat < n" using q k by (simp add: length_concat sum_list_replicate)
    ultimately show "?P (q @ pat)" by (metis diff_Suc_1)
  qed (auto intro: exI [of _ 0])
  with p while_option_stop [OF p] show ?thesis by auto
qed

text \<open>gen_compressible_string returns exactly when the pattern is not empty or nothing is asked
  for; what it returns is k copies of the pattern for the least k that gives at least the number of
  characters asked for.\<close>

theorem gen_compressible_string_spec:
  "(case gen_compressible_string pat n of
      None \<Rightarrow> pat = [] \<and> 0 < n
    | Some p \<Rightarrow> (\<exists>k. p = concat (replicate k pat) \<and> n \<le> length p \<and> (k = 0 \<or> (k - 1) * length pat < n)))"
proof (cases "pat = [] \<and> 0 < n")
  case True
  then have "gen_compressible_string pat n = None"
    unfolding gen_compressible_string_def by (simp only: string_loop_diverges)
  with True show ?thesis by simp
next
  case False
  show ?thesis
  proof (cases "pat = []")
    case True
    with False have "gen_compressible_string pat n = Some (concat (replicate 0 pat))"
      by (simp add: gen_compressible_string_def while_option_unfold)
    with True False show ?thesis by auto
  next
    case False
    with string_loop_spec [OF False, of n] show ?thesis
      by (auto simp: gen_compressible_string_def)
  qed
qed

text \<open>gen_compressible_buf never copies outside of the buffer it allocated and fills all of it:
  whatever the fresh buffer held, byte j of the result is byte j mod length of the pattern.\<close>

theorem gen_compressible_buf_cyclic:
  assumes "pat \<noteq> []"
  shows "\<exists>buf. gen_compressible_buf pat garbage = Some buf \<and> length buf = length garbage \<and>
    (\<forall>j < length garbage. buf ! j = pat ! (j mod length pat))"
  using gen_buf_loop_spec [OF assms, of 0 garbage]
  by (auto simp: gen_compressible_buf_def cyclic_upto_def)

theorem gen_compressible_buf_cyclic_witness:
  "\<exists>buf. gen_compressible_buf ''abc'' ''.......'' = Some buf \<and> length buf = 7 \<and> buf ! 6 = CHR ''a''"
  using gen_compressible_buf_cyclic [of "''abc''" "''.......''"] by auto

text \<open>random_permutation never leaves its array, and whatever rand() returns it only
  rearranges the entries.\<close>

theorem random_permutation_permutes:
  assumes "sz = length array"
  shows "\<exists>b. random_permutation rnd array sz = Some b \<and> mset b = mset array"
  using random_permutation_mset assms by simp

theorem random_permutation_permutes_witness:
  "random_permutation (\<lambda>k. k + 1) [10, 20, 30] 3 = Some [30, 10, 20] \<and>
   (\<exists>b. random_permutation (\<lambda>k. k + 1) [10, 20, 30] 3 = Some b \<and> mset b = mset [10, 20, 30])"
proof (rule conjI)
  show "random_permutation (\<lambda>k. k + 1) [10, 20, 30] 3 = Some [30, 10, 20]" by code_simp
qed (rule random_permutation_permutes, simp)

text \<open>C20: for a block of at least one cache line, create_random_chain links every cache line into
  one single cycle: chasing from any line visits, in as many steps as there are lines, each line
  exactly once and ends where it started.\<close>

theorem create_random_chain_single_cycle:
  assumes "64 \<le> sz" and "l < sz div 64"
  shows "\<exists>m q. create_random_chain rnd sz = Some m \<and>
    distinct q \<and> set q = {0..<sz div 64} \<and> q ! 0 = l \<and>
    (\<forall>n. chase_loop m n (l * 8) = Some (q ! (n mod (sz div 64)) * 8))"
proof -
  let ?len = "sz div 64"
  obtain p m where m: "create_random_chain rnd sz = Some m" "line_cycle p ?len m"
    using create_random_chain_cycle [OF assms(1)] by blast
  obtain i where i: "i < ?len" "p ! i = l" using line_cycle_index [OF m(2) assms(2)] .
  have len: "length p = ?len" "distinct p" "set p = {0..<?len}"
    using m(2) by (simp_all add: line_cycle_def)
  have "rotate i p ! (n mod ?len) = p ! ((i + n) mod ?len)" for n
    using i(1) len by (simp add: nth_rotate mod_add_right_eq)
  then have "chase_loop m n (l * 8) = Some (rotate i p ! (n mod ?len) * 8)" for n
    using chase_loop_cycle [OF m(2) i(1)] i(2) by simp
  moreover have "rotate i p ! 0 = l" using i len nth_rotate [of 0 p i] by simp
  ultimately show ?thesis using m(1) len by (intro exI [of _ m] exI [of _ "rotate i p"]) simp
qed

theorem create_random_chain_single_cycle_witness:
  "\<exists>m q. create_random_chain (\<lambda>_. 7) 256 = Some m \<and> distinct q \<and> set q = {0..<4} \<and> q ! 0 = 2 \<and>
    (\<forall>n. chase_loop m n 16 = Some (q ! (n mod 4) * 8))"
  using create_random_chain_single_cycle [of 256 2 "\<lambda>_. 7"] by simp

text \<open>on a block made by create_random_chain, debug_chain started at any cache line
  terminates and prints one pointer per cache line of the block.\<close>

theorem debug_chain_visits_all:
  assumes "create_random_chain rnd sz = Some m" and "l < sz div 64"
  shows "debug_chain m (l * 8) = Some (sz div 64)"
proof -
  have "1 \<le> sz div 64" using assms(2) by simp
  then have "64 \<le> sz" by (metis One_nat_def div_less not_less not_one_le_zero)
  then obtain p where p: "line_cycle p (sz div 64) m"
    using create_random_chain_cycle [of sz rnd] assms(1) by auto
  obtain i where i: "i < sz div 64" "p ! i = l" using line_cycle_index [OF p assms(2)] .
  with debug_loop_cycle [OF p i(1), of 0] show ?thesis by (simp add: debug_chain_def)
qed

theorem debug_chain_visits_all_witness:
  "create_random_chain (\<lambda>_. 0) 128 = Some ([Some 8] @ replicate 7 None @ [Some 0] @ replicate 7 None) \<and>
   debug_chain ([Some 8] @ replicate 7 None @ [Some 0] @ replicate 7 None) 8 = Some 2"
proof -
  have "create_random_chain (\<lambda>_. 0) 128 = Some ([Some 8] @ replicate 7 None @ [Some 0] @ replicate 7 None)"
    by code_simp
  with debug_chain_visits_all [of "\<lambda>_. 0" 128 _ 1] show ?thesis by simp
qed

text \<open>create_random_chain reads indices[len - 1] outside of its index array for every block
  smaller than one cache line (the code asserts nothing about the size).\<close>

theorem create_random_chain_small_oob:
  "sz < 64 \<Longrightarrow> create_random_chain rnd sz = None"
  by (simp add: create_random_chain_def create_chain_def link_chain_def random_permutation_def arr_get_def)

theorem create_random_chain_small_oob_witness: "create_random_chain (\<lambda>_. 0) 63 = None"
  using create_random_chain_small_oob [of 63 "\<lambda>_. 0"] by simp

end
