(* ===== verification/XMP_World.thy ===== *)
theory XMP_World
  imports XMP_Prelude "HOL-Library.Monad_Syntax"
begin

unbundle bit_operations_syntax

text \<open>
  The state that the requests, executors and harnesses of the framework share, and the machine
  they run on.

  A \<open>world\<close> holds the C heap (blocks by allocation number, \<open>NULL\<close> is 0; a number is never used
  again, so a use after free and a double free are visible), the array of completion records, the
  globals \<open>requests_completed\<close>, \<open>glob_indir_arr\<close>, \<open>item_buf\<close>, \<open>glb_ll_head\<close> and \<open>glb_node_ptr\<close>, counters for the reads of the time stamp counter, the status polls
  and the \<open>ENQCMD\<close> instructions, and an \<open>obs\<close> list of what the code shows to the outside
  (submissions and hash values).  Code that is not in the repository enters through the record
  \<open>env\<close>: the time stamp counter, the accelerator behind the work queue, \<open>rand()\<close> and zlib, and
  the values of the global configuration variables.

  Every operation returns an option: \<open>None\<close> is undefined behaviour (an access outside a block, a
  use after free) or a loop that never ends.
\<close>

section \<open>Heap blocks, descriptors and completion records\<close>

type_synonym ptr = nat

text \<open>\<open>struct hw_desc\<close>.  An address of a buffer is the number of its block, the address of a
  completion record its index in the array of completion records.\<close>

record hw_desc =
  d_flags :: u32
  d_opcode :: u8
  d_src_addr :: ptr
  d_dst_addr :: ptr
  d_xfer_size :: u32
  d_completion_addr :: nat
  d_compr_flags :: u32
  d_src2_addr :: ptr
  d_src2_xfer_size :: u32
  d_max_dst_size :: u32
  d_num_inputs :: u32
  d_filter_flags :: u32

definition zero_desc :: hw_desc where
  "zero_desc = \<lparr>d_flags = 0, d_opcode = 0, d_src_addr = 0, d_dst_addr = 0, d_xfer_size = 0,
    d_completion_addr = 0, d_compr_flags = 0, d_src2_addr = 0, d_src2_xfer_size = 0,
    d_max_dst_size = 0, d_num_inputs = 0, d_filter_flags = 0\<rparr>"

text \<open>A block: bytes, 64 bit words (time stamps), \<open>int\<close>s (index arrays), a descriptor, a node of a
  posting list (its \<open>docID\<close> and \<open>next\<close>; the padding is not modelled), or a block
  whose content the model keeps as an Isabelle value (argument structs, arrays of pointers, fiber
  stacks, C++ objects).\<close>

datatype block = Bytes "u8 list" | Words "u64 list" | Ints "int list" | Desc hw_desc | Node int ptr | Opaque

text \<open>A completion record.  \<open>job\<close> is the operation the accelerator still has to do for it, and the
  poll at which it is done: a hardware descriptor, or an offload of the emulated accelerator, which
  moves no data.\<close>

datatype work = Hw hw_desc | Emulated

record comp =
  status :: u8
  job :: "(work \<times> nat) option"

definition idle_comp :: comp where "idle_comp = \<lparr>status = 0, job = None\<rparr>"

definition COMP_STATUS_PENDING :: u8 where "COMP_STATUS_PENDING = 0"
definition COMP_STATUS_COMPLETED :: u8 where "COMP_STATUS_COMPLETED = 1"

datatype queue = IAA | DSA | AX

datatype event = Submitted queue hw_desc | Hashed u32

record world =
  heap :: "ptr \<Rightarrow> block option"
  nxt :: ptr
  crs :: "comp list"
  polls :: nat
  tscs :: nat
  enqs :: nat
  rands :: nat
  g_indir_arr :: ptr
  g_item_buf :: ptr
  g_ll_head :: ptr
  g_node_ptr :: ptr
  requests_completed :: int
  obs :: "event list"

text \<open>zlib's return codes.\<close>

datatype zret = Z_OK | Z_STREAM_END | Z_NEED_DICT | Z_STREAM_ERROR | Z_DATA_ERROR | Z_MEM_ERROR | Z_BUF_ERROR

text \<open>The environment.  \<open>tsc k\<close> is the result of the \<open>k\<close>-th \<open>rdtsc\<close>, \<open>busy k\<close> whether the
  \<open>k\<close>-th \<open>ENQCMD\<close> finds the queue full, \<open>latency k\<close> the number of polls the operation it accepted
  takes, \<open>verdict\<close> and \<open>transfer\<close> the status and the destination the device writes.  zlib is
  given by its return codes and output: \<open>inflate_call src avail_in avail_out k\<close> is the code of the
  \<open>k\<close>-th call of \<open>inflate\<close> on a stream and what the stream has put out so far,
  \<open>deflate_call\<close> also tells how much input is left, and \<open>deflate_finish\<close> is the call with
  \<open>Z_FINISH\<close>.  \<open>parse_key\<close> is the key that protobuf parses from a serialized request, \<open>serialize\<close> its encoding of a key.
  \<open>parse_value\<close> is the value it parses and \<open>serialize_put\<close> its encoding of a key and a value.
  \<open>deflate_bound\<close> is \<open>deflateBound\<close> on a stream with the settings of \<open>get_compress_bound\<close>, and
  \<open>gcm_decrypt\<close> what \<open>ippsAES_GCMDecrypt\<close> makes of a cipher text (\<open>None\<close> when it fails).
  \<open>dml_failure job dst\<close> tells whether the DML job in block \<open>job\<close> fails, and what it leaves in its
  destination then.  \<open>g_query\<close> and \<open>g_payload\<close> are the global strings that the programs grow before a run.  The constants are those of the \<open>idxd\<close> headers.\<close>

record env =
  tsc :: "nat \<Rightarrow> u64"
  busy :: "nat \<Rightarrow> bool"
  latency :: "nat \<Rightarrow> nat"
  verdict :: "hw_desc \<Rightarrow> u8"
  transfer :: "hw_desc \<Rightarrow> u8 list \<Rightarrow> u8 list \<Rightarrow> u8 list"
  rnd :: "nat \<Rightarrow> nat"
  inflate_init :: zret
  inflate_call :: "u8 list \<Rightarrow> nat \<Rightarrow> nat \<Rightarrow> nat \<Rightarrow> zret \<times> u8 list"
  inflate_end :: zret
  deflate_init :: zret
  deflate_call :: "u8 list \<Rightarrow> nat \<Rightarrow> nat \<Rightarrow> zret \<times> nat \<times> u8 list"
  deflate_finish :: "u8 list \<Rightarrow> nat \<Rightarrow> nat \<Rightarrow> zret \<times> u8 list"
  deflate_end :: zret
  parse_key :: "u8 list \<Rightarrow> u8 list"
  serialize :: "u8 list \<Rightarrow> u8 list"
  dml_failure :: "ptr \<Rightarrow> block \<Rightarrow> block option"
  garbage :: "nat \<Rightarrow> nat \<Rightarrow> u8"
  hash_garbage :: "u64 list \<times> int"
  iax_comp_none :: u8
  iax_comp_success :: u8
  flag_crav :: u32
  flag_rcr :: u32
  flag_bof :: u32
  opcode_memmove :: u8
  opcode_memfill :: u8
  opcode_decompress :: u8
  iaa_compress_aecs_size :: nat
  iaa_compress_max_dest_size :: nat
  input_size :: nat
  num_accesses :: nat
  pl_len :: int
  log_debug :: bool
  parse_value :: "u8 list \<Rightarrow> u8 list"
  serialize_put :: "u8 list \<Rightarrow> u8 list \<Rightarrow> u8 list"
  deflate_bound :: "nat \<Rightarrow> nat"
  gcm_decrypt :: "u8 list \<Rightarrow> u8 list option"
  iaa_compress_aecs :: "u8 list"
  iaa_compress_src2_size :: nat
  g_query :: "u8 list"
  g_payload :: "u8 list"

section \<open>Heap\<close>

definition malloc :: "block \<Rightarrow> world \<Rightarrow> ptr \<times> world" where
  "malloc b w = (nxt w, w\<lparr>heap := (heap w)(nxt w \<mapsto> b), nxt := Suc (nxt w)\<rparr>)"

text \<open>A fresh byte buffer holds garbage.\<close>

definition malloc_bytes :: "env \<Rightarrow> nat \<Rightarrow> world \<Rightarrow> ptr \<times> world" where
  "malloc_bytes hw n w = malloc (Bytes (map (garbage hw (nxt w)) [0..<n])) w"

definition mfree :: "ptr \<Rightarrow> world \<Rightarrow> world option" where
  "mfree p w =
    (if p = 0 then Some w
     else case heap w p of
         None \<Rightarrow> None
       | Some _ \<Rightarrow> Some (w\<lparr>heap := (heap w)(p := None)\<rparr>))"

definition get_bytes :: "ptr \<Rightarrow> world \<Rightarrow> u8 list option" where
  "get_bytes p w = (case heap w p of Some (Bytes bs) \<Rightarrow> Some bs | _ \<Rightarrow> None)"

definition set_bytes :: "ptr \<Rightarrow> u8 list \<Rightarrow> world \<Rightarrow> world" where
  "set_bytes p bs w = w\<lparr>heap := (heap w)(p \<mapsto> Bytes bs)\<rparr>"

definition get_ints :: "ptr \<Rightarrow> world \<Rightarrow> int list option" where
  "get_ints p w = (case heap w p of Some (Ints xs) \<Rightarrow> Some xs | _ \<Rightarrow> None)"

definition get_words :: "ptr \<Rightarrow> world \<Rightarrow> u64 list option" where
  "get_words p w = (case heap w p of Some (Words xs) \<Rightarrow> Some xs | _ \<Rightarrow> None)"

text \<open>32 bit loads and stores in a byte buffer, little endian; a \<open>float\<close> is its bit pattern.\<close>

definition load32 :: "u8 list \<Rightarrow> nat \<Rightarrow> u32 option" where
  "load32 bs i =
    (if i + 4 \<le> length bs
     then Some (ucast (bs ! i) OR push_bit 8 (ucast (bs ! (i + 1))) OR
                push_bit 16 (ucast (bs ! (i + 2))) OR push_bit 24 (ucast (bs ! (i + 3))))
     else None)"

definition store32 :: "u8 list \<Rightarrow> nat \<Rightarrow> u32 \<Rightarrow> u8 list option" where
  "store32 bs i v =
    (if i + 4 \<le> length bs
     then Some (bs[i := ucast v, i + 1 := ucast (drop_bit 8 v), i + 2 := ucast (drop_bit 16 v),
                   i + 3 := ucast (drop_bit 24 v)])
     else None)"

section \<open>Clock, device and queue\<close>

definition rdtsc :: "env \<Rightarrow> world \<Rightarrow> u64 \<times> world" where
  "rdtsc hw w = (tsc hw (tscs w), w\<lparr>tscs := Suc (tscs w)\<rparr>)"

text \<open>\<open>ts[id] = sampleCoderdtsc()\<close>.\<close>

definition stamp :: "env \<Rightarrow> ptr \<Rightarrow> nat \<Rightarrow> world \<Rightarrow> world option" where
  "stamp hw ts i w =
    do {
      let (t, w) = rdtsc hw w;
      xs \<leftarrow> get_words ts w;
      xs \<leftarrow> arr_set xs (int i) t;
      Some (w\<lparr>heap := (heap w)(ts \<mapsto> Words xs)\<rparr>)
    }"

definition verdict_of :: "env \<Rightarrow> work \<Rightarrow> u8" where
  "verdict_of hw x = (case x of Hw d \<Rightarrow> verdict hw d | Emulated \<Rightarrow> COMP_STATUS_COMPLETED)"

definition run_work :: "env \<Rightarrow> work \<Rightarrow> world \<Rightarrow> world" where
  "run_work hw x w =
    (case x of
       Emulated \<Rightarrow> w
     | Hw d \<Rightarrow>
         (case get_bytes (d_dst_addr d) w of
            None \<Rightarrow> w
          | Some dst \<Rightarrow>
              set_bytes (d_dst_addr d)
                (transfer hw d (case get_bytes (d_src_addr d) w of None \<Rightarrow> [] | Some src \<Rightarrow> src) dst) w))"

text \<open>The device does the operation of completion record \<open>i\<close> when its time has come: it writes
  the destination buffer and then the status.\<close>

definition device_finish :: "env \<Rightarrow> nat \<Rightarrow> world \<Rightarrow> world" where
  "device_finish hw i w =
    (case job (crs w ! i) of
       None \<Rightarrow> w
     | Some (x, t) \<Rightarrow>
         if t \<le> polls w then
           (let w = run_work hw x w in w\<lparr>crs := (crs w)[i := \<lparr>status = verdict_of hw x, job = None\<rparr>]\<rparr>)
         else w)"

definition tick :: "env \<Rightarrow> world \<Rightarrow> world" where
  "tick hw w = fold (device_finish hw) [0..<length (crs w)] (w\<lparr>polls := Suc (polls w)\<rparr>)"

text \<open>A read of \<open>comps[i].status\<close>: time passes for the device, then the status is loaded.\<close>

definition read_status :: "env \<Rightarrow> nat \<Rightarrow> world \<Rightarrow> (u8 \<times> world) option" where
  "read_status hw i w =
    (let w = tick hw w in
     if i < length (crs w) then Some (status (crs w ! i), w) else None)"

text \<open>\<open>enqcmd(wq_reg, desc)\<close>: \<open>True\<close> asks for a retry, \<open>False\<close> means the device has taken a copy of
  the descriptor.\<close>

definition enqcmd :: "env \<Rightarrow> queue \<Rightarrow> ptr \<Rightarrow> world \<Rightarrow> (bool \<times> world) option" where
  "enqcmd hw q desc w =
    (case heap w desc of
       Some (Desc d) \<Rightarrow>
         if busy hw (enqs w) then Some (True, w\<lparr>enqs := Suc (enqs w)\<rparr>)
         else if d_completion_addr d < length (crs w) then
           Some (False,
             w\<lparr>enqs := Suc (enqs w),
               crs := (crs w)[d_completion_addr d :=
                 (crs w ! d_completion_addr d)\<lparr>job := Some (Hw d, polls w + latency hw (enqs w))\<rparr>],
               obs := obs w @ [Submitted q d]\<rparr>)
         else None
     | _ \<Rightarrow> None)"

section \<open>Fibers\<close>

text \<open>A fiber that was switched to ends its slice in one of two ways: it switches back to the
  context it came from (\<open>Yield\<close>, with what it does when it is switched to again and is given the
  data argument of the switch), or its entry function returns, which ends the whole process with
  \<open>exit(0)\<close> (\<open>inc/fcontext.h\<close>).  A slice that never ends or is undefined is \<open>None\<close>.  The type is
  coinductive because a fiber such as a filler may be resumed again and again.\<close>

codatatype 'w slice = Yield 'w "nat \<Rightarrow> 'w \<Rightarrow> 'w slice option" | Exit 'w

type_synonym fiber = "nat \<Rightarrow> world \<Rightarrow> world slice option"

text \<open>The common end of a request: count it, switch back; if it were switched to again it would
  return from its entry function.\<close>

definition returns :: fiber where
  "returns data w = Some (Exit w)"

definition count_request :: "world \<Rightarrow> world" where
  "count_request w = w\<lparr>requests_completed := requests_completed w + 1\<rparr>"

definition finish_request :: "world \<Rightarrow> world slice option" where
  "finish_request w = Some (Yield (count_request w) returns)"

section \<open>What operations keep\<close>

text \<open>The kind of a block: what the requests never change of it.\<close>

datatype kind = KBytes nat | KWords nat | KInts nat "int set" | KDesc | KNode ptr | KOpaque

fun kind_of :: "block \<Rightarrow> kind" where
  "kind_of (Bytes bs) = KBytes (length bs)"
| "kind_of (Words xs) = KWords (length xs)"
| "kind_of (Ints xs) = KInts (length xs) (set xs)"
| "kind_of (Desc d) = KDesc"
| "kind_of (Node d n) = KNode n"
| "kind_of Opaque = KOpaque"

definition kinds :: "world \<Rightarrow> ptr \<Rightarrow> kind option" where
  "kinds w p = map_option kind_of (heap w p)"

text \<open>The shape of a world: the kinds of its blocks, the next free address and the global pointers.
  Requests never change it.\<close>

record shape =
  blocks :: "ptr \<Rightarrow> kind option"
  fresh_from :: ptr
  indir_at :: ptr
  item_at :: ptr

definition shape :: "world \<Rightarrow> shape" where
  "shape w = \<lparr>blocks = kinds w, fresh_from = nxt w, indir_at = g_indir_arr w, item_at = g_item_buf w\<rparr>"

definition comp_later :: "env \<Rightarrow> comp \<Rightarrow> comp \<Rightarrow> bool" where
  "comp_later hw c c' \<longleftrightarrow>
    c' = c \<or> (\<exists>x t. job c = Some (x, t) \<and> c' = \<lparr>status = verdict_of hw x, job = None\<rparr>)"

text \<open>The completion records for which operations were submitted, in order.\<close>

definition order_of :: "event list \<Rightarrow> nat list" where
  "order_of es = concat (map (\<lambda>e. case e of Submitted q d \<Rightarrow> [d_completion_addr d] | Hashed h \<Rightarrow> []) es)"

abbreviation submit_order :: "world \<Rightarrow> nat list" where "submit_order w \<equiv> order_of (obs w)"

lemma order_of_simps [simp]:
  "order_of [] = []" "order_of (es @ es') = order_of es @ order_of es'"
  "order_of [Submitted q d] = [d_completion_addr d]" "order_of [Hashed h] = []"
  by (simp_all add: order_of_def)

text \<open>\<open>later hw w w'\<close>: between \<open>w\<close> and \<open>w'\<close> nothing was allocated, freed, submitted or counted;
  time may have passed, the device may have finished operations, and the contents of buffers and
  time stamp arrays may have changed.\<close>

definition later :: "env \<Rightarrow> world \<Rightarrow> world \<Rightarrow> bool" where
  "later hw w w' \<longleftrightarrow> shape w' = shape w \<and>
    requests_completed w' = requests_completed w \<and> polls w \<le> polls w' \<and> submit_order w' = submit_order w \<and>
    list_all2 (comp_later hw) (crs w) (crs w')"

text \<open>What the code relies on: the queue accepts again, the status of a completed operation is not
  the one of a pending operation (0), and the device stays inside the destination buffer.  The last
  conjunct is the size of the on-stack cache of \<open>furc_hash\<close>.\<close>

definition env_ok :: "env \<Rightarrow> bool" where
  "env_ok hw \<longleftrightarrow> (\<forall>k. \<exists>j \<ge> k. \<not> busy hw j) \<and> (\<forall>d. verdict hw d \<noteq> 0) \<and>
    (\<forall>d s b. length (transfer hw d s b) = length b) \<and> iax_comp_none hw = 0 \<and>
    length (fst (hash_garbage hw)) = 1024"

definition completed_at :: "nat \<Rightarrow> world \<Rightarrow> bool" where
  "completed_at i w \<longleftrightarrow> status (crs w ! i) \<noteq> COMP_STATUS_PENDING"

definition in_flight_at :: "nat \<Rightarrow> world \<Rightarrow> bool" where
  "in_flight_at i w \<longleftrightarrow> completed_at i w \<or> job (crs w ! i) \<noteq> None"

named_theorems world_simps \<open>field equations of the operations on the world\<close>


lemma shape_sel [simp]: "blocks (shape w) = kinds w" "fresh_from (shape w) = nxt w"
  "indir_at (shape w) = g_indir_arr w" "item_at (shape w) = g_item_buf w"
  by (simp_all add: shape_def)

lemma shape_eq_iff: "shape w' = shape w \<longleftrightarrow> (\<forall>p. kinds w' p = kinds w p) \<and> nxt w' = nxt w \<and>
    g_indir_arr w' = g_indir_arr w \<and> g_item_buf w' = g_item_buf w"
  by (auto simp: shape_def)

lemma comp_later_refl [simp]: "comp_later hw c c"
  by (simp add: comp_later_def)

lemma comp_later_trans: "comp_later hw a b \<Longrightarrow> comp_later hw b c \<Longrightarrow> comp_later hw a c"
  by (auto simp: comp_later_def)

lemma later_refl [simp, intro]: "later hw w w"
  by (simp add: later_def list_all2_refl)

lemma later_trans [trans]: "later hw a b \<Longrightarrow> later hw b c \<Longrightarrow> later hw a c"
  unfolding later_def by (auto intro: list_all2_trans [OF comp_later_trans])

lemma later_length: "later hw w w' \<Longrightarrow> length (crs w') = length (crs w)"
  by (auto simp: later_def dest: list_all2_lengthD)

lemma later_nth: "later hw w w' \<Longrightarrow> i < length (crs w) \<Longrightarrow> comp_later hw (crs w ! i) (crs w' ! i)"
  by (auto simp: later_def dest: list_all2_nthD)

lemma verdict_of_not_pending: "env_ok hw \<Longrightarrow> verdict_of hw x \<noteq> COMP_STATUS_PENDING"
  by (cases x) (simp_all add: env_ok_def verdict_of_def COMP_STATUS_PENDING_def COMP_STATUS_COMPLETED_def)

lemma later_completed:
  assumes "env_ok hw" and "later hw w w'" and "i < length (crs w)" and "completed_at i w"
  shows "completed_at i w'"
  using later_nth [OF assms(2,3)] verdict_of_not_pending [OF assms(1)] assms(4)
  by (auto simp: comp_later_def completed_at_def)

lemma later_in_flight:
  assumes "env_ok hw" and "later hw w w'" and "i < length (crs w)" and "in_flight_at i w"
  shows "in_flight_at i w'"
  using later_nth [OF assms(2,3)] verdict_of_not_pending [OF assms(1)] assms(4)
  by (auto simp: comp_later_def completed_at_def in_flight_at_def)

lemma later_idle: "later hw w w' \<Longrightarrow> i < length (crs w) \<Longrightarrow> crs w ! i = idle_comp \<Longrightarrow> crs w' ! i = idle_comp"
  using later_nth [of hw w w' i] by (auto simp: comp_later_def idle_comp_def)

lemma later_requests_completed: "later hw w w' \<Longrightarrow> requests_completed w' = requests_completed w"
  by (simp add: later_def)

lemma later_submit_order: "later hw w w' \<Longrightarrow> submit_order w' = submit_order w"
  by (simp add: later_def)

lemma later_shape: "later hw w w' \<Longrightarrow> shape w' = shape w"
  by (simp add: later_def)

lemma shape_kinds: "shape w = K \<Longrightarrow> kinds w = blocks K"
  by auto

lemma later_kinds: "later hw w w' \<Longrightarrow> kinds w' = kinds w"
  using shape_kinds [OF later_shape, of hw w w'] by simp

text \<open>Writing a block without changing its kind.\<close>

lemma later_heap_update:
  assumes "kinds w p = Some (kind_of b)"
  shows "later hw w (w\<lparr>heap := (heap w)(p \<mapsto> b)\<rparr>)"
  using assms by (auto simp: later_def shape_eq_iff kinds_def list_all2_refl)

lemma kinds_bytes: "kinds w p = Some (KBytes n) \<longleftrightarrow> (\<exists>bs. get_bytes p w = Some bs \<and> length bs = n)"
  by (auto simp: kinds_def get_bytes_def split: option.splits block.splits)

lemma kinds_words: "kinds w p = Some (KWords n) \<longleftrightarrow> (\<exists>xs. get_words p w = Some xs \<and> length xs = n)"
  by (auto simp: kinds_def get_words_def split: option.splits block.splits)

lemma kinds_ints:
  "kinds w p = Some (KInts n S) \<longleftrightarrow> (\<exists>xs. get_ints p w = Some xs \<and> length xs = n \<and> set xs = S)"
  by (auto simp: kinds_def get_ints_def split: option.splits block.splits)

lemma kinds_desc: "kinds w p = Some KDesc \<longleftrightarrow> (\<exists>d. heap w p = Some (Desc d))"
  by (auto simp: kinds_def, case_tac z, auto)

lemma get_bytes_kind: "get_bytes p w = Some bs \<Longrightarrow> kinds w p = Some (KBytes (length bs))"
  by (auto simp: kinds_bytes)

lemma later_set_bytes: "get_bytes p w = Some bs \<Longrightarrow> length bs' = length bs \<Longrightarrow> later hw w (set_bytes p bs' w)"
  unfolding set_bytes_def by (rule later_heap_update) (simp add: get_bytes_kind)

lemma later_run_work: "env_ok hw \<Longrightarrow> later hw w (run_work hw x w)"
  by (auto simp: run_work_def env_ok_def intro: later_set_bytes split: work.splits option.splits)

lemma run_work_frame [world_simps]:
  "crs (run_work hw x w) = crs w" "polls (run_work hw x w) = polls w"
  "tscs (run_work hw x w) = tscs w" "obs (run_work hw x w) = obs w"
  by (simp_all add: run_work_def set_bytes_def split: work.splits option.splits)

lemma device_finish_later:
  assumes "env_ok hw" and "i < length (crs w)"
  shows "later hw w (device_finish hw i w)"
proof (cases "job (crs w ! i)")
  case (Some a)
  obtain x t where a: "a = (x, t)" by (cases a)
  let ?w = "run_work hw x w"
  have "later hw ?w (?w\<lparr>crs := (crs ?w)[i := \<lparr>status = verdict_of hw x, job = None\<rparr>]\<rparr>)"
    using Some a assms(2)
    by (auto simp: later_def shape_eq_iff kinds_def world_simps comp_later_def nth_list_update
        intro!: list_all2_all_nthI)
  with later_trans [OF later_run_work [OF assms(1)]] show ?thesis
    using Some a by (auto simp: device_finish_def Let_def)
qed (simp add: device_finish_def)

lemma device_finish_frame [world_simps]:
  "length (crs (device_finish hw i w)) = length (crs w)" "polls (device_finish hw i w) = polls w"
  "tscs (device_finish hw i w) = tscs w" "obs (device_finish hw i w) = obs w"
  by (simp_all add: device_finish_def Let_def world_simps split: option.splits)

lemma device_finish_due:
  assumes "i < length (crs w)" and "job (crs w ! i) = Some (x, t)" and "t \<le> polls w"
  shows "crs (device_finish hw i w) ! i = \<lparr>status = verdict_of hw x, job = None\<rparr>"
  using assms by (simp add: device_finish_def Let_def world_simps)

lemma fold_device_frame [world_simps]:
  "length (crs (fold (device_finish hw) is w)) = length (crs w)"
  "polls (fold (device_finish hw) is w) = polls w"
  "tscs (fold (device_finish hw) is w) = tscs w" "obs (fold (device_finish hw) is w) = obs w"
  by (induction "is" arbitrary: w) (simp_all add: world_simps)

lemma fold_device_later:
  "env_ok hw \<Longrightarrow> set is \<subseteq> {0..<length (crs w)} \<Longrightarrow> later hw w (fold (device_finish hw) is w)"
proof (induction "is" arbitrary: w)
  case (Cons i "is")
  then have "later hw w (device_finish hw i w)" by (intro device_finish_later) simp_all
  also have "later hw \<dots> (fold (device_finish hw) is (device_finish hw i w))"
    using Cons.prems by (intro Cons.IH) (simp_all add: world_simps)
  finally show ?case by simp
qed simp

lemma tick_later: "env_ok hw \<Longrightarrow> later hw w (tick hw w)"
proof -
  assume "env_ok hw"
  then have "later hw (w\<lparr>polls := Suc (polls w)\<rparr>) (tick hw w)"
    unfolding tick_def by (intro fold_device_later) auto
  moreover have "later hw w (w\<lparr>polls := Suc (polls w)\<rparr>)"
    by (simp add: later_def shape_eq_iff kinds_def list_all2_refl)
  ultimately show ?thesis by (rule later_trans [rotated])
qed

lemma tick_frame [world_simps]:
  "length (crs (tick hw w)) = length (crs w)" "polls (tick hw w) = Suc (polls w)"
  "tscs (tick hw w) = tscs w" "obs (tick hw w) = obs w"
  by (simp_all add: tick_def world_simps)

text \<open>An operation that is due at the next poll is done by it.\<close>

lemma tick_due:
  assumes hw: "env_ok hw" and i: "i < length (crs w)"
    and t: "job (crs w ! i) = Some (x, t)" "t \<le> Suc (polls w)"
  shows "completed_at i (tick hw w)"
proof -
  let ?w0 = "w\<lparr>polls := Suc (polls w)\<rparr>" and ?n = "length (crs w)"
  let ?w1 = "fold (device_finish hw) [0..<i] ?w0"
  have split: "[0..<?n] = [0..<i] @ i # [Suc i..<?n]"
    using i upt_add_eq_append [of 0 i "?n - i"] upt_conv_Cons [of i ?n] by simp
  have "later hw ?w0 ?w1" using hw i by (intro fold_device_later) auto
  from later_nth [OF this, of i] i t(1) have "job (crs ?w1 ! i) = Some (x, t) \<or> completed_at i ?w1"
    using verdict_of_not_pending [OF hw] by (auto simp: comp_later_def completed_at_def)
  then have c: "completed_at i (device_finish hw i ?w1)"
  proof
    assume "job (crs ?w1 ! i) = Some (x, t)"
    then have "crs (device_finish hw i ?w1) ! i = \<lparr>status = verdict_of hw x, job = None\<rparr>"
      using i t(2) by (intro device_finish_due) (simp_all add: world_simps)
    with verdict_of_not_pending [OF hw] show ?thesis by (simp add: completed_at_def)
  next
    assume c: "completed_at i ?w1"
    show ?thesis
      by (rule later_completed [OF hw device_finish_later [OF hw] _ c]) (use i in \<open>simp_all add: world_simps\<close>)
  qed
  have "tick hw w = fold (device_finish hw) [Suc i..<?n] (device_finish hw i ?w1)"
    unfolding tick_def split by simp
  moreover have "later hw (device_finish hw i ?w1) (fold (device_finish hw) [Suc i..<?n] (device_finish hw i ?w1))"
    using hw by (intro fold_device_later) (auto simp: world_simps)
  ultimately show ?thesis
    using later_completed [OF hw _ _ c] i by (auto simp: world_simps)
qed

end
