(* ===== verification/Offload_Ops.thy ===== *)
theory Offload_Ops
  imports XMP_World
begin

text \<open>
  What a request does with the accelerator: build a descriptor (\<open>src/iaa_offloads.cpp\<close>,
  \<open>src/dsa_offloads.cpp\<close>), submit it (\<open>inc/inline/submit.ipp\<close>), wait for its completion record
  (\<open>inc/wait.h\<close>).  The lemmas give the effect of each operation through \<open>later\<close> and \<open>launched\<close>.
\<close>

section \<open>Descriptors\<close>

definition set_desc :: "ptr \<Rightarrow> hw_desc \<Rightarrow> world \<Rightarrow> world option" where
  "set_desc p d w =
    (case heap w p of
       Some (Desc _) \<Rightarrow> Some (w\<lparr>heap := (heap w)(p \<mapsto> Desc d)\<rparr>)
     | _ \<Rightarrow> None)"

text \<open>\<open>memset((void *)cr, 0, sizeof(ax_comp))\<close>.\<close>

definition memset_comp :: "nat \<Rightarrow> world \<Rightarrow> world option" where
  "memset_comp i w =
    (if i < length (crs w) then Some (w\<lparr>crs := (crs w)[i := (crs w ! i)\<lparr>status := 0\<rparr>]\<rparr>) else None)"

definition prepare_iaa_compress_desc_with_preallocated_comp ::
  "env \<Rightarrow> ptr \<Rightarrow> ptr \<Rightarrow> ptr \<Rightarrow> ptr \<Rightarrow> nat \<Rightarrow> nat \<Rightarrow> world \<Rightarrow> world option" where
  "prepare_iaa_compress_desc_with_preallocated_comp hw desc src1 src2 dst1 cr xfer_size w =
    do {
      w \<leftarrow> memset_comp cr w;
      set_desc desc
        (zero_desc\<lparr>d_flags := 0x5000e, d_opcode := 0x43, d_src_addr := src1, d_dst_addr := dst1,
           d_xfer_size := of_nat xfer_size, d_completion_addr := cr, d_compr_flags := 14,
           d_src2_addr := src2, d_src2_xfer_size := of_nat (iaa_compress_aecs_size hw),
           d_max_dst_size := of_nat (iaa_compress_max_dest_size hw)\<rparr>) w
    }"

definition prepare_iaa_decompress_desc_with_preallocated_comp ::
  "env \<Rightarrow> ptr \<Rightarrow> ptr \<Rightarrow> ptr \<Rightarrow> nat \<Rightarrow> nat \<Rightarrow> world \<Rightarrow> world option" where
  "prepare_iaa_decompress_desc_with_preallocated_comp hw desc src1 dst1 cr xfer_size w =
    do {
      w \<leftarrow> memset_comp cr w;
      set_desc desc
        (zero_desc\<lparr>d_flags := 14, d_opcode := opcode_decompress hw, d_src_addr := src1,
           d_dst_addr := dst1, d_xfer_size := of_nat xfer_size, d_completion_addr := cr,
           d_compr_flags := 31, d_src2_addr := 0, d_src2_xfer_size := 0,
           d_max_dst_size := of_nat (iaa_compress_max_dest_size hw)\<rparr>) w
    }"

definition prepare_dsa_memcpy_desc_with_preallocated_comp ::
  "env \<Rightarrow> ptr \<Rightarrow> ptr \<Rightarrow> ptr \<Rightarrow> nat \<Rightarrow> nat \<Rightarrow> world \<Rightarrow> world option" where
  "prepare_dsa_memcpy_desc_with_preallocated_comp hw desc src dst cr xfer_size w =
    do {
      w \<leftarrow> set_desc desc
        (zero_desc\<lparr>d_flags := flag_crav hw OR flag_rcr hw OR flag_bof hw, d_src_addr := src,
           d_dst_addr := dst, d_xfer_size := of_nat xfer_size, d_opcode := opcode_memmove hw,
           d_completion_addr := cr\<rparr>) w;
      memset_comp cr w
    }"

definition prepare_dsa_memfill_desc_with_preallocated_comp ::
  "env \<Rightarrow> ptr \<Rightarrow> nat \<Rightarrow> ptr \<Rightarrow> nat \<Rightarrow> nat \<Rightarrow> world \<Rightarrow> world option" where
  "prepare_dsa_memfill_desc_with_preallocated_comp hw desc pattern dst cr xfer_size w =
    do {
      w \<leftarrow> set_desc desc
        (zero_desc\<lparr>d_flags := flag_crav hw OR flag_rcr hw OR flag_bof hw, d_src_addr := pattern,
           d_dst_addr := dst, d_xfer_size := of_nat xfer_size, d_opcode := opcode_memfill hw,
           d_completion_addr := cr\<rparr>) w;
      memset_comp cr w
    }"

section \<open>Submission\<close>

text \<open>\<open>iaa_submit\<close> and \<open>dsa_submit\<close> try once and return whether the queue took the descriptor;
  the blocking variants retry until it does.\<close>

definition try_submit :: "env \<Rightarrow> queue \<Rightarrow> ptr \<Rightarrow> world \<Rightarrow> (bool \<times> world) option" where
  "try_submit hw q desc w = map_option (\<lambda>(retry, w). (\<not> retry, w)) (enqcmd hw q desc w)"

definition iaa_submit :: "env \<Rightarrow> ptr \<Rightarrow> world \<Rightarrow> (bool \<times> world) option" where
  "iaa_submit hw = try_submit hw IAA"

definition dsa_submit :: "env \<Rightarrow> ptr \<Rightarrow> world \<Rightarrow> (bool \<times> world) option" where
  "dsa_submit hw = try_submit hw DSA"

partial_function (option) blocking_submit :: "env \<Rightarrow> queue \<Rightarrow> ptr \<Rightarrow> world \<Rightarrow> world option" where
  "blocking_submit hw q desc w =
    Option.bind (enqcmd hw q desc w)
      (\<lambda>(retry, w). if retry then blocking_submit hw q desc w else Some w)"

definition blocking_iaa_submit :: "env \<Rightarrow> ptr \<Rightarrow> world \<Rightarrow> world option" where
  "blocking_iaa_submit hw = blocking_submit hw IAA"

definition blocking_dsa_submit :: "env \<Rightarrow> ptr \<Rightarrow> world \<Rightarrow> world option" where
  "blocking_dsa_submit hw = blocking_submit hw DSA"

section \<open>Waiting\<close>

text \<open>\<open>while (comp->status == value) { }\<close>, the loop of \<open>spin_on\<close>, \<open>pause_on\<close> and of the blocking
  requests.\<close>

partial_function (option) wait_while :: "env \<Rightarrow> u8 \<Rightarrow> nat \<Rightarrow> world \<Rightarrow> world option" where
  "wait_while hw v i w =
    Option.bind (read_status hw i w) (\<lambda>(s, w). if s = v then wait_while hw v i w else Some w)"

definition spin_on :: "env \<Rightarrow> nat \<Rightarrow> world \<Rightarrow> world option" where
  "spin_on hw = wait_while hw (iax_comp_none hw)"

definition pause_on :: "env \<Rightarrow> nat \<Rightarrow> world \<Rightarrow> world option" where
  "pause_on hw = wait_while hw (iax_comp_none hw)"

section \<open>The emulated accelerator seen by a request\<close>

definition STATUS_SUCCESS :: int where "STATUS_SUCCESS = 0"
definition STATUS_FAIL :: int where "STATUS_FAIL = - 1"

text \<open>\<open>submit_offload\<close> (\<open>src/offload.cpp\<close>) as its caller sees it: the completion record is
  pending, and the thread of the emulated accelerator has either taken the offload or has refused
  it.\<close>

definition submit_offload :: "env \<Rightarrow> nat \<Rightarrow> ptr \<Rightarrow> world \<Rightarrow> (int \<times> world) option" where
  "submit_offload hw cr dst_payload w =
    do {
      w \<leftarrow> memset_comp cr w;
      (if busy hw (enqs w) then Some (STATUS_FAIL, w\<lparr>enqs := Suc (enqs w)\<rparr>)
       else Some (STATUS_SUCCESS,
         w\<lparr>enqs := Suc (enqs w),
           crs := (crs w)[cr := (crs w ! cr)\<lparr>job := Some (Emulated, polls w + latency hw (enqs w))\<rparr>],
           obs := obs w @ [Submitted AX (zero_desc\<lparr>d_completion_addr := cr\<rparr>)]\<rparr>))
    }"

section \<open>Effects\<close>

text \<open>\<open>launched i w w'\<close>: the completion record \<open>i\<close> is pending and has an operation under way;
  nothing else happened.\<close>

definition launched :: "nat \<Rightarrow> world \<Rightarrow> world \<Rightarrow> bool" where
  "launched i w w' \<longleftrightarrow> shape w' = shape w \<and> nxt w' = nxt w \<and>
    requests_completed w' = requests_completed w \<and> submit_order w' = submit_order w @ [i] \<and>
    (\<exists>x t. crs w' = (crs w)[i := \<lparr>status = 0, job = Some (x, t)\<rparr>])"

lemma launched_length: "launched i w w' \<Longrightarrow> length (crs w') = length (crs w)"
  by (auto simp: launched_def)

lemma launched_in_flight: "launched i w w' \<Longrightarrow> i < length (crs w) \<Longrightarrow> in_flight_at i w'"
  by (auto simp: launched_def in_flight_at_def)

lemma launched_other: "launched i w w' \<Longrightarrow> j \<noteq> i \<Longrightarrow> crs w' ! j = crs w ! j"
  by (auto simp: launched_def)

text \<open>\<open>prepared i desc w w'\<close>: the descriptor block holds a descriptor for completion record \<open>i\<close>,
  whose status is pending.\<close>

definition prepared :: "nat \<Rightarrow> ptr \<Rightarrow> hw_desc \<Rightarrow> world \<Rightarrow> world \<Rightarrow> bool" where
  "prepared i desc d w w' \<longleftrightarrow> shape w' = shape w \<and> nxt w' = nxt w \<and>
    requests_completed w' = requests_completed w \<and> polls w' = polls w \<and> obs w' = obs w \<and>
    enqs w' = enqs w \<and> crs w' = (crs w)[i := (crs w ! i)\<lparr>status := 0\<rparr>] \<and>
    heap w' desc = Some (Desc d) \<and> d_completion_addr d = i"

lemma set_desc_kind:
  "kinds w p = Some KDesc \<Longrightarrow> set_desc p d w = Some (w\<lparr>heap := (heap w)(p \<mapsto> Desc d)\<rparr>)"
  by (auto simp: kinds_desc set_desc_def)

lemma kinds_set_desc [world_simps]:
  "kinds w p = Some KDesc \<Longrightarrow> shape (w\<lparr>heap := (heap w)(p \<mapsto> Desc d)\<rparr>) = shape w"
  by (auto simp: shape_eq_iff kinds_def)

lemma kinds_frame [world_simps]:
  "kinds (w\<lparr>crs := c\<rparr>) = kinds w" "kinds (w\<lparr>enqs := n\<rparr>) = kinds w" "kinds (w\<lparr>obs := ob\<rparr>) = kinds w"
  "kinds (w\<lparr>polls := n\<rparr>) = kinds w" "kinds (w\<lparr>requests_completed := k\<rparr>) = kinds w"
  "kinds (w\<lparr>tscs := n\<rparr>) = kinds w" "kinds (w\<lparr>rands := n\<rparr>) = kinds w"
  by (simp_all add: kinds_def fun_eq_iff)

lemma shape_frame [world_simps]:
  "shape (w\<lparr>crs := c\<rparr>) = shape w" "shape (w\<lparr>enqs := n\<rparr>) = shape w" "shape (w\<lparr>obs := ob\<rparr>) = shape w"
  "shape (w\<lparr>polls := n\<rparr>) = shape w" "shape (w\<lparr>requests_completed := k\<rparr>) = shape w"
  "shape (w\<lparr>tscs := n\<rparr>) = shape w" "shape (w\<lparr>rands := n\<rparr>) = shape w"
  by (simp_all add: shape_eq_iff kinds_def)

lemma prepare_ok:
  assumes "kinds w desc = Some KDesc" and "i < length (crs w)"
  shows "\<exists>w' d. prepare_iaa_decompress_desc_with_preallocated_comp hw desc src dst i n w = Some w' \<and>
      prepared i desc d w w'"
    and "\<exists>w' d. prepare_iaa_compress_desc_with_preallocated_comp hw desc src aecs dst i n w = Some w' \<and>
      prepared i desc d w w'"
    and "\<exists>w' d. prepare_dsa_memcpy_desc_with_preallocated_comp hw desc src dst i n w = Some w' \<and>
      prepared i desc d w w'"
    and "\<exists>w' d. prepare_dsa_memfill_desc_with_preallocated_comp hw desc pat dst i n w = Some w' \<and>
      prepared i desc d w w'"
  using assms
  by (auto simp: prepare_iaa_decompress_desc_with_preallocated_comp_def
      prepare_iaa_compress_desc_with_preallocated_comp_def
      prepare_dsa_memcpy_desc_with_preallocated_comp_def
      prepare_dsa_memfill_desc_with_preallocated_comp_def
      memset_comp_def set_desc_kind world_simps prepared_def shape_eq_iff kinds_def)

lemma comp_fields [world_simps]:
  "(c :: comp)\<lparr>status := s, job := j\<rparr> = \<lparr>status = s, job = j\<rparr>"
  by (cases c) simp

lemma enqcmd_prepared:
  assumes "heap w desc = Some (Desc d)" and "d_completion_addr d = i" and "i < length (crs w)"
  shows "enqcmd hw q desc w =
    (if busy hw (enqs w) then Some (True, w\<lparr>enqs := Suc (enqs w)\<rparr>)
     else Some (False,
       w\<lparr>enqs := Suc (enqs w),
         crs := (crs w)[i := (crs w ! i)\<lparr>job := Some (Hw d, polls w + latency hw (enqs w))\<rparr>],
         obs := obs w @ [Submitted q d]\<rparr>))"
  using assms by (simp add: enqcmd_def)

text \<open>The retry loop ends, because the queue accepts again.\<close>

lemma blocking_submit_ok:
  assumes hw: "env_ok hw"
    and "heap w desc = Some (Desc d)" and "d_completion_addr d = i" and "i < length (crs w)"
  shows "\<exists>k. blocking_submit hw q desc w = Some
    (w\<lparr>enqs := Suc k,
       crs := (crs w)[i := (crs w ! i)\<lparr>job := Some (Hw d, polls w + latency hw k)\<rparr>],
       obs := obs w @ [Submitted q d]\<rparr>)"
proof -
  obtain j where "enqs w \<le> j" "\<not> busy hw j" using hw unfolding env_ok_def by blast
  then show ?thesis
    using assms(2-)
  proof (induction "j - enqs w" arbitrary: w)
    case 0
    then have "enqs w = j" by simp
    with 0 show ?case
      by (subst blocking_submit.simps) (simp add: enqcmd_prepared, blast)
  next
    case (Suc m)
    show ?case
    proof (cases "busy hw (enqs w)")
      case True
      let ?w = "w\<lparr>enqs := Suc (enqs w)\<rparr>"
      have "blocking_submit hw q desc w = blocking_submit hw q desc ?w"
        using Suc.prems True by (subst blocking_submit.simps) (simp add: enqcmd_prepared)
      moreover have "m = j - enqs ?w" "enqs ?w \<le> j" using Suc.hyps(2) by simp_all
      from Suc.hyps(1) [OF this] Suc.prems obtain k where "blocking_submit hw q desc ?w = Some
        (?w\<lparr>enqs := Suc k,
            crs := (crs ?w)[i := (crs ?w ! i)\<lparr>job := Some (Hw d, polls ?w + latency hw k)\<rparr>],
            obs := obs ?w @ [Submitted q d]\<rparr>)" by auto
      ultimately show ?thesis by auto
    next
      case False
      with Suc.prems show ?thesis
        by (subst blocking_submit.simps) (simp add: enqcmd_prepared, blast)
    qed
  qed
qed

lemma launch_prepared:
  assumes "env_ok hw" and "prepared i desc d w w1" and "i < length (crs w)"
  shows "\<exists>w'. blocking_submit hw q desc w1 = Some w' \<and> launched i w w'"
proof -
  have "heap w1 desc = Some (Desc d)" "d_completion_addr d = i" "i < length (crs w1)"
    using assms(2,3) by (simp_all add: prepared_def)
  from blocking_submit_ok [OF assms(1) this] obtain k where
    "blocking_submit hw q desc w1 = Some
      (w1\<lparr>enqs := Suc k,
         crs := (crs w1)[i := (crs w1 ! i)\<lparr>job := Some (Hw d, polls w1 + latency hw k)\<rparr>],
         obs := obs w1 @ [Submitted q d]\<rparr>)" by blast
  with assms(2,3) show ?thesis
    by (auto simp: prepared_def launched_def world_simps)
qed

text \<open>One attempt either launches the operation or leaves everything but the counter alone.\<close>

lemma try_submit_prepared:
  assumes "prepared i desc d w w1" and "i < length (crs w)"
  shows "\<exists>ok w'. try_submit hw q desc w1 = Some (ok, w') \<and> (ok \<longrightarrow> launched i w w') \<and>
    ok = (\<not> busy hw (enqs w))"
proof -
  have "heap w1 desc = Some (Desc d)" "d_completion_addr d = i" "i < length (crs w1)"
    using assms by (simp_all add: prepared_def)
  from enqcmd_prepared [OF this, of hw q] assms show ?thesis
    by (auto simp: try_submit_def prepared_def launched_def world_simps)
qed

lemma submit_offload_ok:
  assumes "i < length (crs w)"
  shows "\<exists>s w'. submit_offload hw i dst w = Some (s, w') \<and>
    (if busy hw (enqs w) then s = STATUS_FAIL else s = STATUS_SUCCESS \<and> launched i w w')"
  using assms by (auto simp: submit_offload_def memset_comp_def launched_def world_simps)

text \<open>Waiting ends once an operation is under way.\<close>

lemma read_status_ok:
  assumes "env_ok hw" and "i < length (crs w)"
  shows "\<exists>w'. read_status hw i w = Some (status (crs w' ! i), w') \<and> later hw w w' \<and>
    polls w' = Suc (polls w) \<and> w' = tick hw w"
  using assms tick_later [OF assms(1), of w]
  by (simp add: read_status_def Let_def world_simps)

lemma wait_while_ok:
  assumes "env_ok hw" and "i < length (crs w)" and "in_flight_at i w"
  shows "\<exists>w'. wait_while hw 0 i w = Some w' \<and> later hw w w' \<and> completed_at i w'"
  using assms(2-)
proof (induction "case job (crs w ! i) of None \<Rightarrow> 0 | Some (_, t) \<Rightarrow> t - polls w"
    arbitrary: w rule: less_induct)
  case less
  let ?w = "tick hw w"
  have r: "read_status hw i w = Some (status (crs ?w ! i), ?w)"
    using less.prems(1) by (simp add: read_status_def Let_def world_simps)
  have l: "later hw w ?w" by (rule tick_later [OF assms(1)])
  show ?case
  proof (cases "completed_at i ?w")
    case True
    then have "wait_while hw 0 i w = Some ?w"
      by (subst wait_while.simps) (simp add: r completed_at_def COMP_STATUS_PENDING_def)
    with l True show ?thesis by blast
  next
    case False
    then have c: "\<not> completed_at i w" using later_completed [OF assms(1) l less.prems(1)] by blast
    with less.prems(2) obtain x t where j: "job (crs w ! i) = Some (x, t)"
      by (auto simp: in_flight_at_def)
    have "comp_later hw (crs w ! i) (crs ?w ! i)" by (rule later_nth [OF l less.prems(1)])
    with False c have same: "crs ?w ! i = crs w ! i"
      using verdict_of_not_pending [OF assms(1)] by (auto simp: comp_later_def completed_at_def)
    have "Suc (polls w) < t"
      using tick_due [OF assms(1) less.prems(1) j] False by (meson not_le_imp_less)
    with j same have dec: "(case job (crs ?w ! i) of None \<Rightarrow> 0 | Some (_, t) \<Rightarrow> t - polls ?w) <
        (case job (crs w ! i) of None \<Rightarrow> 0 | Some (_, t) \<Rightarrow> t - polls w)"
      by (simp add: world_simps)
    have "in_flight_at i ?w" by (rule later_in_flight [OF assms(1) l less.prems])
    from less.hyps [OF dec _ this] less.prems(1) obtain w' where
      w': "wait_while hw 0 i ?w = Some w'" "later hw ?w w'" "completed_at i w'"
      by (auto simp: world_simps)
    have "wait_while hw 0 i w = wait_while hw 0 i ?w"
      using False by (subst wait_while.simps) (simp add: r completed_at_def COMP_STATUS_PENDING_def)
    with w' later_trans [OF l w'(2)] show ?thesis by auto
  qed
qed

lemma stamp_ok:
  assumes "kinds w ts = Some (KWords n)" and "i < n"
  shows "\<exists>w'. stamp hw ts i w = Some w' \<and> later hw w w'"
proof -
  let ?w = "w\<lparr>tscs := Suc (tscs w)\<rparr>"
  obtain xs where xs: "get_words ts w = Some xs" "length xs = n" using assms(1) by (auto simp: kinds_words)
  have "get_words ts ?w = Some xs" using xs(1) by (simp add: get_words_def)
  then have "stamp hw ts i w = Some (?w\<lparr>heap := (heap ?w)(ts \<mapsto> Words (xs[i := tsc hw (tscs w)]))\<rparr>)"
    using assms(2) xs(2) by (simp add: stamp_def rdtsc_def arr_simps)
  moreover have "later hw w ?w" by (simp add: later_def world_simps list_all2_refl)
  moreover have "later hw ?w (?w\<lparr>heap := (heap ?w)(ts \<mapsto> Words (xs[i := tsc hw (tscs w)]))\<rparr>)"
    by (rule later_heap_update) (use assms(1) xs(2) in \<open>simp add: world_simps\<close>)
  ultimately show ?thesis by (metis later_trans)
qed

end
