(* ===== verification/Executors.thy ===== *)
theory Executors
  imports Offload_Ops Timer_Stats "HOL-Library.Signed_Division"
begin

text \<open>
  The schedulers of \<open>src/request_executors.cpp\<close>.  An executor switches to the fibers of the
  requests (\<open>off_req_state[i]->context\<close> with \<open>off_args[i]\<close>), resumes them when their completion
  records change, and stores run times or averaged time stamp differences.  A context is the entry
  function it was made for; a process that ends inside a request is \<open>Exited\<close>.
\<close>

section \<open>Arguments, results and fiber switches\<close>

text \<open>\<open>timed_offload_request_args\<close> and \<open>offload_request_args\<close> (\<open>inc/offload_args.h\<close>); \<open>a_self\<close> is
  the block of the struct, \<open>a_comp\<close> the index of its completion record.\<close>

record offload_args =
  a_self :: ptr
  a_comp :: nat
  a_desc :: ptr
  a_aecs :: ptr
  a_id :: nat
  a_src_payload :: ptr
  a_src_size :: nat
  a_dst_size :: nat
  a_dst_payload :: ptr
  a_aux_payload :: ptr
  a_aux_size :: nat
  a_pre_proc_input :: ptr
  a_pre_proc_output :: ptr
  a_pre_proc_input_size :: nat
  a_ax_func_output :: ptr
  a_ax_func_input_size :: nat
  a_max_axfunc_output_size :: nat
  a_post_proc_output :: ptr
  a_post_proc_input_size :: nat
  a_max_post_proc_output_size :: nat
  a_ts0 :: ptr
  a_ts1 :: ptr
  a_ts2 :: ptr
  a_ts3 :: ptr
  a_ts4 :: ptr

text \<open>\<open>timed_gpcore_request_args\<close> (\<open>inc/gpcore_args.h\<close>) and \<open>timed_cpu_request_args\<close>
  (\<open>inc/router_request_args.h\<close>).\<close>

record gpcore_args =
  g_self :: ptr
  g_inputs :: "ptr list"
  g_id :: nat
  g_ts0 :: ptr
  g_ts1 :: ptr
  g_ts2 :: ptr

record cpu_args =
  c_self :: ptr
  c_request :: ptr
  c_serialized :: ptr
  c_id :: nat
  c_ts0 :: ptr
  c_ts1 :: ptr
  c_ts2 :: ptr

text \<open>\<open>executor_stats_t\<close>: the result arrays.\<close>

record executor_stats =
  pre_proc_times :: ptr
  offload_tax_times :: ptr
  ax_func_times :: ptr
  post_proc_times :: ptr
  exe_time_start :: ptr
  exe_time_end :: ptr
  stats_iter :: nat

datatype 'a outcome = Done world 'a | Exited world

text \<open>Switch into the context \<open>ctxs[i]\<close> with the argument \<open>args[i]\<close>.\<close>

definition start_fiber ::
  "('a \<Rightarrow> world \<Rightarrow> world slice option) list \<Rightarrow> 'a list \<Rightarrow> int \<Rightarrow> world \<Rightarrow> world slice option" where
  "start_fiber ctxs args i w =
    do {
      f \<leftarrow> arr_get ctxs i;
      a \<leftarrow> arr_get args i;
      f a w
    }"

text \<open>Switch into \<open>xfers[i].prev_context\<close>; an entry that was never written is \<open>None\<close>.\<close>

definition resume_fiber :: "fiber option list \<Rightarrow> int \<Rightarrow> nat \<Rightarrow> world \<Rightarrow> world slice option" where
  "resume_fiber xfers i data w =
    do {
      x \<leftarrow> arr_get xfers i;
      k \<leftarrow> x;
      k data w
    }"

definition write_word :: "ptr \<Rightarrow> int \<Rightarrow> u64 \<Rightarrow> world \<Rightarrow> world option" where
  "write_word p i v w =
    do {
      xs \<leftarrow> get_words p w;
      xs \<leftarrow> arr_set xs i v;
      Some (w\<lparr>heap := (heap w)(p \<mapsto> Words xs)\<rparr>)
    }"

text \<open>\<open>avg_samples_from_arrays(diff, dst[idx], after, before, n)\<close> on arrays in the heap.\<close>

definition avg_into :: "ptr \<Rightarrow> int \<Rightarrow> ptr \<Rightarrow> ptr \<Rightarrow> int \<Rightarrow> u64 list \<Rightarrow> world \<Rightarrow> (u64 list \<times> world) option" where
  "avg_into dst idx after before n diff w =
    do {
      xs \<leftarrow> get_words after w;
      ys \<leftarrow> get_words before w;
      (diff, avg) \<leftarrow> avg_samples_from_arrays diff xs ys n;
      w \<leftarrow> write_word dst idx avg w;
      Some (diff, w)
    }"

section \<open>The scheduling loops\<close>

text \<open>The state of the yielding loops: the next request to start, the next one to resume, the
  suspended fibers, and the sampling state (time stamps taken so far).\<close>

type_synonym sampling = "u64 option list \<times> nat"

partial_function (option) yielding_loop ::
  "env \<Rightarrow> (nat \<Rightarrow> world \<Rightarrow> bool) \<Rightarrow> (u8 \<Rightarrow> bool) \<Rightarrow>
   (world \<Rightarrow> sampling \<Rightarrow> (world \<times> sampling) option) \<Rightarrow>
   int \<Rightarrow> ('a \<Rightarrow> world \<Rightarrow> world slice option) list \<Rightarrow> 'a list \<Rightarrow>
   nat \<Rightarrow> nat \<Rightarrow> fiber option list \<Rightarrow> sampling \<Rightarrow> world \<Rightarrow> sampling outcome option" where
  "yielding_loop hw again complete sample total_requests off_req_state off_args
      next_unstarted next_to_complete xfers smp w =
    (if again next_to_complete w then
       Option.bind (read_status hw next_to_complete w) (\<lambda>(s, w).
         if complete s then
           Option.bind (resume_fiber xfers (int next_to_complete) 0 w) (\<lambda>r.
             case r of
               Exit w \<Rightarrow> Some (Exited w)
             | Yield w _ \<Rightarrow>
                 Option.bind (sample w smp) (\<lambda>(w, smp).
                   yielding_loop hw again complete sample total_requests off_req_state off_args
                     next_unstarted (Suc next_to_complete) xfers smp w))
         else if int next_unstarted < total_requests then
           Option.bind (start_fiber off_req_state off_args (int next_unstarted) w) (\<lambda>r.
             case r of
               Exit w \<Rightarrow> Some (Exited w)
             | Yield w k \<Rightarrow>
                 Option.bind (arr_set xfers (int next_unstarted) (Some k)) (\<lambda>xfers.
                   yielding_loop hw again complete sample total_requests off_req_state off_args
                     (Suc next_unstarted) next_to_complete xfers smp w))
         else
           yielding_loop hw again complete sample total_requests off_req_state off_args
             next_unstarted next_to_complete xfers smp w)
     else Some (Done w smp))"

definition no_sampling :: "world \<Rightarrow> sampling \<Rightarrow> (world \<times> sampling) option" where
  "no_sampling w smp = Some (w, smp)"

text \<open>\<open>if (requests_completed % interval == 0 && requests_completed > 0)\<close> take a time stamp.
  A remainder by zero is undefined.\<close>

definition sample_interval :: "env \<Rightarrow> int \<Rightarrow> world \<Rightarrow> sampling \<Rightarrow> (world \<times> sampling) option" where
  "sample_interval hw requests_sampling_interval w smp =
    (if requests_sampling_interval = 0 then None
     else if requests_completed w mod requests_sampling_interval = 0 \<and> requests_completed w > 0 then
       do {
         let (t, w) = rdtsc hw w;
         stamps \<leftarrow> arr_set (fst smp) (int (snd smp)) (Some t);
         Some (w, (stamps, Suc (snd smp)))
       }
     else Some (w, smp))"

partial_function (option) blocking_loop ::
  "(nat \<Rightarrow> world \<Rightarrow> bool) \<Rightarrow> ('a \<Rightarrow> world \<Rightarrow> world slice option) list \<Rightarrow> 'a list \<Rightarrow>
   nat \<Rightarrow> world \<Rightarrow> unit outcome option" where
  "blocking_loop again off_req_state off_args next_unstarted w =
    (if again next_unstarted w then
       Option.bind (start_fiber off_req_state off_args (int next_unstarted) w) (\<lambda>r.
         case r of
           Exit w \<Rightarrow> Some (Exited w)
         | Yield w _ \<Rightarrow> blocking_loop again off_req_state off_args (Suc next_unstarted) w)
     else Some (Done w ()))"

text \<open>\<open>while (comps[i].status != COMP_STATUS_COMPLETED) _mm_pause();\<close>\<close>

partial_function (option) wait_completed :: "env \<Rightarrow> nat \<Rightarrow> world \<Rightarrow> world option" where
  "wait_completed hw i w =
    Option.bind (read_status hw i w)
      (\<lambda>(s, w). if s \<noteq> COMP_STATUS_COMPLETED then wait_completed hw i w else Some w)"

text \<open>The loop condition \<open>requests_completed < total_requests\<close>.\<close>

definition requests_left :: "int \<Rightarrow> nat \<Rightarrow> world \<Rightarrow> bool" where
  "requests_left total_requests i w \<longleftrightarrow> requests_completed w < total_requests"

definition index_left :: "int \<Rightarrow> nat \<Rightarrow> world \<Rightarrow> bool" where
  "index_left total_requests i w \<longleftrightarrow> int i < total_requests"

section \<open>Three phase executors\<close>

text \<open>\<open>executor_args_t\<close>; \<open>x_self\<close> and the other block numbers are what \<open>malloc\<close> returned.\<close>

record executor_args =
  x_self :: ptr
  x_total_requests :: int
  x_off_args :: "offload_args list"
  x_off_req_state :: "(offload_args \<Rightarrow> world \<Rightarrow> world slice option) list"
  x_contexts :: "ptr list"
  x_off_req_state_block :: ptr
  x_off_req_xfer :: ptr
  x_comps :: ptr
  x_ts0 :: ptr
  x_ts1 :: ptr
  x_ts2 :: ptr
  x_ts3 :: ptr
  x_ts4 :: ptr
  x_idx :: int

definition no_xfers :: "int \<Rightarrow> fiber option list" where
  "no_xfers n = replicate (nat n) None"

definition not_pending :: "u8 \<Rightarrow> bool" where
  "not_pending s \<longleftrightarrow> s \<noteq> COMP_STATUS_PENDING"

definition is_completed :: "u8 \<Rightarrow> bool" where
  "is_completed s \<longleftrightarrow> s = COMP_STATUS_COMPLETED"

definition execute_yielding_three_phase_request_throughput ::
  "env \<Rightarrow> executor_args \<Rightarrow> executor_stats \<Rightarrow> world \<Rightarrow> unit outcome option" where
  "execute_yielding_three_phase_request_throughput hw args stats w =
    do {
      let idx = x_idx args;
      let total_requests = x_total_requests args;
      let (start, w) = rdtsc hw w;
      r \<leftarrow> yielding_loop hw (index_left total_requests) not_pending no_sampling total_requests
             (x_off_req_state args) (x_off_args args) 0 0 (no_xfers total_requests) ([], 0) w;
      (case r of
         Exited w \<Rightarrow> Some (Exited w)
       | Done w _ \<Rightarrow>
           do {
             let (stop, w) = rdtsc hw w;
             w \<leftarrow> write_word (exe_time_start stats) idx start w;
             w \<leftarrow> write_word (exe_time_end stats) idx stop w;
             Some (Done w ())
           })
    }"

definition execute_three_phase_blocking_requests_closed_system_throughput ::
  "env \<Rightarrow> executor_args \<Rightarrow> executor_stats \<Rightarrow> world \<Rightarrow> unit outcome option" where
  "execute_three_phase_blocking_requests_closed_system_throughput hw args stats w =
    do {
      let idx = x_idx args;
      let total_requests = x_total_requests args;
      let (start, w) = rdtsc hw w;
      r \<leftarrow> blocking_loop (index_left total_requests) (x_off_req_state args) (x_off_args args) 0 w;
      (case r of
         Exited w \<Rightarrow> Some (Exited w)
       | Done w _ \<Rightarrow>
           do {
             let (stop, w) = rdtsc hw w;
             w \<leftarrow> write_word (exe_time_start stats) idx start w;
             w \<leftarrow> write_word (exe_time_end stats) idx stop w;
             Some (Done w ())
           })
    }"

text \<open>The four averages of the three phase breakdowns, from the time stamp arrays of request 0;
  \<open>diff\<close> is a local array of \<open>total_requests\<close> elements.\<close>

definition three_phase_breakdown ::
  "offload_args list \<Rightarrow> executor_stats \<Rightarrow> int \<Rightarrow> int \<Rightarrow> world \<Rightarrow> world option" where
  "three_phase_breakdown off_args stats total_requests idx w =
    do {
      a \<leftarrow> arr_get off_args 0;
      let diff = replicate (nat total_requests) 0;
      (diff, w) \<leftarrow> avg_into (pre_proc_times stats) idx (a_ts1 a) (a_ts0 a) total_requests diff w;
      (diff, w) \<leftarrow> avg_into (offload_tax_times stats) idx (a_ts2 a) (a_ts1 a) total_requests diff w;
      (diff, w) \<leftarrow> avg_into (ax_func_times stats) idx (a_ts3 a) (a_ts2 a) total_requests diff w;
      (diff, w) \<leftarrow> avg_into (post_proc_times stats) idx (a_ts4 a) (a_ts3 a) total_requests diff w;
      Some w
    }"

definition execute_three_phase_blocking_requests_closed_system_request_breakdown ::
  "env \<Rightarrow> executor_args \<Rightarrow> executor_stats \<Rightarrow> world \<Rightarrow> unit outcome option" where
  "execute_three_phase_blocking_requests_closed_system_request_breakdown hw args stats w =
    do {
      let total_requests = x_total_requests args;
      r \<leftarrow> blocking_loop (index_left total_requests) (x_off_req_state args) (x_off_args args) 0 w;
      (case r of
         Exited w \<Rightarrow> Some (Exited w)
       | Done w _ \<Rightarrow>
           do {
             w \<leftarrow> three_phase_breakdown (x_off_args args) stats total_requests (x_idx args) w;
             Some (Done w ())
           })
    }"

definition execute_three_phase_yielding_requests_closed_system_request_breakdown ::
  "env \<Rightarrow> executor_args \<Rightarrow> executor_stats \<Rightarrow> world \<Rightarrow> unit outcome option" where
  "execute_three_phase_yielding_requests_closed_system_request_breakdown hw args stats w =
    do {
      let total_requests = x_total_requests args;
      r \<leftarrow> yielding_loop hw (index_left total_requests) not_pending no_sampling total_requests
             (x_off_req_state args) (x_off_args args) 0 0 (no_xfers total_requests) ([], 0) w;
      (case r of
         Exited w \<Rightarrow> Some (Exited w)
       | Done w _ \<Rightarrow>
           do {
             w \<leftarrow> three_phase_breakdown (x_off_args args) stats total_requests (x_idx args) w;
             Some (Done w ())
           })
    }"

section \<open>Two phase executors\<close>

text \<open>\<open>times[i + 1] - times[i]\<close> of two time stamps that were taken.\<close>

definition interval :: "u64 option list \<Rightarrow> int \<Rightarrow> int \<Rightarrow> u64 option" where
  "interval stamps i j =
    do {
      x \<leftarrow> arr_get stamps i;
      x \<leftarrow> x;
      y \<leftarrow> arr_get stamps j;
      y \<leftarrow> y;
      Some (y - x)
    }"

definition execute_yielding_requests_closed_system_with_sampling ::
  "env \<Rightarrow> int \<Rightarrow> int \<Rightarrow> u64 option list \<Rightarrow> offload_args list \<Rightarrow> fiber option list \<Rightarrow>
   (offload_args \<Rightarrow> world \<Rightarrow> world slice option) list \<Rightarrow> ptr \<Rightarrow> int \<Rightarrow> world \<Rightarrow> unit outcome option" where
  "execute_yielding_requests_closed_system_with_sampling hw requests_sampling_interval
      total_requests sampling_interval_completion_times off_args offload_req_xfer off_req_state
      exetime idx w =
    (if requests_sampling_interval = 0 then None
     else do {
      let exetime_samples = total_requests sdiv requests_sampling_interval;
      let (t, w) = rdtsc hw w;
      stamps \<leftarrow> arr_set sampling_interval_completion_times 0 (Some t);
      r \<leftarrow> yielding_loop hw (requests_left total_requests) is_completed
             (sample_interval hw requests_sampling_interval) total_requests
             off_req_state off_args 0 0 offload_req_xfer (stamps, 1) w;
      (case r of
         Exited w \<Rightarrow> Some (Exited w)
       | Done w (stamps, _) \<Rightarrow>
           do {
             w \<leftarrow> foldM (\<lambda>i w.
                    do {
                      d \<leftarrow> interval stamps (int i) (int i + 1);
                      write_word exetime (idx + int i) d w
                    }) [0..<nat exetime_samples] w;
             Some (Done w ())
           })
    })"

text \<open>The three averages of the two phase breakdowns.\<close>

definition two_phase_breakdown ::
  "offload_args list \<Rightarrow> int \<Rightarrow> ptr \<Rightarrow> ptr \<Rightarrow> ptr \<Rightarrow> int \<Rightarrow> world \<Rightarrow> world option" where
  "two_phase_breakdown off_args total_requests off_times wait_times hash_times idx w =
    do {
      a \<leftarrow> arr_get off_args 0;
      let diff = replicate (nat total_requests) 0;
      (diff, w) \<leftarrow> avg_into off_times idx (a_ts1 a) (a_ts0 a) (requests_completed w) diff w;
      (diff, w) \<leftarrow> avg_into wait_times idx (a_ts2 a) (a_ts1 a) (requests_completed w) diff w;
      (diff, w) \<leftarrow> avg_into hash_times idx (a_ts3 a) (a_ts2 a) (requests_completed w) diff w;
      Some w
    }"

definition execute_yielding_requests_closed_system_request_breakdown_sampled ::
  "env \<Rightarrow> int \<Rightarrow> int \<Rightarrow> u64 option list \<Rightarrow> offload_args list \<Rightarrow> fiber option list \<Rightarrow>
   (offload_args \<Rightarrow> world \<Rightarrow> world slice option) list \<Rightarrow> ptr \<Rightarrow> ptr \<Rightarrow> ptr \<Rightarrow> int \<Rightarrow> world \<Rightarrow>
   unit outcome option" where
  "execute_yielding_requests_closed_system_request_breakdown_sampled hw requests_sampling_interval
      total_requests sampling_interval_completion_times off_args offload_req_xfer off_req_state
      off_times yield_to_resume_times hash_times idx w =
    do {
      let (t, w) = rdtsc hw w;
      stamps \<leftarrow> arr_set sampling_interval_completion_times 0 (Some t);
      r \<leftarrow> yielding_loop hw (requests_left total_requests) is_completed
             (sample_interval hw requests_sampling_interval) total_requests
             off_req_state off_args 0 0 offload_req_xfer (stamps, 1) w;
      (case r of
         Exited w \<Rightarrow> Some (Exited w)
       | Done w _ \<Rightarrow>
           do {
             w \<leftarrow> two_phase_breakdown off_args total_requests off_times yield_to_resume_times hash_times idx w;
             Some (Done w ())
           })
    }"

definition execute_yielding_requests_closed_system_request_breakdown ::
  "env \<Rightarrow> int \<Rightarrow> offload_args list \<Rightarrow> fiber option list \<Rightarrow>
   (offload_args \<Rightarrow> world \<Rightarrow> world slice option) list \<Rightarrow> ptr \<Rightarrow> ptr \<Rightarrow> ptr \<Rightarrow> int \<Rightarrow> world \<Rightarrow>
   unit outcome option" where
  "execute_yielding_requests_closed_system_request_breakdown hw total_requests off_args
      offload_req_xfer off_req_state off_times yield_to_resume_times hash_times idx w =
    do {
      r \<leftarrow> yielding_loop hw (requests_left total_requests) is_completed no_sampling total_requests
             off_req_state off_args 0 0 offload_req_xfer ([], 0) w;
      (case r of
         Exited w \<Rightarrow> Some (Exited w)
       | Done w _ \<Rightarrow>
           do {
             w \<leftarrow> two_phase_breakdown off_args total_requests off_times yield_to_resume_times hash_times idx w;
             Some (Done w ())
           })
    }"

text \<open>One request at a time: start it, wait for its completion record, resume it.  The global
  counter \<open>requests_completed\<close> is the index.\<close>

partial_function (option) best_case_loop ::
  "env \<Rightarrow> int \<Rightarrow> ('a \<Rightarrow> world \<Rightarrow> world slice option) list \<Rightarrow> 'a list \<Rightarrow>
   fiber option list \<Rightarrow> world \<Rightarrow> unit outcome option" where
  "best_case_loop hw total_requests off_req_state off_args xfers w =
    (if requests_completed w < total_requests then
       Option.bind (start_fiber off_req_state off_args (requests_completed w) w) (\<lambda>r.
         case r of
           Exit w \<Rightarrow> Some (Exited w)
         | Yield w k \<Rightarrow>
             Option.bind (arr_set xfers (requests_completed w) (Some k)) (\<lambda>xfers.
               Option.bind (wait_completed hw (nat (requests_completed w)) w) (\<lambda>w.
                 Option.bind (resume_fiber xfers (requests_completed w) 0 w) (\<lambda>r.
                   case r of
                     Exit w \<Rightarrow> Some (Exited w)
                   | Yield w _ \<Rightarrow>
                       best_case_loop hw total_requests off_req_state off_args xfers w))))
     else Some (Done w ()))"

definition execute_yielding_requests_best_case ::
  "env \<Rightarrow> int \<Rightarrow> offload_args list \<Rightarrow> fiber option list \<Rightarrow>
   (offload_args \<Rightarrow> world \<Rightarrow> world slice option) list \<Rightarrow> ptr \<Rightarrow> ptr \<Rightarrow> ptr \<Rightarrow> int \<Rightarrow> world \<Rightarrow>
   unit outcome option" where
  "execute_yielding_requests_best_case hw total_requests off_args offload_req_xfer off_req_state
      off_times yield_to_resume_times hash_times idx w =
    do {
      r \<leftarrow> best_case_loop hw total_requests off_req_state off_args offload_req_xfer w;
      (case r of
         Exited w \<Rightarrow> Some (Exited w)
       | Done w _ \<Rightarrow>
           do {
             w \<leftarrow> two_phase_breakdown off_args total_requests off_times yield_to_resume_times hash_times idx w;
             Some (Done w ())
           })
    }"

text \<open>While the operation of request \<open>i\<close> is under way, the filler runs: it is entered with the
  completion record as its argument and later resumed with it.  The suspended filler is
  threaded through; \<open>None\<close> means that it has to be started.\<close>

partial_function (option) filler_loop ::
  "env \<Rightarrow> nat \<Rightarrow> fiber option \<Rightarrow> fiber option \<Rightarrow> world \<Rightarrow> fiber option outcome option" where
  "filler_loop hw i filler xfer w =
    Option.bind (read_status hw i w) (\<lambda>(s, w).
      if s \<noteq> COMP_STATUS_COMPLETED then
        Option.bind (Option.bind (case xfer of None \<Rightarrow> filler | Some k \<Rightarrow> Some k) (\<lambda>k. k i w)) (\<lambda>r.
          case r of
            Exit w \<Rightarrow> Some (Exited w)
          | Yield w k \<Rightarrow> filler_loop hw i filler (Some k) w)
      else Some (Done w xfer))"

text \<open>\<open>renew\<close> is true in the executor that has one filler context per request (the flag
  \<open>interleaved_started\<close> is reset for every request), false in the one that keeps a single filler.\<close>

partial_function (option) interleaved_loop ::
  "env \<Rightarrow> bool \<Rightarrow> int \<Rightarrow> ('a \<Rightarrow> world \<Rightarrow> world slice option) list \<Rightarrow> 'a list \<Rightarrow>
   (int \<Rightarrow> fiber option) \<Rightarrow> fiber option \<Rightarrow> fiber option list \<Rightarrow> world \<Rightarrow> unit outcome option" where
  "interleaved_loop hw renew total_requests off_req_state off_args fillers filler_xfer xfers w =
    (if requests_completed w < total_requests then
       Option.bind (start_fiber off_req_state off_args (requests_completed w) w) (\<lambda>r.
         case r of
           Exit w \<Rightarrow> Some (Exited w)
         | Yield w k \<Rightarrow>
             Option.bind (arr_set xfers (requests_completed w) (Some k)) (\<lambda>xfers.
               Option.bind (filler_loop hw (nat (requests_completed w)) (fillers (requests_completed w))
                              (if renew then None else filler_xfer) w) (\<lambda>f.
                 case f of
                   Exited w \<Rightarrow> Some (Exited w)
                 | Done w filler_xfer \<Rightarrow>
                     Option.bind (resume_fiber xfers (requests_completed w) 0 w) (\<lambda>r.
                       case r of
                         Exit w \<Rightarrow> Some (Exited w)
                       | Yield w _ \<Rightarrow>
                           interleaved_loop hw renew total_requests off_req_state off_args fillers
                             filler_xfer xfers w))))
     else Some (Done w ()))"

definition execute_yielding_requests_multiple_filler_requests ::
  "env \<Rightarrow> int \<Rightarrow> offload_args list \<Rightarrow> fiber option list \<Rightarrow>
   (offload_args \<Rightarrow> world \<Rightarrow> world slice option) list \<Rightarrow> fiber list \<Rightarrow>
   ptr \<Rightarrow> ptr \<Rightarrow> ptr \<Rightarrow> int \<Rightarrow> world \<Rightarrow> unit outcome option" where
  "execute_yielding_requests_multiple_filler_requests hw total_requests off_args offload_req_xfer
      off_req_state filler_req_state off_times yield_to_resume_times hash_times idx w =
    do {
      r \<leftarrow> interleaved_loop hw True total_requests off_req_state off_args
             (arr_get filler_req_state) None offload_req_xfer w;
      (case r of
         Exited w \<Rightarrow> Some (Exited w)
       | Done w _ \<Rightarrow>
           do {
             w \<leftarrow> two_phase_breakdown off_args total_requests off_times yield_to_resume_times hash_times idx w;
             Some (Done w ())
           })
    }"

definition execute_yielding_requests_interleaved ::
  "env \<Rightarrow> int \<Rightarrow> offload_args list \<Rightarrow> fiber option list \<Rightarrow>
   (offload_args \<Rightarrow> world \<Rightarrow> world slice option) list \<Rightarrow> fiber \<Rightarrow>
   ptr \<Rightarrow> ptr \<Rightarrow> ptr \<Rightarrow> int \<Rightarrow> world \<Rightarrow> unit outcome option" where
  "execute_yielding_requests_interleaved hw total_requests off_args offload_req_xfer
      off_req_state interleaved_state off_times yield_to_resume_times hash_times idx w =
    do {
      r \<leftarrow> interleaved_loop hw False total_requests off_req_state off_args
             (\<lambda>_. Some interleaved_state) None offload_req_xfer w;
      (case r of
         Exited w \<Rightarrow> Some (Exited w)
       | Done w _ \<Rightarrow>
           do {
             w \<leftarrow> two_phase_breakdown off_args total_requests off_times yield_to_resume_times hash_times idx w;
             Some (Done w ())
           })
    }"

section \<open>Blocking, CPU and general purpose core executors\<close>

text \<open>Time one closed loop run: a time stamp before and after, their difference is stored.\<close>

definition timed_blocking_run ::
  "env \<Rightarrow> int \<Rightarrow> u64 option list \<Rightarrow> ('a \<Rightarrow> world \<Rightarrow> world slice option) list \<Rightarrow> 'a list \<Rightarrow>
   world \<Rightarrow> u64 option list outcome option" where
  "timed_blocking_run hw total_requests sampling_interval_completion_times off_req_state off_args w =
    do {
      let (t, w) = rdtsc hw w;
      stamps \<leftarrow> arr_set sampling_interval_completion_times 0 (Some t);
      r \<leftarrow> blocking_loop (requests_left total_requests) off_req_state off_args 0 w;
      (case r of
         Exited w \<Rightarrow> Some (Exited w)
       | Done w _ \<Rightarrow>
           do {
             let (t, w) = rdtsc hw w;
             stamps \<leftarrow> arr_set stamps 1 (Some t);
             Some (Done w stamps)
           })
    }"

definition execute_blocking_requests_closed_system_with_sampling ::
  "env \<Rightarrow> int \<Rightarrow> u64 option list \<Rightarrow> offload_args list \<Rightarrow>
   (offload_args \<Rightarrow> world \<Rightarrow> world slice option) list \<Rightarrow> ptr \<Rightarrow> int \<Rightarrow> world \<Rightarrow> unit outcome option" where
  "execute_blocking_requests_closed_system_with_sampling hw total_requests
      sampling_interval_completion_times off_args off_req_state exetime idx w =
    do {
      r \<leftarrow> timed_blocking_run hw total_requests sampling_interval_completion_times off_req_state off_args w;
      (case r of
         Exited w \<Rightarrow> Some (Exited w)
       | Done w stamps \<Rightarrow>
           do {
             d \<leftarrow> interval stamps 0 1;
             w \<leftarrow> write_word exetime idx d w;
             Some (Done w ())
           })
    }"

definition execute_blocking_requests_closed_system_request_breakdown_sampled ::
  "env \<Rightarrow> int \<Rightarrow> u64 option list \<Rightarrow> offload_args list \<Rightarrow>
   (offload_args \<Rightarrow> world \<Rightarrow> world slice option) list \<Rightarrow> ptr \<Rightarrow> ptr \<Rightarrow> ptr \<Rightarrow> int \<Rightarrow> world \<Rightarrow>
   unit outcome option" where
  "execute_blocking_requests_closed_system_request_breakdown_sampled hw total_requests
      sampling_interval_completion_times off_args off_req_state off_times wait_times hash_times idx w =
    do {
      r \<leftarrow> timed_blocking_run hw total_requests sampling_interval_completion_times off_req_state off_args w;
      (case r of
         Exited w \<Rightarrow> Some (Exited w)
       | Done w stamps \<Rightarrow>
           do {
             w \<leftarrow> two_phase_breakdown off_args total_requests off_times wait_times hash_times idx w;
             Some (Done w ())
           })
    }"

definition execute_blocking_requests_closed_system_request_breakdown ::
  "env \<Rightarrow> int \<Rightarrow> offload_args list \<Rightarrow> (offload_args \<Rightarrow> world \<Rightarrow> world slice option) list \<Rightarrow>
   ptr \<Rightarrow> ptr \<Rightarrow> ptr \<Rightarrow> int \<Rightarrow> world \<Rightarrow> unit outcome option" where
  "execute_blocking_requests_closed_system_request_breakdown hw total_requests off_args off_req_state
      off_times wait_times kernel2_time idx w =
    do {
      r \<leftarrow> blocking_loop (requests_left total_requests) off_req_state off_args 0 w;
      (case r of
         Exited w \<Rightarrow> Some (Exited w)
       | Done w _ \<Rightarrow>
           do {
             w \<leftarrow> two_phase_breakdown off_args total_requests off_times wait_times kernel2_time idx w;
             Some (Done w ())
           })
    }"

definition execute_cpu_requests_closed_system_with_sampling ::
  "env \<Rightarrow> int \<Rightarrow> u64 option list \<Rightarrow> cpu_args list \<Rightarrow>
   (cpu_args \<Rightarrow> world \<Rightarrow> world slice option) list \<Rightarrow> ptr \<Rightarrow> int \<Rightarrow> world \<Rightarrow> unit outcome option" where
  "execute_cpu_requests_closed_system_with_sampling hw total_requests
      sampling_interval_completion_times off_args off_req_state ExeTime idx w =
    do {
      r \<leftarrow> timed_blocking_run hw total_requests sampling_interval_completion_times off_req_state off_args w;
      (case r of
         Exited w \<Rightarrow> Some (Exited w)
       | Done w stamps \<Rightarrow>
           do {
             this_rps \<leftarrow> interval stamps 0 1;
             w \<leftarrow> write_word ExeTime idx this_rps w;
             Some (Done w ())
           })
    }"

text \<open>The two averages of the CPU breakdowns.\<close>

definition cpu_breakdown ::
  "ptr \<Rightarrow> ptr \<Rightarrow> ptr \<Rightarrow> int \<Rightarrow> ptr \<Rightarrow> ptr \<Rightarrow> int \<Rightarrow> world \<Rightarrow> world option" where
  "cpu_breakdown ts0 ts1 ts2 total_requests kernel1 kernel2 idx w =
    do {
      let diff = replicate (nat total_requests) 0;
      (diff, w) \<leftarrow> avg_into kernel1 idx ts1 ts0 (requests_completed w) diff w;
      (diff, w) \<leftarrow> avg_into kernel2 idx ts2 ts1 (requests_completed w) diff w;
      Some w
    }"

definition execute_cpu_requests_closed_system_request_breakdown ::
  "env \<Rightarrow> int \<Rightarrow> u64 option list \<Rightarrow> cpu_args list \<Rightarrow>
   (cpu_args \<Rightarrow> world \<Rightarrow> world slice option) list \<Rightarrow> ptr \<Rightarrow> ptr \<Rightarrow> int \<Rightarrow> world \<Rightarrow>
   unit outcome option" where
  "execute_cpu_requests_closed_system_request_breakdown hw total_requests
      sampling_interval_completion_times off_args off_req_state deser_times hash_times idx w =
    do {
      r \<leftarrow> timed_blocking_run hw total_requests sampling_interval_completion_times off_req_state off_args w;
      (case r of
         Exited w \<Rightarrow> Some (Exited w)
       | Done w stamps \<Rightarrow>
           do {
             a \<leftarrow> arr_get off_args 0;
             w \<leftarrow> cpu_breakdown (c_ts0 a) (c_ts1 a) (c_ts2 a) total_requests deser_times hash_times idx w;
             Some (Done w ())
           })
    }"

definition execute_gpcore_requests_closed_system_request_breakdown ::
  "int \<Rightarrow> gpcore_args list \<Rightarrow> (gpcore_args \<Rightarrow> world \<Rightarrow> world slice option) list \<Rightarrow>
   ptr \<Rightarrow> ptr \<Rightarrow> int \<Rightarrow> world \<Rightarrow> unit outcome option" where
  "execute_gpcore_requests_closed_system_request_breakdown total_requests off_args off_req_state
      kernel1 kernel2 idx w =
    do {
      r \<leftarrow> blocking_loop (requests_left total_requests) off_req_state off_args 0 w;
      (case r of
         Exited w \<Rightarrow> Some (Exited w)
       | Done w _ \<Rightarrow>
           do {
             a \<leftarrow> arr_get off_args 0;
             w \<leftarrow> cpu_breakdown (g_ts0 a) (g_ts1 a) (g_ts2 a) total_requests kernel1 kernel2 idx w;
             Some (Done w ())
           })
    }"

definition execute_gpcore_requests_closed_system_with_sampling ::
  "env \<Rightarrow> int \<Rightarrow> gpcore_args list \<Rightarrow> (gpcore_args \<Rightarrow> world \<Rightarrow> world slice option) list \<Rightarrow>
   ptr \<Rightarrow> int \<Rightarrow> world \<Rightarrow> unit outcome option" where
  "execute_gpcore_requests_closed_system_with_sampling hw total_requests off_args off_req_state
      exetime idx w =
    do {
      let (start, w) = rdtsc hw w;
      r \<leftarrow> blocking_loop (requests_left total_requests) off_req_state off_args 0 w;
      (case r of
         Exited w \<Rightarrow> Some (Exited w)
       | Done w _ \<Rightarrow>
           do {
             let (stop, w) = rdtsc hw w;
             w \<leftarrow> write_word exetime idx (stop - start) w;
             Some (Done w ())
           })
    }"

end
