(* ===== verification/Executor_Contracts.thy ===== *)
theory Executor_Contracts
  imports Executors
begin

text \<open>
  What an executor needs of a request function, as locales, and what the scheduling loops then
  guarantee.  \<open>yielding_requests\<close> is the contract of requests that switch back to the executor
  while the accelerator works, \<open>blocking_requests\<close> that of requests that finish in one slice.
\<close>

section \<open>Contracts\<close>

text \<open>A record of a started request: its operation is under way, or its status satisfies the test
  of the executor.\<close>

definition watched :: "(u8 \<Rightarrow> bool) \<Rightarrow> comp \<Rightarrow> bool" where
  "watched complete c \<longleftrightarrow> (status c = 0 \<and> job c \<noteq> None) \<or> complete (status c)"

text \<open>The tests the executors use: false for a pending record, true for every status the
  accelerator writes.\<close>

definition test_ok :: "env \<Rightarrow> (u8 \<Rightarrow> bool) \<Rightarrow> bool" where
  "test_ok hw complete \<longleftrightarrow> \<not> complete COMP_STATUS_PENDING \<and> (\<forall>x. complete (verdict_of hw x))"

lemma test_ok_not_pending: "env_ok hw \<Longrightarrow> test_ok hw not_pending"
  using verdict_of_not_pending [of hw] by (simp add: test_ok_def not_pending_def)

definition starts :: "env \<Rightarrow> nat \<Rightarrow> world \<Rightarrow> world \<Rightarrow> bool" where
  "starts hw i w w' \<longleftrightarrow> (\<exists>w1 w2. later hw w w1 \<and> launched i w1 w2 \<and> later hw w2 w')"

text \<open>The end of a request raises \<open>requests_completed\<close> by \<open>d\<close>: two phase requests count themselves,
  three phase requests do not.\<close>

definition count_by :: "int \<Rightarrow> world \<Rightarrow> world" where
  "count_by d w = w\<lparr>requests_completed := requests_completed w + d\<rparr>"

definition finishes :: "int \<Rightarrow> env \<Rightarrow> world \<Rightarrow> world \<Rightarrow> bool" where
  "finishes d hw w w' \<longleftrightarrow> (\<exists>w1. later hw w w1 \<and> later hw (count_by d w1) w')"

text \<open>A suspended request that, once the status in its completion record satisfies the test of the
  executor, ends and switches back.\<close>

definition resumable ::
  "int \<Rightarrow> env \<Rightarrow> shape \<Rightarrow> nat \<Rightarrow> (u8 \<Rightarrow> bool) \<Rightarrow> nat \<Rightarrow> fiber \<Rightarrow> bool" where
  "resumable d hw K n complete i k \<longleftrightarrow>
    (\<forall>w. shape w = K \<longrightarrow> length (crs w) = n \<longrightarrow> complete (status (crs w ! i)) \<longrightarrow>
      (\<exists>w' k'. k 0 w = Some (Yield w' k') \<and> finishes d hw w w'))"

locale fiber_requests =
  fixes d :: int and hw :: env and K :: shape and n :: nat and complete :: "u8 \<Rightarrow> bool"
    and ctxs :: "('a \<Rightarrow> world \<Rightarrow> world slice option) list" and args :: "'a list"
  assumes env: "env_ok hw" and t: "test_ok hw complete"
    and start: "\<And>i w. i < n \<Longrightarrow> shape w = K \<Longrightarrow> length (crs w) = n \<Longrightarrow>
      \<exists>w' k. start_fiber ctxs args (int i) w = Some (Yield w' k) \<and> starts hw i w w' \<and>
        resumable d hw K n complete i k"

locale yielding_requests = fiber_requests 1 hw K n complete ctxs args
  for hw :: env and K :: shape and n :: nat and complete :: "u8 \<Rightarrow> bool"
    and ctxs :: "('a \<Rightarrow> world \<Rightarrow> world slice option) list" and args :: "'a list"

locale slice_requests =
  fixes d :: int and K :: shape and n :: nat
    and ctxs :: "('a \<Rightarrow> world \<Rightarrow> world slice option) list" and args :: "'a list"
    and submitted :: "nat \<Rightarrow> nat list"
  assumes run: "\<And>i w. i < n \<Longrightarrow> shape w = K \<Longrightarrow> length (crs w) = n \<Longrightarrow>
      \<exists>w' k. start_fiber ctxs args (int i) w = Some (Yield w' k) \<and> shape w' = K \<and>
        length (crs w') = n \<and> requests_completed w' = requests_completed w + d \<and>
        submit_order w' = submit_order w @ submitted i"

locale blocking_requests = slice_requests 1 K n ctxs args submitted
  for K :: shape and n :: nat
    and ctxs :: "('a \<Rightarrow> world \<Rightarrow> world slice option) list" and args :: "'a list"
    and submitted :: "nat \<Rightarrow> nat list"

section \<open>The invariant of the schedulers\<close>

text \<open>\<open>s\<close> requests are started, \<open>c\<close> of them resumed; \<open>o0\<close> are the submissions before the run and
  \<open>r0\<close> is the value of \<open>requests_completed\<close> before it.\<close>

definition sched_inv ::
  "int \<Rightarrow> shape \<Rightarrow> nat \<Rightarrow> (u8 \<Rightarrow> bool) \<Rightarrow> nat list \<Rightarrow> int \<Rightarrow> nat \<Rightarrow> nat \<Rightarrow> world \<Rightarrow> bool" where
  "sched_inv d K n complete o0 r0 s c w \<longleftrightarrow> shape w = K \<and> length (crs w) = n \<and>
    requests_completed w = r0 + d * int c \<and> c \<le> s \<and> s \<le> n \<and> submit_order w = o0 @ [0..<s] \<and>
    (\<forall>i. c \<le> i \<and> i < s \<longrightarrow> watched complete (crs w ! i)) \<and>
    (\<forall>i. s \<le> i \<and> i < n \<longrightarrow> crs w ! i = idle_comp)"

lemma sched_invD:
  assumes "sched_inv d K n complete o0 r0 s c w" shows "shape w = K" and "length (crs w) = n"
  using assms by (simp_all add: sched_inv_def)

lemma watched_later:
  "test_ok hw complete \<Longrightarrow> comp_later hw c c' \<Longrightarrow> watched complete c \<Longrightarrow> watched complete c'"
  by (auto simp: test_ok_def comp_later_def watched_def)

lemma sched_inv_later:
  assumes "test_ok hw complete" and "later hw w w'" and "sched_inv d K n complete o0 r0 s c w"
  shows "sched_inv d K n complete o0 r0 s c w'"
  unfolding sched_inv_def
proof (intro conjI allI impI)
  fix i assume i: "c \<le> i \<and> i < s"
  then have "comp_later hw (crs w ! i) (crs w' ! i)"
    using assms(2,3) by (intro later_nth) (simp_all add: sched_inv_def)
  with i show "watched complete (crs w' ! i)"
    using assms(1,3) by (auto simp: sched_inv_def intro: watched_later)
next
  fix i assume i: "s \<le> i \<and> i < n"
  then show "crs w' ! i = idle_comp"
    using assms(2,3) by (intro later_idle [OF assms(2)]) (simp_all add: sched_inv_def)
qed (use assms(2,3) later_shape [OF assms(2)] later_length [OF assms(2)]
  later_requests_completed [OF assms(2)] later_submit_order [OF assms(2)] in \<open>simp_all add: sched_inv_def\<close>)

lemma sched_inv_starts:
  assumes t: "test_ok hw complete" and i: "sched_inv d K n complete o0 r0 s c w" and s: "s < n"
    and st: "starts hw s w w'"
  shows "sched_inv d K n complete o0 r0 (Suc s) c w'"
proof -
  obtain w1 w2 where w: "later hw w w1" "launched s w1 w2" "later hw w2 w'"
    using st by (auto simp: starts_def)
  have i1: "sched_inv d K n complete o0 r0 s c w1" by (rule sched_inv_later [OF t w(1) i])
  from w(2) obtain x y where l: "shape w2 = shape w1" "requests_completed w2 = requests_completed w1"
    "submit_order w2 = submit_order w1 @ [s]" "crs w2 = (crs w1)[s := \<lparr>status = 0, job = Some (x, y)\<rparr>]"
    by (auto simp: launched_def)
  have "sched_inv d K n complete o0 r0 (Suc s) c w2"
    unfolding sched_inv_def
  proof (intro conjI allI impI)
    fix i assume i: "c \<le> i \<and> i < Suc s"
    show "watched complete (crs w2 ! i)"
    proof (cases "i = s")
      case True
      with i1 s show ?thesis by (simp add: l(4) watched_def sched_inv_def)
    next
      case False
      with i i1 show ?thesis by (simp add: l(4) sched_inv_def)
    qed
  qed (use i1 s in \<open>auto simp: l sched_inv_def\<close>)
  from sched_inv_later [OF t w(3) this] show ?thesis .
qed

lemma count_by_frame [world_simps]:
  "shape (count_by d w) = shape w" "crs (count_by d w) = crs w" "obs (count_by d w) = obs w"
  "requests_completed (count_by d w) = requests_completed w + d"
  by (simp_all add: count_by_def world_simps)

lemma count_request_by: "count_request w = count_by 1 w"
  by (simp add: count_request_def count_by_def)

lemma count_request_frame [world_simps]:
  "shape (count_request w) = shape w" "crs (count_request w) = crs w" "obs (count_request w) = obs w"
  "requests_completed (count_request w) = requests_completed w + 1"
  by (simp_all add: count_request_by world_simps)

lemma sched_inv_finishes:
  assumes t: "test_ok hw complete" and i: "sched_inv d K n complete o0 r0 s c w" and s: "c < s"
    and f: "finishes d hw w w'"
  shows "sched_inv d K n complete o0 r0 s (Suc c) w'"
proof -
  obtain w1 where w: "later hw w w1" "later hw (count_by d w1) w'"
    using f by (auto simp: finishes_def)
  have i1: "sched_inv d K n complete o0 r0 s c w1" by (rule sched_inv_later [OF t w(1) i])
  then have "sched_inv d K n complete o0 r0 s (Suc c) (count_by d w1)"
    using s by (simp add: sched_inv_def world_simps distrib_left)
  from sched_inv_later [OF t w(2) this] show ?thesis .
qed

section \<open>The yielding loop\<close>

text \<open>The polls left until the operation of record \<open>i\<close> is done.\<close>

definition polls_left :: "nat \<Rightarrow> world \<Rightarrow> nat" where
  "polls_left i w = (case job (crs w ! i) of None \<Rightarrow> 0 | Some (_, t) \<Rightarrow> t - polls w)"

lemma polls_left_tick:
  assumes hw: "env_ok hw" and i: "i < length (crs w)" and j: "job (crs w ! i) \<noteq> None"
    and p: "\<not> completed_at i (tick hw w)"
  shows "polls_left i (tick hw w) < polls_left i w"
proof -
  obtain x t where xt: "job (crs w ! i) = Some (x, t)" using j by auto
  have "comp_later hw (crs w ! i) (crs (tick hw w) ! i)"
    by (rule later_nth [OF tick_later [OF hw] i])
  with p have same: "crs (tick hw w) ! i = crs w ! i"
    using verdict_of_not_pending [OF hw] by (auto simp: comp_later_def completed_at_def)
  have "Suc (polls w) < t" using tick_due [OF hw i xt] p by (meson not_le_imp_less)
  with xt same show ?thesis by (simp add: polls_left_def world_simps)
qed

text \<open>A sampling hook that always succeeds and changes nothing the schedulers rely on.\<close>

definition hook_ok ::
  "env \<Rightarrow> (world \<Rightarrow> sampling \<Rightarrow> (world \<times> sampling) option) \<Rightarrow> (nat \<Rightarrow> sampling \<Rightarrow> bool) \<Rightarrow> int \<Rightarrow> int \<Rightarrow> nat \<Rightarrow> bool" where
  "hook_ok hw sample S d r0 n \<longleftrightarrow>
    (\<forall>c w smp. c < n \<longrightarrow> requests_completed w = r0 + d * int (Suc c) \<longrightarrow> S c smp \<longrightarrow>
      (\<exists>w' smp'. sample w smp = Some (w', smp') \<and> later hw w w' \<and> S (Suc c) smp'))"

text \<open>A loop condition that holds while fewer than \<open>n\<close> requests were counted.\<close>

definition again_ok :: "(nat \<Rightarrow> world \<Rightarrow> bool) \<Rightarrow> int \<Rightarrow> int \<Rightarrow> nat \<Rightarrow> bool" where
  "again_ok again d r0 n \<longleftrightarrow>
    (\<forall>c w. c \<le> n \<longrightarrow> requests_completed w = r0 + d * int c \<longrightarrow> again c w = (c < n))"

lemma again_okD:
  "again_ok again d r0 n \<Longrightarrow> c \<le> n \<Longrightarrow> requests_completed w = r0 + d * int c \<Longrightarrow> again c w \<longleftrightarrow> c < n"
  by (simp add: again_ok_def)

definition xfers_ok ::
  "int \<Rightarrow> env \<Rightarrow> shape \<Rightarrow> nat \<Rightarrow> (u8 \<Rightarrow> bool) \<Rightarrow> nat \<Rightarrow> nat \<Rightarrow> fiber option list \<Rightarrow> bool" where
  "xfers_ok d hw K n complete s c xfers \<longleftrightarrow> length xfers = n \<and>
    (\<forall>i. c \<le> i \<and> i < s \<longrightarrow> (\<exists>k. xfers ! i = Some k \<and> resumable d hw K n complete i k))"

context fiber_requests
begin

lemma loop_done:
  assumes again: "again_ok again d r0 n"
    and hook: "hook_ok hw sample S d r0 n"
    and "sched_inv d K n complete o0 r0 s c w" and "xfers_ok d hw K n complete s c xfers" and "S c smp"
  shows "\<exists>w' smp'. yielding_loop hw again complete sample (int n) ctxs args s c xfers smp w =
      Some (Done w' smp') \<and> sched_inv d K n complete o0 r0 n n w' \<and> S n smp'"
  using assms(3-)
proof (induction "(s, c, xfers, smp, w)" arbitrary: s c xfers smp w
    rule: wf_induct_rule [OF wf_measures [of "[\<lambda>(s, c, xfers, smp, w). n - c, \<lambda>(s, c, xfers, smp, w). n - s,
      \<lambda>(s, c, xfers, smp, w). polls_left c w]"]])
  case (1 s c xfers smp w)
  note IH = "1.hyps" and inv = "1.prems"(1) and xf = "1.prems"(2) and S = "1.prems"(3)
  let ?loop = "yielding_loop hw again complete sample (int n) ctxs args"
  have cn: "c \<le> n" "c \<le> s" "s \<le> n" "requests_completed w = r0 + d * int c" "length (crs w) = n"
    using inv by (simp_all add: sched_inv_def)
  show ?case
  proof (cases "c < n")
    case False
    with cn again_okD [OF again cn(1,4)] have "c = n" "s = n" "\<not> again c w" by auto
    with inv S show ?thesis by (subst yielding_loop.simps) simp
  next
    case True
    let ?w = "tick hw w"
    have ag: "again c w" using again_okD [OF again cn(1,4)] True by blast
    have rd: "read_status hw c w = Some (status (crs ?w ! c), ?w)"
      using True cn(5) by (simp add: read_status_def Let_def world_simps)
    have inv1: "sched_inv d K n complete o0 r0 s c ?w"
      by (rule sched_inv_later [OF t tick_later [OF env] inv])
    show ?thesis
    proof (cases "complete (status (crs ?w ! c))")
      case fin: True
      have "c < s"
      proof (rule ccontr)
        assume "\<not> c < s"
        with inv1 True have "crs ?w ! c = idle_comp" by (simp add: sched_inv_def)
        with fin t show False by (simp add: test_ok_def idle_comp_def COMP_STATUS_PENDING_def)
      qed
      then obtain k where k: "xfers ! c = Some k" "resumable d hw K n complete c k"
        using xf by (auto simp: xfers_ok_def)
      with k(2) fin inv1 obtain w2 k2 where r: "k 0 ?w = Some (Yield w2 k2)" "finishes d hw ?w w2"
        by (auto simp: resumable_def sched_inv_def)
      have inv2: "sched_inv d K n complete o0 r0 s (Suc c) w2"
        by (rule sched_inv_finishes [OF t inv1 \<open>c < s\<close> r(2)])
      then have "requests_completed w2 = r0 + d * int (Suc c)" by (simp add: sched_inv_def)
      with hook True S obtain w3 smp3 where h: "sample w2 smp = Some (w3, smp3)" "later hw w2 w3"
        "S (Suc c) smp3" unfolding hook_ok_def by blast
      have inv3: "sched_inv d K n complete o0 r0 s (Suc c) w3" by (rule sched_inv_later [OF t h(2) inv2])
      have xf3: "xfers_ok d hw K n complete s (Suc c) xfers" using xf by (simp add: xfers_ok_def)
      have "resume_fiber xfers (int c) 0 ?w = Some (Yield w2 k2)"
        using xf True k(1) r(1) by (simp add: resume_fiber_def arr_simps xfers_ok_def)
      then have "?loop s c xfers smp w = ?loop s (Suc c) xfers smp3 w3"
        using ag rd fin h(1) by (subst yielding_loop.simps) simp
      moreover have "\<exists>w' smp'. ?loop s (Suc c) xfers smp3 w3 = Some (Done w' smp') \<and>
          sched_inv d K n complete o0 r0 n n w' \<and> S n smp'"
        by (rule IH [OF _ inv3 xf3 h(3)]) (use True in \<open>simp add: diff_less_mono2\<close>)
      ultimately show ?thesis by simp
    next
      case nfin: False
      show ?thesis
      proof (cases "s < n")
        case True
        obtain w2 k where st: "start_fiber ctxs args (int s) ?w = Some (Yield w2 k)"
          "starts hw s ?w w2" "resumable d hw K n complete s k"
          using start [OF True sched_invD [OF inv1]] by blast
        have inv2: "sched_inv d K n complete o0 r0 (Suc s) c w2"
          by (rule sched_inv_starts [OF t inv1 True st(2)])
        have xf2: "xfers_ok d hw K n complete (Suc s) c (xfers[s := Some k])"
          using xf st(3) True by (auto simp: xfers_ok_def nth_list_update less_Suc_eq)
        have "arr_set xfers (int s) (Some k) = Some (xfers[s := Some k])"
          using xf True by (intro arr_set_nat) (simp add: xfers_ok_def)
        then have "?loop s c xfers smp w = ?loop (Suc s) c (xfers[s := Some k]) smp w2"
          using ag rd nfin st(1) True by (subst yielding_loop.simps) simp
        moreover have "\<exists>w' smp'. ?loop (Suc s) c (xfers[s := Some k]) smp w2 = Some (Done w' smp') \<and>
            sched_inv d K n complete o0 r0 n n w' \<and> S n smp'"
          by (rule IH [OF _ inv2 xf2 S]) (use True in \<open>simp add: diff_less_mono2\<close>)
        ultimately show ?thesis by simp
      next
        case False
        with cn have s: "s = n" by simp
        have wt: "watched complete (crs w ! c)" using inv s True by (simp add: sched_inv_def)
        have wt1: "watched complete (crs ?w ! c)" using inv1 s True by (simp add: sched_inv_def)
        then have nc: "\<not> completed_at c ?w"
          using nfin by (auto simp: watched_def completed_at_def COMP_STATUS_PENDING_def)
        have "completed_at c ?w" if "completed_at c w"
          by (rule later_completed [OF env tick_later [OF env] _ that]) (use True cn in simp)
        with nc have "\<not> completed_at c w" by blast
        with wt t have j: "job (crs w ! c) \<noteq> None"
          by (auto simp: watched_def completed_at_def test_ok_def)
        have "polls_left c ?w < polls_left c w"
          by (rule polls_left_tick [OF env _ j nc]) (use True cn in simp)
        then have "\<exists>w' smp'. ?loop s c xfers smp ?w = Some (Done w' smp') \<and>
            sched_inv d K n complete o0 r0 n n w' \<and> S n smp'"
          by (intro IH [OF _ inv1 xf S]) simp
        moreover have "?loop s c xfers smp w = ?loop s c xfers smp ?w"
          using ag rd nfin s by (subst yielding_loop.simps) simp
        ultimately show ?thesis by simp
      qed
    qed
  qed
qed

end

text \<open>The loop of the best case executor: one request after the other.\<close>

context yielding_requests
begin

lemma wait_completed_done:
  assumes c: "complete = is_completed" and "i < length (crs w)" and "watched is_completed (crs w ! i)"
  shows "\<exists>w'. wait_completed hw i w = Some w' \<and> later hw w w' \<and> is_completed (status (crs w' ! i))"
  using assms(2-)
proof (induction "polls_left i w" arbitrary: w rule: less_induct)
  case less
  let ?w = "tick hw w"
  have rd: "read_status hw i w = Some (status (crs ?w ! i), ?w)"
    using less.prems(1) by (simp add: read_status_def Let_def world_simps)
  have l: "later hw w ?w" by (rule tick_later [OF env])
  have wt: "watched is_completed (crs ?w ! i)"
    by (rule watched_later [OF t [unfolded c] later_nth [OF l less.prems(1)] less.prems(2)])
  show ?case
  proof (cases "is_completed (status (crs ?w ! i))")
    case True
    with rd have "wait_completed hw i w = Some ?w"
      by (subst wait_completed.simps) (simp add: is_completed_def)
    with l True show ?thesis by blast
  next
    case False
    with wt have nc: "\<not> completed_at i ?w"
      by (auto simp: watched_def completed_at_def COMP_STATUS_PENDING_def)
    have "\<not> completed_at i w"
      using nc later_completed [OF env l less.prems(1)] by blast
    with less.prems(2) t c have "job (crs w ! i) \<noteq> None"
      by (auto simp: watched_def completed_at_def test_ok_def)
    then have "polls_left i ?w < polls_left i w" by (rule polls_left_tick [OF env less.prems(1) _ nc])
    from less.hyps [OF this _ wt] less.prems(1) obtain w' where
      w': "wait_completed hw i ?w = Some w'" "later hw ?w w'" "is_completed (status (crs w' ! i))"
      by (auto simp: world_simps)
    moreover have "wait_completed hw i w = wait_completed hw i ?w"
      using rd False by (subst wait_completed.simps) (simp add: is_completed_def)
    ultimately show ?thesis using later_trans [OF l w'(2)] by auto
  qed
qed

lemma best_case_done:
  assumes cc: "complete = is_completed"
    and "sched_inv 1 K n complete o0 0 c c w" and "length xfers = n"
  shows "\<exists>w'. best_case_loop hw (int n) ctxs args xfers w = Some (Done w' ()) \<and>
    sched_inv 1 K n complete o0 0 n n w'"
  using assms(2-)
proof (induction "n - c" arbitrary: c w xfers)
  case 0
  then have "c = n" "requests_completed w = int n" by (simp_all add: sched_inv_def)
  with 0 show ?case by (subst best_case_loop.simps) simp
next
  case (Suc m)
  then have c: "c < n" and rc: "requests_completed w = int c" by (simp_all add: sched_inv_def)
  obtain w1 k where st: "start_fiber ctxs args (int c) w = Some (Yield w1 k)"
    "starts hw c w w1" "resumable 1 hw K n complete c k"
    using start [OF c sched_invD [OF Suc.prems(1)]] by blast
  have i1: "sched_inv 1 K n complete o0 0 (Suc c) c w1"
    by (rule sched_inv_starts [OF t Suc.prems(1) c st(2)])
  then have w1: "c < length (crs w1)" "watched is_completed (crs w1 ! c)" "requests_completed w1 = int c"
    using c cc by (simp_all add: sched_inv_def)
  from wait_completed_done [OF cc w1(1,2)] obtain w2 where
    w2: "wait_completed hw c w1 = Some w2" "later hw w1 w2" "is_completed (status (crs w2 ! c))" by blast
  have i2: "sched_inv 1 K n complete o0 0 (Suc c) c w2" by (rule sched_inv_later [OF t w2(2) i1])
  have "complete (status (crs w2 ! c))" using w2(3) cc by simp
  with i2 st(3) obtain w3 k3 where r: "k 0 w2 = Some (Yield w3 k3)" "finishes 1 hw w2 w3"
    by (auto simp: resumable_def sched_inv_def)
  have i3: "sched_inv 1 K n complete o0 0 (Suc c) (Suc c) w3"
    by (rule sched_inv_finishes [OF t i2 _ r(2)]) simp
  have set: "arr_set xfers (int c) (Some k) = Some (xfers[c := Some k])"
    using Suc.prems(2) c by (simp only: arr_set_nat)
  have res: "resume_fiber (xfers[c := Some k]) (int c) 0 w2 = Some (Yield w3 k3)"
    using Suc.prems(2) c r(1) by (simp add: resume_fiber_def arr_simps)
  have rc2: "requests_completed w2 = int c" using i2 by (simp add: sched_inv_def)
  have "best_case_loop hw (int n) ctxs args xfers w = best_case_loop hw (int n) ctxs args (xfers[c := Some k]) w3"
    using rc c st(1) set w1(3) w2(1) rc2 res by (subst best_case_loop.simps) simp
  moreover have "\<exists>w'. best_case_loop hw (int n) ctxs args (xfers[c := Some k]) w3 = Some (Done w' ()) \<and>
      sched_inv 1 K n complete o0 0 n n w'"
    by (rule Suc.hyps(1) [OF _ i3]) (use Suc.hyps(2) Suc.prems(2) in simp_all)
  ultimately show ?case by simp
qed

end

section \<open>The blocking loop\<close>

context slice_requests
begin

lemma loop_done:
  assumes again: "again_ok again d r0 n"
    and "c \<le> n" and "shape w = K" and "length (crs w) = n" and "requests_completed w = r0 + d * int c"
  shows "\<exists>w'. blocking_loop again ctxs args c w = Some (Done w' ()) \<and> shape w' = K \<and>
    length (crs w') = n \<and> requests_completed w' = r0 + d * int n \<and>
    submit_order w' = submit_order w @ concat (map submitted [c..<n])"
  using assms(2-)
proof (induction "n - c" arbitrary: c w)
  case 0
  with again_okD [OF again, of c w] show ?case by (subst blocking_loop.simps) simp
next
  case (Suc m)
  then have c: "c < n" by simp
  from run [OF c Suc.prems(2,3)] obtain w1 k where
    r: "start_fiber ctxs args (int c) w = Some (Yield w1 k)" "shape w1 = K" "length (crs w1) = n"
      "requests_completed w1 = requests_completed w + d" "submit_order w1 = submit_order w @ submitted c"
    by blast
  have "requests_completed w1 = r0 + d * int (Suc c)" using r(4) Suc.prems(4) by (simp add: distrib_left)
  moreover have "m = n - Suc c" "Suc c \<le> n" using Suc.hyps(2) c by simp_all
  ultimately obtain w' where
    w': "blocking_loop again ctxs args (Suc c) w1 = Some (Done w' ())" "shape w' = K" "length (crs w') = n"
      "requests_completed w' = r0 + d * int n" "submit_order w' = submit_order w1 @ concat (map submitted [Suc c..<n])"
    using Suc.hyps(1) [OF _ _ r(2,3)] by blast
  have "blocking_loop again ctxs args c w = blocking_loop again ctxs args (Suc c) w1"
    using again_okD [OF again Suc.prems(1,4)] c r(1) by (subst blocking_loop.simps) simp
  with w' r(5) c show ?case by (simp add: upt_conv_Cons)
qed

end

section \<open>Results\<close>

lemma write_word_ok:
  assumes "kinds w p = Some (KWords m)" and "i < m"
  shows "\<exists>w'. write_word p (int i) v w = Some w' \<and> later hw w w'"
proof -
  obtain xs where xs: "get_words p w = Some xs" "length xs = m" using assms(1) by (auto simp: kinds_words)
  have "write_word p (int i) v w = Some (w\<lparr>heap := (heap w)(p \<mapsto> Words (xs[i := v]))\<rparr>)"
    using xs assms(2) by (simp add: write_word_def arr_simps)
  moreover have "later hw w (w\<lparr>heap := (heap w)(p \<mapsto> Words (xs[i := v]))\<rparr>)"
    by (rule later_heap_update) (use assms(1) xs(2) in simp)
  ultimately show ?thesis by blast
qed

lemma avg_into_ok:
  assumes "0 < n" and "n < 2 ^ 31" and "kinds w after = Some (KWords a)" and "kinds w before = Some (KWords b)"
    and "kinds w dst = Some (KWords m)" and "n \<le> a" and "n \<le> b" and "n \<le> length diff" and "idx < m"
  shows "\<exists>d w'. avg_into dst (int idx) after before (int n) diff w = Some (d, w') \<and> length d = length diff \<and>
    later hw w w'"
proof -
  obtain xs ys where x: "get_words after w = Some xs" "length xs = a" "get_words before w = Some ys" "length ys = b"
    using assms(3,4) by (auto simp: kinds_words)
  have "0 < int n" "int n < 2 ^ 31" using assms(1,2) by simp_all
  from avg_samples_eval [OF this, of diff xs ys] assms(6-8) x obtain d v where
    d: "avg_samples_from_arrays diff xs ys (int n) = Some (d, v)" by auto
  from write_word_ok [OF assms(5,9), of v hw] obtain w' where
    "write_word dst (int idx) v w = Some w'" "later hw w w'" by blast
  moreover have "length d = length diff"
    using d gen_diff_array_spec [of "int n" diff ys xs] assms(6-8) x
    by (auto simp: avg_samples_from_arrays_def split: Option.bind_splits)
  ultimately show ?thesis using x d by (auto simp: avg_into_def)
qed

text \<open>The arrays the two phase and the CPU breakdowns read and write.\<close>

definition two_phase_arrays ::
  "shape \<Rightarrow> nat \<Rightarrow> offload_args \<Rightarrow> ptr \<Rightarrow> ptr \<Rightarrow> ptr \<Rightarrow> nat \<Rightarrow> bool" where
  "two_phase_arrays K n a off wait hash idx \<longleftrightarrow>
    (\<forall>ts \<in> {a_ts0 a, a_ts1 a, a_ts2 a, a_ts3 a}. blocks K ts = Some (KWords n)) \<and>
    (\<forall>p \<in> {off, wait, hash}. \<exists>m > idx. blocks K p = Some (KWords m))"

lemma two_phase_breakdown_ok:
  assumes "0 < n" and "n < 2 ^ 31" and "args \<noteq> []" and "requests_completed w = int n"
    and "two_phase_arrays (shape w) n (hd args) off wait hash idx"
  shows "\<exists>w'. two_phase_breakdown args (int n) off wait hash (int idx) w = Some w' \<and> later hw w w'"
proof -
  let ?a = "hd args"
  obtain m1 m2 m3 where K: "kinds w (a_ts0 ?a) = Some (KWords n)" "kinds w (a_ts1 ?a) = Some (KWords n)"
    "kinds w (a_ts2 ?a) = Some (KWords n)" "kinds w (a_ts3 ?a) = Some (KWords n)"
    "kinds w off = Some (KWords m1)" "idx < m1" "kinds w wait = Some (KWords m2)" "idx < m2"
    "kinds w hash = Some (KWords m3)" "idx < m3"
    using assms(5) by (auto simp: two_phase_arrays_def)
  let ?d = "replicate n 0 :: u64 list"
  obtain d1 w1 where 1: "avg_into off (int idx) (a_ts1 ?a) (a_ts0 ?a) (int n) ?d w = Some (d1, w1)"
    "length d1 = n" "later hw w w1"
    using avg_into_ok [OF assms(1,2) K(2,1,5), of ?d idx hw] K(6) by auto
  have k1: "kinds w1 = kinds w" by (rule later_kinds [OF 1(3)])
  obtain d2 w2 where 2: "avg_into wait (int idx) (a_ts2 ?a) (a_ts1 ?a) (int n) d1 w1 = Some (d2, w2)"
    "length d2 = n" "later hw w1 w2"
    using avg_into_ok [OF assms(1,2) K(3,2,7) [folded k1], of d1 idx hw] K(8) 1(2) by auto
  have k2: "kinds w2 = kinds w" using later_kinds [OF 2(3)] k1 by simp
  obtain d3 w3 where 3: "avg_into hash (int idx) (a_ts3 ?a) (a_ts2 ?a) (int n) d2 w2 = Some (d3, w3)"
    "length d3 = n" "later hw w2 w3"
    using avg_into_ok [OF assms(1,2) K(4,3,9) [folded k2], of d2 idx hw] K(10) 2(2) by auto
  have rc: "requests_completed w1 = int n" "requests_completed w2 = int n"
    using assms(4) later_requests_completed [OF 1(3)] later_requests_completed [OF 2(3)] by simp_all
  have "arr_get args 0 = Some ?a" using assms(3) by (cases args) (simp_all add: arr_get_def)
  then have "two_phase_breakdown args (int n) off wait hash (int idx) w = Some w3"
    using 1(1) 2(1) 3(1) rc assms(4) by (simp add: two_phase_breakdown_def)
  with later_trans [OF 1(3) later_trans [OF 2(3) 3(3)]] show ?thesis by blast
qed

lemma cpu_breakdown_ok:
  assumes "0 < n" and "n < 2 ^ 31" and "requests_completed w = int n"
    and "kinds w t0 = Some (KWords n)" and "kinds w t1 = Some (KWords n)" and "kinds w t2 = Some (KWords n)"
    and "kinds w p = Some (KWords m)" and "idx < m" and "kinds w q = Some (KWords m')" and "idx < m'"
  shows "\<exists>w'. cpu_breakdown t0 t1 t2 (int n) p q (int idx) w = Some w' \<and> later hw w w'"
proof -
  let ?d = "replicate n 0 :: u64 list"
  obtain d1 w1 where 1: "avg_into p (int idx) t1 t0 (int n) ?d w = Some (d1, w1)" "length d1 = n" "later hw w w1"
    using avg_into_ok [OF assms(1,2,5,4,7), of ?d idx hw] assms(8) by auto
  have k1: "kinds w1 = kinds w" by (rule later_kinds [OF 1(3)])
  obtain d2 w2 where 2: "avg_into q (int idx) t2 t1 (int n) d1 w1 = Some (d2, w2)" "later hw w1 w2"
    using avg_into_ok [OF assms(1,2) assms(6,5,9) [folded k1], of d1 idx hw] assms(10) 1(2) by auto
  have "requests_completed w1 = int n" using assms(3) later_requests_completed [OF 1(3)] by simp
  with 1 2 assms(3) later_trans [OF 1(3) 2(2)] show ?thesis by (auto simp: cpu_breakdown_def)
qed

section \<open>Sampling\<close>

text \<open>After \<open>r\<close> completed requests the first \<open>r div q + 1\<close> time stamps are taken.\<close>

definition sampled :: "nat \<Rightarrow> nat \<Rightarrow> nat \<Rightarrow> sampling \<Rightarrow> bool" where
  "sampled q m r smp \<longleftrightarrow> length (fst smp) = m \<and> snd smp = Suc (r div q) \<and>
    (\<forall>i < snd smp. fst smp ! i \<noteq> None)"

lemma later_tscs: "later hw w (w\<lparr>tscs := k\<rparr>)"
  by (simp add: later_def shape_eq_iff kinds_def list_all2_refl)

lemma sample_interval_ok:
  assumes q: "0 < q"
  shows "hook_ok hw (sample_interval hw (int q)) (sampled q (Suc (n div q))) 1 0 n"
  unfolding hook_ok_def
proof (intro allI impI)
  fix c and w :: world and smp
  assume c: "c < n" and rc: "requests_completed w = 0 + 1 * int (Suc c)"
    and S: "sampled q (Suc (n div q)) c smp"
  have rc': "requests_completed w = int (Suc c)" using rc by simp
  show "\<exists>w' smp'. sample_interval hw (int q) w smp = Some (w', smp') \<and> later hw w w' \<and>
      sampled q (Suc (n div q)) (Suc c) smp'"
  proof (cases "Suc c mod q = 0")
    case False
    then have "int (Suc c) mod int q \<noteq> 0" by (metis of_nat_0_eq_iff of_nat_mod)
    then have "sample_interval hw (int q) w smp = Some (w, smp)"
      using q by (simp only: sample_interval_def rc') simp
    moreover have "Suc c div q = c div q" using False by (simp add: div_Suc)
    ultimately show ?thesis using S by (auto simp only: sampled_def later_refl)
  next
    case True
    then have m: "int (Suc c) mod int q = 0" by (metis of_nat_0_eq_iff of_nat_mod)
    have d: "Suc c div q = Suc (c div q)" using True by (simp add: div_Suc)
    obtain ts k where smp: "smp = (ts, k)" by (cases smp)
    have k: "k = Suc (c div q)" "length ts = Suc (n div q)" "\<forall>i < k. ts ! i \<noteq> None"
      using S smp by (simp_all add: sampled_def)
    have "Suc (c div q) \<le> n div q" using c d div_le_mono [of "Suc c" n q] by simp
    then have kl: "k < length ts" using k by simp
    let ?ts = "ts[k := Some (tsc hw (tscs w))]"
    have "sample_interval hw (int q) w smp = Some (w\<lparr>tscs := Suc (tscs w)\<rparr>, (?ts, Suc k))"
      using q m kl by (simp only: sample_interval_def rc' smp) (simp add: rdtsc_def arr_simps)
    moreover have "sampled q (Suc (n div q)) (Suc c) (?ts, Suc k)"
      using k d kl unfolding sampled_def by (auto simp: nth_list_update less_Suc_eq)
    ultimately show ?thesis using later_tscs by blast
  qed
qed

section \<open>The executors of offload requests\<close>

text \<open>The state an executor is called in: \<open>n\<close> idle completion records, the counter at \<open>r0\<close>.\<close>

definition ready_world :: "shape \<Rightarrow> nat \<Rightarrow> int \<Rightarrow> world \<Rightarrow> bool" where
  "ready_world K n r0 w \<longleftrightarrow> shape w = K \<and> crs w = replicate n idle_comp \<and> requests_completed w = r0"

text \<open>What every executor leaves: all requests counted, each submitted exactly once and in order,
  no block allocated, freed or resized.\<close>

definition all_served :: "shape \<Rightarrow> nat \<Rightarrow> int \<Rightarrow> world \<Rightarrow> world \<Rightarrow> bool" where
  "all_served K n r0 w w' \<longleftrightarrow> shape w' = K \<and> length (crs w') = n \<and>
    requests_completed w' = r0 + int n \<and> submit_order w' = submit_order w @ [0..<n]"

lemma ready_sched_inv:
  "ready_world K n r0 w \<Longrightarrow> sched_inv d K n complete (submit_order w) r0 0 0 w"
  by (simp add: ready_world_def sched_inv_def)

lemma ready_later_tscs: "ready_world K n r0 w \<Longrightarrow> ready_world K n r0 (w\<lparr>tscs := k\<rparr>)"
  by (simp add: ready_world_def world_simps)

lemma sched_all_served:
  "sched_inv 1 K n complete (submit_order w) r0 n n w' \<Longrightarrow> all_served K n r0 w w'"
  by (simp add: sched_inv_def all_served_def)

lemma all_served_later: "all_served K n r0 w w1 \<Longrightarrow> later hw w1 w2 \<Longrightarrow> all_served K n r0 w w2"
  by (auto simp: all_served_def later_shape later_requests_completed later_submit_order later_length)

lemma all_served_tscs: "all_served K n r0 (w\<lparr>tscs := k\<rparr>) w' = all_served K n r0 w w'"
  by (simp add: all_served_def)

lemma again_requests_left:
  "again_ok (requests_left (int n)) 1 0 n"
  by (simp add: requests_left_def again_ok_def)

lemma again_index_left: "again_ok (index_left (int n)) d r0 n"
  by (simp add: index_left_def again_ok_def)

lemma no_sampling_ok: "hook_ok hw no_sampling (\<lambda>_ _. True) d r0 n"
  by (auto simp: hook_ok_def no_sampling_def)

text \<open>What the executor with sampling does with its time stamps.\<close>

definition store_intervals :: "u64 option list \<Rightarrow> ptr \<Rightarrow> int \<Rightarrow> nat \<Rightarrow> world \<Rightarrow> world option" where
  "store_intervals ts ex idx m = foldM (\<lambda>i w. do {
      d \<leftarrow> interval ts (int i) (int i + 1);
      write_word ex (idx + int i) d w }) [0..<m]"

lemma store_intervals_ok:
  assumes "\<forall>i \<le> m. i < length stamps \<and> stamps ! i \<noteq> None" and "kinds w ex = Some (KWords len)"
    and "idx + m \<le> len"
  shows "\<exists>w'. foldM (\<lambda>i w. do {
      d \<leftarrow> interval stamps (int i) (int i + 1);
      write_word ex (int idx + int i) d w }) [0..<m] w = Some w' \<and> later hw w w'"
proof (rule foldM_upt_rule)
  fix i s assume i: "i < m" and l: "later hw w s"
  obtain x y where "stamps ! i = Some x" "stamps ! Suc i = Some y" "i < length stamps" "Suc i < length stamps"
    using assms(1) i by (metis Suc_leI less_imp_le not_None_eq)
  then have d: "interval stamps (int i) (int i + 1) = Some (y - x)"
    using arr_get_nat [of "Suc i" stamps] by (simp add: interval_def arr_simps add.commute)
  have "kinds s ex = Some (KWords len)" "idx + i < len"
    using assms(2,3) i later_kinds [OF l] by simp_all
  from write_word_ok [OF this, of "y - x" hw] d l show
    "\<exists>s'. do { d \<leftarrow> interval stamps (int i) (int i + 1); write_word ex (int idx + int i) d s } = Some s' \<and>
      later hw w s'"
    by (auto intro: later_trans)
qed simp_all

text \<open>The samples of the last iteration may leave their array.\<close>

lemma store_intervals_overflow:
  assumes "kinds w ex = Some (KWords len)" and "idx \<le> len" and "len < idx + m"
  shows "store_intervals ts ex (int idx) m w = None"
proof -
  let ?f = "\<lambda>i w. do { d \<leftarrow> interval ts (int i) (int i + 1); write_word ex (int idx + int i) d w }"
  have keep: "kinds w2 ex = Some (KWords len)" if "foldM ?f is w1 = Some w2" "kinds w1 ex = Some (KWords len)" for "is" w1 w2
    using that
  proof (induction "is" arbitrary: w1)
    case (Cons i "is")
    then obtain w3 where w3: "?f i w1 = Some w3" "foldM ?f is w3 = Some w2" by (auto split: option.splits)
    then have "kinds w3 ex = Some (KWords len)"
      using Cons.prems(2) by (auto simp: write_word_def kinds_words get_words_def kinds_def arr_set_def
          split: bind_splits if_splits option.splits block.splits)
    with Cons.IH w3(2) show ?case by blast
  qed simp
  have m: "[0..<m] = [0..<len - idx] @ (len - idx) # [Suc (len - idx)..<m]"
    using assms(2,3) upt_add_eq_append [of 0 "len - idx" "m - (len - idx)"] upt_conv_Cons [of "len - idx" m] by simp
  have "?f (len - idx) w1 = None" if "kinds w1 ex = Some (KWords len)" for w1
    using that assms(2) by (auto simp: write_word_def kinds_words arr_set_def split: bind_splits)
  with keep [OF _ assms(1)] show ?thesis
    unfolding store_intervals_def m foldM_append by (auto split: option.splits)
qed

context fiber_requests
begin

lemma loop_from_ready:
  assumes "ready_world K n r0 w" and "length xfers = n" and "S 0 smp"
    and "again_ok again d r0 n" and "hook_ok hw sample S d r0 n"
  shows "\<exists>w' smp'. yielding_loop hw again complete sample (int n) ctxs args 0 0 xfers smp w =
    Some (Done w' smp') \<and> sched_inv d K n complete (submit_order w) r0 n n w' \<and> S n smp'"
proof -
  have "xfers_ok d hw K n complete 0 0 xfers" using assms(2) by (simp add: xfers_ok_def)
  then show ?thesis using loop_done [OF assms(4,5) ready_sched_inv [OF assms(1)] _ assms(3)] by blast
qed

end

locale yielding_offloads = yielding_requests hw K n complete ctxs args
  for hw :: env and K :: shape and n :: nat and complete :: "u8 \<Rightarrow> bool"
    and ctxs :: "(offload_args \<Rightarrow> world \<Rightarrow> world slice option) list" and args :: "offload_args list" +
  assumes positive: "0 < n" and n_int: "n < 2 ^ 31" and args_length: "length args = n"
begin

lemma loop_served:
  assumes "ready_world K n r0 w" and "length xfers = n" and "S 0 smp"
    and "again_ok again 1 r0 n" and "hook_ok hw sample S 1 r0 n"
  shows "\<exists>w' smp'. yielding_loop hw again complete sample (int n) ctxs args 0 0 xfers smp w =
    Some (Done w' smp') \<and> all_served K n r0 w w' \<and> S n smp'"
  using loop_from_ready [OF assms] sched_all_served by blast

text \<open>The run up to the point where the samples are stored.\<close>

lemma sampling_until_store:
  assumes c: "complete = is_completed" and "ready_world K n 0 w" and "0 < q"
    and "length stamps = Suc (n div q)" and "length xfers = n"
  shows "\<exists>w1 ts. execute_yielding_requests_closed_system_with_sampling hw (int q) (int n) stamps args xfers
      ctxs ex (int idx) w = map_option (\<lambda>w. Done w ()) (store_intervals ts ex (int idx) (n div q) w1) \<and>
    all_served K n 0 w w1 \<and> (\<forall>i \<le> n div q. i < length ts \<and> ts ! i \<noteq> None)"
proof -
  let ?ts = "stamps[0 := Some (tsc hw (tscs w))]"
  have S0: "sampled q (Suc (n div q)) 0 (?ts, 1)"
    using assms(4) by (simp add: sampled_def nth_list_update)
  obtain w1 ts k where l: "yielding_loop hw (requests_left (int n)) is_completed
      (sample_interval hw (int q)) (int n) ctxs args 0 0 xfers (?ts, 1) (w\<lparr>tscs := Suc (tscs w)\<rparr>) =
      Some (Done w1 (ts, k))" "all_served K n 0 w w1" "sampled q (Suc (n div q)) n (ts, k)"
    using loop_served [OF ready_later_tscs [OF assms(2)] assms(5) S0 again_requests_left
        sample_interval_ok [OF assms(3)], of "Suc (tscs w)"] all_served_tscs
    by (auto simp: c)
  have "\<forall>i \<le> n div q. i < length ts \<and> ts ! i \<noteq> None"
    using l(3) unfolding sampled_def by auto
  moreover have "nat (int n sdiv int q) = n div q" using assms(3) by (simp add: signed_divide_int_def flip: zdiv_int)
  moreover have "arr_set stamps 0 (Some (tsc hw (tscs w))) = Some ?ts"
    using assms(4) by (simp add: arr_set_def)
  moreover have "(r \<bind> (\<lambda>w. Some (Done w ()))) = map_option (\<lambda>w. Done w ()) r" for r by (cases r) simp_all
  ultimately show ?thesis
    using l assms(3)
    by (auto simp: execute_yielding_requests_closed_system_with_sampling_def rdtsc_def store_intervals_def)
qed

lemma yielding_with_sampling:
  assumes "complete = is_completed" and "ready_world K n 0 w" and "0 < q"
    and "length stamps = Suc (n div q)" and "length xfers = n"
    and "blocks K ex = Some (KWords len)" and "idx + n div q \<le> len"
  shows "\<exists>w'. execute_yielding_requests_closed_system_with_sampling hw (int q) (int n) stamps args xfers
      ctxs ex (int idx) w = Some (Done w' ()) \<and> all_served K n 0 w w'"
proof -
  obtain w1 ts where r: "execute_yielding_requests_closed_system_with_sampling hw (int q) (int n) stamps args xfers
      ctxs ex (int idx) w = map_option (\<lambda>w. Done w ()) (store_intervals ts ex (int idx) (n div q) w1)"
    "all_served K n 0 w w1" "\<forall>i \<le> n div q. i < length ts \<and> ts ! i \<noteq> None"
    using sampling_until_store [OF assms(1-5)] by blast
  have "kinds w1 ex = Some (KWords len)" using r(2) assms(6) by (auto simp: all_served_def)
  from store_intervals_ok [OF r(3) this assms(7)] obtain w2 where
    2: "store_intervals ts ex (int idx) (n div q) w1 = Some w2" "later hw w1 w2"
    unfolding store_intervals_def by blast
  from all_served_later [OF r(2) 2(2)] 2(1) r(1) show ?thesis by simp
qed

lemma yielding_sampling_overflow:
  assumes "complete = is_completed" and "ready_world K n 0 w" and "0 < q"
    and "length stamps = Suc (n div q)" and "length xfers = n"
    and "blocks K ex = Some (KWords len)" and "idx \<le> len" and "len < idx + n div q"
  shows "execute_yielding_requests_closed_system_with_sampling hw (int q) (int n) stamps args xfers
      ctxs ex (int idx) w = None"
proof -
  obtain w1 ts where r: "execute_yielding_requests_closed_system_with_sampling hw (int q) (int n) stamps args xfers
      ctxs ex (int idx) w = map_option (\<lambda>w. Done w ()) (store_intervals ts ex (int idx) (n div q) w1)"
    "all_served K n 0 w w1" using sampling_until_store [OF assms(1-5)] by blast
  have "kinds w1 ex = Some (KWords len)" using r(2) assms(6) by (auto simp: all_served_def)
  from store_intervals_overflow [OF this assms(7,8)] r(1) show ?thesis by simp
qed

lemma breakdown_served:
  assumes "all_served K n 0 w w1" and "two_phase_arrays K n (hd args) off wt hash idx"
  shows "\<exists>w'. two_phase_breakdown args (int n) off wt hash (int idx) w1 = Some w' \<and> all_served K n 0 w w'"
proof -
  have "args \<noteq> []" using args_length positive by auto
  with two_phase_breakdown_ok [OF positive n_int, of args w1 off wt hash idx hw] assms
  obtain w' where "two_phase_breakdown args (int n) off wt hash (int idx) w1 = Some w'" "later hw w1 w'"
    by (auto simp: all_served_def)
  with all_served_later [OF assms(1)] show ?thesis by blast
qed

lemma yielding_breakdown:
  assumes c: "complete = is_completed" and "ready_world K n 0 w" and "length xfers = n"
    and "two_phase_arrays K n (hd args) off wt hash idx"
  shows "\<exists>w'. execute_yielding_requests_closed_system_request_breakdown hw (int n) args xfers ctxs
      off wt hash (int idx) w = Some (Done w' ()) \<and> all_served K n 0 w w'"
proof -
  obtain w1 smp where l: "yielding_loop hw (requests_left (int n)) is_completed no_sampling (int n) ctxs
      args 0 0 xfers ([], 0) w = Some (Done w1 smp)" "all_served K n 0 w w1"
    using loop_served [OF assms(2,3) TrueI again_requests_left no_sampling_ok, of "([], 0)", unfolded c] by blast
  with breakdown_served [OF l(2) assms(4)] show ?thesis
    by (auto simp: execute_yielding_requests_closed_system_request_breakdown_def)
qed

lemma best_case:
  assumes c: "complete = is_completed" and "ready_world K n 0 w" and "length xfers = n"
    and "two_phase_arrays K n (hd args) off wt hash idx"
  shows "\<exists>w'. execute_yielding_requests_best_case hw (int n) args xfers ctxs off wt hash (int idx) w =
      Some (Done w' ()) \<and> all_served K n 0 w w'"
proof -
  obtain w1 where l: "best_case_loop hw (int n) ctxs args xfers w = Some (Done w1 ())"
    "sched_inv 1 K n complete (submit_order w) 0 n n w1"
    using best_case_done [OF assms(1) ready_sched_inv [OF assms(2)] assms(3)] by blast
  with breakdown_served [OF sched_all_served [OF l(2)] assms(4)] show ?thesis
    by (auto simp: execute_yielding_requests_best_case_def)
qed

end

section \<open>The executors of blocking, CPU and core requests\<close>

definition served ::
  "shape \<Rightarrow> nat \<Rightarrow> int \<Rightarrow> nat list \<Rightarrow> world \<Rightarrow> world \<Rightarrow> bool" where
  "served K n r0 subs w w' \<longleftrightarrow> shape w' = K \<and> length (crs w') = n \<and>
    requests_completed w' = r0 + int n \<and> submit_order w' = submit_order w @ subs"

lemma served_later: "served K n r0 subs w w1 \<Longrightarrow> later hw w1 w2 \<Longrightarrow> served K n r0 subs w w2"
  by (auto simp: served_def later_shape later_requests_completed later_submit_order later_length)

lemma served_all: "served K n r0 [0..<n] w w' \<longleftrightarrow> all_served K n r0 w w'"
  by (simp add: served_def all_served_def)

text \<open>The same for any value of the counter.\<close>

definition ran :: "shape \<Rightarrow> nat \<Rightarrow> int \<Rightarrow> nat list \<Rightarrow> world \<Rightarrow> world \<Rightarrow> bool" where
  "ran K n c subs w w' \<longleftrightarrow> shape w' = K \<and> length (crs w') = n \<and> requests_completed w' = c \<and>
    submit_order w' = submit_order w @ subs"

lemma served_ran: "served K n r0 subs w w' \<longleftrightarrow> ran K n (r0 + int n) subs w w'"
  by (simp add: served_def ran_def)

lemma ran_later: "ran K n c subs w w1 \<Longrightarrow> later hw w1 w2 \<Longrightarrow> ran K n c subs w w2"
  by (auto simp: ran_def later_shape later_requests_completed later_submit_order later_length)

lemma sched_ran: "sched_inv d K n complete (submit_order w) r0 n n w' \<Longrightarrow> ran K n (r0 + d * int n) [0..<n] w w'"
  by (simp add: sched_inv_def ran_def)

text \<open>What the blocking executors are called with.\<close>

definition callable :: "shape \<Rightarrow> nat \<Rightarrow> int \<Rightarrow> world \<Rightarrow> bool" where
  "callable K n r0 w \<longleftrightarrow> shape w = K \<and> length (crs w) = n \<and> requests_completed w = r0"

lemma ready_callable: "ready_world K n r0 w \<Longrightarrow> callable K n r0 w"
  by (simp add: ready_world_def callable_def)

lemma callable_tscs: "callable K n r0 w \<Longrightarrow> callable K n r0 (w\<lparr>tscs := k\<rparr>)"
  by (simp add: callable_def world_simps)

context blocking_requests
begin

abbreviation "subs \<equiv> concat (map submitted [0..<n])"

lemma loop_from_callable:
  assumes "again_ok again 1 r0 n" and "callable K n r0 w"
  shows "\<exists>w'. blocking_loop again ctxs args 0 w = Some (Done w' ()) \<and> served K n r0 subs w w'"
proof -
  have "requests_completed w = r0 + int 0" "shape w = K" "length (crs w) = n"
    using assms(2) by (simp_all add: callable_def)
  with loop_done [OF assms(1), of 0 w] show ?thesis by (auto simp: served_def)
qed

lemma timed_run:
  assumes "callable K n 0 w" and "1 < length stamps"
  shows "\<exists>w' ts t0 t1. timed_blocking_run hw (int n) stamps ctxs args w = Some (Done w' ts) \<and>
    served K n 0 subs w w' \<and> interval ts 0 1 = Some (t1 - t0)"
proof -
  let ?s0 = "stamps[0 := Some (tsc hw (tscs w))]"
  obtain w1 where l: "blocking_loop (requests_left (int n)) ctxs args 0 (w\<lparr>tscs := Suc (tscs w)\<rparr>) =
      Some (Done w1 ())" "served K n 0 subs w w1"
    using loop_from_callable [OF again_requests_left callable_tscs [OF assms(1)], of "Suc (tscs w)"]
    by (auto simp: served_def)
  let ?w = "w1\<lparr>tscs := Suc (tscs w1)\<rparr>" and ?s1 = "?s0[1 := Some (tsc hw (tscs w1))]"
  have "arr_set stamps 0 (Some (tsc hw (tscs w))) = Some ?s0"
    "arr_set ?s0 1 (Some (tsc hw (tscs w1))) = Some ?s1"
    using assms(2) by (auto simp: arr_set_def)
  then have "timed_blocking_run hw (int n) stamps ctxs args w = Some (Done ?w ?s1)"
    using l(1) by (simp add: timed_blocking_run_def rdtsc_def)
  moreover have "interval ?s1 0 1 = Some (tsc hw (tscs w1) - tsc hw (tscs w))"
    using assms(2) by (cases stamps) (simp_all add: interval_def arr_get_def)
  moreover have "served K n 0 subs w ?w" by (rule served_later [OF l(2) later_tscs])
  ultimately show ?thesis by blast
qed

text \<open>With a single time stamp slot (an interval longer than the run) the second time stamp is
  written outside of the array.\<close>

lemma timed_run_oob:
  assumes "callable K n 0 w" and "length stamps \<le> 1"
  shows "timed_blocking_run hw (int n) stamps ctxs args w = None"
proof (cases "stamps = []")
  case False
  with assms(2) obtain x where "stamps = [x]" by (cases stamps) auto
  moreover obtain w1 where "blocking_loop (requests_left (int n)) ctxs args 0 (w\<lparr>tscs := Suc (tscs w)\<rparr>) =
      Some (Done w1 ())"
    using loop_from_callable [OF again_requests_left callable_tscs [OF assms(1)], of "Suc (tscs w)"] by auto
  ultimately show ?thesis by (simp add: timed_blocking_run_def rdtsc_def arr_set_def)
qed (simp add: timed_blocking_run_def rdtsc_def arr_set_def)

lemma store_served:
  assumes "served K n 0 subs w w1" and "blocks K ex = Some (KWords len)" and "idx < len"
  shows "\<exists>w'. write_word ex (int idx) v w1 = Some w' \<and> served K n 0 subs w w'"
proof -
  have "kinds w1 ex = Some (KWords len)" using assms(1,2) by (auto simp: served_def)
  from write_word_ok [OF this assms(3)] served_later [OF assms(1)] show ?thesis by blast
qed

end

locale blocking_offloads = blocking_requests K n ctxs args submitted
  for K :: shape and n :: nat
    and ctxs :: "(offload_args \<Rightarrow> world \<Rightarrow> world slice option) list" and args :: "offload_args list"
    and submitted :: "nat \<Rightarrow> nat list" +
  assumes positive: "0 < n" and n_int: "n < 2 ^ 31" and args_length: "length args = n"
begin

lemma with_sampling:
  assumes "callable K n 0 w" and "1 < length stamps" and "blocks K ex = Some (KWords len)" and "idx < len"
  shows "\<exists>w'. execute_blocking_requests_closed_system_with_sampling hw (int n) stamps args ctxs ex
    (int idx) w = Some (Done w' ()) \<and> served K n 0 subs w w'"
proof -
  obtain w1 ts t0 t1 where r: "timed_blocking_run hw (int n) stamps ctxs args w = Some (Done w1 ts)"
    "served K n 0 subs w w1" "interval ts 0 1 = Some (t1 - t0)"
    using timed_run [OF assms(1,2)] by blast
  with store_served [OF r(2) assms(3,4), of "t1 - t0"] show ?thesis
    by (auto simp: execute_blocking_requests_closed_system_with_sampling_def)
qed

lemma breakdown_served:
  assumes "served K n 0 subs w w1" and "two_phase_arrays K n (hd args) off wt hash idx"
  shows "\<exists>w'. two_phase_breakdown args (int n) off wt hash (int idx) w1 = Some w' \<and> served K n 0 subs w w'"
proof -
  have "args \<noteq> []" using args_length positive by auto
  with two_phase_breakdown_ok [OF positive n_int, of args w1 off wt hash idx undefined] assms
  obtain w' where "two_phase_breakdown args (int n) off wt hash (int idx) w1 = Some w'"
    "later undefined w1 w'" by (auto simp: served_def)
  with served_later [OF assms(1)] show ?thesis by blast
qed

lemma breakdown:
  assumes "callable K n 0 w" and "two_phase_arrays K n (hd args) off wt hash idx"
  shows "\<exists>w'. execute_blocking_requests_closed_system_request_breakdown hw (int n) args ctxs
      off wt hash (int idx) w = Some (Done w' ()) \<and> served K n 0 subs w w'"
proof -
  obtain w1 where l: "blocking_loop (requests_left (int n)) ctxs args 0 w = Some (Done w1 ())"
    "served K n 0 subs w w1"
    using loop_from_callable [OF again_requests_left assms(1)] by blast
  with breakdown_served [OF l(2) assms(2)] show ?thesis
    by (auto simp: execute_blocking_requests_closed_system_request_breakdown_def)
qed

lemma breakdown_sampled:
  assumes "callable K n 0 w" and "1 < length stamps" and "two_phase_arrays K n (hd args) off wt hash idx"
  shows "\<exists>w'. execute_blocking_requests_closed_system_request_breakdown_sampled hw (int n) stamps args
      ctxs off wt hash (int idx) w = Some (Done w' ()) \<and> served K n 0 subs w w'"
proof -
  obtain w1 ts t0 t1 where r: "timed_blocking_run hw (int n) stamps ctxs args w = Some (Done w1 ts)"
    "served K n 0 subs w w1" "interval ts 0 1 = Some (t1 - t0)"
    using timed_run [OF assms(1,2)] by blast
  with breakdown_served [OF r(2) assms(3)] show ?thesis
    by (auto simp: execute_blocking_requests_closed_system_request_breakdown_sampled_def)
qed

end

lemma concat_map_Nil: "concat (map (\<lambda>_. []) xs) = []"
  by (induction xs) simp_all

locale core_requests = blocking_requests K n ctxs args "\<lambda>_. []"
  for K :: shape and n :: nat
    and ctxs :: "(gpcore_args \<Rightarrow> world \<Rightarrow> world slice option) list" and args :: "gpcore_args list" +
  assumes positive: "0 < n" and n_int: "n < 2 ^ 31" and args_length: "length args = n"
begin

lemma breakdown:
  assumes "callable K n 0 w"
    and "\<forall>ts \<in> {g_ts0 (hd args), g_ts1 (hd args), g_ts2 (hd args)}. blocks K ts = Some (KWords n)"
    and "blocks K p = Some (KWords m)" and "idx < m" and "blocks K q = Some (KWords m')" and "idx < m'"
  shows "\<exists>w'. execute_gpcore_requests_closed_system_request_breakdown (int n) args ctxs p q (int idx) w =
    Some (Done w' ()) \<and> served K n 0 [] w w'"
proof -
  obtain w1 where l: "blocking_loop (requests_left (int n)) ctxs args 0 w = Some (Done w1 ())"
    "served K n 0 subs w w1"
    using loop_from_callable [OF again_requests_left assms(1)] by blast
  then have s1: "served K n 0 [] w w1" by (simp add: concat_map_Nil)
  then have w1: "requests_completed w1 = int n" "shape w1 = K" by (simp_all add: served_def)
  have a: "arr_get args 0 = Some (hd args)"
    using args_length positive by (cases args) (simp_all add: arr_get_def)
  obtain w2 where "cpu_breakdown (g_ts0 (hd args)) (g_ts1 (hd args)) (g_ts2 (hd args)) (int n) p q
      (int idx) w1 = Some w2" "later undefined w1 w2"
    using cpu_breakdown_ok [OF positive n_int w1(1), of "g_ts0 (hd args)" "g_ts1 (hd args)"
        "g_ts2 (hd args)" p m idx q m' undefined] assms(2-) w1(2) by auto
  with l(1) a served_later [OF s1] show ?thesis
    by (auto simp: execute_gpcore_requests_closed_system_request_breakdown_def)
qed

lemma with_sampling:
  assumes "callable K n 0 w" and "blocks K ex = Some (KWords len)" and "idx < len"
  shows "\<exists>w'. execute_gpcore_requests_closed_system_with_sampling hw (int n) args ctxs ex (int idx) w =
    Some (Done w' ()) \<and> served K n 0 [] w w'"
proof -
  obtain w1 where l: "blocking_loop (requests_left (int n)) ctxs args 0 (w\<lparr>tscs := Suc (tscs w)\<rparr>) =
      Some (Done w1 ())" "served K n 0 [] w w1"
    using loop_from_callable [OF again_requests_left callable_tscs [OF assms(1)], of "Suc (tscs w)"]
    by (auto simp: served_def concat_map_Nil)
  let ?w = "w1\<lparr>tscs := Suc (tscs w1)\<rparr>"
  have s: "served K n 0 [] w ?w" by (rule served_later [OF l(2) later_tscs])
  then have "kinds ?w ex = Some (KWords len)" using assms(2) by (auto simp: served_def world_simps)
  from write_word_ok [OF this assms(3)] obtain w2 where
    "write_word ex (int idx) (tsc hw (tscs w1) - tsc hw (tscs w)) ?w = Some w2" "later hw ?w w2" by blast
  with l(1) served_later [OF s] show ?thesis
    by (auto simp: execute_gpcore_requests_closed_system_with_sampling_def rdtsc_def)
qed

end

end
