(* ===== verification/Request_Rules.thy ===== *)
theory Request_Rules
  imports Executor_Contracts
begin

text \<open>
  A small calculus for request functions.  A request is a chain of operations bound one after the
  other; each rule peels off the first operation, so that the proof that a request satisfies the
  contract of its executor is one application of the collection \<open>request_rules\<close>.
\<close>

named_theorems request_rules \<open>rules that follow the operations of a request\<close>

section \<open>Judgements\<close>

text \<open>An operation that returns and only lets time pass.\<close>

definition safe :: "env \<Rightarrow> shape \<Rightarrow> nat \<Rightarrow> (world \<Rightarrow> world option) \<Rightarrow> bool" where
  "safe hw K n f \<longleftrightarrow> (\<forall>w. shape w = K \<longrightarrow> length (crs w) = n \<longrightarrow> (\<exists>w'. f w = Some w' \<and> later hw w w'))"

text \<open>The rest of a request that counts it and switches back.\<close>

definition fin_ok :: "int \<Rightarrow> env \<Rightarrow> shape \<Rightarrow> nat \<Rightarrow> (world \<Rightarrow> world slice option) \<Rightarrow> bool" where
  "fin_ok d hw K n h \<longleftrightarrow> (\<forall>w. shape w = K \<longrightarrow> length (crs w) = n \<longrightarrow>
    (\<exists>w' k. h w = Some (Yield w' k) \<and> finishes d hw w w'))"

text \<open>The rest of a request from the moment when its status satisfies the test of the executor.\<close>

definition served_ok ::
  "int \<Rightarrow> env \<Rightarrow> shape \<Rightarrow> nat \<Rightarrow> (u8 \<Rightarrow> bool) \<Rightarrow> nat \<Rightarrow> (world \<Rightarrow> world slice option) \<Rightarrow> bool" where
  "served_ok d hw K n complete i h \<longleftrightarrow>
    (\<forall>w. shape w = K \<longrightarrow> length (crs w) = n \<longrightarrow> complete (status (crs w ! i)) \<longrightarrow>
      (\<exists>w' k. h w = Some (Yield w' k) \<and> finishes d hw w w'))"

text \<open>The rest of a yielding request whose operation is under way: it switches back.\<close>

definition away_ok ::
  "int \<Rightarrow> env \<Rightarrow> shape \<Rightarrow> nat \<Rightarrow> (u8 \<Rightarrow> bool) \<Rightarrow> nat \<Rightarrow> (world \<Rightarrow> world slice option) \<Rightarrow> bool" where
  "away_ok d hw K n complete i h \<longleftrightarrow> (\<forall>w. shape w = K \<longrightarrow> length (crs w) = n \<longrightarrow>
    (\<exists>w' k. h w = Some (Yield w' k) \<and> later hw w w' \<and> resumable d hw K n complete i k))"

text \<open>The rest of a blocking request whose operation is under way: it waits for it.\<close>

definition wait_ok ::
  "int \<Rightarrow> env \<Rightarrow> shape \<Rightarrow> nat \<Rightarrow> (u8 \<Rightarrow> bool) \<Rightarrow> nat \<Rightarrow> (world \<Rightarrow> world slice option) \<Rightarrow> bool" where
  "wait_ok d hw K n complete i h \<longleftrightarrow>
    (\<forall>w. shape w = K \<longrightarrow> length (crs w) = n \<longrightarrow> watched complete (crs w ! i) \<longrightarrow>
      (\<exists>w' k. h w = Some (Yield w' k) \<and> finishes d hw w w'))"

text \<open>A yielding and a blocking request from its entry.\<close>

definition entry_ok ::
  "int \<Rightarrow> env \<Rightarrow> shape \<Rightarrow> nat \<Rightarrow> (u8 \<Rightarrow> bool) \<Rightarrow> nat \<Rightarrow> (world \<Rightarrow> world slice option) \<Rightarrow> bool" where
  "entry_ok d hw K n complete i h \<longleftrightarrow> (\<forall>w. shape w = K \<longrightarrow> length (crs w) = n \<longrightarrow>
    (\<exists>w' k. h w = Some (Yield w' k) \<and> starts hw i w w' \<and> resumable d hw K n complete i k))"

definition run_ok ::
  "int \<Rightarrow> env \<Rightarrow> shape \<Rightarrow> nat \<Rightarrow> (u8 \<Rightarrow> bool) \<Rightarrow> nat \<Rightarrow> (world \<Rightarrow> world slice option) \<Rightarrow> bool" where
  "run_ok d hw K n complete i h \<longleftrightarrow> (\<forall>w. shape w = K \<longrightarrow> length (crs w) = n \<longrightarrow>
    (\<exists>w' k w1. h w = Some (Yield w' k) \<and> starts hw i w w1 \<and> finishes d hw w1 w'))"

lemma safeD:
  "safe hw K n f \<Longrightarrow> shape w = K \<Longrightarrow> length (crs w) = n \<Longrightarrow>
    \<exists>w'. f w = Some w' \<and> later hw w w' \<and> shape w' = K \<and> length (crs w') = n"
  unfolding safe_def by (metis later_shape later_length)

lemma finishes_later: "later hw w w1 \<Longrightarrow> finishes d hw w1 w' \<Longrightarrow> finishes d hw w w'"
  unfolding finishes_def using later_trans by blast

lemma starts_later1: "later hw w w1 \<Longrightarrow> starts hw i w1 w' \<Longrightarrow> starts hw i w w'"
  unfolding starts_def using later_trans by blast

lemma starts_later2: "starts hw i w w1 \<Longrightarrow> later hw w1 w' \<Longrightarrow> starts hw i w w'"
  unfolding starts_def using later_trans by blast

lemma launched_starts: "launched i w w' \<Longrightarrow> starts hw i w w'"
  unfolding starts_def by blast

lemma starts_frame:
  assumes "starts hw i w w'"
  shows "shape w' = shape w" and "length (crs w') = length (crs w)"
    and "requests_completed w' = requests_completed w" and "submit_order w' = submit_order w @ [i]"
  using assms
  by (auto simp: starts_def launched_def later_shape later_length later_requests_completed later_submit_order)

lemma finishes_frame:
  assumes "finishes d hw w w'"
  shows "shape w' = shape w" and "length (crs w') = length (crs w)"
    and "requests_completed w' = requests_completed w + d" and "submit_order w' = submit_order w"
  using assms
  by (auto simp: finishes_def later_shape later_length later_requests_completed later_submit_order world_simps)

section \<open>Rules\<close>

lemma fin_ok_finish [request_rules]: "fin_ok 1 hw K n finish_request"
  by (auto simp: fin_ok_def finish_request_def finishes_def count_request_by)

lemma fin_ok_bind [request_rules]:
  assumes "safe hw K n f" and "fin_ok d hw K n h"
  shows "fin_ok d hw K n (\<lambda>w. Option.bind (f w) h)"
  unfolding fin_ok_def
proof (intro allI impI)
  fix w assume "shape w = K" "length (crs w) = n"
  from safeD [OF assms(1) this] obtain w1 where
    w1: "f w = Some w1" "later hw w w1" "shape w1 = K" "length (crs w1) = n" by blast
  with assms(2) obtain w' k where "h w1 = Some (Yield w' k)" "finishes d hw w1 w'"
    unfolding fin_ok_def by blast
  with w1 finishes_later [OF w1(2)] show "\<exists>w' k. Option.bind (f w) h = Some (Yield w' k) \<and> finishes d hw w w'"
    by auto
qed

lemma fin_ok_split [request_rules]:
  "(\<And>w. shape w = K \<Longrightarrow> length (crs w) = n \<Longrightarrow>
      \<exists>v w'. f w = Some (v, w') \<and> later hw w w' \<and> P v) \<Longrightarrow>
    (\<And>v. P v \<Longrightarrow> fin_ok d hw K n (h v)) \<Longrightarrow> fin_ok d hw K n (\<lambda>w. Option.bind (f w) (\<lambda>(v, w). h v w))"
  unfolding fin_ok_def
  by (metis (no_types, lifting) bind.bind_lunit finishes_later later_shape later_length old.prod.case)

lemma served_ok_fin [request_rules]: "fin_ok d hw K n h \<Longrightarrow> served_ok d hw K n complete i h"
  by (simp add: served_ok_def fin_ok_def)

lemma resumable_served: "served_ok d hw K n complete i h \<Longrightarrow> resumable d hw K n complete i (\<lambda>_. h)"
  by (simp add: resumable_def served_ok_def)

lemma away_ok_yield [request_rules]:
  "served_ok d hw K n complete i h \<Longrightarrow> away_ok d hw K n complete i (\<lambda>w. Some (Yield w (\<lambda>_. h)))"
  by (auto simp: away_ok_def intro: resumable_served)

lemma away_ok_bind [request_rules]:
  assumes "safe hw K n f" and "away_ok d hw K n complete i h"
  shows "away_ok d hw K n complete i (\<lambda>w. Option.bind (f w) h)"
  unfolding away_ok_def
proof (intro allI impI)
  fix w assume "shape w = K" "length (crs w) = n"
  from safeD [OF assms(1) this] obtain w1 where
    w1: "f w = Some w1" "later hw w w1" "shape w1 = K" "length (crs w1) = n" by blast
  with assms(2) obtain w' k where
    "h w1 = Some (Yield w' k)" "later hw w1 w'" "resumable d hw K n complete i k"
    unfolding away_ok_def by blast
  with w1 later_trans [OF w1(2)] show "\<exists>w' k. Option.bind (f w) h = Some (Yield w' k) \<and>
      later hw w w' \<and> resumable d hw K n complete i k" by auto
qed

lemma entry_ok_bind:
  assumes "safe hw K n f" and "entry_ok d hw K n complete i h"
  shows "entry_ok d hw K n complete i (\<lambda>w. Option.bind (f w) h)"
  unfolding entry_ok_def
proof (intro allI impI)
  fix w assume "shape w = K" "length (crs w) = n"
  from safeD [OF assms(1) this] obtain w1 where
    w1: "f w = Some w1" "later hw w w1" "shape w1 = K" "length (crs w1) = n" by blast
  with assms(2) obtain w' k where
    "h w1 = Some (Yield w' k)" "starts hw i w1 w'" "resumable d hw K n complete i k"
    unfolding entry_ok_def by blast
  with w1 starts_later1 [OF w1(2)] show "\<exists>w' k. Option.bind (f w) h = Some (Yield w' k) \<and>
      starts hw i w w' \<and> resumable d hw K n complete i k" by auto
qed

lemma run_ok_bind:
  assumes "safe hw K n f" and "run_ok d hw K n complete i h"
  shows "run_ok d hw K n complete i (\<lambda>w. Option.bind (f w) h)"
  unfolding run_ok_def
proof (intro allI impI)
  fix w assume "shape w = K" "length (crs w) = n"
  from safeD [OF assms(1) this] obtain w1 where
    w1: "f w = Some w1" "later hw w w1" "shape w1 = K" "length (crs w1) = n" by blast
  with assms(2) obtain w' k w2 where
    "h w1 = Some (Yield w' k)" "starts hw i w1 w2" "finishes d hw w2 w'"
    unfolding run_ok_def by blast
  with w1 starts_later1 [OF w1(2)] show "\<exists>w' k w2. Option.bind (f w) h = Some (Yield w' k) \<and>
      starts hw i w w2 \<and> finishes d hw w2 w'" by auto
qed

text \<open>Launching: an operation \<open>f\<close> that launches, followed by what needs it under way.\<close>

definition launches :: "shape \<Rightarrow> nat \<Rightarrow> nat \<Rightarrow> (world \<Rightarrow> 'a option) \<Rightarrow> ('a \<Rightarrow> world) \<Rightarrow> bool" where
  "launches K n i f st \<longleftrightarrow> (\<forall>w. shape w = K \<longrightarrow> length (crs w) = n \<longrightarrow>
    (\<exists>r. f w = Some r \<and> launched i w (st r)))"

lemma launched_watched: "launched i w w' \<Longrightarrow> i < length (crs w) \<Longrightarrow> watched complete (crs w' ! i)"
  by (auto simp: launched_def watched_def)

lemma launched_frame:
  "launched i w w' \<Longrightarrow> shape w' = shape w" "launched i w w' \<Longrightarrow> length (crs w') = length (crs w)"
  by (auto simp: launched_def)

lemma entry_ok_launch:
  assumes "\<And>w. shape w = K \<Longrightarrow> length (crs w) = n \<Longrightarrow> \<exists>w'. launched i w w' \<and> f w = h w'"
    and "away_ok d hw K n complete i h"
  shows "entry_ok d hw K n complete i f"
  unfolding entry_ok_def
proof (intro allI impI)
  fix w assume w: "shape w = K" "length (crs w) = n"
  from assms(1) [OF this] obtain w1 where w1: "launched i w w1" "f w = h w1" by blast
  with w assms(2) obtain w' k where
    "h w1 = Some (Yield w' k)" "later hw w1 w'" "resumable d hw K n complete i k"
    unfolding away_ok_def by (metis launched_frame)
  with w1 starts_later2 [OF launched_starts [OF w1(1)]] show
    "\<exists>w' k. f w = Some (Yield w' k) \<and> starts hw i w w' \<and> resumable d hw K n complete i k" by auto
qed

lemma run_ok_launch:
  assumes "\<And>w. shape w = K \<Longrightarrow> length (crs w) = n \<Longrightarrow> \<exists>w'. launched i w w' \<and> f w = h w'"
    and "wait_ok d hw K n complete i h" and "i < n"
  shows "run_ok d hw K n complete i f"
  unfolding run_ok_def
proof (intro allI impI)
  fix w assume w: "shape w = K" "length (crs w) = n"
  from assms(1) [OF this] obtain w1 where w1: "launched i w w1" "f w = h w1" by blast
  with w assms(2,3) obtain w' k where "h w1 = Some (Yield w' k)" "finishes d hw w1 w'"
    unfolding wait_ok_def by (metis launched_frame launched_watched)
  with w1 launched_starts [OF w1(1)] show
    "\<exists>w' k w1. f w = Some (Yield w' k) \<and> starts hw i w w1 \<and> finishes d hw w1 w'" by auto
qed

lemma wait_ok_bind:
  assumes t: "test_ok hw complete" and i: "i < n" and "safe hw K n f" and "wait_ok d hw K n complete i h"
  shows "wait_ok d hw K n complete i (\<lambda>w. Option.bind (f w) h)"
  unfolding wait_ok_def
proof (intro allI impI)
  fix w assume w: "shape w = K" "length (crs w) = n" and wt: "watched complete (crs w ! i)"
  from safeD [OF assms(3) w] obtain w1 where
    w1: "f w = Some w1" "later hw w w1" "shape w1 = K" "length (crs w1) = n" by blast
  have "watched complete (crs w1 ! i)"
    by (rule watched_later [OF t later_nth [OF w1(2)] wt]) (use i w in simp)
  with w1 assms(4) obtain w' k where "h w1 = Some (Yield w' k)" "finishes d hw w1 w'"
    unfolding wait_ok_def by blast
  with w1 finishes_later [OF w1(2)] show "\<exists>w' k. Option.bind (f w) h = Some (Yield w' k) \<and> finishes d hw w w'"
    by auto
qed

lemma wait_ok_wait:
  assumes hw: "env_ok hw" and t: "test_ok hw complete" and i: "i < n" and v: "v = 0"
    and "served_ok d hw K n complete i h"
  shows "wait_ok d hw K n complete i (\<lambda>w. Option.bind (wait_while hw v i w) h)"
  unfolding wait_ok_def
proof (intro allI impI)
  fix w assume w: "shape w = K" "length (crs w) = n" and wt: "watched complete (crs w ! i)"
  have "in_flight_at i w"
    using wt t by (auto simp: watched_def in_flight_at_def completed_at_def test_ok_def)
  with wait_while_ok [OF hw, of i w] i w obtain w1 where
    w1: "wait_while hw 0 i w = Some w1" "later hw w w1" "completed_at i w1" by auto
  have "watched complete (crs w1 ! i)"
    by (rule watched_later [OF t later_nth [OF w1(2)] wt]) (use i w in simp)
  with w1(3) have "complete (status (crs w1 ! i))"
    by (auto simp: watched_def completed_at_def COMP_STATUS_PENDING_def)
  with assms(5) w1(2) w later_shape [OF w1(2)] later_length [OF w1(2)] obtain w' k where
    "h w1 = Some (Yield w' k)" "finishes d hw w1 w'" unfolding served_ok_def by metis
  with w1 v finishes_later [OF w1(2)] show
    "\<exists>w' k. Option.bind (wait_while hw v i w) h = Some (Yield w' k) \<and> finishes d hw w w'" by auto
qed

text \<open>The three ways in which the requests launch.\<close>

lemma launch_iaa_decompress:
  assumes "env_ok hw" and "blocks K desc = Some KDesc" and "i < n" and "shape w = K" and "length (crs w) = n"
  shows "\<exists>w'. launched i w w' \<and>
    Option.bind (prepare_iaa_decompress_desc_with_preallocated_comp hw desc src dst i sz w)
      (\<lambda>w. Option.bind (blocking_iaa_submit hw desc w) h) = h w'"
proof -
  have k: "kinds w desc = Some KDesc" "i < length (crs w)" using assms by auto
  obtain w1 d where p: "prepare_iaa_decompress_desc_with_preallocated_comp hw desc src dst i sz w = Some w1"
    "prepared i desc d w w1" using prepare_ok(1) [OF k] by blast
  from launch_prepared [OF assms(1) p(2) k(2), of IAA] p(1) show ?thesis
    by (auto simp: blocking_iaa_submit_def)
qed

lemma launch_dsa_memcpy:
  assumes "env_ok hw" and "blocks K desc = Some KDesc" and "i < n" and "shape w = K" and "length (crs w) = n"
  shows "\<exists>w'. launched i w w' \<and>
    Option.bind (prepare_dsa_memcpy_desc_with_preallocated_comp hw desc src dst i sz w)
      (\<lambda>w. Option.bind (blocking_dsa_submit hw desc w) h) = h w'"
proof -
  have k: "kinds w desc = Some KDesc" "i < length (crs w)" using assms by auto
  obtain w1 d where p: "prepare_dsa_memcpy_desc_with_preallocated_comp hw desc src dst i sz w = Some w1"
    "prepared i desc d w w1" using prepare_ok(3) [OF k] by blast
  from launch_prepared [OF assms(1) p(2) k(2), of DSA] p(1) show ?thesis
    by (auto simp: blocking_dsa_submit_def)
qed

lemma launch_dsa_memfill:
  assumes "\<And>k. \<not> busy hw k" and "blocks K desc = Some KDesc" and "i < n" and "shape w = K" and "length (crs w) = n"
  shows "\<exists>w'. launched i w w' \<and>
    Option.bind (prepare_dsa_memfill_desc_with_preallocated_comp hw desc pat dst i sz w)
      (\<lambda>w. Option.bind (dsa_submit hw desc w)
        (\<lambda>(ok, w). if \<not> ok then Some (Exit w) else h w)) = h w'"
proof -
  have k: "kinds w desc = Some KDesc" "i < length (crs w)" using assms by auto
  obtain w1 d where p: "prepare_dsa_memfill_desc_with_preallocated_comp hw desc pat dst i sz w = Some w1"
    "prepared i desc d w w1" using prepare_ok(4) [OF k] by blast
  from try_submit_prepared [OF p(2) k(2), of hw DSA] p(1) assms(1) show ?thesis
    by (auto simp: dsa_submit_def)
qed

lemma launch_offload:
  assumes "\<And>k. \<not> busy hw k" and "i < n" and "shape w = K" and "length (crs w) = n"
  shows "\<exists>w'. launched i w w' \<and>
    Option.bind (submit_offload hw i dst w)
      (\<lambda>(st, w). if st = STATUS_FAIL then Some (Exit w) else h w) = h w'"
  using submit_offload_ok [of i w hw dst] assms
  by (auto simp: STATUS_FAIL_def STATUS_SUCCESS_def)

lemma safe_stamp_any: "blocks K ts = Some (KWords l) \<Longrightarrow> i < l \<Longrightarrow> safe hw K m (stamp hw ts i)"
  unfolding safe_def using stamp_ok by (auto dest!: shape_kinds)

lemma safe_stamp [request_rules]:
  "blocks K ts = Some (KWords n) \<Longrightarrow> i < n \<Longrightarrow> safe hw K n (stamp hw ts i)"
  by (rule safe_stamp_any)


lemma entry_ok_offload:
  assumes "\<And>k. \<not> busy hw k" and "i < n" and "away_ok d hw K n complete i h"
  shows "entry_ok d hw K n complete i (\<lambda>w. Option.bind (submit_offload hw i dst w)
    (\<lambda>(st, w). if st = STATUS_FAIL then Some (Exit w) else h w))"
  by (rule entry_ok_launch [OF _ assms(3)], rule launch_offload [where n = n]; (rule assms | assumption))

lemma run_ok_offload:
  assumes "\<And>k. \<not> busy hw k" and "i < n" and "wait_ok d hw K n complete i h"
  shows "run_ok d hw K n complete i (\<lambda>w. Option.bind (submit_offload hw i dst w)
    (\<lambda>(st, w). if st = STATUS_FAIL then Some (Exit w) else h w))"
  by (rule run_ok_launch [OF _ assms(3,2)], rule launch_offload [where n = n]; (rule assms | assumption))

lemma entry_ok_iaa:
  assumes "env_ok hw" and "blocks K desc = Some KDesc" and "i < n" and "away_ok d hw K n complete i h"
  shows "entry_ok d hw K n complete i
    (\<lambda>w. Option.bind (prepare_iaa_decompress_desc_with_preallocated_comp hw desc src dst i sz w)
      (\<lambda>w. Option.bind (blocking_iaa_submit hw desc w) h))"
  by (rule entry_ok_launch [OF _ assms(4)], rule launch_iaa_decompress [where K = K]; (rule assms | assumption))

lemma run_ok_iaa:
  assumes "env_ok hw" and "blocks K desc = Some KDesc" and "i < n" and "wait_ok d hw K n complete i h"
  shows "run_ok d hw K n complete i
    (\<lambda>w. Option.bind (prepare_iaa_decompress_desc_with_preallocated_comp hw desc src dst i sz w)
      (\<lambda>w. Option.bind (blocking_iaa_submit hw desc w) h))"
  by (rule run_ok_launch [OF _ assms(4,3)], rule launch_iaa_decompress [where K = K]; (rule assms | assumption))

lemma entry_ok_memcpy:
  assumes "env_ok hw" and "blocks K desc = Some KDesc" and "i < n" and "away_ok d hw K n complete i h"
  shows "entry_ok d hw K n complete i
    (\<lambda>w. Option.bind (prepare_dsa_memcpy_desc_with_preallocated_comp hw desc src dst i sz w)
      (\<lambda>w. Option.bind (blocking_dsa_submit hw desc w) h))"
  by (rule entry_ok_launch [OF _ assms(4)], rule launch_dsa_memcpy [where K = K]; (rule assms | assumption))

lemma run_ok_memcpy:
  assumes "env_ok hw" and "blocks K desc = Some KDesc" and "i < n" and "wait_ok d hw K n complete i h"
  shows "run_ok d hw K n complete i
    (\<lambda>w. Option.bind (prepare_dsa_memcpy_desc_with_preallocated_comp hw desc src dst i sz w)
      (\<lambda>w. Option.bind (blocking_dsa_submit hw desc w) h))"
  by (rule run_ok_launch [OF _ assms(4,3)], rule launch_dsa_memcpy [where K = K]; (rule assms | assumption))

lemma entry_ok_memfill:
  assumes "\<And>k. \<not> busy hw k" and "blocks K desc = Some KDesc" and "i < n" and "away_ok d hw K n complete i h"
  shows "entry_ok d hw K n complete i
    (\<lambda>w. Option.bind (prepare_dsa_memfill_desc_with_preallocated_comp hw desc pat dst i sz w)
      (\<lambda>w. Option.bind (dsa_submit hw desc w) (\<lambda>(ok, w). if \<not> ok then Some (Exit w) else h w)))"
  by (rule entry_ok_launch [OF _ assms(4)], rule launch_dsa_memfill [where K = K]; (rule assms | assumption))

lemma run_ok_memfill:
  assumes "\<And>k. \<not> busy hw k" and "blocks K desc = Some KDesc" and "i < n" and "wait_ok d hw K n complete i h"
  shows "run_ok d hw K n complete i
    (\<lambda>w. Option.bind (prepare_dsa_memfill_desc_with_preallocated_comp hw desc pat dst i sz w)
      (\<lambda>w. Option.bind (dsa_submit hw desc w) (\<lambda>(ok, w). if \<not> ok then Some (Exit w) else h w)))"
  by (rule run_ok_launch [OF _ assms(4,3)], rule launch_dsa_memfill [where K = K]; (rule assms | assumption))

section \<open>Reading the clock into a local, counting early, checking the status\<close>

lemma later_rdtsc: "rdtsc hw w = (t, w') \<Longrightarrow> later hw w w'"
  using later_tscs by (auto simp: rdtsc_def)

lemma run_ok_rdtsc:
  assumes "\<And>t. run_ok d hw K n complete i (h t)"
  shows "run_ok d hw K n complete i (\<lambda>w. case rdtsc hw w of (t, w) \<Rightarrow> h t w)"
proof -
  have "run_ok d hw K n complete i (\<lambda>w. Option.bind (Some (w\<lparr>tscs := Suc (tscs w)\<rparr>)) (h t))" for t
    by (rule run_ok_bind [OF _ assms]) (use later_tscs in \<open>auto simp: safe_def\<close>)
  then show ?thesis by (simp add: run_ok_def rdtsc_def)
qed

lemma wait_ok_rdtsc:
  assumes "test_ok hw complete" and "i < n" and "\<And>t. wait_ok d hw K n complete i (h t)"
  shows "wait_ok d hw K n complete i (\<lambda>w. case rdtsc hw w of (t, w) \<Rightarrow> h t w)"
proof -
  have "wait_ok d hw K n complete i (\<lambda>w. Option.bind (Some (w\<lparr>tscs := Suc (tscs w)\<rparr>)) (h t))" for t
    by (rule wait_ok_bind [OF assms(1,2) _ assms(3)]) (use later_tscs in \<open>auto simp: safe_def\<close>)
  then show ?thesis by (simp add: wait_ok_def rdtsc_def)
qed

lemma fin_ok_rdtsc [request_rules]:
  assumes "\<And>t. fin_ok d hw K n (h t)"
  shows "fin_ok d hw K n (\<lambda>w. case rdtsc hw w of (t, w) \<Rightarrow> h t w)"
proof -
  have "fin_ok d hw K n (\<lambda>w. Option.bind (Some (w\<lparr>tscs := Suc (tscs w)\<rparr>)) (h t))" for t
    by (rule fin_ok_bind [OF _ assms]) (use later_tscs in \<open>auto simp: safe_def\<close>)
  then show ?thesis by (simp add: fin_ok_def rdtsc_def)
qed

text \<open>A request that counts itself before its last stores.\<close>

definition closing :: "env \<Rightarrow> shape \<Rightarrow> nat \<Rightarrow> (world \<Rightarrow> world slice option) \<Rightarrow> bool" where
  "closing hw K n h \<longleftrightarrow> (\<forall>w. shape w = K \<longrightarrow> length (crs w) = n \<longrightarrow>
    (\<exists>w' k. h w = Some (Yield w' k) \<and> later hw w w'))"

lemma closing_yield [request_rules]: "closing hw K n (\<lambda>w. Some (Yield w k))"
  by (auto simp: closing_def)

lemma closing_bind [request_rules]:
  assumes "safe hw K n f" and "closing hw K n h"
  shows "closing hw K n (\<lambda>w. Option.bind (f w) h)"
  unfolding closing_def
proof (intro allI impI)
  fix w assume "shape w = K" "length (crs w) = n"
  from safeD [OF assms(1) this] obtain w1 where
    w1: "f w = Some w1" "later hw w w1" "shape w1 = K" "length (crs w1) = n" by blast
  with assms(2) obtain w' k where "h w1 = Some (Yield w' k)" "later hw w1 w'" unfolding closing_def by blast
  with w1 later_trans [OF w1(2)] show "\<exists>w' k. Option.bind (f w) h = Some (Yield w' k) \<and> later hw w w'" by auto
qed

lemma fin_ok_count [request_rules]:
  assumes "closing hw K n h"
  shows "fin_ok 1 hw K n (\<lambda>w. h (count_request w))"
  unfolding fin_ok_def
proof (intro allI impI)
  fix w assume "shape w = K" "length (crs w) = n"
  then have "shape (count_request w) = K" "length (crs (count_request w)) = n" by (simp_all add: world_simps)
  with assms obtain w' k where "h (count_request w) = Some (Yield w' k)" "later hw (count_request w) w'"
    unfolding closing_def by blast
  then show "\<exists>w' k. h (count_request w) = Some (Yield w' k) \<and> finishes 1 hw w w'"
    unfolding finishes_def count_request_by using later_refl by blast
qed

lemma safe_write_word [request_rules]:
  "blocks K p = Some (KWords m) \<Longrightarrow> i < m \<Longrightarrow> safe hw K n (write_word p (int i) v)"
  unfolding safe_def using write_word_ok by (auto dest!: shape_kinds)

text \<open>A request that gives up when the status is not the one of a success.\<close>

lemma complete_later:
  "test_ok hw complete \<Longrightarrow> comp_later hw c c' \<Longrightarrow> complete (status c) \<Longrightarrow> complete (status c')"
  by (auto simp: test_ok_def comp_later_def)

lemma served_ok_check:
  assumes hw: "env_ok hw" and t: "test_ok hw complete" and i: "i < n"
    and s: "\<And>v. complete v \<Longrightarrow> v = ok_status" and h: "fin_ok d hw K n h"
  shows "served_ok d hw K n complete i (\<lambda>w. Option.bind (read_status hw i w)
    (\<lambda>(s, w). if s \<noteq> ok_status then Some (Exit w) else h w))"
  unfolding served_ok_def
proof (intro allI impI)
  fix w assume w: "shape w = K" "length (crs w) = n" and c: "complete (status (crs w ! i))"
  obtain w1 where w1: "read_status hw i w = Some (status (crs w1 ! i), w1)" "later hw w w1"
    using read_status_ok [OF hw, of i w] i w by auto
  have "complete (status (crs w1 ! i))"
    by (rule complete_later [OF t later_nth [OF w1(2)] c]) (use i w in simp)
  then have ok: "status (crs w1 ! i) = ok_status" by (rule s)
  from h w w1(2) later_shape [OF w1(2)] later_length [OF w1(2)] obtain w' k where
    "h w1 = Some (Yield w' k)" "finishes d hw w1 w'" unfolding fin_ok_def by metis
  with w1 ok finishes_later [OF w1(2)] show "\<exists>w' k. Option.bind (read_status hw i w)
      (\<lambda>(s, w). if s \<noteq> ok_status then Some (Exit w) else h w) = Some (Yield w' k) \<and> finishes d hw w w'"
    by auto
qed

section \<open>From the judgements to the contracts\<close>

lemma start_fiber_replicate:
  "i < n \<Longrightarrow> length args = n \<Longrightarrow> start_fiber (replicate n f) args (int i) w = f (args ! i) w"
  by (simp add: start_fiber_def arr_simps)

lemma fiber_contract:
  assumes "env_ok hw" and "test_ok hw complete" and "length args = n"
    and "\<And>i. i < n \<Longrightarrow> entry_ok d hw K n complete i (f (args ! i))"
  shows "fiber_requests d hw K n complete (replicate n f) args"
proof
  fix i w assume "i < n" "shape w = K" "length (crs w) = n"
  with assms(4) [OF this(1)] show "\<exists>w' k. start_fiber (replicate n f) args (int i) w = Some (Yield w' k) \<and>
      starts hw i w w' \<and> resumable d hw K n complete i k"
    by (simp add: start_fiber_replicate assms(3) entry_ok_def)
qed (use assms(1,2) in auto)

lemma slice_contract:
  assumes "length args = n" and "\<And>i. i < n \<Longrightarrow> run_ok d hw K n complete i (f (args ! i))"
  shows "slice_requests d K n (replicate n f) args (\<lambda>i. [i])"
proof
  fix i w assume w: "i < n" "shape w = K" "length (crs w) = n"
  with assms(2) [OF this(1)] obtain w' k w1 where
    r: "f (args ! i) w = Some (Yield w' k)" "starts hw i w w1" "finishes d hw w1 w'"
    unfolding run_ok_def by blast
  with w starts_frame [OF r(2)] finishes_frame [OF r(3)] show
    "\<exists>w' k. start_fiber (replicate n f) args (int i) w = Some (Yield w' k) \<and> shape w' = K \<and>
      length (crs w') = n \<and> requests_completed w' = requests_completed w + d \<and>
      submit_order w' = submit_order w @ [i]"
    by (simp add: start_fiber_replicate assms(1))
qed

lemma core_slice_contract:
  assumes "length args = n" and "\<And>i. i < n \<Longrightarrow> fin_ok d hw K n (f (args ! i))"
  shows "slice_requests d K n (replicate n f) args (\<lambda>_. [])"
proof
  fix i w assume w: "i < n" "shape w = K" "length (crs w) = n"
  with assms(2) [OF this(1)] obtain w' k where
    r: "f (args ! i) w = Some (Yield w' k)" "finishes d hw w w'" unfolding fin_ok_def by blast
  with w finishes_frame [OF r(2)] show
    "\<exists>w' k. start_fiber (replicate n f) args (int i) w = Some (Yield w' k) \<and> shape w' = K \<and>
      length (crs w') = n \<and> requests_completed w' = requests_completed w + d \<and>
      submit_order w' = submit_order w @ []"
    by (simp add: start_fiber_replicate assms(1))
qed

text \<open>Requests that count themselves.\<close>

lemma yielding_contract:
  assumes "env_ok hw" and "test_ok hw complete" and "length args = n"
    and "\<And>i. i < n \<Longrightarrow> entry_ok 1 hw K n complete i (f (args ! i))"
  shows "yielding_requests hw K n complete (replicate n f) args"
  unfolding yielding_requests_def by (rule fiber_contract [OF assms])

lemma blocking_contract:
  assumes "length args = n" and "\<And>i. i < n \<Longrightarrow> run_ok 1 hw K n complete i (f (args ! i))"
  shows "blocking_requests K n (replicate n f) args (\<lambda>i. [i])"
  unfolding blocking_requests_def by (rule slice_contract [OF assms])

lemma core_contract:
  assumes "length args = n" and "\<And>i. i < n \<Longrightarrow> fin_ok 1 hw K n (f (args ! i))"
  shows "blocking_requests K n (replicate n f) args (\<lambda>_. [])"
  unfolding blocking_requests_def by (rule core_slice_contract) (use assms in simp_all)

text \<open>What the requests need of their argument structs.\<close>

definition slot_args :: "nat \<Rightarrow> nat \<Rightarrow> offload_args \<Rightarrow> bool" where
  "slot_args n i a \<longleftrightarrow> i < n \<and> a_comp a = i \<and> a_id a = i"

definition timed_args :: "shape \<Rightarrow> nat \<Rightarrow> offload_args \<Rightarrow> bool" where
  "timed_args K n a \<longleftrightarrow> blocks K (a_ts0 a) = Some (KWords n) \<and> blocks K (a_ts1 a) = Some (KWords n) \<and>
    blocks K (a_ts2 a) = Some (KWords n) \<and> blocks K (a_ts3 a) = Some (KWords n)"

definition core_timed_args :: "shape \<Rightarrow> nat \<Rightarrow> nat \<Rightarrow> gpcore_args \<Rightarrow> bool" where
  "core_timed_args K n i a \<longleftrightarrow> i < n \<and> g_id a = i \<and> blocks K (g_ts0 a) = Some (KWords n) \<and>
    blocks K (g_ts1 a) = Some (KWords n) \<and> blocks K (g_ts2 a) = Some (KWords n)"

lemmas args_defs = slot_args_def timed_args_def core_timed_args_def

definition buffer_of :: "shape \<Rightarrow> ptr \<Rightarrow> nat \<Rightarrow> bool" where
  "buffer_of K p sz \<longleftrightarrow> (\<exists>m \<ge> sz. blocks K p = Some (KBytes m))"

end
