(* ===== verification/Sample_Machine.thy ===== *)
theory Sample_Machine
  imports XMP_World
begin

text \<open>
  One concrete environment and heap, on which the hypotheses of the properties hold.  The
  properties themselves are about every environment and heap; this machine only shows that they
  are not vacuous.
\<close>

text \<open>An environment in which the queue is full at every third attempt, operations take two to
  four polls, and the device copies; used to show that the hypotheses of the properties can hold.\<close>

definition sample_env :: env where
  "sample_env = \<lparr>tsc = (\<lambda>k. 100 + 10 * of_nat k), busy = (\<lambda>k. k mod 3 = 1), latency = (\<lambda>k. 2 + k mod 3),
    verdict = (\<lambda>d. 1), transfer = (\<lambda>d src dst. take (length dst) (src @ drop (length src) dst)),
    rnd = (\<lambda>k. 7 * k + 3),
    inflate_init = Z_OK, inflate_call = (\<lambda>src i room k. (Z_STREAM_END, take (min i room) src)),
    inflate_end = Z_OK, deflate_init = Z_OK,
    deflate_call = (\<lambda>src room k. (Z_OK, 0, take room src)),
    deflate_finish = (\<lambda>src room k. (Z_STREAM_END, take room src)), deflate_end = Z_OK,
    parse_key = (\<lambda>bs. bs), serialize = (\<lambda>bs. bs), dml_failure = (\<lambda>j b. None), garbage = (\<lambda>p i. 0xaa), hash_garbage = (replicate 1024 0x55, 77),
    iax_comp_none = 0, iax_comp_success = 1, flag_crav = 8, flag_rcr = 4, flag_bof = 2,
    opcode_memmove = 3, opcode_memfill = 4, opcode_decompress = 0x42, iaa_compress_aecs_size = 1568,
    iaa_compress_max_dest_size = 64, input_size = 16, num_accesses = 3, pl_len = 3, log_debug = False,
    parse_value = (\<lambda>bs. bs), serialize_put = (\<lambda>key v. key @ v), deflate_bound = (\<lambda>n. n + 64),
    gcm_decrypt = Some, iaa_compress_aecs = replicate 1568 0, iaa_compress_src2_size = 3136,
    g_query = map of_char ''/region/cluster/foo:key|#|etc'', g_payload = map of_char ''/region/cluster/foo:key|#|etc''\<rparr>"

lemma sample_env_ok: "env_ok sample_env"
proof -
  have "\<exists>j \<ge> k. \<not> busy sample_env j" for k
    by (rule exI [of _ "3 * k"]) (simp add: sample_env_def)
  moreover have "length (transfer sample_env d s b) = length b" for d s b
    by (simp add: sample_env_def)
  ultimately show ?thesis by (simp add: env_ok_def sample_env_def)
qed

lemma sample_env_completed: "verdict sample_env d = COMP_STATUS_COMPLETED"
  by (simp add: sample_env_def COMP_STATUS_COMPLETED_def)

text \<open>An emulated accelerator that always has room.\<close>

definition sample_ax :: env where "sample_ax = sample_env\<lparr>busy := (\<lambda>_. False)\<rparr>"

lemma sample_ax_ok: "env_ok sample_ax" "\<not> busy sample_ax k" "verdict sample_ax d = COMP_STATUS_COMPLETED"
  by (auto simp: sample_ax_def env_ok_def sample_env_def COMP_STATUS_COMPLETED_def)

text \<open>Blocks 1 to 5: time stamp arrays; 6 to 9: result arrays; 10, 11, ...: descriptors; 20, ...:
  sources; 30, ...: destinations; 40: an index array; 50, ...: sizes.\<close>

definition sample_heap :: "nat \<Rightarrow> ptr \<Rightarrow> block option" where
  "sample_heap n p =
    (if 1 \<le> p \<and> p \<le> 5 then Some (Words (replicate n 0))
     else if 6 \<le> p \<and> p \<le> 9 then Some (Words [0, 0])
     else if 10 \<le> p \<and> p < 20 then Some (Desc zero_desc)
     else if 20 \<le> p \<and> p < 30 then Some (Bytes (map of_nat [0..<64]))
     else if 30 \<le> p \<and> p < 40 then Some (Bytes (replicate 64 0))
     else if p = 40 then Some (Ints [2, 0, 2])
     else if 50 \<le> p \<and> p < 60 then Some (Bytes [8, 0, 0, 0]) else None)"

definition sample_world :: "nat \<Rightarrow> world" where
  "sample_world n = \<lparr>heap = sample_heap n, nxt = 60, crs = replicate n idle_comp, polls = 0, tscs = 0,
    enqs = 0, rands = 0, g_indir_arr = 0, g_item_buf = 0, g_ll_head = 0, g_node_ptr = 0,
    requests_completed = 0, obs = []\<rparr>"

lemma sample_kinds:
  "kinds (sample_world n) p =
    (if 1 \<le> p \<and> p \<le> 5 then Some (KWords n)
     else if 6 \<le> p \<and> p \<le> 9 then Some (KWords 2)
     else if 10 \<le> p \<and> p < 20 then Some KDesc
     else if 20 \<le> p \<and> p < 30 then Some (KBytes 64)
     else if 30 \<le> p \<and> p < 40 then Some (KBytes 64)
     else if p = 40 then Some (KInts 3 {0, 2})
     else if 50 \<le> p \<and> p < 60 then Some (KBytes 4) else None)"
  by (auto simp: kinds_def sample_world_def sample_heap_def)

end
