(* ===== verification/Gpcore_Compress.thy ===== *)
theory Gpcore_Compress
  imports Offload_Ops Sample_Machine
begin

text \<open>
  Compression and decompression on a general purpose core (\<open>inc/inline/gpcore_compress.ipp\<close>): the
  loops around zlib.  Only the loops, the error paths and the effect on the destination buffer are
  modelled; what zlib computes is the environment.  The result is the return value, the value
  left in \<open>*out_len\<close>, and the new state.
\<close>

section \<open>The code\<close>

text \<open>The bytes a stream has put out are at the start of its output buffer.\<close>

definition put_output :: "ptr \<Rightarrow> u8 list \<Rightarrow> world \<Rightarrow> world option" where
  "put_output dst out w =
    do {
      bs \<leftarrow> get_bytes dst w;
      (if length out \<le> length bs then Some (set_bytes dst (out @ drop (length out) bs) w) else None)
    }"

text \<open>\<open>do { ret = deflate(...) } while (stream.avail_in > 0 && ret == Z_OK)\<close>; the result is the
  number of calls, the last return code and the output.\<close>

partial_function (option) deflate_loop ::
  "env \<Rightarrow> u8 list \<Rightarrow> nat \<Rightarrow> nat \<Rightarrow> (nat \<times> zret \<times> u8 list) option" where
  "deflate_loop hw src avail_out k =
    (case deflate_call hw src avail_out k of
       (ret, avail_in, out) \<Rightarrow>
         if avail_in > 0 \<and> ret = Z_OK then deflate_loop hw src avail_out (Suc k)
         else Some (Suc k, ret, out))"

definition gpcore_do_compress ::
  "env \<Rightarrow> ptr \<Rightarrow> u8 list \<Rightarrow> nat \<Rightarrow> world \<Rightarrow> (zret \<times> nat \<times> world) option" where
  "gpcore_do_compress hw dst src out_len w =
    (if deflate_init hw \<noteq> Z_OK then Some (deflate_init hw, out_len, w)
     else do {
       (k, ret, out) \<leftarrow> deflate_loop hw src out_len 0;
       let out = (if ret \<noteq> Z_STREAM_END then snd (deflate_finish hw src out_len k) else out);
       w \<leftarrow> put_output dst out w;
       let ret = deflate_end hw;
       (if ret \<noteq> Z_OK then Some (ret, out_len, w) else Some (ret, length out, w))
     })"

text \<open>\<open>do { ret = inflate(...); if (error) return ret; } while (ret != Z_STREAM_END)\<close>: \<open>Inl\<close> is the
  early return.\<close>

definition inflate_error :: "zret \<Rightarrow> bool" where
  "inflate_error ret \<longleftrightarrow> ret = Z_NEED_DICT \<or> ret = Z_DATA_ERROR \<or> ret = Z_MEM_ERROR"

partial_function (option) inflate_loop ::
  "env \<Rightarrow> u8 list \<Rightarrow> nat \<Rightarrow> nat \<Rightarrow> nat \<Rightarrow> (zret \<times> u8 list + u8 list) option" where
  "inflate_loop hw src avail_in avail_out k =
    (case inflate_call hw src avail_in avail_out k of
       (ret, out) \<Rightarrow>
         if inflate_error ret then Some (Inl (ret, out))
         else if ret \<noteq> Z_STREAM_END then inflate_loop hw src avail_in avail_out (Suc k)
         else Some (Inr out))"

definition gpcore_do_decompress ::
  "env \<Rightarrow> ptr \<Rightarrow> ptr \<Rightarrow> nat \<Rightarrow> nat \<Rightarrow> world \<Rightarrow> (zret \<times> nat \<times> world) option" where
  "gpcore_do_decompress hw dst src src_len out_len w =
    (if inflate_init hw \<noteq> Z_OK then Some (inflate_init hw, out_len, w)
     else do {
       bs \<leftarrow> get_bytes src w;
       r \<leftarrow> inflate_loop hw bs src_len out_len 0;
       (case r of
          Inl (ret, out) \<Rightarrow> do { w \<leftarrow> put_output dst out w; Some (ret, out_len, w) }
        | Inr out \<Rightarrow>
            do {
              w \<leftarrow> put_output dst out w;
              let ret = inflate_end hw;
              (if ret \<noteq> Z_OK then Some (ret, out_len, w) else Some (ret, length out, w))
            })
     })"

text \<open>The variant for the composable requests: source first, no return value.\<close>

definition gpcore_do_deflate_decompress ::
  "env \<Rightarrow> ptr \<Rightarrow> ptr \<Rightarrow> nat \<Rightarrow> nat \<Rightarrow> world \<Rightarrow> (nat \<times> world) option" where
  "gpcore_do_deflate_decompress hw src dst src_len out_len w =
    (if inflate_init hw \<noteq> Z_OK then Some (out_len, w)
     else do {
       bs \<leftarrow> get_bytes src w;
       r \<leftarrow> inflate_loop hw bs src_len out_len 0;
       (case r of
          Inl (ret, out) \<Rightarrow> do { w \<leftarrow> put_output dst out w; Some (out_len, w) }
        | Inr out \<Rightarrow>
            do {
              w \<leftarrow> put_output dst out w;
              let ret = inflate_end hw;
              (if ret \<noteq> Z_OK then Some (out_len, w) else Some (length out, w))
            })
     })"

section \<open>What the code relies on\<close>

text \<open>zlib never puts out more than it has room for, and every stream on a readable source ends or
  fails after finitely many calls.\<close>

definition inflate_ok :: "env \<Rightarrow> bool" where
  "inflate_ok hw \<longleftrightarrow> (\<forall>src i o_len k. length (snd (inflate_call hw src i o_len k)) \<le> o_len) \<and>
    (\<forall>src i o_len. \<exists>k. fst (inflate_call hw src i o_len k) = Z_STREAM_END \<or>
      inflate_error (fst (inflate_call hw src i o_len k)))"

definition deflate_ok :: "env \<Rightarrow> bool" where
  "deflate_ok hw \<longleftrightarrow> (\<forall>src o_len k. length (snd (snd (deflate_call hw src o_len k))) \<le> o_len) \<and>
    (\<forall>src o_len k. length (snd (deflate_finish hw src o_len k)) \<le> o_len) \<and>
    (\<forall>src o_len. \<exists>k. fst (snd (deflate_call hw src o_len k)) = 0 \<or>
      fst (deflate_call hw src o_len k) \<noteq> Z_OK)"

lemma inflate_loop_ends:
  assumes "k \<le> j" and "fst (inflate_call hw src i n j) = Z_STREAM_END \<or> inflate_error (fst (inflate_call hw src i n j))"
  shows "\<exists>m ret out. inflate_call hw src i n m = (ret, out) \<and>
    (inflate_loop hw src i n k = Some (Inl (ret, out)) \<and> inflate_error ret \<or>
     inflate_loop hw src i n k = Some (Inr out) \<and> ret = Z_STREAM_END)"
  using assms
proof (induction "j - k" arbitrary: k)
  case 0
  then have k: "k = j" by simp
  obtain ret out where r: "inflate_call hw src i n j = (ret, out)" by fastforce
  with 0 k show ?case
    by (intro exI [of _ j] exI [of _ ret] exI [of _ out])
      (subst inflate_loop.simps, auto simp: inflate_loop.simps [of hw src i n j] inflate_error_def)
next
  case (Suc m)
  obtain ret out where r: "inflate_call hw src i n k = (ret, out)" by fastforce
  show ?case
  proof (cases "inflate_error ret \<or> ret = Z_STREAM_END")
    case True
    with r show ?thesis
      by (intro exI [of _ k] exI [of _ ret] exI [of _ out])
        (auto simp: inflate_loop.simps [of hw src i n k] inflate_error_def)
  next
    case False
    with r have "inflate_loop hw src i n k = inflate_loop hw src i n (Suc k)"
      by (simp add: inflate_loop.simps [of hw src i n k])
    moreover have "m = j - Suc k" "Suc k \<le> j" using Suc.hyps(2) by simp_all
    ultimately show ?thesis using Suc.hyps(1) [of "Suc k"] assms(2) by simp
  qed
qed

lemma put_output_ok:
  assumes "kinds w dst = Some (KBytes m)" and "length out \<le> m"
  shows "\<exists>w'. put_output dst out w = Some w' \<and> later hw w w' \<and>
    get_bytes dst w' = Some (out @ drop (length out) (the (get_bytes dst w)))"
proof -
  obtain bs where bs: "get_bytes dst w = Some bs" "length bs = m" using assms(1) by (auto simp: kinds_bytes)
  with assms(2) have "put_output dst out w = Some (set_bytes dst (out @ drop (length out) bs) w)"
    by (simp add: put_output_def)
  moreover have "later hw w (set_bytes dst (out @ drop (length out) bs) w)"
    by (rule later_set_bytes [OF bs(1)]) (use bs(2) assms(2) in simp)
  ultimately show ?thesis using bs(1) by (simp add: set_bytes_def get_bytes_def)
qed

lemma gpcore_do_decompress_ok:
  assumes "inflate_ok hw" and "kinds w dst = Some (KBytes m)" and "kinds w src = Some (KBytes l)"
    and "out_len \<le> m"
  shows "\<exists>ret n w'. gpcore_do_decompress hw dst src i out_len w = Some (ret, n, w') \<and> later hw w w' \<and>
    n \<le> out_len"
proof (cases "inflate_init hw = Z_OK")
  case True
  obtain bs where bs: "get_bytes src w = Some bs" using assms(3) by (auto simp: kinds_bytes)
  obtain j where j: "fst (inflate_call hw bs i out_len j) = Z_STREAM_END \<or>
      inflate_error (fst (inflate_call hw bs i out_len j))"
    using assms(1) unfolding inflate_ok_def by blast
  obtain q ret out where q: "inflate_call hw bs i out_len q = (ret, out)"
    "inflate_loop hw bs i out_len 0 = Some (Inl (ret, out)) \<or> inflate_loop hw bs i out_len 0 = Some (Inr out)"
    using inflate_loop_ends [OF _ j, of 0] by blast
  have o: "length out \<le> out_len"
    using assms(1) q(1) unfolding inflate_ok_def by (metis snd_conv)
  with put_output_ok [OF assms(2), of out hw] assms(4) obtain w' where
    "put_output dst out w = Some w'" "later hw w w'" by auto
  with q(2) bs o True show ?thesis
    by (auto simp: gpcore_do_decompress_def Let_def)
qed (simp add: gpcore_do_decompress_def)

lemma inflate_loop_returns:
  "inflate_loop hw src i n k = Some r \<Longrightarrow>
    \<exists>j \<ge> k. fst (inflate_call hw src i n j) = Z_STREAM_END \<or> inflate_error (fst (inflate_call hw src i n j))"
proof (rule inflate_loop.raw_induct [of "\<lambda>hw src i n k r. \<exists>j \<ge> k.
    fst (inflate_call hw src i n j) = Z_STREAM_END \<or> inflate_error (fst (inflate_call hw src i n j))"])
  fix rec and hw :: env and src i n k and r :: "zret \<times> u8 list + u8 list"
  assume IH: "\<And>hw src i n k r. rec hw src i n k = Some r \<Longrightarrow>
      \<exists>j \<ge> k. fst (inflate_call hw src i n j) = Z_STREAM_END \<or> inflate_error (fst (inflate_call hw src i n j))"
    and step: "(case inflate_call hw src i n k of
       (ret, out) \<Rightarrow>
         if inflate_error ret then Some (Inl (ret, out))
         else if ret \<noteq> Z_STREAM_END then rec hw src i n (Suc k)
         else Some (Inr out)) = Some r"
  obtain ret out where c: "inflate_call hw src i n k = (ret, out)" by fastforce
  show "\<exists>j \<ge> k. fst (inflate_call hw src i n j) = Z_STREAM_END \<or> inflate_error (fst (inflate_call hw src i n j))"
  proof (cases "inflate_error ret \<or> ret = Z_STREAM_END")
    case True
    with c show ?thesis by (intro exI [of _ k]) auto
  next
    case False
    with step c have "rec hw src i n (Suc k) = Some r" by (simp split: if_splits)
    from IH [OF this] show ?thesis by (meson Suc_leD)
  qed
qed

lemma sample_inflate_ok: "inflate_ok sample_env"
  by (simp add: inflate_ok_def sample_env_def min_def)

section \<open>Properties\<close>



text \<open>The error codes that end the inflate loop do not include Z_BUF_ERROR: on a truncated
  source, or when the output buffer is full, zlib keeps answering Z_BUF_ERROR and the
  decompression never returns.\<close>

theorem gpcore_do_decompress_hangs:
  assumes "inflate_init hw = Z_OK" and "get_bytes src w = Some bs"
    and "\<forall>k. fst (inflate_call hw bs i out_len k) = Z_BUF_ERROR"
  shows "gpcore_do_decompress hw dst src i out_len w = None"
proof -
  have "inflate_loop hw bs i out_len 0 = None"
  proof (rule ccontr)
    assume "inflate_loop hw bs i out_len 0 \<noteq> None"
    then obtain r where "inflate_loop hw bs i out_len 0 = Some r" by blast
    from inflate_loop_returns [OF this] assms(3) show False by (auto simp: inflate_error_def)
  qed
  with assms(1,2) show ?thesis by (simp add: gpcore_do_decompress_def)
qed

text \<open>A source that zlib finds truncated at every call.\<close>

definition truncated_env :: env where
  "truncated_env = sample_env\<lparr>inflate_call := (\<lambda>src i room k. (Z_BUF_ERROR, []))\<rparr>"

lemma gpcore_do_decompress_hangs_witness:
  "gpcore_do_decompress truncated_env 30 20 8 29 (sample_world 3) = None"
proof -
  have "get_bytes 20 (sample_world 3) = Some (map of_nat [0..<64])"
    by (simp add: get_bytes_def sample_world_def sample_heap_def)
  then show ?thesis
    by (rule gpcore_do_decompress_hangs [rotated]) (simp_all add: truncated_env_def sample_env_def)
qed

end
