(* ===== verification/Requests_Hash.thy ===== *)
theory Requests_Hash
  imports Request_Rules Gpcore_Compress CH3_Hash
begin

text \<open>
  The requests that hash a payload: the router requests of \<open>src/router_requests.cpp\<close> (the payload
  comes from the emulated accelerator, or is parsed on the CPU) and the decompress-and-hash requests
  of \<open>src/decompress_and_hash_request.cpp\<close>.  A request is a fiber: a function of its arguments and
  the state that runs until it switches back (\<open>Yield\<close>) or returns (\<open>Exit\<close>).
\<close>

section \<open>Hashing a payload\<close>

text \<open>\<open>furc_hash(payload, len, 16)\<close> on a buffer; the result, which the code drops, is observed.\<close>

definition hash_payload :: "env \<Rightarrow> ptr \<Rightarrow> nat \<Rightarrow> world \<Rightarrow> world option" where
  "hash_payload hw p len w =
    do {
      bs \<leftarrow> get_bytes p w;
      (if length bs < len then None
       else do {
         h \<leftarrow> furc_hash (Some (\<lambda>i. bs ! i)) len 16 (hash_garbage hw);
         Some (w\<lparr>obs := obs w @ [Hashed h]\<rparr>)
       })
    }"

text \<open>The length of \<open>"/region/cluster/foo:key|#|etc"\<close>.\<close>

definition query_size :: nat where "query_size = length ''/region/cluster/foo:key|#|etc''"

section \<open>Router requests\<close>

definition yielding_router_request :: "env \<Rightarrow> offload_args \<Rightarrow> world \<Rightarrow> world slice option" where
  "yielding_router_request hw args w =
    do {
      (st, w) \<leftarrow> submit_offload hw (a_comp args) (a_dst_payload args) w;
      (if st = STATUS_FAIL then Some (Exit w)
       else Some (Yield w (\<lambda>_ w.
         do {
           w \<leftarrow> hash_payload hw (a_dst_payload args) query_size w;
           finish_request w
         })))
    }"

definition yielding_router_request_stamp :: "env \<Rightarrow> offload_args \<Rightarrow> world \<Rightarrow> world slice option" where
  "yielding_router_request_stamp hw args w =
    do {
      w \<leftarrow> stamp hw (a_ts0 args) (a_id args) w;
      (st, w) \<leftarrow> submit_offload hw (a_comp args) (a_dst_payload args) w;
      (if st = STATUS_FAIL then Some (Exit w)
       else do {
         w \<leftarrow> stamp hw (a_ts1 args) (a_id args) w;
         Some (Yield w (\<lambda>_ w.
           do {
             w \<leftarrow> stamp hw (a_ts2 args) (a_id args) w;
             w \<leftarrow> hash_payload hw (a_dst_payload args) query_size w;
             w \<leftarrow> stamp hw (a_ts3 args) (a_id args) w;
             finish_request w
           }))
       })
    }"

definition blocking_router_request :: "env \<Rightarrow> offload_args \<Rightarrow> world \<Rightarrow> world slice option" where
  "blocking_router_request hw args w =
    do {
      (st, w) \<leftarrow> submit_offload hw (a_comp args) (a_dst_payload args) w;
      (if st = STATUS_FAIL then Some (Exit w)
       else do {
         w \<leftarrow> wait_while hw COMP_STATUS_PENDING (a_comp args) w;
         w \<leftarrow> hash_payload hw (a_dst_payload args) query_size w;
         finish_request w
       })
    }"

definition blocking_router_request_stamp :: "env \<Rightarrow> offload_args \<Rightarrow> world \<Rightarrow> world slice option" where
  "blocking_router_request_stamp hw args w =
    do {
      w \<leftarrow> stamp hw (a_ts0 args) (a_id args) w;
      (st, w) \<leftarrow> submit_offload hw (a_comp args) (a_dst_payload args) w;
      (if st = STATUS_FAIL then Some (Exit w)
       else do {
         w \<leftarrow> stamp hw (a_ts1 args) (a_id args) w;
         w \<leftarrow> wait_while hw COMP_STATUS_PENDING (a_comp args) w;
         w \<leftarrow> stamp hw (a_ts2 args) (a_id args) w;
         w \<leftarrow> hash_payload hw (a_dst_payload args) query_size w;
         w \<leftarrow> stamp hw (a_ts3 args) (a_id args) w;
         finish_request w
       })
    }"

text \<open>\<open>req->ParseFromString(*serialized)\<close> and the hash of the parsed key.\<close>

definition parse_request :: "env \<Rightarrow> ptr \<Rightarrow> world \<Rightarrow> u8 list option" where
  "parse_request hw serialized w = map_option (parse_key hw) (get_bytes serialized w)"

definition hash_key :: "env \<Rightarrow> u8 list \<Rightarrow> world \<Rightarrow> world option" where
  "hash_key hw key w =
    do {
      h \<leftarrow> furc_hash (Some (\<lambda>i. key ! i)) (length key) 16 (hash_garbage hw);
      Some (w\<lparr>obs := obs w @ [Hashed h]\<rparr>)
    }"

definition cpu_router_request :: "env \<Rightarrow> cpu_args \<Rightarrow> world \<Rightarrow> world slice option" where
  "cpu_router_request hw args w =
    do {
      key \<leftarrow> parse_request hw (c_serialized args) w;
      w \<leftarrow> hash_key hw key w;
      finish_request w
    }"

definition cpu_router_request_stamp :: "env \<Rightarrow> cpu_args \<Rightarrow> world \<Rightarrow> world slice option" where
  "cpu_router_request_stamp hw args w =
    do {
      w \<leftarrow> stamp hw (c_ts0 args) (c_id args) w;
      key \<leftarrow> parse_request hw (c_serialized args) w;
      w \<leftarrow> stamp hw (c_ts1 args) (c_id args) w;
      w \<leftarrow> hash_key hw key w;
      w \<leftarrow> stamp hw (c_ts2 args) (c_id args) w;
      finish_request w
    }"

section \<open>Decompress and hash\<close>

text \<open>\<open>if (comp->status != IAX_COMP_SUCCESS) LOG_PRINT(...)\<close> only reads the record.\<close>

definition check_status :: "env \<Rightarrow> nat \<Rightarrow> world \<Rightarrow> world option" where
  "check_status hw i w = map_option snd (read_status hw i w)"

definition yielding_decompress_and_hash_request_stamped ::
  "env \<Rightarrow> offload_args \<Rightarrow> world \<Rightarrow> world slice option" where
  "yielding_decompress_and_hash_request_stamped hw args w =
    do {
      w \<leftarrow> stamp hw (a_ts0 args) (a_id args) w;
      w \<leftarrow> prepare_iaa_decompress_desc_with_preallocated_comp hw (a_desc args) (a_src_payload args)
             (a_dst_payload args) (a_comp args) (a_src_size args) w;
      w \<leftarrow> blocking_iaa_submit hw (a_desc args) w;
      w \<leftarrow> stamp hw (a_ts1 args) (a_id args) w;
      Some (Yield w (\<lambda>_ w.
        do {
          w \<leftarrow> check_status hw (a_comp args) w;
          w \<leftarrow> stamp hw (a_ts2 args) (a_id args) w;
          w \<leftarrow> hash_payload hw (a_dst_payload args) (a_dst_size args) w;
          w \<leftarrow> stamp hw (a_ts3 args) (a_id args) w;
          finish_request w
        }))
    }"

definition blocking_decompress_and_hash_request_stamped ::
  "env \<Rightarrow> offload_args \<Rightarrow> world \<Rightarrow> world slice option" where
  "blocking_decompress_and_hash_request_stamped hw args w =
    do {
      w \<leftarrow> stamp hw (a_ts0 args) (a_id args) w;
      w \<leftarrow> prepare_iaa_decompress_desc_with_preallocated_comp hw (a_desc args) (a_src_payload args)
             (a_dst_payload args) (a_comp args) (a_src_size args) w;
      w \<leftarrow> blocking_iaa_submit hw (a_desc args) w;
      w \<leftarrow> stamp hw (a_ts1 args) (a_id args) w;
      w \<leftarrow> spin_on hw (a_comp args) w;
      w \<leftarrow> check_status hw (a_comp args) w;
      w \<leftarrow> stamp hw (a_ts2 args) (a_id args) w;
      w \<leftarrow> hash_payload hw (a_dst_payload args) (a_dst_size args) w;
      w \<leftarrow> stamp hw (a_ts3 args) (a_id args) w;
      finish_request w
    }"

definition blocking_decompress_and_hash_request :: "env \<Rightarrow> offload_args \<Rightarrow> world \<Rightarrow> world slice option" where
  "blocking_decompress_and_hash_request hw args w =
    do {
      w \<leftarrow> prepare_iaa_decompress_desc_with_preallocated_comp hw (a_desc args) (a_src_payload args)
             (a_dst_payload args) (a_comp args) (a_src_size args) w;
      w \<leftarrow> blocking_iaa_submit hw (a_desc args) w;
      w \<leftarrow> wait_while hw (iax_comp_none hw) (a_comp args) w;
      w \<leftarrow> check_status hw (a_comp args) w;
      w \<leftarrow> hash_payload hw (a_dst_payload args) (a_dst_size args) w;
      finish_request w
    }"

definition yielding_decompress_and_hash_request :: "env \<Rightarrow> offload_args \<Rightarrow> world \<Rightarrow> world slice option" where
  "yielding_decompress_and_hash_request hw args w =
    do {
      w \<leftarrow> prepare_iaa_decompress_desc_with_preallocated_comp hw (a_desc args) (a_src_payload args)
             (a_dst_payload args) (a_comp args) (a_src_size args) w;
      w \<leftarrow> blocking_iaa_submit hw (a_desc args) w;
      Some (Yield w (\<lambda>_ w.
        do {
          w \<leftarrow> check_status hw (a_comp args) w;
          w \<leftarrow> hash_payload hw (a_dst_payload args) (a_dst_size args) w;
          finish_request w
        }))
    }"

text \<open>\<open>*((int *) args->inputs[2])\<close>, passed on as an unsigned size.\<close>

definition read_size :: "ptr \<Rightarrow> world \<Rightarrow> nat option" where
  "read_size p w = do { bs \<leftarrow> get_bytes p w; v \<leftarrow> load32 bs 0; Some (unat v) }"

definition cpu_decompress_and_hash_stamped :: "env \<Rightarrow> gpcore_args \<Rightarrow> world \<Rightarrow> world slice option" where
  "cpu_decompress_and_hash_stamped hw args w =
    do {
      src1 \<leftarrow> arr_get (g_inputs args) 0;
      dst1 \<leftarrow> arr_get (g_inputs args) 1;
      p \<leftarrow> arr_get (g_inputs args) 2;
      compressed_size \<leftarrow> read_size p w;
      w \<leftarrow> stamp hw (g_ts0 args) (g_id args) w;
      (rc, decompressed_size, w) \<leftarrow>
        gpcore_do_decompress hw dst1 src1 compressed_size (iaa_compress_max_dest_size hw) w;
      w \<leftarrow> stamp hw (g_ts1 args) (g_id args) w;
      w \<leftarrow> hash_payload hw dst1 decompressed_size w;
      w \<leftarrow> stamp hw (g_ts2 args) (g_id args) w;
      finish_request w
    }"

definition cpu_decompress_and_hash :: "env \<Rightarrow> gpcore_args \<Rightarrow> world \<Rightarrow> world slice option" where
  "cpu_decompress_and_hash hw args w =
    do {
      src1 \<leftarrow> arr_get (g_inputs args) 0;
      dst1 \<leftarrow> arr_get (g_inputs args) 1;
      p \<leftarrow> arr_get (g_inputs args) 2;
      compressed_size \<leftarrow> read_size p w;
      (rc, decompressed_size, w) \<leftarrow>
        gpcore_do_decompress hw dst1 src1 compressed_size (iaa_compress_max_dest_size hw) w;
      w \<leftarrow> hash_payload hw dst1 decompressed_size w;
      finish_request w
    }"

section \<open>The steps of a request\<close>

lemma later_obs_hashed: "later hw w (w\<lparr>obs := obs w @ [Hashed h]\<rparr>)"
  by (simp add: later_def shape_eq_iff kinds_def list_all2_refl)

lemma furc_hash_env: "env_ok hw \<Longrightarrow> \<exists>h. furc_hash key len 16 (hash_garbage hw) = Some h \<and> h < 16"
  by (rule furc_hash_range) (simp_all add: env_ok_def fresh_cache_def FURC_CACHE_SIZE_def)

lemma safe_hash_payload [request_rules]:
  assumes "env_ok hw" and "buffer_of K p len"
  shows "safe hw K n (hash_payload hw p len)"
  unfolding safe_def
proof (intro allI impI)
  fix w assume "shape w = K"
  with assms(2) obtain bs where bs: "get_bytes p w = Some bs" "len \<le> length bs"
    by (auto simp: buffer_of_def kinds_bytes)
  obtain h where "furc_hash (Some (\<lambda>i. bs ! i)) len 16 (hash_garbage hw) = Some h"
    using furc_hash_env [OF assms(1)] by blast
  with bs later_obs_hashed show "\<exists>w'. hash_payload hw p len w = Some w' \<and> later hw w w'"
    by (auto simp: hash_payload_def)
qed

lemma safe_hash_key [request_rules]: "env_ok hw \<Longrightarrow> safe hw K n (hash_key hw key)"
  using furc_hash_env [of hw "Some (\<lambda>i. key ! i)" "length key"] later_obs_hashed
  by (auto simp: safe_def hash_key_def)

lemma safe_check_status [request_rules]: "env_ok hw \<Longrightarrow> i < n \<Longrightarrow> safe hw K n (check_status hw i)"
  using read_status_ok [of hw i] by (fastforce simp: safe_def check_status_def)

section \<open>The contracts of the requests\<close>

lemma yielding_router_request_entry:
  assumes env: "env_ok hw" and "\<And>k. \<not> busy hw k" and "slot_args n i a" and "buffer_of K (a_dst_payload a) query_size"
  shows "entry_ok 1 hw K n complete i (yielding_router_request hw a)"
  using assms unfolding yielding_router_request_def [abs_def] args_defs
  by (simp cong: if_cong, intro entry_ok_offload request_rules; simp)

lemma yielding_router_request_stamp_entry:
  assumes env: "env_ok hw" and "\<And>k. \<not> busy hw k" and "slot_args n i a" and "timed_args K n a"
    and "buffer_of K (a_dst_payload a) query_size"
  shows "entry_ok 1 hw K n complete i (yielding_router_request_stamp hw a)"
  using assms unfolding yielding_router_request_stamp_def [abs_def] args_defs
  by (simp cong: if_cong, intro entry_ok_bind [OF safe_stamp] entry_ok_offload request_rules; simp)

lemma blocking_router_request_run:
  assumes env: "env_ok hw" and "test_ok hw complete" and "\<And>k. \<not> busy hw k" and "slot_args n i a"
    and "buffer_of K (a_dst_payload a) query_size"
  shows "run_ok 1 hw K n complete i (blocking_router_request hw a)"
  using assms unfolding blocking_router_request_def [abs_def] args_defs COMP_STATUS_PENDING_def
  by (simp cong: if_cong, intro run_ok_offload wait_ok_wait request_rules; simp)

lemma blocking_router_request_stamp_run:
  assumes env: "env_ok hw" and "test_ok hw complete" and "\<And>k. \<not> busy hw k" and "slot_args n i a" and "timed_args K n a"
    and "buffer_of K (a_dst_payload a) query_size"
  shows "run_ok 1 hw K n complete i (blocking_router_request_stamp hw a)"
  using assms unfolding blocking_router_request_stamp_def [abs_def] args_defs COMP_STATUS_PENDING_def
  by (simp cong: if_cong, intro run_ok_bind [OF safe_stamp] run_ok_offload wait_ok_bind [OF _ _ safe_stamp]
      wait_ok_wait request_rules; simp)

lemma yielding_decompress_and_hash_request_entry:
  assumes env: "env_ok hw" and "slot_args n i a" and "blocks K (a_desc a) = Some KDesc" and "buffer_of K (a_dst_payload a) (a_dst_size a)"
  shows "entry_ok 1 hw K n complete i (yielding_decompress_and_hash_request hw a)"
  using assms unfolding yielding_decompress_and_hash_request_def [abs_def] args_defs
  by (simp, intro entry_ok_iaa request_rules; simp)

lemma yielding_decompress_and_hash_request_stamped_entry:
  assumes env: "env_ok hw" and "slot_args n i a" and "blocks K (a_desc a) = Some KDesc" and "timed_args K n a"
    and "buffer_of K (a_dst_payload a) (a_dst_size a)"
  shows "entry_ok 1 hw K n complete i (yielding_decompress_and_hash_request_stamped hw a)"
  using assms unfolding yielding_decompress_and_hash_request_stamped_def [abs_def] args_defs
  by (simp, intro entry_ok_bind [OF safe_stamp] entry_ok_iaa request_rules; simp)

lemma blocking_decompress_and_hash_request_run:
  assumes env: "env_ok hw" and "test_ok hw complete" and "slot_args n i a" and "blocks K (a_desc a) = Some KDesc"
    and "buffer_of K (a_dst_payload a) (a_dst_size a)"
  shows "run_ok 1 hw K n complete i (blocking_decompress_and_hash_request hw a)"
  using assms unfolding blocking_decompress_and_hash_request_def [abs_def] args_defs
  by (simp, intro run_ok_iaa wait_ok_wait request_rules; simp add: env_ok_def)

lemma blocking_decompress_and_hash_request_stamped_run:
  assumes env: "env_ok hw" and "test_ok hw complete" and "slot_args n i a" and "blocks K (a_desc a) = Some KDesc"
    and "timed_args K n a" and "buffer_of K (a_dst_payload a) (a_dst_size a)"
  shows "run_ok 1 hw K n complete i (blocking_decompress_and_hash_request_stamped hw a)"
  using assms
  unfolding blocking_decompress_and_hash_request_stamped_def [abs_def] args_defs spin_on_def
  by (simp, intro run_ok_bind [OF safe_stamp] run_ok_iaa wait_ok_bind [OF _ _ safe_stamp]
      wait_ok_wait request_rules; simp add: env_ok_def)

lemma cpu_router_request_fin:
  assumes env: "env_ok hw" and "blocks K (c_serialized a) = Some (KBytes l)"
  shows "fin_ok 1 hw K n (cpu_router_request hw a)"
  unfolding cpu_router_request_def [abs_def] fin_ok_def
proof (intro allI impI)
  fix w assume w: "shape w = K" "length (crs w) = n"
  with assms obtain bs where bs: "get_bytes (c_serialized a) w = Some bs" by (auto simp: kinds_bytes)
  have "fin_ok 1 hw K n (\<lambda>w. Option.bind (hash_key hw (parse_key hw bs) w) finish_request)"
    using env by (intro request_rules)
  with w bs show "\<exists>w' k. do { key \<leftarrow> parse_request hw (c_serialized a) w; w \<leftarrow> hash_key hw key w;
      finish_request w } = Some (Yield w' k) \<and> finishes 1 hw w w'"
    by (simp add: parse_request_def fin_ok_def)
qed

lemma cpu_router_request_stamp_fin:
  assumes env: "env_ok hw" and ser: "blocks K (c_serialized a) = Some (KBytes l)" and "c_id a < n"
    and "blocks K (c_ts0 a) = Some (KWords n)" and "blocks K (c_ts1 a) = Some (KWords n)" and "blocks K (c_ts2 a) = Some (KWords n)"
  shows "fin_ok 1 hw K n (cpu_router_request_stamp hw a)"
proof -
  have "fin_ok 1 hw K n (\<lambda>w. Option.bind (parse_request hw (c_serialized a) w) (\<lambda>key.
      Option.bind (stamp hw (c_ts1 a) (c_id a) w) (\<lambda>w. Option.bind (hash_key hw key w) (\<lambda>w.
        Option.bind (stamp hw (c_ts2 a) (c_id a) w) finish_request))))"
    unfolding fin_ok_def
  proof (intro allI impI)
    fix w assume w: "shape w = K" "length (crs w) = n"
    with ser obtain bs where bs: "get_bytes (c_serialized a) w = Some bs" by (auto simp: kinds_bytes)
    have "fin_ok 1 hw K n (\<lambda>w. Option.bind (stamp hw (c_ts1 a) (c_id a) w) (\<lambda>w.
        Option.bind (hash_key hw (parse_key hw bs) w) (\<lambda>w.
          Option.bind (stamp hw (c_ts2 a) (c_id a) w) finish_request)))"
      using assms by (intro request_rules)
    with w bs show "\<exists>w' k. Option.bind (parse_request hw (c_serialized a) w) (\<lambda>key.
        Option.bind (stamp hw (c_ts1 a) (c_id a) w) (\<lambda>w. Option.bind (hash_key hw key w) (\<lambda>w.
          Option.bind (stamp hw (c_ts2 a) (c_id a) w) finish_request))) = Some (Yield w' k) \<and> finishes 1 hw w w'"
      by (simp add: parse_request_def fin_ok_def)
  qed
  with assms show ?thesis
    unfolding cpu_router_request_stamp_def [abs_def] by (intro fin_ok_bind safe_stamp)
qed

lemma fin_ok_decompress:
  assumes "inflate_ok hw" and "blocks K src = Some (KBytes l)" and "buffer_of K dst room"
    and "\<And>sz. sz \<le> room \<Longrightarrow> fin_ok 1 hw K n (h sz)"
  shows "fin_ok 1 hw K n (\<lambda>w. Option.bind (gpcore_do_decompress hw dst src sl room w) (\<lambda>(rc, sz, w). h sz w))"
  unfolding fin_ok_def
proof (intro allI impI)
  fix w assume w: "shape w = K" "length (crs w) = n"
  obtain m where m: "room \<le> m" "kinds w dst = Some (KBytes m)" "kinds w src = Some (KBytes l)"
    using assms(2,3) w(1) by (auto simp: buffer_of_def)
  obtain ret sz w1 where r: "gpcore_do_decompress hw dst src sl room w = Some (ret, sz, w1)"
    "later hw w w1" "sz \<le> room"
    using gpcore_do_decompress_ok [OF assms(1) m(2,3,1)] by blast
  with assms(4) [OF r(3)] w later_shape [OF r(2)] later_length [OF r(2)] obtain w' k where
    "h sz w1 = Some (Yield w' k)" "finishes 1 hw w1 w'" unfolding fin_ok_def by metis
  with r finishes_later [OF r(2)] show "\<exists>w' k. Option.bind (gpcore_do_decompress hw dst src sl room w)
      (\<lambda>(rc, sz, w). h sz w) = Some (Yield w' k) \<and> finishes 1 hw w w'" by auto
qed

text \<open>The three inputs of a CPU decompress-and-hash request: the compressed payload, the output
  buffer, and a block with the size.\<close>

definition core_hash_inputs :: "env \<Rightarrow> shape \<Rightarrow> gpcore_args \<Rightarrow> bool" where
  "core_hash_inputs hw K a \<longleftrightarrow> (\<exists>src dst p. g_inputs a = [src, dst, p] \<and>
    (\<exists>l. blocks K src = Some (KBytes l)) \<and> buffer_of K dst (iaa_compress_max_dest_size hw) \<and>
    blocks K p = Some (KBytes 4))"

lemma read_size_ok: "kinds w p = Some (KBytes 4) \<Longrightarrow> \<exists>v. read_size p w = Some v"
  by (auto simp: kinds_bytes read_size_def load32_def)

lemma buffer_of_mono: "buffer_of K p m \<Longrightarrow> sz \<le> m \<Longrightarrow> buffer_of K p sz"
  by (auto simp: buffer_of_def)

lemma cpu_decompress_and_hash_fin:
  assumes "env_ok hw" and "inflate_ok hw" and "core_hash_inputs hw K a"
  shows "fin_ok 1 hw K n (cpu_decompress_and_hash hw a)"
  unfolding fin_ok_def
proof (intro allI impI)
  fix w assume w: "shape w = K" "length (crs w) = n"
  obtain src dst p l where i: "g_inputs a = [src, dst, p]" "blocks K src = Some (KBytes l)"
    "buffer_of K dst (iaa_compress_max_dest_size hw)" "blocks K p = Some (KBytes 4)"
    using assms(3) by (auto simp: core_hash_inputs_def)
  obtain v where v: "read_size p w = Some v" using read_size_ok [of w p] i(4) shape_kinds [OF w(1)] by auto
  have "fin_ok 1 hw K n (\<lambda>w. Option.bind (gpcore_do_decompress hw dst src v (iaa_compress_max_dest_size hw) w)
      (\<lambda>(rc, sz, w). (\<lambda>sz w. Option.bind (hash_payload hw dst sz w) finish_request) sz w))"
    using assms(1) i by (intro fin_ok_decompress [OF assms(2) i(2,3)] request_rules buffer_of_mono [OF i(3)])
  with w i(1) v show "\<exists>w' k. cpu_decompress_and_hash hw a w = Some (Yield w' k) \<and> finishes 1 hw w w'"
    by (simp add: cpu_decompress_and_hash_def fin_ok_def arr_get_def)
qed

lemma cpu_decompress_and_hash_stamped_fin:
  assumes "env_ok hw" and "inflate_ok hw" and "core_hash_inputs hw K a" and "core_timed_args K n i a"
  shows "fin_ok 1 hw K m (cpu_decompress_and_hash_stamped hw a)"
  unfolding fin_ok_def
proof (intro allI impI)
  fix w assume w: "shape w = K" "length (crs w) = m"
  obtain src dst p l where i: "g_inputs a = [src, dst, p]" "blocks K src = Some (KBytes l)"
    "buffer_of K dst (iaa_compress_max_dest_size hw)" "blocks K p = Some (KBytes 4)"
    using assms(3) by (auto simp: core_hash_inputs_def)
  obtain v where v: "read_size p w = Some v" using read_size_ok [of w p] i(4) shape_kinds [OF w(1)] by auto
  have "fin_ok 1 hw K m (\<lambda>w. Option.bind (stamp hw (g_ts0 a) i w) (\<lambda>w.
      Option.bind (gpcore_do_decompress hw dst src v (iaa_compress_max_dest_size hw) w)
      (\<lambda>(rc, sz, w). (\<lambda>sz w. Option.bind (stamp hw (g_ts1 a) i w) (\<lambda>w.
        Option.bind (hash_payload hw dst sz w) (\<lambda>w. Option.bind (stamp hw (g_ts2 a) i w) finish_request))) sz w)))"
    using assms(1,4) i(2,3) unfolding args_defs
    by (intro fin_ok_bind [OF safe_stamp_any [of K _ n]] fin_ok_decompress [OF assms(2) i(2,3)] fin_ok_finish
        safe_hash_payload [THEN fin_ok_bind] buffer_of_mono [OF i(3)]; simp)
  with w i(1) v assms(4) show "\<exists>w' k. cpu_decompress_and_hash_stamped hw a w = Some (Yield w' k) \<and> finishes 1 hw w w'"
    by (simp add: cpu_decompress_and_hash_stamped_def fin_ok_def arr_get_def args_defs)
qed

end
