(* ===== verification/Hash_Runs.thy ===== *)
theory Hash_Runs
  imports Requests_Hash Sample_Machine
begin

text \<open>
  The hash requests under the executors: the contracts of \<open>Executor_Contracts\<close> hold for the request
  functions of \<open>Requests_Hash\<close>, so whole runs terminate with every request counted and every
  operation submitted once, in order.
\<close>

section \<open>Argument arrays of a run\<close>

text \<open>The argument structs that the allocators of the decompress-and-hash requests build for \<open>n\<close>
  requests, in a heap of kinds \<open>K\<close>.\<close>

definition hash_run_args :: "shape \<Rightarrow> nat \<Rightarrow> offload_args list \<Rightarrow> bool" where
  "hash_run_args K n args \<longleftrightarrow> 0 < n \<and> n < 2 ^ 31 \<and> length args = n \<and>
    (\<forall>i < n. slot_args n i (args ! i) \<and> blocks K (a_desc (args ! i)) = Some KDesc \<and>
      buffer_of K (a_dst_payload (args ! i)) (a_dst_size (args ! i)))"

definition timed_run_args :: "shape \<Rightarrow> nat \<Rightarrow> offload_args list \<Rightarrow> bool" where
  "timed_run_args K n args \<longleftrightarrow> (\<forall>i < n. timed_args K n (args ! i))"

definition router_run_args :: "shape \<Rightarrow> nat \<Rightarrow> offload_args list \<Rightarrow> bool" where
  "router_run_args K n args \<longleftrightarrow> 0 < n \<and> n < 2 ^ 31 \<and> length args = n \<and>
    (\<forall>i < n. slot_args n i (args ! i) \<and> buffer_of K (a_dst_payload (args ! i)) query_size)"

section \<open>The contracts, instantiated\<close>

lemma yielding_hash_contract:
  assumes "env_ok hw" and "test_ok hw complete" and "hash_run_args K n args"
  shows "yielding_offloads hw K n complete (replicate n (yielding_decompress_and_hash_request hw)) args"
proof -
  have "yielding_requests hw K n complete (replicate n (yielding_decompress_and_hash_request hw)) args"
    using assms by (intro yielding_contract yielding_decompress_and_hash_request_entry)
      (auto simp: hash_run_args_def)
  with assms(3) show ?thesis
    by (simp add: yielding_offloads_def yielding_offloads_axioms_def hash_run_args_def)
qed

lemma yielding_hash_stamped_contract:
  assumes "env_ok hw" and "test_ok hw complete" and "hash_run_args K n args" and "timed_run_args K n args"
  shows "yielding_offloads hw K n complete
    (replicate n (yielding_decompress_and_hash_request_stamped hw)) args"
proof -
  have "yielding_requests hw K n complete (replicate n (yielding_decompress_and_hash_request_stamped hw)) args"
    using assms by (intro yielding_contract yielding_decompress_and_hash_request_stamped_entry)
      (auto simp: hash_run_args_def timed_run_args_def)
  with assms(3) show ?thesis
    by (simp add: yielding_offloads_def yielding_offloads_axioms_def hash_run_args_def)
qed

lemma blocking_hash_stamped_contract:
  assumes "env_ok hw" and "test_ok hw complete" and "hash_run_args K n args" and "timed_run_args K n args"
  shows "blocking_offloads K n (replicate n (blocking_decompress_and_hash_request_stamped hw)) args (\<lambda>i. [i])"
proof -
  have "blocking_requests K n (replicate n (blocking_decompress_and_hash_request_stamped hw)) args (\<lambda>i. [i])"
    using assms by (intro blocking_contract [where complete = complete and hw = hw]
        blocking_decompress_and_hash_request_stamped_run) (auto simp: hash_run_args_def timed_run_args_def)
  with assms(3) show ?thesis
    by (simp add: blocking_offloads_def blocking_offloads_axioms_def hash_run_args_def)
qed

lemma yielding_router_contract:
  assumes "env_ok hw" and "test_ok hw complete" and "\<And>k. \<not> busy hw k" and "router_run_args K n args"
  shows "yielding_offloads hw K n complete (replicate n (yielding_router_request hw)) args"
proof -
  have "yielding_requests hw K n complete (replicate n (yielding_router_request hw)) args"
    using assms by (intro yielding_contract yielding_router_request_entry)
      (auto simp: router_run_args_def)
  with assms(4) show ?thesis
    by (simp add: yielding_offloads_def yielding_offloads_axioms_def router_run_args_def)
qed

lemma blocking_router_contract:
  assumes "env_ok hw" and "test_ok hw complete" and "\<And>k. \<not> busy hw k" and "router_run_args K n args"
  shows "blocking_offloads K n (replicate n (blocking_router_request hw)) args (\<lambda>i. [i])"
proof -
  have "blocking_requests K n (replicate n (blocking_router_request hw)) args (\<lambda>i. [i])"
    using assms by (intro blocking_contract [where complete = complete and hw = hw]
        blocking_router_request_run) (auto simp: router_run_args_def)
  with assms(4) show ?thesis
    by (simp add: blocking_offloads_def blocking_offloads_axioms_def router_run_args_def)
qed

lemma core_hash_contract:
  assumes "env_ok hw" and "inflate_ok hw" and "0 < n" and "n < 2 ^ 31" and "length args = n"
    and "\<forall>i < n. core_hash_inputs hw K (args ! i) \<and> core_timed_args K n i (args ! i)"
  shows "core_requests K n (replicate n (cpu_decompress_and_hash_stamped hw)) args"
proof -
  have "blocking_requests K n (replicate n (cpu_decompress_and_hash_stamped hw)) args (\<lambda>_. [])"
    using assms by (intro core_contract [where hw = hw] cpu_decompress_and_hash_stamped_fin) auto
  with assms(3-5) show ?thesis by (simp add: core_requests_def core_requests_axioms_def)
qed

text \<open>The tests of the executors accept what the device and the emulated accelerator write.\<close>

lemma test_ok_completed: "(\<And>d. verdict hw d = COMP_STATUS_COMPLETED) \<Longrightarrow> test_ok hw is_completed"
  by (auto simp: test_ok_def is_completed_def verdict_of_def COMP_STATUS_PENDING_def
      COMP_STATUS_COMPLETED_def split: work.splits)

section \<open>Concrete arguments\<close>

definition sample_arg :: "nat \<Rightarrow> offload_args" where
  "sample_arg i = \<lparr>a_self = 0, a_comp = i, a_desc = 10 + i, a_aecs = 0, a_id = i, a_src_payload = 20 + i,
    a_src_size = 8, a_dst_size = 29, a_dst_payload = 30 + i, a_aux_payload = 40, a_aux_size = 0,
    a_pre_proc_input = 0, a_pre_proc_output = 0, a_pre_proc_input_size = 0, a_ax_func_output = 0,
    a_ax_func_input_size = 0, a_max_axfunc_output_size = 0, a_post_proc_output = 0,
    a_post_proc_input_size = 0, a_max_post_proc_output_size = 0,
    a_ts0 = 1, a_ts1 = 2, a_ts2 = 3, a_ts3 = 4, a_ts4 = 5\<rparr>"

definition sample_args :: "nat \<Rightarrow> offload_args list" where
  "sample_args n = map sample_arg [0..<n]"

lemma sample_ready: "ready_world (shape (sample_world n)) n 0 (sample_world n)"
  by (simp add: ready_world_def sample_world_def)

lemma sample_hash_args: "0 < n \<Longrightarrow> n \<le> 10 \<Longrightarrow> hash_run_args (shape (sample_world n)) n (sample_args n)"
  by (auto simp: hash_run_args_def sample_args_def slot_args_def sample_arg_def sample_kinds buffer_of_def)

lemma sample_timed_args: "timed_run_args (shape (sample_world n)) n (sample_args n)"
  by (simp add: timed_run_args_def timed_args_def sample_args_def sample_arg_def sample_kinds)

lemma sample_router_args: "0 < n \<Longrightarrow> n \<le> 10 \<Longrightarrow> router_run_args (shape (sample_world n)) n (sample_args n)"
  by (auto simp: router_run_args_def sample_args_def slot_args_def sample_arg_def sample_kinds
      buffer_of_def query_size_def)

definition sample_core_arg :: "nat \<Rightarrow> gpcore_args" where
  "sample_core_arg i = \<lparr>g_self = 0, g_inputs = [20 + i, 30 + i, 50 + i], g_id = i, g_ts0 = 1, g_ts1 = 2, g_ts2 = 3\<rparr>"

lemma sample_core_args:
  assumes "n \<le> 10" and "i < n"
  shows "core_hash_inputs sample_env (shape (sample_world n)) (map sample_core_arg [0..<n] ! i) \<and>
    core_timed_args (shape (sample_world n)) n i (map sample_core_arg [0..<n] ! i)"
  using assms by (simp add: core_hash_inputs_def core_timed_args_def sample_core_arg_def sample_kinds
      buffer_of_def) (simp add: sample_env_def)

lemma sample_arrays:
  assumes "0 < n"
  shows "two_phase_arrays (shape (sample_world n)) n (hd (sample_args n)) 6 7 8 1"
proof -
  have "hd (sample_args n) = sample_arg 0" using assms by (simp add: sample_args_def hd_map)
  then show ?thesis by (simp add: two_phase_arrays_def sample_arg_def sample_kinds)
qed

lemma sample_completed: "\<forall>d. verdict sample_env d = COMP_STATUS_COMPLETED"
  by (simp add: sample_env_completed)

section \<open>Runs\<close>

text \<open>The setting of a decompress-and-hash run; it gives the contracts of the executors.\<close>

locale hash_run =
  fixes hw :: env and K :: shape and n :: nat and args :: "offload_args list"
  assumes hash_env: "env_ok hw" and device_completes: "\<forall>d. verdict hw d = COMP_STATUS_COMPLETED"
    and run_args: "hash_run_args K n args"

sublocale hash_run \<subseteq> yielding: yielding_offloads hw K n is_completed
  "replicate n (yielding_decompress_and_hash_request hw)" args
  using hash_env device_completes run_args by (intro yielding_hash_contract test_ok_completed) auto

locale timed_hash_run = hash_run +
  assumes run_timed: "timed_run_args K n args"

sublocale timed_hash_run \<subseteq> stamped: yielding_offloads hw K n is_completed
  "replicate n (yielding_decompress_and_hash_request_stamped hw)" args
  using hash_env device_completes run_args run_timed
  by (intro yielding_hash_stamped_contract test_ok_completed) auto

sublocale timed_hash_run \<subseteq> blocking: blocking_offloads K n
  "replicate n (blocking_decompress_and_hash_request_stamped hw)" args "\<lambda>i. [i]"
  using hash_env device_completes run_args run_timed
  by (intro blocking_hash_stamped_contract [where hw = hw and complete = is_completed] test_ok_completed) auto

locale router_run =
  fixes hw :: env and K :: shape and n :: nat and args :: "offload_args list"
  assumes router_env: "env_ok hw" and router_completes: "\<forall>d. verdict hw d = COMP_STATUS_COMPLETED"
    and room: "\<forall>k. \<not> busy hw k" and router_args: "router_run_args K n args"

sublocale router_run \<subseteq> yielding: yielding_offloads hw K n is_completed
  "replicate n (yielding_router_request hw)" args
  using router_env router_completes router_args room
  by (intro yielding_router_contract test_ok_completed) auto

sublocale router_run \<subseteq> blocking: blocking_offloads K n
  "replicate n (blocking_router_request hw)" args "\<lambda>i. [i]"
  using router_env router_completes router_args room
  by (intro blocking_router_contract [where hw = hw and complete = is_completed] test_ok_completed) auto

locale core_hash_run =
  fixes hw :: env and K :: shape and n :: nat and args :: "gpcore_args list"
  assumes core_env: "env_ok hw" and core_inflate: "inflate_ok hw" and some: "0 < n" "n < 2 ^ 31"
    and core_args: "length args = n" "\<forall>i < n. core_hash_inputs hw K (args ! i) \<and> core_timed_args K n i (args ! i)"

sublocale core_hash_run \<subseteq> core: core_requests K n "replicate n (cpu_decompress_and_hash_stamped hw)" args
  using core_env core_inflate some core_args by (intro core_hash_contract) auto

text \<open>What the executors guarantee in these settings.\<close>

context hash_run
begin

lemmas sampling_run = yielding.yielding_with_sampling [OF refl]
lemmas best_case_run = yielding.best_case [OF refl]

end

context timed_hash_run
begin

lemmas stamped_run = stamped.yielding_breakdown [OF refl]
lemmas blocking_run = blocking.breakdown_sampled
lemmas blocking_oob = blocking.timed_run_oob

end

context router_run
begin

lemmas sampling_run = yielding.yielding_with_sampling [OF refl]
lemmas blocking_run = blocking.with_sampling

end

context core_hash_run
begin

lemmas core_run = core.breakdown

end

interpretation hash3: timed_hash_run sample_env "shape (sample_world 3)" 3 "sample_args 3"
  using sample_env_ok sample_completed sample_hash_args [of 3] sample_timed_args [of 3]
  by unfold_locales simp_all

interpretation core3: core_hash_run sample_env "shape (sample_world 3)" 3 "map sample_core_arg [0..<3]"
  using sample_env_ok sample_inflate_ok sample_core_args [of 3] by unfold_locales simp_all

interpretation router3: router_run sample_ax "shape (sample_world 3)" 3 "sample_args 3"
  using sample_ax_ok sample_router_args [of 3] by unfold_locales simp_all

end
