(* ===== verification/Hash_Properties.thy ===== *)
theory Hash_Properties
  imports Hash_Runs
begin

text \<open>
  Properties of whole runs: the hash requests of \<open>Requests_Hash\<close> under the executors of
  \<open>Executors\<close>, for every environment that meets \<open>env_ok\<close>, every number of requests and every
  argument array that the allocators can build.
\<close>

section \<open>Yielding runs\<close>

text \<open>C2: The yielding executor with sampling serves every decompress-and-hash request: it
  returns, each descriptor is submitted exactly once and in the order of the requests, all requests
  are counted, no sample is taken outside of the sampling array, and no block is allocated, freed or
  resized, whatever the latencies, the order of completions and the number of queue retries are.\<close>

theorem hash_yielding_sampling_run:
  assumes "env_ok hw" and "\<forall>d. verdict hw d = COMP_STATUS_COMPLETED" and "hash_run_args K n args"
    and "ready_world K n 0 w" and "0 < q" and "length stamps = Suc (n div q)" and "length xfers = n"
    and "blocks K ex = Some (KWords len)" and "idx + n div q \<le> len"
  shows "\<exists>w'. execute_yielding_requests_closed_system_with_sampling hw (int q) (int n) stamps args xfers
      (replicate n (yielding_decompress_and_hash_request hw)) ex (int idx) w = Some (Done w' ()) \<and>
    all_served K n 0 w w'"
proof -
  have "hash_run hw K n args" using assms(1-3) by unfold_locales
  from hash_run.sampling_run [OF this assms(4-9)] show ?thesis .
qed

lemma hash_yielding_sampling_run_witness:
  "\<exists>w'. execute_yielding_requests_closed_system_with_sampling sample_env 2 3 [None, None] (sample_args 3)
      [None, None, None] (replicate 3 (yielding_decompress_and_hash_request sample_env)) 6 1 (sample_world 3) =
      Some (Done w' ()) \<and> all_served (shape (sample_world 3)) 3 0 (sample_world 3) w'"
  using hash_yielding_sampling_run [OF sample_env_ok sample_completed sample_hash_args sample_ready,
    of 3 2 "[None, None]" "[None, None, None]" 6 2 1]
  by (simp add: sample_kinds)

text \<open>The request breakdown of the stamped yielding requests serves every request, and the
  averages of the time stamp differences are written inside the result arrays.\<close>

theorem hash_yielding_breakdown_run:
  assumes "env_ok hw" and "\<forall>d. verdict hw d = COMP_STATUS_COMPLETED" and "hash_run_args K n args"
    and "timed_run_args K n args" and "ready_world K n 0 w" and "length xfers = n"
    and "two_phase_arrays K n (hd args) off wt hash idx"
  shows "\<exists>w'. execute_yielding_requests_closed_system_request_breakdown hw (int n) args xfers
      (replicate n (yielding_decompress_and_hash_request_stamped hw)) off wt hash (int idx) w =
      Some (Done w' ()) \<and> all_served K n 0 w w'"
proof -
  have "timed_hash_run hw K n args"
    using assms(1-4) by (simp add: timed_hash_run_def hash_run_def timed_hash_run_axioms_def)
  from timed_hash_run.stamped_run [OF this assms(5-7)] show ?thesis .
qed

lemma hash_yielding_breakdown_run_witness:
  "\<exists>w'. execute_yielding_requests_closed_system_request_breakdown sample_env 3 (sample_args 3)
      [None, None, None] (replicate 3 (yielding_decompress_and_hash_request_stamped sample_env)) 6 7 8 1
      (sample_world 3) = Some (Done w' ()) \<and> all_served (shape (sample_world 3)) 3 0 (sample_world 3) w'"
  using hash_yielding_breakdown_run [OF sample_env_ok sample_completed sample_hash_args sample_timed_args
    sample_ready _ sample_arrays, of 3 "[None, None, None]"] by simp

text \<open>The best case executor, which waits for each request before it starts the next one,
  serves every request.\<close>

theorem hash_best_case_run:
  assumes "env_ok hw" and "\<forall>d. verdict hw d = COMP_STATUS_COMPLETED" and "hash_run_args K n args"
    and "ready_world K n 0 w" and "length xfers = n" and "two_phase_arrays K n (hd args) off wt hash idx"
  shows "\<exists>w'. execute_yielding_requests_best_case hw (int n) args xfers
      (replicate n (yielding_decompress_and_hash_request hw)) off wt hash (int idx) w =
      Some (Done w' ()) \<and> all_served K n 0 w w'"
proof -
  have "hash_run hw K n args" using assms(1-3) by unfold_locales
  from hash_run.best_case_run [OF this assms(4-6)] show ?thesis .
qed

lemma hash_best_case_run_witness:
  "\<exists>w'. execute_yielding_requests_best_case sample_env 3 (sample_args 3) [None, None, None]
      (replicate 3 (yielding_decompress_and_hash_request sample_env)) 6 7 8 1 (sample_world 3) =
      Some (Done w' ()) \<and> all_served (shape (sample_world 3)) 3 0 (sample_world 3) w'"
  using hash_best_case_run [OF sample_env_ok sample_completed sample_hash_args
    sample_ready _ sample_arrays, of 3 "[None, None, None]"] by simp

section \<open>Blocking runs\<close>

text \<open>The blocking executor serves every stamped decompress-and-hash request when the sampling
  array has room for two time stamps.\<close>

theorem hash_blocking_run:
  assumes "env_ok hw" and "\<forall>d. verdict hw d = COMP_STATUS_COMPLETED" and "hash_run_args K n args"
    and "timed_run_args K n args" and "callable K n 0 w" and "1 < length stamps"
    and "two_phase_arrays K n (hd args) off wt hash idx"
  shows "\<exists>w'. execute_blocking_requests_closed_system_request_breakdown_sampled hw (int n) stamps args
      (replicate n (blocking_decompress_and_hash_request_stamped hw)) off wt hash (int idx) w =
      Some (Done w' ()) \<and> all_served K n 0 w w'"
proof -
  have "timed_hash_run hw K n args"
    using assms(1-4) by (simp add: timed_hash_run_def hash_run_def timed_hash_run_axioms_def)
  from timed_hash_run.blocking_run [OF this assms(5-7)] show ?thesis
    by (simp add: served_all concat_map_singleton)
qed

lemma hash_blocking_run_witness:
  "\<exists>w'. execute_blocking_requests_closed_system_request_breakdown_sampled sample_env 3 [None, None]
      (sample_args 3) (replicate 3 (blocking_decompress_and_hash_request_stamped sample_env)) 6 7 8 1
      (sample_world 3) = Some (Done w' ()) \<and> all_served (shape (sample_world 3)) 3 0 (sample_world 3) w'"
  using hash_blocking_run [OF sample_env_ok sample_completed sample_hash_args sample_timed_args
    ready_callable [OF sample_ready] _ sample_arrays, of 3 "[None, None]"] by simp

text \<open>The harness gives the sampling array total / interval + 1 slots.  When the interval is
  larger than the number of requests there is one slot, and the executor of blocking requests
  writes its second time stamp outside of the array after it has served every request.\<close>

theorem blocking_sampling_out_of_bounds:
  assumes "env_ok hw" and "\<forall>d. verdict hw d = COMP_STATUS_COMPLETED" and "hash_run_args K n args"
    and "timed_run_args K n args" and "callable K n 0 w" and "n < q" and "length stamps = n div q + 1"
  shows "execute_blocking_requests_closed_system_request_breakdown_sampled hw (int n) stamps args
      (replicate n (blocking_decompress_and_hash_request_stamped hw)) off wt hash idx w = None"
proof -
  have "timed_hash_run hw K n args"
    using assms(1-4) by (simp add: timed_hash_run_def hash_run_def timed_hash_run_axioms_def)
  moreover have "length stamps \<le> 1" using assms(6,7) by simp
  ultimately show ?thesis
    using timed_hash_run.blocking_oob [OF _ assms(5)]
    by (simp add: execute_blocking_requests_closed_system_request_breakdown_sampled_def)
qed

lemma blocking_sampling_out_of_bounds_witness:
  "execute_blocking_requests_closed_system_request_breakdown_sampled sample_env 3 [None] (sample_args 3)
      (replicate 3 (blocking_decompress_and_hash_request_stamped sample_env)) 6 7 8 1 (sample_world 3) = None"
  using blocking_sampling_out_of_bounds [OF sample_env_ok sample_completed sample_hash_args
    sample_timed_args ready_callable [OF sample_ready], of 3 10 "[None]"] by simp

section \<open>Router and core runs\<close>

text \<open>The yielding executor serves every router request while the emulated accelerator has
  room.\<close>

theorem router_yielding_run:
  assumes "env_ok hw" and "\<forall>d. verdict hw d = COMP_STATUS_COMPLETED" and "\<forall>k. \<not> busy hw k"
    and "router_run_args K n args" and "ready_world K n 0 w" and "0 < q"
    and "length stamps = Suc (n div q)" and "length xfers = n"
    and "blocks K ex = Some (KWords len)" and "idx + n div q \<le> len"
  shows "\<exists>w'. execute_yielding_requests_closed_system_with_sampling hw (int q) (int n) stamps args xfers
      (replicate n (yielding_router_request hw)) ex (int idx) w = Some (Done w' ()) \<and>
    all_served K n 0 w w'"
proof -
  have "router_run hw K n args" using assms(1-4) by unfold_locales
  from router_run.sampling_run [OF this assms(5-10)] show ?thesis .
qed

lemma router_yielding_run_witness:
  "\<exists>w'. execute_yielding_requests_closed_system_with_sampling sample_ax 2 3 [None, None] (sample_args 3)
      [None, None, None] (replicate 3 (yielding_router_request sample_ax)) 6 1 (sample_world 3) =
      Some (Done w' ()) \<and> all_served (shape (sample_world 3)) 3 0 (sample_world 3) w'"
  using router_yielding_run [OF sample_ax_ok(1) _ _ sample_router_args sample_ready,
    of 3 2 "[None, None]" "[None, None, None]" 6 2 1] sample_ax_ok
  by (simp add: sample_kinds)



section \<open>Single requests\<close>

lemma wait_while_obs: "wait_while hw v i w = Some w' \<Longrightarrow> obs w' = obs w"
proof (rule wait_while.raw_induct [of "\<lambda>hw v i w w'. obs w' = obs w"])
  fix rec and hw :: env and v i w w'
  assume IH: "\<And>hw v i w w'. rec hw v i w = Some w' \<Longrightarrow> obs w' = obs w"
    and "Option.bind (read_status hw i w) (\<lambda>(s, w). if s = v then rec hw v i w else Some w) = Some w'"
  then obtain s w1 where "read_status hw i w = Some (s, w1)" "w1 = w' \<or> rec hw v i w1 = Some w'"
    by (auto simp: bind_eq_Some_conv split: if_splits prod.splits)
  with IH [of hw v i w1 w'] show "obs w' = obs w"
    by (auto simp: read_status_def Let_def world_simps split: if_splits)
qed

text \<open>Preparing and submitting the descriptor of a decompression.\<close>

lemma decompress_submitted:
  assumes "env_ok hw" and "i < length (crs w)" and "kinds w desc = Some KDesc"
  shows "\<exists>w1 w2 d. prepare_iaa_decompress_desc_with_preallocated_comp hw desc src dst i sz w = Some w1 \<and>
    blocking_iaa_submit hw desc w1 = Some w2 \<and> obs w2 = obs w @ [Submitted IAA d] \<and> shape w2 = shape w \<and>
    requests_completed w2 = requests_completed w \<and> in_flight_at i w2 \<and> i < length (crs w2) \<and>
    d_src_addr d = src \<and> d_dst_addr d = dst \<and> d_completion_addr d = i \<and>
    d_xfer_size d = of_nat sz \<and> d_opcode d = opcode_decompress hw"
proof -
  define d where "d = zero_desc\<lparr>d_flags := 14, d_opcode := opcode_decompress hw,
    d_src_addr := src, d_dst_addr := dst, d_xfer_size := of_nat sz,
    d_completion_addr := i, d_compr_flags := 31, d_src2_addr := 0, d_src2_xfer_size := 0,
    d_max_dst_size := of_nat (iaa_compress_max_dest_size hw)\<rparr>"
  define w1 where "w1 = w\<lparr>crs := (crs w)[i := (crs w ! i)\<lparr>status := 0\<rparr>],
    heap := (heap w)(desc \<mapsto> Desc d)\<rparr>"
  have p: "prepare_iaa_decompress_desc_with_preallocated_comp hw desc src dst i sz w = Some w1"
    using assms(2,3) by (auto simp: prepare_iaa_decompress_desc_with_preallocated_comp_def memset_comp_def
        set_desc_def kinds_desc d_def w1_def)
  have k1: "shape w1 = shape w"
    using assms(3) by (auto simp: w1_def shape_eq_iff kinds_def)
  have w1: "heap w1 desc = Some (Desc d)" "d_completion_addr d = i" "i < length (crs w1)"
    using assms(2) by (simp_all add: w1_def d_def)
  obtain k where b: "blocking_submit hw IAA desc w1 = Some (w1\<lparr>enqs := Suc k,
       crs := (crs w1)[i := (crs w1 ! i)\<lparr>job := Some (Hw d, polls w1 + latency hw k)\<rparr>],
       obs := obs w1 @ [Submitted IAA d]\<rparr>)" (is "_ = Some ?w2")
    using blocking_submit_ok [OF assms(1) w1] by blast
  have "obs ?w2 = obs w @ [Submitted IAA d]" "requests_completed ?w2 = requests_completed w"
    by (simp_all add: w1_def)
  moreover have "in_flight_at i ?w2" "i < length (crs ?w2)" "shape ?w2 = shape w"
    using w1(3) k1 by (simp_all add: in_flight_at_def world_simps)
  moreover have "d_src_addr d = src" "d_dst_addr d = dst" "d_xfer_size d = of_nat sz"
    "d_opcode d = opcode_decompress hw" by (simp_all add: d_def)
  moreover have "blocking_iaa_submit hw desc w1 = Some ?w2" using b by (simp add: blocking_iaa_submit_def)
  ultimately show ?thesis
    using p w1(2) by (intro exI [of _ w1] exI [of _ ?w2] exI [of _ d]) blast
qed

text \<open>C24: One blocking decompress-and-hash request submits exactly one descriptor to the IAA, for
  its own source, destination, size and completion record, waits until it is completed, hashes
  the first dst_size bytes that are then in its destination, and counts itself once.\<close>

theorem blocking_hash_request_effect:
  assumes "env_ok hw" and "a_comp a < length (crs w)" and "kinds w (a_desc a) = Some KDesc"
    and "buffer_of (shape w) (a_dst_payload a) (a_dst_size a)"
  shows "\<exists>w' d bs h. blocking_decompress_and_hash_request hw a w = Some (Yield w' returns) \<and>
    obs w' = obs w @ [Submitted IAA d, Hashed h] \<and> requests_completed w' = requests_completed w + 1 \<and>
    shape w' = shape w \<and> completed_at (a_comp a) w' \<and>
    d_src_addr d = a_src_payload a \<and> d_dst_addr d = a_dst_payload a \<and> d_completion_addr d = a_comp a \<and>
    d_xfer_size d = of_nat (a_src_size a) \<and> d_opcode d = opcode_decompress hw \<and>
    get_bytes (a_dst_payload a) w' = Some bs \<and>
    furc_hash (Some (\<lambda>i. bs ! i)) (a_dst_size a) 16 (hash_garbage hw) = Some h"
proof -
  let ?i = "a_comp a"
  obtain w1 w2 d where s: "prepare_iaa_decompress_desc_with_preallocated_comp hw (a_desc a) (a_src_payload a)
      (a_dst_payload a) ?i (a_src_size a) w = Some w1" "blocking_iaa_submit hw (a_desc a) w1 = Some w2"
    "obs w2 = obs w @ [Submitted IAA d]" "shape w2 = shape w" "requests_completed w2 = requests_completed w"
    "in_flight_at ?i w2" "?i < length (crs w2)"
    and d: "d_src_addr d = a_src_payload a" "d_dst_addr d = a_dst_payload a" "d_completion_addr d = ?i"
      "d_xfer_size d = of_nat (a_src_size a)" "d_opcode d = opcode_decompress hw"
    using decompress_submitted [OF assms(1-3)] by blast
  obtain w3 where wt: "wait_while hw 0 ?i w2 = Some w3" "later hw w2 w3" "completed_at ?i w3"
    using wait_while_ok [OF assms(1) s(7,6)] by blast
  let ?w4 = "tick hw w3"
  have l: "later hw w2 ?w4" using wt(2) tick_later [OF assms(1)] later_trans by blast
  have len: "?i < length (crs w3)" using s(7) later_length [OF wt(2)] by simp
  have c: "check_status hw ?i w3 = Some ?w4" "completed_at ?i ?w4"
    using len later_completed [OF assms(1) tick_later [OF assms(1)] len wt(3)]
    by (simp_all add: check_status_def read_status_def Let_def world_simps)
  have k4: "shape ?w4 = shape w" using later_shape [OF l] s(4) by simp
  obtain bs where bs: "get_bytes (a_dst_payload a) ?w4 = Some bs" "a_dst_size a \<le> length bs"
    using assms(4) unfolding k4 [symmetric] by (auto simp: buffer_of_def kinds_bytes)
  obtain h where h: "furc_hash (Some (\<lambda>i. bs ! i)) (a_dst_size a) 16 (hash_garbage hw) = Some h"
    using furc_hash_env [OF assms(1)] by blast
  let ?w5 = "?w4\<lparr>obs := obs ?w4 @ [Hashed h]\<rparr>"
  have "blocking_decompress_and_hash_request hw a w = Some (Yield (count_request ?w5) returns)"
    using s(1,2) wt(1) c(1) bs h assms(1)
    by (simp add: blocking_decompress_and_hash_request_def env_ok_def hash_payload_def finish_request_def)
  moreover have "shape (count_request ?w5) = shape w" using k4 by (simp add: world_simps)
  moreover have "completed_at ?i (count_request ?w5)" using c(2) by (simp add: completed_at_def world_simps)
  ultimately show ?thesis
    using wait_while_obs [OF wt(1)] s(3,5) later_requests_completed [OF l] bs(1) h d
    by (intro exI [of _ "count_request ?w5"] exI [of _ d] exI [of _ bs] exI [of _ h])
      (simp add: world_simps get_bytes_def count_request_def)
qed

lemma blocking_hash_request_effect_witness:
  "\<exists>w' d bs h. blocking_decompress_and_hash_request sample_env (sample_arg 1) (sample_world 3) = Some (Yield w' returns) \<and>
    obs w' = [Submitted IAA d, Hashed h] \<and> get_bytes 31 w' = Some bs \<and>
    furc_hash (Some (\<lambda>i. bs ! i)) 29 16 (hash_garbage sample_env) = Some h"
proof -
  have "a_comp (sample_arg 1) < length (crs (sample_world 3))" "a_dst_payload (sample_arg 1) = 31"
    "a_dst_size (sample_arg 1) = 29" "obs (sample_world 3) = []"
    "kinds (sample_world 3) (a_desc (sample_arg 1)) = Some KDesc"
    "buffer_of (shape (sample_world 3)) (a_dst_payload (sample_arg 1)) (a_dst_size (sample_arg 1))"
    by (simp_all add: sample_arg_def sample_kinds buffer_of_def) (simp_all add: sample_world_def)
  with blocking_hash_request_effect [OF sample_env_ok, of "sample_arg 1" "sample_world 3"] show ?thesis by auto
qed

section \<open>Error paths\<close>

lemma enqs_tick [world_simps]: "enqs (tick hw w) = enqs w"
proof -
  have "enqs (device_finish hw i w) = enqs w" for i and w :: world
    by (simp add: device_finish_def Let_def run_work_def set_bytes_def split: option.splits work.splits)
  then have "enqs (fold (device_finish hw) is w) = enqs w" for "is" and w :: world
    by (induction "is" arbitrary: w) simp_all
  then show ?thesis by (simp add: tick_def)
qed

lemma tick_ready:
  assumes "env_ok hw" and "ready_world K n r0 w"
  shows "ready_world K n r0 (tick hw w)"
proof -
  note l = tick_later [OF assms(1), of w]
  have "crs (tick hw w) = replicate n idle_comp"
    using assms(2) later_length [OF l] later_idle [OF l]
    by (intro nth_equalityI) (simp_all add: ready_world_def)
  with assms(2) later_shape [OF l] later_requests_completed [OF l] show ?thesis by (simp add: ready_world_def)
qed

text \<open>C39: When the emulated accelerator refuses the first offload of a run, the request returns
  from the entry function of its fiber instead of switching back, and the fiber library ends the
  whole process: the executor never gets control back, no request is served, none is submitted.\<close>

theorem router_refusal_ends_process:
  assumes "env_ok hw" and "router_run_args K n args" and "ready_world K n 0 w" and "busy hw (enqs w)"
    and "length xfers = n"
  shows "\<exists>w'. execute_yielding_requests_closed_system_request_breakdown hw (int n) args xfers
      (replicate n (yielding_router_request hw)) off wt hash idx w = Some (Exited w') \<and>
    requests_completed w' = 0 \<and> submit_order w' = submit_order w"
proof -
  let ?w = "tick hw w"
  have n: "0 < n" "length args = n" "a_comp (args ! 0) = 0"
    using assms(2) by (auto simp: router_run_args_def slot_args_def)
  have r: "ready_world K n 0 ?w" by (rule tick_ready [OF assms(1,3)])
  have s: "read_status hw 0 w = Some (0, ?w)"
    using r n(1) by (simp add: read_status_def Let_def ready_world_def idle_comp_def)
  obtain w1 where w1: "submit_offload hw 0 (a_dst_payload (args ! 0)) ?w = Some (STATUS_FAIL, w1)"
    "requests_completed w1 = 0" "submit_order w1 = submit_order w"
    using r n(1) assms(3,4) later_submit_order [OF tick_later [OF assms(1), of w]]
    by (cases "crs w = []") (simp_all add: submit_offload_def memset_comp_def ready_world_def world_simps)
  have "start_fiber (replicate n (yielding_router_request hw)) args (int 0) ?w = Some (Exit w1)"
    unfolding start_fiber_replicate [OF n(1,2)] using n(3) w1(1)
    by (simp add: yielding_router_request_def)
  then have "yielding_loop hw (requests_left (int n)) is_completed no_sampling (int n)
      (replicate n (yielding_router_request hw)) args 0 0 xfers ([], 0) w = Some (Exited w1)"
    using assms(3) n(1) s
    by (subst yielding_loop.simps)
      (simp add: requests_left_def ready_world_def is_completed_def COMP_STATUS_COMPLETED_def)
  with w1 show ?thesis
    by (simp add: execute_yielding_requests_closed_system_request_breakdown_def)
qed

text \<open>A queue that is full at first.\<close>

definition refusing_env :: env where "refusing_env = sample_env\<lparr>busy := (\<lambda>k. k = 0)\<rparr>"

lemma refusing_env_ok: "env_ok refusing_env"
proof -
  have "\<exists>j \<ge> k. \<not> busy refusing_env j" for k
    by (rule exI [of _ "Suc k"]) (simp add: refusing_env_def)
  with sample_env_ok show ?thesis by (simp add: env_ok_def refusing_env_def)
qed

lemma router_refusal_ends_process_witness:
  "\<exists>w'. execute_yielding_requests_closed_system_request_breakdown refusing_env 3 (sample_args 3)
      [None, None, None] (replicate 3 (yielding_router_request refusing_env)) 6 7 8 0 (sample_world 3) =
      Some (Exited w') \<and> requests_completed w' = 0 \<and> submit_order w' = []"
  using router_refusal_ends_process [OF refusing_env_ok sample_router_args sample_ready, of 3 "[None, None, None]"]
  by (simp add: sample_world_def refusing_env_def)

text \<open>The records of a run on a device that never reports success.\<close>

definition stuck :: "shape \<Rightarrow> nat \<Rightarrow> world \<Rightarrow> bool" where
  "stuck K n w \<longleftrightarrow> shape w = K \<and> length (crs w) = n \<and> requests_completed w = 0 \<and>
    (\<forall>i < n. \<not> is_completed (status (crs w ! i)) \<and>
      (\<forall>x t. job (crs w ! i) = Some (x, t) \<longrightarrow> x \<noteq> Emulated))"

lemma stuck_later:
  assumes "\<forall>d. verdict hw d \<noteq> COMP_STATUS_COMPLETED" and "stuck K n w" and "later hw w w'"
  shows "stuck K n w'"
proof -
  have "\<not> is_completed (status (crs w' ! i)) \<and> (\<forall>x t. job (crs w' ! i) = Some (x, t) \<longrightarrow> x \<noteq> Emulated)"
    if "i < n" for i
  proof -
    have i: "\<not> is_completed (status (crs w ! i))" "job (crs w ! i) = Some (x, t) \<Longrightarrow> x \<noteq> Emulated" for x t
      using assms(2) that by (auto simp: stuck_def)
    have "comp_later hw (crs w ! i) (crs w' ! i)"
      using later_nth [OF assms(3)] assms(2) that by (simp add: stuck_def)
    then consider "crs w' ! i = crs w ! i"
      | x t where "job (crs w ! i) = Some (x, t)" "crs w' ! i = \<lparr>status = verdict_of hw x, job = None\<rparr>"
      by (auto simp: comp_later_def)
    then show ?thesis
    proof cases
      case 2
      with i(2) obtain d where "x = Hw d" by (cases x) auto
      with 2 assms(1) show ?thesis by (simp add: is_completed_def verdict_of_def)
    qed (use i in auto)
  qed
  with assms(2) later_shape [OF assms(3)] later_length [OF assms(3)] later_requests_completed [OF assms(3)]
  show ?thesis by (simp add: stuck_def)
qed

lemma hash_request_starts_stuck:
  assumes "env_ok hw" and "stuck K n w" and "slot_args n i a" and "blocks K (a_desc a) = Some KDesc"
  shows "\<exists>w' k. yielding_decompress_and_hash_request hw a w = Some (Yield w' k) \<and> stuck K n w'"
proof -
  have i: "kinds w (a_desc a) = Some KDesc" "i < length (crs w)" "a_comp a = i" "i < n"
    using assms(2-4) by (auto simp: stuck_def slot_args_def)
  obtain w1 d where p: "prepare_iaa_decompress_desc_with_preallocated_comp hw (a_desc a) (a_src_payload a)
      (a_dst_payload a) i (a_src_size a) w = Some w1" "prepared i (a_desc a) d w w1"
    using prepare_ok(1) [OF i(1,2)] by blast
  then have d: "heap w1 (a_desc a) = Some (Desc d)" "d_completion_addr d = i" "i < length (crs w1)"
    using i(2) by (simp_all add: prepared_def)
  obtain k where "blocking_submit hw IAA (a_desc a) w1 = Some (w1\<lparr>enqs := Suc k,
       crs := (crs w1)[i := (crs w1 ! i)\<lparr>job := Some (Hw d, polls w1 + latency hw k)\<rparr>],
       obs := obs w1 @ [Submitted IAA d]\<rparr>)" (is "_ = Some ?w2")
    using blocking_submit_ok [OF assms(1) d] by blast
  moreover have "stuck K n ?w2"
    using assms(2) p(2) i(2)
    by (auto simp: stuck_def prepared_def world_simps nth_list_update is_completed_def COMP_STATUS_COMPLETED_def)
  ultimately show ?thesis using p(1) i(3)
    by (simp add: yielding_decompress_and_hash_request_def blocking_iaa_submit_def)
qed

lemma stuck_loop:
  assumes hw: "env_ok hw" "\<forall>d. verdict hw d \<noteq> COMP_STATUS_COMPLETED" and args: "hash_run_args K n args"
    and "stuck K n w"
  shows "yielding_loop hw (requests_left (int n)) is_completed sample (int n)
      (replicate n (yielding_decompress_and_hash_request hw)) args s 0 xfers smp w = None"
proof (rule ccontr)
  define P where "P = (\<lambda>h (again :: nat \<Rightarrow> world \<Rightarrow> bool) complete (sm :: world \<Rightarrow> sampling \<Rightarrow> (world \<times> sampling) option)
      (total :: int) ctxs as (s :: nat) (c :: nat) (xs :: fiber option list) (smp :: sampling) w (r :: sampling outcome).
    h = hw \<and> again = requests_left (int n) \<and> complete = is_completed \<and> total = int n \<and>
    ctxs = replicate n (yielding_decompress_and_hash_request hw) \<and> as = args \<and> c = 0 \<and> stuck K n w \<longrightarrow> False)"
  assume "\<not> ?thesis"
  then obtain r where r: "yielding_loop hw (requests_left (int n)) is_completed sample (int n)
      (replicate n (yielding_decompress_and_hash_request hw)) args s 0 xfers smp w = Some r" by blast
  have "P hw (requests_left (int n)) is_completed sample (int n)
      (replicate n (yielding_decompress_and_hash_request hw)) args s 0 xfers smp w r"
  proof (rule yielding_loop.raw_induct [where P = P, OF _ r])
    fix rec and h :: env and again :: "nat \<Rightarrow> world \<Rightarrow> bool" and complete sm and total :: int
      and ctxs and as :: "offload_args list" and s c xs and smp :: sampling and w r
    assume IH: "\<And>h again complete sm total ctxs as s c xs smp w r.
        rec h again complete sm total ctxs as s c xs smp w = Some r \<Longrightarrow>
        P h again complete sm total ctxs as s c xs smp w r"
      and step: "(if again c w then
       Option.bind (read_status h c w) (\<lambda>(st, w).
         if complete st then
           Option.bind (resume_fiber xs (int c) 0 w) (\<lambda>r.
             case r of
               Exit w \<Rightarrow> Some (Exited w)
             | Yield w _ \<Rightarrow>
                 Option.bind (sm w smp) (\<lambda>(w, smp).
                   rec h again complete sm total ctxs as s (Suc c) xs smp w))
         else if int s < total then
           Option.bind (start_fiber ctxs as (int s) w) (\<lambda>r.
             case r of
               Exit w \<Rightarrow> Some (Exited w)
             | Yield w k \<Rightarrow>
                 Option.bind (arr_set xs (int s) (Some k)) (\<lambda>xs.
                   rec h again complete sm total ctxs as (Suc s) c xs smp w))
         else rec h again complete sm total ctxs as s c xs smp w)
     else Some (Done w smp)) = Some r"
    show "P h again complete sm total ctxs as s c xs smp w r"
      unfolding P_def
    proof (intro impI, elim conjE)
      assume eqs: "h = hw" "again = requests_left (int n)" "complete = is_completed" "total = int n"
        "ctxs = replicate n (yielding_decompress_and_hash_request hw)" "as = args" "c = 0"
        and st: "stuck K n w"
    have n: "0 < n" "length args = n" using args by (simp_all add: hash_run_args_def)
    let ?w = "tick hw w"
    have st1: "stuck K n ?w" by (rule stuck_later [OF hw(2) st tick_later [OF hw(1)]])
    have rd: "read_status hw 0 w = Some (status (crs ?w ! 0), ?w)" "\<not> is_completed (status (crs ?w ! 0))"
      using st1 n(1) by (auto simp: read_status_def Let_def stuck_def)
    have more: "again 0 w" using st n(1) by (simp add: eqs requests_left_def stuck_def)
    show False
    proof (cases "s < n")
      case True
      then have a: "slot_args n s (args ! s)" "blocks K (a_desc (args ! s)) = Some KDesc"
        using args by (simp_all add: hash_run_args_def)
      obtain w2 k where w2: "yielding_decompress_and_hash_request hw (args ! s) ?w = Some (Yield w2 k)"
        "stuck K n w2" using hash_request_starts_stuck [OF hw(1) st1 a] by blast
      then have "start_fiber ctxs as (int s) ?w = Some (Yield w2 k)"
        by (simp only: eqs start_fiber_replicate [OF True n(2)])
      with step more rd True obtain xs' where
        "rec h again complete sm total ctxs as (Suc s) 0 xs' smp w2 = Some r"
        by (auto simp: eqs bind_eq_Some_conv)
      from IH [OF this] eqs w2(2) show False by (simp add: P_def)
    next
      case False
      with step more rd have "rec h again complete sm total ctxs as s 0 xs smp ?w = Some r"
        by (simp add: eqs)
      from IH [OF this] eqs st1 show False by (simp add: P_def)
    qed
  qed
  qed
  with assms(4) show False by (simp add: P_def)
qed


definition failing_env :: env where "failing_env = sample_env\<lparr>verdict := (\<lambda>_. 0x13)\<rparr>"


end
