(* ===== verification/Emul_Ax.thy ===== *)
theory Emul_Ax
  imports Offload_Ops
begin

text \<open>
  The emulated accelerator: the thread \<open>nonblocking_emul_ax\<close> (\<open>src/emul_ax.cpp\<close>), the caller's side
  \<open>submit_offload\<close> (\<open>src/offload.cpp\<close>), and the atomic variables over which the two talk.  Each step
  of the relation is one access to shared memory by one of the threads, so every interleaving of
  the two is a path of the relation.  The ghost fields record what was accepted, completed, and
  answered; no step reads them.
\<close>

section \<open>State\<close>

definition SUBMIT_SUCCESS :: int where "SUBMIT_SUCCESS = 0"
definition SUBMIT_FAIL :: int where "SUBMIT_FAIL = 1"
definition OFFLOAD_RECEIVED :: int where "OFFLOAD_RECEIVED = 1"
definition OFFLOAD_REQUESTED :: int where "OFFLOAD_REQUESTED = 0"

record offload_entry =
  start_time :: u64
  comp_time :: u64
  e_comp :: nat

text \<open>\<open>ax_params\<close>, the log settings, and the values that \<open>sampleCoderdtsc\<close> returns.\<close>

record ax_params =
  max_inflights :: int
  p_offload_time :: u64
  gDebugParam :: bool
  log_monitor :: bool
  clock :: "nat \<Rightarrow> u64"

text \<open>Where the accelerator thread is: before its first store, at the top of its loop, before the
  load of \<open>submit_flag\<close>, with a request to decide, about to load \<open>compl_addr\<close>, about to acknowledge,
  about to enqueue, about to acknowledge a refusal, or out of its loop.\<close>

datatype ax_pc = AxStart | AxTop | AxPoll | AxDecide u64 | AxLoad u64 | AxAck u64 nat | AxPush u64 nat
  | AxRefuse | AxStopped

text \<open>Where the caller is in \<open>submit_offload\<close>: outside, before each of its stores, in the waiting
  loop, or before its load of \<open>submit_status\<close>.\<close>

datatype sub_pc = SubIdle | SubStatus | SubAddr | SubFlag | SubBuf | SubWait | SubCheck

record ax_state =
  submit_flag :: int
  submit_status :: int
  compl_addr :: nat
  p_dst_buf :: nat
  total_offloads :: u64
  cr_status :: "nat \<Rightarrow> u8"
  keep_running :: bool
  clock_reads :: nat
  axpc :: ax_pc
  offload_in_flight :: bool
  offload_in_flight_list :: "offload_entry list"
  next_offload_completion_time :: u64
  in_flight :: int
  totalOffloads :: u64
  offloadDurationSum :: u64
  rejected_offloads :: u64
  subpc :: sub_pc
  sub_comp :: nat
  sub_dst :: nat
  retries_remaining :: int
  ghost_accepted :: "nat list"
  ghost_completions :: "(offload_entry \<times> u64) list"
  ghost_results :: "(nat \<times> int) list"
  ghost_refused :: nat

text \<open>The C++ atomics are zero when the program starts.\<close>

definition ax_init :: ax_state where
  "ax_init = \<lparr>submit_flag = 0, submit_status = 0, compl_addr = 0, p_dst_buf = 0, total_offloads = 0,
    cr_status = (\<lambda>_. 0), keep_running = True, clock_reads = 0, axpc = AxStart,
    offload_in_flight = False, offload_in_flight_list = [], next_offload_completion_time = - 1,
    in_flight = 0, totalOffloads = 0, offloadDurationSum = 0, rejected_offloads = 0,
    subpc = SubIdle, sub_comp = 0, sub_dst = 0, retries_remaining = 0, ghost_accepted = [],
    ghost_completions = [], ghost_results = [], ghost_refused = 0\<rparr>"

section \<open>The accelerator thread\<close>

definition ax_start :: "ax_params \<Rightarrow> ax_state \<Rightarrow> ax_state" where
  "ax_start p c = c\<lparr>total_offloads := (if log_monitor p then 0 else total_offloads c),
    submit_flag := OFFLOAD_RECEIVED, axpc := AxTop\<rparr>"

text \<open>The first block of the loop: when the time of the oldest offload is up, complete it.\<close>

definition ax_complete :: "ax_params \<Rightarrow> ax_state \<Rightarrow> ax_state" where
  "ax_complete p c =
    (if offload_in_flight c then
       let cur_time = clock p (clock_reads c);
           c = c\<lparr>clock_reads := Suc (clock_reads c)\<rparr> in
       if next_offload_completion_time c \<le> cur_time then
         (case offload_in_flight_list c of
            [] \<Rightarrow> c
          | e # es \<Rightarrow>
              c\<lparr>cr_status := (cr_status c)(e_comp e := COMP_STATUS_COMPLETED),
                in_flight := in_flight c - 1,
                offloadDurationSum := (if gDebugParam p
                  then offloadDurationSum c + (cur_time - start_time e) else offloadDurationSum c),
                offload_in_flight_list := es,
                offload_in_flight := (es \<noteq> []),
                next_offload_completion_time := (case es of [] \<Rightarrow> next_offload_completion_time c
                  | e' # _ \<Rightarrow> comp_time e'),
                ghost_completions := ghost_completions c @ [(e, cur_time)]\<rparr>)
       else c
     else c)"

text \<open>The acceptance of an offload, after the acknowledgement.\<close>

definition ax_push :: "ax_params \<Rightarrow> u64 \<Rightarrow> nat \<Rightarrow> ax_state \<Rightarrow> ax_state" where
  "ax_push p t a c =
    (let new_ent = \<lparr>start_time = t, comp_time = t + p_offload_time p, e_comp = a\<rparr>;
         l = offload_in_flight_list c @ [new_ent] in
     c\<lparr>offload_in_flight_list := l,
       in_flight := in_flight c + 1,
       offload_in_flight := True,
       next_offload_completion_time := (if length l = 1 then comp_time new_ent
         else next_offload_completion_time c),
       totalOffloads := totalOffloads c + 1,
       total_offloads := (if log_monitor p then total_offloads c + 1 else total_offloads c),
       ghost_accepted := ghost_accepted c @ [a]\<rparr>)"

fun nonblocking_emul_ax :: "ax_pc \<Rightarrow> ax_params \<Rightarrow> ax_state \<Rightarrow> ax_state" where
  "nonblocking_emul_ax AxStart p c = ax_start p c"
| "nonblocking_emul_ax AxTop p c =
    (if keep_running c then (ax_complete p c)\<lparr>axpc := AxPoll\<rparr> else c\<lparr>axpc := AxStopped\<rparr>)"
| "nonblocking_emul_ax AxPoll p c =
    (if submit_flag c = OFFLOAD_REQUESTED
     then c\<lparr>clock_reads := Suc (clock_reads c), axpc := AxDecide (clock p (clock_reads c))\<rparr>
     else c\<lparr>axpc := AxTop\<rparr>)"
| "nonblocking_emul_ax (AxDecide t) p c =
    (if in_flight c < max_inflights p then c\<lparr>submit_status := SUBMIT_SUCCESS, axpc := AxLoad t\<rparr>
     else c\<lparr>submit_status := SUBMIT_FAIL, axpc := AxRefuse\<rparr>)"
| "nonblocking_emul_ax (AxLoad t) p c = c\<lparr>axpc := AxAck t (compl_addr c)\<rparr>"
| "nonblocking_emul_ax (AxAck t a) p c = c\<lparr>submit_flag := OFFLOAD_RECEIVED, axpc := AxPush t a\<rparr>"
| "nonblocking_emul_ax (AxPush t a) p c = (ax_push p t a c)\<lparr>axpc := AxTop\<rparr>"
| "nonblocking_emul_ax AxRefuse p c =
    c\<lparr>submit_flag := OFFLOAD_RECEIVED, rejected_offloads := rejected_offloads c + 1,
      ghost_refused := Suc (ghost_refused c), axpc := AxTop\<rparr>"
| "nonblocking_emul_ax AxStopped p c = c"

section \<open>The caller\<close>

definition submit_call :: "nat \<Rightarrow> nat \<Rightarrow> ax_state \<Rightarrow> ax_state" where
  "submit_call i dst c = c\<lparr>sub_comp := i, sub_dst := dst, retries_remaining := 3, subpc := SubStatus\<rparr>"

fun submit_offload_step :: "sub_pc \<Rightarrow> ax_state \<Rightarrow> ax_state" where
  "submit_offload_step SubIdle c = c"
| "submit_offload_step SubStatus c =
    c\<lparr>cr_status := (cr_status c)(sub_comp c := COMP_STATUS_PENDING), subpc := SubAddr\<rparr>"
| "submit_offload_step SubAddr c = c\<lparr>compl_addr := sub_comp c, subpc := SubFlag\<rparr>"
| "submit_offload_step SubFlag c = c\<lparr>submit_flag := OFFLOAD_REQUESTED, subpc := SubBuf\<rparr>"
| "submit_offload_step SubBuf c = c\<lparr>p_dst_buf := sub_dst c, subpc := SubWait\<rparr>"
| "submit_offload_step SubWait c =
    (if submit_flag c = OFFLOAD_REQUESTED then c else c\<lparr>subpc := SubCheck\<rparr>)"
| "submit_offload_step SubCheck c =
    (if submit_status c = SUBMIT_FAIL \<and> 0 < retries_remaining c
     then c\<lparr>retries_remaining := retries_remaining c - 1, subpc := SubWait\<rparr>
     else c\<lparr>subpc := SubIdle, ghost_results := ghost_results c @
       [(sub_comp c, if retries_remaining c = 0 then STATUS_FAIL else STATUS_SUCCESS)]\<rparr>)"

section \<open>Interleavings\<close>

inductive ax_step :: "ax_params \<Rightarrow> ax_state \<Rightarrow> ax_state \<Rightarrow> bool" for p where
  device: "ax_step p c (nonblocking_emul_ax (axpc c) p c)"
| caller: "ax_step p c (submit_offload_step (subpc c) c)"
| call: "subpc c = SubIdle \<Longrightarrow> ax_step p c (submit_call i dst c)"
| stop: "ax_step p c (c\<lparr>keep_running := False\<rparr>)"

inductive_cases ax_stepE: "ax_step p c c'"

inductive ax_run :: "ax_params \<Rightarrow> ax_state \<Rightarrow> ax_state \<Rightarrow> bool" for p where
  refl: "ax_run p c c"
| step: "ax_run p a b \<Longrightarrow> ax_step p b c \<Longrightarrow> ax_run p a c"

text \<open>The runs in which the accelerator thread is in its loop before anyone submits.\<close>

definition ax_reachable :: "ax_params \<Rightarrow> ax_state \<Rightarrow> bool" where
  "ax_reachable p c \<longleftrightarrow> ax_run p (ax_start p ax_init) c"

section \<open>Invariants\<close>

definition queue_inv :: "ax_params \<Rightarrow> ax_state \<Rightarrow> bool" where
  "queue_inv p c \<longleftrightarrow>
    in_flight c = int (length (offload_in_flight_list c)) \<and> in_flight c \<le> max_inflights p \<and>
    offload_in_flight c = (offload_in_flight_list c \<noteq> []) \<and>
    (offload_in_flight_list c \<noteq> [] \<longrightarrow>
      next_offload_completion_time c = comp_time (hd (offload_in_flight_list c))) \<and>
    (\<forall>t a. axpc c \<in> {AxLoad t, AxAck t a, AxPush t a} \<longrightarrow> in_flight c < max_inflights p) \<and>
    (\<forall>e \<in> set (offload_in_flight_list c). comp_time e = start_time e + p_offload_time p) \<and>
    (\<forall>(e, t) \<in> set (ghost_completions c). comp_time e = start_time e + p_offload_time p \<and> comp_time e \<le> t) \<and>
    ghost_accepted c = map (e_comp \<circ> fst) (ghost_completions c) @ map e_comp (offload_in_flight_list c)"

definition oks :: "ax_state \<Rightarrow> nat list" where
  "oks c = map fst (filter (\<lambda>(i, r). r = STATUS_SUCCESS) (ghost_results c))"

definition fails :: "ax_state \<Rightarrow> nat" where
  "fails c = length (filter (\<lambda>(i, r). r = STATUS_FAIL) (ghost_results c))"

definition answered :: "ax_state \<Rightarrow> bool" where
  "answered c \<longleftrightarrow> submit_flag c = OFFLOAD_RECEIVED \<and> subpc c \<in> {SubBuf, SubWait, SubCheck}"

text \<open>What is accepted, including an offload that is acknowledged but not yet enqueued.\<close>

definition taken :: "ax_state \<Rightarrow> nat list" where
  "taken c = ghost_accepted c @ (case axpc c of AxPush t a \<Rightarrow> [a] | _ \<Rightarrow> [])"

definition deciding :: "ax_pc \<Rightarrow> bool" where
  "deciding x \<longleftrightarrow> (case x of AxDecide t \<Rightarrow> True | AxLoad t \<Rightarrow> True | AxAck t a \<Rightarrow> True | AxRefuse \<Rightarrow> True | _ \<Rightarrow> False)"

definition protocol_inv :: "ax_state \<Rightarrow> bool" where
  "protocol_inv c \<longleftrightarrow>
    axpc c \<noteq> AxStart \<and> submit_status c \<in> {SUBMIT_SUCCESS, SUBMIT_FAIL} \<and>
    submit_flag c \<in> {OFFLOAD_RECEIVED, OFFLOAD_REQUESTED} \<and>
    (submit_flag c = OFFLOAD_REQUESTED \<longrightarrow> subpc c \<in> {SubBuf, SubWait}) \<and>
    (submit_flag c = OFFLOAD_REQUESTED \<or> subpc c \<in> {SubStatus, SubAddr, SubFlag, SubBuf} \<longrightarrow> retries_remaining c = 3) \<and>
    (submit_flag c = OFFLOAD_REQUESTED \<or> subpc c \<in> {SubFlag, SubBuf} \<longrightarrow> compl_addr c = sub_comp c) \<and>
    (answered c \<and> submit_status c = SUBMIT_SUCCESS \<longrightarrow> retries_remaining c = 3) \<and>
    0 \<le> retries_remaining c \<and>
    (deciding (axpc c) \<longrightarrow> submit_flag c = OFFLOAD_REQUESTED) \<and>
    (\<forall>t a. axpc c = AxLoad t \<or> axpc c = AxAck t a \<longrightarrow> submit_status c = SUBMIT_SUCCESS) \<and>
    (\<forall>t a. axpc c = AxAck t a \<longrightarrow> a = compl_addr c) \<and>
    (axpc c = AxRefuse \<longrightarrow> submit_status c = SUBMIT_FAIL) \<and>
    taken c = oks c @ (if answered c \<and> submit_status c = SUBMIT_SUCCESS then [sub_comp c] else []) \<and>
    ghost_refused c = fails c + (if answered c \<and> submit_status c = SUBMIT_FAIL then 1 else 0)"

lemmas ax_consts = SUBMIT_SUCCESS_def SUBMIT_FAIL_def OFFLOAD_RECEIVED_def OFFLOAD_REQUESTED_def
  STATUS_SUCCESS_def STATUS_FAIL_def

lemma ax_complete_frame [simp]:
  "axpc (ax_complete p c) = axpc c" "submit_flag (ax_complete p c) = submit_flag c"
  "submit_status (ax_complete p c) = submit_status c" "compl_addr (ax_complete p c) = compl_addr c"
  "subpc (ax_complete p c) = subpc c" "sub_comp (ax_complete p c) = sub_comp c"
  "retries_remaining (ax_complete p c) = retries_remaining c"
  "ghost_accepted (ax_complete p c) = ghost_accepted c" "ghost_results (ax_complete p c) = ghost_results c"
  "ghost_refused (ax_complete p c) = ghost_refused c"
  by (simp_all add: ax_complete_def Let_def split: list.splits)

lemma queue_inv_complete:
  assumes "queue_inv p c" and "axpc c = AxTop"
  shows "queue_inv p (ax_complete p c\<lparr>axpc := AxPoll\<rparr>)"
proof (cases "offload_in_flight_list c")
  case Nil
  with assms show ?thesis by (simp add: queue_inv_def ax_complete_def)
next
  case (Cons e es)
  with assms show ?thesis
    by (cases es) (auto simp: queue_inv_def ax_complete_def Let_def)
qed

lemma queue_inv_push:
  assumes "queue_inv p c" and "axpc c = AxPush t a"
  shows "queue_inv p (ax_push p t a c\<lparr>axpc := AxTop\<rparr>)"
proof (cases "offload_in_flight_list c")
  case Nil
  with assms show ?thesis by (simp add: queue_inv_def ax_push_def Let_def)
next
  case (Cons e es)
  with assms show ?thesis by (auto simp: queue_inv_def ax_push_def Let_def)
qed

lemma queue_inv_device:
  assumes "queue_inv p c"
  shows "queue_inv p (nonblocking_emul_ax (axpc c) p c)"
proof (cases "axpc c")
  case AxTop
  with assms show ?thesis by (simp add: queue_inv_complete) (simp add: queue_inv_def)
next
  case (AxPush t a)
  with assms show ?thesis by (simp add: queue_inv_push)
qed (use assms in \<open>simp_all add: queue_inv_def ax_start_def\<close>)

lemma queue_inv_caller: "queue_inv p c \<Longrightarrow> queue_inv p (submit_offload_step (subpc c) c)"
  by (cases "subpc c") (auto simp: queue_inv_def)

lemma queue_inv_step: "ax_step p c c' \<Longrightarrow> queue_inv p c \<Longrightarrow> queue_inv p c'"
proof (erule ax_stepE)
  fix i dst
  assume "queue_inv p c" "c' = submit_call i dst c"
  then show "queue_inv p c'" by (auto simp: submit_call_def queue_inv_def)
next
  assume "queue_inv p c" "c' = c\<lparr>keep_running := False\<rparr>"
  then show "queue_inv p c'" by (auto simp: queue_inv_def)
qed (simp_all add: queue_inv_device queue_inv_caller)

lemma protocol_inv_device: "protocol_inv c \<Longrightarrow> protocol_inv (nonblocking_emul_ax (axpc c) p c)"
  by (cases "axpc c")
    (auto simp: protocol_inv_def taken_def oks_def fails_def answered_def deciding_def ax_push_def Let_def
      ax_consts)

lemma protocol_inv_caller: "protocol_inv c \<Longrightarrow> protocol_inv (submit_offload_step (subpc c) c)"
  by (cases "subpc c")
    (auto simp: protocol_inv_def taken_def oks_def fails_def answered_def deciding_def ax_consts)

lemma protocol_inv_step: "ax_step p c c' \<Longrightarrow> protocol_inv c \<Longrightarrow> protocol_inv c'"
proof (erule ax_stepE)
  fix i dst
  assume "protocol_inv c" "c' = submit_call i dst c" "subpc c = SubIdle"
  then show "protocol_inv c'"
    by (auto simp: submit_call_def protocol_inv_def taken_def oks_def fails_def answered_def ax_consts)
next
  assume "protocol_inv c" "c' = c\<lparr>keep_running := False\<rparr>"
  then show "protocol_inv c'" by (simp add: protocol_inv_def taken_def oks_def fails_def answered_def)
qed (simp_all add: protocol_inv_device protocol_inv_caller)

lemma ax_reachable_inv:
  assumes "ax_reachable p c" and "0 \<le> max_inflights p"
  shows "queue_inv p c \<and> protocol_inv c"
proof -
  have "queue_inv p (ax_start p ax_init)" "protocol_inv (ax_start p ax_init)"
    using assms(2) by (simp_all add: queue_inv_def protocol_inv_def ax_start_def ax_init_def taken_def
        oks_def fails_def answered_def deciding_def ax_consts)
  with assms(1) show ?thesis
    unfolding ax_reachable_def
    by (induction rule: ax_run.induct) (auto intro: queue_inv_step protocol_inv_step)
qed

section \<open>Schedules\<close>

text \<open>One interleaving, as a list of who moves.\<close>

datatype ax_move = Device | Caller | Call nat nat

fun ax_exec :: "ax_params \<Rightarrow> ax_move list \<Rightarrow> ax_state \<Rightarrow> ax_state" where
  "ax_exec p [] c = c"
| "ax_exec p (Device # ms) c = ax_exec p ms (nonblocking_emul_ax (axpc c) p c)"
| "ax_exec p (Caller # ms) c = ax_exec p ms (submit_offload_step (subpc c) c)"
| "ax_exec p (Call i dst # ms) c = ax_exec p ms (if subpc c = SubIdle then submit_call i dst c else c)"

lemma ax_exec_run: "ax_run p a c \<Longrightarrow> ax_run p a (ax_exec p ms c)"
proof (induction p ms c rule: ax_exec.induct)
  case (2 p ms c)
  then show ?case by (simp add: ax_run.step [OF _ ax_step.device])
next
  case (3 p ms c)
  then show ?case by (simp add: ax_run.step [OF _ ax_step.caller])
next
  case (4 p i dst ms c)
  then show ?case by (simp add: ax_run.step [OF _ ax_step.call])
qed simp

definition ax_sample :: ax_params where
  "ax_sample = \<lparr>max_inflights = 1, p_offload_time = 20, gDebugParam = True, log_monitor = True,
    clock = (\<lambda>k. 10 * of_nat k)\<rparr>"

text \<open>A request that is accepted, one that is refused while it is in flight.\<close>

definition ax_moves :: "ax_move list" where
  "ax_moves = Call 1 7 # replicate 5 Caller @ replicate 6 Device @ replicate 3 Caller @
     Call 2 8 # replicate 5 Caller @ replicate 4 Device @ replicate 8 Caller"

definition ax_sample_state :: ax_state where
  "ax_sample_state = ax_exec ax_sample ax_moves (ax_start ax_sample ax_init)"

lemma ax_sample_reachable: "ax_reachable ax_sample ax_sample_state"
  unfolding ax_reachable_def ax_sample_state_def by (rule ax_exec_run [OF ax_run.refl])

section \<open>Properties\<close>

lemma funpow_later: "\<exists>k \<le> n. P ((f ^^ k) (f x)) \<Longrightarrow> \<exists>k \<le> Suc n. P ((f ^^ k) x)"
  by (metis Suc_le_mono comp_apply funpow_Suc_right)

text \<open>C3: In every interleaving, the number of offloads in flight equals the length of the queue and
  never exceeds the configured maximum; offloads complete in the order in which they were accepted,
  none is lost or completed twice; and none is completed before its duration has passed.\<close>

theorem emul_ax_fifo_bounded:
  assumes "ax_reachable p c" and "0 \<le> max_inflights p"
  shows "in_flight c = int (length (offload_in_flight_list c)) \<and> in_flight c \<le> max_inflights p \<and>
    ghost_accepted c = map (e_comp \<circ> fst) (ghost_completions c) @ map e_comp (offload_in_flight_list c) \<and>
    (\<forall>(e, t) \<in> set (ghost_completions c). start_time e + p_offload_time p \<le> t)"
  using ax_reachable_inv [OF assms] by (auto simp: queue_inv_def)

lemma emul_ax_fifo_bounded_witness:
  "in_flight ax_sample_state = int (length (offload_in_flight_list ax_sample_state)) \<and>
    in_flight ax_sample_state \<le> 1 \<and> ghost_accepted ax_sample_state = [1] \<and>
    ghost_refused ax_sample_state = 1"
proof -
  have "in_flight ax_sample_state \<le> max_inflights ax_sample"
    "in_flight ax_sample_state = int (length (offload_in_flight_list ax_sample_state))"
    using emul_ax_fifo_bounded [OF ax_sample_reachable] by (simp_all add: ax_sample_def)
  moreover have "ghost_accepted ax_sample_state = [1]" "ghost_refused ax_sample_state = 1" by code_simp+
  ultimately show ?thesis by (simp add: ax_sample_def)
qed



text \<open>C30: The waiting loop of submit_offload ends: in every reachable state with a pending request,
  the accelerator thread answers within six of its own steps as long as it is not stopped.\<close>

theorem submit_wait_ends:
  assumes "ax_reachable p c" and "0 \<le> max_inflights p" and "submit_flag c = OFFLOAD_REQUESTED"
    and "keep_running c" and "axpc c \<noteq> AxStopped"
  shows "\<exists>k \<le> 6. submit_flag (((\<lambda>c. nonblocking_emul_ax (axpc c) p c) ^^ k) c) = OFFLOAD_RECEIVED"
proof -
  let ?f = "\<lambda>c. nonblocking_emul_ax (axpc c) p c"
  have inv: "protocol_inv c" using ax_reachable_inv [OF assms(1,2)] by blast
  have dec: "\<exists>k \<le> 3. submit_flag ((?f ^^ k) d) = OFFLOAD_RECEIVED" if "axpc d = AxDecide t" for d t
    using that by (cases "in_flight d < max_inflights p")
      (rule exI [of _ 3], simp add: numeral_3_eq_3, rule exI [of _ 2], simp add: numeral_2_eq_2)
  have poll: "\<exists>k \<le> 4. submit_flag ((?f ^^ k) d) = OFFLOAD_RECEIVED"
    if "axpc d = AxPoll" "submit_flag d = OFFLOAD_REQUESTED" for d
  proof -
    have "axpc (?f d) = AxDecide (clock p (clock_reads d))" using that by simp
    from funpow_later [where P = "\<lambda>c. submit_flag c = OFFLOAD_RECEIVED", OF dec [OF this]]
    show ?thesis by simp
  qed
  have top: "\<exists>k \<le> 5. submit_flag ((?f ^^ k) d) = OFFLOAD_RECEIVED"
    if "axpc d = AxTop" "submit_flag d = OFFLOAD_REQUESTED" "keep_running d" for d
  proof -
    have "axpc (?f d) = AxPoll" "submit_flag (?f d) = OFFLOAD_REQUESTED" using that by simp_all
    from funpow_later [where P = "\<lambda>c. submit_flag c = OFFLOAD_RECEIVED", OF poll [OF this]]
    show ?thesis by simp
  qed
  show ?thesis
  proof (cases "axpc c")
    case AxStart
    with inv show ?thesis by (simp add: protocol_inv_def)
  next
    case AxTop
    from top [OF this assms(3,4)] obtain k where "k \<le> 6" "submit_flag ((?f ^^ k) c) = OFFLOAD_RECEIVED"
      by (meson le_trans numeral_le_iff semiring_norm(68,69,70,71,72,73,74,75,76,77,78,79))
    then show ?thesis by blast
  next
    case AxPoll
    from poll [OF this assms(3)] obtain k where "k \<le> 6" "submit_flag ((?f ^^ k) c) = OFFLOAD_RECEIVED"
      by (meson le_trans numeral_le_iff semiring_norm(68,69,70,71,72,73,74,75,76,77,78,79))
    then show ?thesis by blast
  next
    case (AxDecide t)
    from dec [OF this] obtain k where "k \<le> 6" "submit_flag ((?f ^^ k) c) = OFFLOAD_RECEIVED"
      by (meson le_trans numeral_le_iff semiring_norm(68,69,70,71,72,73,74,75,76,77,78,79))
    then show ?thesis by blast
  next
    case (AxLoad t)
    then show ?thesis by (intro exI [of _ 2]) (simp add: numeral_2_eq_2)
  next
    case (AxAck t a)
    then show ?thesis by (intro exI [of _ 1]) simp
  next
    case (AxPush t a)
    then have "axpc (?f c) = AxTop" "submit_flag (?f c) = OFFLOAD_REQUESTED" "keep_running (?f c)"
      using assms(3,4) by (simp_all add: ax_push_def Let_def)
    from funpow_later [where P = "\<lambda>c. submit_flag c = OFFLOAD_RECEIVED", OF top [OF this]]
    show ?thesis by simp
  next
    case AxRefuse
    then show ?thesis by (intro exI [of _ 1]) simp
  next
    case AxStopped
    with assms(5) show ?thesis by simp
  qed
qed

text \<open>A state with a pending request.\<close>

definition ax_pending_state :: ax_state where
  "ax_pending_state = ax_exec ax_sample (Call 1 7 # replicate 4 Caller) (ax_start ax_sample ax_init)"

lemma submit_wait_ends_witness:
  "\<exists>k \<le> 6. submit_flag (((\<lambda>c. nonblocking_emul_ax (axpc c) ax_sample c) ^^ k) ax_pending_state) = OFFLOAD_RECEIVED"
proof -
  have "ax_reachable ax_sample ax_pending_state"
    unfolding ax_reachable_def ax_pending_state_def by (rule ax_exec_run [OF ax_run.refl])
  moreover have "submit_flag ax_pending_state = OFFLOAD_REQUESTED" "keep_running ax_pending_state"
    "axpc ax_pending_state = AxTop" by code_simp+
  ultimately show ?thesis by (intro submit_wait_ends) (simp_all add: ax_sample_def)
qed

text \<open>C40: The start of the accelerator races with the first submission.  The thread stores
  OFFLOAD_RECEIVED when it starts; a submission that is made before that store is overwritten, and
  submit_offload reports success for an offload that the accelerator has never seen.\<close>

theorem submit_offload_start_race:
  "\<exists>c. ax_run p ax_init c \<and> subpc c = SubIdle \<and> ghost_results c = [(1, STATUS_SUCCESS)] \<and>
    ghost_accepted c = [] \<and> offload_in_flight_list c = [] \<and> axpc c = AxTop \<and>
    submit_flag c = OFFLOAD_RECEIVED"
proof -
  let ?c = "ax_exec p (Call 1 7 # replicate 4 Caller @ [Device] @ replicate 2 Caller) ax_init"
  have "ax_run p ax_init ?c" by (rule ax_exec_run [OF ax_run.refl])
  moreover have "?c = (ax_start p ax_init)\<lparr>sub_comp := 1, sub_dst := 7, retries_remaining := 3,
      cr_status := (\<lambda>_. 0)(1 := COMP_STATUS_PENDING), compl_addr := 1, p_dst_buf := 7,
      subpc := SubIdle, ghost_results := [(1, STATUS_SUCCESS)]\<rparr>"
    by (simp add: eval_nat_numeral submit_call_def ax_init_def ax_start_def ax_consts)
  ultimately show ?thesis
    by (intro exI [of _ ?c]) (simp add: ax_start_def ax_init_def)
qed

end
