(* ===== verification/Gather_Scatter.thy ===== *)
theory Gather_Scatter
  imports Request_Rules Sample_Machine
begin

text \<open>
  Index arrays and scattering (\<open>src/gather_scatter.cpp\<close> and the scatter loops of the requests): the
  generator of random indices, the loop \<open>dst[indir_arr[i]] = 1.0\<close> on a buffer of \<open>float\<close>s, and the
  validation of its result.  A \<open>float\<close> is its 32 bit pattern.
\<close>

section \<open>The code\<close>

definition FLOAT_ONE :: u32 where "FLOAT_ONE = 0x3f800000"

definition float_is_zero :: "u32 \<Rightarrow> bool" where
  "float_is_zero v \<longleftrightarrow> v = 0 \<or> v = 0x80000000"

text \<open>\<open>(float)idx\<close> for a non-negative \<open>int\<close>: round to 24 significant bits, ties to even.\<close>

fun ulp24 :: "nat \<Rightarrow> nat" where
  "ulp24 n = (if n < 2 ^ 24 then 1 else 2 * ulp24 (n div 2))"

declare ulp24.simps [simp del]

definition float_round :: "nat \<Rightarrow> nat" where
  "float_round n =
    (let u = ulp24 n; k = n div u; r = n mod u in
     u * (if 2 * r < u \<or> 2 * r = u \<and> even k then k else k + 1))"

definition indirect_array_gen :: "env \<Rightarrow> world \<Rightarrow> (ptr \<times> world) option" where
  "indirect_array_gen hw w =
    (let num_feature_ent = input_size hw div 4 in
     if num_feature_ent = 0 \<and> 0 < num_accesses hw then None
     else
       (let idx = (\<lambda>i. rnd hw (rands w + i) mod num_feature_ent);
            indirect_array = map (\<lambda>i. int (float_round (idx i))) [0..<num_accesses hw] in
        Some (malloc (Ints indirect_array) (w\<lparr>rands := rands w + num_accesses hw\<rparr>))))"

text \<open>\<open>a[j] = v\<close> in an array of \<open>float\<close>s.\<close>

definition store_float :: "u8 list \<Rightarrow> int \<Rightarrow> u32 \<Rightarrow> u8 list option" where
  "store_float bs j v = (if j < 0 then None else store32 bs (4 * nat j) v)"

text \<open>\<open>for (i = 0; i < num_accesses; i++) dst[indir_arr[i]] = 1.0\<close>.\<close>

definition scatter_step :: "ptr \<Rightarrow> ptr \<Rightarrow> nat \<Rightarrow> world \<Rightarrow> world option" where
  "scatter_step dst indir_arr i w =
    do {
      idxs \<leftarrow> get_ints indir_arr w;
      j \<leftarrow> arr_get idxs (int i);
      bs \<leftarrow> get_bytes dst w;
      bs \<leftarrow> store_float bs j FLOAT_ONE;
      Some (set_bytes dst bs w)
    }"

definition scatter :: "env \<Rightarrow> ptr \<Rightarrow> ptr \<Rightarrow> world \<Rightarrow> world option" where
  "scatter hw dst indir_arr = foldM (scatter_step dst indir_arr) [0..<num_accesses hw]"

text \<open>\<open>while (indirect_array[sorted_idx] == i) sorted_idx++\<close>.\<close>

function skip_equal :: "int list \<Rightarrow> int \<Rightarrow> nat \<Rightarrow> nat option" where
  "skip_equal xs i k =
    (if k < length xs then (if xs ! k = i then skip_equal xs i (Suc k) else Some k) else None)"
  by auto

termination by (relation "measure (\<lambda>(xs, i, k). length xs - k)") auto

declare skip_equal.simps [simp del]

text \<open>The loop over the entries; \<open>False\<close> is a reported mismatch, \<open>None\<close> a read outside an array.\<close>

fun validate_ents :: "u8 list \<Rightarrow> int list \<Rightarrow> nat list \<Rightarrow> nat \<Rightarrow> bool option" where
  "validate_ents bs xs [] k = Some True"
| "validate_ents bs xs (i # is) k =
    do {
      s \<leftarrow> arr_get xs (int k);
      v \<leftarrow> load32 bs (4 * i);
      (if int i = s then
         (if v \<noteq> FLOAT_ONE then Some False
          else do { k \<leftarrow> skip_equal xs (int i) k; validate_ents bs xs is k })
       else if \<not> float_is_zero v then Some False
       else validate_ents bs xs is k)
    }"

text \<open>The index array is sorted in place.\<close>

definition validate_scatter_array :: "env \<Rightarrow> ptr \<Rightarrow> ptr \<Rightarrow> world \<Rightarrow> world option" where
  "validate_scatter_array hw scatter_array indirect_array w =
    do {
      xs \<leftarrow> get_ints indirect_array w;
      (if length xs < num_accesses hw then None
       else do {
         let xs = sort (take (num_accesses hw) xs) @ drop (num_accesses hw) xs;
         bs \<leftarrow> get_bytes scatter_array w;
         r \<leftarrow> validate_ents bs xs [0..<input_size hw div 4] 0;
         Some (w\<lparr>heap := (heap w)(indirect_array \<mapsto> Ints xs)\<rparr>)
       })
    }"

section \<open>Loads and stores\<close>

lemma load_store32:
  assumes "i + 4 \<le> length bs"
  shows "\<exists>bs'. store32 bs i v = Some bs' \<and> length bs' = length bs \<and> load32 bs' i = Some v"
proof -
  have "(ucast (ucast v :: u8) :: u32) OR push_bit 8 (ucast (ucast (drop_bit 8 v) :: u8)) OR
      push_bit 16 (ucast (ucast (drop_bit 16 v) :: u8)) OR push_bit 24 (ucast (ucast (drop_bit 24 v) :: u8)) = v"
  proof (rule bit_word_eqI)
    fix k assume k: "k < LENGTH(32)"
    have "24 + (k - 24) = k" if "24 \<le> k" using that by simp
    moreover have "k - 8 < 8 \<longleftrightarrow> k < 16" "k - 16 < 8 \<longleftrightarrow> k < 24" "k - 24 < 8 \<longleftrightarrow> k < 32" by auto
    ultimately show "bit ((ucast (ucast v :: u8) :: u32) OR push_bit 8 (ucast (ucast (drop_bit 8 v) :: u8)) OR
      push_bit 16 (ucast (ucast (drop_bit 16 v) :: u8)) OR push_bit 24 (ucast (ucast (drop_bit 24 v) :: u8))) k = bit v k"
      using k by (cases "k < 8"; cases "k < 16"; cases "k < 24") (auto simp: bit_simps)
  qed
  with assms show ?thesis by (simp add: store32_def load32_def)
qed

lemma load_store32_other:
  assumes "store32 bs i v = Some bs'" and "j + 4 \<le> i \<or> i + 4 \<le> j"
  shows "load32 bs' j = load32 bs j"
  using assms by (auto simp: store32_def load32_def split: if_splits)

lemma store_float_ok:
  assumes "0 \<le> j" and "4 * (j + 1) \<le> int (length bs)"
  shows "\<exists>bs'. store_float bs j v = Some bs' \<and> length bs' = length bs \<and>
    (\<forall>m. load32 bs' (4 * m) = (if int m = j then Some v else load32 bs (4 * m)))"
proof -
  have "4 * nat j + 4 \<le> length bs" using assms by (simp add: nat_le_iff flip: of_nat_le_iff [where 'a = int])
  from load_store32 [OF this, of v] obtain bs' where
    r: "store32 bs (4 * nat j) v = Some bs'" "length bs' = length bs" "load32 bs' (4 * nat j) = Some v" by blast
  have "load32 bs' (4 * m) = load32 bs (4 * m)" if "int m \<noteq> j" for m
    by (rule load_store32_other [OF r(1)]) (use that assms(1) in presburger)
  with r assms(1) show ?thesis by (auto simp: store_float_def)
qed

text \<open>Scattering writes one at the given entries and leaves the others alone.\<close>

definition floats_fit :: "nat \<Rightarrow> int set \<Rightarrow> bool" where
  "floats_fit len S \<longleftrightarrow> (\<forall>j \<in> S. 0 \<le> j \<and> 4 * (j + 1) \<le> int len)"

lemma scatter_effect:
  assumes "get_ints ind w = Some idxs" and "n \<le> length idxs" and "get_bytes dst w = Some bs"
    and "floats_fit (length bs) (set idxs)"
  shows "\<exists>bs'. foldM (scatter_step dst ind) [0..<n] w = Some (set_bytes dst bs' w) \<and> length bs' = length bs \<and>
    (\<forall>m. load32 bs' (4 * m) =
      (if int m \<in> set (take n idxs) then Some FLOAT_ONE else load32 bs (4 * m)))"
proof -
  let ?P = "\<lambda>i s. \<exists>bs'. s = set_bytes dst bs' w \<and> length bs' = length bs \<and>
    (\<forall>m. load32 bs' (4 * m) = (if int m \<in> set (take i idxs) then Some FLOAT_ONE else load32 bs (4 * m)))"
  have ne: "ind \<noteq> dst" using assms(1,3) by (auto simp: get_ints_def get_bytes_def split: option.splits block.splits)
  have "\<exists>s. foldM (scatter_step dst ind) [0..<n] w = Some s \<and> ?P n s"
  proof (rule foldM_upt_rule [where P = ?P])
    show "?P 0 w"
      using assms(3) by (intro exI [of _ bs])
        (auto simp: set_bytes_def get_bytes_def fun_upd_idem split: option.splits block.splits)
  next
    fix i s assume i: "i < n" and "?P i s"
    then obtain b1 where b1: "s = set_bytes dst b1 w" "length b1 = length bs"
      "\<And>m. load32 b1 (4 * m) = (if int m \<in> set (take i idxs) then Some FLOAT_ONE else load32 bs (4 * m))"
      by blast
    have il: "i < length idxs" using i assms(2) by simp
    have fit: "0 \<le> idxs ! i" "4 * (idxs ! i + 1) \<le> int (length b1)"
      using assms(4) il b1(2) by (auto simp: floats_fit_def)
    from store_float_ok [OF fit, of FLOAT_ONE] obtain b2 where
      b2: "store_float b1 (idxs ! i) FLOAT_ONE = Some b2" "length b2 = length b1"
      "\<And>m. load32 b2 (4 * m) = (if int m = idxs ! i then Some FLOAT_ONE else load32 b1 (4 * m))" by blast
    have "get_ints ind s = Some idxs" using assms(1) ne b1(1) by (simp add: set_bytes_def get_ints_def)
    moreover have "get_bytes dst s = Some b1" using b1(1) by (simp add: set_bytes_def get_bytes_def)
    ultimately have "scatter_step dst ind i s = Some (set_bytes dst b2 s)"
      using il b2(1) by (simp add: scatter_step_def arr_simps)
    moreover have "set_bytes dst b2 s = set_bytes dst b2 w" using b1(1) by (simp add: set_bytes_def)
    ultimately show "\<exists>s'. scatter_step dst ind i s = Some s' \<and> ?P (Suc i) s'"
      using b1(2) b2(2) b1(3) b2(3) il
      by (intro exI [of _ "set_bytes dst b2 w"] conjI) (auto simp: take_Suc_conv_app_nth intro!: exI [of _ b2])
  qed simp
  then show ?thesis by blast
qed

text \<open>In the calculus of requests: scattering only lets time pass.\<close>

definition scatter_args :: "env \<Rightarrow> shape \<Rightarrow> ptr \<Rightarrow> ptr \<Rightarrow> bool" where
  "scatter_args hw K dst ind \<longleftrightarrow> (\<exists>len m S. blocks K dst = Some (KBytes len) \<and> blocks K ind = Some (KInts m S) \<and>
    num_accesses hw \<le> m \<and> floats_fit len S)"

lemma safe_scatter [request_rules]:
  assumes "scatter_args hw K dst ind"
  shows "safe hw K n (scatter hw dst ind)"
  unfolding safe_def
proof (intro allI impI)
  fix w assume w: "shape w = K"
  obtain idxs bs where a: "get_ints ind w = Some idxs" "num_accesses hw \<le> length idxs"
    "get_bytes dst w = Some bs" "floats_fit (length bs) (set idxs)"
    using assms w by (auto simp: scatter_args_def kinds_bytes kinds_ints)
  from scatter_effect [OF a] obtain bs' where
    "scatter hw dst ind w = Some (set_bytes dst bs' w)" "length bs' = length bs" by (auto simp: scatter_def)
  with later_set_bytes [OF a(3)] show "\<exists>w'. scatter hw dst ind w = Some w' \<and> later hw w w'" by blast
qed

section \<open>Generated indices\<close>

lemma float_round_exact: "n < 2 ^ 24 \<Longrightarrow> float_round n = n"
  by (simp add: float_round_def ulp24.simps)

lemma four_times_Suc_int: "4 * (r + 1) \<le> n \<Longrightarrow> 4 * (int r + 1) \<le> int n"
  by presburger

lemma indirect_array_gen_kind:
  assumes "4 \<le> input_size hw" and "input_size hw \<le> 2 ^ 26"
  shows "\<exists>idxs. indirect_array_gen hw w = Some (malloc (Ints idxs) (w\<lparr>rands := rands w + num_accesses hw\<rparr>)) \<and>
    length idxs = num_accesses hw \<and> floats_fit (input_size hw) (set idxs)"
proof -
  let ?n = "input_size hw div 4"
  have n: "0 < ?n" "?n \<le> 2 ^ 24" using assms by simp_all
  have "rnd hw k mod ?n < 2 ^ 24" for k using mod_less_divisor [OF n(1), of "rnd hw k"] n(2) by linarith
  then have f: "float_round (rnd hw k mod ?n) = rnd hw k mod ?n" for k by (rule float_round_exact)
  have "4 * (rnd hw k mod ?n + 1) \<le> input_size hw" for k
  proof -
    have "rnd hw k mod ?n + 1 \<le> ?n" using mod_less_divisor [OF n(1), of "rnd hw k"] by linarith
    then have "4 * (rnd hw k mod ?n + 1) \<le> 4 * ?n" by (rule mult_le_mono2)
    also have "\<dots> \<le> input_size hw" by (rule times_div_less_eq_dividend)
    finally show ?thesis .
  qed
  then have "4 * (int (rnd hw k mod ?n) + 1) \<le> int (input_size hw)" for k
    by (rule four_times_Suc_int)
  then have "floats_fit (input_size hw) (set (map (\<lambda>i. int (float_round (rnd hw (rands w + i) mod ?n)))
      [0..<num_accesses hw]))"
    unfolding floats_fit_def f by (simp del: of_nat_mod)
  with n show ?thesis
    by (intro exI [of _ "map (\<lambda>i. int (float_round (rnd hw (rands w + i) mod ?n))) [0..<num_accesses hw]"])
      (simp add: indirect_array_gen_def Let_def)
qed

section \<open>Validation\<close>

lemma skip_equal_Some: "skip_equal xs i k = Some k' \<Longrightarrow> k \<le> k' \<and> k' < length xs \<and> xs ! k' \<noteq> i"
proof (induction xs i k rule: skip_equal.induct)
  case (1 xs i k)
  show ?case
  proof (cases "k < length xs \<and> xs ! k = i")
    case True
    with 1 have "Suc k \<le> k' \<and> k' < length xs \<and> xs ! k' \<noteq> i" by (simp add: skip_equal.simps [of xs i k])
    then show ?thesis by simp
  next
    case False
    with 1(2) show ?thesis by (simp add: skip_equal.simps [of xs i k] split: if_splits)
  qed
qed

lemma skip_equal_le: "skip_equal xs i k = Some k' \<Longrightarrow> k \<le> j \<Longrightarrow> j < k' \<Longrightarrow> xs ! j = i"
proof (induction xs i k rule: skip_equal.induct)
  case (1 xs i k)
  then show ?case
    by (cases "j = k") (auto simp: skip_equal.simps [of xs i k] split: if_splits)
qed

text \<open>A buffer that is one at the indices of an array and zero elsewhere.\<close>

definition one_hot :: "u8 list \<Rightarrow> int list \<Rightarrow> nat \<Rightarrow> bool" where
  "one_hot bs xs n \<longleftrightarrow> (\<forall>m < n. load32 bs (4 * m) = Some (if int m \<in> set xs then FLOAT_ONE else 0))"

lemma validate_ents_runs_off:
  assumes "sorted xs" and "one_hot bs xs n" and "\<forall>x \<in> set xs. x < int n"
    and "k < length xs" and "int i \<le> xs ! k" and "\<forall>j < k. xs ! j < int i"
  shows "validate_ents bs xs [i..<n] k = None"
  using assms(4-)
proof (induction "n - i" arbitrary: i k)
  case 0
  with assms(3) have "xs ! k < int n" by simp
  with 0 show ?case by simp
next
  case (Suc m)
  then have i: "i < n" and up: "[i..<n] = i # [Suc i..<n]" by (simp_all add: upt_conv_Cons)
  show ?case
  proof (cases "xs ! k = int i")
    case True
    then have "int i \<in> set xs" using Suc.prems(1) nth_mem by metis
    then have one: "load32 bs (4 * i) = Some FLOAT_ONE" using assms(2) i by (simp add: one_hot_def)
    show ?thesis
    proof (cases "skip_equal xs (int i) k")
      case None
      with True one Suc.prems(1) show ?thesis by (simp add: up arr_simps)
    next
      case (Some k')
      then have k': "k \<le> k'" "k' < length xs" "xs ! k' \<noteq> int i" using skip_equal_Some by blast+
      have lt: "\<forall>j < k'. xs ! j < int (Suc i)"
      proof (intro allI impI)
        fix j assume j: "j < k'"
        show "xs ! j < int (Suc i)"
          using Suc.prems(3) skip_equal_le [OF Some _ j] by (cases "j < k") force+
      qed
      have "int (Suc i) \<le> xs ! k'"
        using sorted_nth_mono [OF assms(1) k'(1,2)] True k'(3) by simp
      with Suc.hyps(1) [of "Suc i" k'] Suc.hyps(2) k'(2) lt have
        "validate_ents bs xs [Suc i..<n] k' = None" by simp
      with True one Some Suc.prems(1) show ?thesis by (simp add: up arr_simps)
    qed
  next
    case False
    then have gt: "int (Suc i) \<le> xs ! k" using Suc.prems(2) by simp
    have "int i \<notin> set xs"
    proof
      assume "int i \<in> set xs"
      then obtain j where j: "j < length xs" "xs ! j = int i" by (auto simp: in_set_conv_nth)
      with Suc.prems(3) have "k \<le> j" by (metis less_irrefl not_le)
      with sorted_nth_mono [OF assms(1) this j(1)] j(2) gt show False by simp
    qed
    then have z: "load32 bs (4 * i) = Some 0" using assms(2) i by (simp add: one_hot_def)
    have "\<forall>j < k. xs ! j < int (Suc i)" using Suc.prems(3) by force
    with Suc.hyps(1) [of "Suc i" k] Suc.hyps(2) Suc.prems(1) gt have
      "validate_ents bs xs [Suc i..<n] k = None" by simp
    with False z Suc.prems(1) show ?thesis by (simp add: up arr_simps float_is_zero_def)
  qed
qed

section \<open>Properties\<close>

text \<open>The scatter loop stays inside the buffer for indices in range, writes 1.0 to exactly the
  entries that the index array names, and leaves every other entry and every other block alone.\<close>

theorem scatter_writes_ones:
  assumes "get_ints ind w = Some idxs" and "num_accesses hw = length idxs" and "get_bytes dst w = Some bs"
    and "floats_fit (length bs) (set idxs)"
  shows "\<exists>w' bs'. scatter hw dst ind w = Some w' \<and> get_bytes dst w' = Some bs' \<and>
    (\<forall>m. load32 bs' (4 * m) = (if int m \<in> set idxs then Some FLOAT_ONE else load32 bs (4 * m))) \<and>
    (\<forall>p. p \<noteq> dst \<longrightarrow> heap w' p = heap w p)"
proof -
  obtain bs' where "scatter hw dst ind w = Some (set_bytes dst bs' w)"
    "\<forall>m. load32 bs' (4 * m) = (if int m \<in> set idxs then Some FLOAT_ONE else load32 bs (4 * m))"
    using scatter_effect [OF assms(1) order_refl assms(3,4)] assms(2) by (auto simp: scatter_def)
  then show ?thesis
    by (intro exI [of _ "set_bytes dst bs' w"] exI [of _ bs']) (simp add: set_bytes_def get_bytes_def)
qed

lemma scatter_writes_ones_witness:
  "\<exists>w' bs'. scatter sample_env 30 40 (sample_world 3) = Some w' \<and> get_bytes 30 w' = Some bs' \<and>
    load32 bs' 0 = Some FLOAT_ONE \<and> load32 bs' 4 = Some 0 \<and> load32 bs' 8 = Some FLOAT_ONE"
proof -
  have h: "get_ints 40 (sample_world 3) = Some [2, 0, 2]" "get_bytes 30 (sample_world 3) = Some (replicate 64 0)"
    by (simp_all add: get_ints_def get_bytes_def sample_world_def sample_heap_def)
  have l: "load32 (replicate 64 0) 4 = Some 0" by (simp add: load32_def)
  from scatter_writes_ones [OF h(1) _ h(2), of sample_env] obtain w' bs' where
    r: "scatter sample_env 30 40 (sample_world 3) = Some w'" "get_bytes 30 w' = Some bs'"
      "\<And>m. load32 bs' (4 * m) = (if int m \<in> {2, 0} then Some FLOAT_ONE else load32 (replicate 64 0) (4 * m))"
    by (auto simp: sample_env_def floats_fit_def)
  from r(3) [of 0] r(3) [of 1] r(3) [of 2] l r(1,2) show ?thesis by auto
qed

text \<open>For buffers of at most 64 MB every generated index is inside the buffer.\<close>

theorem indirect_array_gen_in_range:
  assumes "4 \<le> input_size hw" and "input_size hw \<le> 2 ^ 26"
  shows "\<exists>p w' idxs. indirect_array_gen hw w = Some (p, w') \<and> get_ints p w' = Some idxs \<and>
    length idxs = num_accesses hw \<and> floats_fit (input_size hw) (set idxs)"
  using indirect_array_gen_kind [OF assms, of w] by (auto simp: malloc_def get_ints_def)

lemma indirect_array_gen_in_range_witness:
  "\<exists>p w' idxs. indirect_array_gen sample_env (sample_world 3) = Some (p, w') \<and> get_ints p w' = Some idxs \<and>
    length idxs = 3 \<and> floats_fit 16 (set idxs)"
  using indirect_array_gen_in_range [of sample_env "sample_world 3"] by (simp add: sample_env_def)

text \<open>Larger buffers are not safe: the generator passes each index through a float, which has 24
  significant bits.  For a buffer of 2^24 + 4 floats the last index is rounded up to the number of
  entries, and the scatter loop that uses it writes behind the buffer.\<close>

theorem indirect_array_rounding_out_of_bounds:
  assumes "input_size hw = 2 ^ 26 + 16" and "0 < num_accesses hw"
    and "rnd hw (rands w) mod (2 ^ 24 + 4) = 2 ^ 24 + 3"
  shows "\<exists>p w' idxs. indirect_array_gen hw w = Some (p, w') \<and> get_ints p w' = Some idxs \<and>
    hd idxs = int (input_size hw div 4) \<and>
    (\<forall>dst bs. get_bytes dst w = Some bs \<longrightarrow> length bs = input_size hw \<longrightarrow> dst \<noteq> p \<longrightarrow> scatter hw dst p w' = None)"
proof -
  have "ulp24 (2 ^ 24 + 3) = 2" by (simp add: ulp24.simps)
  then have r: "float_round (2 ^ 24 + 3) = 2 ^ 24 + 4" by (simp add: float_round_def)
  have n: "input_size hw div 4 = 2 ^ 24 + 4" using assms(1) by simp
  let ?idxs = "map (\<lambda>i. int (float_round (rnd hw (rands w + i) mod (2 ^ 24 + 4)))) [0..<num_accesses hw]"
  let ?w = "snd (malloc (Ints ?idxs) (w\<lparr>rands := rands w + num_accesses hw\<rparr>))" and ?p = "nxt w"
  have g: "indirect_array_gen hw w = Some (?p, ?w)"
    unfolding indirect_array_gen_def n Let_def by (simp add: malloc_def)
  have i: "get_ints ?p ?w = Some ?idxs" by (simp add: malloc_def get_ints_def)
  have f: "?idxs ! 0 = 2 ^ 24 + 4" "?idxs \<noteq> []"
    using assms(2,3) r by simp_all
  then have h: "hd ?idxs = int (input_size hw div 4)" unfolding n by (simp add: hd_conv_nth)
  have "scatter hw dst ?p ?w = None"
    if b: "get_bytes dst w = Some bs" "length bs = input_size hw" "dst \<noteq> ?p" for dst bs
  proof -
    have "get_bytes dst ?w = Some bs" using b(1,3) by (simp add: malloc_def get_bytes_def)
    moreover have "arr_get ?idxs 0 = Some (2 ^ 24 + 4)" using f by (simp add: arr_get_def)
    moreover have "store_float bs (2 ^ 24 + 4) FLOAT_ONE = None"
      using b(2) assms(1) by (simp add: store_float_def store32_def)
    ultimately have "scatter_step dst ?p 0 ?w = None"
      using i by (simp add: scatter_step_def)
    then show ?thesis
      using assms(2) by (simp add: scatter_def upt_conv_Cons)
  qed
  with g i h show ?thesis by blast
qed

definition large_env :: env where
  "large_env = sample_env\<lparr>input_size := 2 ^ 26 + 16, rnd := (\<lambda>_. 2 ^ 24 + 3)\<rparr>"

lemma indirect_array_rounding_out_of_bounds_witness:
  "\<exists>p w' idxs. indirect_array_gen large_env (sample_world 3) = Some (p, w') \<and> get_ints p w' = Some idxs \<and>
    hd idxs = 2 ^ 24 + 4"
  using indirect_array_rounding_out_of_bounds [of large_env "sample_world 3"]
  by (auto simp: large_env_def sample_env_def)

text \<open>The validation reads outside of the index array exactly when the scatter was correct: after
  the last index has matched, its inner loop compares the element behind the array.\<close>

theorem validate_scatter_array_out_of_bounds:
  assumes "get_ints ind w = Some idxs" and "num_accesses hw = length idxs" and "idxs \<noteq> []"
    and "get_bytes dst w = Some bs" and "\<forall>j \<in> set idxs. 0 \<le> j \<and> j < int (input_size hw div 4)"
    and "one_hot bs idxs (input_size hw div 4)"
  shows "validate_scatter_array hw dst ind w = None"
proof -
  have "validate_ents bs (sort idxs) [0..<input_size hw div 4] 0 = None"
  proof (rule validate_ents_runs_off)
    show "one_hot bs (sort idxs) (input_size hw div 4)" using assms(6) by (simp add: one_hot_def)
    have "sort idxs ! 0 \<in> set (sort idxs)" using assms(3) by (intro nth_mem) simp
    then show "int 0 \<le> sort idxs ! 0" using assms(5) by simp
  qed (use assms(3,5) in auto)
  with assms(1,2,4) show ?thesis by (simp add: validate_scatter_array_def)
qed

definition scattered_world :: world where
  "scattered_world = set_bytes 30 ([0, 0, 0x80, 0x3f, 0, 0, 0, 0, 0, 0, 0x80, 0x3f, 0, 0, 0, 0]) (sample_world 3)"

lemma validate_scatter_array_out_of_bounds_witness:
  "validate_scatter_array sample_env 30 40 scattered_world = None"
proof (rule validate_scatter_array_out_of_bounds)
  show "get_ints 40 scattered_world = Some [2, 0, 2]"
    "get_bytes 30 scattered_world = Some [0, 0, 0x80, 0x3f, 0, 0, 0, 0, 0, 0, 0x80, 0x3f, 0, 0, 0, 0]"
    by (simp_all add: get_ints_def get_bytes_def scattered_world_def set_bytes_def sample_world_def sample_heap_def)
  have "(m :: nat) < 4 \<longleftrightarrow> m \<in> {0, 1, 2, 3}" for m by auto
  then show "one_hot [0, 0, 0x80, 0x3f, 0, 0, 0, 0, 0, 0, 0x80, 0x3f, 0, 0, 0, 0] [2, 0, 2] (input_size sample_env div 4)"
    by (auto simp: one_hot_def sample_env_def load32_def FLOAT_ONE_def)
qed (simp_all add: sample_env_def)

end
