(* ===== verification/Requests_Scatter.thy ===== *)
theory Requests_Scatter
  imports Requests_Hash Gather_Scatter
begin

text \<open>
  The requests that scatter through an index array: decompress-and-scatter
  (\<open>src/decompress_and_scatter_request.cpp\<close>, on the IAA) and memfill-and-gather
  (\<open>src/memfill_gather.cpp\<close>, on the DSA; its requests have the names of the memcpy requests in the
  source and the suffix \<open>_memfill\<close> here).
\<close>

section \<open>Decompress and scatter\<close>

definition yielding_decomp_and_scatter_stamped :: "env \<Rightarrow> offload_args \<Rightarrow> world \<Rightarrow> world slice option" where
  "yielding_decomp_and_scatter_stamped hw args w =
    do {
      w \<leftarrow> stamp hw (a_ts0 args) (a_id args) w;
      w \<leftarrow> prepare_iaa_decompress_desc_with_preallocated_comp hw (a_desc args) (a_src_payload args)
             (a_dst_payload args) (a_comp args) (a_src_size args) w;
      w \<leftarrow> blocking_iaa_submit hw (a_desc args) w;
      w \<leftarrow> stamp hw (a_ts1 args) (a_id args) w;
      Some (Yield w (\<lambda>_ w.
        do {
          w \<leftarrow> check_status hw (a_comp args) w;
          w \<leftarrow> stamp hw (a_ts2 args) (a_id args) w;
          w \<leftarrow> scatter hw (a_dst_payload args) (a_aux_payload args) w;
          w \<leftarrow> stamp hw (a_ts3 args) (a_id args) w;
          finish_request w
        }))
    }"

definition yielding_decomp_and_scatter :: "env \<Rightarrow> offload_args \<Rightarrow> world \<Rightarrow> world slice option" where
  "yielding_decomp_and_scatter hw args w =
    do {
      w \<leftarrow> prepare_iaa_decompress_desc_with_preallocated_comp hw (a_desc args) (a_src_payload args)
             (a_dst_payload args) (a_comp args) (a_src_size args) w;
      w \<leftarrow> blocking_iaa_submit hw (a_desc args) w;
      Some (Yield w (\<lambda>_ w.
        do {
          w \<leftarrow> check_status hw (a_comp args) w;
          w \<leftarrow> scatter hw (a_dst_payload args) (a_aux_payload args) w;
          finish_request w
        }))
    }"

definition blocking_decomp_and_scatter_request :: "env \<Rightarrow> offload_args \<Rightarrow> world \<Rightarrow> world slice option" where
  "blocking_decomp_and_scatter_request hw args w =
    do {
      w \<leftarrow> prepare_iaa_decompress_desc_with_preallocated_comp hw (a_desc args) (a_src_payload args)
             (a_dst_payload args) (a_comp args) (a_src_size args) w;
      w \<leftarrow> blocking_iaa_submit hw (a_desc args) w;
      w \<leftarrow> spin_on hw (a_comp args) w;
      w \<leftarrow> check_status hw (a_comp args) w;
      w \<leftarrow> scatter hw (a_dst_payload args) (a_aux_payload args) w;
      finish_request w
    }"

text \<open>The time stamps are taken into locals and stored after the request is counted.\<close>

definition blocking_decomp_and_scatter_request_stamped ::
  "env \<Rightarrow> offload_args \<Rightarrow> world \<Rightarrow> world slice option" where
  "blocking_decomp_and_scatter_request_stamped hw args w =
    (let (pre_submit, w) = rdtsc hw w in
     do {
      w \<leftarrow> prepare_iaa_decompress_desc_with_preallocated_comp hw (a_desc args) (a_src_payload args)
             (a_dst_payload args) (a_comp args) (a_src_size args) w;
      w \<leftarrow> blocking_iaa_submit hw (a_desc args) w;
      let (pre_wait, w) = rdtsc hw w;
      w \<leftarrow> spin_on hw (a_comp args) w;
      w \<leftarrow> check_status hw (a_comp args) w;
      let (pre_scatter, w) = rdtsc hw w;
      w \<leftarrow> scatter hw (a_dst_payload args) (a_aux_payload args) w;
      let (post_scatter, w) = rdtsc hw w;
      let w = count_request w;
      w \<leftarrow> write_word (a_ts0 args) (int (a_id args)) pre_submit w;
      w \<leftarrow> write_word (a_ts1 args) (int (a_id args)) pre_wait w;
      w \<leftarrow> write_word (a_ts2 args) (int (a_id args)) pre_scatter w;
      w \<leftarrow> write_word (a_ts3 args) (int (a_id args)) post_scatter w;
      Some (Yield w returns)
    })"

definition cpu_decomp_and_scatter :: "env \<Rightarrow> gpcore_args \<Rightarrow> world \<Rightarrow> world slice option" where
  "cpu_decomp_and_scatter hw args w =
    do {
      src1 \<leftarrow> arr_get (g_inputs args) 0;
      dst1 \<leftarrow> arr_get (g_inputs args) 1;
      p \<leftarrow> arr_get (g_inputs args) 2;
      compressed_size \<leftarrow> read_size p w;
      indir_arr \<leftarrow> arr_get (g_inputs args) 3;
      (rc, decompressed_size, w) \<leftarrow>
        gpcore_do_decompress hw dst1 src1 compressed_size (iaa_compress_max_dest_size hw) w;
      w \<leftarrow> scatter hw dst1 indir_arr w;
      finish_request w
    }"

definition cpu_decomp_and_scatter_stamped :: "env \<Rightarrow> gpcore_args \<Rightarrow> world \<Rightarrow> world slice option" where
  "cpu_decomp_and_scatter_stamped hw args w =
    do {
      src1 \<leftarrow> arr_get (g_inputs args) 0;
      dst1 \<leftarrow> arr_get (g_inputs args) 1;
      p \<leftarrow> arr_get (g_inputs args) 2;
      compressed_size \<leftarrow> read_size p w;
      indir_arr \<leftarrow> arr_get (g_inputs args) 3;
      w \<leftarrow> stamp hw (g_ts0 args) (g_id args) w;
      (rc, decompressed_size, w) \<leftarrow>
        gpcore_do_decompress hw dst1 src1 compressed_size (iaa_compress_max_dest_size hw) w;
      w \<leftarrow> stamp hw (g_ts1 args) (g_id args) w;
      w \<leftarrow> scatter hw dst1 indir_arr w;
      w \<leftarrow> stamp hw (g_ts2 args) (g_id args) w;
      finish_request w
    }"

section \<open>Memfill and gather\<close>

text \<open>\<open>if (gLogLevel >= LOG_DEBUG) validate_scatter_array(...)\<close>.\<close>

definition validate_if_debug :: "env \<Rightarrow> ptr \<Rightarrow> ptr \<Rightarrow> world \<Rightarrow> world option" where
  "validate_if_debug hw scatter_array indirect_array w =
    (if log_debug hw then validate_scatter_array hw scatter_array indirect_array w else Some w)"

definition blocking_memfill_stamped :: "env \<Rightarrow> offload_args \<Rightarrow> world \<Rightarrow> world slice option" where
  "blocking_memfill_stamped hw args w =
    do {
      w \<leftarrow> stamp hw (a_ts0 args) (a_id args) w;
      w \<leftarrow> prepare_dsa_memfill_desc_with_preallocated_comp hw (a_desc args) 0 (a_src_payload args)
             (a_comp args) (input_size hw) w;
      (submitted, w) \<leftarrow> dsa_submit hw (a_desc args) w;
      (if \<not> submitted then Some (Exit w)
       else do {
         w \<leftarrow> stamp hw (a_ts1 args) (a_id args) w;
         w \<leftarrow> wait_while hw (iax_comp_none hw) (a_comp args) w;
         (s, w) \<leftarrow> read_status hw (a_comp args) w;
         (if s \<noteq> iax_comp_success hw then Some (Exit w)
          else do {
            w \<leftarrow> stamp hw (a_ts2 args) (a_id args) w;
            w \<leftarrow> scatter hw (a_src_payload args) (a_dst_payload args) w;
            w \<leftarrow> stamp hw (a_ts3 args) (a_id args) w;
            w \<leftarrow> validate_if_debug hw (a_src_payload args) (a_dst_payload args) w;
            finish_request w
          })
       })
    }"

definition blocking_memfill :: "env \<Rightarrow> offload_args \<Rightarrow> world \<Rightarrow> world slice option" where
  "blocking_memfill hw args w =
    do {
      w \<leftarrow> prepare_dsa_memfill_desc_with_preallocated_comp hw (a_desc args) 0 (a_src_payload args)
             (a_comp args) (input_size hw) w;
      (submitted, w) \<leftarrow> dsa_submit hw (a_desc args) w;
      (if \<not> submitted then Some (Exit w)
       else do {
         w \<leftarrow> wait_while hw (iax_comp_none hw) (a_comp args) w;
         (s, w) \<leftarrow> read_status hw (a_comp args) w;
         (if s \<noteq> iax_comp_success hw then Some (Exit w)
          else do {
            w \<leftarrow> scatter hw (a_src_payload args) (a_dst_payload args) w;
            w \<leftarrow> validate_if_debug hw (a_src_payload args) (a_dst_payload args) w;
            finish_request w
          })
       })
    }"

definition yielding_memfill :: "env \<Rightarrow> offload_args \<Rightarrow> world \<Rightarrow> world slice option" where
  "yielding_memfill hw args w =
    do {
      w \<leftarrow> prepare_dsa_memfill_desc_with_preallocated_comp hw (a_desc args) 0 (a_src_payload args)
             (a_comp args) (input_size hw) w;
      (submitted, w) \<leftarrow> dsa_submit hw (a_desc args) w;
      (if \<not> submitted then Some (Exit w)
       else Some (Yield w (\<lambda>_ w.
         do {
           (s, w) \<leftarrow> read_status hw (a_comp args) w;
           (if s \<noteq> iax_comp_success hw then Some (Exit w)
            else do {
              w \<leftarrow> scatter hw (a_src_payload args) (a_dst_payload args) w;
              w \<leftarrow> validate_if_debug hw (a_src_payload args) (a_dst_payload args) w;
              finish_request w
            })
         })))
    }"

text \<open>\<open>memset(p, 0x0, n)\<close>.\<close>

definition memset_zero :: "ptr \<Rightarrow> nat \<Rightarrow> world \<Rightarrow> world option" where
  "memset_zero p n w =
    do {
      bs \<leftarrow> get_bytes p w;
      (if n \<le> length bs then Some (set_bytes p (replicate n 0 @ drop n bs) w) else None)
    }"

definition cpu_memfill_stamped :: "env \<Rightarrow> gpcore_args \<Rightarrow> world \<Rightarrow> world slice option" where
  "cpu_memfill_stamped hw args w =
    do {
      scatter_array \<leftarrow> arr_get (g_inputs args) 0;
      indirect_array \<leftarrow> arr_get (g_inputs args) 1;
      w \<leftarrow> stamp hw (g_ts0 args) (g_id args) w;
      w \<leftarrow> memset_zero scatter_array (input_size hw) w;
      w \<leftarrow> stamp hw (g_ts1 args) (g_id args) w;
      w \<leftarrow> scatter hw scatter_array indirect_array w;
      w \<leftarrow> stamp hw (g_ts2 args) (g_id args) w;
      w \<leftarrow> validate_if_debug hw scatter_array indirect_array w;
      finish_request w
    }"

definition cpu_memfill :: "env \<Rightarrow> gpcore_args \<Rightarrow> world \<Rightarrow> world slice option" where
  "cpu_memfill hw args w =
    do {
      scatter_array \<leftarrow> arr_get (g_inputs args) 0;
      indirect_array \<leftarrow> arr_get (g_inputs args) 1;
      w \<leftarrow> memset_zero scatter_array (input_size hw) w;
      w \<leftarrow> scatter hw scatter_array indirect_array w;
      w \<leftarrow> validate_if_debug hw scatter_array indirect_array w;
      finish_request w
    }"

section \<open>Contracts\<close>

lemma yielding_decomp_and_scatter_stamped_entry:
  assumes env: "env_ok hw" and "slot_args n i a" and "blocks K (a_desc a) = Some KDesc" and "timed_args K n a"
    and "scatter_args hw K (a_dst_payload a) (a_aux_payload a)"
  shows "entry_ok 1 hw K n complete i (yielding_decomp_and_scatter_stamped hw a)"
  using assms unfolding yielding_decomp_and_scatter_stamped_def [abs_def] args_defs
  by (simp, intro entry_ok_bind [OF safe_stamp] entry_ok_iaa request_rules; simp)

lemma yielding_decomp_and_scatter_entry:
  assumes env: "env_ok hw" and "slot_args n i a" and "blocks K (a_desc a) = Some KDesc"
    and "scatter_args hw K (a_dst_payload a) (a_aux_payload a)"
  shows "entry_ok 1 hw K n complete i (yielding_decomp_and_scatter hw a)"
  using assms unfolding yielding_decomp_and_scatter_def [abs_def] args_defs
  by (simp, intro entry_ok_iaa request_rules; simp)

lemma blocking_decomp_and_scatter_request_run:
  assumes env: "env_ok hw" and "test_ok hw complete" and "slot_args n i a" and "blocks K (a_desc a) = Some KDesc"
    and "scatter_args hw K (a_dst_payload a) (a_aux_payload a)"
  shows "run_ok 1 hw K n complete i (blocking_decomp_and_scatter_request hw a)"
  using assms unfolding blocking_decomp_and_scatter_request_def [abs_def] args_defs spin_on_def
  by (simp, intro run_ok_iaa wait_ok_wait request_rules; simp add: env_ok_def)

lemma store_stamps_fin:
  assumes "i < n" and "blocks K p0 = Some (KWords n)" and "blocks K p1 = Some (KWords n)" and "blocks K p2 = Some (KWords n)"
    and "blocks K p3 = Some (KWords n)"
  shows "fin_ok 1 hw K n (\<lambda>w. Option.bind (write_word p0 (int i) t0 (count_request w))
    (\<lambda>w. Option.bind (write_word p1 (int i) t1 w) (\<lambda>w. Option.bind (write_word p2 (int i) t2 w)
      (\<lambda>w. Option.bind (write_word p3 (int i) t3 w) (\<lambda>w. Some (Yield w returns))))))"
  using assms by (intro fin_ok_count [where h = "\<lambda>w. Option.bind (write_word p0 (int i) t0 w) h'" for h']
      closing_bind closing_yield safe_write_word)

lemma blocking_decomp_and_scatter_request_stamped_run:
  assumes env: "env_ok hw" and "test_ok hw complete" and "slot_args n i a" and "blocks K (a_desc a) = Some KDesc"
    and "timed_args K n a" and "scatter_args hw K (a_dst_payload a) (a_aux_payload a)"
  shows "run_ok 1 hw K n complete i (blocking_decomp_and_scatter_request_stamped hw a)"
  using assms unfolding blocking_decomp_and_scatter_request_stamped_def [abs_def] args_defs spin_on_def Let_def
  by (simp, intro run_ok_rdtsc run_ok_iaa wait_ok_rdtsc wait_ok_wait served_ok_fin
      fin_ok_bind [OF safe_check_status] fin_ok_rdtsc fin_ok_bind [OF safe_scatter] store_stamps_fin)
    (simp_all add: env_ok_def)

lemma safe_memset_zero [request_rules]:
  assumes "buffer_of K p m"
  shows "safe hw K n (memset_zero p m)"
  unfolding safe_def
proof (intro allI impI)
  fix w assume "shape w = K"
  with assms obtain bs where bs: "get_bytes p w = Some bs" "m \<le> length bs"
    by (auto simp: buffer_of_def kinds_bytes)
  with later_set_bytes [OF bs(1), of "replicate m 0 @ drop m bs"]
  show "\<exists>w'. memset_zero p m w = Some w' \<and> later hw w w'" by (simp add: memset_zero_def)
qed

lemma blocking_memfill_stamped_run:
  assumes env: "env_ok hw" and t: "test_ok hw complete" and "\<And>k. \<not> busy hw k"
    and "\<And>v. complete v \<Longrightarrow> v = iax_comp_success hw" and "\<not> log_debug hw" and "slot_args n i a"
    and "blocks K (a_desc a) = Some KDesc" and "timed_args K n a"
    and "scatter_args hw K (a_src_payload a) (a_dst_payload a)"
  shows "run_ok 1 hw K n complete i (blocking_memfill_stamped hw a)"
  using assms unfolding blocking_memfill_stamped_def [abs_def] args_defs validate_if_debug_def
  by (simp cong: if_cong, intro run_ok_bind [OF safe_stamp] run_ok_memfill wait_ok_bind [OF _ _ safe_stamp]
      wait_ok_wait served_ok_check request_rules; simp add: env_ok_def)

lemma yielding_memfill_entry:
  assumes env: "env_ok hw" and t: "test_ok hw complete" and "\<And>k. \<not> busy hw k"
    and "\<And>v. complete v \<Longrightarrow> v = iax_comp_success hw" and "\<not> log_debug hw" and "slot_args n i a"
    and "blocks K (a_desc a) = Some KDesc" and "scatter_args hw K (a_src_payload a) (a_dst_payload a)"
  shows "entry_ok 1 hw K n complete i (yielding_memfill hw a)"
  using assms unfolding yielding_memfill_def [abs_def] args_defs validate_if_debug_def
  by (simp cong: if_cong, intro entry_ok_memfill away_ok_yield served_ok_check request_rules; simp)

lemma blocking_memfill_run:
  assumes env: "env_ok hw" and t: "test_ok hw complete" and "\<And>k. \<not> busy hw k"
    and "\<And>v. complete v \<Longrightarrow> v = iax_comp_success hw" and "\<not> log_debug hw" and "slot_args n i a"
    and "blocks K (a_desc a) = Some KDesc" and "scatter_args hw K (a_src_payload a) (a_dst_payload a)"
  shows "run_ok 1 hw K n complete i (blocking_memfill hw a)"
  using assms unfolding blocking_memfill_def [abs_def] args_defs validate_if_debug_def
  by (simp cong: if_cong, intro run_ok_memfill wait_ok_wait served_ok_check request_rules; simp add: env_ok_def)

text \<open>The inputs of the CPU requests.\<close>

definition core_scatter_inputs :: "env \<Rightarrow> shape \<Rightarrow> gpcore_args \<Rightarrow> bool" where
  "core_scatter_inputs hw K a \<longleftrightarrow> (\<exists>src dst p ind. g_inputs a = [src, dst, p, ind] \<and>
    (\<exists>l. blocks K src = Some (KBytes l)) \<and> buffer_of K dst (iaa_compress_max_dest_size hw) \<and>
    blocks K p = Some (KBytes 4) \<and> scatter_args hw K dst ind)"

definition core_memfill_inputs :: "env \<Rightarrow> shape \<Rightarrow> gpcore_args \<Rightarrow> bool" where
  "core_memfill_inputs hw K a \<longleftrightarrow> (\<exists>dst ind rest. g_inputs a = dst # ind # rest \<and>
    buffer_of K dst (input_size hw) \<and> scatter_args hw K dst ind)"

lemma cpu_decomp_and_scatter_stamped_fin:
  assumes "env_ok hw" and "inflate_ok hw" and "core_scatter_inputs hw K a" and "core_timed_args K n i a"
  shows "fin_ok 1 hw K n (cpu_decomp_and_scatter_stamped hw a)"
  unfolding fin_ok_def
proof (intro allI impI)
  fix w assume w: "shape w = K" "length (crs w) = n"
  obtain src dst p ind l where i: "g_inputs a = [src, dst, p, ind]" "blocks K src = Some (KBytes l)"
    "buffer_of K dst (iaa_compress_max_dest_size hw)" "blocks K p = Some (KBytes 4)" "scatter_args hw K dst ind"
    using assms(3) by (auto simp: core_scatter_inputs_def)
  obtain v where v: "read_size p w = Some v" using read_size_ok [of w p] i(4) shape_kinds [OF w(1)] by auto
  have "fin_ok 1 hw K n (\<lambda>w. Option.bind (stamp hw (g_ts0 a) i w) (\<lambda>w.
      Option.bind (gpcore_do_decompress hw dst src v (iaa_compress_max_dest_size hw) w)
      (\<lambda>(rc, sz, w). (\<lambda>sz w. Option.bind (stamp hw (g_ts1 a) i w) (\<lambda>w.
        Option.bind (scatter hw dst ind w) (\<lambda>w. Option.bind (stamp hw (g_ts2 a) i w) finish_request))) sz w)))"
    using assms(1,4) i(2,3,5) unfolding args_defs
    by (intro fin_ok_bind [OF safe_stamp] fin_ok_decompress [OF assms(2) i(2,3)] fin_ok_finish
        safe_scatter [THEN fin_ok_bind]; simp)
  with w i(1) v assms(4) show "\<exists>w' k. cpu_decomp_and_scatter_stamped hw a w = Some (Yield w' k) \<and> finishes 1 hw w w'"
    by (simp add: cpu_decomp_and_scatter_stamped_def fin_ok_def arr_get_def args_defs)
qed

lemma cpu_memfill_stamped_fin:
  assumes "env_ok hw" and "\<not> log_debug hw" and "core_memfill_inputs hw K a" and "core_timed_args K n i a"
  shows "fin_ok 1 hw K n (cpu_memfill_stamped hw a)"
proof -
  obtain dst ind rest where i: "g_inputs a = dst # ind # rest"
    "buffer_of K dst (input_size hw)" "scatter_args hw K dst ind"
    using assms(3) by (auto simp: core_memfill_inputs_def)
  show ?thesis
    using assms(1,2,4) i(2,3)
    unfolding cpu_memfill_stamped_def [abs_def] args_defs validate_if_debug_def
    by (simp add: i(1) arr_get_def) (intro request_rules; simp)
qed

end
