(* ===== verification/Requests_Memcpy.thy ===== *)
theory Requests_Memcpy
  imports Requests_Scatter
begin

text \<open>
  The copy-and-compute requests of \<open>src/memcpy_dp_request.cpp\<close>: copy a payload (on the DSA, or with
  \<open>memcpy\<close>) and run the kernel \<open>compute_on_input\<close> on the copy.  The kernel is a function pointer in
  the source and a parameter here; \<open>dot_product\<close> is the one of \<open>src/mlp.cpp\<close>.
\<close>

section \<open>Kernels\<close>

text \<open>\<open>dot_product(user_buf, bytes)\<close>: reads both vectors; the sum, which is only logged, is dropped.\<close>

definition dot_product_step :: "ptr \<Rightarrow> ptr \<Rightarrow> nat \<Rightarrow> world \<Rightarrow> world option" where
  "dot_product_step item_buf user_buf i w =
    do {
      v1 \<leftarrow> get_bytes item_buf w;
      x \<leftarrow> load32 v1 (4 * i);
      v2 \<leftarrow> get_bytes user_buf w;
      y \<leftarrow> load32 v2 (4 * i);
      Some w
    }"

definition dot_product :: "ptr \<Rightarrow> ptr \<Rightarrow> nat \<Rightarrow> world \<Rightarrow> world option" where
  "dot_product item_buf user_buf bytes = foldM (dot_product_step item_buf user_buf) [0..<bytes div 4]"

definition input_gen_dp :: "env \<Rightarrow> world \<Rightarrow> ptr \<times> world" where
  "input_gen_dp hw w =
    malloc (Bytes (map (\<lambda>i. of_nat (rnd hw (rands w + i) mod 256)) [0..<input_size hw]))
      (w\<lparr>rands := rands w + input_size hw\<rparr>)"

type_synonym kernel = "ptr \<Rightarrow> nat \<Rightarrow> world \<Rightarrow> world option"

section \<open>Requests\<close>

text \<open>\<open>memcpy(dst, src, n)\<close>.\<close>

definition memcpy :: "ptr \<Rightarrow> ptr \<Rightarrow> nat \<Rightarrow> world \<Rightarrow> world option" where
  "memcpy dst src n w =
    do {
      s \<leftarrow> get_bytes src w;
      d \<leftarrow> get_bytes dst w;
      (if n \<le> length s \<and> n \<le> length d then Some (set_bytes dst (take n s @ drop n d) w) else None)
    }"

definition cpu_memcpy_and_compute_stamped :: "env \<Rightarrow> kernel \<Rightarrow> gpcore_args \<Rightarrow> world \<Rightarrow> world slice option" where
  "cpu_memcpy_and_compute_stamped hw compute_on_input args w =
    do {
      src1 \<leftarrow> arr_get (g_inputs args) 0;
      dst1 \<leftarrow> arr_get (g_inputs args) 1;
      p \<leftarrow> arr_get (g_inputs args) 2;
      buf_size \<leftarrow> read_size p w;
      w \<leftarrow> stamp hw (g_ts0 args) (g_id args) w;
      w \<leftarrow> memcpy dst1 src1 buf_size w;
      w \<leftarrow> stamp hw (g_ts1 args) (g_id args) w;
      w \<leftarrow> compute_on_input dst1 buf_size w;
      w \<leftarrow> stamp hw (g_ts2 args) (g_id args) w;
      finish_request w
    }"

definition cpu_memcpy_and_compute :: "kernel \<Rightarrow> gpcore_args \<Rightarrow> world \<Rightarrow> world slice option" where
  "cpu_memcpy_and_compute compute_on_input args w =
    do {
      src1 \<leftarrow> arr_get (g_inputs args) 0;
      dst1 \<leftarrow> arr_get (g_inputs args) 1;
      p \<leftarrow> arr_get (g_inputs args) 2;
      buf_size \<leftarrow> read_size p w;
      w \<leftarrow> memcpy dst1 src1 buf_size w;
      w \<leftarrow> compute_on_input dst1 buf_size w;
      finish_request w
    }"

definition blocking_memcpy_and_compute_stamped ::
  "env \<Rightarrow> kernel \<Rightarrow> offload_args \<Rightarrow> world \<Rightarrow> world slice option" where
  "blocking_memcpy_and_compute_stamped hw compute_on_input args w =
    do {
      w \<leftarrow> stamp hw (a_ts0 args) (a_id args) w;
      w \<leftarrow> prepare_dsa_memcpy_desc_with_preallocated_comp hw (a_desc args) (a_src_payload args)
             (a_dst_payload args) (a_comp args) (input_size hw) w;
      w \<leftarrow> blocking_dsa_submit hw (a_desc args) w;
      w \<leftarrow> stamp hw (a_ts1 args) (a_id args) w;
      w \<leftarrow> spin_on hw (a_comp args) w;
      w \<leftarrow> stamp hw (a_ts2 args) (a_id args) w;
      w \<leftarrow> compute_on_input (a_dst_payload args) (input_size hw) w;
      w \<leftarrow> stamp hw (a_ts3 args) (a_id args) w;
      finish_request w
    }"

definition yielding_memcpy_and_compute_stamped ::
  "env \<Rightarrow> kernel \<Rightarrow> offload_args \<Rightarrow> world \<Rightarrow> world slice option" where
  "yielding_memcpy_and_compute_stamped hw compute_on_input args w =
    do {
      w \<leftarrow> stamp hw (a_ts0 args) (a_id args) w;
      w \<leftarrow> prepare_dsa_memcpy_desc_with_preallocated_comp hw (a_desc args) (a_src_payload args)
             (a_dst_payload args) (a_comp args) (input_size hw) w;
      w \<leftarrow> blocking_dsa_submit hw (a_desc args) w;
      w \<leftarrow> stamp hw (a_ts1 args) (a_id args) w;
      Some (Yield w (\<lambda>_ w.
        do {
          w \<leftarrow> stamp hw (a_ts2 args) (a_id args) w;
          w \<leftarrow> compute_on_input (a_dst_payload args) (input_size hw) w;
          w \<leftarrow> stamp hw (a_ts3 args) (a_id args) w;
          finish_request w
        }))
    }"

definition blocking_memcpy_and_compute ::
  "env \<Rightarrow> kernel \<Rightarrow> offload_args \<Rightarrow> world \<Rightarrow> world slice option" where
  "blocking_memcpy_and_compute hw compute_on_input args w =
    do {
      w \<leftarrow> prepare_dsa_memcpy_desc_with_preallocated_comp hw (a_desc args) (a_src_payload args)
             (a_dst_payload args) (a_comp args) (input_size hw) w;
      w \<leftarrow> blocking_dsa_submit hw (a_desc args) w;
      w \<leftarrow> wait_while hw (iax_comp_none hw) (a_comp args) w;
      (s, w) \<leftarrow> read_status hw (a_comp args) w;
      (if s \<noteq> iax_comp_success hw then Some (Exit w)
       else do {
         w \<leftarrow> compute_on_input (a_dst_payload args) (input_size hw) w;
         finish_request w
       })
    }"

definition yielding_memcpy_and_compute ::
  "env \<Rightarrow> kernel \<Rightarrow> offload_args \<Rightarrow> world \<Rightarrow> world slice option" where
  "yielding_memcpy_and_compute hw compute_on_input args w =
    do {
      w \<leftarrow> prepare_dsa_memcpy_desc_with_preallocated_comp hw (a_desc args) (a_src_payload args)
             (a_dst_payload args) (a_comp args) (input_size hw) w;
      w \<leftarrow> blocking_dsa_submit hw (a_desc args) w;
      Some (Yield w (\<lambda>_ w.
        do {
          w \<leftarrow> compute_on_input (a_dst_payload args) (input_size hw) w;
          finish_request w
        }))
    }"

section \<open>Contracts\<close>

text \<open>What the requests need of the kernel: it returns and only reads or overwrites buffers.\<close>

definition kernel_ok :: "env \<Rightarrow> shape \<Rightarrow> nat \<Rightarrow> kernel \<Rightarrow> ptr \<Rightarrow> nat \<Rightarrow> bool" where
  "kernel_ok hw K n compute p len \<longleftrightarrow> safe hw K n (compute p len)"

lemma dot_product_returns:
  assumes "buffer_of (shape w) item_buf len" and "buffer_of (shape w) p len"
  shows "dot_product item_buf p len w = Some w"
proof -
  obtain b1 b2 where b: "get_bytes item_buf w = Some b1" "len \<le> length b1"
    "get_bytes p w = Some b2" "len \<le> length b2"
    using assms by (auto simp: buffer_of_def kinds_bytes)
  have "\<exists>w'. foldM (dot_product_step item_buf p) [0..<len div 4] w = Some w' \<and> w' = w"
  proof (rule foldM_upt_rule)
    fix i s assume "i < len div 4" "s = w"
    moreover from this b have "4 * i + 4 \<le> length b1" "4 * i + 4 \<le> length b2" by linarith+
    ultimately show "\<exists>s'. dot_product_step item_buf p i s = Some s' \<and> s' = w"
      using b by (simp add: dot_product_step_def load32_def)
  qed simp_all
  then show ?thesis by (auto simp: dot_product_def)
qed

lemma dot_product_ok:
  "buffer_of K item_buf len \<Longrightarrow> buffer_of K p len \<Longrightarrow> kernel_ok hw K n (dot_product item_buf) p len"
  by (auto simp: kernel_ok_def safe_def dot_product_returns)

lemma yielding_memcpy_and_compute_stamped_entry:
  assumes env: "env_ok hw" and "slot_args n i a" and "blocks K (a_desc a) = Some KDesc" and "timed_args K n a"
    and "kernel_ok hw K n compute (a_dst_payload a) (input_size hw)"
  shows "entry_ok 1 hw K n complete i (yielding_memcpy_and_compute_stamped hw compute a)"
  using assms unfolding yielding_memcpy_and_compute_stamped_def [abs_def] args_defs kernel_ok_def
  by (simp, intro entry_ok_bind [OF safe_stamp] entry_ok_memcpy request_rules; simp)

lemma yielding_memcpy_and_compute_entry:
  assumes env: "env_ok hw" and "slot_args n i a" and "blocks K (a_desc a) = Some KDesc"
    and "kernel_ok hw K n compute (a_dst_payload a) (input_size hw)"
  shows "entry_ok 1 hw K n complete i (yielding_memcpy_and_compute hw compute a)"
  using assms unfolding yielding_memcpy_and_compute_def [abs_def] args_defs kernel_ok_def
  by (simp, intro entry_ok_memcpy request_rules; simp)

lemma blocking_memcpy_and_compute_stamped_run:
  assumes env: "env_ok hw" and "test_ok hw complete" and "slot_args n i a" and "blocks K (a_desc a) = Some KDesc"
    and "timed_args K n a" and "kernel_ok hw K n compute (a_dst_payload a) (input_size hw)"
  shows "run_ok 1 hw K n complete i (blocking_memcpy_and_compute_stamped hw compute a)"
  using assms
  unfolding blocking_memcpy_and_compute_stamped_def [abs_def] args_defs spin_on_def kernel_ok_def
  by (simp, intro run_ok_bind [OF safe_stamp] run_ok_memcpy wait_ok_bind [OF _ _ safe_stamp]
      wait_ok_wait request_rules; simp add: env_ok_def)

lemma blocking_memcpy_and_compute_run:
  assumes env: "env_ok hw" and t: "test_ok hw complete" and "\<And>v. complete v \<Longrightarrow> v = iax_comp_success hw"
    and "slot_args n i a" and "blocks K (a_desc a) = Some KDesc"
    and "kernel_ok hw K n compute (a_dst_payload a) (input_size hw)"
  shows "run_ok 1 hw K n complete i (blocking_memcpy_and_compute hw compute a)"
  using assms unfolding blocking_memcpy_and_compute_def [abs_def] args_defs kernel_ok_def
  by (simp cong: if_cong, intro run_ok_memcpy wait_ok_wait served_ok_check request_rules; simp add: env_ok_def)

end
