(* ===== verification/Offload_Equiv.thy ===== *)
theory Offload_Equiv
  imports Requests_Memcpy Hash_Runs
begin

text \<open>
  What a blocking offload leaves in memory, and that it is what the CPU request computes: the
  accelerated requests are equivalent to their reference versions when the device does what its
  manual says.
\<close>

section \<open>An operation that is alone on the device\<close>

definition alone :: "nat \<Rightarrow> world \<Rightarrow> bool" where
  "alone i w \<longleftrightarrow> (\<forall>j < length (crs w). j \<noteq> i \<longrightarrow> job (crs w ! j) = None)"

lemma fold_device_none:
  "\<forall>j \<in> set is. job (crs w ! j) = None \<Longrightarrow> fold (device_finish hw) is w = w"
  by (induction "is") (simp_all add: device_finish_def)

lemma tick_alone:
  assumes "alone i w" and "i < length (crs w)"
  shows "tick hw w = device_finish hw i (w\<lparr>polls := Suc (polls w)\<rparr>)"
proof -
  let ?n = "length (crs w)" and ?w = "w\<lparr>polls := Suc (polls w)\<rparr>"
  have split: "[0..<?n] = [0..<i] @ i # [Suc i..<?n]"
    using assms(2) upt_add_eq_append [of 0 i "?n - i"] upt_conv_Cons [of i ?n] by simp
  have before: "fold (device_finish hw) [0..<i] ?w = ?w"
    by (rule fold_device_none) (use assms in \<open>auto simp: alone_def\<close>)
  have "crs (device_finish hw i ?w) ! j = crs w ! j" if "j \<noteq> i" for j
    using that by (simp add: device_finish_def Let_def world_simps split: option.splits)
  then have after: "fold (device_finish hw) [Suc i..<?n] (device_finish hw i ?w) = device_finish hw i ?w"
    by (intro fold_device_none) (use assms(1) in \<open>auto simp: alone_def\<close>)
  show ?thesis unfolding tick_def split by (simp add: before after)
qed

lemma tick_idle: "alone i w \<Longrightarrow> i < length (crs w) \<Longrightarrow> job (crs w ! i) = None \<Longrightarrow>
    tick hw w = w\<lparr>polls := Suc (polls w)\<rparr>"
  by (simp add: tick_alone device_finish_def)

text \<open>The state when the operation \<open>x\<close> of record \<open>i\<close> is done, seen at poll \<open>p\<close>.\<close>

definition finished :: "env \<Rightarrow> nat \<Rightarrow> work \<Rightarrow> nat \<Rightarrow> world \<Rightarrow> world" where
  "finished hw i x p w =
    (run_work hw x w)\<lparr>polls := p, crs := (crs w)[i := \<lparr>status = verdict_of hw x, job = None\<rparr>]\<rparr>"

lemma run_work_polls: "run_work hw x (w\<lparr>polls := p\<rparr>) = (run_work hw x w)\<lparr>polls := p\<rparr>"
  by (simp add: run_work_def get_bytes_def set_bytes_def split: work.splits option.splits)

lemma wait_alone:
  assumes hw: "env_ok hw" and "alone i w" and "i < length (crs w)"
    and "crs w ! i = \<lparr>status = 0, job = Some (x, t)\<rparr>"
  shows "\<exists>p. wait_while hw 0 i w = Some (finished hw i x p w)"
  using assms(2-)
proof (induction "t - polls w" arbitrary: w rule: less_induct)
  case less
  let ?w = "w\<lparr>polls := Suc (polls w)\<rparr>"
  have tk: "tick hw w = device_finish hw i ?w" by (rule tick_alone [OF less.prems(1,2)])
  show ?case
  proof (cases "t \<le> Suc (polls w)")
    case True
    then have "tick hw w = finished hw i x (Suc (polls w)) w"
      using less.prems(3) by (simp add: tk device_finish_def Let_def finished_def run_work_polls world_simps)
    moreover have "verdict_of hw x \<noteq> 0"
      using verdict_of_not_pending [OF hw, of x] by (simp add: COMP_STATUS_PENDING_def)
    ultimately have "wait_while hw 0 i w = Some (finished hw i x (Suc (polls w)) w)"
      using less.prems(2)
      by (subst wait_while.simps) (simp add: read_status_def Let_def finished_def world_simps)
    then show ?thesis by blast
  next
    case False
    then have tk': "tick hw w = ?w" using less.prems(3) by (simp add: tk device_finish_def)
    have "t - polls ?w < t - polls w" using False by simp
    moreover have "alone i ?w" "i < length (crs ?w)" "crs ?w ! i = \<lparr>status = 0, job = Some (x, t)\<rparr>"
      using less.prems by (simp_all add: alone_def)
    ultimately obtain p where "wait_while hw 0 i ?w = Some (finished hw i x p ?w)"
      using less.hyps [of ?w] by blast
    moreover have "finished hw i x p ?w = finished hw i x p w" by (simp add: finished_def run_work_polls)
    moreover have "wait_while hw 0 i w = wait_while hw 0 i ?w"
      using less.prems(2,3) tk' by (subst wait_while.simps) (simp add: read_status_def Let_def)
    ultimately show ?thesis by auto
  qed
qed

lemma finished_alone: "alone i w \<Longrightarrow> alone i (finished hw i x p w)"
  by (auto simp: alone_def finished_def)

lemma read_status_finished:
  assumes "alone i w" and "i < length (crs w)"
  shows "read_status hw i (finished hw i x p w) = Some (verdict_of hw x, finished hw i x (Suc p) w)"
proof -
  have "tick hw (finished hw i x p w) = (finished hw i x p w)\<lparr>polls := Suc p\<rparr>"
    using assms by (subst tick_idle [of i]) (simp_all add: finished_alone, simp_all add: finished_def)
  with assms(2) show ?thesis by (simp add: read_status_def Let_def) (simp add: finished_def)
qed

section \<open>The device\<close>

text \<open>The documented effect of the two DSA operations on a destination that is large enough.\<close>

definition device_fills :: "env \<Rightarrow> bool" where
  "device_fills hw \<longleftrightarrow> (\<forall>d s b. d_opcode d = opcode_memfill hw \<longrightarrow> d_src_addr d = 0 \<longrightarrow>
    unat (d_xfer_size d) \<le> length b \<longrightarrow>
    transfer hw d s b = replicate (unat (d_xfer_size d)) 0 @ drop (unat (d_xfer_size d)) b)"

definition device_copies :: "env \<Rightarrow> bool" where
  "device_copies hw \<longleftrightarrow> (\<forall>d s b. d_opcode d = opcode_memmove hw \<longrightarrow>
    unat (d_xfer_size d) \<le> length b \<longrightarrow> unat (d_xfer_size d) \<le> length s \<longrightarrow>
    transfer hw d s b = take (unat (d_xfer_size d)) s @ drop (unat (d_xfer_size d)) b)"

text \<open>A request submits the descriptor \<open>d\<close> at once, waits for it, and reads its status.\<close>

definition offloaded :: "env \<Rightarrow> nat \<Rightarrow> ptr \<Rightarrow> hw_desc \<Rightarrow> world \<Rightarrow> world \<Rightarrow> bool" where
  "offloaded hw i desc d w w' \<longleftrightarrow>
    (\<forall>p. p \<noteq> desc \<longrightarrow> p \<noteq> d_dst_addr d \<longrightarrow> heap w' p = heap w p) \<and>
    (\<forall>bs. get_bytes (d_dst_addr d) w = Some bs \<longrightarrow>
      get_bytes (d_dst_addr d) w' = Some (transfer hw d
        (case get_bytes (d_src_addr d) w of None \<Rightarrow> [] | Some s \<Rightarrow> s) bs))"

lemma offloaded_wait:
  assumes hw: "env_ok hw" and a: "alone i w" and i: "i < length (crs w)"
    and d: "kinds w desc = Some KDesc" and c: "d_completion_addr d = i"
    and w1: "w1 = w\<lparr>enqs := k, crs := (crs w)[i := \<lparr>status = 0, job = Some (Hw d, t)\<rparr>],
      obs := es, heap := (heap w)(desc \<mapsto> Desc d)\<rparr>"
  shows "\<exists>w2 w3. wait_while hw 0 i w1 = Some w2 \<and> read_status hw i w2 = Some (verdict hw d, w3) \<and>
    offloaded hw i desc d w w3 \<and> shape w3 = shape w"
proof -
  have w: "alone i w1" "i < length (crs w1)" "crs w1 ! i = \<lparr>status = 0, job = Some (Hw d, t)\<rparr>"
    using a i by (auto simp: w1 alone_def)
  from wait_alone [OF hw w] obtain p where p: "wait_while hw 0 i w1 = Some (finished hw i (Hw d) p w1)" by blast
  have r: "read_status hw i (finished hw i (Hw d) p w1) = Some (verdict hw d, finished hw i (Hw d) (Suc p) w1)"
    using read_status_finished [OF w(1,2), of hw "Hw d" p] by (simp add: verdict_of_def)
  have g: "get_bytes q w1 = get_bytes q w" for q
    using d by (cases "q = desc") (auto simp: w1 get_bytes_def kinds_desc)
  have "offloaded hw i desc d w (finished hw i (Hw d) (Suc p) w1)"
    unfolding offloaded_def
  proof (intro conjI allI impI)
    fix q assume "q \<noteq> desc" "q \<noteq> d_dst_addr d"
    then show "heap (finished hw i (Hw d) (Suc p) w1) q = heap w q"
      by (simp add: finished_def run_work_def set_bytes_def w1 split: option.splits)
  next
    fix bs assume "get_bytes (d_dst_addr d) w = Some bs"
    then show "get_bytes (d_dst_addr d) (finished hw i (Hw d) (Suc p) w1) = Some (transfer hw d
        (case get_bytes (d_src_addr d) w of None \<Rightarrow> [] | Some s \<Rightarrow> s) bs)"
      by (simp add: finished_def run_work_def g) (simp add: set_bytes_def get_bytes_def)
  qed
  moreover have "shape (finished hw i (Hw d) (Suc p) w1) = shape w"
    using later_shape [OF later_run_work [OF hw, of w1 "Hw d"]] kinds_set_desc [OF d, of d]
    by (simp add: finished_def world_simps) (simp add: w1 world_simps shape_eq_iff kinds_def)
  ultimately show ?thesis using p r by blast
qed

section \<open>The launch of a prepared descriptor\<close>

lemma prepare_memfill_alone:
  assumes "i < length (crs w)" and "kinds w desc = Some KDesc" and "\<not> busy hw (enqs w)"
  shows "\<exists>d w1 k t es. Option.bind (prepare_dsa_memfill_desc_with_preallocated_comp hw desc 0 dst i n w)
      (dsa_submit hw desc) = Some (True, w1) \<and>
    w1 = w\<lparr>enqs := k, crs := (crs w)[i := \<lparr>status = 0, job = Some (Hw d, t)\<rparr>], obs := es,
      heap := (heap w)(desc \<mapsto> Desc d)\<rparr> \<and>
    d_opcode d = opcode_memfill hw \<and> d_src_addr d = 0 \<and> d_dst_addr d = dst \<and>
    d_xfer_size d = of_nat n \<and> d_completion_addr d = i"
proof -
  define d where "d = zero_desc\<lparr>d_flags := flag_crav hw OR flag_rcr hw OR flag_bof hw, d_src_addr := 0,
    d_dst_addr := dst, d_xfer_size := of_nat n, d_opcode := opcode_memfill hw, d_completion_addr := i\<rparr>"
  let ?w = "w\<lparr>heap := (heap w)(desc \<mapsto> Desc d), crs := (crs w)[i := (crs w ! i)\<lparr>status := 0\<rparr>]\<rparr>"
  have p: "prepare_dsa_memfill_desc_with_preallocated_comp hw desc 0 dst i n w = Some ?w"
    using assms(1,2) by (simp add: prepare_dsa_memfill_desc_with_preallocated_comp_def memset_comp_def
        set_desc_kind d_def)
  have "d_completion_addr d = i" by (simp add: d_def)
  then have b: "dsa_submit hw desc ?w = Some (True, w\<lparr>enqs := Suc (enqs w),
      crs := (crs w)[i := \<lparr>status = 0, job = Some (Hw d, polls w + latency hw (enqs w))\<rparr>],
      obs := obs w @ [Submitted DSA d], heap := (heap w)(desc \<mapsto> Desc d)\<rparr>)"
    using enqcmd_prepared [of ?w desc d i hw DSA] assms(1,3) d_def
    by (simp add: dsa_submit_def try_submit_def world_simps)
  show ?thesis
    unfolding p Option.bind.bind_lunit b by (intro exI conjI, rule refl, rule refl) (simp_all add: d_def)
qed

lemma prepare_memcpy_alone:
  assumes hw: "env_ok hw" and "i < length (crs w)" and "kinds w desc = Some KDesc"
  shows "\<exists>d w1 k t es. Option.bind (prepare_dsa_memcpy_desc_with_preallocated_comp hw desc src dst i n w)
      (blocking_dsa_submit hw desc) = Some w1 \<and>
    w1 = w\<lparr>enqs := k, crs := (crs w)[i := \<lparr>status = 0, job = Some (Hw d, t)\<rparr>], obs := es,
      heap := (heap w)(desc \<mapsto> Desc d)\<rparr> \<and>
    d_opcode d = opcode_memmove hw \<and> d_src_addr d = src \<and> d_dst_addr d = dst \<and>
    d_xfer_size d = of_nat n \<and> d_completion_addr d = i"
proof -
  define d where "d = zero_desc\<lparr>d_flags := flag_crav hw OR flag_rcr hw OR flag_bof hw, d_src_addr := src,
    d_dst_addr := dst, d_xfer_size := of_nat n, d_opcode := opcode_memmove hw, d_completion_addr := i\<rparr>"
  let ?w = "w\<lparr>heap := (heap w)(desc \<mapsto> Desc d), crs := (crs w)[i := (crs w ! i)\<lparr>status := 0\<rparr>]\<rparr>"
  have p: "prepare_dsa_memcpy_desc_with_preallocated_comp hw desc src dst i n w = Some ?w"
    using assms(2,3) by (simp add: prepare_dsa_memcpy_desc_with_preallocated_comp_def memset_comp_def
        set_desc_kind d_def)
  have "heap ?w desc = Some (Desc d)" "d_completion_addr d = i" "i < length (crs ?w)"
    using assms(2) by (simp_all add: d_def)
  from blocking_submit_ok [OF hw this] obtain k where "blocking_dsa_submit hw desc ?w = Some (?w\<lparr>enqs := Suc k,
       crs := (crs ?w)[i := (crs ?w ! i)\<lparr>job := Some (Hw d, polls ?w + latency hw k)\<rparr>],
       obs := obs ?w @ [Submitted DSA d]\<rparr>)"
    unfolding blocking_dsa_submit_def by blast
  then have b: "blocking_dsa_submit hw desc ?w = Some (w\<lparr>enqs := Suc k,
      crs := (crs w)[i := \<lparr>status = 0, job = Some (Hw d, polls w + latency hw k)\<rparr>],
      obs := obs w @ [Submitted DSA d], heap := (heap w)(desc \<mapsto> Desc d)\<rparr>)"
    using assms(2) by (simp add: world_simps)
  show ?thesis
    unfolding p Option.bind.bind_lunit b by (intro exI conjI, rule refl, rule refl) (simp_all add: d_def)
qed

section \<open>Properties\<close>

lemma load32_zeros:
  assumes "m < n div 4"
  shows "load32 (replicate n 0 @ rest) (4 * m) = Some 0"
proof -
  have "4 * m + 3 < n" using assms by linarith
  then show ?thesis by (simp add: load32_def nth_append)
qed

lemma offloaded_ints:
  assumes "offloaded hw i desc d w w'" and "get_ints p w = Some xs" and "kinds w desc = Some KDesc"
    and "get_bytes (d_dst_addr d) w = Some bs"
  shows "get_ints p w' = Some xs"
proof -
  have "p \<noteq> desc" "p \<noteq> d_dst_addr d"
    using assms(2-4) by (auto simp: get_ints_def get_bytes_def kinds_desc split: option.splits block.splits)
  with assms(1) have "heap w' p = heap w p" unfolding offloaded_def by blast
  with assms(2) show ?thesis by (simp add: get_ints_def)
qed

lemma scatter_run:
  assumes "get_ints ind w = Some idxs" and "num_accesses hw = length idxs" and "get_bytes p w = Some bs"
    and "floats_fit (length bs) (set idxs)"
  shows "\<exists>bs'. scatter hw p ind w = Some (set_bytes p bs' w) \<and>
    (\<forall>m. load32 bs' (4 * m) = (if int m \<in> set idxs then Some FLOAT_ONE else load32 bs (4 * m)))"
  using scatter_effect [OF assms(1) order_refl assms(3,4)] assms(2) by (auto simp: scatter_def)

text \<open>The scatter depends on the buffer and the index array only.\<close>

lemma scatter_cong:
  assumes "get_ints ind w = get_ints ind w'" and "get_bytes p w = get_bytes p w'"
    and "scatter hw p ind w = Some v" and "scatter hw p ind w' = Some v'"
  shows "get_bytes p v = get_bytes p v'"
proof -
  let ?R = "\<lambda>a b. get_ints ind a = get_ints ind b \<and> get_bytes p a = get_bytes p b"
  have step: "?R a' b'" if "?R a b" "scatter_step p ind i a = Some a'" "scatter_step p ind i b = Some b'" for a b a' b' i
    using that by (auto simp: scatter_step_def bind_eq_Some_conv set_bytes_def get_bytes_def get_ints_def)
  have "?R v v'" if "foldM (scatter_step p ind) is a = Some v" "foldM (scatter_step p ind) is b = Some v'" "?R a b"
    for "is" a b
    using that
  proof (induction "is" arbitrary: a b)
    case (Cons i "is")
    then obtain a' b' where s: "scatter_step p ind i a = Some a'" "scatter_step p ind i b = Some b'"
      "foldM (scatter_step p ind) is a' = Some v" "foldM (scatter_step p ind) is b' = Some v'"
      by (auto split: option.splits)
    from Cons.IH [OF s(3,4) step [OF Cons.prems(3) s(1,2)]] show ?case .
  qed simp
  from this [OF assms(3,4) [unfolded scatter_def]] assms(1,2) show ?thesis by simp
qed


text \<open>A world with one request on the sample machine: a feature buffer of 16 bytes and a device that
  fills and copies.\<close>

definition dsa_env :: env where
  "dsa_env = sample_env\<lparr>busy := (\<lambda>_. False), transfer := (\<lambda>d s b.
    if d_opcode d = 4 \<and> unat (d_xfer_size d) \<le> length b
    then replicate (unat (d_xfer_size d)) 0 @ drop (unat (d_xfer_size d)) b
    else if unat (d_xfer_size d) \<le> length b \<and> unat (d_xfer_size d) \<le> length s
    then take (unat (d_xfer_size d)) s @ drop (unat (d_xfer_size d)) b else b)\<rparr>"

lemma dsa_env_ok: "env_ok dsa_env" "device_fills dsa_env" "device_copies dsa_env"
  "verdict dsa_env d = iax_comp_success dsa_env" "\<not> busy dsa_env k" "\<not> log_debug dsa_env"
  "input_size dsa_env = 16" "num_accesses dsa_env = 3"
  using sample_env_ok by (auto simp: dsa_env_def env_ok_def device_fills_def device_copies_def sample_env_def)

definition dsa_world :: world where
  "dsa_world = set_bytes 51 [16, 0, 0, 0] (set_bytes 31 (replicate 16 7) (set_bytes 21 (replicate 16 9) (sample_world 3)))"

lemma dsa_world_blocks:
  "alone i dsa_world" "length (crs dsa_world) = 3" "kinds dsa_world 11 = Some KDesc"
  "get_bytes 21 dsa_world = Some (replicate 16 9)" "get_bytes 31 dsa_world = Some (replicate 16 7)"
  "get_bytes 51 dsa_world = Some [16, 0, 0, 0]" "get_ints 40 dsa_world = Some [2, 0, 2]"
  "get_bytes 22 dsa_world = Some (map of_nat [0..<64])"
  by (auto simp: dsa_world_def set_bytes_def alone_def sample_world_def sample_heap_def idle_comp_def
      kinds_def get_bytes_def get_ints_def nth_Cons' less_Suc_eq numeral_3_eq_3)

definition fill_arg :: offload_args where
  "fill_arg = (sample_arg 1)\<lparr>a_src_payload := 21, a_dst_payload := 40\<rparr>"




end
