(* ===== verification/Heap_Life.thy ===== *)
theory Heap_Life
  imports Gather_Scatter Requests_Hash
begin

text \<open>
  Who owns which block: what an allocator adds to the heap, what a deallocator takes away from it,
  and the contract of a pair of the two, as a locale.  The clients are the argument allocators of
  the requests (\<open>Request_Args\<close>), the posting lists (\<open>Posting_List\<close>) and the harnesses that call them.
\<close>

section \<open>Loops over the heap\<close>

text \<open>\<open>for (i...) a[i] = f(i)\<close>: a loop that fills an array with what it allocates.\<close>

fun alloc_loop :: "('i \<Rightarrow> world \<Rightarrow> ('a \<times> world) option) \<Rightarrow> 'i list \<Rightarrow> world \<Rightarrow> ('a list \<times> world) option" where
  "alloc_loop f [] w = Some ([], w)"
| "alloc_loop f (i # is) w =
    do {
      (a, w) \<leftarrow> f i w;
      (as, w) \<leftarrow> alloc_loop f is w;
      Some (a # as, w)
    }"

text \<open>\<open>free(p); free(q); ...\<close>.\<close>

fun frees :: "ptr list \<Rightarrow> world \<Rightarrow> world option" where
  "frees [] w = Some w"
| "frees (p # ps) w = do { w \<leftarrow> mfree p w; frees ps w }"

section \<open>Fresh heaps and growing heaps\<close>

definition fresh :: "world \<Rightarrow> bool" where
  "fresh w \<longleftrightarrow> 0 < nxt w \<and> (\<forall>p \<ge> nxt w. heap w p = None)"

text \<open>\<open>grows A w w'\<close>: the blocks \<open>A\<close> are new in \<open>w'\<close>, nothing else of the heap has changed.\<close>

definition grows :: "ptr set \<Rightarrow> world \<Rightarrow> world \<Rightarrow> bool" where
  "grows A w w' \<longleftrightarrow> nxt w \<le> nxt w' \<and> (\<forall>p \<in> A. nxt w \<le> p \<and> p < nxt w' \<and> heap w' p \<noteq> None) \<and>
    (\<forall>p. p \<notin> A \<longrightarrow> heap w' p = heap w p)"

text \<open>\<open>calm w w'\<close>: no request was run and no global variable set between the two.\<close>

definition calm :: "world \<Rightarrow> world \<Rightarrow> bool" where
  "calm w w' \<longleftrightarrow> crs w' = crs w \<and> requests_completed w' = requests_completed w \<and> obs w' = obs w \<and>
    g_indir_arr w' = g_indir_arr w \<and> g_item_buf w' = g_item_buf w"

lemma calm_refl [simp]: "calm w w"
  by (simp add: calm_def)

lemma calm_trans [trans]: "calm a b \<Longrightarrow> calm b c \<Longrightarrow> calm a c"
  by (simp add: calm_def)

lemma grows_refl: "grows {} w w"
  by (simp add: grows_def)

lemma grows_trans: "grows A w w1 \<Longrightarrow> grows B w1 w2 \<Longrightarrow> grows (A \<union> B) w w2"
  unfolding grows_def by (metis UnE UnI1 UnI2 le_trans less_le_trans)

lemma grows_disjoint: "grows A w w1 \<Longrightarrow> grows B w1 w2 \<Longrightarrow> A \<inter> B = {}"
  unfolding grows_def by (metis disjoint_iff leD)

lemma grows_nxt: "grows A w w' \<Longrightarrow> nxt w \<le> nxt w'"
  by (simp add: grows_def)

lemma grows_fresh: "grows A w w' \<Longrightarrow> fresh w \<Longrightarrow> fresh w'"
  unfolding grows_def fresh_def by (metis leD le_trans less_le_trans)

lemma grows_nonzero: "grows A w w' \<Longrightarrow> fresh w \<Longrightarrow> p \<in> A \<Longrightarrow> p \<noteq> 0"
  by (auto simp: grows_def fresh_def)

lemma grows_kinds: "grows A w w' \<Longrightarrow> p \<notin> A \<Longrightarrow> kinds w' p = kinds w p"
  by (simp add: grows_def kinds_def)

lemma grows_old_kinds: "grows A w w1 \<Longrightarrow> grows B w1 w2 \<Longrightarrow> p \<in> A \<Longrightarrow> kinds w2 p = kinds w1 p"
  using grows_kinds grows_disjoint by blast

lemma grows_kinds_below: "grows A w w' \<Longrightarrow> p < nxt w \<Longrightarrow> kinds w' p = kinds w p"
  by (cases "p \<in> A") (auto simp: grows_def kinds_def)

lemma malloc_grows: "malloc b w = (p, w') \<Longrightarrow> grows {p} w w' \<and> calm w w' \<and> heap w' p = Some b"
  by (auto simp: malloc_def grows_def calm_def)

text \<open>Overwriting a block that is new.\<close>

lemma grows_update:
  "grows A w w' \<Longrightarrow> p \<in> A \<Longrightarrow> grows A w (w'\<lparr>heap := (heap w')(p \<mapsto> b)\<rparr>)"
  by (simp add: grows_def)

text \<open>A run keeps the shape, hence the freshness.\<close>

lemma fresh_kinds: "fresh w \<longleftrightarrow> 0 < nxt w \<and> (\<forall>p \<ge> nxt w. kinds w p = None)"
  by (simp add: fresh_def kinds_def)

lemma shape_fresh: "shape w' = shape w \<Longrightarrow> fresh w' = fresh w"
  by (simp add: fresh_kinds shape_eq_iff)

section \<open>Deallocation\<close>

text \<open>\<open>releases K D f\<close>: on every heap in which the blocks \<open>D\<close> have their kinds of \<open>K\<close>, \<open>f\<close> frees
  exactly these blocks, and changes nothing else.\<close>

definition without :: "ptr set \<Rightarrow> world \<Rightarrow> world" where
  "without D w = w\<lparr>heap := (\<lambda>p. if p \<in> D then None else heap w p)\<rparr>"

definition releases :: "(ptr \<Rightarrow> kind option) \<Rightarrow> ptr set \<Rightarrow> (world \<Rightarrow> world option) \<Rightarrow> bool" where
  "releases K D f \<longleftrightarrow> (\<forall>w. (\<forall>p \<in> D. kinds w p = K p) \<longrightarrow> f w = Some (without D w))"

lemma without_simps [simp]:
  "without {} w = w" "without A (without B w) = without (A \<union> B) w" "nxt (without D w) = nxt w"
  "crs (without D w) = crs w" "requests_completed (without D w) = requests_completed w"
  "obs (without D w) = obs w" "g_indir_arr (without D w) = g_indir_arr w" "g_item_buf (without D w) = g_item_buf w"
  "polls (without D w) = polls w" "tscs (without D w) = tscs w" "enqs (without D w) = enqs w" "rands (without D w) = rands w"
  by (auto simp: without_def fun_eq_iff)

lemma kinds_without: "kinds (without D w) p = (if p \<in> D then None else kinds w p)"
  by (simp add: without_def kinds_def)

lemma heap_without: "heap (without D w) p = (if p \<in> D then None else heap w p)"
  by (simp add: without_def)

lemma releases_skip: "releases K {} Some"
  by (simp add: releases_def)

lemma releases_mfree: "p \<noteq> 0 \<Longrightarrow> K p \<noteq> None \<Longrightarrow> releases K {p} (mfree p)"
  by (auto simp: releases_def mfree_def without_def kinds_def fun_upd_def cong: if_cong)

lemma releases_bind:
  assumes "releases K A f" and "releases K B g" and "A \<inter> B = {}"
  shows "releases K (A \<union> B) (\<lambda>w. Option.bind (f w) g)"
  unfolding releases_def
proof (intro allI impI)
  fix w assume k: "\<forall>p \<in> A \<union> B. kinds w p = K p"
  then have "f w = Some (without A w)" using assms(1) by (simp add: releases_def)
  moreover have "\<forall>p \<in> B. kinds (without A w) p = K p"
    using k assms(3) by (auto simp: kinds_without)
  then have "g (without A w) = Some (without B (without A w))" using assms(2) by (simp add: releases_def)
  ultimately show "Option.bind (f w) g = Some (without (A \<union> B) w)" by (simp add: Un_commute)
qed

lemma releases_frees:
  "distinct ps \<Longrightarrow> 0 \<notin> set ps \<Longrightarrow> (\<forall>p \<in> set ps. K p \<noteq> None) \<Longrightarrow> releases K (set ps) (frees ps)"
proof (induction ps)
  case Nil
  show ?case using releases_skip by (simp add: releases_def)
next
  case (Cons p ps)
  have "p \<noteq> 0" "K p \<noteq> None" using Cons.prems by auto
  from releases_mfree [of p K, OF this] have "releases K ({p} \<union> set ps) (\<lambda>w. Option.bind (mfree p w) (frees ps))"
    by (rule releases_bind) (use Cons in auto)
  then show ?case by (simp add: releases_def)
qed

lemma releases_foldM:
  assumes "\<And>x. x \<in> set xs \<Longrightarrow> releases K (D x) (f x)"
    and "\<And>i j. i < j \<Longrightarrow> j < length xs \<Longrightarrow> D (xs ! i) \<inter> D (xs ! j) = {}"
  shows "releases K (\<Union>x \<in> set xs. D x) (foldM f xs)"
  using assms
proof (induction xs)
  case Nil
  show ?case by (simp add: releases_def)
next
  case (Cons x xs)
  have "releases K (\<Union>x \<in> set xs. D x) (foldM f xs)"
  proof (rule Cons.IH)
    show "D (xs ! i) \<inter> D (xs ! j) = {}" if "i < j" "j < length xs" for i j
      using Cons.prems(2) [of "Suc i" "Suc j"] that by simp
  qed (use Cons.prems(1) in auto)
  moreover have "D x \<inter> (\<Union>y \<in> set xs. D y) = {}"
  proof -
    have "D x \<inter> D (xs ! j) = {}" if "j < length xs" for j
      using Cons.prems(2) [of 0 "Suc j"] that by simp
    then show ?thesis by (fastforce simp: in_set_conv_nth)
  qed
  ultimately have "releases K (D x \<union> (\<Union>x \<in> set xs. D x)) (\<lambda>w. Option.bind (f x w) (foldM f xs))"
    using Cons.prems(1) by (intro releases_bind) simp_all
  moreover have "foldM f (x # xs) = (\<lambda>w. Option.bind (f x w) (foldM f xs))"
    by (rule ext) (simp split: option.splits bind_splits)
  ultimately show ?case by simp
qed

text \<open>Freeing what was allocated gives the heap back.\<close>

lemma releases_grows:
  assumes "fresh w" and "grows A w w'" and "releases (kinds w') A f"
  shows "\<exists>w2. f w' = Some w2 \<and> heap w2 = heap w \<and> w2 = without A w'"
proof -
  have "f w' = Some (without A w')" using assms(3) by (simp add: releases_def)
  moreover have "heap (without A w') = heap w"
    using assms(1,2) by (auto simp: heap_without grows_def fresh_def fun_eq_iff)
  ultimately show ?thesis by blast
qed

text \<open>The same after requests have run, which keep the shape of the heap.\<close>

lemma releases_after_run:
  assumes "fresh w" and "grows A w w1" and "releases (kinds w1) A f" and "shape w1' = shape w1"
  shows "\<exists>w2. f w1' = Some w2 \<and> w2 = without A w1' \<and>
    (\<forall>p. heap w2 p = (if p < nxt w then heap w1' p else None))"
proof -
  have k: "kinds w1' p = kinds w1 p" for p using assms(4) by (simp add: shape_eq_iff)
  then have "f w1' = Some (without A w1')" using assms(3) by (simp add: releases_def)
  moreover have "heap (without A w1') p = (if p < nxt w then heap w1' p else None)" for p
  proof (cases "p \<in> A")
    case False
    then have "nxt w \<le> p \<Longrightarrow> heap w1 p = None" using assms(1,2) by (simp add: grows_def fresh_def)
    then have "nxt w \<le> p \<Longrightarrow> heap w1' p = None" using k [of p] by (simp add: kinds_def)
    with False show ?thesis by (simp add: heap_without)
  qed (use assms(2) in \<open>auto simp: heap_without grows_def\<close>)
  ultimately show ?thesis by blast
qed

section \<open>Pairs of an allocator and a deallocator\<close>

text \<open>\<open>for (i = 0; i < n; i++) g(as[i])\<close>.\<close>

definition free_loop :: "('a \<Rightarrow> world \<Rightarrow> world option) \<Rightarrow> 'a list \<Rightarrow> nat \<Rightarrow> world \<Rightarrow> world option" where
  "free_loop g as n = foldM (\<lambda>i w. do { a \<leftarrow> arr_get as (int i); g a w }) [0..<n]"

text \<open>The array of pointers that most allocators build, and its deallocation.  An array is the
  block that holds the pointers, with what they point to.\<close>

definition alloc_array :: "(nat \<Rightarrow> world \<Rightarrow> ('a \<times> world) option) \<Rightarrow> nat \<Rightarrow> world \<Rightarrow> ((ptr \<times> 'a list) \<times> world) option" where
  "alloc_array f n w =
    do {
      let (blk, w) = malloc Opaque w;
      (as, w) \<leftarrow> alloc_loop f [0..<n] w;
      Some ((blk, as), w)
    }"

definition free_array :: "('a \<Rightarrow> world \<Rightarrow> world option) \<Rightarrow> nat \<Rightarrow> ptr \<times> 'a list \<Rightarrow> world \<Rightarrow> world option" where
  "free_array g n arr w = do { w \<leftarrow> free_loop g (snd arr) n w; mfree (fst arr) w }"

lemma free_loop_take: "n \<le> length as \<Longrightarrow> free_loop g as n w = foldM g (take n as) w"
proof (induction n arbitrary: w)
  case 0
  show ?case by (simp add: free_loop_def)
next
  case (Suc n)
  then have "take (Suc n) as = take n as @ [as ! n]" by (simp add: take_Suc_conv_app_nth)
  with Suc show ?case
    by (simp add: free_loop_def foldM_append arr_simps split: option.splits)
qed

lemma releases_cong: "(\<And>w. f w = g w) \<Longrightarrow> releases K D f \<Longrightarrow> releases K D g"
  by (simp add: releases_def)

text \<open>The contract of the body of an allocation loop and of the body of the loop that frees what
  it allocated.  In \<open>good i a F G K\<close> the block set \<open>F\<close> is what \<open>a\<close> allocates and \<open>G\<close> what is freed
  (all of \<open>F\<close>, unless the pair leaks); the predicate also says what the rest of the program relies
  on.  The allocator relies on \<open>ok\<close> for its index and on \<open>pre\<close>.\<close>

locale allocator =
  fixes alloc :: "nat \<Rightarrow> world \<Rightarrow> ('a \<times> world) option" and free_one :: "'a \<Rightarrow> world \<Rightarrow> world option"
    and good :: "nat \<Rightarrow> 'a \<Rightarrow> ptr set \<Rightarrow> ptr set \<Rightarrow> (ptr \<Rightarrow> kind option) \<Rightarrow> bool"
    and ok :: "nat \<Rightarrow> bool" and pre :: "world \<Rightarrow> bool"
  assumes alloc_ok: "ok i \<Longrightarrow> pre w \<Longrightarrow> fresh w \<Longrightarrow> \<exists>a w' F G. alloc i w = Some (a, w') \<and> grows F w w' \<and>
      calm w w' \<and> pre w' \<and> good i a F G (kinds w')"
    and free_ok: "good i a F G K \<Longrightarrow> releases K G (free_one a)"
    and freed_foot: "good i a F G K \<Longrightarrow> G \<subseteq> F"
    and good_local: "good i a F G K \<Longrightarrow> (\<forall>p \<in> F. K' p = K p) \<Longrightarrow> good i a F G K'"
    and pre_malloc: "pre w \<Longrightarrow> fresh w \<Longrightarrow> pre (snd (malloc b w))"

context allocator
begin

definition all_good :: "nat list \<Rightarrow> 'a list \<Rightarrow> ptr set list \<Rightarrow> ptr set list \<Rightarrow> (ptr \<Rightarrow> kind option) \<Rightarrow> bool" where
  "all_good is as Fs Gs K \<longleftrightarrow> length as = length is \<and> length Fs = length is \<and> length Gs = length is \<and>
    (\<forall>j < length is. good (is ! j) (as ! j) (Fs ! j) (Gs ! j) K) \<and>
    (\<forall>j k. j < k \<longrightarrow> k < length is \<longrightarrow> Fs ! j \<inter> Fs ! k = {})"

lemma all_good_Cons:
  "good i a F G K \<Longrightarrow> all_good is as Fs Gs K \<Longrightarrow> F \<inter> \<Union>(set Fs) = {} \<Longrightarrow>
    all_good (i # is) (a # as) (F # Fs) (G # Gs) K"
proof -
  assume a: "good i a F G K" and as: "all_good is as Fs Gs K" and d: "F \<inter> \<Union>(set Fs) = {}"
  have "F \<inter> Fs ! k = {}" if "k < length is" for k
  proof -
    have "Fs ! k \<in> set Fs" using that as by (simp add: all_good_def)
    with d show ?thesis by blast
  qed
  with a as show ?thesis
    unfolding all_good_def by (simp add: nth_Cons split: nat.splits)
qed

lemma alloc_all:
  "\<forall>i \<in> set is. ok i \<Longrightarrow> pre w \<Longrightarrow> fresh w \<Longrightarrow> \<exists>as w' Fs Gs. alloc_loop alloc is w = Some (as, w') \<and> grows (\<Union>(set Fs)) w w' \<and>
    calm w w' \<and> pre w' \<and> all_good is as Fs Gs (kinds w')"
proof (induction "is" arbitrary: w)
  case Nil
  show ?case using Nil grows_refl
    by (intro exI [of _ "[]"] exI [of _ w]) (simp add: all_good_def)
next
  case (Cons i "is")
  obtain a w1 F G where 1: "alloc i w = Some (a, w1)" "grows F w w1" "calm w w1" "pre w1" "good i a F G (kinds w1)"
    using alloc_ok [OF _ Cons.prems(2,3)] Cons.prems(1) by fastforce
  have "\<forall>i \<in> set is. ok i" using Cons.prems(1) by simp
  from Cons.IH [OF this 1(4) grows_fresh [OF 1(2) Cons.prems(3)]] obtain as w2 Fs Gs where
    2: "alloc_loop alloc is w1 = Some (as, w2)" "grows (\<Union>(set Fs)) w1 w2" "calm w1 w2" "pre w2"
      "all_good is as Fs Gs (kinds w2)" by blast
  have a: "good i a F G (kinds w2)"
    by (rule good_local [OF 1(5)]) (use grows_old_kinds [OF 1(2) 2(2)] in blast)
  have "all_good (i # is) (a # as) (F # Fs) (G # Gs) (kinds w2)"
    by (rule all_good_Cons [OF a 2(5) grows_disjoint [OF 1(2) 2(2)]])
  moreover have "grows (\<Union>(set (F # Fs))) w w2" using grows_trans [OF 1(2) 2(2)] by simp
  moreover have "alloc_loop alloc (i # is) w = Some (a # as, w2)" using 1(1) 2(1) by simp
  ultimately show ?case using 2(4) calm_trans [OF 1(3) 2(3)] by blast
qed

lemma freed_sub: "all_good is as Fs Gs K \<Longrightarrow> \<Union>(set Gs) \<subseteq> \<Union>(set Fs)"
proof
  fix x assume g: "all_good is as Fs Gs K" and "x \<in> \<Union>(set Gs)"
  then obtain i where i: "i < length is" "x \<in> Gs ! i" by (auto simp: in_set_conv_nth all_good_def)
  then have "good (is ! i) (as ! i) (Fs ! i) (Gs ! i) K" "Fs ! i \<in> set Fs" using g by (simp_all add: all_good_def)
  then show "x \<in> \<Union>(set Fs)" using freed_foot i(2) by blast
qed

lemma free_all: "all_good is as Fs Gs K \<Longrightarrow> releases K (\<Union>(set Gs)) (foldM free_one as)"
proof -
  assume g: "all_good is as Fs Gs K"
  let ?xs = "zip as Gs"
  have len: "length ?xs = length is" "length as = length is" "length Gs = length is" using g by (simp_all add: all_good_def)
  have "releases K (\<Union>x \<in> set ?xs. snd x) (foldM (\<lambda>x. free_one (fst x)) ?xs)"
  proof (rule releases_foldM)
    fix x assume "x \<in> set ?xs"
    then obtain i where "i < length is" "x = (as ! i, Gs ! i)" using len by (auto simp: in_set_zip)
    then show "releases K (snd x) (free_one (fst x))"
      using g free_ok [of "is ! i" "as ! i" "Fs ! i"] by (simp add: all_good_def)
  next
    fix i j assume ij: "i < j" "j < length ?xs"
    then have d: "Fs ! i \<inter> Fs ! j = {}" "good (is ! i) (as ! i) (Fs ! i) (Gs ! i) K" "good (is ! j) (as ! j) (Fs ! j) (Gs ! j) K"
      using g len by (simp_all add: all_good_def)
    have "Gs ! i \<inter> Gs ! j = {}" using freed_foot [OF d(2)] freed_foot [OF d(3)] d(1) by blast
    then show "snd (?xs ! i) \<inter> snd (?xs ! j) = {}" using ij by simp
  qed
  moreover have "(\<Union>x \<in> set ?xs. snd x) = \<Union>(set Gs)"
  proof -
    have "map snd ?xs = Gs" using len by simp
    then have "\<Union>(set Gs) = \<Union>(set (map snd ?xs))" by simp
    also have "\<dots> = (\<Union>x \<in> set ?xs. snd x)" by (simp only: set_map)
    finally show ?thesis by (rule sym)
  qed
  moreover have "foldM (\<lambda>x. free_one (fst x)) ?xs w = foldM free_one as w" for w
  proof -
    have "foldM (\<lambda>x. f (fst x)) ys s = foldM f (map fst ys) s"
      for f :: "'a \<Rightarrow> world \<Rightarrow> world option" and ys :: "('a \<times> ptr set) list" and s
      by (induction ys arbitrary: s) (auto split: option.splits)
    then show ?thesis using len by simp
  qed
  ultimately show ?thesis by (simp add: releases_def)
qed

lemma all_good_local:
  "all_good is as Fs Gs K \<Longrightarrow> (\<forall>p \<in> \<Union>(set Fs). K' p = K p) \<Longrightarrow> all_good is as Fs Gs K'"
proof -
  assume g: "all_good is as Fs Gs K" and k: "\<forall>p \<in> \<Union>(set Fs). K' p = K p"
  have "good (is ! j) (as ! j) (Fs ! j) (Gs ! j) K'" if "j < length is" for j
  proof (rule good_local)
    show "good (is ! j) (as ! j) (Fs ! j) (Gs ! j) K" using g that by (simp add: all_good_def)
    have "Fs ! j \<in> set Fs" using g that by (simp add: all_good_def)
    with k show "\<forall>p \<in> Fs ! j. K' p = K p" by blast
  qed
  with g show "all_good is as Fs Gs K'" by (simp add: all_good_def)
qed

text \<open>What is known of an array \<open>(blk, as)\<close> that \<open>alloc_array alloc n\<close> has built from the blocks \<open>F\<close>
  and of which \<open>free_array free_one n\<close> frees the blocks \<open>G\<close>.\<close>

definition array_good :: "nat \<Rightarrow> ptr \<times> 'a list \<Rightarrow> ptr set \<Rightarrow> ptr set \<Rightarrow> (ptr \<Rightarrow> kind option) \<Rightarrow> bool" where
  "array_good n arr F G K \<longleftrightarrow> (\<exists>Fs Gs. all_good [0..<n] (snd arr) Fs Gs K \<and> K (fst arr) = Some KOpaque \<and>
    fst arr \<noteq> 0 \<and> fst arr \<notin> \<Union>(set Fs) \<and> F = insert (fst arr) (\<Union>(set Fs)) \<and> G = insert (fst arr) (\<Union>(set Gs)))"

lemma array_freed_foot: "array_good n arr F G K \<Longrightarrow> G \<subseteq> F"
  unfolding array_good_def using freed_sub by blast

lemma array_good_local: "array_good n arr F G K \<Longrightarrow> (\<forall>p \<in> F. K' p = K p) \<Longrightarrow> array_good n arr F G K'"
proof -
  assume g: "array_good n arr F G K" and k: "\<forall>p \<in> F. K' p = K p"
  from g obtain Fs Gs where fs: "all_good [0..<n] (snd arr) Fs Gs K" "K (fst arr) = Some KOpaque"
    "fst arr \<noteq> 0" "fst arr \<notin> \<Union>(set Fs)" "F = insert (fst arr) (\<Union>(set Fs))" "G = insert (fst arr) (\<Union>(set Gs))"
    unfolding array_good_def by blast
  have "all_good [0..<n] (snd arr) Fs Gs K'" by (rule all_good_local [OF fs(1)]) (use k fs(5) in blast)
  moreover have "K' (fst arr) = Some KOpaque" using k fs(2,5) by simp
  ultimately show "array_good n arr F G K'" using fs(3-6) unfolding array_good_def by blast
qed

lemma array_nth:
  "array_good n arr F G K \<Longrightarrow> length (snd arr) = n \<and> (\<forall>i < n. \<exists>F' G'. F' \<subseteq> F \<and> good i (snd arr ! i) F' G' K)"
proof -
  assume "array_good n arr F G K"
  then obtain Fs Gs where g: "all_good [0..<n] (snd arr) Fs Gs K" "F = insert (fst arr) (\<Union>(set Fs))"
    unfolding array_good_def by blast
  have "Fs ! i \<subseteq> F \<and> good i (snd arr ! i) (Fs ! i) (Gs ! i) K" if "i < n" for i
  proof
    have "Fs ! i \<in> set Fs" using that g(1) by (simp add: all_good_def)
    then show "Fs ! i \<subseteq> F" using g(2) by blast
    show "good i (snd arr ! i) (Fs ! i) (Gs ! i) K" using that g(1) by (simp add: all_good_def)
  qed
  with g(1) show ?thesis unfolding all_good_def by auto
qed

lemma array_releases:
  assumes "array_good n arr F G K"
  shows "releases K G (free_array free_one n arr)"
proof -
  from assms obtain Fs Gs where g: "all_good [0..<n] (snd arr) Fs Gs K" "K (fst arr) = Some KOpaque"
    "fst arr \<noteq> 0" "fst arr \<notin> \<Union>(set Fs)" "G = insert (fst arr) (\<Union>(set Gs))" unfolding array_good_def by blast
  have "releases K (\<Union>(set Gs) \<union> {fst arr}) (\<lambda>w. Option.bind (foldM free_one (snd arr) w) (mfree (fst arr)))"
    by (rule releases_bind [OF free_all [OF g(1)] releases_mfree]) (use g freed_sub [OF g(1)] in auto)
  moreover have "length (snd arr) = n" using g(1) by (simp add: all_good_def)
  ultimately show ?thesis
    using g(5) by (simp add: releases_def free_array_def free_loop_take)
qed

text \<open>A pair that does not leak.\<close>

lemma array_no_leak:
  assumes "array_good n arr F G K" and "\<And>i a F G. good i a F G K \<Longrightarrow> G = F"
  shows "G = F"
proof -
  from assms(1) obtain Fs Gs where g: "all_good [0..<n] (snd arr) Fs Gs K"
    "F = insert (fst arr) (\<Union>(set Fs))" "G = insert (fst arr) (\<Union>(set Gs))" unfolding array_good_def by blast
  have "Gs = Fs"
  proof (rule nth_equalityI)
    show "length Gs = length Fs" using g(1) by (simp add: all_good_def)
    show "Gs ! i = Fs ! i" if "i < length Gs" for i
      by (rule assms(2) [of "[0..<n] ! i" "snd arr ! i"]) (use that g(1) in \<open>simp add: all_good_def\<close>)
  qed
  with g show ?thesis by simp
qed

text \<open>Other blocks \<open>I\<close> may be allocated between the array and its elements.\<close>

lemma array_around:
  assumes "\<forall>i < n. ok i" and "fresh w" and "malloc Opaque w = (blk, w1)" and "grows I w1 w2" and "pre w2"
  shows "\<exists>as w3 F G. alloc_loop alloc [0..<n] w2 = Some (as, w3) \<and> grows (I \<union> F) w w3 \<and> I \<inter> F = {} \<and>
    calm w2 w3 \<and> pre w3 \<and> array_good n (blk, as) F G (kinds w3) \<and> (\<forall>p \<in> I. kinds w3 p = kinds w2 p)"
proof -
  have g: "grows {blk} w w1" "heap w1 blk = Some Opaque" using malloc_grows [OF assms(3)] by auto
  have g2: "grows ({blk} \<union> I) w w2" using grows_trans [OF g(1) assms(4)] .
  with alloc_all [of "[0..<n]" w2] assms(1,5) grows_fresh [OF g2 assms(2)] obtain as w3 Fs Gs where
    3: "alloc_loop alloc [0..<n] w2 = Some (as, w3)" "grows (\<Union>(set Fs)) w2 w3" "calm w2 w3" "pre w3"
      "all_good [0..<n] as Fs Gs (kinds w3)" by auto
  have d: "blk \<notin> \<Union>(set Fs)" "I \<inter> \<Union>(set Fs) = {}" "blk \<notin> I"
    using grows_disjoint [OF g2 3(2)] grows_disjoint [OF g(1) assms(4)] by auto
  have "kinds w2 blk = Some KOpaque" using grows_kinds [OF assms(4) d(3)] g(2) by (simp add: kinds_def)
  then have "kinds w3 blk = Some KOpaque" using grows_old_kinds [OF g2 3(2), of blk] by simp
  moreover have "blk \<noteq> 0" using grows_nonzero [OF g(1) assms(2)] by simp
  ultimately have "array_good n (blk, as) (insert blk (\<Union>(set Fs))) (insert blk (\<Union>(set Gs))) (kinds w3)"
    using 3(5) d(1) by (auto simp: array_good_def)
  moreover have "grows (I \<union> insert blk (\<Union>(set Fs))) w w3"
    using grows_trans [OF g2 3(2)] by (simp add: Un_commute Un_left_commute insert_commute)
  moreover have "\<forall>p \<in> I. kinds w3 p = kinds w2 p" using grows_old_kinds [OF g2 3(2)] by simp
  moreover have "I \<inter> insert blk (\<Union>(set Fs)) = {}" using d by auto
  ultimately show ?thesis using 3(1,3,4) by blast
qed

lemma array_alloc:
  assumes "\<forall>i < n. ok i" and "pre w" and "fresh w"
  shows "\<exists>arr w' F G. alloc_array alloc n w = Some (arr, w') \<and> grows F w w' \<and> calm w w' \<and> pre w' \<and>
    array_good n arr F G (kinds w')"
proof -
  obtain blk w1 where m: "malloc Opaque w = (blk, w1)" by fastforce
  have "pre w1" using pre_malloc [OF assms(2,3), of Opaque] m by simp
  from array_around [OF assms(1,3) m grows_refl this] obtain as w2 F G where
    2: "alloc_loop alloc [0..<n] w1 = Some (as, w2)" "grows F w w2" "calm w1 w2" "pre w2"
      "array_good n (blk, as) F G (kinds w2)" by auto
  moreover have "alloc_array alloc n w = Some ((blk, as), w2)" using m 2(1) by (simp add: alloc_array_def)
  moreover have "calm w w2" using malloc_grows [OF m] calm_trans 2(3) by blast
  ultimately show ?thesis by blast
qed

text \<open>An array of arrays is again such a pair.\<close>

lemma array_allocator:
  "\<forall>i < n. ok i \<Longrightarrow> allocator (\<lambda>_. alloc_array alloc n) (free_array free_one n) (\<lambda>_. array_good n) (\<lambda>_. True) pre"
  using array_alloc array_releases array_freed_foot array_good_local pre_malloc by unfold_locales blast+

end

end
