(* ===== verification/Posting_List.thy ===== *)
theory Posting_List
  imports Heap_Life Requests_Memcpy
begin

text \<open>
  Posting lists (\<open>src/posting_list.cpp\<close>, \<open>inc/inline/posting_list.ipp\<close>): singly linked lists of
  document numbers on the heap, built with \<open>malloc\<close> or through a DML job that places the nodes in
  the last level cache (\<open>src/dsa_alloc.cpp\<close>), traversed, intersected and freed.
\<close>

section \<open>The code\<close>

definition sizeof_node :: nat where "sizeof_node = 56"

text \<open>An uninitialised node.\<close>

definition malloc_node :: "env \<Rightarrow> world \<Rightarrow> ptr \<times> world" where
  "malloc_node hw w = malloc (Node (uint (garbage hw (nxt w) 0)) (unat (garbage hw (nxt w) 1))) w"

definition get_node :: "ptr \<Rightarrow> world \<Rightarrow> (int \<times> ptr) option" where
  "get_node p w = (case heap w p of Some (Node d n) \<Rightarrow> Some (d, n) | _ \<Rightarrow> None)"

definition set_docID :: "ptr \<Rightarrow> int \<Rightarrow> world \<Rightarrow> world option" where
  "set_docID p d w =
    (case heap w p of Some (Node d' n) \<Rightarrow> Some (w\<lparr>heap := (heap w)(p \<mapsto> Node d n)\<rparr>) | _ \<Rightarrow> None)"

definition set_next :: "ptr \<Rightarrow> ptr \<Rightarrow> world \<Rightarrow> world option" where
  "set_next p n w =
    (case heap w p of Some (Node d n') \<Rightarrow> Some (w\<lparr>heap := (heap w)(p \<mapsto> Node d n)\<rparr>) | _ \<Rightarrow> None)"

text \<open>A copy of \<open>size\<close> bytes from block to block: a whole node, or bytes.\<close>

definition mem_move :: "ptr \<Rightarrow> ptr \<Rightarrow> nat \<Rightarrow> world \<Rightarrow> world option" where
  "mem_move dst src sz w =
    (case (heap w src, heap w dst) of
       (Some (Node d n), Some (Node d' n')) \<Rightarrow>
         if sz = sizeof_node then Some (w\<lparr>heap := (heap w)(dst \<mapsto> Node d n)\<rparr>) else None
     | (Some (Bytes s), Some (Bytes d)) \<Rightarrow> memcpy dst src sz w
     | _ \<Rightarrow> None)"

text \<open>\<open>dsa_llc_realloc(dst, src, size)\<close> from the label \<open>retry\<close>: every attempt allocates a job and
  none is freed.  A job that succeeds has moved the memory.\<close>

function dsa_llc_realloc :: "env \<Rightarrow> ptr \<Rightarrow> ptr \<Rightarrow> nat \<Rightarrow> nat \<Rightarrow> world \<Rightarrow> world option" where
  "dsa_llc_realloc hw dst src sz num_retries w =
    (let (dml_job_ptr, w) = malloc Opaque w in
     case heap w dst of
       None \<Rightarrow> None
     | Some b \<Rightarrow>
         (case dml_failure hw dml_job_ptr b of
            None \<Rightarrow> mem_move dst src sz w
          | Some b' \<Rightarrow>
              (let w = w\<lparr>heap := (heap w)(dst \<mapsto> b')\<rparr> in
               if num_retries > 3 then mem_move dst src sz w
               else dsa_llc_realloc hw dst src sz (Suc num_retries) w)))"
  by pat_completeness auto
termination by (relation "measure (\<lambda>(hw, dst, src, sz, num_retries, w). 4 - num_retries)") auto

declare dsa_llc_realloc.simps [simp del]

definition build_llc_step :: "env \<Rightarrow> ptr \<Rightarrow> nat \<Rightarrow> ptr \<times> ptr \<times> world \<Rightarrow> (ptr \<times> ptr \<times> world) option" where
  "build_llc_step hw cpy_src i st =
    (case st of (cpy_dst, tgt, w) \<Rightarrow>
      do {
        w \<leftarrow> set_docID cpy_src (int i) w;
        w \<leftarrow> set_next cpy_src tgt w;
        w \<leftarrow> dsa_llc_realloc hw cpy_dst cpy_src sizeof_node 0 w;
        let cpy_dst = tgt;
        let (tgt, w) = malloc_node hw w;
        Some (cpy_dst, tgt, w)
      })"

definition build_llc_ll :: "env \<Rightarrow> int \<Rightarrow> world \<Rightarrow> (ptr \<times> world) option" where
  "build_llc_ll hw len w =
    do {
      let (cpy_src, w) = malloc_node hw w;
      let (cpy_dst, w) = malloc_node hw w;
      let (tgt, w) = malloc_node hw w;
      let head = cpy_dst;
      (cpy_dst, tgt, w) \<leftarrow> foldM (build_llc_step hw cpy_src) [0..<nat (len - 1)] (cpy_dst, tgt, w);
      w \<leftarrow> set_docID cpy_src (len - 1) w;
      w \<leftarrow> set_next cpy_src 0 w;
      w \<leftarrow> dsa_llc_realloc hw cpy_dst cpy_src sizeof_node 0 w;
      w \<leftarrow> mfree cpy_src w;
      Some (head, w)
    }"

definition build_host_step :: "env \<Rightarrow> nat \<Rightarrow> ptr \<times> world \<Rightarrow> (ptr \<times> world) option" where
  "build_host_step hw i st =
    (case st of (cur, w) \<Rightarrow>
      do {
        w \<leftarrow> set_docID cur (int i) w;
        let (next, w) = malloc_node hw w;
        w \<leftarrow> set_next cur next w;
        Some (next, w)
      })"

definition build_host_ll :: "env \<Rightarrow> int \<Rightarrow> world \<Rightarrow> (ptr \<times> world) option" where
  "build_host_ll hw len w =
    do {
      let (head, w) = malloc_node hw w;
      (cur, w) \<leftarrow> foldM (build_host_step hw) [0..<nat (len - 1)] (head, w);
      w \<leftarrow> set_docID cur (len - 1) w;
      w \<leftarrow> set_next cur 0 w;
      Some (head, w)
    }"

partial_function (option) free_ll :: "ptr \<Rightarrow> world \<Rightarrow> world option" where
  "free_ll cur w =
    (if cur = 0 then Some w
     else Option.bind (get_node cur w) (\<lambda>(d, n). Option.bind (mfree cur w) (free_ll n)))"

text \<open>\<open>ll_simple\<close> only logs what it reads; it does not return on a cyclic list.\<close>

partial_function (option) ll_simple :: "ptr \<Rightarrow> world \<Rightarrow> world option" where
  "ll_simple cur w =
    (if cur = 0 then Some w else Option.bind (get_node cur w) (\<lambda>(d, n). ll_simple n w))"

partial_function (option) intersect_posting_lists :: "ptr \<Rightarrow> ptr \<Rightarrow> ptr \<Rightarrow> world \<Rightarrow> world option" where
  "intersect_posting_lists cur3 cur1 cur2 w =
    (if cur1 \<noteq> 0 \<and> cur2 \<noteq> 0 then
       Option.bind (get_node cur1 w) (\<lambda>(d1, n1).
       Option.bind (get_node cur2 w) (\<lambda>(d2, n2).
         if d1 = d2 then
           Option.bind (set_docID cur3 d1 w) (\<lambda>w.
           Option.bind (get_node cur3 w) (\<lambda>(d3, n3).
             intersect_posting_lists n3 n1 n2 w))
         else if d1 < d2 then intersect_posting_lists cur3 n1 cur2 w
         else intersect_posting_lists cur3 cur1 n2 w))
     else Some w)"

section \<open>Lists on the heap\<close>

text \<open>The nodes \<open>qs\<close> are linked from \<open>p\<close> to \<open>r\<close>.\<close>

fun seg :: "(ptr \<Rightarrow> kind option) \<Rightarrow> ptr \<Rightarrow> ptr list \<Rightarrow> ptr \<Rightarrow> bool" where
  "seg K p [] r \<longleftrightarrow> p = r"
| "seg K p (q # qs) r \<longleftrightarrow> p = q \<and> q \<noteq> 0 \<and> (case K q of Some (KNode n) \<Rightarrow> seg K n qs r | _ \<Rightarrow> False)"

definition doc_of :: "world \<Rightarrow> ptr \<Rightarrow> int" where
  "doc_of w p = (case heap w p of Some (Node d n) \<Rightarrow> d | _ \<Rightarrow> 0)"

lemma seg_cong: "(\<forall>p \<in> set qs. K' p = K p) \<Longrightarrow> seg K' p qs r = seg K p qs r"
  by (induction qs arbitrary: p) (auto split: option.splits kind.splits)

lemma seg_snoc: "seg K p (qs @ [q]) r \<longleftrightarrow> seg K p qs q \<and> q \<noteq> 0 \<and> K q = Some (KNode r)"
  by (induction qs arbitrary: p) (auto split: option.splits kind.splits)

lemma seg_nonzero: "seg K p qs r \<Longrightarrow> 0 \<notin> set qs"
  by (induction qs arbitrary: p) (auto split: option.splits kind.splits)

lemma kinds_node: "kinds w p = Some (KNode n) \<longleftrightarrow> (\<exists>d. heap w p = Some (Node d n))"
  by (auto simp: kinds_def, case_tac z, auto)

lemma seg_Cons: "seg (kinds w) p (q # qs) r \<longleftrightarrow>
    p = q \<and> q \<noteq> 0 \<and> (\<exists>n. heap w q = Some (Node (doc_of w q) n) \<and> seg (kinds w) n qs r)"
  by (auto simp: kinds_def doc_of_def split: option.splits kind.splits block.splits)

lemma set_docID_ok:
  "heap w p = Some (Node d n) \<Longrightarrow> set_docID p d' w = Some (w\<lparr>heap := (heap w)(p \<mapsto> Node d' n)\<rparr>)"
  by (simp add: set_docID_def)

lemma set_next_ok:
  "heap w p = Some (Node d n) \<Longrightarrow> set_next p n' w = Some (w\<lparr>heap := (heap w)(p \<mapsto> Node d n')\<rparr>)"
  by (simp add: set_next_def)

lemma malloc_node_eq:
  "\<exists>d n. malloc_node hw w = (nxt w, w\<lparr>heap := (heap w)(nxt w \<mapsto> Node d n), nxt := Suc (nxt w)\<rparr>)"
  unfolding malloc_node_def malloc_def by (intro exI, rule refl)

text \<open>Traversal and deallocation of a list.\<close>

lemma ll_simple_ok: "seg (kinds w) p qs 0 \<Longrightarrow> ll_simple p w = Some w"
proof (induction qs arbitrary: p)
  case Nil
  then show ?case by (simp add: ll_simple.simps)
next
  case (Cons q qs)
  then obtain n where "p = q" "q \<noteq> 0" "heap w q = Some (Node (doc_of w q) n)" "seg (kinds w) n qs 0"
    unfolding seg_Cons by blast
  with Cons.IH show ?case by (subst ll_simple.simps) (simp add: get_node_def)
qed

lemma releases_free_ll: "seg K p qs 0 \<Longrightarrow> distinct qs \<Longrightarrow> releases K (set qs) (free_ll p)"
proof (induction qs arbitrary: p)
  case Nil
  then show ?case by (simp add: releases_def free_ll.simps)
next
  case (Cons q qs)
  from Cons.prems(1) obtain n where n: "p = q" "q \<noteq> 0" "K q = Some (KNode n)" "seg K n qs 0"
    by (auto split: option.splits kind.splits)
  have "releases K ({q} \<union> set qs) (\<lambda>w. Option.bind (mfree q w) (free_ll n))"
    by (rule releases_bind [OF releases_mfree]) (use n Cons in auto)
  moreover have "free_ll p w = Option.bind (mfree q w) (free_ll n)" if "kinds w q = K q" for w
    using n that by (subst free_ll.simps) (auto simp: get_node_def kinds_node)
  ultimately show ?case by (simp add: releases_def)
qed

section \<open>Building lists\<close>

text \<open>The state of a building loop after \<open>i\<close> nodes: they are linked from \<open>p\<close> to \<open>cur\<close>.\<close>

definition built :: "world \<Rightarrow> ptr \<Rightarrow> ptr list \<Rightarrow> ptr \<Rightarrow> nat \<Rightarrow> bool" where
  "built w p qs cur i \<longleftrightarrow> length qs = i \<and> distinct (qs @ [cur]) \<and> cur \<noteq> 0 \<and> seg (kinds w) p qs cur \<and>
    map (doc_of w) qs = map int [0..<i] \<and> (\<exists>d n. heap w cur = Some (Node d n))"

lemma built_cong:
  "(\<forall>p \<in> set qs. heap w' p = heap w p) \<Longrightarrow> heap w' cur = heap w cur \<Longrightarrow> built w' p qs cur i = built w p qs cur i"
  using seg_cong [of qs "kinds w'" "kinds w"] by (auto simp: built_def kinds_def doc_of_def cong: map_cong)

lemma built_snoc:
  assumes "built w p qs cur i" and "c \<noteq> 0" and "c \<notin> set (qs @ [cur])" and "heap w' cur = Some (Node (int i) c)"
    and "\<forall>p \<in> set qs. heap w' p = heap w p" and "heap w' c = Some (Node d n)"
  shows "built w' p (qs @ [cur]) c (Suc i)"
proof -
  have "seg (kinds w') p qs cur" "map (doc_of w') qs = map int [0..<i]"
    using assms(1,5) seg_cong [of qs "kinds w'" "kinds w"]
    by (auto simp: built_def kinds_def doc_of_def cong: map_cong)
  with assms show ?thesis by (simp add: built_def seg_snoc kinds_node doc_of_def)
qed

lemma built_end:
  assumes "built w p qs cur i" and "heap w' cur = Some (Node (int i) 0)" and "\<forall>p \<in> set qs. heap w' p = heap w p"
  shows "seg (kinds w') p (qs @ [cur]) 0 \<and> map (doc_of w') (qs @ [cur]) = map int [0..<Suc i]"
proof -
  have "seg (kinds w') p qs cur" "map (doc_of w') qs = map int [0..<i]"
    using assms(1,3) seg_cong [of qs "kinds w'" "kinds w"]
    by (auto simp: built_def kinds_def doc_of_def cong: map_cong)
  with assms show ?thesis by (simp add: built_def seg_snoc kinds_node doc_of_def)
qed

text \<open>A complete list of the numbers from 0 to \<open>m - 1\<close>.\<close>

definition list_of :: "world \<Rightarrow> ptr \<Rightarrow> ptr list \<Rightarrow> nat \<Rightarrow> bool" where
  "list_of w p qs m \<longleftrightarrow> length qs = m \<and> distinct qs \<and> seg (kinds w) p qs 0 \<and> map (doc_of w) qs = map int [0..<m]"

lemma build_host_step_ok:
  assumes "fresh w" and "built s p qs cur i" and "grows (insert cur (set qs)) w s" and "calm w s"
  shows "\<exists>c s'. build_host_step hw i (cur, s) = Some (c, s') \<and> built s' p (qs @ [cur]) c (Suc i) \<and>
    grows (insert c (set (qs @ [cur]))) w s' \<and> calm w s'"
proof -
  obtain d n where c: "heap s cur = Some (Node d n)" "cur \<noteq> 0" using assms(2) by (auto simp: built_def)
  let ?c = "nxt s"
  have f: "fresh s" "?c \<noteq> 0" using grows_fresh [OF assms(3,1)] by (simp_all add: fresh_def)
  have new: "?c \<notin> insert cur (set qs)" using assms(3) by (auto simp: grows_def)
  let ?s1 = "s\<lparr>heap := (heap s)(cur \<mapsto> Node (int i) n)\<rparr>"
  obtain d' n' where m: "malloc_node hw ?s1 = (?c, ?s1\<lparr>heap := (heap ?s1)(?c \<mapsto> Node d' n'), nxt := Suc ?c\<rparr>)"
    (is "_ = (_, ?s2)") using malloc_node_eq [of hw ?s1] by auto
  have h: "heap ?s2 cur = Some (Node (int i) n)" using new by auto
  let ?s3 = "?s2\<lparr>heap := (heap ?s2)(cur \<mapsto> Node (int i) ?c)\<rparr>"
  have "build_host_step hw i (cur, s) = Some (?c, ?s3)"
    using set_docID_ok [OF c(1), of "int i"] m set_next_ok [OF h, of ?c] by (simp add: build_host_step_def)
  moreover have "built ?s3 p (qs @ [cur]) ?c (Suc i)"
    by (rule built_snoc [OF assms(2) f(2)]) (use new assms(2) in \<open>auto simp: built_def\<close>)
  moreover have "grows (insert ?c (set (qs @ [cur]))) w ?s3"
    using assms(3) new by (auto simp: grows_def)
  moreover have "calm w ?s3" using assms(4) by (simp add: calm_def)
  ultimately show ?thesis by blast
qed

lemma build_host_ll_ok:
  assumes "fresh w" and "0 < m"
  shows "\<exists>p w' qs. build_host_ll hw (int m) w = Some (p, w') \<and> list_of w' p qs m \<and> grows (set qs) w w' \<and> calm w w'"
proof -
  let ?p = "nxt w"
  obtain d n where m0: "malloc_node hw w = (?p, w\<lparr>heap := (heap w)(?p \<mapsto> Node d n), nxt := Suc ?p\<rparr>)" (is "_ = (_, ?w1)")
    using malloc_node_eq [of hw w] by blast
  have p: "?p \<noteq> 0" using assms(1) by (simp add: fresh_def)
  let ?P = "\<lambda>i st. \<exists>qs. built (snd st) ?p qs (fst st) i \<and> grows (insert (fst st) (set qs)) w (snd st) \<and> calm w (snd st)"
  have "\<exists>st. foldM (build_host_step hw) [0..<m - 1] (?p, ?w1) = Some st \<and> ?P (m - 1) st"
  proof (rule foldM_upt_rule)
    show "?P 0 (?p, ?w1)" using p by (auto simp: built_def grows_def calm_def)
  next
    fix i st assume "?P i st"
    then obtain qs where "built (snd st) ?p qs (fst st) i" "grows (insert (fst st) (set qs)) w (snd st)"
      "calm w (snd st)" by blast
    from build_host_step_ok [OF assms(1) this] show "\<exists>s'. build_host_step hw i st = Some s' \<and> ?P (Suc i) s'"
      by (cases st) (fastforce simp: eq_commute)
  qed simp
  then obtain cur s qs where s: "foldM (build_host_step hw) [0..<m - 1] (?p, ?w1) = Some (cur, s)"
    "built s ?p qs cur (m - 1)" "grows (insert cur (set qs)) w s" "calm w s" by auto
  then obtain d' n' where c: "heap s cur = Some (Node d' n')" "cur \<notin> set qs" by (auto simp: built_def)
  let ?s1 = "s\<lparr>heap := (heap s)(cur \<mapsto> Node (int m - 1) n')\<rparr>"
  have h: "heap ?s1 cur = Some (Node (int m - 1) n')" by simp
  let ?s2 = "?s1\<lparr>heap := (heap ?s1)(cur \<mapsto> Node (int m - 1) 0)\<rparr>"
  have "nat (int m - 1) = m - Suc 0" by simp
  then have "build_host_ll hw (int m) w = Some (?p, ?s2)"
    using m0 s(1) set_docID_ok [OF c(1)] set_next_ok [OF h] by (simp add: build_host_ll_def)
  moreover have "list_of ?s2 ?p (qs @ [cur]) m"
    using built_end [OF s(2), of ?s2] s(2) c(2) assms(2) by (auto simp: list_of_def built_def of_nat_diff)
  moreover have "grows (set (qs @ [cur])) w ?s2" "calm w ?s2"
    using s(3,4) by (simp_all add: grows_def calm_def)
  ultimately show ?thesis by blast
qed

section \<open>Lists in the last level cache\<close>

text \<open>What the code relies on of DML: a job that fails may leave anything in its destination, but
  writes nothing else.\<close>

fun same_form :: "block \<Rightarrow> block \<Rightarrow> bool" where
  "same_form (Node d n) (Node d' n') \<longleftrightarrow> True"
| "same_form (Bytes xs) (Bytes ys) \<longleftrightarrow> length xs = length ys"
| "same_form b b' \<longleftrightarrow> False"

definition dml_ok :: "env \<Rightarrow> bool" where
  "dml_ok hw \<longleftrightarrow> (\<forall>j b b'. dml_failure hw j b = Some b' \<longrightarrow> same_form b b')"

text \<open>Whatever the device does, the copy is made; every attempt leaves a job on the heap.\<close>

lemma same_form_node: "same_form (Node d n) b \<Longrightarrow> \<exists>d' n'. b = Node d' n'"
  by (cases b) simp_all

lemma same_form_trans: "same_form a b \<Longrightarrow> same_form b c \<Longrightarrow> same_form a c"
  by (cases a; cases b; cases c) simp_all

lemma dsa_llc_realloc_moves:
  assumes "dml_ok hw" and "fresh w" and "heap w src = Some S" and "heap w dst = Some D0" and "same_form D D0"
    and "src \<noteq> dst" and "k \<le> 4"
    and move: "\<And>u D'. heap u src = Some S \<Longrightarrow> heap u dst = Some D' \<Longrightarrow> same_form D D' \<Longrightarrow>
      mem_move dst src sz u = Some (u\<lparr>heap := (heap u)(dst \<mapsto> B)\<rparr>)"
  shows "\<exists>w' J. dsa_llc_realloc hw dst src sz k w = Some w' \<and> calm w w' \<and> finite J \<and>
    0 < card J \<and> card J \<le> 5 - k \<and> grows J (w\<lparr>heap := (heap w)(dst \<mapsto> B)\<rparr>) w'"
  using assms(2-7)
proof (induction "4 - k" arbitrary: k w D0 rule: less_induct)
  case less
  let ?j = "nxt w" and ?goal = "w\<lparr>heap := (heap w)(dst \<mapsto> B)\<rparr>"
  let ?w1 = "w\<lparr>heap := (heap w)(?j \<mapsto> Opaque), nxt := Suc ?j\<rparr>"
  have j: "?j \<noteq> src" "?j \<noteq> dst" using less.prems(1-3) by (auto simp: fresh_def)
  have copy: "mem_move dst src sz (?w1\<lparr>heap := (heap ?w1)(dst \<mapsto> D')\<rparr>) =
      Some (?w1\<lparr>heap := (heap ?w1)(dst \<mapsto> B)\<rparr>)" if "same_form D D'" for D'
    using j less.prems move [of "?w1\<lparr>heap := (heap ?w1)(dst \<mapsto> D')\<rparr>", OF _ _ that] by simp
  have moved: "calm w (?w1\<lparr>heap := (heap ?w1)(dst \<mapsto> D')\<rparr>)"
      "grows {?j} (w\<lparr>heap := (heap w)(dst \<mapsto> D')\<rparr>) (?w1\<lparr>heap := (heap ?w1)(dst \<mapsto> D')\<rparr>)" for D'
    using j by (auto simp: calm_def grows_def)
  have unfold: "dsa_llc_realloc hw dst src sz k w =
    (case dml_failure hw ?j D0 of
       None \<Rightarrow> mem_move dst src sz ?w1
     | Some b' \<Rightarrow> (let w = ?w1\<lparr>heap := (heap ?w1)(dst \<mapsto> b')\<rparr> in
         if k > 3 then mem_move dst src sz w else dsa_llc_realloc hw dst src sz (Suc k) w))"
    using j less.prems(3) by (subst dsa_llc_realloc.simps) (simp add: malloc_def)
  have one: "\<exists>w' J. dsa_llc_realloc hw dst src sz k w = Some w' \<and> calm w w' \<and> finite J \<and>
      0 < card J \<and> card J \<le> 5 - k \<and> grows J ?goal w'"
    if "dsa_llc_realloc hw dst src sz k w = Some (?w1\<lparr>heap := (heap ?w1)(dst \<mapsto> B)\<rparr>)"
    using that moved [of B] less.prems(6)
    by (intro exI [of _ "?w1\<lparr>heap := (heap ?w1)(dst \<mapsto> B)\<rparr>"] exI [of _ "{?j}"]) simp
  show ?case
  proof (cases "dml_failure hw ?j D0")
    case None
    moreover have "?w1 = ?w1\<lparr>heap := (heap ?w1)(dst \<mapsto> D0)\<rparr>"
      using j less.prems(3) by (simp add: fun_upd_idem fun_upd_twist)
    ultimately show ?thesis using one unfold copy [OF less.prems(4)] by simp
  next
    case (Some D2)
    then have b': "same_form D D2" using assms(1) less.prems(4) same_form_trans unfolding dml_ok_def by blast
    let ?w2 = "?w1\<lparr>heap := (heap ?w1)(dst \<mapsto> D2)\<rparr>"
    show ?thesis
    proof (cases "k > 3")
      case True
      with Some show ?thesis using one unfold copy [OF b'] by simp
    next
      case False
      then have m: "4 - Suc k < 4 - k" "Suc k \<le> 4" by simp_all
      have "fresh ?w2" "heap ?w2 src = Some S" "heap ?w2 dst = Some D2"
        using j less.prems by (auto simp: fresh_def)
      from less.hyps [OF m(1) this b' less.prems(5) m(2)] obtain w' J where
        r: "dsa_llc_realloc hw dst src sz (Suc k) ?w2 = Some w'" "calm ?w2 w'" "finite J"
          "0 < card J" "card J \<le> 5 - Suc k" "grows J (?w2\<lparr>heap := (heap ?w2)(dst \<mapsto> B)\<rparr>) w'" by blast
      have "?j \<notin> J" using r(6) by (auto simp: grows_def)
      moreover have "grows ({?j} \<union> J) ?goal w'"
        using grows_trans [OF moved(2) [of B]] r(6) by simp
      moreover have "calm w w'" using calm_trans [OF moved(1) r(2)] .
      ultimately show ?thesis using unfold Some False r
        by (intro exI [of _ w'] exI [of _ "insert ?j J"]) simp
    qed
  qed
qed

lemma dsa_llc_realloc_node:
  assumes "dml_ok hw" and "fresh w" and "heap w src = Some (Node d n)" and "heap w dst = Some (Node d' n')"
    and "src \<noteq> dst" and "k \<le> 4"
  shows "\<exists>w' J. dsa_llc_realloc hw dst src sizeof_node k w = Some w' \<and> calm w w' \<and> finite J \<and>
    0 < card J \<and> card J \<le> 5 - k \<and> grows J (w\<lparr>heap := (heap w)(dst \<mapsto> Node d n)\<rparr>) w'"
proof (rule dsa_llc_realloc_moves [where D = "Node d n", OF assms(1-4) _ assms(5,6)])
  fix u :: world and D' assume u: "heap u src = Some (Node d n)" "heap u dst = Some D'" "same_form (Node d n) D'"
  then obtain a b where "D' = Node a b" using same_form_node by blast
  with u show "mem_move dst src sizeof_node u = Some (u\<lparr>heap := (heap u)(dst \<mapsto> Node d n)\<rparr>)" by (simp add: mem_move_def)
qed simp

lemma dsa_llc_realloc_bytes:
  assumes "dml_ok hw" and "fresh w" and "heap w src = Some (Bytes s)" and "heap w dst = Some (Bytes b)"
    and "src \<noteq> dst" and "length s = length b"
  shows "\<exists>w' J. dsa_llc_realloc hw dst src (length s) 0 w = Some w' \<and> calm w w' \<and> finite J \<and>
    0 < card J \<and> card J \<le> 5 \<and> grows J (w\<lparr>heap := (heap w)(dst \<mapsto> Bytes s)\<rparr>) w'"
proof -
  have "\<exists>w' J. dsa_llc_realloc hw dst src (length s) 0 w = Some w' \<and> calm w w' \<and> finite J \<and>
    0 < card J \<and> card J \<le> 5 - 0 \<and> grows J (w\<lparr>heap := (heap w)(dst \<mapsto> Bytes s)\<rparr>) w'"
  proof (rule dsa_llc_realloc_moves [where D = "Bytes s", OF assms(1-4)])
    fix u :: world and D' assume u: "heap u src = Some (Bytes s)" "heap u dst = Some D'" "same_form (Bytes s) D'"
    then obtain a where "D' = Bytes a" "length a = length s" by (cases D') auto
    with u show "mem_move dst src (length s) u = Some (u\<lparr>heap := (heap u)(dst \<mapsto> Bytes s)\<rparr>)"
      by (simp add: mem_move_def memcpy_def get_bytes_def set_bytes_def)
  qed (use assms in simp_all)
  then show ?thesis by simp
qed

text \<open>The state of the building loop: the node \<open>c\<close> that is copied from, the next node \<open>t\<close> to copy
  to, and the jobs \<open>J\<close> that were left behind.\<close>

definition llc_inv :: "world \<Rightarrow> ptr \<Rightarrow> ptr \<Rightarrow> nat \<Rightarrow> ptr list \<Rightarrow> ptr set \<Rightarrow> ptr \<Rightarrow> ptr \<Rightarrow> world \<Rightarrow> bool" where
  "llc_inv w c p i qs J cur t s \<longleftrightarrow> built s p qs cur i \<and> calm w s \<and>
    grows ({c, t, cur} \<union> set qs \<union> J) w s \<and> finite J \<and> i \<le> card J \<and> card J \<le> 5 * i \<and>
    c \<noteq> t \<and> {c, t} \<inter> insert cur (set qs) = {} \<and> J \<inter> ({c, t, cur} \<union> set qs) = {} \<and>
    (\<exists>d n. heap s c = Some (Node d n)) \<and> (\<exists>d n. heap s t = Some (Node d n))"

text \<open>One copy: the node \<open>cur\<close> gets the number \<open>v\<close> and the link \<open>l\<close>.\<close>

lemma llc_copy:
  assumes "dml_ok hw" and "fresh w" and "llc_inv w c p i qs J cur t s"
  shows "\<exists>s' J'. do { w \<leftarrow> set_docID c v s; w \<leftarrow> set_next c l w; dsa_llc_realloc hw cur c sizeof_node 0 w } = Some s' \<and>
    calm w s' \<and> heap s' cur = Some (Node v l) \<and> heap s' c = Some (Node v l) \<and>
    (\<forall>q \<in> insert t (set qs). heap s' q = heap s q) \<and>
    grows ({c, t, cur} \<union> set qs \<union> (J \<union> J')) w s' \<and> finite J' \<and> 0 < card J' \<and> card J' \<le> 5 \<and>
    J' \<inter> (J \<union> ({c, t, cur} \<union> set qs)) = {}"
proof -
  obtain d n where c: "heap s c = Some (Node d n)" using assms(3) by (auto simp: llc_inv_def)
  obtain d1 n1 where cur: "heap s cur = Some (Node d1 n1)" "c \<noteq> cur" using assms(3) by (auto simp: llc_inv_def built_def)
  let ?s1 = "s\<lparr>heap := (heap s)(c \<mapsto> Node v n)\<rparr>" and ?s2 = "s\<lparr>heap := (heap s)(c \<mapsto> Node v l)\<rparr>"
  have g: "grows ({c, t, cur} \<union> set qs \<union> J) w s" "calm w s" using assms(3) by (simp_all add: llc_inv_def)
  have f: "fresh ?s2" using grows_fresh [OF grows_update [OF g(1), of c] assms(2)] by simp
  have h: "heap ?s2 c = Some (Node v l)" "heap ?s2 cur = Some (Node d1 n1)" using cur by simp_all
  from dsa_llc_realloc_node [OF assms(1) f h cur(2), of 0] obtain s' J' where
    r: "dsa_llc_realloc hw cur c sizeof_node 0 ?s2 = Some s'" "calm ?s2 s'" "finite J'" "0 < card J'" "card J' \<le> 5"
      "grows J' (?s2\<lparr>heap := (heap ?s2)(cur \<mapsto> Node v l)\<rparr>) s'" (is "grows J' ?s3 s'") by auto
  have "grows ({c, t, cur} \<union> set qs \<union> J) w ?s3"
    by (rule grows_update, rule grows_update [OF g(1)]) simp_all
  from grows_trans [OF this r(6)] grows_disjoint [OF this r(6)] have
    g3: "grows ({c, t, cur} \<union> set qs \<union> (J \<union> J')) w s'" "J' \<inter> (J \<union> ({c, t, cur} \<union> set qs)) = {}"
    by (auto simp: Un_assoc)
  have same: "heap s' q = heap ?s3 q" if "q \<in> {c, t, cur} \<union> set qs" for q
    using r(6) g3(2) that unfolding grows_def by blast
  have "do { w \<leftarrow> set_docID c v s; w \<leftarrow> set_next c l w; dsa_llc_realloc hw cur c sizeof_node 0 w } = Some s'"
    using r(1) set_docID_ok [OF c, of v] set_next_ok [of ?s1 c v n l] by simp
  moreover have "calm w s'" using g(2) r(2) by (simp add: calm_def)
  moreover have "\<forall>q \<in> insert t (set qs). heap s' q = heap s q"
    using same assms(3) by (auto simp: llc_inv_def built_def)
  ultimately show ?thesis using r(3-5) g3 same [of cur] same [of c] cur(2) by auto
qed

lemma build_llc_step_ok:
  assumes "dml_ok hw" and "fresh w" and "llc_inv w c p i qs J cur t s"
  shows "\<exists>t' s' J'. build_llc_step hw c i (cur, t, s) = Some (t, t', s') \<and>
    llc_inv w c p (Suc i) (qs @ [cur]) J' t t' s'"
proof -
  from llc_copy [OF assms, of "int i" t] obtain s1 J1 where
    1: "do { w \<leftarrow> set_docID c (int i) s; w \<leftarrow> set_next c t w; dsa_llc_realloc hw cur c sizeof_node 0 w } = Some s1"
      "calm w s1" "heap s1 cur = Some (Node (int i) t)" "heap s1 c = Some (Node (int i) t)"
      "\<forall>q \<in> insert t (set qs). heap s1 q = heap s q"
      "grows ({c, t, cur} \<union> set qs \<union> (J \<union> J1)) w s1" "finite J1" "0 < card J1" "card J1 \<le> 5"
      "J1 \<inter> (J \<union> ({c, t, cur} \<union> set qs)) = {}" by blast
  let ?t = "nxt s1"
  obtain d n where m: "malloc_node hw s1 = (?t, s1\<lparr>heap := (heap s1)(?t \<mapsto> Node d n), nxt := Suc ?t\<rparr>)" (is "_ = (_, ?s2)")
    using malloc_node_eq [of hw s1] by blast
  have new: "?t \<notin> {c, t, cur} \<union> set qs \<union> (J \<union> J1)" using 1(6) by (auto simp: grows_def)
  have step: "build_llc_step hw c i (cur, t, s) = Some (t, ?t, ?s2)"
    using 1(1) m by (auto simp: build_llc_step_def split: bind_splits)
  obtain d' n' where t: "heap s1 t = Some (Node d' n')" using assms(3) 1(5) by (auto simp: llc_inv_def)
  have "t \<noteq> 0" using grows_nonzero [OF 1(6) assms(2), of t] by simp
  then have b: "built ?s2 p (qs @ [cur]) t (Suc i)"
    using assms(3) new 1(3,5) t by (intro built_snoc [of s]) (auto simp: llc_inv_def)
  have "grows {?t} s1 ?s2" by (auto simp: grows_def)
  from grows_trans [OF 1(6) this] have "grows ({c, ?t, t} \<union> set (qs @ [cur]) \<union> (J \<union> J1)) w ?s2"
    by (rule back_subst [of "\<lambda>A. grows A w ?s2"]) auto
  moreover have "card (J \<union> J1) = card J + card J1"
    using 1(7,10) assms(3) by (intro card_Un_disjoint) (auto simp: llc_inv_def)
  ultimately have "llc_inv w c p (Suc i) (qs @ [cur]) (J \<union> J1) t ?t ?s2"
    using assms(3) b new 1 t by (auto simp: llc_inv_def calm_def)
  with step show ?thesis by blast
qed

lemma llc_start:
  assumes "fresh w" and "malloc_node hw w = (c, w1)" and "malloc_node hw w1 = (p, w2)" and "malloc_node hw w2 = (t, w3)"
  shows "llc_inv w c p 0 [] {} p t w3"
proof -
  have m: "\<exists>d n. s' = s\<lparr>heap := (heap s)(nxt s \<mapsto> Node d n), nxt := Suc (nxt s)\<rparr> \<and> q = nxt s"
    if "malloc_node hw s = (q, s')" for q s s'
    using malloc_node_eq [of hw s] that by auto
  obtain d1 n1 d2 n2 d3 n3 where
    "w1 = w\<lparr>heap := (heap w)(nxt w \<mapsto> Node d1 n1), nxt := Suc (nxt w)\<rparr>" "c = nxt w"
    "w2 = w1\<lparr>heap := (heap w1)(nxt w1 \<mapsto> Node d2 n2), nxt := Suc (nxt w1)\<rparr>" "p = nxt w1"
    "w3 = w2\<lparr>heap := (heap w2)(nxt w2 \<mapsto> Node d3 n3), nxt := Suc (nxt w2)\<rparr>" "t = nxt w2"
    using m [OF assms(2)] m [OF assms(3)] m [OF assms(4)] by blast
  with assms(1) show ?thesis
    by (auto simp: llc_inv_def built_def calm_def grows_def fresh_def)
qed

text \<open>The list is built, but the last node that was allocated to copy to and every job are left on
  the heap.\<close>

lemma build_llc_ll_ok:
  assumes "dml_ok hw" and "fresh w" and "0 < m"
  shows "\<exists>p w' qs L. build_llc_ll hw (int m) w = Some (p, w') \<and> list_of w' p qs m \<and> calm w w' \<and>
    grows (set qs \<union> L) w w' \<and> set qs \<inter> L = {} \<and> finite L \<and> m + 1 \<le> card L \<and> card L \<le> 5 * m + 1"
proof -
  obtain c w1 p w2 t0 w3 where m: "malloc_node hw w = (c, w1)" "malloc_node hw w1 = (p, w2)" "malloc_node hw w2 = (t0, w3)"
    by (metis prod.exhaust)
  let ?P = "\<lambda>i st. \<exists>qs J. llc_inv w c p i qs J (fst st) (fst (snd st)) (snd (snd st))"
  have "\<exists>st. foldM (build_llc_step hw c) [0..<m - 1] (p, t0, w3) = Some st \<and> ?P (m - 1) st"
  proof (rule foldM_upt_rule)
    show "?P 0 (p, t0, w3)" using llc_start [OF assms(2) m] by auto
  next
    fix i st assume "?P i st"
    then obtain qs J where "llc_inv w c p i qs J (fst st) (fst (snd st)) (snd (snd st))" by blast
    from build_llc_step_ok [OF assms(1,2) this] show "\<exists>s'. build_llc_step hw c i st = Some s' \<and> ?P (Suc i) s'"
      by fastforce
  qed simp
  then obtain cur t s qs J where s: "foldM (build_llc_step hw c) [0..<m - 1] (p, t0, w3) = Some (cur, t, s)"
    "llc_inv w c p (m - 1) qs J cur t s" by auto
  from llc_copy [OF assms(1,2) s(2), of "int m - 1" 0] obtain s1 J1 where
    1: "do { w \<leftarrow> set_docID c (int m - 1) s; w \<leftarrow> set_next c 0 w; dsa_llc_realloc hw cur c sizeof_node 0 w } = Some s1"
      "calm w s1" "heap s1 cur = Some (Node (int m - 1) 0)" "heap s1 c = Some (Node (int m - 1) 0)"
      "\<forall>q \<in> insert t (set qs). heap s1 q = heap s q"
      "grows ({c, t, cur} \<union> set qs \<union> (J \<union> J1)) w s1" "finite J1" "0 < card J1" "card J1 \<le> 5"
      "J1 \<inter> (J \<union> ({c, t, cur} \<union> set qs)) = {}" by blast
  have c: "c \<noteq> 0" "heap w c = None" "c \<notin> {t, cur} \<union> set qs \<union> (J \<union> J1)"
    using grows_nonzero [OF 1(6) assms(2), of c] 1(6,10) assms(2) s(2)
    by (auto simp: grows_def fresh_def llc_inv_def)
  let ?s2 = "s1\<lparr>heap := (heap s1)(c := None)\<rparr>"
  have "nat (int m - 1) = m - Suc 0" by simp
  then have "build_llc_ll hw (int m) w = Some (p, ?s2)"
    using m s(1) 1(1,4) c(1) by (auto simp: build_llc_ll_def mfree_def split: bind_splits)
  moreover have "list_of ?s2 p (qs @ [cur]) m"
    using built_end [of s p qs cur "m - 1" ?s2] s(2) 1(3,5) c(3) assms(3)
    by (auto simp: list_of_def llc_inv_def built_def of_nat_diff)
  moreover have "grows (set (qs @ [cur]) \<union> insert t (J \<union> J1)) w ?s2"
    using 1(6) c by (auto simp: grows_def)
  moreover have "calm w ?s2" using 1(2) by (simp add: calm_def)
  moreover have "set (qs @ [cur]) \<inter> insert t (J \<union> J1) = {}" using s(2) 1(10) by (auto simp: llc_inv_def)
  moreover have fin: "finite (insert t (J \<union> J1))" using 1(7) s(2) by (simp add: llc_inv_def)
  moreover have "card (insert t (J \<union> J1)) = Suc (card J + card J1)"
    using fin 1(10) s(2) by (subst card_insert_disjoint) (auto simp: llc_inv_def intro!: card_Un_disjoint)
  moreover have "m - 1 \<le> card J" "card J \<le> 5 * (m - 1)" using s(2) by (simp_all add: llc_inv_def)
  then have "m + 1 \<le> Suc (card J + card J1)" "Suc (card J + card J1) \<le> 5 * m + 1"
    using 1(8,9) assms(3) by linarith+
  ultimately show ?thesis
    by (intro exI [of _ p] exI [of _ ?s2] exI [of _ "qs @ [cur]"] exI [of _ "insert t (J \<union> J1)"]) simp
qed

section \<open>Intersection\<close>

lemma later_set_doc:
  "heap w p = Some (Node d n) \<Longrightarrow> later hw w (w\<lparr>heap := (heap w)(p \<mapsto> Node d' n)\<rparr>)"
  by (rule later_heap_update) (simp add: kinds_def)

text \<open>On any acyclic lists the loop ends, and only document numbers change; a result list as long as
  the first list is long enough.\<close>

lemma seg_at:
  "seg (kinds w) p (q # qs) 0 \<Longrightarrow> p = q \<and> q \<noteq> 0 \<and> (\<exists>n. get_node q w = Some (doc_of w q, n) \<and>
    heap w q = Some (Node (doc_of w q) n) \<and> seg (kinds w) n qs 0)"
  unfolding seg_Cons by (auto simp: get_node_def)

lemma intersect_safe:
  assumes "seg (kinds w) p1 q1 0" and "seg (kinds w) p2 q2 0" and "seg (kinds w) p3 q3 0"
    and "length q1 \<le> length q3"
  shows "\<exists>w'. intersect_posting_lists p3 p1 p2 w = Some w' \<and> later hw w w'"
  using assms
proof (induction "length q1 + length q2" arbitrary: p1 q1 p2 q2 p3 q3 w rule: less_induct)
  case less
  show ?case
  proof (cases "q1 = [] \<or> q2 = []")
    case True
    with less.prems(1,2) have "p1 = 0 \<or> p2 = 0" by auto
    then show ?thesis by (subst intersect_posting_lists.simps) auto
  next
    case False
    then obtain a as b bs c cs where q: "q1 = a # as" "q2 = b # bs" "q3 = c # cs"
      using less.prems(4) by (auto simp: neq_Nil_conv Suc_le_length_iff)
    from seg_at [OF less.prems(1) [unfolded q]] obtain n1 where
      1: "p1 = a" "a \<noteq> 0" "get_node a w = Some (doc_of w a, n1)" "seg (kinds w) n1 as 0" by blast
    from seg_at [OF less.prems(2) [unfolded q]] obtain n2 where
      2: "p2 = b" "b \<noteq> 0" "get_node b w = Some (doc_of w b, n2)" "seg (kinds w) n2 bs 0" by blast
    from seg_at [OF less.prems(3) [unfolded q]] obtain n3 where
      3: "p3 = c" "heap w c = Some (Node (doc_of w c) n3)" "seg (kinds w) n3 cs 0" by blast
    let ?w = "w\<lparr>heap := (heap w)(c \<mapsto> Node (doc_of w a) n3)\<rparr>"
    have l: "later hw w ?w" by (rule later_set_doc [OF 3(2)])
    consider "doc_of w a = doc_of w b" | "doc_of w a < doc_of w b" | "doc_of w b < doc_of w a" by linarith
    then show ?thesis
    proof cases
      case 1: 1
      obtain w' where "intersect_posting_lists n3 n1 n2 ?w = Some w'" "later hw ?w w'"
        using less.hyps [of as bs ?w n1 n2 n3 cs] less.prems(4) \<open>seg (kinds w) n1 as 0\<close> 2(4) 3(3) later_kinds [OF l] q
        by auto
      moreover from this have "later hw w w'" using later_trans [OF l] by blast
      ultimately show ?thesis
        using 1 \<open>p1 = a\<close> \<open>a \<noteq> 0\<close> \<open>get_node a w = Some (doc_of w a, n1)\<close> 2 3 set_docID_ok [OF 3(2), of "doc_of w a"]
        by (subst intersect_posting_lists.simps) (simp add: get_node_def)
    next
      case less': 2
      have "\<exists>w'. intersect_posting_lists p3 n1 p2 w = Some w' \<and> later hw w w'"
        by (rule less.hyps [OF _ 1(4) less.prems(2,3)]) (use q less.prems(4) in auto)
      with less' 1(1-3) 2(1-3) show ?thesis by (subst intersect_posting_lists.simps) simp
    next
      case greater: 3
      have "\<exists>w'. intersect_posting_lists p3 p1 n2 w = Some w' \<and> later hw w w'"
        by (rule less.hyps [OF _ less.prems(1) 2(4) less.prems(3,4)]) (use q in auto)
      with greater 1(1-3) 2(1-3) show ?thesis by (subst intersect_posting_lists.simps) simp
    qed
  qed
qed

text \<open>What the loop computes on ascending lists.\<close>

definition ascending :: "int list \<Rightarrow> bool" where "ascending xs \<longleftrightarrow> sorted_wrt (<) xs"

definition common :: "int list \<Rightarrow> int list \<Rightarrow> int list" where "common xs ys = filter (\<lambda>x. x \<in> set ys) xs"

lemma common_simps:
  "common [] ys = []" "common xs [] = []"
  "ascending (d # xs) \<Longrightarrow> common (d # xs) (d # ys) = d # common xs ys"
  "ascending (e # ys) \<Longrightarrow> d < e \<Longrightarrow> common (d # xs) (e # ys) = common xs (e # ys)"
  "ascending (d # xs) \<Longrightarrow> e < d \<Longrightarrow> common (d # xs) (e # ys) = common (d # xs) ys"
  by (auto simp: common_def ascending_def intro!: filter_cong)

lemma ascending_tl: "ascending (x # xs) \<Longrightarrow> ascending xs"
  by (simp add: ascending_def)

text \<open>The three lists that the loop works on.\<close>

definition lists3 :: "world \<Rightarrow> ptr \<Rightarrow> ptr list \<Rightarrow> ptr \<Rightarrow> ptr list \<Rightarrow> ptr \<Rightarrow> ptr list \<Rightarrow> bool" where
  "lists3 w p1 q1 p2 q2 p3 q3 \<longleftrightarrow> seg (kinds w) p1 q1 0 \<and> seg (kinds w) p2 q2 0 \<and> seg (kinds w) p3 q3 0 \<and>
    distinct q3 \<and> set q3 \<inter> (set q1 \<union> set q2) = {} \<and>
    ascending (map (doc_of w) q1) \<and> ascending (map (doc_of w) q2)"

text \<open>One round of the loop on nonempty lists.\<close>

lemma intersect_round:
  assumes "lists3 w p1 (a # as) p2 (b # bs) p3 q3"
  shows "\<exists>n1 n2. lists3 w n1 as p2 (b # bs) p3 q3 \<and> lists3 w p1 (a # as) n2 bs p3 q3 \<and>
    (doc_of w a < doc_of w b \<longrightarrow> intersect_posting_lists p3 p1 p2 w = intersect_posting_lists p3 n1 p2 w) \<and>
    (doc_of w b < doc_of w a \<longrightarrow> intersect_posting_lists p3 p1 p2 w = intersect_posting_lists p3 p1 n2 w) \<and>
    (\<forall>c cs. doc_of w a = doc_of w b \<longrightarrow> q3 = c # cs \<longrightarrow>
      (\<exists>n3 w1. intersect_posting_lists p3 p1 p2 w = intersect_posting_lists n3 n1 n2 w1 \<and>
        lists3 w1 n1 as n2 bs n3 cs \<and> heap w c = Some (Node (doc_of w c) n3) \<and>
        w1 = w\<lparr>heap := (heap w)(c \<mapsto> Node (doc_of w a) n3)\<rparr>))"
proof -
  from assms have s: "seg (kinds w) p1 (a # as) 0" "seg (kinds w) p2 (b # bs) 0" "seg (kinds w) p3 q3 0"
    unfolding lists3_def by blast+
  obtain n1 where 1: "p1 = a" "a \<noteq> 0" "get_node a w = Some (doc_of w a, n1)" "seg (kinds w) n1 as 0"
    using seg_at [OF s(1)] by blast
  obtain n2 where 2: "p2 = b" "b \<noteq> 0" "get_node b w = Some (doc_of w b, n2)" "seg (kinds w) n2 bs 0"
    using seg_at [OF s(2)] by blast
  have lists: "lists3 w n1 as p2 (b # bs) p3 q3" "lists3 w p1 (a # as) n2 bs p3 q3"
    using assms 1(4) 2(4) s by (auto simp: lists3_def ascending_def)
  have full: "\<exists>n3 w1. intersect_posting_lists p3 p1 p2 w = intersect_posting_lists n3 n1 n2 w1 \<and>
        lists3 w1 n1 as n2 bs n3 cs \<and> heap w c = Some (Node (doc_of w c) n3) \<and>
        w1 = w\<lparr>heap := (heap w)(c \<mapsto> Node (doc_of w a) n3)\<rparr>"
    if eq: "doc_of w a = doc_of w b" and c: "q3 = c # cs" for c cs
  proof -
    obtain n3 where 3: "p3 = c" "heap w c = Some (Node (doc_of w c) n3)" "seg (kinds w) n3 cs 0"
      using seg_at [OF s(3) [unfolded c]] by blast
    let ?w = "w\<lparr>heap := (heap w)(c \<mapsto> Node (doc_of w a) n3)\<rparr>"
    have k: "kinds ?w = kinds w" using later_kinds [OF later_set_doc [OF 3(2)]] by blast
    have d: "map (doc_of ?w) as = map (doc_of w) as" "map (doc_of ?w) bs = map (doc_of w) bs"
      using assms c by (auto simp: lists3_def doc_of_def)
    have "ascending (map (doc_of w) as)" "ascending (map (doc_of w) bs)"
      using assms by (auto simp: lists3_def ascending_def)
    then have "lists3 ?w n1 as n2 bs n3 cs"
      using assms c 1(4) 2(4) 3(3) unfolding lists3_def k d by simp
    moreover have "intersect_posting_lists p3 p1 p2 w = intersect_posting_lists n3 n1 n2 ?w"
      using eq 1 2 3 set_docID_ok [OF 3(2), of "doc_of w a"]
      by (subst intersect_posting_lists.simps) (simp add: get_node_def)
    ultimately show ?thesis using 3(2) by blast
  qed
  have skip: "doc_of w a < doc_of w b \<Longrightarrow> intersect_posting_lists p3 p1 p2 w = intersect_posting_lists p3 n1 p2 w"
    "doc_of w b < doc_of w a \<Longrightarrow> intersect_posting_lists p3 p1 p2 w = intersect_posting_lists p3 p1 n2 w"
    using 1 2 by (subst intersect_posting_lists.simps, simp)+
  show ?thesis
    by (rule exI [of _ n1], rule exI [of _ n2], intro conjI allI impI)
      (rule lists | rule skip, assumption | rule full, assumption, assumption)+
qed

lemma intersect_null:
  assumes "lists3 w p1 (a # as) p2 (b # bs) p3 []" and "doc_of w a = doc_of w b" and "heap w 0 = None"
  shows "intersect_posting_lists p3 p1 p2 w = None"
proof -
  from assms(1) have s: "seg (kinds w) p1 (a # as) 0" "seg (kinds w) p2 (b # bs) 0" "p3 = 0"
    unfolding lists3_def by auto
  then show ?thesis using seg_at [OF s(1)] seg_at [OF s(2)] assms(2,3)
    by (subst intersect_posting_lists.simps) (auto simp: set_docID_def)
qed

text \<open>The common numbers are written to the front of the result list, and nothing else changes.\<close>

lemma intersect_common:
  assumes "lists3 w p1 q1 p2 q2 p3 q3"
    and "length (common (map (doc_of w) q1) (map (doc_of w) q2)) \<le> length q3"
  shows "\<exists>w'. intersect_posting_lists p3 p1 p2 w = Some w' \<and> later hw w w' \<and>
    map (doc_of w') q3 = common (map (doc_of w) q1) (map (doc_of w) q2) @
      drop (length (common (map (doc_of w) q1) (map (doc_of w) q2))) (map (doc_of w) q3) \<and>
    (\<forall>p. p \<notin> set q3 \<longrightarrow> heap w' p = heap w p)"
  using assms
proof (induction "length q1 + length q2" arbitrary: p1 q1 p2 q2 p3 q3 w rule: less_induct)
  case less
  show ?case
  proof (cases "q1 = [] \<or> q2 = []")
    case True
    with less.prems(1) have "p1 = 0 \<or> p2 = 0" by (auto simp: lists3_def)
    with True show ?thesis by (subst intersect_posting_lists.simps) (auto simp: common_simps)
  next
    case False
    then obtain a as b bs where q: "q1 = a # as" "q2 = b # bs" by (auto simp: neq_Nil_conv)
    have asc: "ascending (doc_of w a # map (doc_of w) as)" "ascending (doc_of w b # map (doc_of w) bs)"
      using less.prems(1) q by (simp_all add: lists3_def)
    obtain n1 n2 where r: "lists3 w n1 as p2 (b # bs) p3 q3" "lists3 w p1 (a # as) n2 bs p3 q3"
      "doc_of w a < doc_of w b \<Longrightarrow> intersect_posting_lists p3 p1 p2 w = intersect_posting_lists p3 n1 p2 w"
      "doc_of w b < doc_of w a \<Longrightarrow> intersect_posting_lists p3 p1 p2 w = intersect_posting_lists p3 p1 n2 w"
      "\<forall>c cs. doc_of w a = doc_of w b \<longrightarrow> q3 = c # cs \<longrightarrow>
        (\<exists>n3 w1. intersect_posting_lists p3 p1 p2 w = intersect_posting_lists n3 n1 n2 w1 \<and>
          lists3 w1 n1 as n2 bs n3 cs \<and> heap w c = Some (Node (doc_of w c) n3) \<and>
          w1 = w\<lparr>heap := (heap w)(c \<mapsto> Node (doc_of w a) n3)\<rparr>)"
      using intersect_round [OF less.prems(1) [unfolded q]] by blast
    consider "doc_of w a = doc_of w b" | "doc_of w a < doc_of w b" | "doc_of w b < doc_of w a" by linarith
    then show ?thesis
    proof cases
      case 1
      then obtain c cs where c: "q3 = c # cs"
        using less.prems(2) asc(1) q by (cases q3) (auto simp: common_simps)
      with 1 r(5) obtain n3 w1 where w1: "intersect_posting_lists p3 p1 p2 w = intersect_posting_lists n3 n1 n2 w1"
        "lists3 w1 n1 as n2 bs n3 cs" "heap w c = Some (Node (doc_of w c) n3)"
        "w1 = w\<lparr>heap := (heap w)(c \<mapsto> Node (doc_of w a) n3)\<rparr>" by blast
      have d: "map (doc_of w1) as = map (doc_of w) as" "map (doc_of w1) bs = map (doc_of w) bs"
        "map (doc_of w1) cs = map (doc_of w) cs" "doc_of w1 c = doc_of w a"
        using less.prems(1) q c w1(4) by (auto simp: lists3_def doc_of_def)
      have "length (common (map (doc_of w1) as) (map (doc_of w1) bs)) \<le> length cs"
        unfolding d(1,2) using less.prems(2) asc(1) 1 q c by (simp add: common_simps)
      with less.hyps [OF _ w1(2)] q obtain w' where
        w': "intersect_posting_lists n3 n1 n2 w1 = Some w'" "later hw w1 w'"
        "map (doc_of w') cs = common (map (doc_of w) as) (map (doc_of w) bs) @
          drop (length (common (map (doc_of w) as) (map (doc_of w) bs))) (map (doc_of w) cs)"
        "\<forall>p. p \<notin> set cs \<longrightarrow> heap w' p = heap w1 p" unfolding d by auto
      have "doc_of w' c = doc_of w a"
        using w'(4) d(4) less.prems(1) c by (simp add: lists3_def doc_of_def)
      moreover have "later hw w w'"
        using later_trans [OF later_set_doc [OF w1(3)] w'(2) [unfolded w1(4)]] .
      moreover have "common (map (doc_of w) q1) (map (doc_of w) q2) =
          doc_of w a # common (map (doc_of w) as) (map (doc_of w) bs)"
        using asc(1) 1 q by (simp add: common_simps)
      ultimately show ?thesis using w1(1,4) w' c by (intro exI [of _ w']) simp
    next
      case 2
      then have "common (map (doc_of w) q1) (map (doc_of w) q2) = common (map (doc_of w) as) (map (doc_of w) (b # bs))"
        using asc(2) q by (simp add: common_simps)
      with less.hyps [OF _ r(1)] less.prems(2) r(3) [OF 2] q show ?thesis by simp
    next
      case 3
      then have "common (map (doc_of w) q1) (map (doc_of w) q2) = common (map (doc_of w) (a # as)) (map (doc_of w) bs)"
        using asc(1) q by (simp add: common_simps)
      with less.hyps [OF _ r(2)] less.prems(2) r(4) [OF 3] q show ?thesis by simp
    qed
  qed
qed

text \<open>A result list that is too short is a write through \<open>NULL\<close>.\<close>

lemma intersect_overflow:
  assumes "lists3 w p1 q1 p2 q2 p3 q3" and "heap w 0 = None"
    and "length q3 < length (common (map (doc_of w) q1) (map (doc_of w) q2))"
  shows "intersect_posting_lists p3 p1 p2 w = None"
  using assms
proof (induction "length q1 + length q2" arbitrary: p1 q1 p2 q2 p3 q3 w rule: less_induct)
  case less
  from less.prems(3) have "q1 \<noteq> []" "q2 \<noteq> []" by (auto simp: common_def)
  then obtain a as b bs where q: "q1 = a # as" "q2 = b # bs" by (auto simp: neq_Nil_conv)
  have asc: "ascending (doc_of w a # map (doc_of w) as)" "ascending (doc_of w b # map (doc_of w) bs)"
    using less.prems(1) q by (simp_all add: lists3_def)
  obtain n1 n2 where r: "lists3 w n1 as p2 (b # bs) p3 q3" "lists3 w p1 (a # as) n2 bs p3 q3"
    "doc_of w a < doc_of w b \<Longrightarrow> intersect_posting_lists p3 p1 p2 w = intersect_posting_lists p3 n1 p2 w"
    "doc_of w b < doc_of w a \<Longrightarrow> intersect_posting_lists p3 p1 p2 w = intersect_posting_lists p3 p1 n2 w"
    "\<forall>c cs. doc_of w a = doc_of w b \<longrightarrow> q3 = c # cs \<longrightarrow>
      (\<exists>n3 w1. intersect_posting_lists p3 p1 p2 w = intersect_posting_lists n3 n1 n2 w1 \<and>
        lists3 w1 n1 as n2 bs n3 cs \<and> heap w c = Some (Node (doc_of w c) n3) \<and>
        w1 = w\<lparr>heap := (heap w)(c \<mapsto> Node (doc_of w a) n3)\<rparr>)"
    using intersect_round [OF less.prems(1) [unfolded q]] by blast
  consider "doc_of w a = doc_of w b" "q3 = []" | c cs where "doc_of w a = doc_of w b" "q3 = c # cs"
    | "doc_of w a < doc_of w b" | "doc_of w b < doc_of w a"
    using linorder_less_linear [of "doc_of w a" "doc_of w b"] by (cases q3) blast+
  then show ?case
  proof cases
    case 1
    with intersect_null [of w p1 a as p2 b bs p3] less.prems(1,2) q show ?thesis by simp
  next
    case (2 c cs)
    with r(5) obtain n3 w1 where w1: "intersect_posting_lists p3 p1 p2 w = intersect_posting_lists n3 n1 n2 w1"
      "lists3 w1 n1 as n2 bs n3 cs" "w1 = w\<lparr>heap := (heap w)(c \<mapsto> Node (doc_of w a) n3)\<rparr>" by blast
    have d: "map (doc_of w1) as = map (doc_of w) as" "map (doc_of w1) bs = map (doc_of w) bs"
      using less.prems(1) q 2(2) w1(3) by (auto simp: lists3_def doc_of_def)
    have "0 \<notin> set q3" using less.prems(1) seg_nonzero by (auto simp: lists3_def)
    then have "heap w1 0 = None" using less.prems(2) 2(2) w1(3) by simp
    moreover have "length cs < length (common (map (doc_of w1) as) (map (doc_of w1) bs))"
      unfolding d using less.prems(3) asc(1) 2 q by (simp add: common_simps)
    ultimately show ?thesis using less.hyps [OF _ w1(2)] w1(1) q by simp
  next
    case 3
    then have "common (map (doc_of w) q1) (map (doc_of w) q2) = common (map (doc_of w) as) (map (doc_of w) (b # bs))"
      using asc(2) q by (simp add: common_simps)
    with less.hyps [OF _ r(1)] less.prems(2,3) r(3) [OF 3] q show ?thesis by simp
  next
    case 4
    then have "common (map (doc_of w) q1) (map (doc_of w) q2) = common (map (doc_of w) (a # as)) (map (doc_of w) bs)"
      using asc(1) q by (simp add: common_simps)
    with less.hyps [OF _ r(2)] less.prems(2,3) r(4) [OF 4] q show ?thesis by simp
  qed
qed

section \<open>Arrays of lists\<close>

definition allocate_pre_intersected_posting_lists_llc :: "env \<Rightarrow> nat \<Rightarrow> world \<Rightarrow> ((ptr \<times> ptr list) \<times> world) option" where
  "allocate_pre_intersected_posting_lists_llc hw total_requests =
    alloc_array (\<lambda>i. build_llc_ll hw (pl_len hw)) total_requests"

definition free_pre_intersected_posting_lists_llc :: "nat \<Rightarrow> ptr \<times> ptr list \<Rightarrow> world \<Rightarrow> world option" where
  "free_pre_intersected_posting_lists_llc total_requests = free_array free_ll total_requests"

text \<open>Two lists to intersect and one for the result, for each request.\<close>

definition allocate_posting_lists :: "env \<Rightarrow> nat \<Rightarrow> world \<Rightarrow> ((ptr \<times> (ptr \<times> ptr list) list) \<times> world) option" where
  "allocate_posting_lists hw total_requests =
    alloc_array (\<lambda>i. alloc_array (\<lambda>j. build_host_ll hw (pl_len hw)) 3) total_requests"

definition free_posting_lists :: "nat \<Rightarrow> ptr \<times> (ptr \<times> ptr list) list \<Rightarrow> world \<Rightarrow> world option" where
  "free_posting_lists total_requests = free_array (free_array free_ll 3) total_requests"

definition host_good :: "env \<Rightarrow> nat \<Rightarrow> ptr \<Rightarrow> ptr set \<Rightarrow> ptr set \<Rightarrow> (ptr \<Rightarrow> kind option) \<Rightarrow> bool" where
  "host_good hw i p F G K \<longleftrightarrow> (\<exists>qs. length qs = nat (pl_len hw) \<and> distinct qs \<and> seg K p qs 0 \<and> F = set qs \<and> G = set qs)"

definition llc_good :: "env \<Rightarrow> nat \<Rightarrow> ptr \<Rightarrow> ptr set \<Rightarrow> ptr set \<Rightarrow> (ptr \<Rightarrow> kind option) \<Rightarrow> bool" where
  "llc_good hw i p F G K \<longleftrightarrow> (\<exists>qs L. length qs = nat (pl_len hw) \<and> distinct qs \<and> seg K p qs 0 \<and>
    F = set qs \<union> L \<and> G = set qs \<and> set qs \<inter> L = {} \<and> nat (pl_len hw) < card L)"

interpretation host_list: allocator "\<lambda>i. build_host_ll hw (pl_len hw)" free_ll "host_good hw" "\<lambda>_. True" "\<lambda>w. 0 < pl_len hw" for hw
proof
  fix i w assume "0 < pl_len hw" "fresh w"
  with build_host_ll_ok [of w "nat (pl_len hw)" hw] show "\<exists>a w' F G. build_host_ll hw (pl_len hw) w = Some (a, w') \<and>
      grows F w w' \<and> calm w w' \<and> 0 < pl_len hw \<and> host_good hw i a F G (kinds w')"
    by (fastforce simp: host_good_def list_of_def)
next
  fix i a F G K K' assume "host_good hw i a F G K" "\<forall>p \<in> F. K' p = K p"
  then show "host_good hw i a F G K'" using seg_cong unfolding host_good_def by metis
qed (auto simp: host_good_def releases_free_ll)

interpretation llc_list: allocator "\<lambda>i. build_llc_ll hw (pl_len hw)" free_ll "llc_good hw" "\<lambda>_. True" "\<lambda>w. 0 < pl_len hw \<and> dml_ok hw" for hw
proof
  fix i w assume "0 < pl_len hw \<and> dml_ok hw" "fresh w"
  with build_llc_ll_ok [of hw w "nat (pl_len hw)"] obtain p w' qs L where
    "build_llc_ll hw (pl_len hw) w = Some (p, w')" "list_of w' p qs (nat (pl_len hw))" "calm w w'"
    "grows (set qs \<union> L) w w'" "set qs \<inter> L = {}" "nat (pl_len hw) + 1 \<le> card L" by auto
  moreover from this have "llc_good hw i p (set qs \<union> L) (set qs) (kinds w')"
    unfolding llc_good_def list_of_def by (intro exI [of _ qs] exI [of _ L]) simp
  ultimately show "\<exists>a w' F G. build_llc_ll hw (pl_len hw) w = Some (a, w') \<and>
      grows F w w' \<and> calm w w' \<and> (0 < pl_len hw \<and> dml_ok hw) \<and> llc_good hw i a F G (kinds w')"
    using \<open>0 < pl_len hw \<and> dml_ok hw\<close> by blast
next
  fix i a F G K K' assume "llc_good hw i a F G K" "\<forall>p \<in> F. K' p = K p"
  then show "llc_good hw i a F G K'" using seg_cong unfolding llc_good_def by (metis UnI1)
qed (auto simp: llc_good_def releases_free_ll)

interpretation host_lists: allocator "\<lambda>i. alloc_array (\<lambda>j. build_host_ll hw (pl_len hw)) 3" "free_array free_ll 3"
    "\<lambda>i. host_list.array_good hw 3" "\<lambda>_. True" "\<lambda>w. 0 < pl_len hw" for hw
  by (rule host_list.array_allocator) simp

section \<open>Properties\<close>

text \<open>C18: The posting lists that the harness allocates for its requests are freed completely: whatever
  the requests between do (they keep the shape of the heap), every block of the lists and of the
  arrays is gone afterwards, and nothing else is.\<close>

theorem posting_lists_roundtrip:
  assumes "fresh w" and "0 < pl_len hw"
  shows "\<exists>arr w1. allocate_posting_lists hw n w = Some (arr, w1) \<and> length (snd arr) = n \<and>
    (\<forall>p < nxt w. heap w1 p = heap w p) \<and>
    (\<forall>w1'. shape w1' = shape w1 \<longrightarrow> (\<exists>w2. free_posting_lists n arr w1' = Some w2 \<and>
      (\<forall>p. heap w2 p = (if p < nxt w then heap w1' p else None))))"
proof -
  obtain arr w1 F G where a: "allocate_posting_lists hw n w = Some (arr, w1)" "grows F w w1"
    "host_lists.array_good hw n arr F G (kinds w1)"
    using host_lists.array_alloc [OF _ assms(2,1)] unfolding allocate_posting_lists_def by blast
  have "G = F" if "host_good hw i p F G K" for i p F G K
    using that unfolding host_good_def by blast
  then have "G = F" if "host_list.array_good hw m p F G K" for m p F G K
    using host_list.array_no_leak [OF that] by blast
  then have "G = F" using host_lists.array_no_leak [OF a(3)] by blast
  then have "releases (kinds w1) F (free_posting_lists n arr)"
    using host_lists.array_releases [OF a(3)] by (simp add: free_posting_lists_def)
  moreover have "\<forall>p < nxt w. heap w1 p = heap w p" using a(2) unfolding grows_def by (metis leD)
  ultimately show ?thesis
    using a host_lists.array_nth [OF a(3)] releases_after_run [OF assms(1) a(2)] by blast
qed

lemma posting_lists_roundtrip_witness:
  "\<exists>arr w1 w2. allocate_posting_lists sample_env 2 (sample_world 3) = Some (arr, w1) \<and>
    free_posting_lists 2 arr w1 = Some w2 \<and> heap w2 = heap (sample_world 3)"
proof -
  have f: "fresh (sample_world 3)" by (simp add: fresh_def sample_world_def sample_heap_def)
  have "0 < pl_len sample_env" by (simp add: sample_env_def)
  from posting_lists_roundtrip [OF f this, of 2] obtain arr w1 w2 where
    r: "allocate_posting_lists sample_env 2 (sample_world 3) = Some (arr, w1)"
      "\<forall>p < nxt (sample_world 3). heap w1 p = heap (sample_world 3) p" "free_posting_lists 2 arr w1 = Some w2"
      "\<forall>p. heap w2 p = (if p < nxt (sample_world 3) then heap w1 p else None)" by blast
  then have "heap w2 = heap (sample_world 3)" using f by (auto simp: fun_eq_iff fresh_def)
  with r show ?thesis by blast
qed

text \<open>The lists for the last level cache are correct, but building one leaves the last node that
  was allocated to copy to and at least one DML job per node on the heap, and the deallocation of
  the lists does not free them.\<close>

theorem build_llc_ll_leaks:
  assumes "dml_ok hw" and "fresh w" and "0 < m"
  shows "\<exists>p w1 w2 L. build_llc_ll hw (int m) w = Some (p, w1) \<and> free_ll p w1 = Some w2 \<and>
    (\<exists>qs. list_of w1 p qs m) \<and> m + 1 \<le> card L \<and> card L \<le> 5 * m + 1 \<and>
    (\<forall>q. heap w q = None \<longrightarrow> (heap w2 q \<noteq> None \<longleftrightarrow> q \<in> L))"
proof -
  obtain p w1 qs L where b: "build_llc_ll hw (int m) w = Some (p, w1)" "list_of w1 p qs m"
    "grows (set qs \<union> L) w w1" "set qs \<inter> L = {}" "m + 1 \<le> card L" "card L \<le> 5 * m + 1"
    using build_llc_ll_ok [OF assms] by blast
  let ?w2 = "without (set qs) w1"
  have "free_ll p w1 = Some ?w2"
    using releases_free_ll [of "kinds w1" p qs] b(2) by (simp add: list_of_def releases_def)
  moreover have "\<forall>q. heap w q = None \<longrightarrow> (heap ?w2 q \<noteq> None \<longleftrightarrow> q \<in> L)"
  proof (intro allI impI)
    fix q assume "heap w q = None"
    then show "heap ?w2 q \<noteq> None \<longleftrightarrow> q \<in> L"
      using b(3,4) by (cases "q \<in> set qs"; cases "q \<in> L") (auto simp: heap_without grows_def)
  qed
  moreover have "\<exists>qs. list_of w1 p qs m" using b(2) ..
  ultimately show ?thesis using b(1,5,6) by blast
qed

lemma build_llc_ll_leaks_witness:
  "\<exists>p w1 w2 L. build_llc_ll sample_env 2 (sample_world 3) = Some (p, w1) \<and> free_ll p w1 = Some w2 \<and>
    3 \<le> card L \<and> (\<forall>q \<in> L. heap (sample_world 3) q = None \<longrightarrow> heap w2 q \<noteq> None)"
proof -
  have "fresh (sample_world 3)" by (simp add: fresh_def sample_world_def sample_heap_def)
  moreover have "dml_ok sample_env" by (simp add: dml_ok_def sample_env_def)
  ultimately obtain p w1 w2 L where "build_llc_ll sample_env (int 2) (sample_world 3) = Some (p, w1)"
    "free_ll p w1 = Some w2" "2 + 1 \<le> card L"
    "\<forall>q. heap (sample_world 3) q = None \<longrightarrow> (heap w2 q \<noteq> None \<longleftrightarrow> q \<in> L)"
    using build_llc_ll_leaks [of sample_env "sample_world 3" 2] by auto
  then show ?thesis by (intro exI [of _ p] exI [of _ w1] exI [of _ w2] exI [of _ L]) auto
qed

text \<open>C17: On ascending lists the intersection writes the common document numbers, in order, to the
  front of the result list.  It changes nothing else: the result list keeps its length, so the
  numbers that were there before stay behind the result and nothing marks its end.\<close>

theorem intersect_posting_lists_correct:
  assumes "lists3 w p1 q1 p2 q2 p3 q3"
    and "length (common (map (doc_of w) q1) (map (doc_of w) q2)) \<le> length q3"
  shows "\<exists>w'. intersect_posting_lists p3 p1 p2 w = Some w' \<and>
    map (doc_of w') q3 = common (map (doc_of w) q1) (map (doc_of w) q2) @
      drop (length (common (map (doc_of w) q1) (map (doc_of w) q2))) (map (doc_of w) q3) \<and>
    seg (kinds w') p3 q3 0 \<and> (\<forall>p. p \<notin> set q3 \<longrightarrow> heap w' p = heap w p)"
  using intersect_common [OF assms] assms(1) later_kinds unfolding lists3_def by metis

text \<open>Three lists on a heap.\<close>

definition list_heap :: "ptr \<Rightarrow> block option" where
  "list_heap = [1 \<mapsto> Node 1 2, 2 \<mapsto> Node 3 3, 3 \<mapsto> Node 5 0, 4 \<mapsto> Node 3 5, 5 \<mapsto> Node 4 6, 6 \<mapsto> Node 5 0,
    7 \<mapsto> Node 0 8, 8 \<mapsto> Node 1 9, 9 \<mapsto> Node 2 0]"

definition list_world :: world where "list_world = (sample_world 3)\<lparr>heap := list_heap\<rparr>"

lemma list_world_lists: "lists3 list_world 1 [1, 2, 3] 4 [4, 5, 6] 7 [7, 8, 9]"
  "lists3 list_world 1 [1, 2, 3] 4 [4, 5, 6] 9 [9]"
  by (simp_all add: lists3_def list_world_def list_heap_def kinds_def doc_of_def ascending_def)

lemma intersect_posting_lists_correct_witness:
  "\<exists>w'. intersect_posting_lists 7 1 4 list_world = Some w' \<and> map (doc_of w') [7, 8, 9] = [3, 5, 2]"
  using intersect_posting_lists_correct [OF list_world_lists(1)]
  by (auto simp: common_def list_world_def list_heap_def doc_of_def)

text \<open>A result list that is shorter than the intersection is written through its end, a null
  pointer.\<close>

theorem intersect_result_too_short:
  assumes "lists3 w p1 q1 p2 q2 p3 q3" and "heap w 0 = None"
    and "length q3 < length (common (map (doc_of w) q1) (map (doc_of w) q2))"
  shows "intersect_posting_lists p3 p1 p2 w = None"
  by (rule intersect_overflow [OF assms])

lemma intersect_result_too_short_witness: "intersect_posting_lists 9 1 4 list_world = None"
  using intersect_result_too_short [OF list_world_lists(2)]
  by (simp add: common_def list_world_def list_heap_def doc_of_def)

end
