(* ===== verification/Requests_Walker.thy ===== *)
theory Requests_Walker
  imports Posting_List
begin

text \<open>
  The posting list requests (\<open>src/walker_requests.cpp\<close>): the CPU requests intersect two lists and
  traverse the result; the offload requests leave the intersection to the emulated accelerator and
  traverse a list that was intersected before.  The reads of \<open>total_offloads\<close> for the log of
  \<open>yielding_simple_ranker_request_stamped\<close> are not modelled.
\<close>

section \<open>Requests\<close>

definition cpu_simple_ranker_request_stamped :: "env \<Rightarrow> gpcore_args \<Rightarrow> world \<Rightarrow> world slice option" where
  "cpu_simple_ranker_request_stamped hw args w =
    do {
      plist1_head \<leftarrow> arr_get (g_inputs args) 0;
      plist2_head \<leftarrow> arr_get (g_inputs args) 1;
      result_head \<leftarrow> arr_get (g_inputs args) 2;
      w \<leftarrow> stamp hw (g_ts0 args) (g_id args) w;
      w \<leftarrow> intersect_posting_lists result_head plist1_head plist2_head w;
      w \<leftarrow> stamp hw (g_ts1 args) (g_id args) w;
      w \<leftarrow> ll_simple result_head w;
      w \<leftarrow> stamp hw (g_ts2 args) (g_id args) w;
      finish_request w
    }"

definition cpu_simple_ranker_request :: "gpcore_args \<Rightarrow> world \<Rightarrow> world slice option" where
  "cpu_simple_ranker_request args w =
    do {
      plist1_head \<leftarrow> arr_get (g_inputs args) 0;
      plist2_head \<leftarrow> arr_get (g_inputs args) 1;
      result_head \<leftarrow> arr_get (g_inputs args) 2;
      w \<leftarrow> intersect_posting_lists result_head plist1_head plist2_head w;
      w \<leftarrow> ll_simple result_head w;
      finish_request w
    }"

definition blocking_simple_ranker_request_stamped :: "env \<Rightarrow> offload_args \<Rightarrow> world \<Rightarrow> world slice option" where
  "blocking_simple_ranker_request_stamped hw args w =
    do {
      w \<leftarrow> stamp hw (a_ts0 args) (a_id args) w;
      (st, w) \<leftarrow> submit_offload hw (a_comp args) (a_dst_payload args) w;
      (if st = STATUS_FAIL then Some (Exit w)
       else do {
         w \<leftarrow> stamp hw (a_ts1 args) (a_id args) w;
         w \<leftarrow> wait_while hw COMP_STATUS_PENDING (a_comp args) w;
         w \<leftarrow> stamp hw (a_ts2 args) (a_id args) w;
         w \<leftarrow> ll_simple (a_dst_payload args) w;
         w \<leftarrow> stamp hw (a_ts3 args) (a_id args) w;
         finish_request w
       })
    }"

definition blocking_simple_ranker_request :: "env \<Rightarrow> offload_args \<Rightarrow> world \<Rightarrow> world slice option" where
  "blocking_simple_ranker_request hw args w =
    do {
      (st, w) \<leftarrow> submit_offload hw (a_comp args) (a_dst_payload args) w;
      (if st = STATUS_FAIL then Some (Exit w)
       else do {
         w \<leftarrow> wait_while hw COMP_STATUS_PENDING (a_comp args) w;
         w \<leftarrow> ll_simple (a_dst_payload args) w;
         finish_request w
       })
    }"

definition yielding_simple_ranker_request :: "env \<Rightarrow> offload_args \<Rightarrow> world \<Rightarrow> world slice option" where
  "yielding_simple_ranker_request hw args w =
    do {
      (st, w) \<leftarrow> submit_offload hw (a_comp args) (a_dst_payload args) w;
      (if st = STATUS_FAIL then Some (Exit w)
       else Some (Yield w (\<lambda>_ w.
         do {
           w \<leftarrow> ll_simple (a_dst_payload args) w;
           finish_request w
         })))
    }"

definition yielding_simple_ranker_request_stamped :: "env \<Rightarrow> offload_args \<Rightarrow> world \<Rightarrow> world slice option" where
  "yielding_simple_ranker_request_stamped hw args w =
    do {
      w \<leftarrow> stamp hw (a_ts0 args) (a_id args) w;
      (st, w) \<leftarrow> submit_offload hw (a_comp args) (a_dst_payload args) w;
      (if st = STATUS_FAIL then Some (Exit w)
       else do {
         w \<leftarrow> stamp hw (a_ts1 args) (a_id args) w;
         Some (Yield w (\<lambda>_ w.
           do {
             w \<leftarrow> stamp hw (a_ts2 args) (a_id args) w;
             w \<leftarrow> ll_simple (a_dst_payload args) w;
             w \<leftarrow> stamp hw (a_ts3 args) (a_id args) w;
             finish_request w
           }))
       })
    }"

section \<open>Contracts\<close>

text \<open>An acyclic list.\<close>

definition list_at :: "shape \<Rightarrow> ptr \<Rightarrow> bool" where
  "list_at K p \<longleftrightarrow> (\<exists>qs. seg (blocks K) p qs 0)"

definition ranker_inputs :: "shape \<Rightarrow> gpcore_args \<Rightarrow> bool" where
  "ranker_inputs K a \<longleftrightarrow> (\<exists>p1 p2 p3 q1 q2 q3 rest. g_inputs a = p1 # p2 # p3 # rest \<and> seg (blocks K) p1 q1 0 \<and>
    seg (blocks K) p2 q2 0 \<and> seg (blocks K) p3 q3 0 \<and> length q1 \<le> length q3)"

lemma safe_ll_simple [request_rules]: "list_at K p \<Longrightarrow> safe hw K n (ll_simple p)"
  using ll_simple_ok by (auto simp: safe_def list_at_def)

lemma safe_intersect:
  assumes "seg (blocks K) p1 q1 0" and "seg (blocks K) p2 q2 0" and "seg (blocks K) p3 q3 0"
    and "length q1 \<le> length q3"
  shows "safe hw K n (intersect_posting_lists p3 p1 p2)"
  using assms intersect_safe by (auto simp: safe_def)

lemma cpu_simple_ranker_request_stamped_fin:
  assumes "ranker_inputs K a" and "core_timed_args K n i a"
  shows "fin_ok 1 hw K n (cpu_simple_ranker_request_stamped hw a)"
proof -
  from assms(1) obtain p1 p2 p3 q1 q2 q3 rest where i: "g_inputs a = p1 # p2 # p3 # rest"
    "seg (blocks K) p1 q1 0" "seg (blocks K) p2 q2 0" "seg (blocks K) p3 q3 0" "length q1 \<le> length q3"
    unfolding ranker_inputs_def by blast
  then have "list_at K p3" by (auto simp: list_at_def)
  with i assms(2) show ?thesis
    unfolding cpu_simple_ranker_request_stamped_def [abs_def] core_timed_args_def
    by (simp add: arr_get_def) (intro fin_ok_bind safe_intersect request_rules; simp)
qed

lemma cpu_simple_ranker_request_fin:
  assumes "ranker_inputs K a"
  shows "fin_ok 1 hw K n (cpu_simple_ranker_request a)"
proof -
  from assms(1) obtain p1 p2 p3 q1 q2 q3 rest where i: "g_inputs a = p1 # p2 # p3 # rest"
    "seg (blocks K) p1 q1 0" "seg (blocks K) p2 q2 0" "seg (blocks K) p3 q3 0" "length q1 \<le> length q3"
    unfolding ranker_inputs_def by blast
  then have "list_at K p3" by (auto simp: list_at_def)
  with i show ?thesis
    unfolding cpu_simple_ranker_request_def [abs_def]
    by (simp add: arr_get_def) (intro fin_ok_bind safe_intersect request_rules; simp)
qed

lemma blocking_simple_ranker_request_stamped_run:
  assumes env: "env_ok hw" and "test_ok hw complete" and "\<And>k. \<not> busy hw k" and "slot_args n i a"
    and "timed_args K n a" and "list_at K (a_dst_payload a)"
  shows "run_ok 1 hw K n complete i (blocking_simple_ranker_request_stamped hw a)"
  using assms unfolding blocking_simple_ranker_request_stamped_def [abs_def] args_defs COMP_STATUS_PENDING_def
  by (simp cong: if_cong, intro run_ok_bind [OF safe_stamp] run_ok_offload wait_ok_bind [OF _ _ safe_stamp]
      wait_ok_wait request_rules; simp)

lemma blocking_simple_ranker_request_run:
  assumes env: "env_ok hw" and "test_ok hw complete" and "\<And>k. \<not> busy hw k" and "slot_args n i a"
    and "list_at K (a_dst_payload a)"
  shows "run_ok 1 hw K n complete i (blocking_simple_ranker_request hw a)"
  using assms unfolding blocking_simple_ranker_request_def [abs_def] args_defs COMP_STATUS_PENDING_def
  by (simp cong: if_cong, intro run_ok_offload wait_ok_wait request_rules; simp)

lemma yielding_simple_ranker_request_entry:
  assumes env: "env_ok hw" and "\<And>k. \<not> busy hw k" and "slot_args n i a" and "list_at K (a_dst_payload a)"
  shows "entry_ok 1 hw K n complete i (yielding_simple_ranker_request hw a)"
  using assms unfolding yielding_simple_ranker_request_def [abs_def] args_defs
  by (simp cong: if_cong, intro entry_ok_offload request_rules; simp)

lemma yielding_simple_ranker_request_stamped_entry:
  assumes env: "env_ok hw" and "\<And>k. \<not> busy hw k" and "slot_args n i a" and "timed_args K n a"
    and "list_at K (a_dst_payload a)"
  shows "entry_ok 1 hw K n complete i (yielding_simple_ranker_request_stamped hw a)"
  using assms unfolding yielding_simple_ranker_request_stamped_def [abs_def] args_defs
  by (simp cong: if_cong, intro entry_ok_bind [OF safe_stamp] entry_ok_offload request_rules; simp)

end
