(* ===== verification/Request_Args.thy ===== *)
theory Request_Args
  imports Heap_Life Requests_Memcpy
begin

text \<open>
  The allocators of completion records, request structs, payloads and contexts, and their
  deallocators: \<open>src/offload.cpp\<close>, \<open>src/context_management.cpp\<close> and the \<open>alloc\<close> and \<open>free\<close>
  functions of the request files.  The bodies of the loops are definitions of their own; the
  functions with and without time stamps share a body, which gets the assignment of the time stamp
  arrays as a function.  The address \<open>&comps[i]\<close> is the index \<open>i\<close>.
\<close>

section \<open>Blocks in a row\<close>

text \<open>The heap after the blocks \<open>bs\<close> were allocated one after the other.\<close>

definition put_blocks :: "world \<Rightarrow> block list \<Rightarrow> world" where
  "put_blocks w bs = w\<lparr>heap := (\<lambda>p. if nxt w \<le> p \<and> p < nxt w + length bs then Some (bs ! (p - nxt w)) else heap w p),
    nxt := nxt w + length bs\<rparr>"

lemma put_blocks_Nil: "put_blocks w [] = w"
  by (cases w) (auto simp: put_blocks_def fun_eq_iff)

lemma malloc_put: "malloc b (put_blocks w bs) = (nxt w + length bs, put_blocks w (bs @ [b]))"
  by (cases w) (auto simp: malloc_def put_blocks_def fun_eq_iff nth_append)

lemma malloc_first: "malloc b w = (nxt w, put_blocks w [b])"
  using malloc_put [of b w "[]"] by (simp add: put_blocks_Nil)

lemma put_put: "put_blocks (put_blocks w bs) cs = put_blocks w (bs @ cs)"
  by (cases w) (auto simp: put_blocks_def fun_eq_iff nth_append)

lemma heap_put: "i < length bs \<Longrightarrow> heap (put_blocks w bs) (nxt w + i) = Some (bs ! i)"
  by (simp add: put_blocks_def)

lemma update_put:
  "i < length bs \<Longrightarrow> (put_blocks w bs)\<lparr>heap := (heap (put_blocks w bs))(nxt w + i \<mapsto> b)\<rparr> = put_blocks w (bs[i := b])"
  by (cases w) (auto simp: put_blocks_def fun_eq_iff nth_list_update)

lemma put_blocks_frame [simp]:
  "nxt (put_blocks w bs) = nxt w + length bs" "rands (put_blocks w bs) = rands w" "crs (put_blocks w bs) = crs w"
  "g_indir_arr (put_blocks w bs) = g_indir_arr w" "g_item_buf (put_blocks w bs) = g_item_buf w"
  by (simp_all add: put_blocks_def)

lemma put_blocks_rands: "(put_blocks w bs)\<lparr>rands := k\<rparr> = put_blocks (w\<lparr>rands := k\<rparr>) bs"
  by (cases w) (auto simp: put_blocks_def fun_eq_iff)

lemma grows_put: "grows {nxt w..<nxt w + length bs} w (put_blocks w bs)" "calm w (put_blocks w bs)"
  by (auto simp: grows_def put_blocks_def calm_def)

lemma grows_put_rands: "grows {nxt w..<nxt w + length bs} w (put_blocks (w\<lparr>rands := k\<rparr>) bs)"
  "calm w (put_blocks (w\<lparr>rands := k\<rparr>) bs)"
  by (auto simp: grows_def put_blocks_def calm_def)

lemma kinds_put: "i < length bs \<Longrightarrow> kinds (put_blocks w bs) (nxt w + i) = Some (kind_of (bs ! i))"
  by (simp add: kinds_def heap_put)

section \<open>Uninitialised memory and constants\<close>

definition query :: "u8 list" where "query = map of_char ''/region/cluster/foo:key|#|etc''"

definition payload :: "u8 list" where "payload = map of_char ''/region/cluster/foo:key|#|etc''"

definition uninit_desc :: "env \<Rightarrow> ptr \<Rightarrow> hw_desc" where
  "uninit_desc hw p = zero_desc\<lparr>d_flags := ucast (garbage hw p 0), d_opcode := garbage hw p 1,
    d_src_addr := unat (garbage hw p 2), d_dst_addr := unat (garbage hw p 3)\<rparr>"

definition malloc_desc :: "env \<Rightarrow> world \<Rightarrow> ptr \<times> world" where
  "malloc_desc hw w = malloc (Desc (uninit_desc hw (nxt w))) w"

text \<open>A struct that was just allocated at \<open>p\<close>: its fields hold whatever the memory held.\<close>

definition uninit_args :: "env \<Rightarrow> ptr \<Rightarrow> offload_args" where
  "uninit_args hw p = (let g = \<lambda>i. unat (garbage hw p i) in
    \<lparr>a_self = p, a_comp = g 0, a_desc = g 1, a_aecs = g 2, a_id = g 3, a_src_payload = g 4, a_src_size = g 5,
     a_dst_size = g 6, a_dst_payload = g 7, a_aux_payload = g 8, a_aux_size = g 9, a_pre_proc_input = g 10,
     a_pre_proc_output = g 11, a_pre_proc_input_size = g 12, a_ax_func_output = g 13, a_ax_func_input_size = g 14,
     a_max_axfunc_output_size = g 15, a_post_proc_output = g 16, a_post_proc_input_size = g 17,
     a_max_post_proc_output_size = g 18, a_ts0 = g 19, a_ts1 = g 20, a_ts2 = g 21, a_ts3 = g 22, a_ts4 = g 23\<rparr>)"

text \<open>\<open>args->ts0 = ts0; ... args->ts3 = ts3;\<close>, which is left out in the requests without time stamps
  (\<open>None\<close>).\<close>

type_synonym stamps = "(ptr \<times> ptr \<times> ptr \<times> ptr) option"

fun set_ts :: "stamps \<Rightarrow> offload_args \<Rightarrow> offload_args" where
  "set_ts None a = a"
| "set_ts (Some (ts0, ts1, ts2, ts3)) a = a\<lparr>a_ts0 := ts0, a_ts1 := ts1, a_ts2 := ts2, a_ts3 := ts3\<rparr>"

section \<open>Completion records and contexts\<close>

text \<open>\<open>allocate_crs\<close>: the array of completion records and its block.\<close>

definition allocate_crs :: "nat \<Rightarrow> world \<Rightarrow> ptr \<times> world" where
  "allocate_crs total_requests w = malloc Opaque (w\<lparr>crs := replicate total_requests idle_comp\<rparr>)"

definition free_crs :: "ptr \<Rightarrow> world \<Rightarrow> world option" where
  "free_crs p w = map_option (\<lambda>w. w\<lparr>crs := []\<rparr>) (mfree p w)"

text \<open>A context is the block of its stack; what it runs is in the list of entry functions.\<close>

definition fcontext_create :: "nat \<Rightarrow> world \<Rightarrow> (ptr \<times> world) option" where
  "fcontext_create i w = Some (malloc Opaque w)"

definition create_contexts :: "nat \<Rightarrow> world \<Rightarrow> (ptr list \<times> world) option" where
  "create_contexts num_contexts = alloc_loop fcontext_create [0..<num_contexts]"

definition free_contexts :: "ptr list \<Rightarrow> nat \<Rightarrow> world \<Rightarrow> world option" where
  "free_contexts states num_contexts = free_loop mfree states num_contexts"

section \<open>Requests of the emulated accelerator\<close>

definition allocate_offload_request :: "env \<Rightarrow> ptr list \<Rightarrow> nat \<Rightarrow> world \<Rightarrow> (offload_args \<times> world) option" where
  "allocate_offload_request hw dst_bufs i w =
    do {
      let (self, w) = malloc Opaque w;
      let (desc, w) = malloc_desc hw w;
      buf \<leftarrow> arr_get dst_bufs (int i);
      Some ((uninit_args hw self)\<lparr>a_desc := desc, a_comp := i, a_dst_payload := buf, a_id := i\<rparr>, w)
    }"

definition allocate_offload_requests ::
  "env \<Rightarrow> nat \<Rightarrow> ptr list \<Rightarrow> world \<Rightarrow> ((ptr \<times> offload_args list) \<times> world) option" where
  "allocate_offload_requests hw total_requests dst_bufs =
    alloc_array (allocate_offload_request hw dst_bufs) total_requests"

definition allocate_timed_offload_request ::
  "env \<Rightarrow> ptr list \<Rightarrow> ptr \<Rightarrow> ptr \<Rightarrow> ptr \<Rightarrow> ptr \<Rightarrow> nat \<Rightarrow> world \<Rightarrow> (offload_args \<times> world) option" where
  "allocate_timed_offload_request hw dst_bufs ts0 ts1 ts2 ts3 i w =
    do {
      let (self, w) = malloc Opaque w;
      buf \<leftarrow> arr_get dst_bufs (int i);
      Some (set_ts (Some (ts0, ts1, ts2, ts3)) ((uninit_args hw self)\<lparr>a_comp := i, a_dst_payload := buf, a_id := i\<rparr>), w)
    }"

definition allocate_timed_offload_requests ::
  "env \<Rightarrow> nat \<Rightarrow> ptr list \<Rightarrow> ptr \<Rightarrow> ptr \<Rightarrow> ptr \<Rightarrow> ptr \<Rightarrow> world \<Rightarrow> ((ptr \<times> offload_args list) \<times> world) option" where
  "allocate_timed_offload_requests hw total_requests dst_bufs ts0 ts1 ts2 ts3 =
    alloc_array (allocate_timed_offload_request hw dst_bufs ts0 ts1 ts2 ts3) total_requests"

section \<open>Decompress and hash\<close>

definition alloc_decomp_and_hash_arg ::
  "env \<Rightarrow> stamps \<Rightarrow> nat \<Rightarrow> world \<Rightarrow> (offload_args \<times> world) option" where
  "alloc_decomp_and_hash_arg hw ts i w =
    do {
      let (self, w) = malloc Opaque w;
      let (src, w) = malloc_bytes hw (iaa_compress_max_dest_size hw) w;
      (ret, avail_out, w) \<leftarrow> gpcore_do_compress hw src (g_query hw) (iaa_compress_max_dest_size hw) w;
      let (dst, w) = malloc_bytes hw (iaa_compress_max_dest_size hw) w;
      let (desc, w) = malloc_desc hw w;
      Some (set_ts ts ((uninit_args hw self)\<lparr>a_comp := i, a_id := i, a_src_payload := src, a_dst_payload := dst,
        a_src_size := avail_out, a_dst_size := length (g_query hw), a_desc := desc\<rparr>), w)
    }"

definition alloc_decomp_and_hash_offload_args_stamped ::
  "env \<Rightarrow> nat \<Rightarrow> ptr \<Rightarrow> ptr \<Rightarrow> ptr \<Rightarrow> ptr \<Rightarrow> world \<Rightarrow> ((ptr \<times> offload_args list) \<times> world) option" where
  "alloc_decomp_and_hash_offload_args_stamped hw total_requests ts0 ts1 ts2 ts3 =
    alloc_array (alloc_decomp_and_hash_arg hw (Some (ts0, ts1, ts2, ts3))) total_requests"

definition alloc_decomp_and_hash_offload_args ::
  "env \<Rightarrow> nat \<Rightarrow> world \<Rightarrow> ((ptr \<times> offload_args list) \<times> world) option" where
  "alloc_decomp_and_hash_offload_args hw total_requests =
    alloc_array (alloc_decomp_and_hash_arg hw None) total_requests"

definition free_payload_arg :: "offload_args \<Rightarrow> world \<Rightarrow> world option" where
  "free_payload_arg a = frees [a_src_payload a, a_dst_payload a, a_desc a, a_self a]"

definition free_decomp_and_hash_offload_args_stamped :: "nat \<Rightarrow> ptr \<times> offload_args list \<Rightarrow> world \<Rightarrow> world option" where
  "free_decomp_and_hash_offload_args_stamped total_requests = free_array free_payload_arg total_requests"

definition free_decomp_and_hash_offload_args :: "nat \<Rightarrow> ptr \<times> offload_args list \<Rightarrow> world \<Rightarrow> world option" where
  "free_decomp_and_hash_offload_args total_requests = free_array free_payload_arg total_requests"

text \<open>The inputs of a CPU request: source, destination and the size of the source.  The size is
  stored through a \<open>char *\<close>: only the first byte of the \<open>int\<close> is written.\<close>

definition store_size_char :: "env \<Rightarrow> nat \<Rightarrow> world \<Rightarrow> ptr \<times> world" where
  "store_size_char hw v w = malloc (Bytes ((map (garbage hw (nxt w)) [0..<4])[0 := of_nat v])) w"

definition compressed_mc_req :: "env \<Rightarrow> nat \<Rightarrow> world \<Rightarrow> ((ptr \<times> ptr list) \<times> world) option" where
  "compressed_mc_req hw i w =
    do {
      let (blk, w) = malloc Opaque w;
      let (src, w) = malloc_bytes hw (iaa_compress_max_dest_size hw) w;
      (ret, avail_out, w) \<leftarrow> gpcore_do_compress hw src (g_query hw) (iaa_compress_max_dest_size hw) w;
      let (dst, w) = malloc_bytes hw (iaa_compress_max_dest_size hw) w;
      let (sz, w) = store_size_char hw avail_out w;
      Some ((blk, [src, dst, sz]), w)
    }"

definition compressed_mc_req_allocator :: "env \<Rightarrow> nat \<Rightarrow> world \<Rightarrow> ((ptr \<times> (ptr \<times> ptr list) list) \<times> world) option" where
  "compressed_mc_req_allocator hw total_requests = alloc_array (compressed_mc_req hw) total_requests"

text \<open>Only two of the three inputs are freed.\<close>

definition compressed_mc_req_free :: "nat \<Rightarrow> ptr \<times> (ptr \<times> ptr list) list \<Rightarrow> world \<Rightarrow> world option" where
  "compressed_mc_req_free total_requests = free_array (free_array mfree 2) total_requests"

section \<open>Decompress and scatter\<close>

text \<open>\<open>if (glob_indir_arr == NULL) indirect_array_gen(&glob_indir_arr);\<close>\<close>

definition init_indir_arr :: "env \<Rightarrow> world \<Rightarrow> world option" where
  "init_indir_arr hw w =
    (if g_indir_arr w = 0 then
       do { (p, w) \<leftarrow> indirect_array_gen hw w; Some (w\<lparr>g_indir_arr := p\<rparr>) }
     else Some w)"

text \<open>\<open>free(glob_indir_arr); glob_indir_arr = NULL;\<close>\<close>

definition free_indir_arr :: "world \<Rightarrow> world option" where
  "free_indir_arr w = do { w \<leftarrow> mfree (g_indir_arr w) w; Some (w\<lparr>g_indir_arr := 0\<rparr>) }"

text \<open>The source has \<open>input_size\<close> bytes, but the compressor is told of
  \<open>IAA_COMPRESS_MAX_DEST_SIZE\<close>.\<close>

definition alloc_decomp_and_scatter_arg :: "env \<Rightarrow> stamps \<Rightarrow> nat \<Rightarrow> world \<Rightarrow> (offload_args \<times> world) option" where
  "alloc_decomp_and_scatter_arg hw ts i w =
    do {
      let (self, w) = malloc Opaque w;
      let (src, w) = malloc_bytes hw (input_size hw) w;
      (ret, avail_out, w) \<leftarrow> gpcore_do_compress hw src (g_payload hw) (iaa_compress_max_dest_size hw) w;
      let (dst, w) = malloc_bytes hw (iaa_compress_max_dest_size hw) w;
      let aux = g_indir_arr w;
      let (desc, w) = malloc_desc hw w;
      Some (set_ts ts ((uninit_args hw self)\<lparr>a_comp := i, a_id := i, a_src_payload := src, a_src_size := avail_out,
        a_dst_payload := dst, a_dst_size := iaa_compress_max_dest_size hw, a_aux_payload := aux, a_desc := desc\<rparr>), w)
    }"

definition alloc_scatter_array ::
  "env \<Rightarrow> (nat \<Rightarrow> world \<Rightarrow> ('a \<times> world) option) \<Rightarrow> nat \<Rightarrow> world \<Rightarrow> ((ptr \<times> 'a list) \<times> world) option" where
  "alloc_scatter_array hw alloc_one total_requests w =
    do {
      let (off_args, w) = malloc Opaque w;
      w \<leftarrow> init_indir_arr hw w;
      (as, w) \<leftarrow> alloc_loop alloc_one [0..<total_requests] w;
      Some ((off_args, as), w)
    }"

definition alloc_offload_decomp_and_scatter_args ::
  "env \<Rightarrow> nat \<Rightarrow> world \<Rightarrow> ((ptr \<times> offload_args list) \<times> world) option" where
  "alloc_offload_decomp_and_scatter_args hw = alloc_scatter_array hw (alloc_decomp_and_scatter_arg hw None)"

definition alloc_offload_decomp_and_scatter_args_timed ::
  "env \<Rightarrow> nat \<Rightarrow> ptr \<Rightarrow> ptr \<Rightarrow> ptr \<Rightarrow> ptr \<Rightarrow> world \<Rightarrow> ((ptr \<times> offload_args list) \<times> world) option" where
  "alloc_offload_decomp_and_scatter_args_timed hw total_requests ts0 ts1 ts2 ts3 =
    alloc_scatter_array hw (alloc_decomp_and_scatter_arg hw (Some (ts0, ts1, ts2, ts3))) total_requests"

definition free_offload_decomp_and_scatter_args :: "nat \<Rightarrow> ptr \<times> offload_args list \<Rightarrow> world \<Rightarrow> world option" where
  "free_offload_decomp_and_scatter_args total_requests off_args w =
    do { w \<leftarrow> free_array free_payload_arg total_requests off_args w; free_indir_arr w }"

definition free_offload_decomp_and_scatter_args_timed :: "nat \<Rightarrow> ptr \<times> offload_args list \<Rightarrow> world \<Rightarrow> world option" where
  "free_offload_decomp_and_scatter_args_timed total_requests off_args w =
    do {
      w \<leftarrow> free_loop free_payload_arg (snd off_args) total_requests w;
      w \<leftarrow> free_indir_arr w;
      mfree (fst off_args) w
    }"

definition cpu_compressed_payload :: "env \<Rightarrow> nat \<Rightarrow> world \<Rightarrow> ((ptr \<times> ptr list) \<times> world) option" where
  "cpu_compressed_payload hw i w =
    do {
      let (blk, w) = malloc Opaque w;
      let (src, w) = malloc_bytes hw (iaa_compress_max_dest_size hw) w;
      (ret, avail_out, w) \<leftarrow> gpcore_do_compress hw src (g_payload hw) (iaa_compress_max_dest_size hw) w;
      let (dst, w) = malloc_bytes hw (iaa_compress_max_dest_size hw) w;
      let indir = g_indir_arr w;
      let (sz, w) = store_size_char hw avail_out w;
      Some ((blk, [src, dst, sz, indir]), w)
    }"

definition cpu_compressed_payload_allocator ::
  "env \<Rightarrow> nat \<Rightarrow> world \<Rightarrow> ((ptr \<times> (ptr \<times> ptr list) list) \<times> world) option" where
  "cpu_compressed_payload_allocator hw = alloc_scatter_array hw (cpu_compressed_payload hw)"

definition free_cpu_compressed_payloads :: "nat \<Rightarrow> ptr \<times> (ptr \<times> ptr list) list \<Rightarrow> world \<Rightarrow> world option" where
  "free_cpu_compressed_payloads total_requests inputs w =
    do { w \<leftarrow> free_array (free_array mfree 3) total_requests inputs w; free_indir_arr w }"

section \<open>Memfill and gather\<close>

text \<open>The destination houses the index array.\<close>

definition alloc_memfill_and_gather_arg :: "env \<Rightarrow> stamps \<Rightarrow> nat \<Rightarrow> world \<Rightarrow> (offload_args \<times> world) option" where
  "alloc_memfill_and_gather_arg hw ts i w =
    do {
      let (self, w) = malloc Opaque w;
      let (src, w) = malloc_bytes hw (input_size hw) w;
      (dst, w) \<leftarrow> indirect_array_gen hw w;
      let (desc, w) = malloc_desc hw w;
      Some (set_ts ts ((uninit_args hw self)\<lparr>a_src_payload := src, a_dst_payload := dst, a_src_size := input_size hw,
        a_desc := desc, a_comp := i, a_id := i\<rparr>), w)
    }"

definition alloc_offload_memfill_and_gather_args_timed ::
  "env \<Rightarrow> nat \<Rightarrow> ptr \<Rightarrow> ptr \<Rightarrow> ptr \<Rightarrow> ptr \<Rightarrow> world \<Rightarrow> ((ptr \<times> offload_args list) \<times> world) option" where
  "alloc_offload_memfill_and_gather_args_timed hw total_requests ts0 ts1 ts2 ts3 =
    alloc_array (alloc_memfill_and_gather_arg hw (Some (ts0, ts1, ts2, ts3))) total_requests"

definition alloc_offload_memfill_and_gather_args ::
  "env \<Rightarrow> nat \<Rightarrow> world \<Rightarrow> ((ptr \<times> offload_args list) \<times> world) option" where
  "alloc_offload_memfill_and_gather_args hw = alloc_array (alloc_memfill_and_gather_arg hw None)"

definition free_offload_memfill_and_gather_args_timed :: "nat \<Rightarrow> ptr \<times> offload_args list \<Rightarrow> world \<Rightarrow> world option" where
  "free_offload_memfill_and_gather_args_timed total_requests = free_array free_payload_arg total_requests"

definition free_offload_memfill_and_gather_args :: "nat \<Rightarrow> ptr \<times> offload_args list \<Rightarrow> world \<Rightarrow> world option" where
  "free_offload_memfill_and_gather_args total_requests = free_array free_payload_arg total_requests"

definition cpu_memfill_inputs :: "env \<Rightarrow> nat \<Rightarrow> world \<Rightarrow> ((ptr \<times> ptr list) \<times> world) option" where
  "cpu_memfill_inputs hw i w =
    do {
      let (blk, w) = malloc Opaque w;
      let (buf, w) = malloc_bytes hw (input_size hw) w;
      (indir, w) \<leftarrow> indirect_array_gen hw w;
      Some ((blk, [buf, indir]), w)
    }"

definition alloc_cpu_memfill_args :: "env \<Rightarrow> nat \<Rightarrow> world \<Rightarrow> ((ptr \<times> (ptr \<times> ptr list) list) \<times> world) option" where
  "alloc_cpu_memfill_args hw = alloc_array (cpu_memfill_inputs hw)"

definition free_cpu_memfill_args :: "nat \<Rightarrow> ptr \<times> (ptr \<times> ptr list) list \<Rightarrow> world \<Rightarrow> world option" where
  "free_cpu_memfill_args total_requests = free_array (free_array mfree 2) total_requests"

section \<open>Copy and compute\<close>

text \<open>\<open>input_populate\<close> is a function pointer in the source and a parameter here;
  \<open>input_gen_dp\<close> is the one of \<open>src/mlp.cpp\<close>.\<close>

type_synonym populate = "world \<Rightarrow> ptr \<times> world"

definition populate_item_buf :: "populate \<Rightarrow> world \<Rightarrow> world" where
  "populate_item_buf input_populate w = (let (p, w) = input_populate w in w\<lparr>g_item_buf := p\<rparr>)"

definition alloc_memcpy_and_compute_arg :: "env \<Rightarrow> stamps \<Rightarrow> nat \<Rightarrow> world \<Rightarrow> (offload_args \<times> world) option" where
  "alloc_memcpy_and_compute_arg hw ts i w =
    do {
      let (self, w) = malloc Opaque w;
      let (src, w) = malloc_bytes hw (input_size hw) w;
      let (dst, w) = malloc_bytes hw (input_size hw) w;
      let (desc, w) = malloc_desc hw w;
      Some (set_ts ts ((uninit_args hw self)\<lparr>a_src_payload := src, a_dst_payload := dst, a_src_size := input_size hw,
        a_desc := desc, a_comp := i, a_id := i\<rparr>), w)
    }"

definition alloc_offload_memcpy_and_compute_args_timed ::
  "env \<Rightarrow> populate \<Rightarrow> nat \<Rightarrow> ptr \<Rightarrow> ptr \<Rightarrow> ptr \<Rightarrow> ptr \<Rightarrow> world \<Rightarrow> ((ptr \<times> offload_args list) \<times> world) option" where
  "alloc_offload_memcpy_and_compute_args_timed hw input_populate total_requests ts0 ts1 ts2 ts3 w =
    do {
      let (off_args, w) = malloc Opaque w;
      let w = populate_item_buf input_populate w;
      (as, w) \<leftarrow> alloc_loop (alloc_memcpy_and_compute_arg hw (Some (ts0, ts1, ts2, ts3))) [0..<total_requests] w;
      Some ((off_args, as), w)
    }"

definition alloc_offload_memcpy_and_compute_args ::
  "env \<Rightarrow> nat \<Rightarrow> world \<Rightarrow> ((ptr \<times> offload_args list) \<times> world) option" where
  "alloc_offload_memcpy_and_compute_args hw = alloc_array (alloc_memcpy_and_compute_arg hw None)"

text \<open>The descriptors are not freed.\<close>

definition free_memcpy_arg :: "offload_args \<Rightarrow> world \<Rightarrow> world option" where
  "free_memcpy_arg a = frees [a_src_payload a, a_dst_payload a, a_self a]"

definition free_offload_memcpy_and_compute_args_timed :: "nat \<Rightarrow> ptr \<times> offload_args list \<Rightarrow> world \<Rightarrow> world option" where
  "free_offload_memcpy_and_compute_args_timed total_requests off_args w =
    do { w \<leftarrow> free_array free_memcpy_arg total_requests off_args w; mfree (g_item_buf w) w }"

definition free_offload_memcpy_and_compute_args :: "nat \<Rightarrow> ptr \<times> offload_args list \<Rightarrow> world \<Rightarrow> world option" where
  "free_offload_memcpy_and_compute_args total_requests = free_array free_memcpy_arg total_requests"

definition cpu_memcpy_inputs :: "env \<Rightarrow> populate \<Rightarrow> nat \<Rightarrow> world \<Rightarrow> ((ptr \<times> ptr list) \<times> world) option" where
  "cpu_memcpy_inputs hw input_populate i w =
    do {
      let (blk, w) = malloc Opaque w;
      let (src, w) = input_populate w;
      let (dst, w) = malloc_bytes hw (input_size hw) w;
      bs \<leftarrow> store32 [0, 0, 0, 0] 0 (of_nat (input_size hw));
      let (sz, w) = malloc (Bytes bs) w;
      Some ((blk, [src, dst, sz]), w)
    }"

definition alloc_cpu_memcpy_and_compute_args ::
  "env \<Rightarrow> populate \<Rightarrow> nat \<Rightarrow> world \<Rightarrow> ((ptr \<times> (ptr \<times> ptr list) list) \<times> world) option" where
  "alloc_cpu_memcpy_and_compute_args hw input_populate total_requests w =
    alloc_array (cpu_memcpy_inputs hw input_populate) total_requests (populate_item_buf input_populate w)"

definition free_cpu_memcpy_and_compute_args :: "nat \<Rightarrow> ptr \<times> (ptr \<times> ptr list) list \<Rightarrow> world \<Rightarrow> world option" where
  "free_cpu_memcpy_and_compute_args total_requests inputs w =
    do { w \<leftarrow> free_array (free_array mfree 3) total_requests inputs w; mfree (g_item_buf w) w }"

section \<open>Compression never leaves its buffer\<close>

lemma deflate_loop_ends:
  assumes "k \<le> j" and "fst (snd (deflate_call hw src n j)) = 0 \<or> fst (deflate_call hw src n j) \<noteq> Z_OK"
  shows "\<exists>m. \<exists>ret rest out. deflate_call hw src n m = (ret, rest, out) \<and> deflate_loop hw src n k = Some (Suc m, ret, out)"
  using assms
proof (induction "j - k" arbitrary: k)
  case 0
  then have k: "k = j" by simp
  obtain ret rest out where "deflate_call hw src n j = (ret, rest, out)" by (metis prod.exhaust)
  with 0 k show ?case by (intro exI [of _ j]) (subst deflate_loop.simps, auto)
next
  case (Suc m)
  obtain ret rest out where r: "deflate_call hw src n k = (ret, rest, out)" by (metis prod.exhaust)
  show ?case
  proof (cases "rest > 0 \<and> ret = Z_OK")
    case True
    with r have "deflate_loop hw src n k = deflate_loop hw src n (Suc k)"
      by (simp add: deflate_loop.simps [of hw src n k])
    moreover have "m = j - Suc k" "Suc k \<le> j" using Suc.hyps(2) by simp_all
    ultimately show ?thesis using Suc.hyps(1) [of "Suc k"] assms(2) by simp
  next
    case False
    with r show ?thesis
      by (intro exI [of _ k] exI [of _ ret] exI [of _ rest] exI [of _ out])
        (subst deflate_loop.simps, auto)
  qed
qed

text \<open>On this source the compressor ends and puts out at most \<open>m\<close> bytes.\<close>

definition deflate_into :: "env \<Rightarrow> u8 list \<Rightarrow> nat \<Rightarrow> nat \<Rightarrow> bool" where
  "deflate_into hw src n m \<longleftrightarrow> (\<forall>k. length (snd (snd (deflate_call hw src n k))) \<le> m) \<and>
    (\<forall>k. length (snd (deflate_finish hw src n k)) \<le> m) \<and>
    (\<exists>k. fst (snd (deflate_call hw src n k)) = 0 \<or> fst (deflate_call hw src n k) \<noteq> Z_OK)"

lemma deflate_ok_into: "deflate_ok hw \<Longrightarrow> n \<le> m \<Longrightarrow> deflate_into hw src n m"
  unfolding deflate_ok_def deflate_into_def by (meson le_trans)

lemma gpcore_do_compress_ok:
  assumes "deflate_into hw src n (length bs)" and "heap w dst = Some (Bytes bs)"
  shows "\<exists>ret out_len bs'. gpcore_do_compress hw dst src n w =
      Some (ret, out_len, w\<lparr>heap := (heap w)(dst \<mapsto> Bytes bs')\<rparr>) \<and> length bs' = length bs \<and> out_len \<le> max n (length bs)"
proof (cases "deflate_init hw \<noteq> Z_OK")
  case True
  moreover have "w\<lparr>heap := (heap w)(dst \<mapsto> Bytes bs)\<rparr> = w" using assms(2) by (cases w) (auto simp: fun_eq_iff)
  ultimately show ?thesis by (auto simp: gpcore_do_compress_def intro!: exI [of _ bs])
next
  case False
  obtain j where "fst (snd (deflate_call hw src n j)) = 0 \<or> fst (deflate_call hw src n j) \<noteq> Z_OK"
    using assms(1) unfolding deflate_into_def by blast
  from deflate_loop_ends [OF _ this, of 0] obtain m ret rest out where
    d: "deflate_call hw src n m = (ret, rest, out)" "deflate_loop hw src n 0 = Some (Suc m, ret, out)" by auto
  define o2 where "o2 = (if ret \<noteq> Z_STREAM_END then snd (deflate_finish hw src n (Suc m)) else out)"
  have "length out \<le> length bs" using assms(1) d(1) unfolding deflate_into_def by (metis snd_conv)
  then have o2: "length o2 \<le> length bs" using assms(1) unfolding deflate_into_def o2_def by simp
  have p: "put_output dst o2 w = Some (w\<lparr>heap := (heap w)(dst \<mapsto> Bytes (o2 @ drop (length o2) bs))\<rparr>)"
    using assms(2) o2 by (simp add: put_output_def get_bytes_def set_bytes_def)
  show ?thesis
    using False d(2) p o2 unfolding gpcore_do_compress_def
    by (auto simp: o2_def [symmetric] Let_def intro!: exI [of _ "o2 @ drop (length o2) bs"])
qed

text \<open>Compression into the buffer that was allocated last.\<close>

lemma compress_put:
  assumes "deflate_into hw src n m"
  shows "\<exists>ret out b. gpcore_do_compress hw (Suc (nxt w)) src n (put_blocks w [b0, Bytes (map f [0..<m])]) =
    Some (ret, out, put_blocks w [b0, Bytes b]) \<and> length b = m"
proof -
  let ?w = "put_blocks w [b0, Bytes (map f [0..<m])]"
  have "heap ?w (Suc (nxt w)) = Some (Bytes (map f [0..<m]))"
    using heap_put [of 1 "[b0, Bytes (map f [0..<m])]" w] by simp
  with gpcore_do_compress_ok [of hw src n "map f [0..<m]" ?w "Suc (nxt w)"] assms show ?thesis
    using update_put [of 1 "[b0, Bytes (map f [0..<m])]" w] by auto
qed

section \<open>Request structs\<close>

definition has_ts :: "stamps \<Rightarrow> offload_args \<Rightarrow> bool" where
  "has_ts ts a \<longleftrightarrow> (case ts of None \<Rightarrow> True
    | Some (ts0, ts1, ts2, ts3) \<Rightarrow> a_ts0 a = ts0 \<and> a_ts1 a = ts1 \<and> a_ts2 a = ts2 \<and> a_ts3 a = ts3)"

lemma set_ts_sel [simp]:
  "a_self (set_ts ts a) = a_self a" "a_comp (set_ts ts a) = a_comp a" "a_id (set_ts ts a) = a_id a"
  "a_src_payload (set_ts ts a) = a_src_payload a" "a_dst_payload (set_ts ts a) = a_dst_payload a"
  "a_desc (set_ts ts a) = a_desc a" "a_src_size (set_ts ts a) = a_src_size a" "a_dst_size (set_ts ts a) = a_dst_size a"
  "a_aux_payload (set_ts ts a) = a_aux_payload a" "has_ts ts (set_ts ts a)"
  by (cases "(ts, a)" rule: set_ts.cases; simp add: has_ts_def)+

lemma uninit_self [simp]: "a_self (uninit_args hw p) = p"
  by (simp add: uninit_args_def Let_def)

text \<open>What the rest of the program relies on of a struct with a source, a destination and a
  descriptor of its own; \<open>leak\<close> tells that the descriptor is not freed.\<close>

definition request_good ::
  "(offload_args \<Rightarrow> bool) \<Rightarrow> stamps \<Rightarrow> kind \<Rightarrow> (kind \<Rightarrow> bool) \<Rightarrow> bool \<Rightarrow>
   nat \<Rightarrow> offload_args \<Rightarrow> ptr set \<Rightarrow> ptr set \<Rightarrow> (ptr \<Rightarrow> kind option) \<Rightarrow> bool" where
  "request_good P ts ks kd leak i a F G K \<longleftrightarrow> P a \<and> a_comp a = i \<and> a_id a = i \<and> has_ts ts a \<and>
    distinct [a_src_payload a, a_dst_payload a, a_desc a, a_self a] \<and>
    0 \<notin> {a_src_payload a, a_dst_payload a, a_desc a, a_self a} \<and>
    F = {a_src_payload a, a_dst_payload a, a_desc a, a_self a} \<and>
    G = (if leak then F - {a_desc a} else F) \<and>
    K (a_self a) = Some KOpaque \<and> K (a_src_payload a) = Some ks \<and>
    (\<exists>k. K (a_dst_payload a) = Some k \<and> kd k) \<and> K (a_desc a) = Some KDesc"

lemma request_good_local:
  "request_good P ts ks kd leak i a F G K \<Longrightarrow> \<forall>p \<in> F. K' p = K p \<Longrightarrow> request_good P ts ks kd leak i a F G K'"
  by (simp add: request_good_def)

lemma request_good_freed: "request_good P ts ks kd leak i a F G K \<Longrightarrow> G \<subseteq> F"
  by (auto simp: request_good_def)

lemma request_good_releases:
  "request_good P ts ks kd False i a F G K \<Longrightarrow> releases K G (free_payload_arg a)"
  unfolding free_payload_arg_def
  using releases_frees [of "[a_src_payload a, a_dst_payload a, a_desc a, a_self a]" K]
  by (auto simp: request_good_def)

text \<open>Four blocks in a row make a struct.\<close>

lemma four_blocks: "{p..<Suc (Suc (Suc (Suc p)))} = {Suc p, Suc (Suc p), Suc (Suc (Suc p)), p}"
  by auto

lemma request_good_put:
  assumes "fresh w" and "a_self a = nxt w" and "a_src_payload a = Suc (nxt w)" and "a_dst_payload a = Suc (Suc (nxt w))"
    and "a_desc a = Suc (Suc (Suc (nxt w)))" and "P a" and "a_comp a = i" and "a_id a = i" and "has_ts ts a"
    and "kind_of b1 = ks" and "kd (kind_of b2)"
  shows "request_good P ts ks kd leak i a {nxt w..<nxt w + length [Opaque, b1, b2, Desc d]}
    (if leak then {nxt w..<nxt w + length [Opaque, b1, b2, Desc d]} - {a_desc a}
     else {nxt w..<nxt w + length [Opaque, b1, b2, Desc d]}) (kinds (put_blocks w [Opaque, b1, b2, Desc d]))"
proof -
  let ?K = "kinds (put_blocks w [Opaque, b1, b2, Desc d])"
  have "?K (nxt w) = Some KOpaque" "?K (Suc (nxt w)) = Some ks" "?K (Suc (Suc (nxt w))) = Some (kind_of b2)"
    "?K (Suc (Suc (Suc (nxt w)))) = Some KDesc"
    using kinds_put [of 0 "[Opaque, b1, b2, Desc d]" w] kinds_put [of 1 "[Opaque, b1, b2, Desc d]" w]
      kinds_put [of 2 "[Opaque, b1, b2, Desc d]" w] kinds_put [of 3 "[Opaque, b1, b2, Desc d]" w] assms(10) by (simp_all add: numeral_2_eq_2 numeral_3_eq_3)
  moreover have "0 < nxt w" using assms(1) by (simp add: fresh_def)
  ultimately show ?thesis
    using assms(2-9,11) by (simp add: request_good_def four_blocks)
qed

section \<open>The pairs for decompress and hash\<close>

lemma alloc_decomp_and_hash_arg_put:
  assumes "deflate_ok hw"
  shows "\<exists>out b1 b2 d. alloc_decomp_and_hash_arg hw ts i w =
      Some (set_ts ts ((uninit_args hw (nxt w))\<lparr>a_comp := i, a_id := i, a_src_payload := Suc (nxt w),
        a_dst_payload := Suc (Suc (nxt w)), a_src_size := out, a_dst_size := length (g_query hw),
        a_desc := Suc (Suc (Suc (nxt w)))\<rparr>),
        put_blocks w [Opaque, Bytes b1, Bytes b2, Desc d]) \<and>
    length b1 = iaa_compress_max_dest_size hw \<and> length b2 = iaa_compress_max_dest_size hw"
proof -
  let ?n = "iaa_compress_max_dest_size hw"
  let ?g = "\<lambda>p. map (garbage hw p) [0..<?n]"
  obtain ret out b1 where
    c: "gpcore_do_compress hw (Suc (nxt w)) (g_query hw) ?n (put_blocks w [Opaque, Bytes (?g (Suc (nxt w)))]) =
        Some (ret, out, put_blocks w [Opaque, Bytes b1])" "length b1 = ?n"
    using compress_put [OF deflate_ok_into [OF assms order_refl]] by blast
  have "alloc_decomp_and_hash_arg hw ts i w =
      Some (set_ts ts ((uninit_args hw (nxt w))\<lparr>a_comp := i, a_id := i, a_src_payload := Suc (nxt w),
        a_dst_payload := Suc (Suc (nxt w)), a_src_size := out, a_dst_size := length (g_query hw),
        a_desc := Suc (Suc (Suc (nxt w)))\<rparr>),
        put_blocks w [Opaque, Bytes b1, Bytes (?g (Suc (Suc (nxt w)))), Desc (uninit_desc hw (Suc (Suc (Suc (nxt w)))))])"
    using c by (simp add: alloc_decomp_and_hash_arg_def malloc_bytes_def malloc_desc_def malloc_first put_put)
  moreover have "length (?g (Suc (Suc (nxt w)))) = ?n" by simp
  ultimately show ?thesis using c(2) by blast
qed

text \<open>The destination is large enough for the hash.\<close>

definition hash_arg_ok :: "env \<Rightarrow> offload_args \<Rightarrow> bool" where
  "hash_arg_ok hw a \<longleftrightarrow> a_dst_size a = length (g_query hw)"

interpretation hash_args: allocator "alloc_decomp_and_hash_arg hw ts" free_payload_arg
    "request_good (hash_arg_ok hw) ts (KBytes (iaa_compress_max_dest_size hw))
      (\<lambda>k. k = KBytes (iaa_compress_max_dest_size hw)) False" "\<lambda>_. True" "\<lambda>w. deflate_ok hw" for hw ts
proof
  fix i w assume "deflate_ok hw" "fresh w"
  with alloc_decomp_and_hash_arg_put [OF this(1), of ts i w] grows_put [of w] show "\<exists>a w' F G.
      alloc_decomp_and_hash_arg hw ts i w = Some (a, w') \<and> grows F w w' \<and> calm w w' \<and> deflate_ok hw \<and>
      request_good (hash_arg_ok hw) ts (KBytes (iaa_compress_max_dest_size hw))
        (\<lambda>k. k = KBytes (iaa_compress_max_dest_size hw)) False i a F G (kinds w')"
    by (fastforce intro!: request_good_put [where leak = False, simplified] simp: hash_arg_ok_def)
qed (auto simp: request_good_local request_good_freed request_good_releases)

section \<open>The other pairs\<close>

text \<open>A size that was stored through a \<open>char *\<close>, arrays of inputs.\<close>

definition inputs_good ::
  "(ptr list \<Rightarrow> (ptr \<Rightarrow> kind option) \<Rightarrow> bool) \<Rightarrow> nat \<Rightarrow> nat \<Rightarrow> nat \<Rightarrow> ptr \<times> ptr list \<Rightarrow> ptr set \<Rightarrow> ptr set \<Rightarrow> (ptr \<Rightarrow> kind option) \<Rightarrow> bool" where
  "inputs_good P own m i arr F G K \<longleftrightarrow> own \<le> length (snd arr) \<and> m \<le> own \<and> distinct (fst arr # take own (snd arr)) \<and>
    0 \<notin> set (fst arr # take own (snd arr)) \<and> F = set (fst arr # take own (snd arr)) \<and>
    G = set (fst arr # take m (snd arr)) \<and> (\<forall>p \<in> F. K p \<noteq> None) \<and> P (snd arr) K"

lemma foldM_mfree: "foldM mfree ps w = frees ps w"
  by (induction ps arbitrary: w) (auto split: option.splits)

lemma inputs_good_releases:
  assumes "inputs_good P own m i arr F G K"
  shows "releases K G (free_array mfree m arr)"
proof -
  have s: "set (take m (snd arr)) \<subseteq> set (take own (snd arr))" "m \<le> length (snd arr)"
    using assms by (auto simp: inputs_good_def set_take_subset_set_take)
  have "distinct (take m (snd arr))"
    using assms distinct_take [of "take own (snd arr)" m] by (simp add: inputs_good_def min_def)
  then have "distinct (take m (snd arr) @ [fst arr])" "0 \<notin> set (take m (snd arr) @ [fst arr])"
    "\<forall>p \<in> set (take m (snd arr) @ [fst arr]). K p \<noteq> None"
    using assms s(1) by (auto simp: inputs_good_def)
  from releases_frees [OF this] have "releases K G (frees (take m (snd arr) @ [fst arr]))"
    using assms by (simp add: inputs_good_def)
  moreover have "frees (ps @ [p]) w = Option.bind (frees ps w) (mfree p)" for ps p w
    by (induction ps arbitrary: w) (auto split: bind_splits)
  ultimately show ?thesis
    using s(2) by (simp add: releases_def free_array_def free_loop_take foldM_mfree)
qed

lemma inputs_good_freed: "inputs_good P own m i arr F G K \<Longrightarrow> G \<subseteq> F"
  using set_take_subset_set_take [of m own "snd arr"] by (auto simp: inputs_good_def)

lemma inputs_good_local:
  "inputs_good P own m i arr F G K \<Longrightarrow> (\<And>ps K K'. own \<le> length ps \<Longrightarrow> P ps K \<Longrightarrow> \<forall>p \<in> set (take own ps). K' p = K p \<Longrightarrow> P ps K') \<Longrightarrow>
    \<forall>p \<in> F. K' p = K p \<Longrightarrow> inputs_good P own m i arr F G K'"
  unfolding inputs_good_def by (metis insertCI list.simps(15))

lemma kinds_four:
  "kinds (put_blocks w [b0, b1, b2, b3]) (nxt w) = Some (kind_of b0)"
  "kinds (put_blocks w [b0, b1, b2, b3]) (Suc (nxt w)) = Some (kind_of b1)"
  "kinds (put_blocks w [b0, b1, b2, b3]) (Suc (Suc (nxt w))) = Some (kind_of b2)"
  "kinds (put_blocks w [b0, b1, b2, b3]) (Suc (Suc (Suc (nxt w)))) = Some (kind_of b3)"
  by (simp_all add: kinds_def put_blocks_def)

lemma three_inputs_put:
  assumes "fresh w" and "P ([Suc (nxt w), Suc (Suc (nxt w)), Suc (Suc (Suc (nxt w)))] @ rest) (kinds (put_blocks w [Opaque, b1, b2, b3]))"
    and "m \<le> 3"
  shows "inputs_good P 3 m i (nxt w, [Suc (nxt w), Suc (Suc (nxt w)), Suc (Suc (Suc (nxt w)))] @ rest)
    {nxt w..<nxt w + length [Opaque, b1, b2, b3]}
    (set (nxt w # take m [Suc (nxt w), Suc (Suc (nxt w)), Suc (Suc (Suc (nxt w)))]))
    (kinds (put_blocks w [Opaque, b1, b2, b3]))"
proof -
  have "kinds (put_blocks w bs) p \<noteq> None" if "p \<in> {nxt w..<nxt w + length bs}" for p bs
    using that by (auto simp: kinds_def put_blocks_def)
  note some = this
  have "take m ([x, y, z] @ rest) = take m [x, y, z]" for x y z :: ptr
    using assms(3) by (simp only: take_append) simp
  then have "take m (x # y # z # rest) = take m [x, y, z]" for x y z :: ptr by simp
  with some [where bs = "[Opaque, b1, b2, b3]"] assms show ?thesis
    by (auto simp: inputs_good_def four_blocks fresh_def)
qed

lemma three_inputs_alloc:
  assumes "res = Some ((nxt w, [Suc (nxt w), Suc (Suc (nxt w)), Suc (Suc (Suc (nxt w)))] @ rest),
      put_blocks (w\<lparr>rands := k\<rparr>) [Opaque, b1, b2, b3])"
    and "fresh w" and "m \<le> 3"
    and "P ([Suc (nxt w), Suc (Suc (nxt w)), Suc (Suc (Suc (nxt w)))] @ rest) (kinds (put_blocks (w\<lparr>rands := k\<rparr>) [Opaque, b1, b2, b3]))"
  shows "\<exists>a w' F G. res = Some (a, w') \<and> grows F w w' \<and> calm w w' \<and> inputs_good P 3 m i a F G (kinds w')"
proof -
  have "fresh (w\<lparr>rands := k\<rparr>)" using assms(2) by (simp add: fresh_def)
  from three_inputs_put [OF this, of P rest b1 b2 b3 m i] assms(3,4) have
    "inputs_good P 3 m i (nxt w, [Suc (nxt w), Suc (Suc (nxt w)), Suc (Suc (Suc (nxt w)))] @ rest)
      {nxt w..<nxt w + length [Opaque, b1, b2, b3]}
      (set (nxt w # take m [Suc (nxt w), Suc (Suc (nxt w)), Suc (Suc (Suc (nxt w)))]))
      (kinds (put_blocks (w\<lparr>rands := k\<rparr>) [Opaque, b1, b2, b3]))" by simp
  with assms(1) grows_put_rands [where w = w and bs = "[Opaque, b1, b2, b3]" and k = k] show ?thesis by blast
qed

text \<open>The CPU inputs for the decompression: source, destination and size.\<close>

definition mc_inputs :: "env \<Rightarrow> ptr list \<Rightarrow> (ptr \<Rightarrow> kind option) \<Rightarrow> bool" where
  "mc_inputs hw ps K \<longleftrightarrow> (\<exists>src dst sz. ps = [src, dst, sz] \<and>
    K src = Some (KBytes (iaa_compress_max_dest_size hw)) \<and>
    K dst = Some (KBytes (iaa_compress_max_dest_size hw)) \<and> K sz = Some (KBytes 4))"

lemma compressed_mc_req_put:
  assumes "deflate_ok hw"
  shows "\<exists>b1 b2 b3. compressed_mc_req hw i w = Some ((nxt w, [Suc (nxt w), Suc (Suc (nxt w)), Suc (Suc (Suc (nxt w)))]),
      put_blocks w [Opaque, Bytes b1, Bytes b2, Bytes b3]) \<and>
    length b1 = iaa_compress_max_dest_size hw \<and> length b2 = iaa_compress_max_dest_size hw \<and> length b3 = 4"
proof -
  let ?n = "iaa_compress_max_dest_size hw"
  let ?g = "\<lambda>p. map (garbage hw p) [0..<?n]"
  obtain ret out b1 where
    c: "gpcore_do_compress hw (Suc (nxt w)) (g_query hw) ?n (put_blocks w [Opaque, Bytes (?g (Suc (nxt w)))]) =
        Some (ret, out, put_blocks w [Opaque, Bytes b1])" "length b1 = ?n"
    using compress_put [OF deflate_ok_into [OF assms order_refl]] by blast
  have "compressed_mc_req hw i w = Some ((nxt w, [Suc (nxt w), Suc (Suc (nxt w)), Suc (Suc (Suc (nxt w)))]),
      put_blocks w [Opaque, Bytes b1, Bytes (?g (Suc (Suc (nxt w)))),
        Bytes ((map (garbage hw (Suc (Suc (Suc (nxt w))))) [0..<4])[0 := of_nat out])])"
    using c by (simp add: compressed_mc_req_def malloc_bytes_def store_size_char_def malloc_first put_put)
  moreover have "length (?g (Suc (Suc (nxt w)))) = ?n"
    "length ((map (garbage hw (Suc (Suc (Suc (nxt w))))) [0..<4])[0 := of_nat out]) = 4" by simp_all
  ultimately show ?thesis using c(2) by blast
qed

lemma mc_inputs_local:
  "3 \<le> length ps \<Longrightarrow> mc_inputs hw ps K \<Longrightarrow> \<forall>p \<in> set (take 3 ps). K' p = K p \<Longrightarrow> mc_inputs hw ps K'"
  by (auto simp: mc_inputs_def)

interpretation mc_reqs: allocator "compressed_mc_req hw" "free_array mfree 2" "inputs_good (mc_inputs hw) 3 2"
    "\<lambda>_. True" "\<lambda>w. deflate_ok hw" for hw
proof
  fix i w assume d: "deflate_ok hw" and f: "fresh w"
  obtain b1 b2 b3 where r: "compressed_mc_req hw i w = Some ((nxt w,
      [Suc (nxt w), Suc (Suc (nxt w)), Suc (Suc (Suc (nxt w)))] @ []), put_blocks (w\<lparr>rands := rands w\<rparr>) [Opaque, Bytes b1, Bytes b2, Bytes b3])"
    "length b1 = iaa_compress_max_dest_size hw" "length b2 = iaa_compress_max_dest_size hw" "length b3 = 4"
    using compressed_mc_req_put [OF d, of i w] by auto
  have "\<exists>a w' F G. compressed_mc_req hw i w = Some (a, w') \<and> grows F w w' \<and> calm w w' \<and>
      inputs_good (mc_inputs hw) 3 2 i a F G (kinds w')"
    by (rule three_inputs_alloc [OF r(1) f]) (use r(2-) in \<open>simp_all add: mc_inputs_def kinds_four\<close>)
  with d show "\<exists>a w' F G. compressed_mc_req hw i w = Some (a, w') \<and> grows F w w' \<and> calm w w' \<and> deflate_ok hw \<and>
      inputs_good (mc_inputs hw) 3 2 i a F G (kinds w')" by blast
next
  fix i a F G K K' assume "inputs_good (mc_inputs hw) 3 2 i a F G K" "\<forall>p \<in> F. K' p = K p"
  then show "inputs_good (mc_inputs hw) 3 2 i a F G K'" using inputs_good_local mc_inputs_local by metis
qed (simp_all add: inputs_good_releases inputs_good_freed)

lemma request_alloc:
  assumes "res = Some (a, put_blocks (w\<lparr>rands := k\<rparr>) [Opaque, b1, b2, Desc d])" and "fresh w"
    and "a_self a = nxt w" and "a_src_payload a = Suc (nxt w)" and "a_dst_payload a = Suc (Suc (nxt w))"
    and "a_desc a = Suc (Suc (Suc (nxt w)))" and "P a" and "a_comp a = i" and "a_id a = i" and "has_ts ts a"
    and "kind_of b1 = ks" and "kd (kind_of b2)"
  shows "\<exists>a w' F G. res = Some (a, w') \<and> grows F w w' \<and> calm w w' \<and>
    request_good P ts ks kd leak i a F G (kinds w')"
proof -
  have "fresh (w\<lparr>rands := k\<rparr>)" using assms(2) by (simp add: fresh_def)
  from request_good_put [OF this, of a P i ts b1 ks kd b2 leak d] assms(3-) have
    "request_good P ts ks kd leak i a {nxt w..<nxt w + length [Opaque, b1, b2, Desc d]}
      (if leak then {nxt w..<nxt w + length [Opaque, b1, b2, Desc d]} - {a_desc a}
       else {nxt w..<nxt w + length [Opaque, b1, b2, Desc d]})
      (kinds (put_blocks (w\<lparr>rands := k\<rparr>) [Opaque, b1, b2, Desc d]))" by (simp cong: if_cong)
  with assms(1) grows_put_rands [where w = w and bs = "[Opaque, b1, b2, Desc d]" and k = k] show ?thesis by blast
qed

section \<open>Decompress and scatter\<close>

text \<open>The index array has a block of its own at \<open>p\<close>.\<close>

definition scatter_pre :: "env \<Rightarrow> ptr \<Rightarrow> world \<Rightarrow> bool" where
  "scatter_pre hw p w \<longleftrightarrow> deflate_into hw (g_payload hw) (iaa_compress_max_dest_size hw) (input_size hw) \<and> g_indir_arr w = p"

interpretation scatter_args: allocator "alloc_decomp_and_scatter_arg hw ts" free_payload_arg
    "request_good (\<lambda>a. a_aux_payload a = p \<and> a_dst_size a = iaa_compress_max_dest_size hw) ts (KBytes (input_size hw))
      (\<lambda>k. k = KBytes (iaa_compress_max_dest_size hw)) False" "\<lambda>_. True" "scatter_pre hw p" for hw ts p
proof
  fix i w assume pre: "scatter_pre hw p w" and f: "fresh w"
  let ?n = "iaa_compress_max_dest_size hw"
  let ?g = "\<lambda>p m. Bytes (map (garbage hw p) [0..<m])"
  obtain ret out b1 where
    c: "gpcore_do_compress hw (Suc (nxt w)) (g_payload hw) ?n (put_blocks w [Opaque, ?g (Suc (nxt w)) (input_size hw)]) =
        Some (ret, out, put_blocks w [Opaque, Bytes b1])" "length b1 = input_size hw"
    using compress_put [of hw "g_payload hw" ?n "input_size hw" w Opaque "garbage hw (Suc (nxt w))"] pre
    by (auto simp: scatter_pre_def)
  have r: "alloc_decomp_and_scatter_arg hw ts i w = Some (set_ts ts ((uninit_args hw (nxt w))\<lparr>a_comp := i, a_id := i,
        a_src_payload := Suc (nxt w), a_src_size := out, a_dst_payload := Suc (Suc (nxt w)),
        a_dst_size := ?n, a_aux_payload := p, a_desc := Suc (Suc (Suc (nxt w)))\<rparr>),
      put_blocks (w\<lparr>rands := rands w\<rparr>) [Opaque, Bytes b1, ?g (Suc (Suc (nxt w))) ?n, Desc (uninit_desc hw (Suc (Suc (Suc (nxt w)))))])"
    using c pre by (simp add: alloc_decomp_and_scatter_arg_def malloc_bytes_def malloc_desc_def malloc_first put_put scatter_pre_def)
  have "\<exists>a w' F G. alloc_decomp_and_scatter_arg hw ts i w = Some (a, w') \<and> grows F w w' \<and> calm w w' \<and>
      request_good (\<lambda>a. a_aux_payload a = p \<and> a_dst_size a = iaa_compress_max_dest_size hw) ts (KBytes (input_size hw))
        (\<lambda>k. k = KBytes ?n) False i a F G (kinds w')"
    by (rule request_alloc [OF r f]) (use c(2) in simp_all)
  moreover have "scatter_pre hw p w'" if "calm w w'" for w' using pre that by (simp add: scatter_pre_def calm_def)
  ultimately show "\<exists>a w' F G. alloc_decomp_and_scatter_arg hw ts i w = Some (a, w') \<and> grows F w w' \<and> calm w w' \<and>
      scatter_pre hw p w' \<and>
      request_good (\<lambda>a. a_aux_payload a = p \<and> a_dst_size a = iaa_compress_max_dest_size hw) ts (KBytes (input_size hw))
        (\<lambda>k. k = KBytes ?n) False i a F G (kinds w')" by blast
qed (auto simp: request_good_local request_good_freed request_good_releases scatter_pre_def malloc_def)

end
