(* ===== verification/Test_Harness.thy ===== *)
theory Test_Harness
  imports Request_Args Requests_Walker Hash_Runs
begin

text \<open>
  The harnesses of \<open>src/test_harness.cpp\<close>: each allocates what a run needs (completion records,
  request structs, payloads, time stamp arrays, contexts), calls an executor and frees.  The
  function pointers of the source are arguments; C++ overloads with the same name get the suffix
  \<open>_payloads\<close> when they take a payload allocator instead of a request allocator.  Numbers of
  requests and sampling intervals are not negative.

  The second half is the calculus for such a function: what the first part of it allocates, what its
  last part frees, and so what a run leaves behind on the heap.
\<close>

section \<open>Shared fragments\<close>

text \<open>The time stamp arrays hold garbage at first.\<close>

definition fresh_words :: "env \<Rightarrow> nat \<Rightarrow> ptr \<Rightarrow> block" where
  "fresh_words hw n p = Words (map (\<lambda>i. ucast (garbage hw p i)) [0..<n])"

definition malloc_words :: "env \<Rightarrow> nat \<Rightarrow> world \<Rightarrow> ptr \<times> world" where
  "malloc_words hw n w = malloc (fresh_words hw n (nxt w)) w"

text \<open>An integer division; a division by zero is undefined.\<close>

definition c_div :: "nat \<Rightarrow> nat \<Rightarrow> nat option" where
  "c_div a b = (if b = 0 then None else Some (a div b))"

text \<open>\<open>uint64_t sampling_interval_completion_times[total_requests / requests_sampling_interval + 1]\<close>.\<close>

definition sampling_array :: "nat \<Rightarrow> nat \<Rightarrow> u64 option list option" where
  "sampling_array total_requests requests_sampling_interval =
    do {
      sampling_intervals \<leftarrow> c_div total_requests requests_sampling_interval;
      let sampling_interval_timestamps = sampling_intervals + 1;
      Some (replicate sampling_interval_timestamps None)
    }"

definition reset_counter :: "world \<Rightarrow> world" where
  "reset_counter w = w\<lparr>requests_completed := 0\<rparr>"

text \<open>The code after the call of an executor; it is not reached when a fiber ended the process.\<close>

definition after_run :: "'a outcome option \<Rightarrow> (world \<Rightarrow> world option) \<Rightarrow> unit outcome option" where
  "after_run r teardown =
    Option.bind r (\<lambda>r. case r of
        Exited w \<Rightarrow> Some (Exited w)
      | Done w _ \<Rightarrow> Option.bind (teardown w) (\<lambda>w. Some (Done w ())))"

text \<open>\<open>for (i...) free(off_args[i]); free(off_args);\<close>\<close>

definition free_structs :: "nat \<Rightarrow> ptr \<times> offload_args list \<Rightarrow> world \<Rightarrow> world option" where
  "free_structs total_requests off_args = free_array (\<lambda>a. mfree (a_self a)) total_requests off_args"

type_synonym request_fn = "offload_args \<Rightarrow> world \<Rightarrow> world slice option"
type_synonym core_fn = "gpcore_args \<Rightarrow> world \<Rightarrow> world slice option"
type_synonym requests_alloc = "nat \<Rightarrow> world \<Rightarrow> ((ptr \<times> offload_args list) \<times> world) option"
type_synonym timed_alloc = "nat \<Rightarrow> ptr \<Rightarrow> ptr \<Rightarrow> ptr \<Rightarrow> ptr \<Rightarrow> world \<Rightarrow> ((ptr \<times> offload_args list) \<times> world) option"
type_synonym requests_free = "nat \<Rightarrow> ptr \<times> offload_args list \<Rightarrow> world \<Rightarrow> world option"
type_synonym payload_alloc = "nat \<Rightarrow> world \<Rightarrow> ((ptr \<times> ptr list) \<times> world) option"
type_synonym payload_free = "nat \<Rightarrow> ptr \<times> ptr list \<Rightarrow> world \<Rightarrow> world option"
type_synonym inputs_alloc = "nat \<Rightarrow> world \<Rightarrow> ((ptr \<times> (ptr \<times> ptr list) list) \<times> world) option"
type_synonym inputs_free = "nat \<Rightarrow> ptr \<times> (ptr \<times> ptr list) list \<Rightarrow> world \<Rightarrow> world option"

section \<open>Blocking harnesses\<close>

definition blocking_ax_closed_loop_test ::
  "env \<Rightarrow> request_fn \<Rightarrow> payload_alloc \<Rightarrow> payload_free \<Rightarrow> nat \<Rightarrow> nat \<Rightarrow>
   ptr \<Rightarrow> int \<Rightarrow> world \<Rightarrow> unit outcome option" where
  "blocking_ax_closed_loop_test hw request_fn payload_allocator payload_free requests_sampling_interval
      total_requests exetime idx w =
    do {
      let (self, w) = malloc Opaque w;
      sampling_interval_completion_times \<leftarrow> sampling_array total_requests requests_sampling_interval;
      let w = reset_counter w;
      (dst_bufs, w) \<leftarrow> payload_allocator total_requests w;
      let (comps, w) = allocate_crs total_requests w;
      (off_args, w) \<leftarrow> allocate_offload_requests hw total_requests (snd dst_bufs) w;
      let (off_req_state, w) = malloc Opaque w;
      (states, w) \<leftarrow> create_contexts total_requests w;
      after_run
        (execute_blocking_requests_closed_system_with_sampling hw (int total_requests)
          sampling_interval_completion_times (snd off_args) (replicate total_requests request_fn)
          exetime idx w)
        (\<lambda>w. do {
          w \<leftarrow> free_contexts states total_requests w;
          w \<leftarrow> free_crs comps w;
          w \<leftarrow> free_structs total_requests off_args w;
          w \<leftarrow> payload_free total_requests dst_bufs w;
          mfree self w
        })
    }"

definition blocking_ax_request_breakdown ::
  "env \<Rightarrow> request_fn \<Rightarrow> timed_alloc \<Rightarrow> requests_free \<Rightarrow> nat \<Rightarrow>
   ptr \<Rightarrow> ptr \<Rightarrow> ptr \<Rightarrow> int \<Rightarrow> world \<Rightarrow> unit outcome option" where
  "blocking_ax_request_breakdown hw request_fn offload_args_allocator offload_args_free
      total_requests offload_time wait_time kernel2_time idx w =
    do {
      let (self, w) = malloc Opaque w;
      let (ts0, w) = malloc_words hw total_requests w;
      let (ts1, w) = malloc_words hw total_requests w;
      let (ts2, w) = malloc_words hw total_requests w;
      let (ts3, w) = malloc_words hw total_requests w;
      let w = reset_counter w;
      let (comps, w) = allocate_crs total_requests w;
      (off_args, w) \<leftarrow> offload_args_allocator total_requests ts0 ts1 ts2 ts3 w;
      let (off_req_state, w) = malloc Opaque w;
      (states, w) \<leftarrow> create_contexts total_requests w;
      after_run
        (execute_blocking_requests_closed_system_request_breakdown hw (int total_requests) (snd off_args)
          (replicate total_requests request_fn) offload_time wait_time kernel2_time idx w)
        (\<lambda>w. do {
          w \<leftarrow> free_contexts states total_requests w;
          w \<leftarrow> free_crs comps w;
          w \<leftarrow> offload_args_free total_requests off_args w;
          w \<leftarrow> mfree ts0 w;
          w \<leftarrow> mfree ts1 w;
          w \<leftarrow> mfree ts2 w;
          w \<leftarrow> mfree ts3 w;
          mfree self w
        })
    }"

definition blocking_ax_request_breakdown_payloads ::
  "env \<Rightarrow> request_fn \<Rightarrow> payload_alloc \<Rightarrow> payload_free \<Rightarrow> nat \<Rightarrow>
   ptr \<Rightarrow> ptr \<Rightarrow> ptr \<Rightarrow> int \<Rightarrow> world \<Rightarrow> unit outcome option" where
  "blocking_ax_request_breakdown_payloads hw request_fn payload_allocator payload_free
      total_requests offload_time wait_time kernel2_time idx w =
    do {
      let (self, w) = malloc Opaque w;
      let (ts0, w) = malloc_words hw total_requests w;
      let (ts1, w) = malloc_words hw total_requests w;
      let (ts2, w) = malloc_words hw total_requests w;
      let (ts3, w) = malloc_words hw total_requests w;
      let w = reset_counter w;
      (dst_bufs, w) \<leftarrow> payload_allocator total_requests w;
      let (comps, w) = allocate_crs total_requests w;
      (off_args, w) \<leftarrow> allocate_timed_offload_requests hw total_requests (snd dst_bufs) ts0 ts1 ts2 ts3 w;
      let (off_req_state, w) = malloc Opaque w;
      (states, w) \<leftarrow> create_contexts total_requests w;
      after_run
        (execute_blocking_requests_closed_system_request_breakdown hw (int total_requests) (snd off_args)
          (replicate total_requests request_fn) offload_time wait_time kernel2_time idx w)
        (\<lambda>w. do {
          w \<leftarrow> free_contexts states total_requests w;
          w \<leftarrow> free_crs comps w;
          w \<leftarrow> free_structs total_requests off_args w;
          w \<leftarrow> payload_free total_requests dst_bufs w;
          mfree self w
        })
    }"

definition blocking_request_offered_load ::
  "env \<Rightarrow> request_fn \<Rightarrow> requests_alloc \<Rightarrow> requests_free \<Rightarrow> nat \<Rightarrow> nat \<Rightarrow>
   ptr \<Rightarrow> int \<Rightarrow> world \<Rightarrow> unit outcome option" where
  "blocking_request_offered_load hw request_fn offload_args_allocator offload_args_free
      requests_sampling_interval total_requests exetime idx w =
    do {
      let (self, w) = malloc Opaque w;
      sampling_interval_completion_times \<leftarrow> sampling_array total_requests requests_sampling_interval;
      let w = reset_counter w;
      let (comps, w) = allocate_crs total_requests w;
      (off_args, w) \<leftarrow> offload_args_allocator total_requests w;
      let (offload_req_xfer, w) = malloc Opaque w;
      let (off_req_state, w) = malloc Opaque w;
      (states, w) \<leftarrow> create_contexts total_requests w;
      after_run
        (execute_blocking_requests_closed_system_with_sampling hw (int total_requests)
          sampling_interval_completion_times (snd off_args) (replicate total_requests request_fn)
          exetime idx w)
        (\<lambda>w. do {
          w \<leftarrow> free_contexts states total_requests w;
          w \<leftarrow> mfree offload_req_xfer w;
          w \<leftarrow> free_crs comps w;
          w \<leftarrow> offload_args_free total_requests off_args w;
          mfree self w
        })
    }"

section \<open>Harnesses of the general purpose core\<close>

text \<open>The loop that allocates the argument structs: \<open>inputs\<close> is \<open>dst_bufs[i]\<close>.\<close>

definition alloc_gpcore_arg ::
  "env \<Rightarrow> (ptr \<times> ptr list) list \<Rightarrow> (ptr \<times> ptr \<times> ptr) option \<Rightarrow> nat \<Rightarrow> world \<Rightarrow> (gpcore_args \<times> world) option" where
  "alloc_gpcore_arg hw dst_bufs ts i w =
    do {
      let (self, w) = malloc Opaque w;
      inputs \<leftarrow> arr_get dst_bufs (int i);
      let (ts0, ts1, ts2) = (case ts of Some stamps \<Rightarrow> stamps
        | None \<Rightarrow> (unat (garbage hw self 0), unat (garbage hw self 1), unat (garbage hw self 2)));
      Some (\<lparr>g_self = self, g_inputs = snd inputs, g_id = i, g_ts0 = ts0, g_ts1 = ts1, g_ts2 = ts2\<rparr>, w)
    }"

definition gpcore_closed_loop_test ::
  "env \<Rightarrow> core_fn \<Rightarrow> inputs_alloc \<Rightarrow> inputs_free \<Rightarrow> nat \<Rightarrow> nat \<Rightarrow>
   ptr \<Rightarrow> int \<Rightarrow> world \<Rightarrow> unit outcome option" where
  "gpcore_closed_loop_test hw request_fn payload_allocator payload_free requests_sampling_interval
      total_requests exetime idx w =
    do {
      sampling_interval_completion_times \<leftarrow> sampling_array total_requests requests_sampling_interval;
      let (self, w) = malloc Opaque w;
      (dst_bufs, w) \<leftarrow> payload_allocator total_requests w;
      let (cpu_req_state, w) = malloc Opaque w;
      (states, w) \<leftarrow> create_contexts total_requests w;
      (gpcore_args, w) \<leftarrow> alloc_array (alloc_gpcore_arg hw (snd dst_bufs) None) total_requests w;
      let w = reset_counter w;
      after_run
        (execute_gpcore_requests_closed_system_with_sampling hw (int total_requests) (snd gpcore_args)
          (replicate total_requests request_fn) exetime idx w)
        (\<lambda>w. do {
          w \<leftarrow> free_contexts states total_requests w;
          w \<leftarrow> payload_free total_requests dst_bufs w;
          mfree self w
        })
    }"

definition gpcore_request_breakdown ::
  "env \<Rightarrow> core_fn \<Rightarrow> inputs_alloc \<Rightarrow> inputs_free \<Rightarrow> nat \<Rightarrow>
   ptr \<Rightarrow> ptr \<Rightarrow> int \<Rightarrow> world \<Rightarrow> unit outcome option" where
  "gpcore_request_breakdown hw request_fn payload_allocator payload_free
      total_requests kernel1 kernel2 idx w =
    do {
      let (self, w) = malloc Opaque w;
      (dst_bufs, w) \<leftarrow> payload_allocator total_requests w;
      let (cpu_req_state, w) = malloc Opaque w;
      (states, w) \<leftarrow> create_contexts total_requests w;
      let (ts0, w) = malloc_words hw total_requests w;
      let (ts1, w) = malloc_words hw total_requests w;
      let (ts2, w) = malloc_words hw total_requests w;
      (gpcore_args, w) \<leftarrow> alloc_array (alloc_gpcore_arg hw (snd dst_bufs) (Some (ts0, ts1, ts2))) total_requests w;
      let w = reset_counter w;
      after_run
        (execute_gpcore_requests_closed_system_request_breakdown (int total_requests) (snd gpcore_args)
          (replicate total_requests request_fn) kernel1 kernel2 idx w)
        (\<lambda>w. do {
          w \<leftarrow> free_contexts states total_requests w;
          w \<leftarrow> payload_free total_requests dst_bufs w;
          mfree self w
        })
    }"

section \<open>Yielding harnesses\<close>

definition yielding_offload_ax_closed_loop_test ::
  "env \<Rightarrow> request_fn \<Rightarrow> payload_alloc \<Rightarrow> payload_free \<Rightarrow> nat \<Rightarrow> nat \<Rightarrow>
   ptr \<Rightarrow> int \<Rightarrow> world \<Rightarrow> unit outcome option" where
  "yielding_offload_ax_closed_loop_test hw request_fn payload_allocator payload_free
      requests_sampling_interval total_requests exetime idx w =
    do {
      let (self, w) = malloc Opaque w;
      sampling_interval_completion_times \<leftarrow> sampling_array total_requests requests_sampling_interval;
      let w = reset_counter w;
      (dst_bufs, w) \<leftarrow> payload_allocator total_requests w;
      let (comps, w) = allocate_crs total_requests w;
      (off_args, w) \<leftarrow> allocate_offload_requests hw total_requests (snd dst_bufs) w;
      let (offload_req_xfer, w) = malloc Opaque w;
      let (off_req_state, w) = malloc Opaque w;
      (states, w) \<leftarrow> create_contexts total_requests w;
      after_run
        (execute_yielding_requests_closed_system_with_sampling hw (int requests_sampling_interval)
          (int total_requests) sampling_interval_completion_times (snd off_args) (no_xfers (int total_requests))
          (replicate total_requests request_fn) exetime idx w)
        (\<lambda>w. do {
          w \<leftarrow> free_contexts states total_requests w;
          w \<leftarrow> mfree offload_req_xfer w;
          w \<leftarrow> free_crs comps w;
          w \<leftarrow> free_structs total_requests off_args w;
          w \<leftarrow> payload_free total_requests dst_bufs w;
          mfree self w
        })
    }"

definition yielding_request_breakdown_payloads ::
  "env \<Rightarrow> request_fn \<Rightarrow> payload_alloc \<Rightarrow> payload_free \<Rightarrow> nat \<Rightarrow>
   ptr \<Rightarrow> ptr \<Rightarrow> ptr \<Rightarrow> int \<Rightarrow> world \<Rightarrow> unit outcome option" where
  "yielding_request_breakdown_payloads hw request_fn payload_allocator payload_free
      total_requests offload_time wait_time kernel2_time idx w =
    do {
      let (self, w) = malloc Opaque w;
      let requests_sampling_interval = total_requests;
      sampling_interval_completion_times \<leftarrow> sampling_array total_requests requests_sampling_interval;
      let (ts0, w) = malloc_words hw total_requests w;
      let (ts1, w) = malloc_words hw total_requests w;
      let (ts2, w) = malloc_words hw total_requests w;
      let (ts3, w) = malloc_words hw total_requests w;
      let w = reset_counter w;
      (dst_bufs, w) \<leftarrow> payload_allocator total_requests w;
      let (comps, w) = allocate_crs total_requests w;
      (off_args, w) \<leftarrow> allocate_timed_offload_requests hw total_requests (snd dst_bufs) ts0 ts1 ts2 ts3 w;
      let (offload_req_xfer, w) = malloc Opaque w;
      let (off_req_state, w) = malloc Opaque w;
      (states, w) \<leftarrow> create_contexts total_requests w;
      after_run
        (execute_yielding_requests_closed_system_request_breakdown_sampled hw
          (int requests_sampling_interval) (int total_requests) sampling_interval_completion_times
          (snd off_args) (no_xfers (int total_requests)) (replicate total_requests request_fn) offload_time wait_time kernel2_time idx w)
        (\<lambda>w. do {
          w \<leftarrow> free_contexts states total_requests w;
          w \<leftarrow> mfree offload_req_xfer w;
          w \<leftarrow> free_crs comps w;
          w \<leftarrow> free_structs total_requests off_args w;
          w \<leftarrow> payload_free total_requests dst_bufs w;
          mfree self w
        })
    }"

definition yielding_request_breakdown ::
  "env \<Rightarrow> request_fn \<Rightarrow> timed_alloc \<Rightarrow> requests_free \<Rightarrow> nat \<Rightarrow>
   ptr \<Rightarrow> ptr \<Rightarrow> ptr \<Rightarrow> int \<Rightarrow> world \<Rightarrow> unit outcome option" where
  "yielding_request_breakdown hw request_fn offload_args_allocator offload_args_free
      total_requests offload_time wait_time kernel2_time idx w =
    do {
      let (self, w) = malloc Opaque w;
      sampling_intervals \<leftarrow> c_div total_requests total_requests;
      let (ts0, w) = malloc_words hw total_requests w;
      let (ts1, w) = malloc_words hw total_requests w;
      let (ts2, w) = malloc_words hw total_requests w;
      let (ts3, w) = malloc_words hw total_requests w;
      let w = reset_counter w;
      let (comps, w) = allocate_crs total_requests w;
      (off_args, w) \<leftarrow> offload_args_allocator total_requests ts0 ts1 ts2 ts3 w;
      let (offload_req_xfer, w) = malloc Opaque w;
      let (off_req_state, w) = malloc Opaque w;
      (states, w) \<leftarrow> create_contexts total_requests w;
      after_run
        (execute_yielding_requests_closed_system_request_breakdown hw (int total_requests) (snd off_args)
          (no_xfers (int total_requests)) (replicate total_requests request_fn) offload_time wait_time kernel2_time idx w)
        (\<lambda>w. do {
          w \<leftarrow> free_contexts states total_requests w;
          w \<leftarrow> mfree offload_req_xfer w;
          w \<leftarrow> free_crs comps w;
          w \<leftarrow> offload_args_free total_requests off_args w;
          mfree self w
        })
    }"

definition yielding_best_case_request_breakdown ::
  "env \<Rightarrow> request_fn \<Rightarrow> timed_alloc \<Rightarrow> requests_free \<Rightarrow> nat \<Rightarrow>
   ptr \<Rightarrow> ptr \<Rightarrow> ptr \<Rightarrow> int \<Rightarrow> world \<Rightarrow> unit outcome option" where
  "yielding_best_case_request_breakdown hw request_fn offload_args_allocator offload_args_free
      total_requests offload_time wait_time kernel2_time idx w =
    do {
      let (self, w) = malloc Opaque w;
      sampling_intervals \<leftarrow> c_div total_requests total_requests;
      let (ts0, w) = malloc_words hw total_requests w;
      let (ts1, w) = malloc_words hw total_requests w;
      let (ts2, w) = malloc_words hw total_requests w;
      let (ts3, w) = malloc_words hw total_requests w;
      let w = reset_counter w;
      let (comps, w) = allocate_crs total_requests w;
      (off_args, w) \<leftarrow> offload_args_allocator total_requests ts0 ts1 ts2 ts3 w;
      let (offload_req_xfer, w) = malloc Opaque w;
      let (off_req_state, w) = malloc Opaque w;
      (states, w) \<leftarrow> create_contexts total_requests w;
      after_run
        (execute_yielding_requests_best_case hw (int total_requests) (snd off_args)
          (no_xfers (int total_requests)) (replicate total_requests request_fn) offload_time wait_time kernel2_time idx w)
        (\<lambda>w. do {
          w \<leftarrow> free_contexts states total_requests w;
          w \<leftarrow> mfree offload_req_xfer w;
          w \<leftarrow> free_crs comps w;
          w \<leftarrow> offload_args_free total_requests off_args w;
          mfree self w
        })
    }"

text \<open>The fillers are started with a transfer that has no data.\<close>

definition yielding_multiple_filler_request_breakdown ::
  "env \<Rightarrow> request_fn \<Rightarrow> fiber \<Rightarrow> timed_alloc \<Rightarrow> requests_free \<Rightarrow> nat \<Rightarrow>
   ptr \<Rightarrow> ptr \<Rightarrow> ptr \<Rightarrow> int \<Rightarrow> world \<Rightarrow> unit outcome option" where
  "yielding_multiple_filler_request_breakdown hw request_fn filler_fn offload_args_allocator offload_args_free
      total_requests offload_time wait_time kernel2_time idx w =
    do {
      let (self, w) = malloc Opaque w;
      sampling_intervals \<leftarrow> c_div total_requests total_requests;
      let (ts0, w) = malloc_words hw total_requests w;
      let (ts1, w) = malloc_words hw total_requests w;
      let (ts2, w) = malloc_words hw total_requests w;
      let (ts3, w) = malloc_words hw total_requests w;
      let w = reset_counter w;
      let (comps, w) = allocate_crs total_requests w;
      (off_args, w) \<leftarrow> offload_args_allocator total_requests ts0 ts1 ts2 ts3 w;
      let (offload_req_xfer, w) = malloc Opaque w;
      let (off_req_state, w) = malloc Opaque w;
      let (filler_req_state, w) = malloc Opaque w;
      (states, w) \<leftarrow> create_contexts total_requests w;
      (filler_states, w) \<leftarrow> create_contexts total_requests w;
      after_run
        (execute_yielding_requests_multiple_filler_requests hw (int total_requests) (snd off_args)
          (no_xfers (int total_requests)) (replicate total_requests request_fn)
          (replicate total_requests filler_fn) offload_time wait_time kernel2_time idx w)
        (\<lambda>w. do {
          w \<leftarrow> free_contexts states total_requests w;
          w \<leftarrow> free_contexts filler_states total_requests w;
          w \<leftarrow> mfree offload_req_xfer w;
          w \<leftarrow> free_crs comps w;
          w \<leftarrow> offload_args_free total_requests off_args w;
          mfree self w
        })
    }"

definition yielding_same_interleaved_request_breakdown ::
  "env \<Rightarrow> request_fn \<Rightarrow> fiber \<Rightarrow> timed_alloc \<Rightarrow> requests_free \<Rightarrow> nat \<Rightarrow>
   ptr \<Rightarrow> ptr \<Rightarrow> ptr \<Rightarrow> int \<Rightarrow> world \<Rightarrow> unit outcome option" where
  "yielding_same_interleaved_request_breakdown hw request_fn interleave_fn offload_args_allocator offload_args_free
      total_requests offload_time wait_time kernel2_time idx w =
    do {
      let (self, w) = malloc Opaque w;
      sampling_intervals \<leftarrow> c_div total_requests total_requests;
      let (ts0, w) = malloc_words hw total_requests w;
      let (ts1, w) = malloc_words hw total_requests w;
      let (ts2, w) = malloc_words hw total_requests w;
      let (ts3, w) = malloc_words hw total_requests w;
      let w = reset_counter w;
      let (comps, w) = allocate_crs total_requests w;
      (off_args, w) \<leftarrow> offload_args_allocator total_requests ts0 ts1 ts2 ts3 w;
      let (offload_req_xfer, w) = malloc Opaque w;
      let (off_req_state, w) = malloc Opaque w;
      (interleaved_state, w) \<leftarrow> fcontext_create 0 w;
      (states, w) \<leftarrow> create_contexts total_requests w;
      after_run
        (execute_yielding_requests_interleaved hw (int total_requests) (snd off_args)
          (no_xfers (int total_requests)) (replicate total_requests request_fn)
          interleave_fn offload_time wait_time kernel2_time idx w)
        (\<lambda>w. do {
          w \<leftarrow> free_contexts states total_requests w;
          w \<leftarrow> mfree offload_req_xfer w;
          w \<leftarrow> free_crs comps w;
          w \<leftarrow> offload_args_free total_requests off_args w;
          mfree self w
        })
    }"

definition yielding_request_offered_load ::
  "env \<Rightarrow> request_fn \<Rightarrow> requests_alloc \<Rightarrow> requests_free \<Rightarrow> nat \<Rightarrow> nat \<Rightarrow>
   ptr \<Rightarrow> int \<Rightarrow> world \<Rightarrow> unit outcome option" where
  "yielding_request_offered_load hw request_fn offload_args_allocator offload_args_free
      requests_sampling_interval total_requests exetime idx w =
    do {
      let (self, w) = malloc Opaque w;
      sampling_interval_completion_times \<leftarrow> sampling_array total_requests requests_sampling_interval;
      let w = reset_counter w;
      let (comps, w) = allocate_crs total_requests w;
      (off_args, w) \<leftarrow> offload_args_allocator total_requests w;
      let (offload_req_xfer, w) = malloc Opaque w;
      let (off_req_state, w) = malloc Opaque w;
      (states, w) \<leftarrow> create_contexts total_requests w;
      after_run
        (execute_yielding_requests_closed_system_with_sampling hw (int requests_sampling_interval)
          (int total_requests) sampling_interval_completion_times (snd off_args) (no_xfers (int total_requests))
          (replicate total_requests request_fn) exetime idx w)
        (\<lambda>w. do {
          w \<leftarrow> free_contexts states total_requests w;
          w \<leftarrow> mfree offload_req_xfer w;
          w \<leftarrow> free_crs comps w;
          w \<leftarrow> offload_args_free total_requests off_args w;
          mfree self w
        })
    }"

end
