(* ===== verification/Harness_Runs.thy ===== *)
theory Harness_Runs
  imports Test_Harness
begin

text \<open>
  Whole harness runs: what the first part of a harness allocates, what its last part frees, and so
  what a run leaves behind on the heap.  The locale \<open>offload_supply\<close> is what a harness needs of the
  allocator of the request structs, of their deallocator and of the request function; it is
  interpreted on those of the request files.
\<close>

section \<open>Setting up\<close>

lemma put_blocks_updates:
  "(put_blocks w bs)\<lparr>requests_completed := c\<rparr> = put_blocks (w\<lparr>requests_completed := c\<rparr>) bs"
  "(put_blocks w bs)\<lparr>crs := cs\<rparr> = put_blocks (w\<lparr>crs := cs\<rparr>) bs"
  unfolding put_blocks_def by (rule world.equality; simp cong: if_cong)+

text \<open>The world in which a harness starts to allocate, with the fields that it sets.\<close>

definition prepared_world :: "nat \<Rightarrow> world \<Rightarrow> world" where
  "prepared_world n w = w\<lparr>requests_completed := 0, crs := replicate n idle_comp\<rparr>"

lemma prepared_world_simps [simp]:
  "heap (prepared_world n w) = heap w" "nxt (prepared_world n w) = nxt w" "crs (prepared_world n w) = replicate n idle_comp"
  "requests_completed (prepared_world n w) = 0" "obs (prepared_world n w) = obs w"
  "g_indir_arr (prepared_world n w) = g_indir_arr w" "g_item_buf (prepared_world n w) = g_item_buf w"
  by (simp_all add: prepared_world_def)

lemma put_blocks_more [simp]:
  "requests_completed (put_blocks w bs) = requests_completed w" "obs (put_blocks w bs) = obs w"
  by (simp_all add: put_blocks_def)

lemma create_contexts_put:
  "create_contexts n w = Some ([nxt w..<nxt w + n], put_blocks w (replicate n Opaque))"
proof -
  have "alloc_loop fcontext_create is w = Some ([nxt w..<nxt w + length is], put_blocks w (replicate (length is) Opaque))"
    for "is" and w
  proof (induction "is" arbitrary: w)
    case (Cons i "is")
    then show ?case
      by (simp add: fcontext_create_def malloc_first put_put upt_conv_Cons del: upt_Suc)
  qed (simp add: put_blocks_Nil)
  then show ?thesis by (simp add: create_contexts_def)
qed

text \<open>The blocks that a harness has allocated: some in a row, those of its client, again some in a
  row.\<close>

definition rig :: "world \<Rightarrow> nat \<Rightarrow> ptr set \<Rightarrow> world \<Rightarrow> nat \<Rightarrow> ptr set" where
  "rig w k F w' m = {nxt w..<nxt w + k} \<union> F \<union> {nxt w'..<nxt w' + m}"

lemma rig_grows:
  assumes "grows F (put_blocks (prepared_world n w) bs) w'"
  shows "grows (rig w (length bs) F w' (length cs)) w (put_blocks w' cs)"
proof -
  have "grows {nxt w..<nxt w + length bs} w (put_blocks (prepared_world n w) bs)"
    by (auto simp: grows_def put_blocks_def)
  from grows_trans [OF grows_trans [OF this assms] grows_put(1)] show ?thesis by (simp add: rig_def)
qed

section \<open>Tearing down\<close>

text \<open>\<open>frees_in b K D f\<close>: in a world with the shape \<open>K\<close>, \<open>f\<close> frees exactly the blocks \<open>D\<close>.  It may
  set the global pointers to \<open>NULL\<close> unless \<open>b\<close>.\<close>

definition frees_in :: "bool \<Rightarrow> shape \<Rightarrow> ptr set \<Rightarrow> (world \<Rightarrow> world option) \<Rightarrow> bool" where
  "frees_in b K D f \<longleftrightarrow> (\<forall>w. (\<forall>p \<in> D. kinds w p = blocks K p) \<longrightarrow> g_indir_arr w = indir_at K \<longrightarrow>
    g_item_buf w = item_at K \<longrightarrow> (\<exists>w'. f w = Some w' \<and> heap w' = heap (without D w) \<and> nxt w' = nxt w \<and>
      requests_completed w' = requests_completed w \<and> obs w' = obs w \<and>
      (b \<longrightarrow> g_indir_arr w' = g_indir_arr w \<and> g_item_buf w' = g_item_buf w)))"

lemma frees_inI: "releases (blocks K) D f \<Longrightarrow> frees_in b K D f"
  unfolding releases_def frees_in_def by simp

lemma frees_in_weaken: "frees_in True K D f \<Longrightarrow> frees_in b K D f"
  unfolding frees_in_def by blast

lemma kinds_heap: "heap w' = heap (without D w) \<Longrightarrow> kinds w' p = (if p \<in> D then None else kinds w p)"
  by (simp add: kinds_def heap_without)

lemma frees_in_bind:
  assumes "frees_in True K A f" and "frees_in b K B g" and "A \<inter> B = {}"
  shows "frees_in b K (A \<union> B) (\<lambda>w. Option.bind (f w) g)"
  unfolding frees_in_def
proof (intro allI impI)
  fix w assume k: "\<forall>p \<in> A \<union> B. kinds w p = blocks K p" "g_indir_arr w = indir_at K" "g_item_buf w = item_at K"
  then obtain w1 where 1: "f w = Some w1" "heap w1 = heap (without A w)" "nxt w1 = nxt w" "requests_completed w1 = requests_completed w"
    "obs w1 = obs w" "g_indir_arr w1 = g_indir_arr w" "g_item_buf w1 = g_item_buf w"
    using assms(1) unfolding frees_in_def by (metis UnI1)
  have "\<forall>p \<in> B. kinds w1 p = blocks K p" using k(1) assms(3) by (auto simp: kinds_heap [OF 1(2)])
  then obtain w2 where 2: "g w1 = Some w2" "heap w2 = heap (without B w1)" "nxt w2 = nxt w1" "requests_completed w2 = requests_completed w1"
    "obs w2 = obs w1" "b \<longrightarrow> g_indir_arr w2 = g_indir_arr w1 \<and> g_item_buf w2 = g_item_buf w1"
    using assms(2) k(2,3) 1(6,7) unfolding frees_in_def by metis
  have "heap w2 = heap (without (A \<union> B) w)" using 1(2) 2(2) by (auto simp: fun_eq_iff heap_without)
  with 1 2 show "\<exists>w'. Option.bind (f w) g = Some w' \<and> heap w' = heap (without (A \<union> B) w) \<and> nxt w' = nxt w \<and>
      requests_completed w' = requests_completed w \<and> obs w' = obs w \<and>
      (b \<longrightarrow> g_indir_arr w' = g_indir_arr w \<and> g_item_buf w' = g_item_buf w)" by simp
qed

lemma frees_in_then:
  assumes "frees_in b K A f" and "releases (blocks K) B g" and "A \<inter> B = {}"
  shows "frees_in b K (A \<union> B) (\<lambda>w. Option.bind (f w) g)"
  unfolding frees_in_def
proof (intro allI impI)
  fix w assume k: "\<forall>p \<in> A \<union> B. kinds w p = blocks K p" "g_indir_arr w = indir_at K" "g_item_buf w = item_at K"
  then obtain w1 where 1: "f w = Some w1" "heap w1 = heap (without A w)" "nxt w1 = nxt w" "requests_completed w1 = requests_completed w"
    "obs w1 = obs w" "b \<longrightarrow> g_indir_arr w1 = g_indir_arr w \<and> g_item_buf w1 = g_item_buf w"
    using assms(1) unfolding frees_in_def by (metis UnI1)
  have "\<forall>p \<in> B. kinds w1 p = blocks K p" using k(1) assms(3) by (auto simp: kinds_heap [OF 1(2)])
  then have "g w1 = Some (without B w1)" using assms(2) by (simp add: releases_def)
  moreover have "heap (without B w1) = heap (without (A \<union> B) w)" using 1(2) by (auto simp: fun_eq_iff heap_without)
  ultimately show "\<exists>w'. Option.bind (f w) g = Some w' \<and> heap w' = heap (without (A \<union> B) w) \<and> nxt w' = nxt w \<and>
      requests_completed w' = requests_completed w \<and> obs w' = obs w \<and>
      (b \<longrightarrow> g_indir_arr w' = g_indir_arr w \<and> g_item_buf w' = g_item_buf w)" using 1 by simp
qed

lemma frees_in_crs: "p \<noteq> 0 \<Longrightarrow> blocks K p \<noteq> None \<Longrightarrow> frees_in True K {p} (free_crs p)"
  by (auto simp: frees_in_def free_crs_def mfree_def heap_without kinds_def fun_eq_iff split: option.splits)

lemma releases_contexts:
  assumes "0 < a" and "\<forall>p \<in> {a..<a + n}. K p \<noteq> None"
  shows "releases K {a..<a + n} (free_contexts [a..<a + n] n)"
proof -
  have "releases K (set [a..<a + n]) (frees [a..<a + n])"
    by (rule releases_frees) (use assms in auto)
  moreover have "free_contexts [a..<a + n] n w = frees [a..<a + n] w" for w
    by (simp add: free_contexts_def free_loop_take foldM_mfree)
  ultimately show ?thesis by (simp add: releases_def)
qed

section \<open>What a run leaves behind\<close>

text \<open>All requests were served, in order; the blocks from before have kept their sizes, and \<open>k\<close>
  blocks are left that nothing frees.  The heap is again one that a harness can start with.\<close>

definition leaves :: "int \<Rightarrow> nat list \<Rightarrow> nat \<Rightarrow> world \<Rightarrow> world \<Rightarrow> bool" where
  "leaves c subs k w w' \<longleftrightarrow> fresh w' \<and> nxt w \<le> nxt w' \<and> requests_completed w' = c \<and> submit_order w' = submit_order w @ subs \<and>
    (\<forall>p < nxt w. kinds w' p = kinds w p) \<and> card {p. heap w p = None \<and> heap w' p \<noteq> None} = k"

definition harness_done :: "nat \<Rightarrow> nat list \<Rightarrow> nat \<Rightarrow> world \<Rightarrow> world \<Rightarrow> bool" where
  "harness_done n subs k w w' \<longleftrightarrow> fresh w' \<and> nxt w \<le> nxt w' \<and> requests_completed w' = int n \<and> submit_order w' = submit_order w @ subs \<and>
    (\<forall>p < nxt w. kinds w' p = kinds w p) \<and> card {p. heap w p = None \<and> heap w' p \<noteq> None} = k"

lemma harness_done_leaves: "harness_done n subs k w w' \<longleftrightarrow> leaves (int n) subs k w w'"
  by (simp add: harness_done_def leaves_def)

lemma run_frame:
  assumes "fresh w" and "grows U w w1" and "obs w1 = obs w" and "ran (shape w1) n c subs w1 w2"
    and "frees_in b (shape w1) D f" and "D \<subseteq> U" and "card (U - D) = k"
  shows "\<exists>w3. after_run (Some (Done w2 x)) f = Some (Done w3 ()) \<and> leaves c subs k w w3 \<and>
    (b \<longrightarrow> g_indir_arr w3 = indir_at (shape w1))"
proof -
  have sh: "shape w2 = shape w1" "requests_completed w2 = c" "submit_order w2 = submit_order w1 @ subs"
    using assms(4) by (simp_all add: ran_def)
  have kn: "kinds w2 p = kinds w1 p" for p using sh(1) by (simp add: shape_eq_iff)
  have g: "g_indir_arr w2 = g_indir_arr w1" "g_item_buf w2 = g_item_buf w1" using sh(1) by (simp_all add: shape_eq_iff)
  then obtain w3 where 3: "f w2 = Some w3" "heap w3 = heap (without D w2)" "nxt w3 = nxt w2"
    "requests_completed w3 = requests_completed w2" "obs w3 = obs w2" "b \<longrightarrow> g_indir_arr w3 = g_indir_arr w2" using assms(5) kn unfolding frees_in_def by auto
  have k3: "kinds w3 p = (if p \<in> D then None else kinds w1 p)" for p using kinds_heap [OF 3(2), of p] kn by simp
  have "{p. heap w p = None \<and> heap w3 p \<noteq> None} = U - D"
  proof (intro equalityI subsetI)
    fix p assume p: "p \<in> {p. heap w p = None \<and> heap w3 p \<noteq> None}"
    then have "kinds w3 p \<noteq> None" by (simp add: kinds_def)
    then have "p \<notin> D" "kinds w1 p \<noteq> None" using k3 by (auto split: if_splits)
    with p assms(2) show "p \<in> U - D" by (auto simp: grows_def kinds_def)
  next
    fix p assume p: "p \<in> U - D"
    then have "heap w p = None" "heap w1 p \<noteq> None" using assms(1,2) by (auto simp: grows_def fresh_def)
    moreover have "kinds w3 p = kinds w1 p" using p k3 by simp
    ultimately show "p \<in> {p. heap w p = None \<and> heap w3 p \<noteq> None}" by (cases "heap w3 p") (auto simp: kinds_def)
  qed
  moreover have "kinds w3 p = kinds w p" if "p < nxt w" for p
  proof -
    have "p \<notin> D" using assms(2,6) that by (metis grows_def leD subsetD)
    then show ?thesis using grows_kinds_below [OF assms(2) that] k3 [of p] by simp
  qed
  moreover have "submit_order w3 = submit_order w @ subs" using 3(5) sh(3) assms(3) by simp
  moreover have n3: "nxt w3 = nxt w1" using 3(3) sh(1) by (simp add: shape_eq_iff)
  moreover have "fresh w3"
    using grows_fresh [OF assms(2,1)] k3 n3 by (simp add: fresh_kinds)
  ultimately have "leaves c subs k w w3" using 3(4) sh(2) assms(7) grows_nxt [OF assms(2)] by (simp add: leaves_def)
  with 3(1,6) g show ?thesis by (simp add: after_run_def)
qed

lemma harness_frame:
  assumes "fresh w" and "grows U w w1" and "obs w1 = obs w" and "served (shape w1) n 0 subs w1 w2"
    and "frees_in b (shape w1) D f" and "D \<subseteq> U" and "card (U - D) = k"
  shows "\<exists>w3. after_run (Some (Done w2 x)) f = Some (Done w3 ()) \<and> harness_done n subs k w w3"
proof -
  have "ran (shape w1) n (int n) subs w1 w2" using assms(4) by (simp add: served_ran)
  from run_frame [OF assms(1-3) this assms(5-7), of x] show ?thesis by (auto simp: harness_done_leaves)
qed

section \<open>The contract with the request files\<close>

text \<open>What a harness relies on.  \<open>alloc\<close> builds the structs, or the inputs, of the requests and takes back nothing, \<open>free\<close>
  frees all but \<open>lost\<close> of their blocks, and \<open>serves K args\<close> is the contract of the request function
  with the executors in a world of shape \<open>K\<close>.\<close>

locale struct_supply =
  fixes alloc :: "world \<Rightarrow> ((ptr \<times> 'a list) \<times> world) option"
    and free_args :: "ptr \<times> 'a list \<Rightarrow> world \<Rightarrow> world option"
    and pre :: "world \<Rightarrow> bool" and keeps_globals :: bool and lost :: nat
    and serves :: "shape \<Rightarrow> 'a list \<Rightarrow> bool"
  assumes supplies: "pre w \<Longrightarrow> fresh w \<Longrightarrow> \<exists>arr w' F G. alloc w = Some (arr, w') \<and> grows F w w' \<and>
      crs w' = crs w \<and> requests_completed w' = requests_completed w \<and> obs w' = obs w \<and>
      G \<subseteq> F \<and> card (F - G) = lost \<and>
      (\<forall>K. (\<forall>p \<in> F. blocks K p = kinds w' p) \<longrightarrow> indir_at K = g_indir_arr w' \<longrightarrow> item_at K = g_item_buf w' \<longrightarrow>
        serves K (snd arr) \<and> frees_in keeps_globals K G (free_args arr))"
    and pre_globals: "pre w \<Longrightarrow> g_indir_arr w' = g_indir_arr w \<Longrightarrow> g_item_buf w' = g_item_buf w \<Longrightarrow> pre w'"

text \<open>The state in which the executor is called, \<open>bs\<close> and \<open>cs\<close> being the blocks that the harness
  allocates before and after those of the client.\<close>

definition rigged ::
  "world \<Rightarrow> block list \<Rightarrow> ptr set \<Rightarrow> ptr set \<Rightarrow> world \<Rightarrow> block list \<Rightarrow> bool" where
  "rigged w bs F G w' cs \<longleftrightarrow> 0 < nxt w \<and> F \<subseteq> {nxt w + length bs..<nxt w'} \<and> nxt w + length bs \<le> nxt w' \<and> G \<subseteq> F \<and>
    (\<forall>i < length bs. kinds (put_blocks w' cs) (nxt w + i) = Some (kind_of (bs ! i))) \<and>
    (\<forall>i < length cs. kinds (put_blocks w' cs) (nxt w' + i) = Some (kind_of (cs ! i))) \<and>
    (\<forall>p < nxt w. kinds (put_blocks w' cs) p = kinds w p)"

context struct_supply
begin

lemma rig_up:
  assumes "pre w" and "fresh w"
  shows "\<exists>arr w' F G. alloc (put_blocks (prepared_world n w) bs) = Some (arr, w') \<and>
    grows (rig w (length bs) F w' (length cs)) w (put_blocks w' cs) \<and> obs w' = obs w \<and>
    ready_world (shape (put_blocks w' cs)) n 0 (put_blocks w' cs) \<and> rigged w bs F G w' cs \<and> card (F - G) = lost \<and>
    serves (shape (put_blocks w' cs)) (snd arr) \<and> frees_in keeps_globals (shape (put_blocks w' cs)) G (free_args arr)"
proof -
  let ?w3 = "put_blocks (prepared_world n w) bs"
  have "pre ?w3" by (rule pre_globals [OF assms(1)]) simp_all
  moreover have f3: "fresh ?w3" using assms(2) by (simp add: fresh_def put_blocks_def)
  ultimately obtain arr w' F G where 1: "alloc ?w3 = Some (arr, w')" "grows F ?w3 w'" "crs w' = replicate n idle_comp"
    "requests_completed w' = 0" "obs w' = obs w" "G \<subseteq> F" "card (F - G) = lost"
    "\<forall>K. (\<forall>p \<in> F. blocks K p = kinds w' p) \<longrightarrow> indir_at K = g_indir_arr w' \<longrightarrow> item_at K = g_item_buf w' \<longrightarrow>
      serves K (snd arr) \<and> frees_in keeps_globals K G (free_args arr)"
    using supplies [of ?w3] by auto
  let ?w7 = "put_blocks w' cs"
  have g: "grows {nxt w'..<nxt w' + length cs} w' ?w7" by (rule grows_put)
  have F: "F \<subseteq> {nxt w + length bs..<nxt w'}" using 1(2) by (auto simp: grows_def)
  have "kinds ?w7 p = kinds w' p" if "p < nxt w'" for p using grows_kinds_below [OF g that] .
  note below = this
  then have kF: "\<forall>p \<in> F. blocks (shape ?w7) p = kinds w' p" using F by auto
  have 7: "kinds ?w7 p = kinds ?w3 p" if "p < nxt w + length bs" for p
    using below [of p] grows_kinds_below [OF 1(2), of p] that grows_nxt [OF 1(2)] by simp
  have "kinds ?w7 p = kinds w p" if "p < nxt w" for p
    using 7 [of p] that by (simp add: kinds_def put_blocks_def)
  moreover have "\<forall>i < length bs. kinds ?w7 (nxt w + i) = Some (kind_of (bs ! i))"
    using 7 kinds_put [of _ bs "prepared_world n w"] by simp
  ultimately have "rigged w bs F G w' cs"
    using F 1(6) kinds_put [of _ cs w'] grows_nxt [OF 1(2)] assms(2) by (simp add: rigged_def fresh_def)
  moreover have "ready_world (shape ?w7) n 0 ?w7" using 1(3,4) by (simp add: ready_world_def)
  moreover have "serves (shape ?w7) (snd arr) \<and> frees_in keeps_globals (shape ?w7) G (free_args arr)"
    using 1(8) kF by simp
  ultimately show ?thesis using 1(1,5,7) rig_grows [OF 1(2), of cs] by blast
qed

end

text \<open>The end of the harnesses that free what the client has allocated.\<close>

lemma free_contexts_frees: "free_contexts [a..<a + n] n w = frees [a..<a + n] w"
  by (simp add: free_contexts_def free_loop_take foldM_mfree)

lemma frees_append: "frees (xs @ ys) w = Option.bind (frees xs w) (frees ys)"
  by (induction xs arbitrary: w) (auto split: bind_splits)

definition teardown :: "ptr list \<Rightarrow> ptr \<Rightarrow> (world \<Rightarrow> world option) \<Rightarrow> ptr list \<Rightarrow> world \<Rightarrow> world option" where
  "teardown xs comps g ys w =
    Option.bind (frees xs w) (\<lambda>w. Option.bind (free_crs comps w) (\<lambda>w. Option.bind (g w) (frees ys)))"

lemma teardown_ok:
  assumes "frees_in b K G g" and "distinct (comps # xs @ ys)" and "0 \<notin> set (comps # xs @ ys)"
    and "\<forall>p \<in> set (comps # xs @ ys). blocks K p \<noteq> None" and "G \<inter> set (comps # xs @ ys) = {}"
  shows "frees_in b K (set xs \<union> ({comps} \<union> (G \<union> set ys))) (teardown xs comps g ys)"
proof -
  have g: "frees_in b K (G \<union> set ys) (\<lambda>w. Option.bind (g w) (frees ys))"
    by (rule frees_in_then [OF assms(1) releases_frees]) (use assms in auto)
  have c: "frees_in b K ({comps} \<union> (G \<union> set ys)) (\<lambda>w. Option.bind (free_crs comps w) (\<lambda>w. Option.bind (g w) (frees ys)))"
    by (rule frees_in_bind [OF frees_in_crs g]) (use assms in auto)
  show ?thesis unfolding teardown_def
    by (rule frees_in_bind [OF frees_inI [OF releases_frees] c]) (use assms in auto)
qed

text \<open>The prefix \<open>bs\<close> starts with the proxy context and ends with the completion records; the time
  stamp arrays are between.  Of the suffix, all but the array of contexts is freed.\<close>

lemma rigged_teardown:
  assumes r: "rigged w bs F G w' cs" and g: "frees_in b (shape (put_blocks w' cs)) G g"
    and xs: "distinct xs" "set xs \<subseteq> {nxt w'..<nxt w' + length cs}"
    and ys: "distinct (comps # ys)" "set (comps # ys) \<subseteq> {nxt w..<nxt w + length bs}"
  shows "frees_in b (shape (put_blocks w' cs)) (set xs \<union> ({comps} \<union> (G \<union> set ys))) (teardown xs comps g ys)"
proof (rule teardown_ok [OF g])
  have Gb: "\<forall>p \<in> G. nxt w + length bs \<le> p \<and> p < nxt w'" and w': "nxt w + length bs \<le> nxt w'" "0 < nxt w"
    using r by (auto simp: rigged_def)
  have lo: "\<forall>p \<in> set (comps # ys). nxt w \<le> p \<and> p < nxt w + length bs" using ys(2) by auto
  have hi: "\<forall>p \<in> set xs. nxt w' \<le> p" using xs(2) by auto
  show "distinct (comps # xs @ ys)" using xs(1) ys(1) lo hi w' by fastforce
  show "0 \<notin> set (comps # xs @ ys)" using lo hi w' by fastforce
  show "G \<inter> set (comps # xs @ ys) = {}" using lo hi w' Gb by fastforce
  have "blocks (shape (put_blocks w' cs)) p \<noteq> None" if "p \<in> {nxt w'..<nxt w' + length cs}" for p
  proof -
    obtain i where "p = nxt w' + i" "i < length cs" using \<open>p \<in> _\<close> by (metis atLeastLessThan_iff le_Suc_ex nat_add_left_cancel_less)
    then show ?thesis using r by (simp add: rigged_def)
  qed
  moreover have "blocks (shape (put_blocks w' cs)) p \<noteq> None" if "p \<in> {nxt w..<nxt w + length bs}" for p
  proof -
    obtain i where "p = nxt w + i" "i < length bs" using \<open>p \<in> _\<close> by (metis atLeastLessThan_iff le_Suc_ex nat_add_left_cancel_less)
    then show ?thesis using r by (simp add: rigged_def)
  qed
  ultimately show "\<forall>p \<in> set (comps # xs @ ys). blocks (shape (put_blocks w' cs)) p \<noteq> None" using xs(2) ys(2) by auto
qed

text \<open>What is not freed: the blocks the harness forgets, and those that its client loses.\<close>

lemma rigged_left:
  assumes r: "rigged w bs F G w' cs" and "card (F - G) = lost"
    and "set xs \<subseteq> {nxt w'..<nxt w' + length cs}" and "set (comps # ys) \<subseteq> {nxt w..<nxt w + length bs}"
    and k: "card ({nxt w..<nxt w + length bs} - set (comps # ys)) = k" "card ({nxt w'..<nxt w' + length cs} - set xs) = m"
  shows "card (rig w (length bs) F w' (length cs) - (set xs \<union> ({comps} \<union> (G \<union> set ys)))) = k + lost + m"
    and "set xs \<union> ({comps} \<union> (G \<union> set ys)) \<subseteq> rig w (length bs) F w' (length cs)"
proof -
  let ?A = "{nxt w..<nxt w + length bs} - set (comps # ys)" and ?C = "{nxt w'..<nxt w' + length cs} - set xs"
  have d: "F \<subseteq> {nxt w + length bs..<nxt w'}" "nxt w + length bs \<le> nxt w'" "G \<subseteq> F" using r by (simp_all add: rigged_def)
  have s: "set xs \<inter> {nxt w..<nxt w'} = {}" "set (comps # ys) \<inter> {nxt w + length bs..} = {}"
    using d assms(3,4) by fastforce+
  have "F \<inter> set (comps # ys) = {}" "F \<inter> set xs = {}" "G \<inter> {nxt w..<nxt w + length bs} = {}"
    "G \<inter> {nxt w'..} = {}" using s d by fastforce+
  moreover have "set (comps # ys) \<inter> {nxt w'..} = {}" "set xs \<inter> {nxt w..<nxt w + length bs} = {}" using s d(2) by fastforce+
  ultimately have "rig w (length bs) F w' (length cs) - (set xs \<union> ({comps} \<union> (G \<union> set ys))) = ?A \<union> (F - G) \<union> ?C"
    unfolding rig_def by auto
  moreover have "finite F" using d(1) finite_subset by blast
  moreover have "?A \<inter> (F - G) = {}" "(?A \<union> (F - G)) \<inter> ?C = {}" using d by (auto simp: subset_iff)
  ultimately show "card (rig w (length bs) F w' (length cs) - (set xs \<union> ({comps} \<union> (G \<union> set ys)))) = k + lost + m"
    using k assms(2) by (simp add: card_Un_disjoint)
  show "set xs \<union> ({comps} \<union> (G \<union> set ys)) \<subseteq> rig w (length bs) F w' (length cs)"
    using d assms(3,4) unfolding rig_def by auto
qed

section \<open>Runs\<close>

text \<open>\<open>comps\<close>, \<open>xs\<close> and \<open>ys\<close> give the positions of the freed blocks in the prefix and the suffix.\<close>

context struct_supply
begin

lemma run_harness:
  assumes "pre w" and "fresh w"
    and exec: "\<And>arr w' F G. rigged w bs F G w' cs \<Longrightarrow> serves (shape (put_blocks w' cs)) (snd arr) \<Longrightarrow>
      ready_world (shape (put_blocks w' cs)) n 0 (put_blocks w' cs) \<Longrightarrow>
      \<exists>w8. exec arr (put_blocks w' cs) = Some (Done w8 x) \<and> served (shape (put_blocks w' cs)) n 0 subs (put_blocks w' cs) w8"
    and xs: "\<And>a. distinct (xs a)" "\<And>a. set (xs a) \<subseteq> {a..<a + length cs}" "\<And>a. card ({a..<a + length cs} - set (xs a)) = m"
    and ys: "distinct (comps # ys)" "set (comps # ys) \<subseteq> {nxt w..<nxt w + length bs}"
      "card ({nxt w..<nxt w + length bs} - set (comps # ys)) = k"
  shows "\<exists>arr w' w3. alloc (put_blocks (prepared_world n w) bs) = Some (arr, w') \<and>
    after_run (exec arr (put_blocks w' cs)) (teardown (xs (nxt w')) comps (free_args arr) ys) = Some (Done w3 ()) \<and>
    harness_done n subs (k + lost + m) w w3"
proof -
  obtain arr w' F G where r: "alloc (put_blocks (prepared_world n w) bs) = Some (arr, w')"
    "grows (rig w (length bs) F w' (length cs)) w (put_blocks w' cs)" "obs w' = obs w"
    "ready_world (shape (put_blocks w' cs)) n 0 (put_blocks w' cs)" "rigged w bs F G w' cs" "card (F - G) = lost"
    "serves (shape (put_blocks w' cs)) (snd arr)" "frees_in keeps_globals (shape (put_blocks w' cs)) G (free_args arr)"
    using rig_up [OF assms(1,2)] by blast
  obtain w8 where 8: "exec arr (put_blocks w' cs) = Some (Done w8 x)"
    "served (shape (put_blocks w' cs)) n 0 subs (put_blocks w' cs) w8" using exec [OF r(5,7,4)] by blast
  note td = rigged_teardown [OF r(5,8) xs(1,2) ys(1,2)]
  note left = rigged_left [OF r(5,6) xs(2) ys(2,3) xs(3)]
  have "obs (put_blocks w' cs) = obs w" using r(3) by simp
  from harness_frame [OF assms(2) r(2) this 8(2) td left(2,1)] 8(1) r(1) show ?thesis by auto
qed

end

text \<open>The contexts, and the blocks of the suffix at the positions \<open>is\<close>.\<close>

definition freed_suffix :: "nat \<Rightarrow> nat \<Rightarrow> nat list \<Rightarrow> nat \<Rightarrow> ptr list" where
  "freed_suffix n j is a = [a + j..<a + j + n] @ map ((+) a) is"

lemma freed_suffix_ok:
  assumes "distinct is" and "\<forall>i \<in> set is. i < j" and "length cs = j + n"
  shows "distinct (freed_suffix n j is a)" and "set (freed_suffix n j is a) \<subseteq> {a..<a + length cs}"
    and "card ({a..<a + length cs} - set (freed_suffix n j is a)) = j - length is"
proof -
  show "distinct (freed_suffix n j is a)" using assms by (auto simp: freed_suffix_def distinct_map)
  show "set (freed_suffix n j is a) \<subseteq> {a..<a + length cs}" using assms by (auto simp: freed_suffix_def)
  have "{a..<a + length cs} - set (freed_suffix n j is a) = (+) a ` ({..<j} - set is)"
  proof (intro equalityI subsetI)
    fix p assume p: "p \<in> {a..<a + length cs} - set (freed_suffix n j is a)"
    then have "a \<le> p" "p - a < j" using assms(3) by (auto simp: freed_suffix_def)
    moreover have "p - a \<notin> set is" using p by (auto simp: freed_suffix_def image_iff)
    ultimately show "p \<in> (+) a ` ({..<j} - set is)" by (intro image_eqI [of _ _ "p - a"]) auto
  qed (use assms(3) in \<open>auto simp: freed_suffix_def\<close>)
  moreover have "card ({..<j} - set is) = j - length is"
    using assms(1,2) by (subst card_Diff_subset) (auto simp: distinct_card)
  ultimately show "card ({a..<a + length cs} - set (freed_suffix n j is a)) = j - length is"
    by (simp add: card_image)
qed

lemma free_suffix:
  "frees (freed_suffix n j is a) w = Option.bind (free_contexts [a + j..<a + j + n] n w) (frees (map ((+) a) is))"
  by (simp add: freed_suffix_def frees_append free_contexts_frees)

lemma prepared_fold:
  "w\<lparr>requests_completed := 0, crs := replicate n idle_comp\<rparr> = prepared_world n w"
  by (simp add: prepared_world_def)

lemma prepared_put: "prepared_world n (put_blocks w bs) = put_blocks (prepared_world n w) bs"
  by (simp add: prepared_world_def put_blocks_updates)

lemma frees_fun: "frees [p] = mfree p" "frees (p # q # ps) = (\<lambda>w. Option.bind (mfree p w) (frees (q # ps)))"
  by (auto simp: fun_eq_iff split: bind_splits)

lemmas harness_simps = prepared_put frees_fun malloc_first put_put put_blocks_updates prepared_fold reset_counter_def allocate_crs_def
  create_contexts_put free_suffix sampling_array_def c_div_def fcontext_create_def malloc_words_def

text \<open>The supply of request structs.\<close>

locale offload_supply = struct_supply alloc free_args pre keeps_globals lost serves
  for alloc :: "world \<Rightarrow> ((ptr \<times> offload_args list) \<times> world) option"
    and free_args :: "ptr \<times> offload_args list \<Rightarrow> world \<Rightarrow> world option"
    and pre :: "world \<Rightarrow> bool" and keeps_globals :: bool and lost :: nat
    and serves :: "shape \<Rightarrow> offload_args list \<Rightarrow> bool"

context offload_supply
begin

lemma yielding_offered_load:
  assumes "pre w" and "fresh w" and "A n = alloc" and "Fr n = free_args"
    and serve: "\<And>K args. serves K args \<Longrightarrow> yielding_offloads hw K n is_completed (replicate n f) args"
    and "0 < q" and "kinds w ex = Some (KWords len)" and "idx + n div q \<le> len"
  shows "\<exists>w'. yielding_request_offered_load hw f A Fr q n ex (int idx) w = Some (Done w' ()) \<and>
    harness_done n [0..<n] (lost + 1) w w'"
proof -
  let ?bs = "[Opaque, Opaque]" and ?cs = "[Opaque, Opaque] @ replicate n Opaque" and ?comps = "Suc (nxt w)"
  let ?exec = "\<lambda>arr. execute_yielding_requests_closed_system_with_sampling hw (int q) (int n)
    (replicate (Suc (n div q)) None) (snd arr) (no_xfers (int n)) (replicate n f) ex (int idx)"
  have ex: "ex < nxt w" using assms(2,7) by (auto simp: fresh_kinds not_less [symmetric])
  have run: "\<exists>w8. ?exec arr (put_blocks w' ?cs) = Some (Done w8 ()) \<and>
      served (shape (put_blocks w' ?cs)) n 0 [0..<n] (put_blocks w' ?cs) w8"
    if "rigged w ?bs F G w' ?cs" "serves (shape (put_blocks w' ?cs)) (snd arr)"
      "ready_world (shape (put_blocks w' ?cs)) n 0 (put_blocks w' ?cs)" for arr w' F G
  proof -
    have "blocks (shape (put_blocks w' ?cs)) ex = Some (KWords len)" using that(1) ex assms(7) by (simp add: rigged_def)
    from yielding_offloads.yielding_with_sampling [OF serve [OF that(2)] refl that(3) assms(6) _ _ this assms(8)]
    show ?thesis by (auto simp: no_xfers_def served_all)
  qed
  have "\<exists>arr w' w3. alloc (put_blocks (prepared_world n w) ?bs) = Some (arr, w') \<and> after_run (?exec arr (put_blocks w' ?cs))
      (teardown (freed_suffix n 2 [0] (nxt w')) ?comps (free_args arr) [nxt w]) = Some (Done w3 ()) \<and>
    harness_done n [0..<n] (0 + lost + 1) w w3"
  proof (rule run_harness [where exec = ?exec and x = "()" and xs = "freed_suffix n 2 [0]" and bs = ?bs and cs = ?cs])
    show "card ({a..<a + length ?cs} - set (freed_suffix n 2 [0] a)) = 1" for a
      using freed_suffix_ok(3) [of "[0]" 2 ?cs n a] by simp
  qed (use assms(1,2) run freed_suffix_ok [of "[0]" 2 ?cs n] in \<open>auto simp: atLeastLessThanSuc\<close>)
  then show ?thesis
    using assms(3,4,6) by (auto simp: yielding_request_offered_load_def teardown_def [abs_def] harness_simps numeral_2_eq_2 simp del: upt_Suc)
qed

text \<open>When the samples of this call do not fit into the rest of their array, the harness writes behind it.\<close>

lemma yielding_offered_load_overflow:
  assumes "pre w" and "fresh w" and "A n = alloc"
    and serve: "\<And>K args. serves K args \<Longrightarrow> yielding_offloads hw K n is_completed (replicate n f) args"
    and "0 < q" and "kinds w ex = Some (KWords len)" and "idx \<le> len" and "len < idx + n div q"
  shows "yielding_request_offered_load hw f A Fr q n ex (int idx) w = None"
proof -
  let ?bs = "[Opaque, Opaque]" and ?cs = "[Opaque, Opaque] @ replicate n Opaque"
  have ex: "ex < nxt w" using assms(2,6) by (auto simp: fresh_kinds not_less [symmetric])
  obtain arr w' F G where r: "alloc (put_blocks (prepared_world n w) ?bs) = Some (arr, w')"
    "ready_world (shape (put_blocks w' ?cs)) n 0 (put_blocks w' ?cs)" "rigged w ?bs F G w' ?cs"
    "serves (shape (put_blocks w' ?cs)) (snd arr)" using rig_up [OF assms(1,2)] by blast
  have "blocks (shape (put_blocks w' ?cs)) ex = Some (KWords len)" using r(3) ex assms(6) by (simp add: rigged_def)
  from yielding_offloads.yielding_sampling_overflow [OF serve [OF r(4)] refl r(2) assms(5) _ _ this assms(7,8)]
  have "execute_yielding_requests_closed_system_with_sampling hw (int q) (int n) (None # replicate (n div q) None)
    (snd arr) (no_xfers (int n)) (replicate n f) ex (int idx) (put_blocks w' ?cs) = None" by (simp add: no_xfers_def)
  then show ?thesis using r(1) assms(3,5)
    by (simp add: yielding_request_offered_load_def after_run_def harness_simps del: upt_Suc)
qed

text \<open>A harness whose executor is undefined is undefined.\<close>

lemma blocking_offered_load_undefined:
  assumes "pre w" and "fresh w" and "A n = alloc" and "0 < q"
    and exec: "\<And>K args w1. serves K args \<Longrightarrow> ready_world K n 0 w1 \<Longrightarrow> (\<forall>p < nxt w. blocks K p = kinds w p) \<Longrightarrow>
      execute_blocking_requests_closed_system_with_sampling hw (int n) (replicate (Suc (n div q)) None) args
        (replicate n f) ex idx w1 = None"
  shows "blocking_request_offered_load hw f A Fr q n ex idx w = None"
proof -
  let ?bs = "[Opaque, Opaque]" and ?cs = "[Opaque, Opaque] @ replicate n Opaque"
  obtain arr w' F G where r: "alloc (put_blocks (prepared_world n w) ?bs) = Some (arr, w')"
    "ready_world (shape (put_blocks w' ?cs)) n 0 (put_blocks w' ?cs)" "rigged w ?bs F G w' ?cs"
    "serves (shape (put_blocks w' ?cs)) (snd arr)" using rig_up [OF assms(1,2)] by blast
  have "\<forall>p < nxt w. blocks (shape (put_blocks w' ?cs)) p = kinds w p" using r(3) by (simp add: rigged_def)
  from exec [OF r(4,2) this] show ?thesis using r(1) assms(3,4)
    by (simp add: blocking_request_offered_load_def after_run_def harness_simps del: upt_Suc)
qed

lemma blocking_offered_load:
  assumes "pre w" and "fresh w" and "A n = alloc" and "Fr n = free_args"
    and serve: "\<And>K args. serves K args \<Longrightarrow> (\<forall>p < nxt w. blocks K p = kinds w p) \<Longrightarrow> blocking_offloads K n (replicate n f) args (\<lambda>i. [i])"
    and "0 < q" and "q \<le> n" and "kinds w ex = Some (KWords len)" and "idx < len"
  shows "\<exists>w'. blocking_request_offered_load hw f A Fr q n ex (int idx) w = Some (Done w' ()) \<and>
    harness_done n [0..<n] (lost + 1) w w'"
proof -
  let ?bs = "[Opaque, Opaque]" and ?cs = "[Opaque, Opaque] @ replicate n Opaque" and ?comps = "Suc (nxt w)"
  let ?exec = "\<lambda>arr. execute_blocking_requests_closed_system_with_sampling hw (int n)
    (replicate (Suc (n div q)) None) (snd arr) (replicate n f) ex (int idx)"
  have ex: "ex < nxt w" using assms(2,8) by (auto simp: fresh_kinds not_less [symmetric])
  have q: "1 < length (replicate (Suc (n div q)) (None :: u64 option))" using assms(6,7) by (simp add: div_greater_zero_iff)
  have run: "\<exists>w8. ?exec arr (put_blocks w' ?cs) = Some (Done w8 ()) \<and>
      served (shape (put_blocks w' ?cs)) n 0 [0..<n] (put_blocks w' ?cs) w8"
    if "rigged w ?bs F G w' ?cs" "serves (shape (put_blocks w' ?cs)) (snd arr)"
      "ready_world (shape (put_blocks w' ?cs)) n 0 (put_blocks w' ?cs)" for arr w' F G
  proof -
    have e: "blocks (shape (put_blocks w' ?cs)) ex = Some (KWords len)" using that(1) ex assms(8) by (simp add: rigged_def)
    have "\<forall>p < nxt w. blocks (shape (put_blocks w' ?cs)) p = kinds w p" using that(1) by (simp add: rigged_def)
    from blocking_offloads.with_sampling [OF serve [OF that(2) this] ready_callable [OF that(3)] q e assms(9)]
    show ?thesis by (simp add: concat_map_singleton)
  qed
  have "\<exists>arr w' w3. alloc (put_blocks (prepared_world n w) ?bs) = Some (arr, w') \<and> after_run (?exec arr (put_blocks w' ?cs))
      (teardown (freed_suffix n 2 [0] (nxt w')) ?comps (free_args arr) [nxt w]) = Some (Done w3 ()) \<and>
    harness_done n [0..<n] (0 + lost + 1) w w3"
  proof (rule run_harness [where exec = ?exec and x = "()" and xs = "freed_suffix n 2 [0]" and bs = ?bs and cs = ?cs])
    show "card ({a..<a + length ?cs} - set (freed_suffix n 2 [0] a)) = 1" for a
      using freed_suffix_ok(3) [of "[0]" 2 ?cs n a] by simp
  qed (use assms(1,2) run freed_suffix_ok [of "[0]" 2 ?cs n] in \<open>auto simp: atLeastLessThanSuc\<close>)
  then show ?thesis
    using assms(3,4,6) by (auto simp: blocking_request_offered_load_def teardown_def [abs_def] harness_simps
        numeral_2_eq_2 simp del: upt_Suc)
qed

end

section \<open>Runs with time stamps\<close>

text \<open>The prefix with the time stamp arrays, and the arrays for the results.\<close>

definition timed_prefix :: "env \<Rightarrow> nat \<Rightarrow> ptr \<Rightarrow> block list" where
  "timed_prefix hw n a = [Opaque, fresh_words hw n (a + 1), fresh_words hw n (a + 2), fresh_words hw n (a + 3),
    fresh_words hw n (a + 4), Opaque]"

definition timed_stamps :: "ptr \<Rightarrow> stamps" where
  "timed_stamps a = Some (a + 1, a + 2, a + 3, a + 4)"

definition result_arrays :: "(ptr \<Rightarrow> kind option) \<Rightarrow> ptr \<Rightarrow> ptr \<Rightarrow> ptr \<Rightarrow> nat \<Rightarrow> bool" where
  "result_arrays K off wt hash idx \<longleftrightarrow> (\<forall>p \<in> {off, wt, hash}. \<exists>m > idx. K p = Some (KWords m))"

lemma fresh_words_kind [simp]: "kind_of (fresh_words hw n p) = KWords n"
  by (simp add: fresh_words_def)

lemma all_less_6: "(\<forall>i < (6 :: nat). P i) \<longleftrightarrow> P 0 \<and> P 1 \<and> P 2 \<and> P 3 \<and> P 4 \<and> P 5"
  by (simp add: eval_nat_numeral All_less_Suc conj_ac)

lemma length_timed_prefix [simp]: "length (timed_prefix hw n a) = 6"
  by (simp add: timed_prefix_def)

lemma rigged_timed:
  assumes "rigged w (timed_prefix hw n (nxt w)) F G w' cs" and "result_arrays (kinds w) off wt hash idx" and "fresh w"
    and "has_ts (timed_stamps (nxt w)) a"
  shows "two_phase_arrays (shape (put_blocks w' cs)) n a off wt hash idx"
    and "\<forall>i \<in> {1, 2, 3, 4}. kinds (put_blocks w' cs) (nxt w + i) = Some (KWords n)"
proof -
  have "\<forall>i < 6. kinds (put_blocks w' cs) (nxt w + i) = Some (kind_of (timed_prefix hw n (nxt w) ! i))"
    using assms(1) by (simp add: rigged_def)
  then show k: "\<forall>i \<in> {1, 2, 3, 4}. kinds (put_blocks w' cs) (nxt w + i) = Some (KWords n)"
    by (simp add: all_less_6 timed_prefix_def)
  have "kinds (put_blocks w' cs) p = kinds w p" if "kinds w p \<noteq> None" for p
    using that assms(1,3) by (metis fresh_kinds not_less rigged_def)
  then have "\<forall>p \<in> {off, wt, hash}. \<exists>m > idx. kinds (put_blocks w' cs) p = Some (KWords m)"
    using assms(2) by (auto simp: result_arrays_def)
  moreover have "a_ts0 a = nxt w + 1" "a_ts1 a = nxt w + 2" "a_ts2 a = nxt w + 3" "a_ts3 a = nxt w + 4"
    using assms(4) by (simp_all add: has_ts_def timed_stamps_def)
  ultimately show "two_phase_arrays (shape (put_blocks w' cs)) n a off wt hash idx"
    using k by (simp add: two_phase_arrays_def)
qed

context offload_supply
begin

text \<open>The part of the timed harnesses that differs in the executor and in what is freed.\<close>

lemma run_timed:
  assumes "pre w" and "fresh w" and "result_arrays (kinds w) off wt hash idx"
    and serve: "\<And>K args. serves K args \<Longrightarrow> \<forall>i \<in> {1, 2, 3, 4}. blocks K (nxt w + i) = Some (KWords n) \<Longrightarrow>
      has_ts (timed_stamps (nxt w)) (hd args) \<and> C K args"
    and exec: "\<And>K args w1. C K args \<Longrightarrow> ready_world K n 0 w1 \<Longrightarrow> two_phase_arrays K n (hd args) off wt hash idx \<Longrightarrow>
      \<exists>w8. exec args w1 = Some (Done w8 ()) \<and> served K n 0 [0..<n] w1 w8"
    and "length cs = j + m" and "distinct js" and "\<forall>i \<in> set js. i < j"
    and "distinct ys" and "set ys \<subseteq> {nxt w..<nxt w + 5}"
  shows "\<exists>arr w' w3. alloc (put_blocks (prepared_world n w) (timed_prefix hw n (nxt w))) = Some (arr, w') \<and>
    after_run (exec (snd arr) (put_blocks w' cs)) (teardown (freed_suffix m j js (nxt w')) (nxt w + 5) (free_args arr) ys) =
      Some (Done w3 ()) \<and> harness_done n [0..<n] (5 - length ys + lost + (j - length js)) w w3"
proof (rule run_harness [where exec = "\<lambda>arr. exec (snd arr)" and x = "()" and xs = "freed_suffix m j js"
      and bs = "timed_prefix hw n (nxt w)" and cs = cs])
  fix arr w' F G
  assume r: "rigged w (timed_prefix hw n (nxt w)) F G w' cs" "serves (shape (put_blocks w' cs)) (snd arr)"
    "ready_world (shape (put_blocks w' cs)) n 0 (put_blocks w' cs)"
  have "\<forall>i < 6. kinds (put_blocks w' cs) (nxt w + i) = Some (kind_of (timed_prefix hw n (nxt w) ! i))"
    using r(1) by (simp add: rigged_def)
  then have "\<forall>i \<in> {1, 2, 3, 4}. blocks (shape (put_blocks w' cs)) (nxt w + i) = Some (KWords n)"
    by (simp add: all_less_6 timed_prefix_def)
  from serve [OF r(2) this] have s: "has_ts (timed_stamps (nxt w)) (hd (snd arr))" "C (shape (put_blocks w' cs)) (snd arr)"
    by auto
  show "\<exists>w8. exec (snd arr) (put_blocks w' cs) = Some (Done w8 ()) \<and>
      served (shape (put_blocks w' cs)) n 0 [0..<n] (put_blocks w' cs) w8"
    by (rule exec [OF s(2) r(3) rigged_timed(1) [OF r(1) assms(3,2) s(1)]])
next
  have "{nxt w..<nxt w + 6} - set ((nxt w + 5) # ys) = {nxt w..<nxt w + 5} - set ys" by auto
  moreover have "card ({nxt w..<nxt w + 5} - set ys) = 5 - length ys"
    using assms(9,10) by (subst card_Diff_subset) (auto simp: distinct_card)
  ultimately show "card ({nxt w..<nxt w + length (timed_prefix hw n (nxt w))} - set ((nxt w + 5) # ys)) = 5 - length ys"
    by simp
qed (use assms freed_suffix_ok [OF assms(7,8,6)] in \<open>auto simp: timed_prefix_def\<close>)

lemma yielding_breakdown:
  assumes "pre w" and "fresh w" and "result_arrays (kinds w) off wt hash idx" and "0 < n"
    and "A n (nxt w + 1) (nxt w + 2) (nxt w + 3) (nxt w + 4) = alloc" and "Fr n = free_args"
    and serve: "\<And>K args. serves K args \<Longrightarrow> \<forall>i \<in> {1, 2, 3, 4}. blocks K (nxt w + i) = Some (KWords n) \<Longrightarrow>
      has_ts (timed_stamps (nxt w)) (hd args) \<and> yielding_offloads hw K n is_completed (replicate n f) args"
  shows "\<exists>w'. yielding_request_breakdown hw f A Fr n off wt hash (int idx) w = Some (Done w' ()) \<and>
    harness_done n [0..<n] (lost + 5) w w'"
proof -
  let ?cs = "[Opaque, Opaque] @ replicate n Opaque"
  let ?exec = "\<lambda>args. execute_yielding_requests_closed_system_request_breakdown hw (int n) args (no_xfers (int n))
    (replicate n f) off wt hash (int idx)"
  have "\<exists>w8. ?exec args w1 = Some (Done w8 ()) \<and> served K n 0 [0..<n] w1 w8"
    if "yielding_offloads hw K n is_completed (replicate n f) args" "ready_world K n 0 w1"
      "two_phase_arrays K n (hd args) off wt hash idx" for K args w1
    using yielding_offloads.yielding_breakdown [OF that(1) refl that(2) _ that(3), of "no_xfers (int n)"]
    by (simp add: no_xfers_def served_all)
  note run = this
  have "\<exists>arr w' w3. alloc (put_blocks (prepared_world n w) (timed_prefix hw n (nxt w))) = Some (arr, w') \<and>
    after_run (?exec (snd arr) (put_blocks w' ?cs))
      (teardown (freed_suffix n 2 [0] (nxt w')) (nxt w + 5) (free_args arr) [nxt w]) = Some (Done w3 ()) \<and>
    harness_done n [0..<n] (5 - length [nxt w] + lost + (2 - length [0 :: nat])) w w3"
    by (rule run_timed [OF assms(1,2,3,7) run]) simp_all
  then obtain arr w' w3 where r: "alloc (put_blocks (prepared_world n w) (timed_prefix hw n (nxt w))) = Some (arr, w')"
    "after_run (?exec (snd arr) (put_blocks w' ?cs))
      (teardown (freed_suffix n 2 [0] (nxt w')) (nxt w + 5) (free_args arr) [nxt w]) = Some (Done w3 ())"
    "harness_done n [0..<n] (5 - length [nxt w] + lost + (2 - length [0 :: nat])) w w3" by blast
  have "yielding_request_breakdown hw f A Fr n off wt hash (int idx) w = Some (Done w3 ())"
    using r(1,2) assms(4,5,6)
    by (simp add: yielding_request_breakdown_def teardown_def [abs_def] harness_simps timed_prefix_def eval_nat_numeral
        del: upt_Suc)
  with r(3) show ?thesis by (simp add: add.commute)
qed


lemma best_case_breakdown:
  assumes "pre w" and "fresh w" and "result_arrays (kinds w) off wt hash idx" and "0 < n"
    and "A n (nxt w + 1) (nxt w + 2) (nxt w + 3) (nxt w + 4) = alloc" and "Fr n = free_args"
    and serve: "\<And>K args. serves K args \<Longrightarrow> \<forall>i \<in> {1, 2, 3, 4}. blocks K (nxt w + i) = Some (KWords n) \<Longrightarrow>
      has_ts (timed_stamps (nxt w)) (hd args) \<and> yielding_offloads hw K n is_completed (replicate n f) args"
  shows "\<exists>w'. yielding_best_case_request_breakdown hw f A Fr n off wt hash (int idx) w = Some (Done w' ()) \<and>
    harness_done n [0..<n] (lost + 5) w w'"
proof -
  let ?cs = "[Opaque, Opaque] @ replicate n Opaque"
  let ?exec = "\<lambda>args. execute_yielding_requests_best_case hw (int n) args (no_xfers (int n))
    (replicate n f) off wt hash (int idx)"
  have "\<exists>w8. ?exec args w1 = Some (Done w8 ()) \<and> served K n 0 [0..<n] w1 w8"
    if "yielding_offloads hw K n is_completed (replicate n f) args" "ready_world K n 0 w1"
      "two_phase_arrays K n (hd args) off wt hash idx" for K args w1
    using yielding_offloads.best_case [OF that(1) refl that(2) _ that(3), of "no_xfers (int n)"]
    by (simp add: no_xfers_def served_all)
  note run = this
  have "\<exists>arr w' w3. alloc (put_blocks (prepared_world n w) (timed_prefix hw n (nxt w))) = Some (arr, w') \<and>
    after_run (?exec (snd arr) (put_blocks w' ?cs))
      (teardown (freed_suffix n 2 [0] (nxt w')) (nxt w + 5) (free_args arr) [nxt w]) = Some (Done w3 ()) \<and>
    harness_done n [0..<n] (5 - length [nxt w] + lost + (2 - length [0 :: nat])) w w3"
    by (rule run_timed [OF assms(1,2,3,7) run]) simp_all
  then obtain arr w' w3 where r: "alloc (put_blocks (prepared_world n w) (timed_prefix hw n (nxt w))) = Some (arr, w')"
    "after_run (?exec (snd arr) (put_blocks w' ?cs))
      (teardown (freed_suffix n 2 [0] (nxt w')) (nxt w + 5) (free_args arr) [nxt w]) = Some (Done w3 ())"
    "harness_done n [0..<n] (5 - length [nxt w] + lost + (2 - length [0 :: nat])) w w3" by blast
  have "yielding_best_case_request_breakdown hw f A Fr n off wt hash (int idx) w = Some (Done w3 ())"
    using r(1,2) assms(4,5,6)
    by (simp add: yielding_best_case_request_breakdown_def teardown_def [abs_def] harness_simps timed_prefix_def eval_nat_numeral
        del: upt_Suc)
  with r(3) show ?thesis by (simp add: add.commute)
qed

lemma blocking_breakdown:
  assumes "pre w" and "fresh w" and "result_arrays (kinds w) off wt hash idx"
    and "A n (nxt w + 1) (nxt w + 2) (nxt w + 3) (nxt w + 4) = alloc" and "Fr n = free_args"
    and serve: "\<And>K args. serves K args \<Longrightarrow> \<forall>i \<in> {1, 2, 3, 4}. blocks K (nxt w + i) = Some (KWords n) \<Longrightarrow>
      has_ts (timed_stamps (nxt w)) (hd args) \<and> blocking_offloads K n (replicate n f) args (\<lambda>i. [i])"
  shows "\<exists>w'. blocking_ax_request_breakdown hw f A Fr n off wt hash (int idx) w = Some (Done w' ()) \<and>
    harness_done n [0..<n] (lost + 1) w w'"
proof -
  let ?cs = "[Opaque] @ replicate n Opaque"
  let ?exec = "\<lambda>args. execute_blocking_requests_closed_system_request_breakdown hw (int n) args (replicate n f)
    off wt hash (int idx)"
  have "\<exists>w8. ?exec args w1 = Some (Done w8 ()) \<and> served K n 0 [0..<n] w1 w8"
    if "blocking_offloads K n (replicate n f) args (\<lambda>i. [i])" "ready_world K n 0 w1"
      "two_phase_arrays K n (hd args) off wt hash idx" for K args w1
    using blocking_offloads.breakdown [OF that(1) ready_callable [OF that(2)] that(3)] by (simp add: concat_map_singleton)
  note run = this
  have "\<exists>arr w' w3. alloc (put_blocks (prepared_world n w) (timed_prefix hw n (nxt w))) = Some (arr, w') \<and>
    after_run (?exec (snd arr) (put_blocks w' ?cs))
      (teardown (freed_suffix n 1 [] (nxt w')) (nxt w + 5) (free_args arr) [nxt w + 1, nxt w + 2, nxt w + 3, nxt w + 4, nxt w]) = Some (Done w3 ()) \<and>
    harness_done n [0..<n] (5 - length [nxt w + 1, nxt w + 2, nxt w + 3, nxt w + 4, nxt w] + lost + (1 - length ([] :: nat list))) w w3"
    by (rule run_timed [OF assms(1,2,3,6) run]) simp_all
  then obtain arr w' w3 where r: "alloc (put_blocks (prepared_world n w) (timed_prefix hw n (nxt w))) = Some (arr, w')"
    "after_run (?exec (snd arr) (put_blocks w' ?cs))
      (teardown (freed_suffix n 1 [] (nxt w')) (nxt w + 5) (free_args arr) [nxt w + 1, nxt w + 2, nxt w + 3, nxt w + 4, nxt w]) = Some (Done w3 ())"
    "harness_done n [0..<n] (5 - length [nxt w + 1, nxt w + 2, nxt w + 3, nxt w + 4, nxt w] + lost + (1 - length ([] :: nat list))) w w3" by blast
  have "blocking_ax_request_breakdown hw f A Fr n off wt hash (int idx) w = Some (Done w3 ())"
    using r(1,2) assms(4,5)
    by (simp add: blocking_ax_request_breakdown_def teardown_def [abs_def] harness_simps timed_prefix_def eval_nat_numeral
        del: upt_Suc)
  with r(3) show ?thesis by (simp add: add.commute)
qed

end

end
