(* ===== verification/Harness_Clients.thy ===== *)
theory Harness_Clients
  imports Harness_Runs
begin

text \<open>
  The request files as clients of the harnesses: the interpretations of \<open>offload_supply\<close> on their
  allocators, and the properties of whole harness calls.
\<close>

section \<open>What an array of structs loses\<close>

context allocator
begin

lemma array_lost_bounds:
  assumes "array_good n arr F G K" and "\<And>i a F G. good i a F G K \<Longrightarrow> finite F \<and> l \<le> card (F - G) \<and> card (F - G) \<le> u"
  shows "n * l \<le> card (F - G)" and "card (F - G) \<le> n * u"
proof -
  from assms(1) obtain Fs Gs where g: "all_good [0..<n] (snd arr) Fs Gs K" "fst arr \<notin> \<Union>(set Fs)"
    "F = insert (fst arr) (\<Union>(set Fs))" "G = insert (fst arr) (\<Union>(set Gs))" unfolding array_good_def by blast
  have len: "length Fs = n" "length Gs = n" and gi: "\<And>i. i < n \<Longrightarrow> good i (snd arr ! i) (Fs ! i) (Gs ! i) K"
    and d: "\<And>i j. i < j \<Longrightarrow> j < n \<Longrightarrow> Fs ! i \<inter> Fs ! j = {}" using g(1) by (simp_all add: all_good_def)
  have dis: "Fs ! i \<inter> Fs ! j = {}" if "i < n" "j < n" "i \<noteq> j" for i j
    using d [of i j] d [of j i] that by (cases "i < j") (auto simp: Int_commute)
  have sub: "Gs ! i \<subseteq> Fs ! i" if "i < n" for i using freed_foot [OF gi [OF that]] .
  have Un: "\<Union>(set Fs) = (\<Union>i<n. Fs ! i)" "\<Union>(set Gs) = (\<Union>i<n. Gs ! i)"
    using len by (auto simp: set_conv_nth)
  have "F - G = (\<Union>i<n. Fs ! i) - (\<Union>i<n. Gs ! i)" using g(2-4) Un by auto
  also have "\<dots> = (\<Union>i<n. Fs ! i - Gs ! i)"
  proof (intro equalityI subsetI)
    fix p assume "p \<in> (\<Union>i<n. Fs ! i - Gs ! i)"
    then obtain i where i: "i < n" "p \<in> Fs ! i" "p \<notin> Gs ! i" by auto
    have "p \<notin> Gs ! j" if "j < n" for j using i dis [OF i(1) that] sub [OF that] by (cases "i = j") auto
    with i show "p \<in> (\<Union>i<n. Fs ! i) - (\<Union>i<n. Gs ! i)" by auto
  qed auto
  also have "card \<dots> = (\<Sum>i<n. card (Fs ! i - Gs ! i))"
  proof (rule card_UN_disjoint)
    show "\<forall>i\<in>{..<n}. finite (Fs ! i - Gs ! i)" using assms(2) [OF gi] by auto
    show "\<forall>i\<in>{..<n}. \<forall>j\<in>{..<n}. i \<noteq> j \<longrightarrow> (Fs ! i - Gs ! i) \<inter> (Fs ! j - Gs ! j) = {}"
      using dis by blast
  qed simp
  finally have c: "card (F - G) = (\<Sum>i<n. card (Fs ! i - Gs ! i))" .
  show "n * l \<le> card (F - G)" unfolding c using assms(2) [OF gi] sum_mono [of "{..<n}" "\<lambda>_. l" "\<lambda>i. card (Fs ! i - Gs ! i)"] by simp
  show "card (F - G) \<le> n * u" unfolding c using assms(2) [OF gi] sum_mono [of "{..<n}" "\<lambda>i. card (Fs ! i - Gs ! i)" "\<lambda>_. u"] by simp
qed

lemma array_lost:
  assumes "array_good n arr F G K" and "\<And>i a F G. good i a F G K \<Longrightarrow> finite F \<and> card (F - G) = l"
  shows "card (F - G) = n * l"
  using array_lost_bounds [OF assms(1), where l = l and u = l] assms(2) by (simp add: le_antisym)

end

text \<open>Such an array supplies a harness.\<close>

lemma array_supplies:
  assumes A: "allocator alloc free_one good ok pre" and "\<forall>i < n. ok i" and "m = n * l"
    and l: "\<And>K i a F G. good i a F G K \<Longrightarrow> finite F \<and> card (F - G) = l"
    and serves: "\<And>K args w. length args = n \<Longrightarrow> \<forall>i < n. \<exists>F G. good i (args ! i) F G (blocks K) \<Longrightarrow> pre w \<Longrightarrow>
      indir_at K = g_indir_arr w \<Longrightarrow> item_at K = g_item_buf w \<Longrightarrow> serves K args"
    and p: "\<And>w w'. pre w \<Longrightarrow> g_indir_arr w' = g_indir_arr w \<Longrightarrow> g_item_buf w' = g_item_buf w \<Longrightarrow> pre w'"
  shows "struct_supply (alloc_array alloc n) (free_array free_one n) pre b m serves"
proof
  fix w assume w: "pre w" "fresh w"
  obtain arr w' F G where a: "alloc_array alloc n w = Some (arr, w')" "grows F w w'" "calm w w'" "pre w'"
    "allocator.array_good good n arr F G (kinds w')" using allocator.array_alloc [OF A assms(2) w] by blast
  have "card (F - G) = n * l" by (rule allocator.array_lost [OF A a(5) l])
  moreover have "serves K (snd arr) \<and> frees_in b K G (free_array free_one n arr)"
    if "\<forall>p \<in> F. blocks K p = kinds w' p" "indir_at K = g_indir_arr w'" "item_at K = g_item_buf w'" for K
  proof -
    have g: "allocator.array_good good n arr F G (blocks K)" by (rule allocator.array_good_local [OF A a(5) that(1)])
    from allocator.array_nth [OF A g] have "serves K (snd arr)" by (intro serves [OF _ _ a(4) that(2,3)]) blast+
    with frees_inI [OF allocator.array_releases [OF A g]] show ?thesis by blast
  qed
  ultimately show "\<exists>arr w' F G. alloc_array alloc n w = Some (arr, w') \<and> grows F w w' \<and>
      crs w' = crs w \<and> requests_completed w' = requests_completed w \<and> obs w' = obs w \<and> G \<subseteq> F \<and> card (F - G) = m \<and>
      (\<forall>K. (\<forall>p \<in> F. blocks K p = kinds w' p) \<longrightarrow> indir_at K = g_indir_arr w' \<longrightarrow> item_at K = g_item_buf w' \<longrightarrow>
        serves K (snd arr) \<and> frees_in b K G (free_array free_one n arr))"
    using a allocator.array_freed_foot [OF A a(5)] assms(3) unfolding calm_def by blast
qed (rule p)

lemma array_supply:
  assumes "allocator alloc free_one good ok pre" and "\<forall>i < n. ok i" and "m = n * l"
    and "\<And>K i a F G. good i a F G K \<Longrightarrow> finite F \<and> card (F - G) = l"
    and "\<And>K args w. length args = n \<Longrightarrow> \<forall>i < n. \<exists>F G. good i (args ! i) F G (blocks K) \<Longrightarrow> pre w \<Longrightarrow>
      indir_at K = g_indir_arr w \<Longrightarrow> item_at K = g_item_buf w \<Longrightarrow> serves K args"
    and "\<And>w w'. pre w \<Longrightarrow> g_indir_arr w' = g_indir_arr w \<Longrightarrow> g_item_buf w' = g_item_buf w \<Longrightarrow> pre w'"
  shows "offload_supply (alloc_array alloc n) (free_array free_one n) pre b m serves"
  unfolding offload_supply_def by (rule array_supplies [OF assms])

section \<open>Decompress and hash\<close>

definition hash_structs :: "env \<Rightarrow> stamps \<Rightarrow> nat \<Rightarrow> shape \<Rightarrow> offload_args list \<Rightarrow> bool" where
  "hash_structs hw ts n K args \<longleftrightarrow> length args = n \<and> (\<forall>i < n. slot_args n i (args ! i) \<and> has_ts ts (args ! i) \<and>
    a_dst_size (args ! i) = length (g_query hw) \<and> blocks K (a_desc (args ! i)) = Some KDesc \<and>
    blocks K (a_dst_payload (args ! i)) = Some (KBytes (iaa_compress_max_dest_size hw)))"

lemma request_good_lost:
  assumes "request_good P ts ks kd leak i a F G K"
  shows "finite F \<and> card (F - G) = (if leak then 1 else 0)"
proof -
  have "F - G = (if leak then {a_desc a} else {})" using assms by (auto simp: request_good_def)
  then show ?thesis using assms by (simp add: request_good_def)
qed

interpretation hash_supply: offload_supply "alloc_array (alloc_decomp_and_hash_arg hw ts) n" "free_array free_payload_arg n"
    "\<lambda>w. deflate_ok hw" True 0 "hash_structs hw ts n" for hw ts n
proof (rule array_supply [OF hash_args.allocator_axioms])
  show "hash_structs hw ts n K args" if "length args = n" "\<forall>i < n. \<exists>F G. request_good (hash_arg_ok hw) ts
      (KBytes (iaa_compress_max_dest_size hw)) (\<lambda>k. k = KBytes (iaa_compress_max_dest_size hw)) False i (args ! i) F G (blocks K)"
    for K args
    using that by (fastforce simp: hash_structs_def request_good_def slot_args_def hash_arg_ok_def)
qed (auto dest: request_good_lost)

lemma hash_structs_run:
  assumes "hash_structs hw ts n K args" and "0 < n" and "n < 2 ^ 31" and "length (g_query hw) \<le> iaa_compress_max_dest_size hw"
  shows "hash_run_args K n args" and "has_ts ts (hd args)"
  using assms by (auto simp: hash_structs_def hash_run_args_def buffer_of_def hd_conv_nth)

lemma hash_structs_timed:
  assumes "hash_structs hw (timed_stamps a) n K args" and "\<forall>i \<in> {1, 2, 3, 4}. blocks K (a + i) = Some (KWords n)"
  shows "timed_run_args K n args"
  using assms by (simp add: hash_structs_def timed_run_args_def timed_args_def has_ts_def timed_stamps_def)

text \<open>What the properties of the hash harnesses assume of the machine.\<close>

definition hash_machine :: "env \<Rightarrow> bool" where
  "hash_machine hw \<longleftrightarrow> env_ok hw \<and> (\<forall>d. verdict hw d = COMP_STATUS_COMPLETED) \<and> deflate_ok hw \<and>
    length (g_query hw) \<le> iaa_compress_max_dest_size hw"

lemma hash_offered_load_ok:
  assumes "hash_machine hw" and "fresh w" and "0 < n" and "n < 2 ^ 31" and "0 < q"
    and "kinds w ex = Some (KWords len)" and "idx + n div q \<le> len"
  shows "\<exists>w'. yielding_request_offered_load hw (yielding_decompress_and_hash_request hw)
      (alloc_decomp_and_hash_offload_args hw) free_decomp_and_hash_offload_args q n ex (int idx) w = Some (Done w' ()) \<and>
    harness_done n [0..<n] 1 w w'"
proof -
  have hw: "env_ok hw" "\<forall>d. verdict hw d = COMP_STATUS_COMPLETED" "deflate_ok hw"
    "length (g_query hw) \<le> iaa_compress_max_dest_size hw" using assms(1) by (simp_all add: hash_machine_def)
  have serve: "yielding_offloads hw K n is_completed (replicate n (yielding_decompress_and_hash_request hw)) args"
    if "hash_structs hw None n K args" for K args
    using hw(1,2) hash_structs_run(1) [OF that assms(3,4) hw(4)] by (intro yielding_hash_contract test_ok_completed) auto
  from hash_supply.yielding_offered_load [OF hw(3) assms(2) _ _ serve assms(5-7)] show ?thesis
    by (simp add: alloc_decomp_and_hash_offload_args_def free_decomp_and_hash_offload_args_def)
qed

lemma hash_offered_load_overflow:
  assumes "hash_machine hw" and "fresh w" and "0 < n" and "n < 2 ^ 31" and "0 < q"
    and "kinds w ex = Some (KWords len)" and "idx \<le> len" and "len < idx + n div q"
  shows "yielding_request_offered_load hw (yielding_decompress_and_hash_request hw)
      (alloc_decomp_and_hash_offload_args hw) free_decomp_and_hash_offload_args q n ex (int idx) w = None"
proof -
  have hw: "env_ok hw" "\<forall>d. verdict hw d = COMP_STATUS_COMPLETED" "deflate_ok hw"
    "length (g_query hw) \<le> iaa_compress_max_dest_size hw" using assms(1) by (simp_all add: hash_machine_def)
  have serve: "yielding_offloads hw K n is_completed (replicate n (yielding_decompress_and_hash_request hw)) args"
    if "hash_structs hw None n K args" for K args
    using hw(1,2) hash_structs_run(1) [OF that assms(3,4) hw(4)] by (intro yielding_hash_contract test_ok_completed) auto
  from hash_supply.yielding_offered_load_overflow [OF hw(3) assms(2) _ serve assms(5-8)] show ?thesis
    by (simp add: alloc_decomp_and_hash_offload_args_def)
qed

lemma sample_hash_machine: "hash_machine sample_env"
proof -
  have "deflate_ok sample_env" by (auto simp: deflate_ok_def sample_env_def)
  moreover have "length (g_query sample_env) \<le> iaa_compress_max_dest_size sample_env" by (simp add: sample_env_def)
  ultimately show ?thesis using sample_env_ok sample_completed by (simp add: hash_machine_def)
qed

lemma sample_fresh: "fresh (sample_world n)"
  by (simp add: fresh_def sample_world_def sample_heap_def)

section \<open>Properties\<close>

text \<open>C10: A whole call of the offered load harness on decompress-and-hash requests, from a fresh heap:
  the requests are allocated, each is served once and in order, the samples are stored in bounds,
  everything the requests own is freed, and one block leaks: the array of contexts, which no
  harness frees.\<close>

theorem hash_offered_load_harness:
  assumes "hash_machine hw" and "fresh w" and "0 < n" and "n < 2 ^ 31" and "0 < q"
    and "kinds w ex = Some (KWords len)" and "idx + n div q \<le> len"
  shows "\<exists>w'. yielding_request_offered_load hw (yielding_decompress_and_hash_request hw)
      (alloc_decomp_and_hash_offload_args hw) free_decomp_and_hash_offload_args q n ex (int idx) w = Some (Done w' ()) \<and>
    harness_done n [0..<n] 1 w w'"
  by (rule hash_offered_load_ok [OF assms])

lemma hash_offered_load_harness_witness:
  "\<exists>w'. yielding_request_offered_load sample_env (yielding_decompress_and_hash_request sample_env)
      (alloc_decomp_and_hash_offload_args sample_env) free_decomp_and_hash_offload_args 2 3 6 0 (sample_world 3) =
      Some (Done w' ()) \<and> harness_done 3 [0..<3] 1 (sample_world 3) w'"
  using hash_offered_load_harness [OF sample_hash_machine sample_fresh, where n = 3 and q = 2 and ex = 6 and len = 2 and idx = 0]
  by (simp add: sample_kinds)

text \<open>A whole call of the breakdown harness on stamped decompress-and-hash requests: all requests are
  served in order, the averages are stored in bounds, and exactly five blocks leak: the array of
  contexts and the four arrays of time stamps.\<close>

theorem hash_breakdown_harness:
  assumes "hash_machine hw" and "fresh w" and "0 < n" and "n < 2 ^ 31" and "result_arrays (kinds w) off wt hash idx"
  shows "\<exists>w'. yielding_request_breakdown hw (yielding_decompress_and_hash_request_stamped hw)
      (alloc_decomp_and_hash_offload_args_stamped hw) free_decomp_and_hash_offload_args_stamped n off wt hash (int idx) w =
      Some (Done w' ()) \<and> harness_done n [0..<n] 5 w w'"
proof -
  have hw: "env_ok hw" "\<forall>d. verdict hw d = COMP_STATUS_COMPLETED" "deflate_ok hw"
    "length (g_query hw) \<le> iaa_compress_max_dest_size hw" using assms(1) by (simp_all add: hash_machine_def)
  have serve: "has_ts (timed_stamps (nxt w)) (hd args) \<and>
      yielding_offloads hw K n is_completed (replicate n (yielding_decompress_and_hash_request_stamped hw)) args"
    if "hash_structs hw (timed_stamps (nxt w)) n K args" "\<forall>i \<in> {1, 2, 3, 4}. blocks K (nxt w + i) = Some (KWords n)" for K args
    using hw(1,2) hash_structs_run [OF that(1) assms(3,4) hw(4)] hash_structs_timed [OF that]
    by (auto intro: yielding_hash_stamped_contract test_ok_completed)
  have "\<exists>w'. yielding_request_breakdown hw (yielding_decompress_and_hash_request_stamped hw)
      (alloc_decomp_and_hash_offload_args_stamped hw) free_decomp_and_hash_offload_args_stamped n off wt hash (int idx) w =
      Some (Done w' ()) \<and> harness_done n [0..<n] (0 + 5) w w'"
    by (rule hash_supply.yielding_breakdown [OF hw(3) assms(2,5,3) _ _ serve])
      (simp_all add: alloc_decomp_and_hash_offload_args_stamped_def free_decomp_and_hash_offload_args_stamped_def
        timed_stamps_def)
  then show ?thesis by simp
qed

lemma hash_breakdown_harness_witness:
  "\<exists>w'. yielding_request_breakdown sample_env (yielding_decompress_and_hash_request_stamped sample_env)
      (alloc_decomp_and_hash_offload_args_stamped sample_env) free_decomp_and_hash_offload_args_stamped 3 6 7 8 1
      (sample_world 3) = Some (Done w' ()) \<and> harness_done 3 [0..<3] 5 (sample_world 3) w'"
  using hash_breakdown_harness [OF sample_hash_machine sample_fresh, where n = 3 and off = 6 and wt = 7 and hash = 8 and idx = 1]
  by (simp add: result_arrays_def sample_kinds)

text \<open>The blocking breakdown harness frees its time stamps: only the array of contexts leaks.\<close>

theorem hash_blocking_breakdown_harness:
  assumes "hash_machine hw" and "fresh w" and "0 < n" and "n < 2 ^ 31" and "result_arrays (kinds w) off wt hash idx"
  shows "\<exists>w'. blocking_ax_request_breakdown hw (blocking_decompress_and_hash_request_stamped hw)
      (alloc_decomp_and_hash_offload_args_stamped hw) free_decomp_and_hash_offload_args_stamped n off wt hash (int idx) w =
      Some (Done w' ()) \<and> harness_done n [0..<n] 1 w w'"
proof -
  have hw: "env_ok hw" "\<forall>d. verdict hw d = COMP_STATUS_COMPLETED" "deflate_ok hw"
    "length (g_query hw) \<le> iaa_compress_max_dest_size hw" using assms(1) by (simp_all add: hash_machine_def)
  have serve: "has_ts (timed_stamps (nxt w)) (hd args) \<and>
      blocking_offloads K n (replicate n (blocking_decompress_and_hash_request_stamped hw)) args (\<lambda>i. [i])"
    if "hash_structs hw (timed_stamps (nxt w)) n K args" "\<forall>i \<in> {1, 2, 3, 4}. blocks K (nxt w + i) = Some (KWords n)" for K args
    using hw(1,2) hash_structs_run [OF that(1) assms(3,4) hw(4)] hash_structs_timed [OF that]
    by (auto intro: blocking_hash_stamped_contract [where hw = hw and complete = is_completed] test_ok_completed)
  have "\<exists>w'. blocking_ax_request_breakdown hw (blocking_decompress_and_hash_request_stamped hw)
      (alloc_decomp_and_hash_offload_args_stamped hw) free_decomp_and_hash_offload_args_stamped n off wt hash (int idx) w =
      Some (Done w' ()) \<and> harness_done n [0..<n] (0 + 1) w w'"
    by (rule hash_supply.blocking_breakdown [OF hw(3) assms(2,5) _ _ serve])
      (simp_all add: alloc_decomp_and_hash_offload_args_stamped_def free_decomp_and_hash_offload_args_stamped_def
        timed_stamps_def)
  then show ?thesis by simp
qed

lemma hash_blocking_breakdown_harness_witness:
  "\<exists>w'. blocking_ax_request_breakdown sample_env (blocking_decompress_and_hash_request_stamped sample_env)
      (alloc_decomp_and_hash_offload_args_stamped sample_env) free_decomp_and_hash_offload_args_stamped 3 6 7 8 1
      (sample_world 3) = Some (Done w' ()) \<and> harness_done 3 [0..<3] 1 (sample_world 3) w'"
  using hash_blocking_breakdown_harness [OF sample_hash_machine sample_fresh, where n = 3 and off = 6 and wt = 7 and hash = 8 and idx = 1]
  by (simp add: result_arrays_def sample_kinds)

end
