(* ===== verification/Runners.thy ===== *)
theory Runners
  imports Harness_Clients Timer_Stats
begin

text \<open>
  The runners of \<open>src/runners.cpp\<close>: each calls a harness \<open>iter\<close> times with the index at which it
  stores its result, and prints the statistics of the results.  Overloads with a payload allocator
  have the suffix \<open>_payloads\<close>.  What is printed is dropped; that the statistics read their arrays is
  kept, and so is the undefined division of an empty array.
\<close>

section \<open>Loops over harness calls and statistics\<close>

fun repeat_runs :: "(nat \<Rightarrow> world \<Rightarrow> unit outcome option) \<Rightarrow> nat list \<Rightarrow> world \<Rightarrow> unit outcome option" where
  "repeat_runs run [] w = Some (Done w ())"
| "repeat_runs run (i # is) w =
    Option.bind (run i w) (\<lambda>r. case r of
        Exited w \<Rightarrow> Some (Exited w)
      | Done w _ \<Rightarrow> repeat_runs run is w)"

text \<open>\<open>print_mean_median_stdev(arr, size, name)\<close> on an array in the heap; \<open>csqrt\<close> is \<open>sqrt\<close>.\<close>

definition print_stats :: "(u64 \<Rightarrow> 'd) \<Rightarrow> ptr \<Rightarrow> nat \<Rightarrow> world \<Rightarrow> world option" where
  "print_stats csqrt p sz w =
    do {
      arr \<leftarrow> get_words p w;
      _ \<leftarrow> print_mean_median_stdev csqrt arr (int sz);
      Some w
    }"

text \<open>\<open>mean_median_stdev_rps(arr, size, total_requests, name)\<close> up to the printed quotients, which are
  floating point.\<close>

definition mean_median_stdev_rps :: "(u64 \<Rightarrow> 'd) \<Rightarrow> ptr \<Rightarrow> nat \<Rightarrow> world \<Rightarrow> world option" where
  "mean_median_stdev_rps csqrt p sz w =
    do {
      cycle_arr \<leftarrow> get_words p w;
      mean \<leftarrow> avg_from_array cycle_arr (int sz);
      median \<leftarrow> median_from_array cycle_arr (int sz);
      stdev \<leftarrow> stddev_from_array csqrt cycle_arr (int sz);
      Some w
    }"

text \<open>\<open>uint64_t exetime[n]\<close>: an array on the stack lives until the function returns; its size must not
  be 0.\<close>

definition stack_array :: "env \<Rightarrow> nat \<Rightarrow> world \<Rightarrow> (ptr \<times> world) option" where
  "stack_array hw n w = (if n = 0 then None else Some (malloc_words hw n w))"

section \<open>Breakdowns\<close>

text \<open>The result of \<open>run_gpcore_request_brkdown\<close> is the median of the first kernel.\<close>

definition run_gpcore_request_brkdown ::
  "(u64 \<Rightarrow> 'd) \<Rightarrow> env \<Rightarrow> core_fn \<Rightarrow> inputs_alloc \<Rightarrow> inputs_free \<Rightarrow> nat \<Rightarrow> nat \<Rightarrow> world \<Rightarrow> u64 outcome option" where
  "run_gpcore_request_brkdown csqrt hw req_fn payload_alloc payload_free iter total_requests w =
    do {
      let (exetime, w) = malloc_words hw iter w;
      let (kernel1, w) = malloc_words hw iter w;
      let (kernel2, w) = malloc_words hw iter w;
      r \<leftarrow> repeat_runs (\<lambda>i. gpcore_request_breakdown hw req_fn payload_alloc payload_free total_requests
             kernel1 kernel2 (int i)) [0..<iter] w;
      (case r of
         Exited w \<Rightarrow> Some (Exited w)
       | Done w _ \<Rightarrow>
           do {
             w \<leftarrow> print_stats csqrt kernel1 iter w;
             w \<leftarrow> print_stats csqrt kernel2 iter w;
             arr \<leftarrow> get_words kernel1 w;
             kernel1_time \<leftarrow> median_from_array arr (int iter);
             Some (Done w kernel1_time)
           })
    }"

definition run_blocking_offload_request_brkdown_payloads ::
  "(u64 \<Rightarrow> 'd) \<Rightarrow> env \<Rightarrow> request_fn \<Rightarrow> payload_alloc \<Rightarrow> payload_free \<Rightarrow> nat \<Rightarrow> nat \<Rightarrow> world \<Rightarrow> unit outcome option" where
  "run_blocking_offload_request_brkdown_payloads csqrt hw req_fn payload_alloc payload_free iter total_requests w =
    do {
      let (offloadtime, w) = malloc_words hw iter w;
      let (waittime, w) = malloc_words hw iter w;
      let (posttime, w) = malloc_words hw iter w;
      after_run
        (repeat_runs (\<lambda>i. blocking_ax_request_breakdown_payloads hw req_fn payload_alloc payload_free
          total_requests offloadtime waittime posttime (int i)) [0..<iter] w)
        (\<lambda>w. do {
          w \<leftarrow> print_stats csqrt offloadtime iter w;
          w \<leftarrow> print_stats csqrt waittime iter w;
          print_stats csqrt posttime iter w
        })
    }"

definition run_yielding_request_brkdown_payloads ::
  "(u64 \<Rightarrow> 'd) \<Rightarrow> env \<Rightarrow> request_fn \<Rightarrow> payload_alloc \<Rightarrow> payload_free \<Rightarrow> nat \<Rightarrow> nat \<Rightarrow> world \<Rightarrow> unit outcome option" where
  "run_yielding_request_brkdown_payloads csqrt hw req_fn payload_alloc payload_free iter total_requests w =
    do {
      let (offloadtime, w) = malloc_words hw iter w;
      let (waittime, w) = malloc_words hw iter w;
      let (posttime, w) = malloc_words hw iter w;
      after_run
        (repeat_runs (\<lambda>i. yielding_request_breakdown_payloads hw req_fn payload_alloc payload_free
          total_requests offloadtime waittime posttime (int i)) [0..<iter] w)
        (\<lambda>w. do {
          w \<leftarrow> print_stats csqrt offloadtime iter w;
          w \<leftarrow> print_stats csqrt waittime iter w;
          print_stats csqrt posttime iter w
        })
    }"

definition run_yielding_request_brkdown ::
  "(u64 \<Rightarrow> 'd) \<Rightarrow> env \<Rightarrow> request_fn \<Rightarrow> timed_alloc \<Rightarrow> requests_free \<Rightarrow> nat \<Rightarrow> nat \<Rightarrow> world \<Rightarrow> unit outcome option" where
  "run_yielding_request_brkdown csqrt hw req_fn offload_args_allocator offload_args_free iter total_requests w =
    do {
      let (offloadtime, w) = malloc_words hw iter w;
      let (waittime, w) = malloc_words hw iter w;
      let (posttime, w) = malloc_words hw iter w;
      after_run
        (repeat_runs (\<lambda>i. yielding_request_breakdown hw req_fn offload_args_allocator offload_args_free
          total_requests offloadtime waittime posttime (int i)) [0..<iter] w)
        (\<lambda>w. do {
          w \<leftarrow> print_stats csqrt offloadtime iter w;
          w \<leftarrow> print_stats csqrt waittime iter w;
          print_stats csqrt posttime iter w
        })
    }"

definition run_yielding_best_case_request_brkdown ::
  "(u64 \<Rightarrow> 'd) \<Rightarrow> env \<Rightarrow> request_fn \<Rightarrow> timed_alloc \<Rightarrow> requests_free \<Rightarrow> nat \<Rightarrow> nat \<Rightarrow> world \<Rightarrow> unit outcome option" where
  "run_yielding_best_case_request_brkdown csqrt hw req_fn offload_args_allocator offload_args_free iter total_requests w =
    do {
      let (offloadtime, w) = malloc_words hw iter w;
      let (waittime, w) = malloc_words hw iter w;
      let (posttime, w) = malloc_words hw iter w;
      after_run
        (repeat_runs (\<lambda>i. yielding_best_case_request_breakdown hw req_fn offload_args_allocator offload_args_free
          total_requests offloadtime waittime posttime (int i)) [0..<iter] w)
        (\<lambda>w. do {
          w \<leftarrow> print_stats csqrt offloadtime iter w;
          w \<leftarrow> print_stats csqrt waittime iter w;
          print_stats csqrt posttime iter w
        })
    }"

definition run_yielding_interleaved_request_brkdown ::
  "(u64 \<Rightarrow> 'd) \<Rightarrow> env \<Rightarrow> request_fn \<Rightarrow> fiber \<Rightarrow> timed_alloc \<Rightarrow> requests_free \<Rightarrow> nat \<Rightarrow> nat \<Rightarrow> world \<Rightarrow> unit outcome option" where
  "run_yielding_interleaved_request_brkdown csqrt hw req_fn inter_fn offload_args_allocator offload_args_free iter total_requests w =
    do {
      let (offloadtime, w) = malloc_words hw iter w;
      let (waittime, w) = malloc_words hw iter w;
      let (posttime, w) = malloc_words hw iter w;
      after_run
        (repeat_runs (\<lambda>i. yielding_same_interleaved_request_breakdown hw req_fn inter_fn offload_args_allocator offload_args_free
          total_requests offloadtime waittime posttime (int i)) [0..<iter] w)
        (\<lambda>w. do {
          w \<leftarrow> print_stats csqrt offloadtime iter w;
          w \<leftarrow> print_stats csqrt waittime iter w;
          print_stats csqrt posttime iter w
        })
    }"

definition run_yielding_multiple_filler_request_brkdown ::
  "(u64 \<Rightarrow> 'd) \<Rightarrow> env \<Rightarrow> request_fn \<Rightarrow> fiber \<Rightarrow> timed_alloc \<Rightarrow> requests_free \<Rightarrow> nat \<Rightarrow> nat \<Rightarrow> world \<Rightarrow> unit outcome option" where
  "run_yielding_multiple_filler_request_brkdown csqrt hw req_fn inter_fn offload_args_allocator offload_args_free iter total_requests w =
    do {
      let (offloadtime, w) = malloc_words hw iter w;
      let (waittime, w) = malloc_words hw iter w;
      let (posttime, w) = malloc_words hw iter w;
      after_run
        (repeat_runs (\<lambda>i. yielding_multiple_filler_request_breakdown hw req_fn inter_fn offload_args_allocator offload_args_free
          total_requests offloadtime waittime posttime (int i)) [0..<iter] w)
        (\<lambda>w. do {
          w \<leftarrow> print_stats csqrt offloadtime iter w;
          w \<leftarrow> print_stats csqrt waittime iter w;
          print_stats csqrt posttime iter w
        })
    }"

definition run_blocking_offload_request_brkdown ::
  "(u64 \<Rightarrow> 'd) \<Rightarrow> env \<Rightarrow> request_fn \<Rightarrow> timed_alloc \<Rightarrow> requests_free \<Rightarrow> nat \<Rightarrow> nat \<Rightarrow> world \<Rightarrow> unit outcome option" where
  "run_blocking_offload_request_brkdown csqrt hw req_fn offload_args_allocator offload_args_free iter total_requests w =
    do {
      let (offloadtime, w) = malloc_words hw iter w;
      let (waittime, w) = malloc_words hw iter w;
      let (posttime, w) = malloc_words hw iter w;
      after_run
        (repeat_runs (\<lambda>i. blocking_ax_request_breakdown hw req_fn offload_args_allocator offload_args_free
          total_requests offloadtime waittime posttime (int i)) [0..<iter] w)
        (\<lambda>w. do {
          w \<leftarrow> print_stats csqrt offloadtime iter w;
          w \<leftarrow> print_stats csqrt waittime iter w;
          print_stats csqrt posttime iter w
        })
    }"

section \<open>Offered load\<close>

definition run_blocking_offered_load ::
  "(u64 \<Rightarrow> 'd) \<Rightarrow> env \<Rightarrow> request_fn \<Rightarrow> requests_alloc \<Rightarrow> requests_free \<Rightarrow> nat \<Rightarrow> nat \<Rightarrow> world \<Rightarrow> unit outcome option" where
  "run_blocking_offered_load csqrt hw request_fn offload_args_allocator offload_args_free total_requests itr w =
    do {
      (exetime, w) \<leftarrow> stack_array hw itr w;
      after_run
        (repeat_runs (\<lambda>i. blocking_request_offered_load hw request_fn offload_args_allocator offload_args_free
          total_requests total_requests exetime (int i)) [0..<itr] w)
        (\<lambda>w. do {
          w \<leftarrow> mean_median_stdev_rps csqrt exetime itr w;
          mfree exetime w
        })
    }"

definition run_gpcore_offeredLoad ::
  "(u64 \<Rightarrow> 'd) \<Rightarrow> env \<Rightarrow> core_fn \<Rightarrow> inputs_alloc \<Rightarrow> inputs_free \<Rightarrow> nat \<Rightarrow> nat \<Rightarrow> world \<Rightarrow> unit outcome option" where
  "run_gpcore_offeredLoad csqrt hw req_fn payload_alloc payload_free iter total_requests w =
    do {
      (exetime, w) \<leftarrow> stack_array hw iter w;
      after_run
        (repeat_runs (\<lambda>i. gpcore_closed_loop_test hw req_fn payload_alloc payload_free
          total_requests total_requests exetime (int i)) [0..<iter] w)
        (\<lambda>w. do {
          w \<leftarrow> mean_median_stdev_rps csqrt exetime iter w;
          mfree exetime w
        })
    }"

definition run_yielding_offered_load ::
  "(u64 \<Rightarrow> 'd) \<Rightarrow> env \<Rightarrow> request_fn \<Rightarrow> requests_alloc \<Rightarrow> requests_free \<Rightarrow> nat \<Rightarrow> nat \<Rightarrow> nat \<Rightarrow> world \<Rightarrow>
   unit outcome option" where
  "run_yielding_offered_load csqrt hw request_fn offload_args_allocator offload_args_free
      num_exe_time_samples_per_run total_requests iter w =
    do {
      num_requests_before_stamp \<leftarrow> c_div total_requests num_exe_time_samples_per_run;
      let total_exe_time_samples = iter * num_exe_time_samples_per_run;
      (exetime, w) \<leftarrow> stack_array hw total_exe_time_samples w;
      after_run
        (repeat_runs (\<lambda>i. yielding_request_offered_load hw request_fn offload_args_allocator offload_args_free
          num_requests_before_stamp total_requests exetime (int (i * num_exe_time_samples_per_run))) [0..<iter] w)
        (\<lambda>w. do {
          w \<leftarrow> mean_median_stdev_rps csqrt exetime total_exe_time_samples w;
          mfree exetime w
        })
    }"

section \<open>Iterated harness calls\<close>

text \<open>What \<open>m\<close> calls leave, each of which submits \<open>subs\<close> and leaks \<open>k\<close> blocks.\<close>

definition runs_done :: "nat \<Rightarrow> nat list \<Rightarrow> nat \<Rightarrow> nat \<Rightarrow> world \<Rightarrow> world \<Rightarrow> bool" where
  "runs_done n subs k m w w' \<longleftrightarrow> fresh w' \<and> nxt w \<le> nxt w' \<and> (0 < m \<longrightarrow> requests_completed w' = int n) \<and>
    submit_order w' = submit_order w @ concat (replicate m subs) \<and> (\<forall>p < nxt w. kinds w' p = kinds w p) \<and>
    card {p. heap w p = None \<and> heap w' p \<noteq> None} = k * m"

lemma runs_done_0: "fresh w \<Longrightarrow> runs_done n subs k 0 w w"
  unfolding runs_done_def by (simp add: card_eq_0_iff) auto

lemma new_blocks_trans:
  assumes "fresh w" and "fresh w1" and "fresh w2" and "nxt w \<le> nxt w1" and "nxt w1 \<le> nxt w2"
    and "\<forall>p < nxt w. kinds w1 p = kinds w p" and "\<forall>p < nxt w1. kinds w2 p = kinds w1 p"
  shows "card {p. heap w p = None \<and> heap w2 p \<noteq> None} =
    card {p. heap w p = None \<and> heap w1 p \<noteq> None} + card {p. heap w1 p = None \<and> heap w2 p \<noteq> None}"
proof -
  have h: "heap v p = None \<longleftrightarrow> kinds v p = None" for v p by (simp add: kinds_def)
  let ?A = "{p. kinds w p = None \<and> kinds w1 p \<noteq> None}" and ?B = "{p. kinds w1 p = None \<and> kinds w2 p \<noteq> None}"
  have f: "kinds w p = None" if "nxt w \<le> p" for p using assms(1) that by (simp add: fresh_kinds)
  have f1: "kinds w1 p = None" if "nxt w1 \<le> p" for p using assms(2) that by (simp add: fresh_kinds)
  have "{p. kinds w p = None \<and> kinds w2 p \<noteq> None} = ?A \<union> ?B"
  proof (intro equalityI subsetI)
    fix p assume p: "p \<in> ?A \<union> ?B"
    have "kinds w p = None \<or> p < nxt w" using f [of p] by (cases "p < nxt w") auto
    moreover have "p \<in> ?A \<Longrightarrow> p < nxt w1" using f1 [of p] by (cases "p < nxt w1") auto
    ultimately show "p \<in> {p. kinds w p = None \<and> kinds w2 p \<noteq> None}" using p assms(6,7) by auto
  next
    fix p assume p: "p \<in> {p. kinds w p = None \<and> kinds w2 p \<noteq> None}"
    then show "p \<in> ?A \<union> ?B" by (cases "kinds w1 p") auto
  qed
  moreover have "?A \<subseteq> {..<nxt w1}" "?B \<subseteq> {..<nxt w2}"
    using assms(2,3) by (auto simp: fresh_kinds not_less [symmetric])
  then have "finite ?A" "finite ?B" using finite_subset by blast+
  moreover have "?A \<inter> ?B = {}" by auto
  ultimately show ?thesis unfolding h by (simp add: card_Un_disjoint)
qed

lemma runs_done_step:
  assumes "fresh w" and "runs_done n subs k m w w1" and "harness_done n subs k w1 w2"
  shows "runs_done n subs k (Suc m) w w2"
proof -
  have "concat (replicate (Suc m) subs) = concat (replicate m subs) @ subs"
    by (simp add: replicate_append_same [symmetric])
  then show ?thesis
    using assms new_blocks_trans [OF assms(1), of w1 w2] unfolding runs_done_def harness_done_def by auto
qed

lemma repeat_append:
  "repeat_runs run (is @ js) w = Option.bind (repeat_runs run is w) (\<lambda>r. case r of
      Exited w \<Rightarrow> Some (Exited w) | Done w _ \<Rightarrow> repeat_runs run js w)"
  by (induction "is" arbitrary: w) (auto split: bind_splits outcome.splits)

lemma repeat_done:
  assumes "fresh w" and "kinds w p = Some t"
    and "\<And>i w. i < m \<Longrightarrow> fresh w \<Longrightarrow> kinds w p = Some t \<Longrightarrow>
      \<exists>w'. run i w = Some (Done w' ()) \<and> harness_done n subs k w w'"
  shows "\<exists>w'. repeat_runs run [0..<m] w = Some (Done w' ()) \<and> runs_done n subs k m w w'"
  using assms(3)
proof (induction m)
  case 0
  then show ?case using runs_done_0 [OF assms(1)] by simp
next
  case (Suc m)
  then obtain w1 where 1: "repeat_runs run [0..<m] w = Some (Done w1 ())" "runs_done n subs k m w w1"
    by (metis less_SucI)
  have "p < nxt w" using assms(1,2) by (auto simp: fresh_kinds not_less [symmetric])
  then have "fresh w1" "kinds w1 p = Some t" using 1(2) assms(2) by (auto simp: runs_done_def)
  with Suc.prems obtain w2 where 2: "run m w1 = Some (Done w2 ())" "harness_done n subs k w1 w2" by blast
  have "repeat_runs run [0..<Suc m] w = Some (Done w2 ())" using 1(1) 2(1) by (simp add: repeat_append)
  with runs_done_step [OF assms(1) 1(2) 2(2)] show ?case by blast
qed

text \<open>A loop whose last call is undefined.\<close>

lemma repeat_undefined:
  assumes "fresh w" and "kinds w p = Some t"
    and step: "\<And>i w. i < m \<Longrightarrow> fresh w \<Longrightarrow> kinds w p = Some t \<Longrightarrow>
      run i w = None \<or> (\<exists>w'. run i w = Some (Done w' ()) \<and> harness_done n subs k w w')"
    and bad: "\<And>w. fresh w \<Longrightarrow> kinds w p = Some t \<Longrightarrow> run m w = None"
  shows "repeat_runs run [0..<Suc m] w = None"
proof -
  have "repeat_runs run [0..<m] w = None \<or> (\<exists>w'. repeat_runs run [0..<m] w = Some (Done w' ()) \<and>
      fresh w' \<and> kinds w' p = Some t)"
    using step
  proof (induction m)
    case (Suc m)
    then consider "repeat_runs run [0..<m] w = None"
      | w1 where "repeat_runs run [0..<m] w = Some (Done w1 ())" "fresh w1" "kinds w1 p = Some t"
      by (metis less_SucI)
    then show ?case
    proof cases
      case 2
      have "p < nxt w1" using 2(2,3) by (auto simp: fresh_kinds not_less [symmetric])
      moreover have "run m w1 = None \<or> (\<exists>w'. run m w1 = Some (Done w' ()) \<and> harness_done n subs k w1 w')"
        using Suc.prems 2(2,3) by blast
      ultimately show ?thesis using 2 by (auto simp: repeat_append harness_done_def)
    qed (simp add: repeat_append)
  qed (use assms(1,2) in simp)
  then show ?thesis using bad by (auto simp: repeat_append)
qed

section \<open>Statistics of filled arrays\<close>

lemma stats_eval:
  assumes "0 < n" and "n < 2 ^ 31" and "length arr = n"
  shows "\<exists>m. avg_from_array arr (int n) = Some m" and "\<exists>m. median_from_array arr (int n) = Some m"
    and "\<exists>d. stddev_from_array csqrt arr (int n) = Some d"
proof -
  have n: "0 < int n" "int n < 2 ^ 31" "nat (int n) \<le> length arr" using assms by simp_all
  show a: "\<exists>m. avg_from_array arr (int n) = Some m" using avg_from_array_eval [OF n] by blast
  have "n div 2 < n" using assms(1) by simp
  then have "arr_get (sort (take n arr)) (int n div 2) \<noteq> None" using assms(3) by (simp add: arr_get_def)
  then show "\<exists>m. median_from_array arr (int n) = Some m" using assms(3) by (auto simp: median_from_array_def)
  obtain m where m: "avg_from_array arr (int n) = Some m" using a by blast
  show "\<exists>d. stddev_from_array csqrt arr (int n) = Some d"
    using foldM_sum_array [of n arr 0 "\<lambda>x. (x - m) * (x - m)" 0] udiv_int_pos(1) [OF n(1,2)] assms(3) m
    by (simp add: stddev_from_array_def variance_from_array_def)
qed

lemma stats_ok:
  assumes "0 < n" and "n < 2 ^ 31" and "kinds w p = Some (KWords n)"
  shows "mean_median_stdev_rps csqrt p n w = Some w" and "print_stats csqrt p n w = Some w"
proof -
  obtain arr where arr: "get_words p w = Some arr" "length arr = n" using assms(3) by (auto simp: kinds_words)
  note e = stats_eval(1,2) [OF assms(1,2) arr(2)] stats_eval(3) [OF assms(1,2) arr(2), of csqrt]
  show "mean_median_stdev_rps csqrt p n w = Some w" using e arr(1) by (auto simp: mean_median_stdev_rps_def)
  show "print_stats csqrt p n w = Some w" using e arr(1) by (auto simp: print_stats_def print_mean_median_stdev_def)
qed

section \<open>Properties\<close>

text \<open>C8: The offered load runner on decompress-and-hash requests, when the samples of a call fit into its
  part of the array: every iteration serves all requests in order, the statistics are defined, and
  each iteration leaks one block; the array of samples is given back.\<close>

theorem run_hash_offered_load:
  assumes "hash_machine hw" and "fresh w" and "0 < s" and "s \<le> n" and "n < 2 ^ 31" and "n div (n div s) \<le> s"
    and "0 < iter" and "iter * s < 2 ^ 31"
  shows "\<exists>w'. run_yielding_offered_load csqrt hw (yielding_decompress_and_hash_request hw)
      (alloc_decomp_and_hash_offload_args hw) free_decomp_and_hash_offload_args s n iter w = Some (Done w' ()) \<and>
    requests_completed w' = int n \<and> submit_order w' = submit_order w @ concat (replicate iter [0..<n]) \<and>
    (\<forall>p < nxt w. kinds w' p = kinds w p) \<and> card {p. heap w p = None \<and> heap w' p \<noteq> None} = iter"
proof -
  let ?q = "n div s" and ?ex = "nxt w" and ?len = "iter * s"
  let ?run = "\<lambda>i. yielding_request_offered_load hw (yielding_decompress_and_hash_request hw)
    (alloc_decomp_and_hash_offload_args hw) free_decomp_and_hash_offload_args ?q n ?ex (int (i * s))"
  define w1 where "w1 = put_blocks w [fresh_words hw ?len ?ex]"
  have m: "malloc_words hw ?len w = (?ex, w1)" by (simp add: malloc_words_def malloc_first w1_def)
  have k1: "kinds w1 ?ex = Some (KWords ?len)" using kinds_put [of 0 "[fresh_words hw ?len ?ex]" w] by (simp add: w1_def)
  have f1: "fresh w1" using assms(2) by (auto simp: w1_def fresh_def put_blocks_def)
  have q: "0 < ?q" using assms(3,4) by (simp add: div_greater_zero_iff)
  have "\<exists>w'. ?run i v = Some (Done w' ()) \<and> harness_done n [0..<n] 1 v w'"
    if "i < iter" "fresh v" "kinds v ?ex = Some (KWords ?len)" for i v
  proof -
    have "i * s + s \<le> ?len" using mult_le_mono1 [of "Suc i" iter s] that(1) by (simp add: add.commute)
    then show ?thesis
      using hash_offered_load_ok [OF assms(1) that(2) _ assms(5) q that(3), of "i * s"] assms(3,4,6) by simp
  qed
  from repeat_done [OF f1 k1, of iter ?run, OF this] obtain w2 where
    2: "repeat_runs ?run [0..<iter] w1 = Some (Done w2 ())" "runs_done n [0..<n] 1 iter w1 w2" by blast
  have k2: "kinds w2 ?ex = Some (KWords ?len)" using 2(2) k1 by (simp add: runs_done_def w1_def)
  let ?w3 = "without {?ex} w2"
  have "mfree ?ex w2 = Some ?w3"
    using releases_mfree [of ?ex "kinds w2"] assms(2) k2 by (simp add: releases_def fresh_def)
  then have "run_yielding_offered_load csqrt hw (yielding_decompress_and_hash_request hw)
      (alloc_decomp_and_hash_offload_args hw) free_decomp_and_hash_offload_args s n iter w = Some (Done ?w3 ())"
    using 2(1) m stats_ok(1) [where csqrt = csqrt, OF _ assms(8) k2] assms(3,7)
    by (simp add: run_yielding_offered_load_def c_div_def stack_array_def after_run_def)
  moreover have "{p. heap w p = None \<and> heap ?w3 p \<noteq> None} = {p. heap w1 p = None \<and> heap w2 p \<noteq> None}"
    using assms(2) by (auto simp: heap_without w1_def put_blocks_def fresh_def)
  moreover have "kinds ?w3 p = kinds w p" if "p < nxt w" for p
  proof -
    have "nxt w1 = Suc (nxt w)" by (simp add: w1_def)
    then have "kinds w2 p = kinds w1 p" using 2(2) that by (simp add: runs_done_def)
    moreover have "kinds w1 p = kinds w p" using that by (simp add: w1_def kinds_def put_blocks_def)
    ultimately show ?thesis using that by (simp add: kinds_without)
  qed
  ultimately show ?thesis using 2(2) assms(7) by (simp add: runs_done_def w1_def)
qed

lemma run_hash_offered_load_witness:
  "\<exists>w'. run_yielding_offered_load id sample_env (yielding_decompress_and_hash_request sample_env)
      (alloc_decomp_and_hash_offload_args sample_env) free_decomp_and_hash_offload_args 2 4 3 (sample_world 3) =
      Some (Done w' ()) \<and> card {p. heap (sample_world 3) p = None \<and> heap w' p \<noteq> None} = 3"
  using run_hash_offered_load [OF sample_hash_machine sample_fresh [of 3], where s = 2 and n = 4 and iter = 3 and csqrt = id] by auto

text \<open>C34: The runner reserves a fixed number of samples for each iteration, but the executor takes one after
  every \<open>n div s\<close> requests, which can be more: then the last iteration writes behind the array on the stack.
  With 19 requests and 10 samples, for example, there are 19.\<close>

theorem offered_load_samples_overflow:
  assumes "hash_machine hw" and "fresh w" and "0 < s" and "s \<le> n" and "n < 2 ^ 31" and "s < n div (n div s)"
    and "0 < iter"
  shows "run_yielding_offered_load csqrt hw (yielding_decompress_and_hash_request hw)
      (alloc_decomp_and_hash_offload_args hw) free_decomp_and_hash_offload_args s n iter w = None"
proof -
  let ?q = "n div s" and ?ex = "nxt w" and ?len = "iter * s"
  let ?run = "\<lambda>i. yielding_request_offered_load hw (yielding_decompress_and_hash_request hw)
    (alloc_decomp_and_hash_offload_args hw) free_decomp_and_hash_offload_args ?q n ?ex (int (i * s))"
  define w1 where "w1 = put_blocks w [fresh_words hw ?len ?ex]"
  have m: "malloc_words hw ?len w = (?ex, w1)" by (simp add: malloc_words_def malloc_first w1_def)
  have k1: "kinds w1 ?ex = Some (KWords ?len)" using kinds_put [of 0 "[fresh_words hw ?len ?ex]" w] by (simp add: w1_def)
  have f1: "fresh w1" using assms(2) by (auto simp: w1_def fresh_def put_blocks_def)
  have q: "0 < ?q" using assms(3,4) by (simp add: div_greater_zero_iff)
  obtain j where j: "iter = Suc j" using assms(7) by (cases iter) auto
  have le: "i * s \<le> ?len" if "i < iter" for i using mult_le_mono1 [of i iter s] that by simp
  have "?run i v = None \<or> (\<exists>w'. ?run i v = Some (Done w' ()) \<and> harness_done n [0..<n] 1 v w')"
    if "i < j" "fresh v" "kinds v ?ex = Some (KWords ?len)" for i v
    using hash_offered_load_ok [OF assms(1) that(2) _ assms(5) q that(3), of "i * s"]
      hash_offered_load_overflow [OF assms(1) that(2) _ assms(5) q that(3), of "i * s"] le [of i] that(1) j assms(3,4)
    by (cases "i * s + n div ?q \<le> ?len") auto
  moreover have "?run j v = None" if "fresh v" "kinds v ?ex = Some (KWords ?len)" for v
    using hash_offered_load_overflow [OF assms(1) that(1) _ assms(5) q that(2), of "j * s"] le [of j] j assms(3,4,6) by simp
  ultimately have "repeat_runs ?run [0..<Suc j] w1 = None" by (rule repeat_undefined [OF f1 k1])
  then show ?thesis using m assms(3) j
    by (simp add: run_yielding_offered_load_def c_div_def stack_array_def after_run_def del: upt_Suc)
qed

lemma offered_load_samples_overflow_witness:
  "run_yielding_offered_load id sample_env (yielding_decompress_and_hash_request sample_env)
      (alloc_decomp_and_hash_offload_args sample_env) free_decomp_and_hash_offload_args 10 19 1 (sample_world 3) = None"
  using offered_load_samples_overflow [OF sample_hash_machine sample_fresh, where s = 10 and n = 19 and iter = 1 and csqrt = id] by simp

end
