(* ===== verification/Harness_Memcpy.thy ===== *)
theory Harness_Memcpy
  imports Harness_Clients Requests_Memcpy
begin

text \<open>
  The copy-and-compute requests as clients of the harnesses: the kernel of \<open>src/mlp.cpp\<close> reads the
  global \<open>item_buf\<close>, which only the allocator of the timed requests fills.
\<close>

section \<open>The allocator\<close>

lemma request_good_leaks:
  assumes "request_good P ts ks kd True i a F G K"
  shows "releases K G (free_memcpy_arg a)"
proof -
  have "G = set [a_src_payload a, a_dst_payload a, a_self a]" using assms by (auto simp: request_good_def)
  moreover have "releases K (set [a_src_payload a, a_dst_payload a, a_self a]) (frees [a_src_payload a, a_dst_payload a, a_self a])"
    by (rule releases_frees) (use assms in \<open>auto simp: request_good_def\<close>)
  ultimately show ?thesis by (simp add: free_memcpy_arg_def)
qed

interpretation memcpy_args: allocator "alloc_memcpy_and_compute_arg hw ts" free_memcpy_arg
    "request_good (\<lambda>_. True) ts (KBytes (input_size hw)) (\<lambda>k. k = KBytes (input_size hw)) True" "\<lambda>_. True" "\<lambda>_. True"
  for hw ts
proof
  fix i w assume f: "fresh w"
  let ?g = "\<lambda>p. Bytes (map (garbage hw p) [0..<input_size hw])"
  have r: "alloc_memcpy_and_compute_arg hw ts i w = Some (set_ts ts ((uninit_args hw (nxt w))\<lparr>a_src_payload := Suc (nxt w),
        a_dst_payload := Suc (Suc (nxt w)), a_src_size := input_size hw, a_desc := Suc (Suc (Suc (nxt w))), a_comp := i,
        a_id := i\<rparr>),
      put_blocks (w\<lparr>rands := rands w\<rparr>) [Opaque, ?g (Suc (nxt w)), ?g (Suc (Suc (nxt w))), Desc (uninit_desc hw (Suc (Suc (Suc (nxt w)))))])"
    by (simp add: alloc_memcpy_and_compute_arg_def malloc_bytes_def malloc_desc_def malloc_first put_put)
  have "\<exists>a w' F G. alloc_memcpy_and_compute_arg hw ts i w = Some (a, w') \<and> grows F w w' \<and> calm w w' \<and>
      request_good (\<lambda>_. True) ts (KBytes (input_size hw)) (\<lambda>k. k = KBytes (input_size hw)) True i a F G (kinds w')"
    by (rule request_alloc [OF r f]) simp_all
  then show "\<exists>a w' F G. alloc_memcpy_and_compute_arg hw ts i w = Some (a, w') \<and> grows F w w' \<and> calm w w' \<and> True \<and>
      request_good (\<lambda>_. True) ts (KBytes (input_size hw)) (\<lambda>k. k = KBytes (input_size hw)) True i a F G (kinds w')"
    by simp
qed (auto simp: request_good_local request_good_freed request_good_leaks)

definition memcpy_structs :: "env \<Rightarrow> nat \<Rightarrow> shape \<Rightarrow> offload_args list \<Rightarrow> bool" where
  "memcpy_structs hw n K args \<longleftrightarrow> length args = n \<and> (\<forall>i < n. slot_args n i (args ! i) \<and>
    blocks K (a_desc (args ! i)) = Some KDesc \<and> blocks K (a_dst_payload (args ! i)) = Some (KBytes (input_size hw)))"

interpretation memcpy_supply: offload_supply "alloc_array (alloc_memcpy_and_compute_arg hw None) n" "free_array free_memcpy_arg n"
    "\<lambda>w. g_item_buf w = p" True n "\<lambda>K args. item_at K = p \<and> memcpy_structs hw n K args" for hw n p
proof (rule array_supply)
  show "allocator (alloc_memcpy_and_compute_arg hw None) free_memcpy_arg
      (request_good (\<lambda>_. True) None (KBytes (input_size hw)) (\<lambda>k. k = KBytes (input_size hw)) True) (\<lambda>_. True)
      (\<lambda>w. g_item_buf w = p)"
  proof
    fix i w assume "g_item_buf w = p" "fresh w"
    with memcpy_args.alloc_ok [where i = i and w = w and hw = hw and ts = None] show "\<exists>a w' F G. alloc_memcpy_and_compute_arg hw None i w = Some (a, w') \<and>
        grows F w w' \<and> calm w w' \<and> g_item_buf w' = p \<and> request_good (\<lambda>_. True) None (KBytes (input_size hw))
          (\<lambda>k. k = KBytes (input_size hw)) True i a F G (kinds w')" by (fastforce simp: calm_def)
  qed (auto simp: request_good_local request_good_freed request_good_leaks malloc_def)
  show "item_at K = p \<and> memcpy_structs hw n K args" if "length args = n" "\<forall>i < n. \<exists>F G. request_good (\<lambda>_. True) None
      (KBytes (input_size hw)) (\<lambda>k. k = KBytes (input_size hw)) True i (args ! i) F G (blocks K)" "g_item_buf w = p"
      "indir_at K = g_indir_arr w" "item_at K = g_item_buf w" for K args w
    using that(1-3,5) by (fastforce simp: memcpy_structs_def request_good_def slot_args_def)
qed (auto dest: request_good_lost)

section \<open>The kernel of the benchmark\<close>

text \<open>\<open>compute_on_input = dot_product\<close>: the first vector is the global \<open>item_buf\<close>.\<close>

definition mlp_kernel :: kernel where
  "mlp_kernel user_buf bytes w = dot_product (g_item_buf w) user_buf bytes w"

lemma mlp_kernel_ok:
  "buffer_of K (item_at K) len \<Longrightarrow> buffer_of K p len \<Longrightarrow> kernel_ok hw K n mlp_kernel p len"
  by (auto simp: kernel_ok_def safe_def mlp_kernel_def dot_product_returns)

lemma mlp_kernel_dangling:
  assumes "blocks (shape w) (g_item_buf w) = None" and "4 \<le> len"
  shows "mlp_kernel p len w = None"
proof -
  have "0 < len div 4" using assms(2) by (simp add: div_greater_zero_iff)
  then have "[0..<len div 4] = 0 # [1..<len div 4]" by (simp add: upt_conv_Cons)
  moreover have "get_bytes (g_item_buf w) w = None" using assms(1) by (auto simp: get_bytes_def kinds_def)
  ultimately show ?thesis by (simp add: mlp_kernel_def dot_product_def dot_product_step_def)
qed

lemma blocking_memcpy_contract:
  assumes "env_ok hw" and "test_ok hw is_completed" and "iax_comp_success hw = COMP_STATUS_COMPLETED"
    and "memcpy_structs hw n K args" and "0 < n" and "n < 2 ^ 31"
    and "\<forall>i < n. kernel_ok hw K n c (a_dst_payload (args ! i)) (input_size hw)"
  shows "blocking_offloads K n (replicate n (blocking_memcpy_and_compute hw c)) args (\<lambda>i. [i])"
proof -
  have "blocking_requests K n (replicate n (blocking_memcpy_and_compute hw c)) args (\<lambda>i. [i])"
    using assms by (intro blocking_contract [where complete = is_completed and hw = hw]
        blocking_memcpy_and_compute_run) (auto simp: memcpy_structs_def is_completed_def)
  with assms(4-6) show ?thesis
    by (simp add: blocking_offloads_def blocking_offloads_axioms_def memcpy_structs_def)
qed

text \<open>A request whose kernel is undefined is undefined, since it reaches its kernel.\<close>

lemma blocking_memcpy_undefined:
  assumes "blocking_memcpy_and_compute hw (\<lambda>_ _. Some) a w = Some (Yield w' k)" and "shape w' = K"
    and "\<And>w. shape w = K \<Longrightarrow> c (a_dst_payload a) (input_size hw) w = None"
  shows "blocking_memcpy_and_compute hw c a w = None"
  using assms unfolding blocking_memcpy_and_compute_def
  by (auto simp: finish_request_def count_request_frame split: bind_splits if_splits prod.splits)

section \<open>Properties\<close>

text \<open>What the properties of the copy harnesses assume of the machine.\<close>

definition copy_machine :: "env \<Rightarrow> bool" where
  "copy_machine hw \<longleftrightarrow> env_ok hw \<and> (\<forall>d. verdict hw d = COMP_STATUS_COMPLETED) \<and>
    iax_comp_success hw = COMP_STATUS_COMPLETED \<and> 4 \<le> input_size hw"

lemma sample_copy_machine: "copy_machine sample_env"
proof -
  have "iax_comp_success sample_env = COMP_STATUS_COMPLETED" "4 \<le> input_size sample_env"
    by (simp_all add: sample_env_def COMP_STATUS_COMPLETED_def)
  then show ?thesis using sample_env_ok sample_completed by (simp add: copy_machine_def)
qed

text \<open>The sample world with an allocated \<open>item_buf\<close>.\<close>

lemma sample_item_buf:
  "kinds ((sample_world n)\<lparr>g_item_buf := p\<rparr>) = kinds (sample_world n)" "fresh ((sample_world n)\<lparr>g_item_buf := p\<rparr>)"
  using sample_fresh [of n] by (simp_all add: kinds_def fresh_def fun_eq_iff)

text \<open>C25: While \<open>item_buf\<close> is allocated, the offered load harness on copy-and-compute requests serves every
  request; it leaks the array of contexts and the descriptor of every request, which the
  deallocator of the requests forgets.\<close>

theorem memcpy_offered_load_harness:
  assumes "copy_machine hw" and "fresh w" and "0 < n" and "n < 2 ^ 31" and "0 < q" and "q \<le> n"
    and "kinds w ex = Some (KWords len)" and "idx < len"
    and "kinds w (g_item_buf w) = Some (KBytes m)" and "input_size hw \<le> m"
  shows "\<exists>w'. blocking_request_offered_load hw (blocking_memcpy_and_compute hw mlp_kernel)
      (alloc_offload_memcpy_and_compute_args hw) free_offload_memcpy_and_compute_args q n ex (int idx) w =
      Some (Done w' ()) \<and> harness_done n [0..<n] (n + 1) w w'"
proof -
  have hw: "env_ok hw" "test_ok hw is_completed" "iax_comp_success hw = COMP_STATUS_COMPLETED" "4 \<le> input_size hw"
    using assms(1) by (auto simp: copy_machine_def intro: test_ok_completed)
  have p: "g_item_buf w < nxt w" using assms(2,9) by (auto simp: fresh_kinds not_less [symmetric])
  have serve: "blocking_offloads K n (replicate n (blocking_memcpy_and_compute hw mlp_kernel)) args (\<lambda>i. [i])"
    if s: "item_at K = g_item_buf w \<and> memcpy_structs hw n K args" and old: "\<forall>p < nxt w. blocks K p = kinds w p" for K args
  proof (rule blocking_memcpy_contract [OF hw(1-3) conjunct2 [OF s] assms(3,4)], intro allI impI)
    fix i assume "i < n"
    have "buffer_of K (item_at K) (input_size hw)" using s old p assms(9,10) by (simp add: buffer_of_def)
    moreover have "buffer_of K (a_dst_payload (args ! i)) (input_size hw)"
      using s \<open>i < n\<close> by (simp add: memcpy_structs_def buffer_of_def)
    ultimately show "kernel_ok hw K n mlp_kernel (a_dst_payload (args ! i)) (input_size hw)" by (rule mlp_kernel_ok)
  qed
  from memcpy_supply.blocking_offered_load [OF refl assms(2) _ _ serve assms(5-8), where hw = hw] show ?thesis
    by (simp add: alloc_offload_memcpy_and_compute_args_def free_offload_memcpy_and_compute_args_def)
qed

lemma memcpy_offered_load_harness_witness:
  "\<exists>w'. blocking_request_offered_load sample_env (blocking_memcpy_and_compute sample_env mlp_kernel)
      (alloc_offload_memcpy_and_compute_args sample_env) free_offload_memcpy_and_compute_args 2 3 6 0
      ((sample_world 3)\<lparr>g_item_buf := 20\<rparr>) = Some (Done w' ()) \<and>
    harness_done 3 [0..<3] (3 + 1) ((sample_world 3)\<lparr>g_item_buf := 20\<rparr>) w'"
proof -
  have "input_size sample_env \<le> 64" by (simp add: sample_env_def)
  then show ?thesis
    using memcpy_offered_load_harness [OF sample_copy_machine sample_item_buf(2), where n = 3 and q = 2 and ex = 6 and len = 2
        and idx = 0 and m = 64] by (simp add: sample_item_buf sample_kinds)
qed



end
