(* ===== verification/Three_Phase.thy ===== *)
theory Three_Phase
  imports Requests_Memcpy Payload_Gen
begin

text \<open>
  Composable requests (\<open>inc/inline/three_phase_components.ipp\<close>, \<open>three_phase_composable.cpp\<close>): a
  function on a core, an operation of the accelerator, and again a function on a core, each reading
  what the one before it has written.  The templates of the source are definitions that take the
  functions as arguments, and the requests are their instances.  Unlike the other requests these do
  not count themselves in \<open>requests_completed\<close>.
\<close>

section \<open>Phases\<close>

text \<open>A phase \<open>f(inp, output, input_size, &output_size)\<close> reads and writes buffers, and may set the
  output size; \<open>None\<close> is the value of a size that was never set.\<close>

type_synonym phase = "ptr \<Rightarrow> ptr \<Rightarrow> nat \<Rightarrow> nat option \<Rightarrow> world \<Rightarrow> (nat option \<times> world) option"

type_synonym prep_fn = "ptr \<Rightarrow> ptr \<Rightarrow> ptr \<Rightarrow> nat \<Rightarrow> nat \<Rightarrow> world \<Rightarrow> world option"
type_synonym aecs_prep_fn = "ptr \<Rightarrow> ptr \<Rightarrow> ptr \<Rightarrow> ptr \<Rightarrow> nat \<Rightarrow> nat \<Rightarrow> world \<Rightarrow> world option"
type_synonym submit_fn = "ptr \<Rightarrow> world \<Rightarrow> world option"
type_synonym wait_fn = "nat \<Rightarrow> world \<Rightarrow> world option"

definition null_fn :: phase where
  "null_fn inp out in_size out_size w = Some (Some in_size, w)"

definition gpcore_do_memcpy :: phase where
  "gpcore_do_memcpy inp out in_size out_size w =
    do {
      w \<leftarrow> memcpy out inp in_size w;
      Some (Some in_size, w)
    }"

text \<open>\<open>gpcore_do_deflate_decompress\<close> as a phase: the output size is also an input.\<close>

definition inflate_phase :: "env \<Rightarrow> phase" where
  "inflate_phase hw inp out in_size out_size w =
    do {
      room \<leftarrow> out_size;
      (n, w) \<leftarrow> gpcore_do_deflate_decompress hw inp out in_size room w;
      Some (Some n, w)
    }"

text \<open>\<open>outp[i] = input[glob_indir_arr[i]]\<close> on \<open>float\<close>s.\<close>

definition gather_step :: "ptr \<Rightarrow> ptr \<Rightarrow> nat \<Rightarrow> world \<Rightarrow> world option" where
  "gather_step inp out i w =
    do {
      idxs \<leftarrow> get_ints (g_indir_arr w) w;
      j \<leftarrow> arr_get idxs (int i);
      src \<leftarrow> get_bytes inp w;
      v \<leftarrow> (if j < 0 then None else load32 src (4 * nat j));
      dst \<leftarrow> get_bytes out w;
      dst \<leftarrow> store32 dst (4 * i) v;
      Some (set_bytes out dst w)
    }"

definition gather_access :: "env \<Rightarrow> phase" where
  "gather_access hw inp out in_size out_size w =
    do {
      w \<leftarrow> foldM (gather_step inp out) [0..<num_accesses hw] w;
      Some (Some in_size, w)
    }"

text \<open>Parse a request of \<open>input_size\<close> bytes and copy its value out.\<close>

definition deser_from_buf :: "env \<Rightarrow> phase" where
  "deser_from_buf hw inp out in_size out_size w =
    do {
      bs \<leftarrow> get_bytes inp w;
      (if length bs < in_size then None
       else do {
         let v = parse_value hw (take in_size bs);
         dst \<leftarrow> get_bytes out w;
         (if length dst < length v then None
          else Some (Some (length v), set_bytes out (v @ drop (length v) dst) w))
       })
    }"

text \<open>\<open>furc_hash(inp, input_size, 16)\<close>, stored in the first four bytes of the output.\<close>

definition hash_buf :: "env \<Rightarrow> phase" where
  "hash_buf hw inp out in_size out_size w =
    do {
      bs \<leftarrow> get_bytes inp w;
      (if length bs < in_size then None
       else do {
         h \<leftarrow> furc_hash (Some (\<lambda>i. bs ! i)) in_size 16 (hash_garbage hw);
         dst \<leftarrow> get_bytes out w;
         dst \<leftarrow> store32 dst 0 h;
         Some (Some 4, set_bytes out dst w)
       })
    }"

text \<open>The \<open>dot_product\<close> of \<open>three_phase_composable.cpp\<close> reads the feature against a constant vector;
  the sum is only logged, the output is not touched.\<close>

definition score_step :: "ptr \<Rightarrow> nat \<Rightarrow> world \<Rightarrow> world option" where
  "score_step feature i w =
    do {
      v2 \<leftarrow> get_bytes feature w;
      x \<leftarrow> load32 v2 (4 * i);
      Some w
    }"

definition score :: phase where
  "score feature out in_size out_size w =
    do {
      w \<leftarrow> foldM (score_step feature) [0..<in_size div 4] w;
      Some (out_size, w)
    }"

text \<open>\<open>decrypt_feature\<close>; a failure is logged and the plain text buffer keeps its content.\<close>

definition decrypt_feature :: "env \<Rightarrow> phase" where
  "decrypt_feature hw inp out in_size out_size w =
    do {
      c \<leftarrow> get_bytes inp w;
      dst \<leftarrow> get_bytes out w;
      (if length c < in_size \<or> length dst < in_size then None
       else case gcm_decrypt hw (take in_size c) of
           None \<Rightarrow> Some (Some in_size, w)
         | Some p \<Rightarrow>
             Some (Some in_size, set_bytes out (take in_size (p @ drop (length p) dst) @ drop in_size dst) w))
    }"

section \<open>Descriptors with compression state\<close>

definition prepare_iaa_compress_desc_and_aecs_with_preallocated_comp :: "env \<Rightarrow> aecs_prep_fn" where
  "prepare_iaa_compress_desc_and_aecs_with_preallocated_comp hw desc src1 src2 dst1 cr xfer_size w =
    do {
      s \<leftarrow> get_bytes src2 w;
      (if length s < iaa_compress_aecs_size hw \<or> length (iaa_compress_aecs hw) < iaa_compress_aecs_size hw then None
       else do {
         let n = iaa_compress_aecs_size hw;
         let w = set_bytes src2 (take n (iaa_compress_aecs hw) @ drop n s) w;
         w \<leftarrow> memset_comp cr w;
         set_desc desc
           (zero_desc\<lparr>d_flags := 0x5000e, d_opcode := 0x43, d_src_addr := src1, d_dst_addr := dst1,
              d_xfer_size := of_nat xfer_size, d_completion_addr := cr, d_compr_flags := 14,
              d_src2_addr := src2, d_src2_xfer_size := of_nat n,
              d_max_dst_size := of_nat (iaa_compress_max_dest_size hw)\<rparr>) w
       })
    }"

section \<open>The templates\<close>

text \<open>The stamp arrays \<open>ts0\<close> to \<open>ts4\<close>.\<close>

type_synonym stamps5 = "ptr \<times> ptr \<times> ptr \<times> ptr \<times> ptr"

text \<open>\<open>complete_request_and_switch_to_scheduler(arg)\<close>, the last statement of every request.\<close>

definition complete_request_and_switch_to_scheduler :: "world \<Rightarrow> world slice option" where
  "complete_request_and_switch_to_scheduler w = Some (Yield w returns)"

text \<open>The yielding templates suspend the fiber, so they take what their caller does after them.\<close>

definition generic_yielding_three_phase_timed ::
  "env \<Rightarrow> phase \<Rightarrow> ptr \<Rightarrow> ptr \<Rightarrow> nat \<Rightarrow> prep_fn \<Rightarrow> submit_fn \<Rightarrow> nat \<Rightarrow> ptr \<Rightarrow> ptr \<Rightarrow> nat \<Rightarrow>
   phase \<Rightarrow> ptr \<Rightarrow> nat \<Rightarrow> nat \<Rightarrow> stamps5 \<Rightarrow> nat \<Rightarrow> (world \<Rightarrow> world slice option) \<Rightarrow> world \<Rightarrow> world slice option" where
  "generic_yielding_three_phase_timed hw pre_proc_func pre_proc_input pre_proc_output pre_proc_input_size
      prep_func submit_func cr desc ax_func_output max_axfunc_output_size
      post_proc_func post_proc_output post_proc_input_size max_post_proc_output_size stamps idx rest w =
    (case stamps of (ts0, ts1, ts2, ts3, ts4) \<Rightarrow>
     do {
       w \<leftarrow> stamp hw ts0 idx w;
       (preproc_output_size, w) \<leftarrow> pre_proc_func pre_proc_input pre_proc_output pre_proc_input_size None w;
       ax_input_size \<leftarrow> preproc_output_size;
       let ax_func_input = pre_proc_output;
       w \<leftarrow> stamp hw ts1 idx w;
       w \<leftarrow> prep_func desc ax_func_input ax_func_output cr ax_input_size w;
       w \<leftarrow> submit_func desc w;
       w \<leftarrow> stamp hw ts2 idx w;
       Some (Yield w (\<lambda>_ w. do {
         w \<leftarrow> check_status hw cr w;
         w \<leftarrow> stamp hw ts3 idx w;
         (n, w) \<leftarrow> post_proc_func ax_func_output post_proc_output post_proc_input_size (Some max_post_proc_output_size) w;
         w \<leftarrow> stamp hw ts4 idx w;
         rest w
       }))
     })"

definition generic_yielding_three_phase ::
  "env \<Rightarrow> phase \<Rightarrow> ptr \<Rightarrow> ptr \<Rightarrow> nat \<Rightarrow> prep_fn \<Rightarrow> submit_fn \<Rightarrow> nat \<Rightarrow> ptr \<Rightarrow> ptr \<Rightarrow> nat \<Rightarrow>
   phase \<Rightarrow> ptr \<Rightarrow> nat \<Rightarrow> nat \<Rightarrow> (world \<Rightarrow> world slice option) \<Rightarrow> world \<Rightarrow> world slice option" where
  "generic_yielding_three_phase hw pre_proc_func pre_proc_input pre_proc_output pre_proc_input_size
      prep_func submit_func cr desc ax_func_output max_axfunc_output_size
      post_proc_func post_proc_output post_proc_input_size max_post_proc_output_size rest w =
    do {
      (preproc_output_size, w) \<leftarrow> pre_proc_func pre_proc_input pre_proc_output pre_proc_input_size None w;
      ax_input_size \<leftarrow> preproc_output_size;
      let ax_func_input = pre_proc_output;
      w \<leftarrow> prep_func desc ax_func_input ax_func_output cr ax_input_size w;
      w \<leftarrow> submit_func desc w;
      Some (Yield w (\<lambda>_ w. do {
        w \<leftarrow> check_status hw cr w;
        (n, w) \<leftarrow> post_proc_func ax_func_output post_proc_output post_proc_input_size (Some max_post_proc_output_size) w;
        rest w
      }))
    }"

definition generic_blocking_three_phase_timed ::
  "env \<Rightarrow> phase \<Rightarrow> ptr \<Rightarrow> ptr \<Rightarrow> nat \<Rightarrow> prep_fn \<Rightarrow> submit_fn \<Rightarrow> wait_fn \<Rightarrow> nat \<Rightarrow> ptr \<Rightarrow> ptr \<Rightarrow> nat \<Rightarrow>
   phase \<Rightarrow> ptr \<Rightarrow> nat \<Rightarrow> nat \<Rightarrow> stamps5 \<Rightarrow> nat \<Rightarrow> world \<Rightarrow> world option" where
  "generic_blocking_three_phase_timed hw pre_proc_func pre_proc_input pre_proc_output pre_proc_input_size
      prep_func submit_func post_offload_func cr desc ax_func_output max_axfunc_output_size
      post_proc_func post_proc_output post_proc_input_size max_post_proc_output_size stamps idx w =
    (case stamps of (ts0, ts1, ts2, ts3, ts4) \<Rightarrow>
     do {
       w \<leftarrow> stamp hw ts0 idx w;
       (preproc_output_size, w) \<leftarrow> pre_proc_func pre_proc_input pre_proc_output pre_proc_input_size None w;
       ax_input_size \<leftarrow> preproc_output_size;
       let ax_func_input = pre_proc_output;
       w \<leftarrow> stamp hw ts1 idx w;
       w \<leftarrow> prep_func desc ax_func_input ax_func_output cr ax_input_size w;
       w \<leftarrow> submit_func desc w;
       w \<leftarrow> stamp hw ts2 idx w;
       w \<leftarrow> post_offload_func cr w;
       w \<leftarrow> check_status hw cr w;
       w \<leftarrow> stamp hw ts3 idx w;
       (n, w) \<leftarrow> post_proc_func ax_func_output post_proc_output post_proc_input_size (Some max_post_proc_output_size) w;
       stamp hw ts4 idx w
     })"

definition generic_blocking_three_phase ::
  "env \<Rightarrow> phase \<Rightarrow> ptr \<Rightarrow> ptr \<Rightarrow> nat \<Rightarrow> prep_fn \<Rightarrow> submit_fn \<Rightarrow> wait_fn \<Rightarrow> nat \<Rightarrow> ptr \<Rightarrow> ptr \<Rightarrow> nat \<Rightarrow>
   phase \<Rightarrow> ptr \<Rightarrow> nat \<Rightarrow> nat \<Rightarrow> world \<Rightarrow> world option" where
  "generic_blocking_three_phase hw pre_proc_func pre_proc_input pre_proc_output pre_proc_input_size
      prep_func submit_func post_offload_func cr desc ax_func_output max_axfunc_output_size
      post_proc_func post_proc_output post_proc_input_size max_post_proc_output_size w =
    do {
      (preproc_output_size, w) \<leftarrow> pre_proc_func pre_proc_input pre_proc_output pre_proc_input_size None w;
      ax_input_size \<leftarrow> preproc_output_size;
      let ax_func_input = pre_proc_output;
      w \<leftarrow> prep_func desc ax_func_input ax_func_output cr ax_input_size w;
      w \<leftarrow> submit_func desc w;
      w \<leftarrow> post_offload_func cr w;
      w \<leftarrow> check_status hw cr w;
      (n, w) \<leftarrow> post_proc_func ax_func_output post_proc_output post_proc_input_size (Some max_post_proc_output_size) w;
      Some w
    }"

definition generic_gpcore_three_phase ::
  "phase \<Rightarrow> ptr \<Rightarrow> ptr \<Rightarrow> nat \<Rightarrow> phase \<Rightarrow> ptr \<Rightarrow> nat \<Rightarrow> phase \<Rightarrow> ptr \<Rightarrow> nat \<Rightarrow> nat \<Rightarrow> world \<Rightarrow> world option" where
  "generic_gpcore_three_phase pre_proc_func pre_proc_input pre_proc_output pre_proc_input_size
      ax_func ax_func_output max_axfunc_output_size
      post_proc_func post_proc_output post_proc_input_size max_post_proc_output_size w =
    do {
      (preproc_output_size, w) \<leftarrow> pre_proc_func pre_proc_input pre_proc_output pre_proc_input_size None w;
      ax_input_size \<leftarrow> preproc_output_size;
      let ax_func_input = pre_proc_output;
      (m, w) \<leftarrow> ax_func ax_func_input ax_func_output ax_input_size (Some max_axfunc_output_size) w;
      (n, w) \<leftarrow> post_proc_func ax_func_output post_proc_output post_proc_input_size (Some max_post_proc_output_size) w;
      Some w
    }"

definition generic_gpcore_three_phase_timed ::
  "env \<Rightarrow> phase \<Rightarrow> ptr \<Rightarrow> ptr \<Rightarrow> nat \<Rightarrow> phase \<Rightarrow> ptr \<Rightarrow> nat \<Rightarrow> phase \<Rightarrow> ptr \<Rightarrow> nat \<Rightarrow> nat \<Rightarrow>
   stamps5 \<Rightarrow> nat \<Rightarrow> world \<Rightarrow> world option" where
  "generic_gpcore_three_phase_timed hw pre_proc_func pre_proc_input pre_proc_output pre_proc_input_size
      ax_func ax_func_output max_axfunc_output_size
      post_proc_func post_proc_output post_proc_input_size max_post_proc_output_size stamps idx w =
    (case stamps of (ts0, ts1, ts2, ts3, ts4) \<Rightarrow>
     do {
       w \<leftarrow> stamp hw ts0 idx w;
       (preproc_output_size, w) \<leftarrow> pre_proc_func pre_proc_input pre_proc_output pre_proc_input_size None w;
       w \<leftarrow> stamp hw ts1 idx w;
       w \<leftarrow> stamp hw ts2 idx w;
       ax_input_size \<leftarrow> preproc_output_size;
       let ax_func_input = pre_proc_output;
       (m, w) \<leftarrow> ax_func ax_func_input ax_func_output ax_input_size (Some max_axfunc_output_size) w;
       w \<leftarrow> stamp hw ts3 idx w;
       (n, w) \<leftarrow> post_proc_func ax_func_output post_proc_output post_proc_input_size (Some max_post_proc_output_size) w;
       stamp hw ts4 idx w
     })"

end
