(* ===== verification/Composable_Requests.thy ===== *)
theory Composable_Requests
  imports Three_Phase
begin

text \<open>
  The requests of \<open>three_phase_composable.cpp\<close>: decompress and gather, deserialize, decompress and hash,
  decrypt, copy and score, and the two operation chains (copy then decompress or compress) on every
  combination of core and accelerator.  Each unpacks its argument struct and calls one of the
  templates; the two templates for a chain of two accelerators are here as well.
\<close>

section \<open>Chains of two accelerator operations\<close>

text \<open>One descriptor and one completion record serve both operations; the second reads what the
  first has written.\<close>

definition axcore_axcore_two_phase_timed ::
  "env \<Rightarrow> prep_fn \<Rightarrow> submit_fn \<Rightarrow> wait_fn \<Rightarrow> ptr \<Rightarrow> ptr \<Rightarrow> nat \<Rightarrow>
   prep_fn \<Rightarrow> submit_fn \<Rightarrow> wait_fn \<Rightarrow> ptr \<Rightarrow> nat \<Rightarrow> nat \<Rightarrow> nat \<Rightarrow> ptr \<Rightarrow> stamps5 \<Rightarrow> nat \<Rightarrow> world \<Rightarrow> world option" where
  "axcore_axcore_two_phase_timed hw prep_func_1 submit_func_1 post_offload_func_1
      ax_func_1_input ax_func_1_output ax_func_1_input_size
      prep_func_2 submit_func_2 post_offload_func_2
      ax_func_2_output max_axfunc_2_output_size ax_func_2_input_size cr desc stamps idx w =
    (case stamps of (ts0, ts1, ts2, ts3, ts4) \<Rightarrow>
     do {
       w \<leftarrow> stamp hw ts0 idx w;
       w \<leftarrow> prep_func_1 desc ax_func_1_input ax_func_1_output cr ax_func_1_input_size w;
       w \<leftarrow> submit_func_1 desc w;
       w \<leftarrow> stamp hw ts1 idx w;
       w \<leftarrow> post_offload_func_1 cr w;
       w \<leftarrow> check_status hw cr w;
       w \<leftarrow> stamp hw ts2 idx w;
       let ax_func_2_input = ax_func_1_output;
       w \<leftarrow> prep_func_2 desc ax_func_2_input ax_func_2_output cr ax_func_2_input_size w;
       w \<leftarrow> submit_func_2 desc w;
       w \<leftarrow> stamp hw ts3 idx w;
       w \<leftarrow> post_offload_func_2 cr w;
       w \<leftarrow> check_status hw cr w;
       stamp hw ts4 idx w
     })"

definition axcore_iaa_aecs_axcore_two_phase ::
  "env \<Rightarrow> prep_fn \<Rightarrow> submit_fn \<Rightarrow> wait_fn \<Rightarrow> ptr \<Rightarrow> ptr \<Rightarrow> nat \<Rightarrow>
   aecs_prep_fn \<Rightarrow> submit_fn \<Rightarrow> wait_fn \<Rightarrow> ptr \<Rightarrow> nat \<Rightarrow> nat \<Rightarrow> nat \<Rightarrow> ptr \<Rightarrow> ptr \<Rightarrow> stamps5 \<Rightarrow> nat \<Rightarrow>
   world \<Rightarrow> world option" where
  "axcore_iaa_aecs_axcore_two_phase hw prep_func_1 submit_func_1 post_offload_func_1
      ax_func_1_input ax_func_1_output ax_func_1_input_size
      prep_func_2 submit_func_2 post_offload_func_2
      ax_func_2_output max_axfunc_2_output_size ax_func_2_input_size cr desc aecs_buf stamps idx w =
    (case stamps of (ts0, ts1, ts2, ts3, ts4) \<Rightarrow>
     do {
       w \<leftarrow> stamp hw ts0 idx w;
       w \<leftarrow> prep_func_1 desc ax_func_1_input ax_func_1_output cr ax_func_1_input_size w;
       w \<leftarrow> submit_func_1 desc w;
       w \<leftarrow> stamp hw ts1 idx w;
       w \<leftarrow> post_offload_func_1 cr w;
       w \<leftarrow> check_status hw cr w;
       w \<leftarrow> stamp hw ts2 idx w;
       let ax_func_2_input = ax_func_1_output;
       w \<leftarrow> prep_func_2 desc ax_func_2_input aecs_buf ax_func_2_output cr ax_func_2_input_size w;
       w \<leftarrow> submit_func_2 desc w;
       w \<leftarrow> stamp hw ts3 idx w;
       w \<leftarrow> post_offload_func_2 cr w;
       w \<leftarrow> check_status hw cr w;
       stamp hw ts4 idx w
     })"

definition gpcore_iaa_aecs_axcore_gpcore_three_phase ::
  "env \<Rightarrow> phase \<Rightarrow> ptr \<Rightarrow> ptr \<Rightarrow> nat \<Rightarrow> aecs_prep_fn \<Rightarrow> submit_fn \<Rightarrow> wait_fn \<Rightarrow> nat \<Rightarrow> ptr \<Rightarrow> ptr \<Rightarrow> ptr \<Rightarrow> nat \<Rightarrow>
   phase \<Rightarrow> ptr \<Rightarrow> nat \<Rightarrow> nat \<Rightarrow> stamps5 \<Rightarrow> nat \<Rightarrow> world \<Rightarrow> world option" where
  "gpcore_iaa_aecs_axcore_gpcore_three_phase hw pre_proc_func pre_proc_input pre_proc_output pre_proc_input_size
      prep_func submit_func post_offload_func cr desc aecs_buf ax_func_output max_axfunc_output_size
      post_proc_func post_proc_output post_proc_input_size max_post_proc_output_size stamps idx w =
    (case stamps of (ts0, ts1, ts2, ts3, ts4) \<Rightarrow>
     do {
       w \<leftarrow> stamp hw ts0 idx w;
       (preproc_output_size, w) \<leftarrow> pre_proc_func pre_proc_input pre_proc_output pre_proc_input_size None w;
       ax_input_size \<leftarrow> preproc_output_size;
       let ax_func_input = pre_proc_output;
       w \<leftarrow> stamp hw ts1 idx w;
       w \<leftarrow> prep_func desc ax_func_input aecs_buf ax_func_output cr ax_input_size w;
       w \<leftarrow> submit_func desc w;
       w \<leftarrow> stamp hw ts2 idx w;
       w \<leftarrow> post_offload_func cr w;
       w \<leftarrow> check_status hw cr w;
       w \<leftarrow> stamp hw ts3 idx w;
       (n, w) \<leftarrow> post_proc_func ax_func_output post_proc_output post_proc_input_size (Some max_post_proc_output_size) w;
       stamp hw ts4 idx w
     })"

text \<open>The end of a request that does not suspend itself.\<close>

definition then_complete :: "world option \<Rightarrow> world slice option" where
  "then_complete r = Option.bind r complete_request_and_switch_to_scheduler"

definition stamps_of :: "offload_args \<Rightarrow> stamps5" where
  "stamps_of args = (a_ts0 args, a_ts1 args, a_ts2 args, a_ts3 args, a_ts4 args)"

section \<open>Decompress and gather\<close>

definition decomp_gather_gpcore_stamped :: "env \<Rightarrow> offload_args \<Rightarrow> world \<Rightarrow> world slice option" where
  "decomp_gather_gpcore_stamped hw args w =
    then_complete (generic_gpcore_three_phase_timed hw
      null_fn (a_pre_proc_input args) (a_pre_proc_output args) (a_pre_proc_input_size args)
      (inflate_phase hw) (a_ax_func_output args) (a_max_axfunc_output_size args)
      (gather_access hw) (a_post_proc_output args) (a_post_proc_input_size args) (a_max_post_proc_output_size args)
      (stamps_of args) (a_id args) w)"

definition decomp_gather_gpcore :: "env \<Rightarrow> offload_args \<Rightarrow> world \<Rightarrow> world slice option" where
  "decomp_gather_gpcore hw args w =
    then_complete (generic_gpcore_three_phase
      null_fn (a_pre_proc_input args) (a_pre_proc_output args) (a_pre_proc_input_size args)
      (inflate_phase hw) (a_ax_func_output args) (a_max_axfunc_output_size args)
      (gather_access hw) (a_post_proc_output args) (a_post_proc_input_size args) (a_max_post_proc_output_size args) w)"

definition decomp_gather_blocking_stamped :: "env \<Rightarrow> offload_args \<Rightarrow> world \<Rightarrow> world slice option" where
  "decomp_gather_blocking_stamped hw args w =
    then_complete (generic_blocking_three_phase_timed hw
      null_fn (a_pre_proc_input args) (a_pre_proc_output args) (a_pre_proc_input_size args)
      (prepare_iaa_decompress_desc_with_preallocated_comp hw) (blocking_iaa_submit hw) (spin_on hw) (a_comp args) (a_desc args)
      (a_ax_func_output args) (a_max_axfunc_output_size args)
      (gather_access hw) (a_post_proc_output args) (a_post_proc_input_size args) (a_max_post_proc_output_size args)
      (stamps_of args) (a_id args) w)"

definition decomp_gather_blocking :: "env \<Rightarrow> offload_args \<Rightarrow> world \<Rightarrow> world slice option" where
  "decomp_gather_blocking hw args w =
    then_complete (generic_blocking_three_phase hw
      null_fn (a_pre_proc_input args) (a_pre_proc_output args) (a_pre_proc_input_size args)
      (prepare_iaa_decompress_desc_with_preallocated_comp hw) (blocking_iaa_submit hw) (spin_on hw) (a_comp args) (a_desc args)
      (a_ax_func_output args) (a_max_axfunc_output_size args)
      (gather_access hw) (a_post_proc_output args) (a_post_proc_input_size args) (a_max_post_proc_output_size args) w)"

definition decomp_gather_yielding_stamped :: "env \<Rightarrow> offload_args \<Rightarrow> world \<Rightarrow> world slice option" where
  "decomp_gather_yielding_stamped hw args =
    generic_yielding_three_phase_timed hw
      null_fn (a_pre_proc_input args) (a_pre_proc_output args) (a_pre_proc_input_size args)
      (prepare_iaa_decompress_desc_with_preallocated_comp hw) (blocking_iaa_submit hw) (a_comp args) (a_desc args)
      (a_ax_func_output args) (a_max_axfunc_output_size args)
      (gather_access hw) (a_post_proc_output args) (a_post_proc_input_size args) (a_max_post_proc_output_size args) (stamps_of args) (a_id args)
      complete_request_and_switch_to_scheduler"

definition decomp_gather_yielding :: "env \<Rightarrow> offload_args \<Rightarrow> world \<Rightarrow> world slice option" where
  "decomp_gather_yielding hw args =
    generic_yielding_three_phase hw
      null_fn (a_pre_proc_input args) (a_pre_proc_output args) (a_pre_proc_input_size args)
      (prepare_iaa_decompress_desc_with_preallocated_comp hw) (blocking_iaa_submit hw) (a_comp args) (a_desc args)
      (a_ax_func_output args) (a_max_axfunc_output_size args)
      (gather_access hw) (a_post_proc_output args) (a_post_proc_input_size args) (a_max_post_proc_output_size args)
      complete_request_and_switch_to_scheduler"

section \<open>Decrypt, copy and score\<close>

text \<open>The copy descriptor goes to the work queue of the IAA (the handle \<open>iaa\<close> is passed).\<close>

definition decrypt_memcpy_score_blocking_stamped :: "env \<Rightarrow> offload_args \<Rightarrow> world \<Rightarrow> world slice option" where
  "decrypt_memcpy_score_blocking_stamped hw args w =
    then_complete (generic_blocking_three_phase_timed hw
      (decrypt_feature hw) (a_pre_proc_input args) (a_pre_proc_output args) (a_pre_proc_input_size args)
      (prepare_dsa_memcpy_desc_with_preallocated_comp hw) (blocking_submit hw IAA) (spin_on hw) (a_comp args) (a_desc args)
      (a_ax_func_output args) (a_max_axfunc_output_size args)
      score (a_post_proc_output args) (a_post_proc_input_size args) (a_max_post_proc_output_size args)
      (stamps_of args) (a_id args) w)"

section \<open>Deserialize, decompress and hash\<close>

definition deser_decomp_hash_blocking_stamped :: "env \<Rightarrow> offload_args \<Rightarrow> world \<Rightarrow> world slice option" where
  "deser_decomp_hash_blocking_stamped hw args w =
    then_complete (generic_blocking_three_phase_timed hw
      (deser_from_buf hw) (a_pre_proc_input args) (a_pre_proc_output args) (a_pre_proc_input_size args)
      (prepare_iaa_decompress_desc_with_preallocated_comp hw) (blocking_iaa_submit hw) (spin_on hw) (a_comp args) (a_desc args)
      (a_ax_func_output args) (a_max_axfunc_output_size args)
      (hash_buf hw) (a_post_proc_output args) (a_post_proc_input_size args) (a_max_post_proc_output_size args)
      (stamps_of args) (a_id args) w)"

definition deser_decomp_hash_yielding_stamped :: "env \<Rightarrow> offload_args \<Rightarrow> world \<Rightarrow> world slice option" where
  "deser_decomp_hash_yielding_stamped hw args =
    generic_yielding_three_phase_timed hw
      (deser_from_buf hw) (a_pre_proc_input args) (a_pre_proc_output args) (a_pre_proc_input_size args)
      (prepare_iaa_decompress_desc_with_preallocated_comp hw) (blocking_iaa_submit hw) (a_comp args) (a_desc args)
      (a_ax_func_output args) (a_max_axfunc_output_size args)
      (hash_buf hw) (a_post_proc_output args) (a_post_proc_input_size args) (a_max_post_proc_output_size args) (stamps_of args) (a_id args)
      complete_request_and_switch_to_scheduler"

definition deser_decomp_hash_yielding :: "env \<Rightarrow> offload_args \<Rightarrow> world \<Rightarrow> world slice option" where
  "deser_decomp_hash_yielding hw args =
    generic_yielding_three_phase hw
      (deser_from_buf hw) (a_pre_proc_input args) (a_pre_proc_output args) (a_pre_proc_input_size args)
      (prepare_iaa_decompress_desc_with_preallocated_comp hw) (blocking_iaa_submit hw) (a_comp args) (a_desc args)
      (a_ax_func_output args) (a_max_axfunc_output_size args)
      (hash_buf hw) (a_post_proc_output args) (a_post_proc_input_size args) (a_max_post_proc_output_size args)
      complete_request_and_switch_to_scheduler"

definition deser_decomp_hash_blocking :: "env \<Rightarrow> offload_args \<Rightarrow> world \<Rightarrow> world slice option" where
  "deser_decomp_hash_blocking hw args w =
    then_complete (generic_blocking_three_phase hw
      (deser_from_buf hw) (a_pre_proc_input args) (a_pre_proc_output args) (a_pre_proc_input_size args)
      (prepare_iaa_decompress_desc_with_preallocated_comp hw) (blocking_iaa_submit hw) (spin_on hw) (a_comp args) (a_desc args)
      (a_ax_func_output args) (a_max_axfunc_output_size args)
      (hash_buf hw) (a_post_proc_output args) (a_post_proc_input_size args) (a_max_post_proc_output_size args) w)"

definition deser_decomp_hash_gpcore_stamped :: "env \<Rightarrow> offload_args \<Rightarrow> world \<Rightarrow> world slice option" where
  "deser_decomp_hash_gpcore_stamped hw args w =
    then_complete (generic_gpcore_three_phase_timed hw
      (deser_from_buf hw) (a_pre_proc_input args) (a_pre_proc_output args) (a_pre_proc_input_size args)
      (inflate_phase hw) (a_ax_func_output args) (a_max_axfunc_output_size args)
      (hash_buf hw) (a_post_proc_output args) (a_post_proc_input_size args) (a_max_post_proc_output_size args)
      (stamps_of args) (a_id args) w)"

definition deser_decomp_hash_gpcore :: "env \<Rightarrow> offload_args \<Rightarrow> world \<Rightarrow> world slice option" where
  "deser_decomp_hash_gpcore hw args w =
    then_complete (generic_gpcore_three_phase
      (deser_from_buf hw) (a_pre_proc_input args) (a_pre_proc_output args) (a_pre_proc_input_size args)
      (inflate_phase hw) (a_ax_func_output args) (a_max_axfunc_output_size args)
      (hash_buf hw) (a_post_proc_output args) (a_post_proc_input_size args) (a_max_post_proc_output_size args) w)"

section \<open>Copy, then decompress or compress\<close>

definition memcpy_decomp_axcore_gpcore_stamped :: "env \<Rightarrow> offload_args \<Rightarrow> world \<Rightarrow> world slice option" where
  "memcpy_decomp_axcore_gpcore_stamped hw args w =
    then_complete (generic_blocking_three_phase_timed hw
      null_fn (a_pre_proc_input args) (a_pre_proc_output args) (a_pre_proc_input_size args)
      (prepare_dsa_memcpy_desc_with_preallocated_comp hw) (blocking_dsa_submit hw) (spin_on hw) (a_comp args) (a_desc args)
      (a_ax_func_output args) (a_max_axfunc_output_size args)
      (inflate_phase hw) (a_post_proc_output args) (a_post_proc_input_size args) (a_max_post_proc_output_size args)
      (stamps_of args) (a_id args) w)"

definition memcpy_decomp_axcore_axcore_stamped :: "env \<Rightarrow> offload_args \<Rightarrow> world \<Rightarrow> world slice option" where
  "memcpy_decomp_axcore_axcore_stamped hw args w =
    then_complete (axcore_axcore_two_phase_timed hw
      (prepare_dsa_memcpy_desc_with_preallocated_comp hw) (blocking_dsa_submit hw) (spin_on hw)
      (a_pre_proc_input args) (a_pre_proc_output args) (a_pre_proc_input_size args)
      (prepare_iaa_decompress_desc_with_preallocated_comp hw) (blocking_iaa_submit hw) (spin_on hw)
      (a_ax_func_output args) (a_max_axfunc_output_size args) (a_ax_func_input_size args)
      (a_comp args) (a_desc args) (stamps_of args) (a_id args) w)"

definition memcpy_comp_axcore_axcore_stamped :: "env \<Rightarrow> offload_args \<Rightarrow> world \<Rightarrow> world slice option" where
  "memcpy_comp_axcore_axcore_stamped hw args w =
    then_complete (axcore_iaa_aecs_axcore_two_phase hw
      (prepare_dsa_memcpy_desc_with_preallocated_comp hw) (blocking_dsa_submit hw) (spin_on hw)
      (a_pre_proc_input args) (a_pre_proc_output args) (a_pre_proc_input_size args)
      (prepare_iaa_compress_desc_and_aecs_with_preallocated_comp hw) (blocking_iaa_submit hw) (spin_on hw)
      (a_ax_func_output args) (a_max_axfunc_output_size args) (a_ax_func_input_size args)
      (a_comp args) (a_desc args) (a_aecs args) (stamps_of args) (a_id args) w)"

definition memcpy_decomp_gpcore_gpcore_stamped :: "env \<Rightarrow> offload_args \<Rightarrow> world \<Rightarrow> world slice option" where
  "memcpy_decomp_gpcore_gpcore_stamped hw args w =
    then_complete (generic_gpcore_three_phase_timed hw
      null_fn (a_pre_proc_input args) (a_pre_proc_output args) (a_pre_proc_input_size args)
      gpcore_do_memcpy (a_ax_func_output args) (a_max_axfunc_output_size args)
      (inflate_phase hw) (a_post_proc_output args) (a_post_proc_input_size args) (a_max_post_proc_output_size args)
      (stamps_of args) (a_id args) w)"

definition memcpy_decomp_gpcore_axcore_stamped :: "env \<Rightarrow> offload_args \<Rightarrow> world \<Rightarrow> world slice option" where
  "memcpy_decomp_gpcore_axcore_stamped hw args w =
    then_complete (generic_blocking_three_phase_timed hw
      gpcore_do_memcpy (a_pre_proc_input args) (a_pre_proc_output args) (a_pre_proc_input_size args)
      (prepare_iaa_decompress_desc_with_preallocated_comp hw) (blocking_iaa_submit hw) (spin_on hw) (a_comp args) (a_desc args)
      (a_ax_func_output args) (a_max_axfunc_output_size args)
      null_fn (a_post_proc_output args) (a_post_proc_input_size args) (a_max_post_proc_output_size args)
      (stamps_of args) (a_id args) w)"

definition memcpy_comp_gpcore_axcore_stamped :: "env \<Rightarrow> offload_args \<Rightarrow> world \<Rightarrow> world slice option" where
  "memcpy_comp_gpcore_axcore_stamped hw args w =
    then_complete (gpcore_iaa_aecs_axcore_gpcore_three_phase hw
      gpcore_do_memcpy (a_pre_proc_input args) (a_pre_proc_output args) (a_pre_proc_input_size args)
      (prepare_iaa_compress_desc_and_aecs_with_preallocated_comp hw) (blocking_iaa_submit hw) (spin_on hw)
      (a_comp args) (a_desc args) (a_aecs args)
      (a_ax_func_output args) (a_max_axfunc_output_size args)
      null_fn (a_post_proc_output args) (a_post_proc_input_size args) (a_max_post_proc_output_size args)
      (stamps_of args) (a_id args) w)"

end
