(* ===== verification/Three_Phase_Contracts.thy ===== *)
theory Three_Phase_Contracts
  imports Composable_Requests
begin

text \<open>
  What the composable requests promise their executors.  A phase and an accelerator operation each
  have a contract (the locales \<open>phase_fn\<close> and \<open>launcher\<close>, interpreted on all of them), the templates
  are verified once for every combination (\<open>core_offload_core\<close>), and the requests are instances.
  All contracts are about the shape of the heap: which buffers there are, and how large.
\<close>

section \<open>Phases\<close>

text \<open>A phase in a heap of shape \<open>K\<close>.\<close>

definition phase_ok :: "env \<Rightarrow> shape \<Rightarrow> (world \<Rightarrow> (nat option \<times> world) option) \<Rightarrow> (nat option \<Rightarrow> bool) \<Rightarrow> bool" where
  "phase_ok hw K f P \<longleftrightarrow> (\<forall>w. shape w = K \<longrightarrow> (\<exists>v w'. f w = Some (v, w') \<and> later hw w w' \<and> P v))"

text \<open>\<open>needs K inp out sz room\<close> is what a phase asks of its buffers in a heap of shape \<open>K\<close>, of the
  input size and of the initial output size, and \<open>gives sz room v\<close> what is known of the final one.\<close>

locale phase_fn =
  fixes hw :: env and f :: phase
    and needs :: "shape \<Rightarrow> ptr \<Rightarrow> ptr \<Rightarrow> nat \<Rightarrow> nat option \<Rightarrow> bool" and gives :: "nat \<Rightarrow> nat option \<Rightarrow> nat option \<Rightarrow> bool"
  assumes phase_returns: "needs K inp out sz room \<Longrightarrow> shape w = K \<Longrightarrow>
      \<exists>v w'. f inp out sz room w = Some (v, w') \<and> later hw w w' \<and> gives sz room v"
begin

lemma phase: "needs K inp out sz room \<Longrightarrow> phase_ok hw K (f inp out sz room) (gives sz room)"
  using phase_returns by (auto simp: phase_ok_def)

end

interpretation null_phase: phase_fn hw null_fn "\<lambda>_ _ _ _ _. True" "\<lambda>sz _ v. v = Some sz" for hw
  by unfold_locales (auto simp: null_fn_def)

lemma buffer_iff: "buffer_of (shape w) p sz \<longleftrightarrow> (\<exists>bs. get_bytes p w = Some bs \<and> sz \<le> length bs)"
  by (auto simp: buffer_of_def kinds_bytes)

definition copy_needs :: "shape \<Rightarrow> ptr \<Rightarrow> ptr \<Rightarrow> nat \<Rightarrow> nat option \<Rightarrow> bool" where
  "copy_needs K inp out sz room \<longleftrightarrow> buffer_of K inp sz \<and> buffer_of K out sz"

interpretation memcpy_phase: phase_fn hw gpcore_do_memcpy copy_needs "\<lambda>sz _ v. v = Some sz" for hw
proof
  fix K inp out sz room w assume n: "copy_needs K inp out sz room" and w: "shape w = K"
  obtain s d where "get_bytes inp w = Some s" "sz \<le> length s" "get_bytes out w = Some d" "sz \<le> length d"
    using n w by (auto simp: copy_needs_def buffer_iff)
  then show "\<exists>v w'. gpcore_do_memcpy inp out sz room w = Some (v, w') \<and> later hw w w' \<and> v = Some sz"
    by (auto simp: gpcore_do_memcpy_def memcpy_def intro!: later_set_bytes)
qed

interpretation decrypt_phase: phase_fn hw "decrypt_feature hw" copy_needs "\<lambda>sz _ v. v = Some sz" for hw
proof
  fix K inp out sz room w assume n: "copy_needs K inp out sz room" and w: "shape w = K"
  obtain s d where "get_bytes inp w = Some s" "sz \<le> length s" "get_bytes out w = Some d" "sz \<le> length d"
    using n w by (auto simp: copy_needs_def buffer_iff)
  then show "\<exists>v w'. decrypt_feature hw inp out sz room w = Some (v, w') \<and> later hw w w' \<and> v = Some sz"
    by (auto simp: decrypt_feature_def intro!: later_set_bytes split: option.splits)
qed

definition inflate_needs :: "env \<Rightarrow> shape \<Rightarrow> ptr \<Rightarrow> ptr \<Rightarrow> nat \<Rightarrow> nat option \<Rightarrow> bool" where
  "inflate_needs hw K inp out sz room \<longleftrightarrow> inflate_ok hw \<and> buffer_of K inp sz \<and> (\<exists>r. room = Some r \<and> buffer_of K out r)"

lemma gpcore_do_deflate_decompress_ok:
  assumes "inflate_ok hw" and "kinds w dst = Some (KBytes m)" and "kinds w src = Some (KBytes l)" and "room \<le> m"
  shows "\<exists>k w'. gpcore_do_deflate_decompress hw src dst sz room w = Some (k, w') \<and> later hw w w' \<and> k \<le> room"
proof -
  have "gpcore_do_deflate_decompress hw src dst sz room w =
      map_option (\<lambda>(ret, n, w). (n, w)) (gpcore_do_decompress hw dst src sz room w)"
    by (auto simp: gpcore_do_deflate_decompress_def gpcore_do_decompress_def Let_def split: option.splits sum.splits bind_splits)
  with gpcore_do_decompress_ok [OF assms, of sz] show ?thesis by auto
qed

interpretation inflating: phase_fn hw "inflate_phase hw" "inflate_needs hw" "\<lambda>sz room v. \<exists>k r. v = Some k \<and> room = Some r \<and> k \<le> r" for hw
proof
  fix K inp out sz room w assume n: "inflate_needs hw K inp out sz room" and w: "shape w = K"
  then obtain r m l where r: "room = Some r" "kinds w out = Some (KBytes m)" "r \<le> m" "kinds w inp = Some (KBytes l)"
    "inflate_ok hw" by (auto simp: inflate_needs_def buffer_of_def)
  from gpcore_do_deflate_decompress_ok [OF r(5,2,4,3), of sz] r(1)
  show "\<exists>v w'. inflate_phase hw inp out sz room w = Some (v, w') \<and> later hw w w' \<and> (\<exists>k r. v = Some k \<and> room = Some r \<and> k \<le> r)"
    by (auto simp: inflate_phase_def)
qed

text \<open>The gather reads through the global index array.\<close>

definition gather_needs :: "env \<Rightarrow> shape \<Rightarrow> ptr \<Rightarrow> ptr \<Rightarrow> nat \<Rightarrow> nat option \<Rightarrow> bool" where
  "gather_needs hw K inp out sz room \<longleftrightarrow> (\<exists>m S l. blocks K (indir_at K) = Some (KInts m S) \<and> num_accesses hw \<le> m \<and>
    blocks K inp = Some (KBytes l) \<and> (\<forall>j \<in> S. 0 \<le> j \<and> 4 * nat j + 4 \<le> l) \<and> buffer_of K out (4 * num_accesses hw))"

lemma load32_returns: "i + 4 \<le> length bs \<Longrightarrow> \<exists>v. load32 bs i = Some v"
  by (simp add: load32_def)

lemma store32_returns: "i + 4 \<le> length bs \<Longrightarrow> \<exists>bs'. store32 bs i v = Some bs' \<and> length bs' = length bs"
  by (simp add: store32_def)

lemma gather_step_ok:
  assumes "gather_needs hw K inp out sz room" and "shape w = K" and "i < num_accesses hw"
  shows "\<exists>w'. gather_step inp out i w = Some w' \<and> later hw w w' \<and> shape w' = K"
proof -
  obtain m S l where n: "kinds w (g_indir_arr w) = Some (KInts m S)" "num_accesses hw \<le> m" "kinds w inp = Some (KBytes l)"
    "\<forall>j \<in> S. 0 \<le> j \<and> 4 * nat j + 4 \<le> l" "buffer_of K out (4 * num_accesses hw)"
    using assms(1,2) unfolding gather_needs_def by auto
  from n(1) obtain xs where xs: "get_ints (g_indir_arr w) w = Some xs" "length xs = m" "set xs = S" by (auto simp: kinds_ints)
  have i: "arr_get xs (int i) = Some (xs ! i)" using n(2) xs(2) assms(3) by (intro arr_get_nat) simp
  have j: "0 \<le> xs ! i" "4 * nat (xs ! i) + 4 \<le> l" using n(2,4) xs assms(3) nth_mem [of i xs] by auto
  from n(3) obtain src where src: "get_bytes inp w = Some src" "length src = l" by (auto simp: kinds_bytes)
  obtain v where v: "load32 src (4 * nat (xs ! i)) = Some v" using load32_returns j(2) src(2) by blast
  obtain dst where dst: "get_bytes out w = Some dst" "4 * num_accesses hw \<le> length dst" using n(5) assms(2) by (auto simp: buffer_iff)
  obtain dst' where d: "store32 dst (4 * i) v = Some dst'" "length dst' = length dst"
    using store32_returns [of "4 * i" dst v] dst(2) assms(3) by auto
  have "gather_step inp out i w = Some (set_bytes out dst' w)"
    using xs(1) i j(1) src(1) v dst(1) d(1) by (simp add: gather_step_def)
  moreover have l: "later hw w (set_bytes out dst' w)" by (rule later_set_bytes [OF dst(1) d(2)])
  ultimately show ?thesis using later_shape [OF l] assms(2) by simp
qed

lemma foldM_later:
  assumes "\<And>i w. i \<in> set is \<Longrightarrow> shape w = K \<Longrightarrow> \<exists>w'. f i w = Some w' \<and> later hw w w' \<and> shape w' = K" and "shape w = K"
  shows "\<exists>w'. foldM f is w = Some w' \<and> later hw w w'"
  using assms
proof (induction "is" arbitrary: w)
  case (Cons i "is")
  obtain w1 where 1: "f i w = Some w1" "later hw w w1" "shape w1 = K" using Cons.prems(1) [of i w] Cons.prems(2) by auto
  obtain w2 where 2: "foldM f is w1 = Some w2" "later hw w1 w2"
    using Cons.IH [OF _ 1(3)] Cons.prems(1) by (metis list.set_intros(2))
  with 1 later_trans [OF 1(2) 2(2)] show ?case by auto
qed simp

interpretation gathering: phase_fn hw "gather_access hw" "gather_needs hw" "\<lambda>sz _ v. v = Some sz" for hw
proof
  fix K inp out sz room w assume n: "gather_needs hw K inp out sz room" and w: "shape w = K"
  have "\<exists>w'. foldM (gather_step inp out) [0..<num_accesses hw] w = Some w' \<and> later hw w w'"
    by (rule foldM_later [OF _ w]) (use gather_step_ok [OF n] in auto)
  then show "\<exists>v w'. gather_access hw inp out sz room w = Some (v, w') \<and> later hw w w' \<and> v = Some sz"
    by (auto simp: gather_access_def)
qed

interpretation scoring: phase_fn hw score "\<lambda>K inp _ sz _. buffer_of K inp sz" "\<lambda>_ room v. v = room" for hw
proof
  fix K inp out sz room w assume n: "buffer_of K inp sz" and w: "shape w = K"
  have "\<exists>w'. foldM (score_step inp) [0..<sz div 4] w = Some w' \<and> later hw w w'"
  proof (rule foldM_later [OF _ w])
    fix i w assume i: "i \<in> set [0..<sz div 4]" and s: "shape w = K"
    obtain bs where bs: "get_bytes inp w = Some bs" "sz \<le> length bs" using n s by (auto simp: buffer_iff)
    have "4 * i + 4 \<le> length bs" using i bs(2) by auto
    with load32_returns bs(1) s show "\<exists>w'. score_step inp i w = Some w' \<and> later hw w w' \<and> shape w' = K"
      by (fastforce simp: score_step_def)
  qed
  then show "\<exists>v w'. score inp out sz room w = Some (v, w') \<and> later hw w w' \<and> v = room"
    by (auto simp: score_def)
qed

text \<open>The value of a request must fit into the output buffer.\<close>

definition deser_needs :: "env \<Rightarrow> shape \<Rightarrow> ptr \<Rightarrow> ptr \<Rightarrow> nat \<Rightarrow> nat option \<Rightarrow> bool" where
  "deser_needs hw K inp out sz room \<longleftrightarrow> buffer_of K inp sz \<and>
    (\<exists>m. blocks K out = Some (KBytes m) \<and> (\<forall>bs. length bs = sz \<longrightarrow> length (parse_value hw bs) \<le> m))"

definition deser_gives :: "env \<Rightarrow> nat \<Rightarrow> nat option \<Rightarrow> nat option \<Rightarrow> bool" where
  "deser_gives hw sz room v \<longleftrightarrow> (\<exists>bs. length bs = sz \<and> v = Some (length (parse_value hw bs)))"

interpretation deserializing: phase_fn hw "deser_from_buf hw" "deser_needs hw" "deser_gives hw" for hw
proof
  fix K inp out sz room w assume n: "deser_needs hw K inp out sz room" and w: "shape w = K"
  obtain s where s: "get_bytes inp w = Some s" "sz \<le> length s" using n w by (auto simp: deser_needs_def buffer_iff)
  obtain d where d: "get_bytes out w = Some d" "length (parse_value hw (take sz s)) \<le> length d"
    using n w s(2) by (auto simp: deser_needs_def kinds_bytes)
  have "deser_gives hw sz room (Some (length (parse_value hw (take sz s))))"
    unfolding deser_gives_def using s(2) by (intro exI [of _ "take sz s"]) simp
  with s d show "\<exists>v w'. deser_from_buf hw inp out sz room w = Some (v, w') \<and> later hw w w' \<and> deser_gives hw sz room v"
    by (auto simp: deser_from_buf_def Let_def intro!: later_set_bytes)
qed

definition hash_needs :: "env \<Rightarrow> shape \<Rightarrow> ptr \<Rightarrow> ptr \<Rightarrow> nat \<Rightarrow> nat option \<Rightarrow> bool" where
  "hash_needs hw K inp out sz room \<longleftrightarrow> env_ok hw \<and> buffer_of K inp sz \<and> buffer_of K out 4"

interpretation hashing: phase_fn hw "hash_buf hw" "hash_needs hw" "\<lambda>_ _ v. v = Some 4" for hw
proof
  fix K inp out sz room w assume n: "hash_needs hw K inp out sz room" and w: "shape w = K"
  obtain s d where s: "get_bytes inp w = Some s" "sz \<le> length s" "get_bytes out w = Some d" "4 \<le> length d"
    using n w by (auto simp: hash_needs_def buffer_iff)
  obtain h where h: "furc_hash (Some (\<lambda>i. s ! i)) sz 16 (hash_garbage hw) = Some h"
    using furc_hash_env n unfolding hash_needs_def by blast
  obtain d' where "store32 d 0 h = Some d'" "length d' = length d" using store32_returns [of 0 d h] s(4) by auto
  with s h show "\<exists>v w'. hash_buf hw inp out sz room w = Some (v, w') \<and> later hw w w' \<and> v = Some 4"
    by (auto simp: hash_buf_def intro!: later_set_bytes)
qed

section \<open>Operations of the accelerator\<close>

text \<open>Building a descriptor and submitting it launches the operation of completion record \<open>i\<close>.\<close>

locale launcher =
  fixes hw :: env and prep :: prep_fn and submit :: submit_fn and ready :: "shape \<Rightarrow> bool"
  assumes launches: "env_ok hw \<Longrightarrow> ready K \<Longrightarrow> blocks K desc = Some KDesc \<Longrightarrow> shape w = K \<Longrightarrow> i < length (crs w) \<Longrightarrow>
      \<exists>w'. Option.bind (prep desc src dst i sz w) (submit desc) = Some w' \<and> launched i w w'"

interpretation decompressing: launcher hw "prepare_iaa_decompress_desc_with_preallocated_comp hw" "blocking_iaa_submit hw" "\<lambda>_. True" for hw
proof
  fix K desc w i src dst sz assume hw: "env_ok hw" and k: "blocks K desc = Some KDesc" "shape w = K" "i < length (crs w)"
  from launch_iaa_decompress [OF hw k(1,3,2) refl, where h = Some and src = src and dst = dst and sz = sz]
  show "\<exists>w'. Option.bind (prepare_iaa_decompress_desc_with_preallocated_comp hw desc src dst i sz w) (blocking_iaa_submit hw desc) =
      Some w' \<and> launched i w w'" by auto
qed

lemma launch_copy:
  assumes "env_ok hw" and "blocks K desc = Some KDesc" and "shape w = K" and "i < length (crs w)"
  shows "\<exists>w'. Option.bind (prepare_dsa_memcpy_desc_with_preallocated_comp hw desc src dst i sz w) (blocking_submit hw q desc) =
    Some w' \<and> launched i w w'"
proof -
  have "kinds w desc = Some KDesc" using assms by auto
  then obtain w1 d where p: "prepare_dsa_memcpy_desc_with_preallocated_comp hw desc src dst i sz w = Some w1"
    "prepared i desc d w w1" using prepare_ok(3) [OF _ assms(4)] by blast
  from launch_prepared [OF assms(1) p(2) assms(4)] p(1) show ?thesis by auto
qed

interpretation copying: launcher hw "prepare_dsa_memcpy_desc_with_preallocated_comp hw" "blocking_dsa_submit hw" "\<lambda>_. True" for hw
  by unfold_locales (simp add: blocking_dsa_submit_def launch_copy)

interpretation misdirected_copying: launcher hw "prepare_dsa_memcpy_desc_with_preallocated_comp hw" "blocking_submit hw IAA" "\<lambda>_. True" for hw
  by unfold_locales (rule launch_copy)

text \<open>The compression state is written into a buffer of the request first.\<close>

definition aecs_ready :: "env \<Rightarrow> ptr \<Rightarrow> shape \<Rightarrow> bool" where
  "aecs_ready hw aecs K \<longleftrightarrow> buffer_of K aecs (iaa_compress_aecs_size hw) \<and>
    iaa_compress_aecs_size hw \<le> length (iaa_compress_aecs hw)"

lemma prepare_aecs_ok:
  assumes "aecs_ready hw aecs K" and "blocks K desc = Some KDesc" and "shape w = K" and "i < length (crs w)" and "desc \<noteq> aecs"
  shows "\<exists>w' d. prepare_iaa_compress_desc_and_aecs_with_preallocated_comp hw desc src aecs dst i sz w = Some w' \<and>
    prepared i desc d w w'"
proof -
  obtain s where s: "get_bytes aecs w = Some s" "iaa_compress_aecs_size hw \<le> length s"
    using assms(1,3) by (auto simp: aecs_ready_def buffer_iff)
  let ?n = "iaa_compress_aecs_size hw"
  let ?w = "set_bytes aecs (take ?n (iaa_compress_aecs hw) @ drop ?n s) w"
  have "later hw w ?w" by (rule later_set_bytes [OF s(1)]) (use assms(1) s(2) in \<open>simp add: aecs_ready_def\<close>)
  then have w: "shape ?w = K" using later_shape assms(3) by simp
  then have k: "kinds ?w desc = Some KDesc" using assms(2) by auto
  have f: "crs ?w = crs w" "polls ?w = polls w" "obs ?w = obs w" "enqs ?w = enqs w" "nxt ?w = nxt w"
    "requests_completed ?w = requests_completed w" by (simp_all add: set_bytes_def)
  have r: "prepare_iaa_compress_desc_and_aecs_with_preallocated_comp hw desc src aecs dst i sz w =
      prepare_iaa_compress_desc_with_preallocated_comp hw desc src aecs dst i sz ?w"
    using s assms(1) by (simp add: prepare_iaa_compress_desc_and_aecs_with_preallocated_comp_def
        prepare_iaa_compress_desc_with_preallocated_comp_def aecs_ready_def Let_def)
  have "i < length (crs ?w)" using assms(4) by (simp only: f)
  from prepare_ok(2) [OF k this, of hw src aecs dst sz] obtain w' d where
    p: "prepare_iaa_compress_desc_with_preallocated_comp hw desc src aecs dst i sz ?w = Some w'" "prepared i desc d ?w w'" by blast
  have "prepared i desc d w w'" using p(2) w assms(3) unfolding prepared_def by (simp only: f)
  with r p(1) show ?thesis by auto
qed

interpretation compressing: launcher hw "\<lambda>desc src. prepare_iaa_compress_desc_and_aecs_with_preallocated_comp hw desc src aecs"
    "blocking_iaa_submit hw" "aecs_ready hw aecs" for hw aecs
proof
  fix K desc w i src dst sz
  assume hw: "env_ok hw" and k: "aecs_ready hw aecs K" "blocks K desc = Some KDesc" "shape w = K" "i < length (crs w)"
  have "desc \<noteq> aecs" using k(1,2) by (auto simp: aecs_ready_def buffer_of_def)
  from prepare_aecs_ok [OF k this] obtain w1 d where
    p: "prepare_iaa_compress_desc_and_aecs_with_preallocated_comp hw desc src aecs dst i sz w = Some w1" "prepared i desc d w w1" by blast
  from launch_prepared [OF hw p(2) k(4), of IAA] p(1)
  show "\<exists>w'. Option.bind (prepare_iaa_compress_desc_and_aecs_with_preallocated_comp hw desc src aecs dst i sz w) (blocking_iaa_submit hw desc) =
      Some w' \<and> launched i w w'" by (auto simp: blocking_iaa_submit_def)
qed

section \<open>The calculus\<close>

text \<open>The rest of a request that submits \<open>m\<close> operations, all for completion record \<open>i\<close>, and switches
  back without counting itself; and such a rest that first waits for an operation under way.\<close>

definition runs :: "nat \<Rightarrow> shape \<Rightarrow> nat \<Rightarrow> nat \<Rightarrow> (world \<Rightarrow> world slice option) \<Rightarrow> bool" where
  "runs m K n i h \<longleftrightarrow> (\<forall>w. shape w = K \<longrightarrow> length (crs w) = n \<longrightarrow>
    (\<exists>w' k. h w = Some (Yield w' k) \<and> shape w' = K \<and> length (crs w') = n \<and>
      requests_completed w' = requests_completed w \<and> submit_order w' = submit_order w @ replicate m i))"

definition waits :: "nat \<Rightarrow> shape \<Rightarrow> nat \<Rightarrow> nat \<Rightarrow> (world \<Rightarrow> world slice option) \<Rightarrow> bool" where
  "waits m K n i h \<longleftrightarrow> (\<forall>w. shape w = K \<longrightarrow> length (crs w) = n \<longrightarrow> in_flight_at i w \<longrightarrow>
    (\<exists>w' k. h w = Some (Yield w' k) \<and> shape w' = K \<and> length (crs w') = n \<and>
      requests_completed w' = requests_completed w \<and> submit_order w' = submit_order w @ replicate m i))"

named_theorems template_rules \<open>rules that follow the templates of the composable requests\<close>

lemma runs_complete [template_rules]: "runs 0 K n i complete_request_and_switch_to_scheduler"
  by (simp add: runs_def complete_request_and_switch_to_scheduler_def)

lemma runs_later:
  assumes "runs m K n i h" and "later hw w w1" and "shape w = K" and "length (crs w) = n"
  shows "\<exists>w' k. h w1 = Some (Yield w' k) \<and> shape w' = K \<and> length (crs w') = n \<and>
    requests_completed w' = requests_completed w \<and> submit_order w' = submit_order w @ replicate m i"
  using assms later_shape [OF assms(2)] later_length [OF assms(2)] later_requests_completed [OF assms(2)]
    later_submit_order [OF assms(2)] unfolding runs_def by metis

lemma runs_bind [template_rules]:
  assumes "safe hw K n f" and "runs m K n i h"
  shows "runs m K n i (\<lambda>w. Option.bind (f w) h)"
  unfolding runs_def
proof (intro allI impI)
  fix w assume w: "shape w = K" "length (crs w) = n"
  from safeD [OF assms(1) this] obtain w1 where "f w = Some w1" "later hw w w1" by blast
  with runs_later [OF assms(2) _ w] show "\<exists>w' k. Option.bind (f w) h = Some (Yield w' k) \<and> shape w' = K \<and> length (crs w') = n \<and>
      requests_completed w' = requests_completed w \<and> submit_order w' = submit_order w @ replicate m i" by fastforce
qed

lemma runs_phase [template_rules]:
  assumes "phase_ok hw K f P" and "\<And>v. P v \<Longrightarrow> runs m K n i (h v)"
  shows "runs m K n i (\<lambda>w. Option.bind (f w) (\<lambda>(v, w). h v w))"
  unfolding runs_def
proof (intro allI impI)
  fix w assume w: "shape w = K" "length (crs w) = n"
  then obtain v w1 where "f w = Some (v, w1)" "later hw w w1" "P v" using assms(1) unfolding phase_ok_def by blast
  with runs_later [OF assms(2) _ w, of v] show "\<exists>w' k. Option.bind (f w) (\<lambda>(v, w). h v w) = Some (Yield w' k) \<and> shape w' = K \<and>
      length (crs w') = n \<and> requests_completed w' = requests_completed w \<and> submit_order w' = submit_order w @ replicate m i"
    by fastforce
qed

lemma waits_bind [template_rules]:
  assumes "env_ok hw" and "i < n" and "safe hw K n f" and "waits m K n i h"
  shows "waits m K n i (\<lambda>w. Option.bind (f w) h)"
  unfolding waits_def
proof (intro allI impI)
  fix w assume w: "shape w = K" "length (crs w) = n" and fl: "in_flight_at i w"
  from safeD [OF assms(3) w] obtain w1 where
    1: "f w = Some w1" "later hw w w1" "shape w1 = K" "length (crs w1) = n" by blast
  have "in_flight_at i w1" by (rule later_in_flight [OF assms(1) 1(2) _ fl]) (use assms(2) w in simp)
  with 1 assms(4) later_requests_completed [OF 1(2)] later_submit_order [OF 1(2)]
  show "\<exists>w' k. Option.bind (f w) h = Some (Yield w' k) \<and> shape w' = K \<and> length (crs w') = n \<and>
      requests_completed w' = requests_completed w \<and> submit_order w' = submit_order w @ replicate m i"
    unfolding waits_def by (metis bind.bind_lunit)
qed

lemma waits_spin [template_rules]:
  assumes "env_ok hw" and "i < n" and "runs m K n i h"
  shows "waits m K n i (\<lambda>w. Option.bind (spin_on hw i w) h)"
  unfolding waits_def
proof (intro allI impI)
  fix w assume w: "shape w = K" "length (crs w) = n" and fl: "in_flight_at i w"
  have v: "iax_comp_none hw = 0" using assms(1) by (simp add: env_ok_def)
  obtain w1 where "spin_on hw i w = Some w1" "later hw w w1"
    using wait_while_ok [OF assms(1) _ fl] assms(2) w(2) v by (auto simp: spin_on_def)
  with runs_later [OF assms(3) _ w] show "\<exists>w' k. Option.bind (spin_on hw i w) h = Some (Yield w' k) \<and> shape w' = K \<and>
      length (crs w') = n \<and> requests_completed w' = requests_completed w \<and> submit_order w' = submit_order w @ replicate m i"
    by fastforce
qed

context launcher
begin

lemma runs_launch:
  assumes "env_ok hw" and "ready K" and "blocks K desc = Some KDesc" and "i < n" and "waits m K n i h"
  shows "runs (Suc m) K n i (\<lambda>w. Option.bind (prep desc src dst i sz w) (\<lambda>w. Option.bind (submit desc w) h))"
  unfolding runs_def
proof (intro allI impI)
  fix w assume w: "shape w = K" "length (crs w) = n"
  obtain w1 where 1: "Option.bind (prep desc src dst i sz w) (submit desc) = Some w1" "launched i w w1"
    using launches [OF assms(1-3) w(1)] assms(4) w(2) by blast
  have l: "shape w1 = K" "length (crs w1) = n" "in_flight_at i w1" "requests_completed w1 = requests_completed w"
    "submit_order w1 = submit_order w @ [i]"
    using 1(2) w assms(4) launched_length [OF 1(2)] launched_in_flight [OF 1(2)] by (simp_all add: launched_def)
  from assms(5) l(1-3) obtain w' k where 2: "h w1 = Some (Yield w' k)" "shape w' = K" "length (crs w') = n"
    "requests_completed w' = requests_completed w1" "submit_order w' = submit_order w1 @ replicate m i"
    unfolding waits_def by blast
  have "Option.bind (prep desc src dst i sz w) (\<lambda>w. Option.bind (submit desc w) h) =
      Option.bind (Option.bind (prep desc src dst i sz w) (submit desc)) h" by simp
  also have "\<dots> = Some (Yield w' k)" using 1(1) 2(1) by simp
  finally show "\<exists>w' k. Option.bind (prep desc src dst i sz w) (\<lambda>w. Option.bind (submit desc w) h) = Some (Yield w' k) \<and> shape w' = K \<and>
      length (crs w') = n \<and> requests_completed w' = requests_completed w \<and> submit_order w' = submit_order w @ replicate (Suc m) i"
    using 2 l by simp
qed

end

text \<open>The same for the yielding templates, on the judgements for requests that do not count.\<close>

lemma fin_ok_complete [template_rules]: "fin_ok 0 hw K n complete_request_and_switch_to_scheduler"
  by (auto simp: fin_ok_def complete_request_and_switch_to_scheduler_def finishes_def count_by_def)

lemma fin_ok_phase [template_rules]:
  assumes "phase_ok hw K f P" and "\<And>v. P v \<Longrightarrow> fin_ok d hw K n (h v)"
  shows "fin_ok d hw K n (\<lambda>w. Option.bind (f w) (\<lambda>(v, w). h v w))"
  by (rule fin_ok_split [where P = P]) (use assms in \<open>auto simp: phase_ok_def\<close>)

lemma entry_ok_phase [template_rules]:
  assumes "phase_ok hw K f P" and "\<And>v. P v \<Longrightarrow> entry_ok d hw K n complete i (h v)"
  shows "entry_ok d hw K n complete i (\<lambda>w. Option.bind (f w) (\<lambda>(v, w). h v w))"
  unfolding entry_ok_def
proof (intro allI impI)
  fix w assume w: "shape w = K" "length (crs w) = n"
  then obtain v w1 where 1: "f w = Some (v, w1)" "later hw w w1" "P v" using assms(1) unfolding phase_ok_def by blast
  from assms(2) [OF 1(3)] w later_shape [OF 1(2)] later_length [OF 1(2)] obtain w' k where
    "h v w1 = Some (Yield w' k)" "starts hw i w1 w'" "resumable d hw K n complete i k" unfolding entry_ok_def by metis
  with 1 starts_later1 [OF 1(2)] show "\<exists>w' k. Option.bind (f w) (\<lambda>(v, w). h v w) = Some (Yield w' k) \<and>
      starts hw i w w' \<and> resumable d hw K n complete i k" by auto
qed

context launcher
begin

lemma entry_launch:
  assumes "env_ok hw" and "ready K" and "blocks K desc = Some KDesc" and "i < n" and "away_ok d hw K n complete i h"
  shows "entry_ok d hw K n complete i (\<lambda>w. Option.bind (prep desc src dst i sz w) (\<lambda>w. Option.bind (submit desc w) h))"
proof (rule entry_ok_launch [OF _ assms(5)])
  fix w assume w: "shape w = K" "length (crs w) = n"
  obtain w1 where 1: "Option.bind (prep desc src dst i sz w) (submit desc) = Some w1" "launched i w w1"
    using launches [OF assms(1-3) w(1)] assms(4) w(2) by blast
  have "Option.bind (prep desc src dst i sz w) (\<lambda>w. Option.bind (submit desc w) h) =
      Option.bind (Option.bind (prep desc src dst i sz w) (submit desc)) h" by simp
  with 1 show "\<exists>w'. launched i w w' \<and> Option.bind (prep desc src dst i sz w) (\<lambda>w. Option.bind (submit desc w) h) = h w'"
    by auto
qed

end

section \<open>The templates\<close>

definition phases_fit ::
  "(shape \<Rightarrow> ptr \<Rightarrow> ptr \<Rightarrow> nat \<Rightarrow> nat option \<Rightarrow> bool) \<Rightarrow> (shape \<Rightarrow> ptr \<Rightarrow> ptr \<Rightarrow> nat \<Rightarrow> nat option \<Rightarrow> bool) \<Rightarrow>
   shape \<Rightarrow> nat \<Rightarrow> nat \<Rightarrow> offload_args \<Rightarrow> bool" where
  "phases_fit pre_needs post_needs K n i a \<longleftrightarrow> slot_args n i a \<and> blocks K (a_desc a) = Some KDesc \<and>
    pre_needs K (a_pre_proc_input a) (a_pre_proc_output a) (a_pre_proc_input_size a) None \<and>
    post_needs K (a_ax_func_output a) (a_post_proc_output a) (a_post_proc_input_size a) (Some (a_max_post_proc_output_size a))"

definition five_stamps :: "shape \<Rightarrow> nat \<Rightarrow> offload_args \<Rightarrow> bool" where
  "five_stamps K n a \<longleftrightarrow> (\<forall>p \<in> {a_ts0 a, a_ts1 a, a_ts2 a, a_ts3 a, a_ts4 a}. blocks K p = Some (KWords n))"

lemma bind_case: "Option.bind (case p of (a, b) \<Rightarrow> g a b) h = (case p of (a, b) \<Rightarrow> Option.bind (g a b) h)"
  by (cases p) simp

lemmas template_simps = then_complete_def stamps_of_def bind_case Let_def

locale three_phases = pre: phase_fn hw pre pre_needs pre_gives + post: phase_fn hw post post_needs post_gives
    + op: launcher hw prep submit ready
  for hw :: env and pre pre_needs pre_gives post post_needs post_gives prep submit ready +
  assumes sized: "pre_gives sz room v \<Longrightarrow> \<exists>k. v = Some k"
begin

definition "fits K n i a \<longleftrightarrow> env_ok hw \<and> ready K \<and> phases_fit pre_needs post_needs K n i a"

lemma fitsD:
  assumes "fits K n i a"
  shows "env_ok hw" "ready K" "blocks K (a_desc a) = Some KDesc" "i < n" "a_comp a = i" "a_id a = i"
    "pre_needs K (a_pre_proc_input a) (a_pre_proc_output a) (a_pre_proc_input_size a) None"
    "post_needs K (a_ax_func_output a) (a_post_proc_output a) (a_post_proc_input_size a) (Some (a_max_post_proc_output_size a))"
  using assms by (auto simp: fits_def phases_fit_def slot_args_def)

lemma entry_pre:
  assumes "pre_needs K inp out sz None" and "\<And>k. entry_ok d hw K n c i (h k)"
  shows "entry_ok d hw K n c i (\<lambda>w. Option.bind (pre inp out sz None w) (\<lambda>(v, w). Option.bind v (\<lambda>k. h k w)))"
proof (rule entry_ok_phase [OF pre.phase [OF assms(1)]])
  fix v assume "pre_gives sz None v"
  with assms(2) show "entry_ok d hw K n c i (\<lambda>w. Option.bind v (\<lambda>k. h k w))" by (auto dest: sized)
qed

lemma runs_pre:
  assumes "pre_needs K inp out sz None" and "\<And>k. runs m K n i (h k)"
  shows "runs m K n i (\<lambda>w. Option.bind (pre inp out sz None w) (\<lambda>(v, w). Option.bind v (\<lambda>k. h k w)))"
proof (rule runs_phase [OF pre.phase [OF assms(1)]])
  fix v assume "pre_gives sz None v"
  with assms(2) show "runs m K n i (\<lambda>w. Option.bind v (\<lambda>k. h k w))" by (auto dest: sized)
qed

lemma yielding:
  assumes "fits K n i a"
  shows "entry_ok 0 hw K n not_pending i (generic_yielding_three_phase hw
      pre (a_pre_proc_input a) (a_pre_proc_output a) (a_pre_proc_input_size a) prep submit (a_comp a) (a_desc a)
      (a_ax_func_output a) (a_max_axfunc_output_size a)
      post (a_post_proc_output a) (a_post_proc_input_size a) (a_max_post_proc_output_size a)
      complete_request_and_switch_to_scheduler)"
  unfolding generic_yielding_three_phase_def [abs_def] Let_def fitsD(5) [OF assms]
  by (intro entry_pre op.entry_launch away_ok_yield served_ok_fin fin_ok_bind [OF safe_check_status]
      fin_ok_phase [OF post.phase] fin_ok_complete fitsD [OF assms])

lemma yielding_timed:
  assumes "fits K n i a" and "five_stamps K n a"
  shows "entry_ok 0 hw K n not_pending i (generic_yielding_three_phase_timed hw
      pre (a_pre_proc_input a) (a_pre_proc_output a) (a_pre_proc_input_size a) prep submit (a_comp a) (a_desc a)
      (a_ax_func_output a) (a_max_axfunc_output_size a)
      post (a_post_proc_output a) (a_post_proc_input_size a) (a_max_post_proc_output_size a) (stamps_of a) (a_id a)
      complete_request_and_switch_to_scheduler)"
proof -
  have ts: "blocks K (a_ts0 a) = Some (KWords n)" "blocks K (a_ts1 a) = Some (KWords n)" "blocks K (a_ts2 a) = Some (KWords n)"
    "blocks K (a_ts3 a) = Some (KWords n)" "blocks K (a_ts4 a) = Some (KWords n)" using assms(2) by (simp_all add: five_stamps_def)
  show ?thesis
    unfolding generic_yielding_three_phase_timed_def [abs_def] stamps_of_def prod.case Let_def fitsD(5,6) [OF assms(1)]
    by (intro entry_ok_bind [OF safe_stamp] entry_pre op.entry_launch away_ok_bind [OF safe_stamp] away_ok_yield served_ok_fin
        fin_ok_bind [OF safe_check_status] fin_ok_bind [OF safe_stamp] fin_ok_phase [OF post.phase] fin_ok_complete
        fitsD [OF assms(1)] ts)
qed

lemma blocking:
  assumes "fits K n i a"
  shows "runs 1 K n i (\<lambda>w. then_complete (generic_blocking_three_phase hw
      pre (a_pre_proc_input a) (a_pre_proc_output a) (a_pre_proc_input_size a) prep submit (spin_on hw) (a_comp a) (a_desc a)
      (a_ax_func_output a) (a_max_axfunc_output_size a)
      post (a_post_proc_output a) (a_post_proc_input_size a) (a_max_post_proc_output_size a) w))"
  unfolding generic_blocking_three_phase_def template_simps Option.bind_assoc bind.bind_lunit fitsD(5) [OF assms] One_nat_def
  by (intro runs_pre op.runs_launch waits_spin runs_bind [OF safe_check_status] runs_phase [OF post.phase] runs_complete
      fitsD [OF assms])

lemma blocking_timed:
  assumes "fits K n i a" and "five_stamps K n a"
  shows "runs 1 K n i (\<lambda>w. then_complete (generic_blocking_three_phase_timed hw
      pre (a_pre_proc_input a) (a_pre_proc_output a) (a_pre_proc_input_size a) prep submit (spin_on hw) (a_comp a) (a_desc a)
      (a_ax_func_output a) (a_max_axfunc_output_size a)
      post (a_post_proc_output a) (a_post_proc_input_size a) (a_max_post_proc_output_size a) (stamps_of a) (a_id a) w))"
proof -
  have ts: "blocks K (a_ts0 a) = Some (KWords n)" "blocks K (a_ts1 a) = Some (KWords n)" "blocks K (a_ts2 a) = Some (KWords n)"
    "blocks K (a_ts3 a) = Some (KWords n)" "blocks K (a_ts4 a) = Some (KWords n)" using assms(2) by (simp_all add: five_stamps_def)
  show ?thesis
    unfolding generic_blocking_three_phase_timed_def template_simps prod.case Option.bind_assoc fitsD(5,6) [OF assms(1)] One_nat_def
    by (intro runs_bind [OF safe_stamp] runs_pre op.runs_launch waits_bind [OF _ _ safe_stamp] waits_spin
        runs_bind [OF safe_check_status] runs_phase [OF post.phase] runs_complete fitsD [OF assms(1)] ts)
qed

end

text \<open>The templates for a general purpose core alone: nothing is submitted.\<close>

locale core_phases = pre: phase_fn hw pre pre_needs pre_gives + mid: phase_fn hw mid mid_needs mid_gives
    + post: phase_fn hw post post_needs post_gives
  for hw :: env and pre pre_needs pre_gives mid mid_needs mid_gives post post_needs post_gives +
  assumes sized: "pre_gives sz room v \<Longrightarrow> \<exists>k. v = Some k"
begin

definition "fits K n i a \<longleftrightarrow> slot_args n i a \<and>
  pre_needs K (a_pre_proc_input a) (a_pre_proc_output a) (a_pre_proc_input_size a) None \<and>
  (\<forall>k. pre_gives (a_pre_proc_input_size a) None (Some k) \<longrightarrow>
    mid_needs K (a_pre_proc_output a) (a_ax_func_output a) k (Some (a_max_axfunc_output_size a))) \<and>
  post_needs K (a_ax_func_output a) (a_post_proc_output a) (a_post_proc_input_size a) (Some (a_max_post_proc_output_size a))"

lemma fitsD:
  assumes "fits K n i a"
  shows "i < n" "a_id a = i"
    "pre_needs K (a_pre_proc_input a) (a_pre_proc_output a) (a_pre_proc_input_size a) None"
    "pre_gives (a_pre_proc_input_size a) None (Some k) \<Longrightarrow>
      mid_needs K (a_pre_proc_output a) (a_ax_func_output a) k (Some (a_max_axfunc_output_size a))"
    "post_needs K (a_ax_func_output a) (a_post_proc_output a) (a_post_proc_input_size a) (Some (a_max_post_proc_output_size a))"
  using assms by (auto simp: fits_def slot_args_def)

lemma runs_pre:
  assumes "pre_needs K inp out sz None" and "\<And>k. pre_gives sz None (Some k) \<Longrightarrow> runs m K n i (h (Some k))"
  shows "runs m K n i (\<lambda>w. Option.bind (pre inp out sz None w) (\<lambda>(v, w). h v w))"
proof (rule runs_phase [OF pre.phase [OF assms(1)]])
  fix v assume v: "pre_gives sz None v"
  then obtain k where "v = Some k" using sized by blast
  with assms(2) v show "runs m K n i (h v)" by simp
qed

lemma core:
  assumes "fits K n i a"
  shows "runs 0 K n i (\<lambda>w. then_complete (generic_gpcore_three_phase
      pre (a_pre_proc_input a) (a_pre_proc_output a) (a_pre_proc_input_size a)
      mid (a_ax_func_output a) (a_max_axfunc_output_size a)
      post (a_post_proc_output a) (a_post_proc_input_size a) (a_max_post_proc_output_size a) w))"
  unfolding generic_gpcore_three_phase_def template_simps Option.bind_assoc bind.bind_lunit
  by (rule runs_pre [OF fitsD(3) [OF assms]], unfold bind.bind_lunit)
    (intro runs_phase [OF mid.phase] runs_phase [OF post.phase] runs_complete fitsD(4,5) [OF assms])

lemma core_timed:
  assumes "fits K n i a" and "five_stamps K n a"
  shows "runs 0 K n i (\<lambda>w. then_complete (generic_gpcore_three_phase_timed hw
      pre (a_pre_proc_input a) (a_pre_proc_output a) (a_pre_proc_input_size a)
      mid (a_ax_func_output a) (a_max_axfunc_output_size a)
      post (a_post_proc_output a) (a_post_proc_input_size a) (a_max_post_proc_output_size a) (stamps_of a) (a_id a) w))"
proof -
  have ts: "blocks K (a_ts0 a) = Some (KWords n)" "blocks K (a_ts1 a) = Some (KWords n)" "blocks K (a_ts2 a) = Some (KWords n)"
    "blocks K (a_ts3 a) = Some (KWords n)" "blocks K (a_ts4 a) = Some (KWords n)" using assms(2) by (simp_all add: five_stamps_def)
  note st = runs_bind [OF safe_stamp]
  show ?thesis
    unfolding generic_gpcore_three_phase_timed_def template_simps prod.case Option.bind_assoc fitsD(2) [OF assms(1)]
    by (rule st [OF ts(1) fitsD(1) [OF assms(1)] runs_pre [OF fitsD(3) [OF assms(1)]]], unfold bind.bind_lunit)
      (intro st runs_phase [OF mid.phase] runs_phase [OF post.phase] runs_complete fitsD(1,4,5) [OF assms(1)] ts)
qed

end

section \<open>Chains of two operations\<close>

locale two_ops = op1: launcher hw prep1 submit1 ready1 + op2: launcher hw prep2 submit2 ready2
  for hw :: env and prep1 submit1 ready1 prep2 submit2 ready2
begin

lemma chain:
  assumes "env_ok hw" and "slot_args n i a" and "blocks K (a_desc a) = Some KDesc" and "ready1 K" and "ready2 K" and "five_stamps K n a"
  shows "runs 2 K n i (\<lambda>w. then_complete (axcore_axcore_two_phase_timed hw
      prep1 submit1 (spin_on hw) (a_pre_proc_input a) (a_pre_proc_output a) (a_pre_proc_input_size a)
      prep2 submit2 (spin_on hw) (a_ax_func_output a) (a_max_axfunc_output_size a) (a_ax_func_input_size a)
      (a_comp a) (a_desc a) (stamps_of a) (a_id a) w))"
proof -
  have ts: "blocks K (a_ts0 a) = Some (KWords n)" "blocks K (a_ts1 a) = Some (KWords n)" "blocks K (a_ts2 a) = Some (KWords n)"
    "blocks K (a_ts3 a) = Some (KWords n)" "blocks K (a_ts4 a) = Some (KWords n)" using assms(6) by (simp_all add: five_stamps_def)
  have i: "i < n" "a_comp a = i" "a_id a = i" using assms(2) by (simp_all add: slot_args_def)
  show ?thesis
    unfolding axcore_axcore_two_phase_timed_def template_simps prod.case Option.bind_assoc i(2,3) numeral_2_eq_2
    by (intro runs_bind [OF safe_stamp] op1.runs_launch op2.runs_launch waits_bind [OF _ _ safe_stamp] waits_spin
        runs_bind [OF safe_check_status] runs_complete assms(1,3,4,5) i(1) ts)
qed

end

end
