(* ===== verification/Composable_Contracts.thy ===== *)
theory Composable_Contracts
  imports Three_Phase_Contracts
begin

text \<open>
  The composable requests as instances of the verified templates, what they promise the executors,
  and the runs of the four executors for requests that do not count themselves.
\<close>

section \<open>The instances of the templates\<close>

interpretation gathers: three_phases hw null_fn "\<lambda>_ _ _ _ _. True" "\<lambda>sz _ v. v = Some sz"
    "gather_access hw" "gather_needs hw" "\<lambda>sz _ v. v = Some sz"
    "prepare_iaa_decompress_desc_with_preallocated_comp hw" "blocking_iaa_submit hw" "\<lambda>_. True" for hw
  by unfold_locales simp

interpretation core_gathers: core_phases hw null_fn "\<lambda>_ _ _ _ _. True" "\<lambda>sz _ v. v = Some sz"
    "inflate_phase hw" "inflate_needs hw" "\<lambda>sz room v. \<exists>k r. v = Some k \<and> room = Some r \<and> k \<le> r"
    "gather_access hw" "gather_needs hw" "\<lambda>sz _ v. v = Some sz" for hw
  by unfold_locales simp

interpretation hashes: three_phases hw "deser_from_buf hw" "deser_needs hw" "deser_gives hw"
    "hash_buf hw" "hash_needs hw" "\<lambda>_ _ v. v = Some 4"
    "prepare_iaa_decompress_desc_with_preallocated_comp hw" "blocking_iaa_submit hw" "\<lambda>_. True" for hw
  by unfold_locales (auto simp: deser_gives_def)

interpretation core_hashes: core_phases hw "deser_from_buf hw" "deser_needs hw" "deser_gives hw"
    "inflate_phase hw" "inflate_needs hw" "\<lambda>sz room v. \<exists>k r. v = Some k \<and> room = Some r \<and> k \<le> r"
    "hash_buf hw" "hash_needs hw" "\<lambda>_ _ v. v = Some 4" for hw
  by unfold_locales (auto simp: deser_gives_def)

interpretation scores: three_phases hw "decrypt_feature hw" copy_needs "\<lambda>sz _ v. v = Some sz"
    score "\<lambda>K inp _ sz _. buffer_of K inp sz" "\<lambda>_ room v. v = room"
    "prepare_dsa_memcpy_desc_with_preallocated_comp hw" "blocking_submit hw IAA" "\<lambda>_. True" for hw
  by unfold_locales simp

interpretation copies_inflates: three_phases hw null_fn "\<lambda>_ _ _ _ _. True" "\<lambda>sz _ v. v = Some sz"
    "inflate_phase hw" "inflate_needs hw" "\<lambda>sz room v. \<exists>k r. v = Some k \<and> room = Some r \<and> k \<le> r"
    "prepare_dsa_memcpy_desc_with_preallocated_comp hw" "blocking_dsa_submit hw" "\<lambda>_. True" for hw
  by unfold_locales simp

interpretation core_copies_inflates: core_phases hw null_fn "\<lambda>_ _ _ _ _. True" "\<lambda>sz _ v. v = Some sz"
    gpcore_do_memcpy copy_needs "\<lambda>sz _ v. v = Some sz"
    "inflate_phase hw" "inflate_needs hw" "\<lambda>sz room v. \<exists>k r. v = Some k \<and> room = Some r \<and> k \<le> r" for hw
  by unfold_locales simp

interpretation core_copies: three_phases hw gpcore_do_memcpy copy_needs "\<lambda>sz _ v. v = Some sz"
    null_fn "\<lambda>_ _ _ _ _. True" "\<lambda>sz _ v. v = Some sz"
    "prepare_iaa_decompress_desc_with_preallocated_comp hw" "blocking_iaa_submit hw" "\<lambda>_. True" for hw
  by unfold_locales simp

interpretation copy_decompress: two_ops hw "prepare_dsa_memcpy_desc_with_preallocated_comp hw" "blocking_dsa_submit hw" "\<lambda>_. True"
    "prepare_iaa_decompress_desc_with_preallocated_comp hw" "blocking_iaa_submit hw" "\<lambda>_. True" for hw
  by unfold_locales

interpretation copy_compress: two_ops hw "prepare_dsa_memcpy_desc_with_preallocated_comp hw" "blocking_dsa_submit hw" "\<lambda>_. True"
    "\<lambda>desc src. prepare_iaa_compress_desc_and_aecs_with_preallocated_comp hw desc src aecs" "blocking_iaa_submit hw"
    "aecs_ready hw aecs" for hw aecs
  by unfold_locales

interpretation core_copy_compress: three_phases hw gpcore_do_memcpy copy_needs "\<lambda>sz _ v. v = Some sz"
    null_fn "\<lambda>_ _ _ _ _. True" "\<lambda>sz _ v. v = Some sz"
    "\<lambda>desc src. prepare_iaa_compress_desc_and_aecs_with_preallocated_comp hw desc src aecs" "blocking_iaa_submit hw"
    "aecs_ready hw aecs" for hw aecs
  by unfold_locales simp

section \<open>The requests\<close>

text \<open>The templates with compression state are the others with the state as a fixed operand.\<close>

lemma aecs_chain:
  "axcore_iaa_aecs_axcore_two_phase hw p1 s1 w1 in1 out1 n1 p2 s2 w2 out2 m2 n2 cr desc aecs =
    axcore_axcore_two_phase_timed hw p1 s1 w1 in1 out1 n1 (\<lambda>desc src. p2 desc src aecs) s2 w2 out2 m2 n2 cr desc"
  by (simp add: axcore_iaa_aecs_axcore_two_phase_def axcore_axcore_two_phase_timed_def fun_eq_iff)

lemma aecs_three_phase:
  "gpcore_iaa_aecs_axcore_gpcore_three_phase hw f inp out n p s wt cr desc aecs =
    generic_blocking_three_phase_timed hw f inp out n (\<lambda>desc src. p desc src aecs) s wt cr desc"
  by (simp add: gpcore_iaa_aecs_axcore_gpcore_three_phase_def generic_blocking_three_phase_timed_def fun_eq_iff)

named_theorems request_runs \<open>what the composable requests do in one slice\<close>

lemma decomp_gather_runs [request_runs]:
  "core_gathers.fits hw K n i a \<Longrightarrow> runs 0 K n i (decomp_gather_gpcore hw a)"
  "core_gathers.fits hw K n i a \<Longrightarrow> five_stamps K n a \<Longrightarrow> runs 0 K n i (decomp_gather_gpcore_stamped hw a)"
  "gathers.fits hw K n i a \<Longrightarrow> runs 1 K n i (decomp_gather_blocking hw a)"
  "gathers.fits hw K n i a \<Longrightarrow> five_stamps K n a \<Longrightarrow> runs 1 K n i (decomp_gather_blocking_stamped hw a)"
  unfolding decomp_gather_gpcore_def [abs_def] decomp_gather_gpcore_stamped_def [abs_def]
    decomp_gather_blocking_def [abs_def] decomp_gather_blocking_stamped_def [abs_def]
  by (rule core_gathers.core core_gathers.core_timed gathers.blocking gathers.blocking_timed; assumption)+

lemma deser_decomp_hash_runs [request_runs]:
  "core_hashes.fits hw K n i a \<Longrightarrow> runs 0 K n i (deser_decomp_hash_gpcore hw a)"
  "core_hashes.fits hw K n i a \<Longrightarrow> five_stamps K n a \<Longrightarrow> runs 0 K n i (deser_decomp_hash_gpcore_stamped hw a)"
  "hashes.fits hw K n i a \<Longrightarrow> runs 1 K n i (deser_decomp_hash_blocking hw a)"
  "hashes.fits hw K n i a \<Longrightarrow> five_stamps K n a \<Longrightarrow> runs 1 K n i (deser_decomp_hash_blocking_stamped hw a)"
  unfolding deser_decomp_hash_gpcore_def [abs_def] deser_decomp_hash_gpcore_stamped_def [abs_def]
    deser_decomp_hash_blocking_def [abs_def] deser_decomp_hash_blocking_stamped_def [abs_def]
  by (rule core_hashes.core core_hashes.core_timed hashes.blocking hashes.blocking_timed; assumption)+

lemma decrypt_memcpy_score_runs [request_runs]:
  "scores.fits hw K n i a \<Longrightarrow> five_stamps K n a \<Longrightarrow> runs 1 K n i (decrypt_memcpy_score_blocking_stamped hw a)"
  unfolding decrypt_memcpy_score_blocking_stamped_def [abs_def] by (rule scores.blocking_timed)

definition chain_fits :: "env \<Rightarrow> shape \<Rightarrow> nat \<Rightarrow> nat \<Rightarrow> offload_args \<Rightarrow> bool" where
  "chain_fits hw K n i a \<longleftrightarrow> env_ok hw \<and> slot_args n i a \<and> blocks K (a_desc a) = Some KDesc"

lemma memcpy_decomp_runs [request_runs]:
  "copies_inflates.fits hw K n i a \<Longrightarrow> five_stamps K n a \<Longrightarrow> runs 1 K n i (memcpy_decomp_axcore_gpcore_stamped hw a)"
  "core_copies_inflates.fits hw K n i a \<Longrightarrow> five_stamps K n a \<Longrightarrow> runs 0 K n i (memcpy_decomp_gpcore_gpcore_stamped hw a)"
  "core_copies.fits hw K n i a \<Longrightarrow> five_stamps K n a \<Longrightarrow> runs 1 K n i (memcpy_decomp_gpcore_axcore_stamped hw a)"
  "chain_fits hw K n i a \<Longrightarrow> five_stamps K n a \<Longrightarrow> runs 2 K n i (memcpy_decomp_axcore_axcore_stamped hw a)"
  unfolding memcpy_decomp_axcore_gpcore_stamped_def [abs_def] memcpy_decomp_gpcore_gpcore_stamped_def [abs_def]
    memcpy_decomp_gpcore_axcore_stamped_def [abs_def] memcpy_decomp_axcore_axcore_stamped_def [abs_def] chain_fits_def
  by (rule copies_inflates.blocking_timed core_copies_inflates.core_timed core_copies.blocking_timed copy_decompress.chain;
      simp)+

lemma memcpy_comp_runs [request_runs]:
  "chain_fits hw K n i a \<Longrightarrow> aecs_ready hw (a_aecs a) K \<Longrightarrow> five_stamps K n a \<Longrightarrow>
    runs 2 K n i (memcpy_comp_axcore_axcore_stamped hw a)"
  "core_copy_compress.fits hw (a_aecs a) K n i a \<Longrightarrow> five_stamps K n a \<Longrightarrow>
    runs 1 K n i (memcpy_comp_gpcore_axcore_stamped hw a)"
  unfolding memcpy_comp_axcore_axcore_stamped_def [abs_def] memcpy_comp_gpcore_axcore_stamped_def [abs_def]
    aecs_chain aecs_three_phase chain_fits_def
  by (rule copy_compress.chain core_copy_compress.blocking_timed; simp)+

lemma decomp_gather_entry:
  "gathers.fits hw K n i a \<Longrightarrow> entry_ok 0 hw K n not_pending i (decomp_gather_yielding hw a)"
  "gathers.fits hw K n i a \<Longrightarrow> five_stamps K n a \<Longrightarrow> entry_ok 0 hw K n not_pending i (decomp_gather_yielding_stamped hw a)"
  unfolding decomp_gather_yielding_def decomp_gather_yielding_stamped_def
  by (rule gathers.yielding gathers.yielding_timed; assumption)+

lemma deser_decomp_hash_entry:
  "hashes.fits hw K n i a \<Longrightarrow> entry_ok 0 hw K n not_pending i (deser_decomp_hash_yielding hw a)"
  "hashes.fits hw K n i a \<Longrightarrow> five_stamps K n a \<Longrightarrow> entry_ok 0 hw K n not_pending i (deser_decomp_hash_yielding_stamped hw a)"
  unfolding deser_decomp_hash_yielding_def deser_decomp_hash_yielding_stamped_def
  by (rule hashes.yielding hashes.yielding_timed; assumption)+

section \<open>The contracts with the executors\<close>

lemma runs_contract:
  assumes "length args = n" and "\<And>i. i < n \<Longrightarrow> runs m K n i (f (args ! i))"
  shows "slice_requests 0 K n (replicate n f) args (\<lambda>i. replicate m i)"
proof
  fix i w assume w: "i < n" "shape w = K" "length (crs w) = n"
  with assms(2) [OF w(1)] show "\<exists>w' k. start_fiber (replicate n f) args (int i) w = Some (Yield w' k) \<and> shape w' = K \<and>
      length (crs w') = n \<and> requests_completed w' = requests_completed w + 0 \<and>
      submit_order w' = submit_order w @ replicate m i"
    by (simp add: start_fiber_replicate assms(1) runs_def)
qed

lemma entry_contract:
  assumes "env_ok hw" and "length args = n" and "\<And>i. i < n \<Longrightarrow> entry_ok 0 hw K n not_pending i (f (args ! i))"
  shows "fiber_requests 0 hw K n not_pending (replicate n f) args"
  by (rule fiber_contract [OF assms(1) test_ok_not_pending [OF assms(1)] assms(2,3)])

end
