(* ===== verification/Three_Phase_Alloc.thy ===== *)
theory Three_Phase_Alloc
  imports Composable_Requests Runners
begin

text \<open>
  Around the composable requests: the input generators, the allocators of request structs, of the
  arguments and of the results of an executor (\<open>src/three_phase_components.cpp\<close>,
  \<open>three_phase_composable.cpp\<close>), the harness that calls an executor with them
  (\<open>src/test_harness.cpp\<close>) and the runner that iterates it (\<open>src/runners.cpp\<close>).
\<close>

section \<open>Inputs\<close>

definition get_compress_bound :: "env \<Rightarrow> nat \<Rightarrow> nat" where
  "get_compress_bound hw payload_size = (if deflate_init hw \<noteq> Z_OK then 0 else deflate_bound hw payload_size)"

text \<open>\<open>for (i = 0; i < size; i += 4096) buf[i] = 0\<close>.\<close>

definition write_prefault :: "ptr \<Rightarrow> nat \<Rightarrow> world \<Rightarrow> world option" where
  "write_prefault buf sz =
    foldM (\<lambda>i w. do {
      bs \<leftarrow> get_bytes buf w;
      bs \<leftarrow> arr_set bs (int i * 4096) 0;
      Some (set_bytes buf bs w)
    }) [0..<(sz + 4095) div 4096]"

text \<open>\<open>gen_compressible_buf\<close> on a block of the heap.\<close>

definition compressible_block :: "env \<Rightarrow> string \<Rightarrow> nat \<Rightarrow> world \<Rightarrow> (ptr \<times> world) option" where
  "compressible_block hw pattern n w =
    do {
      let (valbuf, w) = malloc_bytes hw n w;
      bs \<leftarrow> get_bytes valbuf w;
      buf \<leftarrow> gen_compressible_buf pattern (map (\<lambda>b. char_of (unat b)) bs);
      Some (valbuf, set_bytes valbuf (map of_char buf) w)
    }"

definition put_key :: "u8 list" where "put_key = map of_char ''/region/cluster/foo:key|#|etc''"

type_synonym input_generator = "nat \<Rightarrow> world \<Rightarrow> ((ptr \<times> nat) \<times> world) option"

definition gen_plaintext_request :: "env \<Rightarrow> input_generator" where
  "gen_plaintext_request hw payload_size w =
    do {
      (valbuf, w) \<leftarrow> compressible_block hw ''01234567'' payload_size w;
      Some ((valbuf, payload_size), w)
    }"

definition gen_compressed_request :: "env \<Rightarrow> input_generator" where
  "gen_compressed_request hw payload_size w =
    do {
      (valbuf, w) \<leftarrow> compressible_block hw ''01234567'' payload_size w;
      let maxcompsize = get_compress_bound hw payload_size;
      let (compbuf, w) = malloc_bytes hw maxcompsize w;
      val \<leftarrow> get_bytes valbuf w;
      (ret, maxcompsize, w) \<leftarrow> gpcore_do_compress hw compbuf val maxcompsize w;
      Some ((compbuf, maxcompsize), w)
    }"

definition gen_compressed_serialized_put_request :: "env \<Rightarrow> input_generator" where
  "gen_compressed_serialized_put_request hw payload_size w =
    do {
      (valbuf, w) \<leftarrow> compressible_block hw ''01234567'' payload_size w;
      let maxcompsize = get_compress_bound hw payload_size;
      let (compbuf, w) = malloc_bytes hw maxcompsize w;
      val \<leftarrow> get_bytes valbuf w;
      (ret, maxcompsize, w) \<leftarrow> gpcore_do_compress hw compbuf val maxcompsize w;
      comp \<leftarrow> get_bytes compbuf w;
      (if length comp < maxcompsize then None
       else do {
         let msg = serialize_put hw put_key (take maxcompsize comp);
         let (msgbuf, w) = malloc_bytes hw (length msg) w;
         Some ((msgbuf, length msg), set_bytes msgbuf msg w)
       })
    }"

section \<open>Request structs\<close>

definition set_ts5 :: "stamps5 \<Rightarrow> offload_args \<Rightarrow> offload_args" where
  "set_ts5 ts a = (case ts of (ts0, ts1, ts2, ts3, ts4) \<Rightarrow>
    a\<lparr>a_ts0 := ts0, a_ts1 := ts1, a_ts2 := ts2, a_ts3 := ts3, a_ts4 := ts4\<rparr>)"

definition three_func_arg ::
  "env \<Rightarrow> input_generator \<Rightarrow> nat \<Rightarrow> nat \<Rightarrow> nat \<Rightarrow> stamps5 \<Rightarrow> nat \<Rightarrow> world \<Rightarrow> (offload_args \<times> world) option" where
  "three_func_arg hw input_generator initial_payload_size max_axfunc_output_size max_post_proc_output_size ts i w =
    do {
      let (self, w) = malloc Opaque w;
      ((pre_in, pre_size), w) \<leftarrow> input_generator initial_payload_size w;
      let max_pre_proc_output_size = get_compress_bound hw initial_payload_size;
      let (pre_out, w) = malloc_bytes hw max_pre_proc_output_size w;
      let (ax_out, w) = malloc_bytes hw max_axfunc_output_size w;
      w \<leftarrow> write_prefault ax_out max_axfunc_output_size w;
      let (post_out, w) = malloc_bytes hw max_post_proc_output_size w;
      let (desc, w) = malloc_desc hw w;
      Some (set_ts5 ts ((uninit_args hw self)\<lparr>a_pre_proc_input := pre_in, a_pre_proc_input_size := pre_size,
          a_pre_proc_output := pre_out, a_ax_func_output := ax_out, a_max_axfunc_output_size := max_axfunc_output_size,
          a_post_proc_output := post_out, a_max_post_proc_output_size := max_post_proc_output_size,
          a_post_proc_input_size := initial_payload_size, a_comp := i, a_id := i, a_desc := desc\<rparr>), w)
    }"

definition null_two_func_arg ::
  "env \<Rightarrow> input_generator \<Rightarrow> nat \<Rightarrow> nat \<Rightarrow> nat \<Rightarrow> stamps5 \<Rightarrow> nat \<Rightarrow> world \<Rightarrow> (offload_args \<times> world) option" where
  "null_two_func_arg hw input_generator initial_payload_size max_axfunc_output_size max_post_proc_output_size ts i w =
    do {
      let (self, w) = malloc Opaque w;
      ((pre_out, pre_size), w) \<leftarrow> input_generator initial_payload_size w;
      let max_pre_proc_output_size = get_compress_bound hw initial_payload_size;
      let (pre_in, w) = malloc_bytes hw initial_payload_size w;
      let (ax_out, w) = malloc_bytes hw max_axfunc_output_size w;
      w \<leftarrow> write_prefault ax_out max_axfunc_output_size w;
      let (post_out, w) = malloc_bytes hw max_post_proc_output_size w;
      let (desc, w) = malloc_desc hw w;
      Some (set_ts5 ts ((uninit_args hw self)\<lparr>a_pre_proc_output := pre_out, a_pre_proc_input_size := pre_size,
          a_pre_proc_input := pre_in, a_ax_func_output := ax_out, a_max_axfunc_output_size := max_axfunc_output_size,
          a_post_proc_output := post_out, a_max_post_proc_output_size := max_post_proc_output_size,
          a_post_proc_input_size := initial_payload_size, a_comp := i, a_id := i, a_desc := desc\<rparr>), w)
    }"

text \<open>No post phase: its fields and \<open>max_axfunc_output_size\<close> stay uninitialised.\<close>

definition axcore_axcore_arg ::
  "env \<Rightarrow> input_generator \<Rightarrow> nat \<Rightarrow> nat \<Rightarrow> nat \<Rightarrow> stamps5 \<Rightarrow> nat \<Rightarrow> world \<Rightarrow> (offload_args \<times> world) option" where
  "axcore_axcore_arg hw input_generator initial_payload_size max_axfunc_output_size max_post_proc_output_size ts i w =
    do {
      let (self, w) = malloc Opaque w;
      ((pre_in, pre_size), w) \<leftarrow> input_generator initial_payload_size w;
      let max_ax_func_1_output_size = get_compress_bound hw initial_payload_size;
      let (pre_out, w) = malloc_bytes hw max_ax_func_1_output_size w;
      w \<leftarrow> write_prefault pre_out max_ax_func_1_output_size w;
      let (ax_out, w) = malloc_bytes hw max_axfunc_output_size w;
      w \<leftarrow> write_prefault ax_out max_axfunc_output_size w;
      let (desc, w) = malloc_desc hw w;
      Some (set_ts5 ts ((uninit_args hw self)\<lparr>a_pre_proc_input := pre_in, a_pre_proc_input_size := pre_size,
          a_pre_proc_output := pre_out, a_ax_func_input_size := initial_payload_size, a_ax_func_output := ax_out,
          a_comp := i, a_id := i, a_desc := desc\<rparr>), w)
    }"

text \<open>\<open>memset_pattern(buf, 0, n)\<close> on a fresh buffer of \<open>n\<close> bytes.\<close>

definition malloc_aecs :: "env \<Rightarrow> world \<Rightarrow> ptr \<times> world" where
  "malloc_aecs hw w = malloc (Bytes (replicate (iaa_compress_src2_size hw) 0)) w"

definition gpcore_axcore_null_arg ::
  "env \<Rightarrow> input_generator \<Rightarrow> nat \<Rightarrow> nat \<Rightarrow> nat \<Rightarrow> stamps5 \<Rightarrow> nat \<Rightarrow> world \<Rightarrow> (offload_args \<times> world) option" where
  "gpcore_axcore_null_arg hw input_generator initial_payload_size max_axfunc_output_size max_post_proc_output_size ts i w =
    do {
      let (self, w) = malloc Opaque w;
      ((pre_in, pre_size), w) \<leftarrow> input_generator initial_payload_size w;
      let max_pre_proc_output_size = iaa_compress_max_dest_size hw;
      let (pre_out, w) = malloc_bytes hw max_pre_proc_output_size w;
      let max_axfunc_output_size = iaa_compress_max_dest_size hw;
      let (ax_out, w) = malloc_bytes hw max_axfunc_output_size w;
      w \<leftarrow> write_prefault ax_out max_axfunc_output_size w;
      let (post_out, w) = malloc_bytes hw max_post_proc_output_size w;
      let (desc, w) = malloc_desc hw w;
      let (aecs, w) = malloc_aecs hw w;
      Some (set_ts5 ts ((uninit_args hw self)\<lparr>a_pre_proc_input := pre_in, a_pre_proc_input_size := pre_size,
          a_pre_proc_output := pre_out, a_ax_func_output := ax_out, a_max_axfunc_output_size := max_axfunc_output_size,
          a_post_proc_output := post_out, a_max_post_proc_output_size := max_post_proc_output_size,
          a_post_proc_input_size := initial_payload_size, a_comp := i, a_id := i, a_desc := desc, a_aecs := aecs\<rparr>), w)
    }"

definition axcore_axcore_compress_aecs_arg ::
  "env \<Rightarrow> input_generator \<Rightarrow> nat \<Rightarrow> nat \<Rightarrow> nat \<Rightarrow> stamps5 \<Rightarrow> nat \<Rightarrow> world \<Rightarrow> (offload_args \<times> world) option" where
  "axcore_axcore_compress_aecs_arg hw input_generator initial_payload_size max_axfunc_output_size max_post_proc_output_size ts i w =
    do {
      let (self, w) = malloc Opaque w;
      ((pre_in, pre_size), w) \<leftarrow> input_generator initial_payload_size w;
      let max_ax_func_1_output_size = iaa_compress_max_dest_size hw;
      let (pre_out, w) = malloc_bytes hw (iaa_compress_max_dest_size hw) w;
      w \<leftarrow> write_prefault pre_out max_ax_func_1_output_size w;
      let (ax_out, w) = malloc_bytes hw (iaa_compress_max_dest_size hw) w;
      w \<leftarrow> write_prefault ax_out (iaa_compress_max_dest_size hw) w;
      let (desc, w) = malloc_desc hw w;
      let (aecs, w) = malloc_aecs hw w;
      Some (set_ts5 ts ((uninit_args hw self)\<lparr>a_pre_proc_input := pre_in, a_pre_proc_input_size := pre_size,
          a_pre_proc_output := pre_out, a_ax_func_input_size := initial_payload_size, a_ax_func_output := ax_out,
          a_max_axfunc_output_size := iaa_compress_max_dest_size hw,
          a_comp := i, a_id := i, a_desc := desc, a_aecs := aecs\<rparr>), w)
    }"

type_synonym phase_alloc =
  "nat \<Rightarrow> nat \<Rightarrow> nat \<Rightarrow> nat \<Rightarrow> input_generator \<Rightarrow> stamps5 \<Rightarrow> world \<Rightarrow> ((ptr \<times> offload_args list) \<times> world) option"

definition three_func_allocator :: "env \<Rightarrow> phase_alloc" where
  "three_func_allocator hw total_requests initial_payload_size max_axfunc_output_size max_post_proc_output_size input_generator ts =
    alloc_array (three_func_arg hw input_generator initial_payload_size max_axfunc_output_size max_post_proc_output_size ts) total_requests"

definition null_two_func_allocator :: "env \<Rightarrow> phase_alloc" where
  "null_two_func_allocator hw total_requests initial_payload_size max_axfunc_output_size max_post_proc_output_size input_generator ts =
    alloc_array (null_two_func_arg hw input_generator initial_payload_size max_axfunc_output_size max_post_proc_output_size ts) total_requests"

definition axcore_axcore_allocator :: "env \<Rightarrow> phase_alloc" where
  "axcore_axcore_allocator hw total_requests initial_payload_size max_axfunc_output_size max_post_proc_output_size input_generator ts =
    alloc_array (axcore_axcore_arg hw input_generator initial_payload_size max_axfunc_output_size max_post_proc_output_size ts) total_requests"

definition memcpy_comp_gpcore_axcore_null_allocator :: "env \<Rightarrow> phase_alloc" where
  "memcpy_comp_gpcore_axcore_null_allocator hw total_requests initial_payload_size max_axfunc_output_size max_post_proc_output_size input_generator ts =
    alloc_array (gpcore_axcore_null_arg hw input_generator initial_payload_size max_axfunc_output_size max_post_proc_output_size ts) total_requests"

definition axcore_axcore_compress_aecs_allocator :: "env \<Rightarrow> phase_alloc" where
  "axcore_axcore_compress_aecs_allocator hw total_requests initial_payload_size max_axfunc_output_size max_post_proc_output_size input_generator ts =
    alloc_array (axcore_axcore_compress_aecs_arg hw input_generator initial_payload_size max_axfunc_output_size max_post_proc_output_size ts) total_requests"

text \<open>What the deallocators free of a struct; \<open>free_null_two_phase\<close> is the same function as
  \<open>free_three_phase_stamped_args\<close>.\<close>

definition three_phase_fields :: "offload_args \<Rightarrow> ptr list" where
  "three_phase_fields a = [a_pre_proc_input a, a_pre_proc_output a, a_ax_func_output a, a_post_proc_output a, a_desc a, a_self a]"

definition gpcore_axcore_null_fields :: "offload_args \<Rightarrow> ptr list" where
  "gpcore_axcore_null_fields a =
    [a_pre_proc_input a, a_pre_proc_output a, a_ax_func_output a, a_post_proc_output a, a_desc a, a_aecs a, a_self a]"

definition axcore_axcore_fields :: "offload_args \<Rightarrow> ptr list" where
  "axcore_axcore_fields a = [a_pre_proc_input a, a_pre_proc_output a, a_ax_func_output a, a_desc a, a_self a]"

definition axcore_axcore_aecs_fields :: "offload_args \<Rightarrow> ptr list" where
  "axcore_axcore_aecs_fields a = [a_pre_proc_input a, a_pre_proc_output a, a_ax_func_output a, a_desc a, a_aecs a, a_self a]"

definition free_three_phase_stamped_args :: requests_free where
  "free_three_phase_stamped_args total_requests = free_array (\<lambda>a. frees (three_phase_fields a)) total_requests"

definition free_null_two_phase :: requests_free where
  "free_null_two_phase total_requests = free_array (\<lambda>a. frees (three_phase_fields a)) total_requests"

definition free_memcpy_comp_gpcore_axcore_null :: requests_free where
  "free_memcpy_comp_gpcore_axcore_null total_requests = free_array (\<lambda>a. frees (gpcore_axcore_null_fields a)) total_requests"

definition free_axcore_axcore :: requests_free where
  "free_axcore_axcore total_requests = free_array (\<lambda>a. frees (axcore_axcore_fields a)) total_requests"

definition free_axcore_axcore_compress_aecs :: requests_free where
  "free_axcore_axcore_compress_aecs total_requests = free_array (\<lambda>a. frees (axcore_axcore_aecs_fields a)) total_requests"

section \<open>Arguments and results of the executors\<close>

text \<open>\<open>off_args\<close> is set by the harness before it is read; the other fields that the allocators do not
  set hold what the memory held.\<close>

definition uninit_executor_args :: "env \<Rightarrow> ptr \<Rightarrow> executor_args" where
  "uninit_executor_args hw p = (let g = \<lambda>i. unat (garbage hw p i) in
    \<lparr>x_self = p, x_total_requests = 0, x_off_args = [], x_off_req_state = [], x_contexts = [], x_off_req_state_block = g 0,
     x_off_req_xfer = g 1, x_comps = g 2, x_ts0 = g 3, x_ts1 = g 4, x_ts2 = g 5, x_ts3 = g 6, x_ts4 = g 7, x_idx = 0\<rparr>)"

type_synonym executor_args_alloc = "nat \<Rightarrow> nat \<Rightarrow> request_fn \<Rightarrow> world \<Rightarrow> (executor_args \<times> world) option"

definition alloc_homogenous_request_executor_args_throughput :: "env \<Rightarrow> executor_args_alloc" where
  "alloc_homogenous_request_executor_args_throughput hw idx total_requests request_function w =
    do {
      let (self, w) = malloc Opaque w;
      let (off_req_state, w) = malloc Opaque w;
      let (offload_req_xfer, w) = malloc Opaque w;
      (states, w) \<leftarrow> create_contexts total_requests w;
      let (comps, w) = allocate_crs total_requests w;
      Some ((uninit_executor_args hw self)\<lparr>x_total_requests := int total_requests, x_idx := int idx,
          x_off_req_state_block := off_req_state, x_off_req_xfer := offload_req_xfer, x_contexts := states,
          x_off_req_state := replicate total_requests request_function, x_comps := comps\<rparr>, w)
    }"

definition alloc_homogenous_request_executor_args_breakdown :: "env \<Rightarrow> executor_args_alloc" where
  "alloc_homogenous_request_executor_args_breakdown hw idx total_requests request_function w =
    do {
      let (self, w) = malloc Opaque w;
      let (ts0, w) = malloc_words hw total_requests w;
      let (ts1, w) = malloc_words hw total_requests w;
      let (ts2, w) = malloc_words hw total_requests w;
      let (ts3, w) = malloc_words hw total_requests w;
      let (ts4, w) = malloc_words hw total_requests w;
      let (off_req_state, w) = malloc Opaque w;
      let (offload_req_xfer, w) = malloc Opaque w;
      (states, w) \<leftarrow> create_contexts total_requests w;
      let (comps, w) = allocate_crs total_requests w;
      Some ((uninit_executor_args hw self)\<lparr>x_total_requests := int total_requests, x_idx := int idx,
          x_ts0 := ts0, x_ts1 := ts1, x_ts2 := ts2, x_ts3 := ts3, x_ts4 := ts4,
          x_off_req_state_block := off_req_state, x_off_req_xfer := offload_req_xfer, x_contexts := states,
          x_off_req_state := replicate total_requests request_function, x_comps := comps\<rparr>, w)
    }"

definition free_homogoenous_request_executor_args_throughput :: "executor_args \<Rightarrow> world \<Rightarrow> world option" where
  "free_homogoenous_request_executor_args_throughput args w =
    do {
      w \<leftarrow> free_contexts (x_contexts args) (nat (x_total_requests args)) w;
      w \<leftarrow> mfree (x_off_req_xfer args) w;
      w \<leftarrow> mfree (x_off_req_state_block args) w;
      w \<leftarrow> free_crs (x_comps args) w;
      mfree (x_self args) w
    }"

definition free_homogoenous_request_executor_args_breakdown :: "executor_args \<Rightarrow> world \<Rightarrow> world option" where
  "free_homogoenous_request_executor_args_breakdown args w =
    do {
      w \<leftarrow> mfree (x_ts0 args) w;
      w \<leftarrow> mfree (x_ts1 args) w;
      w \<leftarrow> mfree (x_ts2 args) w;
      w \<leftarrow> mfree (x_ts3 args) w;
      w \<leftarrow> mfree (x_ts4 args) w;
      w \<leftarrow> free_crs (x_comps args) w;
      w \<leftarrow> free_contexts (x_contexts args) (nat (x_total_requests args)) w;
      w \<leftarrow> mfree (x_off_req_xfer args) w;
      w \<leftarrow> mfree (x_off_req_state_block args) w;
      mfree (x_self args) w
    }"

text \<open>The struct of the results is allocated by the runner.\<close>

definition uninit_stats :: "env \<Rightarrow> ptr \<Rightarrow> executor_stats" where
  "uninit_stats hw p = (let g = \<lambda>i. unat (garbage hw p i) in
    \<lparr>pre_proc_times = g 0, offload_tax_times = g 1, ax_func_times = g 2, post_proc_times = g 3,
     exe_time_start = g 4, exe_time_end = g 5, stats_iter = g 6\<rparr>)"

definition alloc_throughput_stats :: "env \<Rightarrow> executor_stats \<Rightarrow> nat \<Rightarrow> world \<Rightarrow> (executor_stats \<times> world) option" where
  "alloc_throughput_stats hw stats iter w =
    do {
      let (start, w) = malloc_words hw iter w;
      let (stop, w) = malloc_words hw iter w;
      Some (stats\<lparr>exe_time_start := start, exe_time_end := stop, stats_iter := iter\<rparr>, w)
    }"

definition free_throughput_stats :: "executor_stats \<Rightarrow> world \<Rightarrow> world option" where
  "free_throughput_stats stats w = do { w \<leftarrow> mfree (exe_time_start stats) w; mfree (exe_time_end stats) w }"

text \<open>\<open>exe_times\<close> is an array on the stack.\<close>

definition print_throughput_stats ::
  "(u64 \<Rightarrow> 'd) \<Rightarrow> env \<Rightarrow> executor_stats \<Rightarrow> nat \<Rightarrow> world \<Rightarrow> world option" where
  "print_throughput_stats csqrt hw stats iter w =
    do {
      (exe_times, w) \<leftarrow> stack_array hw iter w;
      w \<leftarrow> foldM (\<lambda>i w. do {
             stops \<leftarrow> get_words (exe_time_end stats) w;
             stop \<leftarrow> arr_get stops (int i);
             starts \<leftarrow> get_words (exe_time_start stats) w;
             start \<leftarrow> arr_get starts (int i);
             write_word exe_times (int i) (stop - start) w
           }) [0..<iter] w;
      w \<leftarrow> mean_median_stdev_rps csqrt exe_times iter w;
      mfree exe_times w
    }"

definition alloc_breakdown_stats :: "env \<Rightarrow> executor_stats \<Rightarrow> nat \<Rightarrow> world \<Rightarrow> (executor_stats \<times> world) option" where
  "alloc_breakdown_stats hw stats iter w =
    do {
      let (pre, w) = malloc_words hw iter w;
      let (tax, w) = malloc_words hw iter w;
      let (ax, w) = malloc_words hw iter w;
      let (post, w) = malloc_words hw iter w;
      Some (stats\<lparr>stats_iter := iter, pre_proc_times := pre, offload_tax_times := tax, ax_func_times := ax,
          post_proc_times := post\<rparr>, w)
    }"

definition free_breakdown_stats :: "executor_stats \<Rightarrow> world \<Rightarrow> world option" where
  "free_breakdown_stats stats =
    frees [pre_proc_times stats, offload_tax_times stats, ax_func_times stats, post_proc_times stats]"

definition print_three_phase_breakdown_stats ::
  "(u64 \<Rightarrow> 'd) \<Rightarrow> executor_stats \<Rightarrow> nat \<Rightarrow> world \<Rightarrow> world option" where
  "print_three_phase_breakdown_stats csqrt stats iter w =
    do {
      w \<leftarrow> print_stats csqrt (pre_proc_times stats) iter w;
      w \<leftarrow> print_stats csqrt (offload_tax_times stats) iter w;
      w \<leftarrow> print_stats csqrt (ax_func_times stats) iter w;
      print_stats csqrt (post_proc_times stats) iter w
    }"

section \<open>Harness and runner\<close>

type_synonym executor_fn = "executor_args \<Rightarrow> executor_stats \<Rightarrow> world \<Rightarrow> unit outcome option"

text \<open>\<open>std::bind(alloc, _1, _2, _3, request_function)\<close> fixes the request function of the allocator.  Both
  harnesses do the same; the first one never calls \<open>output_validate\<close>.\<close>

definition three_phase_offload_timed_breakdown ::
  "(nat \<Rightarrow> nat \<Rightarrow> world \<Rightarrow> (executor_args \<times> world) option) \<Rightarrow> (executor_args \<Rightarrow> world \<Rightarrow> world option) \<Rightarrow>
   phase_alloc \<Rightarrow> requests_free \<Rightarrow> input_generator \<Rightarrow> executor_fn \<Rightarrow> nat \<Rightarrow> nat \<Rightarrow> nat \<Rightarrow> nat \<Rightarrow>
   executor_stats \<Rightarrow> nat \<Rightarrow> world \<Rightarrow> unit outcome option" where
  "three_phase_offload_timed_breakdown executor_args_allocator executor_args_free offload_args_allocator
      offload_args_free input_generator three_phase_executor total_requests initial_payload_size
      max_axfunc_output_size max_post_proc_output_size stats idx w =
    do {
      let (self, w) = malloc Opaque w;
      (args, w) \<leftarrow> executor_args_allocator idx total_requests w;
      (off_args, w) \<leftarrow> offload_args_allocator total_requests initial_payload_size max_axfunc_output_size
        max_post_proc_output_size input_generator (x_ts0 args, x_ts1 args, x_ts2 args, x_ts3 args, x_ts4 args) w;
      let args = args\<lparr>x_off_args := snd off_args\<rparr>;
      after_run (three_phase_executor args stats w)
        (\<lambda>w. do {
          w \<leftarrow> offload_args_free total_requests off_args w;
          w \<leftarrow> executor_args_free args w;
          mfree self w
        })
    }"

definition three_phase_harness ::
  "(nat \<Rightarrow> nat \<Rightarrow> world \<Rightarrow> (executor_args \<times> world) option) \<Rightarrow> (executor_args \<Rightarrow> world \<Rightarrow> world option) \<Rightarrow>
   phase_alloc \<Rightarrow> requests_free \<Rightarrow> input_generator \<Rightarrow> executor_fn \<Rightarrow> executor_stats \<Rightarrow> (offload_args \<Rightarrow> bool) \<Rightarrow>
   nat \<Rightarrow> nat \<Rightarrow> nat \<Rightarrow> nat \<Rightarrow> nat \<Rightarrow> world \<Rightarrow> unit outcome option" where
  "three_phase_harness executor_args_allocator executor_args_free offload_args_allocator
      offload_args_free input_generator three_phase_executor stats output_validate total_requests initial_payload_size
      max_axfunc_output_size max_post_proc_output_size idx w =
    do {
      let (self, w) = malloc Opaque w;
      (args, w) \<leftarrow> executor_args_allocator idx total_requests w;
      (off_args, w) \<leftarrow> offload_args_allocator total_requests initial_payload_size max_axfunc_output_size
        max_post_proc_output_size input_generator (x_ts0 args, x_ts1 args, x_ts2 args, x_ts3 args, x_ts4 args) w;
      let args = args\<lparr>x_off_args := snd off_args\<rparr>;
      after_run (three_phase_executor args stats w)
        (\<lambda>w. do {
          w \<leftarrow> offload_args_free total_requests off_args w;
          w \<leftarrow> executor_args_free args w;
          mfree self w
        })
    }"

definition run_three_phase_offload ::
  "env \<Rightarrow> (nat \<Rightarrow> nat \<Rightarrow> world \<Rightarrow> (executor_args \<times> world) option) \<Rightarrow> (executor_args \<Rightarrow> world \<Rightarrow> world option) \<Rightarrow>
   (executor_stats \<Rightarrow> nat \<Rightarrow> world \<Rightarrow> (executor_stats \<times> world) option) \<Rightarrow> (executor_stats \<Rightarrow> world \<Rightarrow> world option) \<Rightarrow>
   (executor_stats \<Rightarrow> nat \<Rightarrow> world \<Rightarrow> world option) \<Rightarrow>
   phase_alloc \<Rightarrow> requests_free \<Rightarrow> input_generator \<Rightarrow> executor_fn \<Rightarrow> (offload_args \<Rightarrow> bool) \<Rightarrow>
   nat \<Rightarrow> nat \<Rightarrow> nat \<Rightarrow> nat \<Rightarrow> nat \<Rightarrow> world \<Rightarrow> unit outcome option" where
  "run_three_phase_offload hw executor_args_allocator executor_args_free executor_stats_allocator executor_stats_free
      executor_stats_processor offload_args_allocator offload_args_free input_generator three_phase_executor
      output_validate iter total_requests initial_payload_size max_axfunc_output_size max_post_proc_output_size w =
    do {
      let (self, w) = malloc Opaque w;
      (stats, w) \<leftarrow> executor_stats_allocator (uninit_stats hw self) iter w;
      after_run
        (repeat_runs (\<lambda>i. three_phase_harness executor_args_allocator executor_args_free offload_args_allocator
          offload_args_free input_generator three_phase_executor stats output_validate total_requests initial_payload_size
          max_axfunc_output_size max_post_proc_output_size i) [0..<iter] w)
        (\<lambda>w. do {
          w \<leftarrow> executor_stats_processor stats iter w;
          executor_stats_free stats w
        })
    }"

definition run_three_phase_offload_timed ::
  "env \<Rightarrow> (nat \<Rightarrow> nat \<Rightarrow> world \<Rightarrow> (executor_args \<times> world) option) \<Rightarrow> (executor_args \<Rightarrow> world \<Rightarrow> world option) \<Rightarrow>
   (executor_stats \<Rightarrow> nat \<Rightarrow> world \<Rightarrow> (executor_stats \<times> world) option) \<Rightarrow> (executor_stats \<Rightarrow> world \<Rightarrow> world option) \<Rightarrow>
   (executor_stats \<Rightarrow> nat \<Rightarrow> world \<Rightarrow> world option) \<Rightarrow>
   phase_alloc \<Rightarrow> requests_free \<Rightarrow> input_generator \<Rightarrow> executor_fn \<Rightarrow>
   nat \<Rightarrow> nat \<Rightarrow> nat \<Rightarrow> nat \<Rightarrow> nat \<Rightarrow> world \<Rightarrow> unit outcome option" where
  "run_three_phase_offload_timed hw executor_args_allocator executor_args_free executor_stats_allocator executor_stats_free
      executor_stats_processor offload_args_allocator offload_args_free input_generator three_phase_executor
      iter total_requests initial_payload_size max_axfunc_output_size max_post_proc_output_size w =
    do {
      let (pre_proc_time, w) = malloc_words hw iter w;
      let (offload_tax_time, w) = malloc_words hw iter w;
      let (ax_func_time, w) = malloc_words hw iter w;
      let (post_proc_time, w) = malloc_words hw iter w;
      let (self, w) = malloc Opaque w;
      (stats, w) \<leftarrow> executor_stats_allocator (uninit_stats hw self) iter w;
      after_run
        (repeat_runs (\<lambda>i. three_phase_offload_timed_breakdown executor_args_allocator executor_args_free offload_args_allocator
          offload_args_free input_generator three_phase_executor total_requests initial_payload_size
          max_axfunc_output_size max_post_proc_output_size stats i) [0..<iter] w)
        (\<lambda>w. do {
          w \<leftarrow> executor_stats_processor stats iter w;
          executor_stats_free stats w
        })
    }"

end
