(* ===== verification/Composable_App.thy ===== *)
theory Composable_App
  imports Three_Phase_Alloc
begin

text \<open>
  The program \<open>three_phase_composable.cpp\<close> as a whole: its options, the choice of functions for an
  application, and the runs it starts.  Opening and closing the work queues is left out.
\<close>

section \<open>Options\<close>

datatype app_type = DESER | DECRYPT | GATHER | AX_AX | AX_GP | GP_GP | GP_AX | AX_AX_COMP | GP_AX_COMP

text \<open>\<open>(app_type_t)atoi(optarg)\<close>: other numbers are no application (\<open>None\<close>), and take the \<open>default\<close>
  branch.\<close>

definition app_of_nat :: "nat \<Rightarrow> app_type option" where
  "app_of_nat k = arr_get [DESER, DECRYPT, GATHER, AX_AX, AX_GP, GP_GP, GP_AX, AX_AX_COMP, GP_AX_COMP] (int k)"

datatype log_level = LOG_DEBUG | LOG_VERBOSE

record main_options =
  o_total_requests :: nat
  o_itr :: nat
  o_payload_size :: nat
  o_iaa_dev_id :: nat
  o_dsa_dev_id :: nat
  o_app_type :: "app_type option"
  o_log_level :: log_level

definition default_options :: main_options where
  "default_options = \<lparr>o_total_requests = 1000, o_itr = 100, o_payload_size = 1024, o_iaa_dev_id = 1,
    o_dsa_dev_id = 0, o_app_type = Some AX_AX, o_log_level = LOG_DEBUG\<rparr>"

text \<open>One option of \<open>getopt(argc, argv, "t:i:s:bgydm:n:k:v")\<close>, with the number it was given.\<close>

definition parse_option :: "char \<times> nat \<Rightarrow> main_options \<Rightarrow> main_options" where
  "parse_option opt opts = (case opt of (c, v) \<Rightarrow>
    if c = CHR ''t'' then opts\<lparr>o_total_requests := v\<rparr>
    else if c = CHR ''i'' then opts\<lparr>o_itr := v\<rparr>
    else if c = CHR ''s'' then opts\<lparr>o_payload_size := v\<rparr>
    else if c = CHR ''d'' then opts\<lparr>o_log_level := LOG_DEBUG\<rparr>
    else if c = CHR ''m'' then opts\<lparr>o_dsa_dev_id := v\<rparr>
    else if c = CHR ''n'' then opts\<lparr>o_iaa_dev_id := v\<rparr>
    else if c = CHR ''k'' then opts\<lparr>o_app_type := app_of_nat v\<rparr>
    else if c = CHR ''v'' then opts\<lparr>o_log_level := LOG_VERBOSE\<rparr>
    else opts)"

section \<open>Applications\<close>

record app =
  input_gen :: input_generator
  gpcore_breakdown_fn :: request_fn
  gpcore_throughput_fn :: request_fn
  blocking_breakdown_fn :: request_fn
  blocking_throughput_fn :: request_fn
  yielding_breakdown_fn :: request_fn
  yielding_throughput_fn :: request_fn
  allocator_fn :: phase_alloc
  stamped_offload_args_free_fn :: requests_free
  final_output_size :: nat
  do_gpcore :: bool
  do_yielding :: bool
  do_thrpt :: bool

text \<open>The initial values of the variables, which \<open>DESER\<close> assigns again.\<close>

definition deser_app :: "env \<Rightarrow> app" where
  "deser_app hw = \<lparr>input_gen = gen_compressed_serialized_put_request hw,
    gpcore_breakdown_fn = deser_decomp_hash_gpcore_stamped hw, gpcore_throughput_fn = deser_decomp_hash_gpcore hw,
    blocking_breakdown_fn = deser_decomp_hash_blocking_stamped hw, blocking_throughput_fn = deser_decomp_hash_blocking hw,
    yielding_breakdown_fn = deser_decomp_hash_yielding_stamped hw, yielding_throughput_fn = deser_decomp_hash_yielding hw,
    allocator_fn = three_func_allocator hw, stamped_offload_args_free_fn = free_three_phase_stamped_args,
    final_output_size = 4, do_gpcore = True, do_yielding = True, do_thrpt = True\<rparr>"

definition only_blocking_breakdown :: "app \<Rightarrow> app" where
  "only_blocking_breakdown a = a\<lparr>do_yielding := False, do_gpcore := False, do_thrpt := False\<rparr>"

text \<open>The case \<open>GATHER\<close> assigns a global variable, which is a change of the environment.\<close>

definition app_env :: "env \<Rightarrow> nat \<Rightarrow> app_type option \<Rightarrow> env" where
  "app_env hw payload_size app_type = (if app_type = Some GATHER then hw\<lparr>input_size := payload_size\<rparr> else hw)"

text \<open>The \<open>switch\<close>.  \<open>DECRYPT\<close> has no case.\<close>

definition select_app :: "env \<Rightarrow> nat \<Rightarrow> app_type option \<Rightarrow> app" where
  "select_app hw payload_size app_type = (let a = deser_app hw in
    case app_type of
      Some DESER \<Rightarrow> deser_app hw
    | Some GATHER \<Rightarrow>
        a\<lparr>input_gen := gen_compressed_request hw,
          gpcore_breakdown_fn := decomp_gather_gpcore_stamped hw, gpcore_throughput_fn := decomp_gather_gpcore hw,
          blocking_breakdown_fn := decomp_gather_blocking_stamped hw, blocking_throughput_fn := decomp_gather_blocking hw,
          yielding_breakdown_fn := decomp_gather_yielding_stamped hw, yielding_throughput_fn := decomp_gather_yielding hw,
          allocator_fn := null_two_func_allocator hw, stamped_offload_args_free_fn := free_null_two_phase,
          final_output_size := num_accesses hw * 4\<rparr>
    | Some AX_AX \<Rightarrow>
        only_blocking_breakdown (a\<lparr>input_gen := gen_compressed_request hw,
          blocking_breakdown_fn := memcpy_decomp_axcore_axcore_stamped hw,
          allocator_fn := axcore_axcore_allocator hw, stamped_offload_args_free_fn := free_axcore_axcore,
          final_output_size := payload_size\<rparr>)
    | Some AX_AX_COMP \<Rightarrow>
        only_blocking_breakdown (a\<lparr>input_gen := gen_plaintext_request hw,
          blocking_breakdown_fn := memcpy_comp_axcore_axcore_stamped hw,
          allocator_fn := axcore_axcore_compress_aecs_allocator hw,
          stamped_offload_args_free_fn := free_axcore_axcore_compress_aecs,
          final_output_size := payload_size\<rparr>)
    | Some GP_AX \<Rightarrow>
        only_blocking_breakdown (a\<lparr>input_gen := gen_compressed_request hw,
          blocking_breakdown_fn := memcpy_decomp_gpcore_axcore_stamped hw,
          allocator_fn := three_func_allocator hw, stamped_offload_args_free_fn := free_three_phase_stamped_args,
          final_output_size := payload_size\<rparr>)
    | Some GP_AX_COMP \<Rightarrow>
        only_blocking_breakdown (a\<lparr>input_gen := gen_plaintext_request hw,
          blocking_breakdown_fn := memcpy_comp_gpcore_axcore_stamped hw,
          allocator_fn := memcpy_comp_gpcore_axcore_null_allocator hw,
          stamped_offload_args_free_fn := free_three_phase_stamped_args,
          final_output_size := payload_size\<rparr>)
    | Some AX_GP \<Rightarrow>
        only_blocking_breakdown (a\<lparr>input_gen := gen_compressed_request hw,
          blocking_breakdown_fn := memcpy_decomp_axcore_gpcore_stamped hw,
          allocator_fn := null_two_func_allocator hw, stamped_offload_args_free_fn := free_null_two_phase,
          final_output_size := payload_size\<rparr>)
    | Some GP_GP \<Rightarrow>
        only_blocking_breakdown (a\<lparr>input_gen := gen_compressed_request hw,
          blocking_breakdown_fn := memcpy_decomp_gpcore_gpcore_stamped hw,
          allocator_fn := null_two_func_allocator hw, stamped_offload_args_free_fn := free_null_two_phase,
          final_output_size := payload_size\<rparr>)
    | _ \<Rightarrow> a)"

section \<open>The runs\<close>

definition breakdown_run ::
  "(u64 \<Rightarrow> 'd) \<Rightarrow> env \<Rightarrow> main_options \<Rightarrow> app \<Rightarrow> request_fn \<Rightarrow> executor_fn \<Rightarrow> world \<Rightarrow> unit outcome option" where
  "breakdown_run csqrt hw opts a request_function executor =
    run_three_phase_offload_timed hw
      (\<lambda>idx total_requests. alloc_homogenous_request_executor_args_breakdown hw idx total_requests request_function)
      free_homogoenous_request_executor_args_breakdown (alloc_breakdown_stats hw) free_breakdown_stats
      (print_three_phase_breakdown_stats csqrt) (allocator_fn a) (stamped_offload_args_free_fn a) (input_gen a) executor
      (o_itr opts) (o_total_requests opts) (o_payload_size opts) (o_payload_size opts) (final_output_size a)"

definition throughput_run ::
  "(u64 \<Rightarrow> 'd) \<Rightarrow> env \<Rightarrow> main_options \<Rightarrow> app \<Rightarrow> request_fn \<Rightarrow> executor_fn \<Rightarrow> world \<Rightarrow> unit outcome option" where
  "throughput_run csqrt hw opts a request_function executor =
    run_three_phase_offload_timed hw
      (\<lambda>idx total_requests. alloc_homogenous_request_executor_args_throughput hw idx total_requests request_function)
      free_homogoenous_request_executor_args_throughput (alloc_throughput_stats hw) free_throughput_stats
      (print_throughput_stats csqrt hw) (allocator_fn a) (stamped_offload_args_free_fn a) (input_gen a) executor
      (o_itr opts) (o_total_requests opts) (o_payload_size opts) (o_payload_size opts) (final_output_size a)"

text \<open>One run after the other, until a fiber ends the process.\<close>

fun in_sequence :: "(world \<Rightarrow> unit outcome option) list \<Rightarrow> world \<Rightarrow> unit outcome option" where
  "in_sequence [] w = Some (Done w ())"
| "in_sequence (r # rs) w = Option.bind (r w) (\<lambda>r. case r of
      Exited w \<Rightarrow> Some (Exited w)
    | Done w _ \<Rightarrow> in_sequence rs w)"

definition app_runs :: "(u64 \<Rightarrow> 'd) \<Rightarrow> env \<Rightarrow> main_options \<Rightarrow> app \<Rightarrow> (world \<Rightarrow> unit outcome option) list" where
  "app_runs csqrt hw opts a =
    (if do_gpcore a then
       [breakdown_run csqrt hw opts a (gpcore_breakdown_fn a)
          (execute_three_phase_blocking_requests_closed_system_request_breakdown hw),
        throughput_run csqrt hw opts a (gpcore_throughput_fn a)
          (execute_three_phase_blocking_requests_closed_system_throughput hw)]
     else []) @
    [breakdown_run csqrt hw opts a (blocking_breakdown_fn a)
       (execute_three_phase_blocking_requests_closed_system_request_breakdown hw)] @
    (if do_thrpt a then
       [throughput_run csqrt hw opts a (blocking_throughput_fn a)
          (execute_three_phase_blocking_requests_closed_system_throughput hw)]
     else []) @
    (if do_yielding a then
       [breakdown_run csqrt hw opts a (yielding_breakdown_fn a)
          (execute_three_phase_yielding_requests_closed_system_request_breakdown hw)] @
       (if do_thrpt a then
          [throughput_run csqrt hw opts a (yielding_throughput_fn a)
             (execute_yielding_three_phase_request_throughput hw)]
        else [])
     else [])"

definition composable_main :: "(u64 \<Rightarrow> 'd) \<Rightarrow> env \<Rightarrow> (char \<times> nat) list \<Rightarrow> world \<Rightarrow> unit outcome option" where
  "composable_main csqrt hw argv w =
    do {
      let opts = fold parse_option argv default_options;
      let hw = app_env hw (o_payload_size opts) (o_app_type opts);
      let a = select_app hw (o_payload_size opts) (o_app_type opts);
      w \<leftarrow> (if o_app_type opts = Some GATHER then do {
             (glob_indir_arr, w) \<leftarrow> indirect_array_gen hw w;
             Some (w\<lparr>g_indir_arr := glob_indir_arr\<rparr>)
           } else Some w);
      in_sequence (app_runs csqrt hw opts a) w
    }"

end
