(* ===== verification/Three_Phase_Runs.thy ===== *)
theory Three_Phase_Runs
  imports Composable_Contracts Composable_App
begin

text \<open>
  The four executors of the composable requests under the contracts \<open>fiber_requests 0\<close> and
  \<open>slice_requests 0\<close>: requests that are served without being counted.
\<close>

section \<open>Results\<close>

definition throughput_arrays :: "shape \<Rightarrow> executor_stats \<Rightarrow> nat \<Rightarrow> bool" where
  "throughput_arrays K st idx \<longleftrightarrow> (\<forall>p \<in> {exe_time_start st, exe_time_end st}. \<exists>m > idx. blocks K p = Some (KWords m))"

definition breakdown_arrays :: "shape \<Rightarrow> executor_stats \<Rightarrow> nat \<Rightarrow> bool" where
  "breakdown_arrays K st idx \<longleftrightarrow> (\<forall>p \<in> {pre_proc_times st, offload_tax_times st, ax_func_times st, post_proc_times st}.
    \<exists>m > idx. blocks K p = Some (KWords m))"

lemma three_phase_breakdown_ok:
  assumes "0 < n" and "n < 2 ^ 31" and "args \<noteq> []" and "five_stamps (shape w) n (hd args)" and "breakdown_arrays (shape w) st idx"
  shows "\<exists>w'. three_phase_breakdown args st (int n) (int idx) w = Some w' \<and> later hw w w'"
proof -
  let ?a = "hd args" and ?d = "replicate n 0 :: u64 list"
  have t: "kinds w (a_ts0 ?a) = Some (KWords n)" "kinds w (a_ts1 ?a) = Some (KWords n)" "kinds w (a_ts2 ?a) = Some (KWords n)"
    "kinds w (a_ts3 ?a) = Some (KWords n)" "kinds w (a_ts4 ?a) = Some (KWords n)"
    using assms(4) by (simp_all add: five_stamps_def)
  obtain m1 m2 m3 m4 where p: "kinds w (pre_proc_times st) = Some (KWords m1)" "idx < m1"
    "kinds w (offload_tax_times st) = Some (KWords m2)" "idx < m2" "kinds w (ax_func_times st) = Some (KWords m3)" "idx < m3"
    "kinds w (post_proc_times st) = Some (KWords m4)" "idx < m4"
    using assms(5) by (auto simp: breakdown_arrays_def)
  obtain d1 w1 where 1: "avg_into (pre_proc_times st) (int idx) (a_ts1 ?a) (a_ts0 ?a) (int n) ?d w = Some (d1, w1)"
    "length d1 = n" "later hw w w1"
    using avg_into_ok [OF assms(1,2) t(2,1) p(1), of ?d idx hw] p(2) by auto
  have k1: "kinds w1 = kinds w" by (rule later_kinds [OF 1(3)])
  obtain d2 w2 where 2: "avg_into (offload_tax_times st) (int idx) (a_ts2 ?a) (a_ts1 ?a) (int n) d1 w1 = Some (d2, w2)"
    "length d2 = n" "later hw w1 w2"
    using avg_into_ok [OF assms(1,2) t(3,2) [folded k1] p(3) [folded k1], of d1 idx hw] p(4) 1(2) by auto
  have k2: "kinds w2 = kinds w" using later_kinds [OF 2(3)] k1 by simp
  obtain d3 w3 where 3: "avg_into (ax_func_times st) (int idx) (a_ts3 ?a) (a_ts2 ?a) (int n) d2 w2 = Some (d3, w3)"
    "length d3 = n" "later hw w2 w3"
    using avg_into_ok [OF assms(1,2) t(4,3) [folded k2] p(5) [folded k2], of d2 idx hw] p(6) 2(2) by auto
  have k3: "kinds w3 = kinds w" using later_kinds [OF 3(3)] k2 by simp
  obtain d4 w4 where 4: "avg_into (post_proc_times st) (int idx) (a_ts4 ?a) (a_ts3 ?a) (int n) d3 w3 = Some (d4, w4)"
    "later hw w3 w4"
    using avg_into_ok [OF assms(1,2) t(5,4) [folded k3] p(7) [folded k3], of d3 idx hw] p(8) 3(2) by auto
  have "arr_get args 0 = Some ?a" using assms(3) by (cases args) (simp_all add: arr_get_def)
  then have "three_phase_breakdown args st (int n) (int idx) w = Some w4"
    using 1(1) 2(1) 3(1) 4(1) by (simp add: three_phase_breakdown_def)
  with later_trans [OF 1(3) later_trans [OF 2(3) later_trans [OF 3(3) 4(2)]]] show ?thesis by blast
qed

text \<open>The end of a throughput run: two times are stored.\<close>

lemma store_times_ok:
  assumes "ran K n c subs w w1" and "throughput_arrays K st idx"
  shows "\<exists>w2 w3. write_word (exe_time_start st) (int idx) t0 (w1\<lparr>tscs := k\<rparr>) = Some w2 \<and>
    write_word (exe_time_end st) (int idx) t1 w2 = Some w3 \<and> ran K n c subs w w3"
proof -
  let ?w = "w1\<lparr>tscs := k\<rparr>"
  have r: "ran K n c subs w ?w" by (rule ran_later [OF assms(1) later_tscs])
  obtain m m' where m: "kinds ?w (exe_time_start st) = Some (KWords m)" "idx < m" "kinds ?w (exe_time_end st) = Some (KWords m')" "idx < m'"
    using assms(2) r by (auto simp: throughput_arrays_def ran_def)
  obtain w2 where 2: "write_word (exe_time_start st) (int idx) t0 ?w = Some w2" "later undefined ?w w2"
    using write_word_ok [OF m(1,2)] by blast
  obtain w3 where 3: "write_word (exe_time_end st) (int idx) t1 w2 = Some w3" "later undefined w2 w3"
    using write_word_ok [of w2 "exe_time_end st" m' idx] later_kinds [OF 2(2)] m(3,4) by auto
  from ran_later [OF ran_later [OF r 2(2)] 3(2)] 2(1) 3(1) show ?thesis by blast
qed

text \<open>The arguments of an executor.\<close>

definition executor_for ::
  "nat \<Rightarrow> (offload_args \<Rightarrow> world \<Rightarrow> world slice option) list \<Rightarrow> offload_args list \<Rightarrow> nat \<Rightarrow> executor_args \<Rightarrow> bool" where
  "executor_for n ctxs args idx x \<longleftrightarrow> x_total_requests x = int n \<and> x_off_args x = args \<and> x_off_req_state x = ctxs \<and>
    x_idx x = int idx"

section \<open>Yielding\<close>

locale uncounted_fibers = fiber_requests 0 hw K n not_pending ctxs args
  for hw :: env and K :: shape and n :: nat
    and ctxs :: "(offload_args \<Rightarrow> world \<Rightarrow> world slice option) list" and args :: "offload_args list"
begin

lemma whole_loop:
  assumes "ready_world K n r0 w"
  shows "\<exists>w' smp. yielding_loop hw (index_left (int n)) not_pending no_sampling (int n) ctxs args 0 0 (no_xfers (int n)) ([], 0) w =
    Some (Done w' smp) \<and> ran K n r0 [0..<n] w w'"
proof -
  have "length (no_xfers (int n)) = n" by (simp add: no_xfers_def)
  from loop_from_ready [OF assms(1) this TrueI again_index_left no_sampling_ok, of "([], 0)"] obtain w' smp where
    "yielding_loop hw (index_left (int n)) not_pending no_sampling (int n) ctxs args 0 0 (no_xfers (int n)) ([], 0) w =
      Some (Done w' smp)" "sched_inv 0 K n not_pending (submit_order w) r0 n n w'" by blast
  with sched_ran show ?thesis by fastforce
qed

lemma throughput:
  assumes "ready_world K n r0 w" and "executor_for n ctxs args idx x"
    and "throughput_arrays K st idx"
  shows "\<exists>w'. execute_yielding_three_phase_request_throughput hw x st w = Some (Done w' ()) \<and> ran K n r0 [0..<n] w w'"
proof -
  obtain w1 smp where l: "yielding_loop hw (index_left (int n)) not_pending no_sampling (int n) ctxs
      args 0 0 (no_xfers (int n)) ([], 0) (w\<lparr>tscs := Suc (tscs w)\<rparr>) = Some (Done w1 smp)"
    "ran K n r0 [0..<n] (w\<lparr>tscs := Suc (tscs w)\<rparr>) w1"
    using whole_loop [OF ready_later_tscs [OF assms(1)]] by blast
  have r: "ran K n r0 [0..<n] w w1" using l(2) by (simp add: ran_def)
  obtain w2 w3 where "write_word (exe_time_start st) (int idx) (tsc hw (tscs w)) (w1\<lparr>tscs := Suc (tscs w1)\<rparr>) = Some w2"
    "write_word (exe_time_end st) (int idx) (tsc hw (tscs w1)) w2 = Some w3" "ran K n r0 [0..<n] w w3"
    using store_times_ok [OF r assms(3)] by blast
  with l(1) assms(2) show ?thesis
    by (auto simp: execute_yielding_three_phase_request_throughput_def executor_for_def rdtsc_def)
qed

lemma breakdown:
  assumes "ready_world K n r0 w" and "executor_for n ctxs args idx x"
    and "0 < n" and "n < 2 ^ 31" and "length args = n" and "five_stamps K n (hd args)" and "breakdown_arrays K st idx"
  shows "\<exists>w'. execute_three_phase_yielding_requests_closed_system_request_breakdown hw x st w = Some (Done w' ()) \<and>
    ran K n r0 [0..<n] w w'"
proof -
  obtain w1 smp where l: "yielding_loop hw (index_left (int n)) not_pending no_sampling (int n) ctxs
      args 0 0 (no_xfers (int n)) ([], 0) w = Some (Done w1 smp)" "ran K n r0 [0..<n] w w1"
    using whole_loop [OF assms(1)] by blast
  have "args \<noteq> []" "shape w1 = K" using assms(3,5) l(2) by (auto simp: ran_def)
  with three_phase_breakdown_ok [OF assms(3,4), of args w1 st idx hw] assms(6,7) obtain w2 where
    "three_phase_breakdown args st (int n) (int idx) w1 = Some w2" "later hw w1 w2" by blast
  with l(1) ran_later [OF l(2)] assms(2) show ?thesis
    by (auto simp: execute_three_phase_yielding_requests_closed_system_request_breakdown_def executor_for_def)
qed

end

section \<open>Blocking and core\<close>

locale uncounted_slices = slice_requests 0 K n ctxs args submitted
  for K :: shape and n :: nat
    and ctxs :: "(offload_args \<Rightarrow> world \<Rightarrow> world slice option) list" and args :: "offload_args list"
    and submitted :: "nat \<Rightarrow> nat list"
begin

abbreviation "subs \<equiv> concat (map submitted [0..<n])"

lemma whole_loop:
  assumes "callable K n r0 w"
  shows "\<exists>w'. blocking_loop (index_left (int n)) ctxs args 0 w = Some (Done w' ()) \<and>
    ran K n r0 subs w w'"
proof -
  have "shape w = K" "length (crs w) = n" "requests_completed w = r0 + 0 * int 0"
    using assms by (simp_all add: callable_def)
  from loop_done [OF again_index_left _ this] show ?thesis by (auto simp: ran_def)
qed

lemma throughput:
  assumes "callable K n r0 w" and "executor_for n ctxs args idx x" and "throughput_arrays K st idx"
  shows "\<exists>w'. execute_three_phase_blocking_requests_closed_system_throughput hw x st w = Some (Done w' ()) \<and>
    ran K n r0 subs w w'"
proof -
  obtain w1 where l: "blocking_loop (index_left (int n)) ctxs args 0 (w\<lparr>tscs := Suc (tscs w)\<rparr>) = Some (Done w1 ())"
    "ran K n r0 subs (w\<lparr>tscs := Suc (tscs w)\<rparr>) w1"
    using whole_loop [OF callable_tscs [OF assms(1)]] by blast
  have r: "ran K n r0 subs w w1" using l(2) by (simp add: ran_def)
  obtain w2 w3 where "write_word (exe_time_start st) (int idx) (tsc hw (tscs w)) (w1\<lparr>tscs := Suc (tscs w1)\<rparr>) = Some w2"
    "write_word (exe_time_end st) (int idx) (tsc hw (tscs w1)) w2 = Some w3" "ran K n r0 subs w w3"
    using store_times_ok [OF r assms(3)] by blast
  with l(1) assms(2) show ?thesis
    by (auto simp: execute_three_phase_blocking_requests_closed_system_throughput_def executor_for_def rdtsc_def)
qed

lemma breakdown:
  assumes "callable K n r0 w" and "executor_for n ctxs args idx x"
    and "0 < n" and "n < 2 ^ 31" and "length args = n" and "five_stamps K n (hd args)" and "breakdown_arrays K st idx"
  shows "\<exists>w'. execute_three_phase_blocking_requests_closed_system_request_breakdown hw x st w = Some (Done w' ()) \<and>
    ran K n r0 subs w w'"
proof -
  obtain w1 where l: "blocking_loop (index_left (int n)) ctxs args 0 w = Some (Done w1 ())"
    "ran K n r0 subs w w1"
    using whole_loop [OF assms(1)] by blast
  have "args \<noteq> []" "shape w1 = K" using assms(3,5) l(2) by (auto simp: ran_def)
  with three_phase_breakdown_ok [OF assms(3,4), of args w1 st idx hw] assms(6,7) obtain w2 where
    "three_phase_breakdown args st (int n) (int idx) w1 = Some w2" "later hw w1 w2" by blast
  with l(1) ran_later [OF l(2)] assms(2) show ?thesis
    by (auto simp: execute_three_phase_blocking_requests_closed_system_request_breakdown_def executor_for_def)
qed

end

end
