(* ===== verification/Three_Phase_Supply.thy ===== *)
theory Three_Phase_Supply
  imports Three_Phase_Runs
begin

text \<open>
  What the allocators of the composable requests build, what their deallocators free, and which
  blocks are lost: the input generators are the locale \<open>input_source\<close>, over which the five
  allocators are verified, and which is interpreted on the three generators.
\<close>

section \<open>Blocks\<close>

lemma get_bytes_put: "k < length bs \<Longrightarrow> bs ! k = Bytes b \<Longrightarrow> get_bytes (nxt w + k) (put_blocks w bs) = Some b"
  by (simp add: get_bytes_def heap_put)

lemma set_bytes_put: "k < length bs \<Longrightarrow> set_bytes (nxt w + k) b (put_blocks w bs) = put_blocks w (bs[k := Bytes b])"
  using update_put [of k bs w "Bytes b"] by (simp add: set_bytes_def)

lemma malloc_bytes_put: "malloc_bytes hw n (put_blocks w bs) =
    (nxt w + length bs, put_blocks w (bs @ [Bytes (map (garbage hw (nxt w + length bs)) [0..<n])]))"
  by (simp add: malloc_bytes_def malloc_put)

text \<open>Touching every page of the buffer that was allocated last.\<close>

lemma prefault_step:
  assumes "k < length bs" and "bs ! k = Bytes b" and "i * 4096 < length b"
  shows "\<exists>b'. Option.bind (get_bytes (nxt w + k) (put_blocks w bs)) (\<lambda>b. Option.bind (arr_set b (int i * 4096) 0)
      (\<lambda>b. Some (set_bytes (nxt w + k) b (put_blocks w bs)))) = Some (put_blocks w (bs[k := Bytes b'])) \<and> length b' = length b"
proof -
  have "arr_set b (int i * 4096) 0 = Some (b[i * 4096 := 0])" using arr_set_nat [of "i * 4096" b 0] assms(3) by simp
  then show ?thesis using get_bytes_put [OF assms(1,2)] set_bytes_put [OF assms(1)] by auto
qed

lemma prefault_put:
  assumes "sz \<le> length b"
  shows "\<exists>b'. write_prefault (nxt w + length bs) sz (put_blocks w (bs @ [Bytes b])) = Some (put_blocks w (bs @ [Bytes b'])) \<and>
    length b' = length b"
proof -
  let ?P = "\<lambda>i v. \<exists>b'. v = put_blocks w (bs @ [Bytes b']) \<and> length b' = length b"
  let ?f = "\<lambda>i w'. Option.bind (get_bytes (nxt w + length bs) w') (\<lambda>b. Option.bind (arr_set b (int i * 4096) 0)
      (\<lambda>b. Some (set_bytes (nxt w + length bs) b w')))"
  have "\<exists>v. foldM ?f [0..<(sz + 4095) div 4096] (put_blocks w (bs @ [Bytes b])) = Some v \<and> ?P ((sz + 4095) div 4096) v"
  proof (rule foldM_upt_rule [where P = ?P])
    fix i v assume i: "i < (sz + 4095) div 4096" and "?P i v"
    then obtain b' where v: "v = put_blocks w (bs @ [Bytes b'])" "length b' = length b" by blast
    have "i * 4096 < length b'" using i assms v(2) by linarith
    from prefault_step [of "length bs" "bs @ [Bytes b']" b', OF _ _ this] v obtain b'' where
      "?f i v = Some (put_blocks w ((bs @ [Bytes b'])[length bs := Bytes b'']))" "length b'' = length b" by auto
    then show "\<exists>s'. ?f i v = Some s' \<and> ?P (Suc i) s'" by (auto simp: list_update_append)
  qed auto
  then show ?thesis by (auto simp: write_prefault_def)
qed

section \<open>Generators\<close>

text \<open>A generator leaves \<open>lost\<close> buffers that nobody owns, and then the input: a buffer with room for
  the size that is returned, which is at most \<open>cap\<close>.\<close>

definition is_buffer :: "block \<Rightarrow> bool" where
  "is_buffer b \<longleftrightarrow> (\<exists>x. b = Bytes x)"

locale input_source =
  fixes gen :: input_generator and ok :: "nat \<Rightarrow> bool" and lost :: nat and cap :: "nat \<Rightarrow> nat"
  assumes generates: "ok n \<Longrightarrow> \<exists>bs x sz. gen n w = Some ((nxt w + lost, sz), put_blocks w (bs @ [Bytes x])) \<and>
      length bs = lost \<and> (\<forall>b \<in> set bs. is_buffer b) \<and> sz \<le> length x \<and> sz \<le> cap n"

lemma compressible_block_put:
  assumes "pat \<noteq> []"
  shows "\<exists>x. compressible_block hw pat n w = Some (nxt w, put_blocks w [Bytes x]) \<and> length x = n"
proof -
  let ?g = "map (garbage hw (nxt w)) [0..<n]"
  let ?s = "map (\<lambda>b. char_of (unat b)) ?g :: string"
  from gen_buf_loop_spec [OF assms, of 0 ?s] obtain p where
    p: "gen_compressible_buf pat ?s = Some p" "length p = length ?s"
    by (auto simp: gen_compressible_buf_def cyclic_upto_def)
  have "malloc_bytes hw n w = (nxt w, put_blocks w [Bytes ?g])" by (simp add: malloc_bytes_def malloc_first)
  with p(1) have "compressible_block hw pat n w = Some (nxt w, put_blocks w [Bytes (map of_char p)])"
    using get_bytes_put [of 0 "[Bytes ?g]" ?g w] set_bytes_put [of 0 "[Bytes ?g]" w "map of_char p"]
    by (simp add: compressible_block_def)
  with p(2) show ?thesis by auto
qed

interpretation plaintext: input_source "gen_plaintext_request hw" "\<lambda>_. True" 0 "\<lambda>n. n" for hw
proof
  fix n and w :: world
  from compressible_block_put [of "''01234567''" hw n w] obtain x where
    "compressible_block hw ''01234567'' n w = Some (nxt w, put_blocks w [Bytes x])" "length x = n" by auto
  then show "\<exists>bs x sz. gen_plaintext_request hw n w = Some ((nxt w + 0, sz), put_blocks w (bs @ [Bytes x])) \<and>
      length bs = 0 \<and> (\<forall>b \<in> set bs. is_buffer b) \<and> sz \<le> length x \<and> sz \<le> n"
    by (intro exI [of _ "[]"] exI [of _ x] exI [of _ n]) (simp add: gen_plaintext_request_def)
qed

text \<open>The two generators that compress have the same first part.\<close>

lemma compressed_block:
  assumes "deflate_ok hw"
  shows "\<exists>x y sz ret. compressible_block hw ''01234567'' n w = Some (nxt w, put_blocks w [Bytes x]) \<and> length x = n \<and>
    gpcore_do_compress hw (Suc (nxt w)) x (get_compress_bound hw n)
      (put_blocks w [Bytes x, Bytes (map (garbage hw (Suc (nxt w))) [0..<get_compress_bound hw n])]) =
      Some (ret, sz, put_blocks w [Bytes x, Bytes y]) \<and> length y = get_compress_bound hw n \<and> sz \<le> length y"
proof -
  from compressible_block_put [of "''01234567''" hw n w] obtain x where
    x: "compressible_block hw ''01234567'' n w = Some (nxt w, put_blocks w [Bytes x])" "length x = n" by auto
  let ?m = "get_compress_bound hw n"
  let ?g = "map (garbage hw (Suc (nxt w))) [0..<?m]"
  let ?w = "put_blocks w [Bytes x, Bytes ?g]"
  have h: "heap ?w (Suc (nxt w)) = Some (Bytes ?g)" using heap_put [of 1 "[Bytes x, Bytes ?g]" w] by simp
  have "deflate_into hw x ?m (length ?g)" by (rule deflate_ok_into [OF assms]) simp
  from gpcore_do_compress_ok [OF this h] obtain ret sz y where
    y: "gpcore_do_compress hw (Suc (nxt w)) x ?m ?w = Some (ret, sz, ?w\<lparr>heap := (heap ?w)(Suc (nxt w) \<mapsto> Bytes y)\<rparr>)"
    "length y = ?m" "sz \<le> ?m" by auto
  have "?w\<lparr>heap := (heap ?w)(Suc (nxt w) \<mapsto> Bytes y)\<rparr> = put_blocks w [Bytes x, Bytes y]"
    using update_put [of 1 "[Bytes x, Bytes ?g]" w "Bytes y"] by simp
  with x y show ?thesis by (intro exI [of _ x] exI [of _ y] exI [of _ sz] exI [of _ ret]) simp
qed

interpretation compressed: input_source "gen_compressed_request hw" "\<lambda>_. deflate_ok hw" 1 "get_compress_bound hw" for hw
proof
  fix n and w :: world assume "deflate_ok hw"
  from compressed_block [OF this, of n w] obtain x y sz ret where
    b: "compressible_block hw ''01234567'' n w = Some (nxt w, put_blocks w [Bytes x])"
    "gpcore_do_compress hw (Suc (nxt w)) x (get_compress_bound hw n)
      (put_blocks w [Bytes x, Bytes (map (garbage hw (Suc (nxt w))) [0..<get_compress_bound hw n])]) =
      Some (ret, sz, put_blocks w [Bytes x, Bytes y])" "length y = get_compress_bound hw n" "sz \<le> length y" by blast
  have "gen_compressed_request hw n w = Some ((nxt w + 1, sz), put_blocks w ([Bytes x] @ [Bytes y]))"
    using b(1,2) get_bytes_put [of 0 "[Bytes x, Bytes (map (garbage hw (Suc (nxt w))) [0..<get_compress_bound hw n])]" x w]
    by (simp add: gen_compressed_request_def malloc_bytes_put Let_def)
  then show "\<exists>bs x sz. gen_compressed_request hw n w = Some ((nxt w + 1, sz), put_blocks w (bs @ [Bytes x])) \<and>
      length bs = 1 \<and> (\<forall>b \<in> set bs. is_buffer b) \<and> sz \<le> length x \<and> sz \<le> get_compress_bound hw n"
    using b(3,4) by (intro exI [of _ "[Bytes x]"] exI [of _ y] exI [of _ sz]) (simp add: is_buffer_def)
qed

text \<open>The serialized request is no larger than the compression bound of its payload.\<close>

definition small_put_request :: "env \<Rightarrow> nat \<Rightarrow> bool" where
  "small_put_request hw n \<longleftrightarrow> (\<forall>w p sz w'. gen_compressed_serialized_put_request hw n w = Some ((p, sz), w') \<longrightarrow>
    sz \<le> get_compress_bound hw n)"

interpretation serialized: input_source "gen_compressed_serialized_put_request hw"
    "\<lambda>n. deflate_ok hw \<and> small_put_request hw n" 2 "get_compress_bound hw" for hw
proof
  fix n and w :: world assume hw: "deflate_ok hw \<and> small_put_request hw n"
  then obtain x y sz ret where
    b: "compressible_block hw ''01234567'' n w = Some (nxt w, put_blocks w [Bytes x])"
    "gpcore_do_compress hw (Suc (nxt w)) x (get_compress_bound hw n)
      (put_blocks w [Bytes x, Bytes (map (garbage hw (Suc (nxt w))) [0..<get_compress_bound hw n])]) =
      Some (ret, sz, put_blocks w [Bytes x, Bytes y])" "length y = get_compress_bound hw n" "sz \<le> length y"
    using compressed_block [of hw n w] by blast
  let ?msg = "serialize_put hw put_key (take sz y)"
  let ?g = "map (garbage hw (Suc (Suc (nxt w)))) [0..<length ?msg]"
  have r: "gen_compressed_serialized_put_request hw n w =
      Some ((nxt w + 2, length ?msg), put_blocks w ([Bytes x, Bytes y] @ [Bytes ?msg]))"
    using b get_bytes_put [of 0 "[Bytes x, Bytes (map (garbage hw (Suc (nxt w))) [0..<get_compress_bound hw n])]" x w]
      get_bytes_put [of 1 "[Bytes x, Bytes y]" y w] set_bytes_put [of 2 "[Bytes x, Bytes y, Bytes ?g]" w ?msg]
    by (simp add: gen_compressed_serialized_put_request_def malloc_bytes_put Let_def numeral_2_eq_2)
  with hw have "length ?msg \<le> get_compress_bound hw n" unfolding small_put_request_def by blast
  with r show "\<exists>bs x sz. gen_compressed_serialized_put_request hw n w = Some ((nxt w + 2, sz), put_blocks w (bs @ [Bytes x])) \<and>
      length bs = 2 \<and> (\<forall>b \<in> set bs. is_buffer b) \<and> sz \<le> length x \<and> sz \<le> get_compress_bound hw n"
    by (intro exI [of _ "[Bytes x, Bytes y]"] exI [of _ ?msg] exI [of _ "length ?msg"]) (simp add: is_buffer_def)
qed

section \<open>Structs\<close>

text \<open>\<open>needs a\<close> are the buffers of a struct with what they must be, \<open>freed a\<close> the blocks that its
  deallocator frees; \<open>l\<close> blocks are lost.\<close>

definition phase_good ::
  "(offload_args \<Rightarrow> (ptr \<times> (kind \<Rightarrow> bool)) list) \<Rightarrow> (offload_args \<Rightarrow> ptr list) \<Rightarrow> (offload_args \<Rightarrow> bool) \<Rightarrow> stamps5 \<Rightarrow> nat \<Rightarrow>
   nat \<Rightarrow> offload_args \<Rightarrow> ptr set \<Rightarrow> ptr set \<Rightarrow> (ptr \<Rightarrow> kind option) \<Rightarrow> bool" where
  "phase_good needs freed R ts l i a F G K \<longleftrightarrow> R a \<and> a_comp a = i \<and> a_id a = i \<and> stamps_of a = ts \<and>
    (\<forall>(p, Q) \<in> set (needs a). p \<in> F \<and> (\<exists>k. K p = Some k \<and> Q k)) \<and> distinct (freed a) \<and> set (freed a) = G \<and> G \<subseteq> F \<and>
    0 \<notin> F \<and> finite F \<and> card (F - G) = l \<and> (\<forall>p \<in> F. K p \<noteq> None)"

lemma phase_good_local:
  "phase_good needs freed R ts l i a F G K \<Longrightarrow> \<forall>p \<in> F. K' p = K p \<Longrightarrow> phase_good needs freed R ts l i a F G K'"
  unfolding phase_good_def by fastforce

lemma phase_good_freed: "phase_good needs freed R ts l i a F G K \<Longrightarrow> G \<subseteq> F"
  by (simp add: phase_good_def)

lemma phase_good_lost: "phase_good needs freed R ts l i a F G K \<Longrightarrow> finite F \<and> card (F - G) = l"
  by (simp add: phase_good_def)

lemma phase_good_releases: "phase_good needs freed R ts l i a F G K \<Longrightarrow> releases K G (frees (freed a))"
  using releases_frees [of "freed a" K] by (auto simp: phase_good_def)

text \<open>A struct whose blocks were allocated in a row.\<close>

definition laid_out ::
  "(offload_args \<Rightarrow> (ptr \<times> (kind \<Rightarrow> bool)) list) \<Rightarrow> (offload_args \<Rightarrow> ptr list) \<Rightarrow> (offload_args \<Rightarrow> bool) \<Rightarrow> stamps5 \<Rightarrow> nat \<Rightarrow>
   nat \<Rightarrow> ptr \<Rightarrow> offload_args \<Rightarrow> block list \<Rightarrow> bool" where
  "laid_out needs freed R ts l i p a bs \<longleftrightarrow> R a \<and> a_comp a = i \<and> a_id a = i \<and> stamps_of a = ts \<and>
    (\<forall>(q, Q) \<in> set (needs a). p \<le> q \<and> q < p + length bs \<and> Q (kind_of (bs ! (q - p)))) \<and>
    distinct (freed a) \<and> set (freed a) \<subseteq> {p..<p + length bs} \<and> length bs = length (freed a) + l"

lemma laid_out_good:
  assumes "fresh w" and a: "laid_out needs freed R ts l i (nxt w) a bs"
  shows "phase_good needs freed R ts l i a {nxt w..<nxt w + length bs} (set (freed a)) (kinds (put_blocks w bs))"
proof -
  have k: "kinds (put_blocks w bs) p = Some (kind_of (bs ! (p - nxt w)))" if "nxt w \<le> p" "p < nxt w + length bs" for p
    using kinds_put [of "p - nxt w" bs w] that by simp
  have "card ({nxt w..<nxt w + length bs} - set (freed a)) = l"
    using a by (subst card_Diff_subset) (auto simp: distinct_card laid_out_def)
  moreover have "\<forall>(p, Q) \<in> set (needs a). p \<in> {nxt w..<nxt w + length bs} \<and> (\<exists>k. kinds (put_blocks w bs) p = Some k \<and> Q k)"
    using a k unfolding laid_out_def by fastforce
  ultimately show ?thesis using a k assms(1) unfolding phase_good_def laid_out_def fresh_def by auto
qed

lemma phase_allocator:
  assumes "\<And>i w. \<exists>a bs. alloc i w = Some (a, put_blocks w bs) \<and> laid_out needs freed R ts l i (nxt w) a bs"
    and p: "\<And>w w'. pre w \<Longrightarrow> g_indir_arr w' = g_indir_arr w \<Longrightarrow> g_item_buf w' = g_item_buf w \<Longrightarrow> pre w'"
  shows "allocator alloc (\<lambda>a. frees (freed a)) (phase_good needs freed R ts l) (\<lambda>_. True) pre"
proof
  fix i w assume w: "pre w" "fresh w"
  from assms(1) obtain a bs where a: "alloc i w = Some (a, put_blocks w bs)" "laid_out needs freed R ts l i (nxt w) a bs" by blast
  have "pre (put_blocks w bs)" by (rule p [OF w(1)]) simp_all
  with a(1) grows_put [of w bs] laid_out_good [OF w(2) a(2)] show "\<exists>a w' F G. alloc i w = Some (a, w') \<and> grows F w w' \<and>
      calm w w' \<and> pre w' \<and> phase_good needs freed R ts l i a F G (kinds w')" by blast
next
  fix w b assume "pre w" then show "pre (snd (malloc b w))" by (rule p) (simp_all add: malloc_def)
qed (auto simp: phase_good_local phase_good_releases dest: phase_good_freed)

lemma stamps_set_ts5: "stamps_of (set_ts5 ts a) = ts"
  by (cases ts) (simp add: stamps_of_def set_ts5_def)

lemma set_ts5_sel [simp]:
  "a_self (set_ts5 ts a) = a_self a" "a_comp (set_ts5 ts a) = a_comp a" "a_id (set_ts5 ts a) = a_id a"
  "a_desc (set_ts5 ts a) = a_desc a" "a_aecs (set_ts5 ts a) = a_aecs a"
  "a_pre_proc_input (set_ts5 ts a) = a_pre_proc_input a" "a_pre_proc_output (set_ts5 ts a) = a_pre_proc_output a"
  "a_pre_proc_input_size (set_ts5 ts a) = a_pre_proc_input_size a"
  "a_ax_func_output (set_ts5 ts a) = a_ax_func_output a" "a_max_axfunc_output_size (set_ts5 ts a) = a_max_axfunc_output_size a"
  "a_post_proc_output (set_ts5 ts a) = a_post_proc_output a" "a_post_proc_input_size (set_ts5 ts a) = a_post_proc_input_size a"
  "a_max_post_proc_output_size (set_ts5 ts a) = a_max_post_proc_output_size a"
  by (cases ts; simp add: set_ts5_def)+

definition room_for :: "nat \<Rightarrow> kind \<Rightarrow> bool" where
  "room_for sz k \<longleftrightarrow> (\<exists>m. k = KBytes m \<and> sz \<le> m)"

lemma room_for_bytes [simp]: "room_for sz (KBytes m) \<longleftrightarrow> sz \<le> m"
  by (simp add: room_for_def)

text \<open>The buffers of the four kinds of structs.\<close>

definition three_needs :: "nat \<Rightarrow> nat \<Rightarrow> nat \<Rightarrow> offload_args \<Rightarrow> (ptr \<times> (kind \<Rightarrow> bool)) list" where
  "three_needs pre ax post a = [(a_pre_proc_input a, room_for (a_pre_proc_input_size a)), (a_pre_proc_output a, room_for pre),
    (a_ax_func_output a, room_for ax), (a_post_proc_output a, room_for post), (a_desc a, \<lambda>k. k = KDesc)]"

definition null_two_needs :: "nat \<Rightarrow> nat \<Rightarrow> offload_args \<Rightarrow> (ptr \<times> (kind \<Rightarrow> bool)) list" where
  "null_two_needs ax post a = [(a_pre_proc_output a, room_for (a_pre_proc_input_size a)),
    (a_ax_func_output a, room_for ax), (a_post_proc_output a, room_for post), (a_desc a, \<lambda>k. k = KDesc)]"

definition chain_needs :: "offload_args \<Rightarrow> (ptr \<times> (kind \<Rightarrow> bool)) list" where
  "chain_needs a = [(a_desc a, \<lambda>k. k = KDesc)]"

definition aecs_needs :: "nat \<Rightarrow> offload_args \<Rightarrow> (ptr \<times> (kind \<Rightarrow> bool)) list" where
  "aecs_needs sz a = [(a_aecs a, room_for sz), (a_desc a, \<lambda>k. k = KDesc)]"

definition sizes_are :: "nat \<Rightarrow> nat \<Rightarrow> nat \<Rightarrow> nat \<Rightarrow> offload_args \<Rightarrow> bool" where
  "sizes_are cap ax post_in post a \<longleftrightarrow> a_pre_proc_input_size a \<le> cap \<and> a_max_axfunc_output_size a = ax \<and>
    a_post_proc_input_size a = post_in \<and> a_max_post_proc_output_size a = post"

lemmas layout_simps = laid_out_def stamps_set_ts5 three_phase_fields_def gpcore_axcore_null_fields_def axcore_axcore_fields_def
  axcore_axcore_aecs_fields_def three_needs_def null_two_needs_def chain_needs_def aecs_needs_def sizes_are_def nth_append eval_nat_numeral

lemmas alloc_puts = malloc_first malloc_bytes_put malloc_desc_def malloc_aecs_def malloc_put put_put Let_def eval_nat_numeral

context input_source
begin

lemma generates_next:
  assumes "ok n"
  shows "\<exists>bs x sz. gen n (put_blocks w [Opaque]) = Some ((nxt w + Suc lost, sz), put_blocks w (Opaque # bs @ [Bytes x])) \<and>
    length bs = lost \<and> (\<forall>b \<in> set bs. is_buffer b) \<and> sz \<le> length x \<and> sz \<le> cap n"
  using generates [OF assms, of "put_blocks w [Opaque]"] by (auto simp: put_put)

lemma three_func_put:
  assumes "ok n"
  shows "\<exists>bs x sz b1 b2 b3 d. three_func_arg hw gen n ax post ts i w =
      Some (set_ts5 ts ((uninit_args hw (nxt w))\<lparr>a_pre_proc_input := nxt w + Suc lost, a_pre_proc_input_size := sz,
        a_pre_proc_output := nxt w + (lost + 2), a_ax_func_output := nxt w + (lost + 3), a_max_axfunc_output_size := ax,
        a_post_proc_output := nxt w + (lost + 4), a_max_post_proc_output_size := post,
        a_post_proc_input_size := n, a_comp := i, a_id := i, a_desc := nxt w + (lost + 5)\<rparr>),
      put_blocks w (Opaque # bs @ [Bytes x, Bytes b1, Bytes b2, Bytes b3, Desc d])) \<and>
    length bs = lost \<and> sz \<le> length x \<and> sz \<le> cap n \<and> length b1 = get_compress_bound hw n \<and> length b2 = ax \<and> length b3 = post"
proof -
  from generates_next [OF assms, of w] obtain bs x sz where
    g: "gen n (put_blocks w [Opaque]) = Some ((nxt w + Suc lost, sz), put_blocks w (Opaque # bs @ [Bytes x]))"
    "length bs = lost" "sz \<le> length x" "sz \<le> cap n" by blast
  let ?b1 = "map (garbage hw (nxt w + (lost + 2))) [0..<get_compress_bound hw n]" and ?g = "map (garbage hw (nxt w + (lost + 3))) [0..<ax]"
  from prefault_put [of ax ?g w "Opaque # bs @ [Bytes x, Bytes ?b1]"] obtain b2 where
    b2: "write_prefault (nxt w + (lost + 3)) ax (put_blocks w (Opaque # bs @ [Bytes x, Bytes ?b1, Bytes ?g])) =
      Some (put_blocks w (Opaque # bs @ [Bytes x, Bytes ?b1, Bytes b2]))" "length b2 = ax" using g(2) by (auto simp: eval_nat_numeral)
  have "three_func_arg hw gen n ax post ts i w =
      Some (set_ts5 ts ((uninit_args hw (nxt w))\<lparr>a_pre_proc_input := nxt w + Suc lost, a_pre_proc_input_size := sz,
        a_pre_proc_output := nxt w + (lost + 2), a_ax_func_output := nxt w + (lost + 3), a_max_axfunc_output_size := ax,
        a_post_proc_output := nxt w + (lost + 4), a_max_post_proc_output_size := post,
        a_post_proc_input_size := n, a_comp := i, a_id := i, a_desc := nxt w + (lost + 5)\<rparr>),
      put_blocks w (Opaque # bs @ [Bytes x, Bytes ?b1, Bytes b2, Bytes (map (garbage hw (nxt w + (lost + 4))) [0..<post]),
        Desc (uninit_desc hw (nxt w + (lost + 5)))]))"
    using g(1,2) b2 by (simp add: three_func_arg_def alloc_puts)
  with g b2(2) show ?thesis by (intro exI conjI) (assumption | simp)+
qed

lemma null_two_func_put:
  assumes "ok n"
  shows "\<exists>bs x sz b1 b2 b3 d. null_two_func_arg hw gen n ax post ts i w =
      Some (set_ts5 ts ((uninit_args hw (nxt w))\<lparr>a_pre_proc_output := nxt w + Suc lost, a_pre_proc_input_size := sz,
        a_pre_proc_input := nxt w + (lost + 2), a_ax_func_output := nxt w + (lost + 3), a_max_axfunc_output_size := ax,
        a_post_proc_output := nxt w + (lost + 4), a_max_post_proc_output_size := post,
        a_post_proc_input_size := n, a_comp := i, a_id := i, a_desc := nxt w + (lost + 5)\<rparr>),
      put_blocks w (Opaque # bs @ [Bytes x, Bytes b1, Bytes b2, Bytes b3, Desc d])) \<and>
    length bs = lost \<and> sz \<le> length x \<and> sz \<le> cap n \<and> length b1 = n \<and> length b2 = ax \<and> length b3 = post"
proof -
  from generates_next [OF assms, of w] obtain bs x sz where
    g: "gen n (put_blocks w [Opaque]) = Some ((nxt w + Suc lost, sz), put_blocks w (Opaque # bs @ [Bytes x]))"
    "length bs = lost" "sz \<le> length x" "sz \<le> cap n" by blast
  from prefault_put [of "ax" "map (garbage hw (nxt w + (lost + 3))) [0..<ax]" w "Opaque # bs @ [Bytes x, Bytes (map (garbage hw (nxt w + (lost + 2))) [0..<n])]"] obtain b2 where
    b2: "write_prefault (nxt w + (lost + 3)) (ax) (put_blocks w (Opaque # bs @ [Bytes x, Bytes (map (garbage hw (nxt w + (lost + 2))) [0..<n]), Bytes (map (garbage hw (nxt w + (lost + 3))) [0..<ax])])) =
      Some (put_blocks w (Opaque # bs @ [Bytes x, Bytes (map (garbage hw (nxt w + (lost + 2))) [0..<n]), Bytes b2]))" "length b2 = ax" using g(2) by (auto simp: eval_nat_numeral)
  have "null_two_func_arg hw gen n ax post ts i w =
      Some (set_ts5 ts ((uninit_args hw (nxt w))\<lparr>a_pre_proc_output := nxt w + Suc lost, a_pre_proc_input_size := sz,
        a_pre_proc_input := nxt w + (lost + 2), a_ax_func_output := nxt w + (lost + 3), a_max_axfunc_output_size := ax,
        a_post_proc_output := nxt w + (lost + 4), a_max_post_proc_output_size := post,
        a_post_proc_input_size := n, a_comp := i, a_id := i, a_desc := nxt w + (lost + 5)\<rparr>),
      put_blocks w (Opaque # bs @ [Bytes x, Bytes (map (garbage hw (nxt w + (lost + 2))) [0..<n]), Bytes b2, Bytes (map (garbage hw (nxt w + (lost + 4))) [0..<post]), Desc (uninit_desc hw (nxt w + (lost + 5)))]))"
    using g(1,2) b2 by (simp add: null_two_func_arg_def alloc_puts)
  with g b2(2) show ?thesis by (intro exI conjI) (assumption | simp)+
qed

lemma axcore_axcore_put:
  assumes "ok n"
  shows "\<exists>bs x sz b1 b2 d. axcore_axcore_arg hw gen n ax post ts i w =
      Some (set_ts5 ts ((uninit_args hw (nxt w))\<lparr>a_pre_proc_input := nxt w + Suc lost, a_pre_proc_input_size := sz,
        a_pre_proc_output := nxt w + (lost + 2), a_ax_func_input_size := n, a_ax_func_output := nxt w + (lost + 3),
        a_comp := i, a_id := i, a_desc := nxt w + (lost + 4)\<rparr>),
      put_blocks w (Opaque # bs @ [Bytes x, Bytes b1, Bytes b2, Desc d])) \<and>
    length bs = lost \<and> sz \<le> length x \<and> sz \<le> cap n \<and> length b1 = get_compress_bound hw n \<and> length b2 = ax"
proof -
  from generates_next [OF assms, of w] obtain bs x sz where
    g: "gen n (put_blocks w [Opaque]) = Some ((nxt w + Suc lost, sz), put_blocks w (Opaque # bs @ [Bytes x]))"
    "length bs = lost" "sz \<le> length x" "sz \<le> cap n" by blast
  from prefault_put [of "get_compress_bound hw n" "map (garbage hw (nxt w + (lost + 2))) [0..<get_compress_bound hw n]" w "Opaque # bs @ [Bytes x]"] obtain b1 where
    b1: "write_prefault (nxt w + (lost + 2)) (get_compress_bound hw n) (put_blocks w (Opaque # bs @ [Bytes x, Bytes (map (garbage hw (nxt w + (lost + 2))) [0..<get_compress_bound hw n])])) =
      Some (put_blocks w (Opaque # bs @ [Bytes x, Bytes b1]))" "length b1 = get_compress_bound hw n" using g(2) by (auto simp: eval_nat_numeral)
  from prefault_put [of "ax" "map (garbage hw (nxt w + (lost + 3))) [0..<ax]" w "Opaque # bs @ [Bytes x, Bytes b1]"] obtain b2 where
    b2: "write_prefault (nxt w + (lost + 3)) (ax) (put_blocks w (Opaque # bs @ [Bytes x, Bytes b1, Bytes (map (garbage hw (nxt w + (lost + 3))) [0..<ax])])) =
      Some (put_blocks w (Opaque # bs @ [Bytes x, Bytes b1, Bytes b2]))" "length b2 = ax" using g(2) by (auto simp: eval_nat_numeral)
  have "axcore_axcore_arg hw gen n ax post ts i w =
      Some (set_ts5 ts ((uninit_args hw (nxt w))\<lparr>a_pre_proc_input := nxt w + Suc lost, a_pre_proc_input_size := sz,
        a_pre_proc_output := nxt w + (lost + 2), a_ax_func_input_size := n, a_ax_func_output := nxt w + (lost + 3),
        a_comp := i, a_id := i, a_desc := nxt w + (lost + 4)\<rparr>),
      put_blocks w (Opaque # bs @ [Bytes x, Bytes b1, Bytes b2, Desc (uninit_desc hw (nxt w + (lost + 4)))]))"
    using g(1,2) b1 b2 by (simp add: axcore_axcore_arg_def alloc_puts)
  with g b1(2) b2(2) show ?thesis by (intro exI conjI) (assumption | simp)+
qed

lemma gpcore_axcore_null_put:
  assumes "ok n"
  shows "\<exists>bs x sz b1 b2 b3 d b4. gpcore_axcore_null_arg hw gen n ax post ts i w =
      Some (set_ts5 ts ((uninit_args hw (nxt w))\<lparr>a_pre_proc_input := nxt w + Suc lost, a_pre_proc_input_size := sz,
        a_pre_proc_output := nxt w + (lost + 2), a_ax_func_output := nxt w + (lost + 3), a_max_axfunc_output_size := iaa_compress_max_dest_size hw,
        a_post_proc_output := nxt w + (lost + 4), a_max_post_proc_output_size := post,
        a_post_proc_input_size := n, a_comp := i, a_id := i, a_desc := nxt w + (lost + 5), a_aecs := nxt w + (lost + 6)\<rparr>),
      put_blocks w (Opaque # bs @ [Bytes x, Bytes b1, Bytes b2, Bytes b3, Desc d, Bytes b4])) \<and>
    length bs = lost \<and> sz \<le> length x \<and> sz \<le> cap n \<and> length b1 = iaa_compress_max_dest_size hw \<and> length b2 = iaa_compress_max_dest_size hw \<and> length b3 = post \<and> length b4 = iaa_compress_src2_size hw"
proof -
  from generates_next [OF assms, of w] obtain bs x sz where
    g: "gen n (put_blocks w [Opaque]) = Some ((nxt w + Suc lost, sz), put_blocks w (Opaque # bs @ [Bytes x]))"
    "length bs = lost" "sz \<le> length x" "sz \<le> cap n" by blast
  from prefault_put [of "iaa_compress_max_dest_size hw" "map (garbage hw (nxt w + (lost + 3))) [0..<iaa_compress_max_dest_size hw]" w "Opaque # bs @ [Bytes x, Bytes (map (garbage hw (nxt w + (lost + 2))) [0..<iaa_compress_max_dest_size hw])]"] obtain b2 where
    b2: "write_prefault (nxt w + (lost + 3)) (iaa_compress_max_dest_size hw) (put_blocks w (Opaque # bs @ [Bytes x, Bytes (map (garbage hw (nxt w + (lost + 2))) [0..<iaa_compress_max_dest_size hw]), Bytes (map (garbage hw (nxt w + (lost + 3))) [0..<iaa_compress_max_dest_size hw])])) =
      Some (put_blocks w (Opaque # bs @ [Bytes x, Bytes (map (garbage hw (nxt w + (lost + 2))) [0..<iaa_compress_max_dest_size hw]), Bytes b2]))" "length b2 = iaa_compress_max_dest_size hw" using g(2) by (auto simp: eval_nat_numeral)
  have "gpcore_axcore_null_arg hw gen n ax post ts i w =
      Some (set_ts5 ts ((uninit_args hw (nxt w))\<lparr>a_pre_proc_input := nxt w + Suc lost, a_pre_proc_input_size := sz,
        a_pre_proc_output := nxt w + (lost + 2), a_ax_func_output := nxt w + (lost + 3), a_max_axfunc_output_size := iaa_compress_max_dest_size hw,
        a_post_proc_output := nxt w + (lost + 4), a_max_post_proc_output_size := post,
        a_post_proc_input_size := n, a_comp := i, a_id := i, a_desc := nxt w + (lost + 5), a_aecs := nxt w + (lost + 6)\<rparr>),
      put_blocks w (Opaque # bs @ [Bytes x, Bytes (map (garbage hw (nxt w + (lost + 2))) [0..<iaa_compress_max_dest_size hw]), Bytes b2, Bytes (map (garbage hw (nxt w + (lost + 4))) [0..<post]), Desc (uninit_desc hw (nxt w + (lost + 5))), Bytes (replicate (iaa_compress_src2_size hw) 0)]))"
    using g(1,2) b2 by (simp add: gpcore_axcore_null_arg_def alloc_puts)
  with g b2(2) show ?thesis by (intro exI conjI) (assumption | simp)+
qed

lemma axcore_axcore_aecs_put:
  assumes "ok n"
  shows "\<exists>bs x sz b1 b2 d b3. axcore_axcore_compress_aecs_arg hw gen n ax post ts i w =
      Some (set_ts5 ts ((uninit_args hw (nxt w))\<lparr>a_pre_proc_input := nxt w + Suc lost, a_pre_proc_input_size := sz,
        a_pre_proc_output := nxt w + (lost + 2), a_ax_func_input_size := n, a_ax_func_output := nxt w + (lost + 3),
        a_max_axfunc_output_size := iaa_compress_max_dest_size hw, a_comp := i, a_id := i, a_desc := nxt w + (lost + 4), a_aecs := nxt w + (lost + 5)\<rparr>),
      put_blocks w (Opaque # bs @ [Bytes x, Bytes b1, Bytes b2, Desc d, Bytes b3])) \<and>
    length bs = lost \<and> sz \<le> length x \<and> sz \<le> cap n \<and> length b1 = iaa_compress_max_dest_size hw \<and> length b2 = iaa_compress_max_dest_size hw \<and> length b3 = iaa_compress_src2_size hw"
proof -
  from generates_next [OF assms, of w] obtain bs x sz where
    g: "gen n (put_blocks w [Opaque]) = Some ((nxt w + Suc lost, sz), put_blocks w (Opaque # bs @ [Bytes x]))"
    "length bs = lost" "sz \<le> length x" "sz \<le> cap n" by blast
  from prefault_put [of "iaa_compress_max_dest_size hw" "map (garbage hw (nxt w + (lost + 2))) [0..<iaa_compress_max_dest_size hw]" w "Opaque # bs @ [Bytes x]"] obtain b1 where
    b1: "write_prefault (nxt w + (lost + 2)) (iaa_compress_max_dest_size hw) (put_blocks w (Opaque # bs @ [Bytes x, Bytes (map (garbage hw (nxt w + (lost + 2))) [0..<iaa_compress_max_dest_size hw])])) =
      Some (put_blocks w (Opaque # bs @ [Bytes x, Bytes b1]))" "length b1 = iaa_compress_max_dest_size hw" using g(2) by (auto simp: eval_nat_numeral)
  from prefault_put [of "iaa_compress_max_dest_size hw" "map (garbage hw (nxt w + (lost + 3))) [0..<iaa_compress_max_dest_size hw]" w "Opaque # bs @ [Bytes x, Bytes b1]"] obtain b2 where
    b2: "write_prefault (nxt w + (lost + 3)) (iaa_compress_max_dest_size hw) (put_blocks w (Opaque # bs @ [Bytes x, Bytes b1, Bytes (map (garbage hw (nxt w + (lost + 3))) [0..<iaa_compress_max_dest_size hw])])) =
      Some (put_blocks w (Opaque # bs @ [Bytes x, Bytes b1, Bytes b2]))" "length b2 = iaa_compress_max_dest_size hw" using g(2) by (auto simp: eval_nat_numeral)
  have "axcore_axcore_compress_aecs_arg hw gen n ax post ts i w =
      Some (set_ts5 ts ((uninit_args hw (nxt w))\<lparr>a_pre_proc_input := nxt w + Suc lost, a_pre_proc_input_size := sz,
        a_pre_proc_output := nxt w + (lost + 2), a_ax_func_input_size := n, a_ax_func_output := nxt w + (lost + 3),
        a_max_axfunc_output_size := iaa_compress_max_dest_size hw, a_comp := i, a_id := i, a_desc := nxt w + (lost + 4), a_aecs := nxt w + (lost + 5)\<rparr>),
      put_blocks w (Opaque # bs @ [Bytes x, Bytes b1, Bytes b2, Desc (uninit_desc hw (nxt w + (lost + 4))), Bytes (replicate (iaa_compress_src2_size hw) 0)]))"
    using g(1,2) b1 b2 by (simp add: axcore_axcore_compress_aecs_arg_def alloc_puts)
  with g b1(2) b2(2) show ?thesis by (intro exI conjI) (assumption | simp)+
qed

lemma three_func_layout:
  assumes "ok n"
  shows "\<exists>a bs. three_func_arg hw gen n ax post ts i w = Some (a, put_blocks w bs) \<and>
    laid_out (three_needs (get_compress_bound hw n) ax post) three_phase_fields (sizes_are (cap n) ax n post) ts (lost) i (nxt w) a bs"
  using three_func_put [OF assms, of hw ax post ts i w]
  by - (elim exE conjE, intro exI conjI, assumption, simp add: layout_simps)

lemma null_two_func_layout:
  assumes "ok n"
  shows "\<exists>a bs. null_two_func_arg hw gen n ax post ts i w = Some (a, put_blocks w bs) \<and>
    laid_out (null_two_needs ax post) three_phase_fields (sizes_are (cap n) ax n post) ts (lost) i (nxt w) a bs"
  using null_two_func_put [OF assms, of hw ax post ts i w]
  by - (elim exE conjE, intro exI conjI, assumption, simp add: layout_simps)

lemma axcore_axcore_layout:
  assumes "ok n"
  shows "\<exists>a bs. axcore_axcore_arg hw gen n ax post ts i w = Some (a, put_blocks w bs) \<and>
    laid_out (chain_needs) axcore_axcore_fields (\<lambda>_. True) ts (lost) i (nxt w) a bs"
  using axcore_axcore_put [OF assms, of hw ax post ts i w]
  by - (elim exE conjE, intro exI conjI, assumption, simp add: layout_simps)

text \<open>With \<open>free_three_phase_stamped_args\<close> the compression state is lost.\<close>

lemma gpcore_axcore_null_layout:
  assumes "ok n"
  shows "\<exists>a bs. gpcore_axcore_null_arg hw gen n ax post ts i w = Some (a, put_blocks w bs) \<and>
    laid_out (\<lambda>a. three_needs (iaa_compress_max_dest_size hw) (iaa_compress_max_dest_size hw) post a @ aecs_needs (iaa_compress_src2_size hw) a) three_phase_fields (sizes_are (cap n) (iaa_compress_max_dest_size hw) n post) ts (Suc lost) i (nxt w) a bs"
  using gpcore_axcore_null_put [OF assms, of hw ax post ts i w]
  by - (elim exE conjE, intro exI conjI, assumption, simp add: layout_simps)

lemma gpcore_axcore_null_layout_matched:
  assumes "ok n"
  shows "\<exists>a bs. gpcore_axcore_null_arg hw gen n ax post ts i w = Some (a, put_blocks w bs) \<and>
    laid_out (\<lambda>a. three_needs (iaa_compress_max_dest_size hw) (iaa_compress_max_dest_size hw) post a @ aecs_needs (iaa_compress_src2_size hw) a) gpcore_axcore_null_fields (sizes_are (cap n) (iaa_compress_max_dest_size hw) n post) ts (lost) i (nxt w) a bs"
  using gpcore_axcore_null_put [OF assms, of hw ax post ts i w]
  by - (elim exE conjE, intro exI conjI, assumption, simp add: layout_simps)

lemma axcore_axcore_aecs_layout:
  assumes "ok n"
  shows "\<exists>a bs. axcore_axcore_compress_aecs_arg hw gen n ax post ts i w = Some (a, put_blocks w bs) \<and>
    laid_out (aecs_needs (iaa_compress_src2_size hw)) axcore_axcore_aecs_fields (\<lambda>_. True) ts (lost) i (nxt w) a bs"
  using axcore_axcore_aecs_put [OF assms, of hw ax post ts i w]
  by - (elim exE conjE, intro exI conjI, assumption, simp add: layout_simps)

end

end
