(* ===== verification/Three_Phase_Harness.thy ===== *)
theory Three_Phase_Harness
  imports Three_Phase_Supply
begin

text \<open>
  Whole calls of the harness of the composable requests and of its runner.  The locale
  \<open>executor_rig\<close> is the pair of an allocator and a deallocator of executor arguments, interpreted on
  those of the throughput and of the breakdown runs, \<open>stats_rig\<close> the same for the results.
\<close>

section \<open>Structs supply the harness\<close>

definition phase_structs ::
  "(offload_args \<Rightarrow> (ptr \<times> (kind \<Rightarrow> bool)) list) \<Rightarrow> (offload_args \<Rightarrow> bool) \<Rightarrow> stamps5 \<Rightarrow> nat \<Rightarrow> shape \<Rightarrow> offload_args list \<Rightarrow> bool" where
  "phase_structs needs R ts n K args \<longleftrightarrow> length args = n \<and> (\<forall>i < n. slot_args n i (args ! i) \<and> stamps_of (args ! i) = ts \<and>
    R (args ! i) \<and> (\<forall>(p, Q) \<in> set (needs (args ! i)). \<exists>k. blocks K p = Some k \<and> Q k))"

lemma phase_supply:
  assumes "\<And>i w. \<exists>a bs. alloc i w = Some (a, put_blocks w bs) \<and> laid_out needs freed R ts l i (nxt w) a bs"
  shows "offload_supply (alloc_array alloc n) (free_array (\<lambda>a. frees (freed a)) n) (\<lambda>w. g_indir_arr w = q) True (n * l)
    (\<lambda>K args. phase_structs needs R ts n K args \<and> indir_at K = q)"
proof (rule array_supply)
  show "allocator alloc (\<lambda>a. frees (freed a)) (phase_good needs freed R ts l) (\<lambda>_. True) (\<lambda>w. g_indir_arr w = q)"
    by (rule phase_allocator [OF assms]) simp
  show "phase_structs needs R ts n K args \<and> indir_at K = q" if "length args = n"
    "\<forall>i < n. \<exists>F G. phase_good needs freed R ts l i (args ! i) F G (blocks K)" "g_indir_arr w = q" "indir_at K = g_indir_arr w" for K args w
    using that by (fastforce simp: phase_structs_def phase_good_def slot_args_def)
qed (auto dest: phase_good_lost)

section \<open>Executor arguments\<close>

locale executor_rig =
  fixes alloc_x :: "nat \<Rightarrow> nat \<Rightarrow> world \<Rightarrow> (executor_args \<times> world) option"
    and free_x :: "executor_args \<Rightarrow> world \<Rightarrow> world option"
    and n :: nat and f :: request_fn and bs :: "ptr \<Rightarrow> block list" and x :: "nat \<Rightarrow> ptr \<Rightarrow> executor_args"
    and xs ys :: "ptr \<Rightarrow> ptr list" and comps :: "ptr \<Rightarrow> ptr"
  assumes alloc: "alloc_x idx n w = Some (x idx (nxt w), put_blocks (w\<lparr>crs := replicate n idle_comp\<rparr>) (bs (nxt w)))"
    and free: "free_x ((x idx p)\<lparr>x_off_args := as\<rparr>) w = teardown (xs p) (comps p) Some (ys p) w"
    and all: "distinct (comps p # xs p @ ys p)" "set (comps p # xs p @ ys p) = {p..<p + length (bs p)}"
    and fields: "x_total_requests (x idx p) = int n" "x_idx (x idx p) = int idx" "x_off_req_state (x idx p) = replicate n f"
begin

lemma for_executor: "executor_for n (replicate n f) args idx ((x idx p)\<lparr>x_off_args := args\<rparr>)"
  using fields by (simp add: executor_for_def)

definition stamps_at :: "nat \<Rightarrow> ptr \<Rightarrow> stamps5" where
  "stamps_at idx p = (let a = x idx p in (x_ts0 a, x_ts1 a, x_ts2 a, x_ts3 a, x_ts4 a))"

lemma harness:
  assumes client: "offload_supply alloc fr pre True lost serves" and w: "pre w" "fresh w"
    and A: "A n s ax post gen (stamps_at idx (Suc (nxt w))) = alloc" "Fr n = fr"
    and exec: "\<And>K args v. serves K args \<Longrightarrow>
      \<forall>j < length (bs (Suc (nxt w))). blocks K (Suc (nxt w) + j) = Some (kind_of (bs (Suc (nxt w)) ! j)) \<Longrightarrow>
      \<forall>p < nxt w. blocks K p = kinds w p \<Longrightarrow> ready_world K n c v \<Longrightarrow>
      \<exists>v'. exec ((x idx (Suc (nxt w)))\<lparr>x_off_args := args\<rparr>) st v = Some (Done v' ()) \<and> ran K n c subs v v'"
    and c: "c = requests_completed w" and keep: "\<And>K args. serves K args \<Longrightarrow> indir_at K = g_indir_arr w"
  shows "\<exists>w'. three_phase_offload_timed_breakdown alloc_x free_x A Fr gen exec n s ax post st idx w = Some (Done w' ()) \<and>
    leaves c subs lost w w' \<and> g_indir_arr w' = g_indir_arr w"
proof -
  let ?p = "Suc (nxt w)"
  let ?bs = "Opaque # bs ?p" and ?x = "x idx ?p"
  let ?w2 = "put_blocks (w\<lparr>crs := replicate n idle_comp\<rparr>) ?bs"
  have x: "alloc_x idx n (put_blocks w [Opaque]) = Some (?x, ?w2)"
    using alloc [of idx "put_blocks w [Opaque]"] by (simp add: put_blocks_updates put_put)
  have f2: "fresh ?w2" using w(2) by (simp add: fresh_def put_blocks_def)
  have "pre ?w2" by (rule struct_supply.pre_globals [OF client [unfolded offload_supply_def] w(1)]) simp_all
  from struct_supply.supplies [OF client [unfolded offload_supply_def] this f2] obtain arr w3 F G where
    3: "alloc ?w2 = Some (arr, w3)" "grows F ?w2 w3" "crs w3 = replicate n idle_comp" "requests_completed w3 = c" "obs w3 = obs w"
    "G \<subseteq> F" "card (F - G) = lost" "serves (shape w3) (snd arr)" "frees_in True (shape w3) G (fr arr)"
    by (auto simp: c put_blocks_def)
  have below: "kinds w3 p = kinds ?w2 p" if "p < nxt w + length ?bs" for p
    using grows_kinds_below [OF 3(2)] that by simp
  have kb: "\<forall>j < length ?bs. kinds w3 (nxt w + j) = Some (kind_of (?bs ! j))"
    using below kinds_put [of _ ?bs "w\<lparr>crs := replicate n idle_comp\<rparr>"] by simp
  then have kx: "\<forall>j < length (bs ?p). kinds w3 (?p + j) = Some (kind_of (bs ?p ! j))" by fastforce
  have old: "\<forall>p < nxt w. kinds w3 p = kinds w p" using below by (simp add: kinds_def put_blocks_def)
  let ?X = "{nxt w..<nxt w + length ?bs}"
  have gX: "grows (?X \<union> F) w w3"
  proof -
    have "grows ?X w ?w2" by (auto simp: grows_def put_blocks_def)
    from grows_trans [OF this 3(2)] show ?thesis .
  qed
  have F: "F \<subseteq> {nxt w + length ?bs..<nxt w3}" using 3(2) by (auto simp: grows_def)
  have ready: "ready_world (shape w3) n c w3" using 3(3,4) by (simp add: ready_world_def)
  have kK: "\<forall>j < length (bs ?p). blocks (shape w3) (?p + j) = Some (kind_of (bs ?p ! j))" "\<forall>p < nxt w. blocks (shape w3) p = kinds w p"
    using kx old by simp_all
  from exec [OF 3(8) kK ready] obtain w4 where
    4: "exec (?x\<lparr>x_off_args := snd arr\<rparr>) st w3 = Some (Done w4 ())" "ran (shape w3) n c subs w3 w4" by blast
  let ?td = "\<lambda>v. Option.bind (fr arr v) (\<lambda>v. Option.bind (free_x (?x\<lparr>x_off_args := snd arr\<rparr>) v) (mfree (nxt w)))"
  have ne: "blocks (shape w3) q \<noteq> None" if "q \<in> ?X" for q
  proof -
    obtain j where "q = nxt w + j" "j < length ?bs" using \<open>q \<in> _\<close> by (metis atLeastLessThan_iff le_Suc_ex nat_add_left_cancel_less)
    with kb show ?thesis by simp
  qed
  have 0: "0 < nxt w" using w(2) by (simp add: fresh_def)
  have sX: "set (comps ?p # xs ?p @ ys ?p) = {?p..<nxt w + length ?bs}" using all(2) [of ?p] by simp
  have "frees_in True (shape w3) (set (xs ?p) \<union> ({comps ?p} \<union> ({} \<union> set (ys ?p)))) (teardown (xs ?p) (comps ?p) Some (ys ?p))"
  proof (rule teardown_ok [OF frees_inI [OF releases_skip] all(1)])
    show "0 \<notin> set (comps ?p # xs ?p @ ys ?p)" unfolding sX by simp
    show "\<forall>q \<in> set (comps ?p # xs ?p @ ys ?p). blocks (shape w3) q \<noteq> None" unfolding sX by (intro ballI ne) simp
  qed simp
  moreover have "set (xs ?p) \<union> ({comps ?p} \<union> ({} \<union> set (ys ?p))) = {?p..<nxt w + length ?bs}" using sX by auto
  ultimately have tx: "frees_in True (shape w3) {?p..<nxt w + length ?bs} (free_x (?x\<lparr>x_off_args := snd arr\<rparr>))"
    by (simp only: ext [of "free_x (?x\<lparr>x_off_args := snd arr\<rparr>)", OF free])
  have "frees_in True (shape w3) ({?p..<nxt w + length ?bs} \<union> {nxt w}) (\<lambda>v. Option.bind (free_x (?x\<lparr>x_off_args := snd arr\<rparr>) v) (mfree (nxt w)))"
    by (rule frees_in_then [OF tx releases_mfree]) (use 0 ne [of "nxt w"] in auto)
  moreover have "{?p..<nxt w + length ?bs} \<union> {nxt w} = ?X" by auto
  ultimately have tX: "frees_in True (shape w3) ?X (\<lambda>v. Option.bind (free_x (?x\<lparr>x_off_args := snd arr\<rparr>) v) (mfree (nxt w)))" by simp
  have td: "frees_in True (shape w3) (G \<union> ?X) ?td"
    by (rule frees_in_bind [OF 3(9) tX]) (use F 3(6) in fastforce)
  have "card ((?X \<union> F) - (G \<union> ?X)) = lost"
  proof -
    have "(?X \<union> F) - (G \<union> ?X) = F - G" using F by fastforce
    with 3(7) show ?thesis by simp
  qed
  from run_frame [OF w(2) gX 3(5) 4(2) td _ this, of "()"] 3(6) obtain w5 where
    "after_run (Some (Done w4 ())) ?td = Some (Done w5 ())" "leaves c subs lost w w5" "g_indir_arr w5 = g_indir_arr w"
    using keep [OF 3(8)] by auto
  moreover have "three_phase_offload_timed_breakdown alloc_x free_x A Fr gen exec n s ax post st idx w =
      after_run (Some (Done w4 ())) ?td"
    using x 3(1) 4(1) A by (simp add: three_phase_offload_timed_breakdown_def malloc_first stamps_at_def Let_def)
  ultimately show ?thesis by auto
qed

end

lemma frees_steps: "frees [] = Some" "frees (q # qs) = (\<lambda>w. Option.bind (mfree q w) (frees qs))"
  by (rule ext, simp)+

interpretation throughput_rig: executor_rig
    "\<lambda>idx n. alloc_homogenous_request_executor_args_throughput hw idx n f" free_homogoenous_request_executor_args_throughput n f
    "\<lambda>p. [Opaque, Opaque, Opaque] @ replicate n Opaque @ [Opaque]"
    "\<lambda>idx p. (uninit_executor_args hw p)\<lparr>x_total_requests := int n, x_idx := int idx,
      x_off_req_state_block := p + 1, x_off_req_xfer := p + 2, x_contexts := [p + 3..<p + 3 + n],
      x_off_req_state := replicate n f, x_comps := p + 3 + n\<rparr>"
    "\<lambda>p. [p + 3..<p + 3 + n] @ [p + 2, p + 1]" "\<lambda>p. [p]" "\<lambda>p. p + 3 + n" for hw n f
proof
  fix idx p and as :: "offload_args list" and w :: world
  show "free_homogoenous_request_executor_args_throughput ((uninit_executor_args hw p)\<lparr>x_total_requests := int n, x_idx := int idx,
      x_off_req_state_block := p + 1, x_off_req_xfer := p + 2, x_contexts := [p + 3..<p + 3 + n],
      x_off_req_state := replicate n f, x_comps := p + 3 + n, x_off_args := as\<rparr>) w =
    teardown ([p + 3..<p + 3 + n] @ [p + 2, p + 1]) (p + 3 + n) Some [p] w"
    using free_contexts_frees [of "p + 3" n]
    by (simp add: free_homogoenous_request_executor_args_throughput_def teardown_def frees_append frees_steps uninit_executor_args_def Let_def
        del: upt_Suc)
qed (auto simp: alloc_homogenous_request_executor_args_throughput_def malloc_first malloc_put put_put create_contexts_put
      allocate_crs_def put_blocks_updates uninit_executor_args_def Let_def eval_nat_numeral simp del: upt_Suc)

interpretation breakdown_rig: executor_rig
    "\<lambda>idx n. alloc_homogenous_request_executor_args_breakdown hw idx n f" free_homogoenous_request_executor_args_breakdown n f
    "\<lambda>p. Opaque # map (fresh_words hw n) [p + 1..<p + 6] @ [Opaque, Opaque] @ replicate n Opaque @ [Opaque]"
    "\<lambda>idx p. (uninit_executor_args hw p)\<lparr>x_total_requests := int n, x_idx := int idx,
      x_ts0 := p + 1, x_ts1 := p + 2, x_ts2 := p + 3, x_ts3 := p + 4, x_ts4 := p + 5,
      x_off_req_state_block := p + 6, x_off_req_xfer := p + 7, x_contexts := [p + 8..<p + 8 + n],
      x_off_req_state := replicate n f, x_comps := p + 8 + n\<rparr>"
    "\<lambda>p. [p + 1, p + 2, p + 3, p + 4, p + 5]" "\<lambda>p. [p + 8..<p + 8 + n] @ [p + 7, p + 6, p]" "\<lambda>p. p + 8 + n" for hw n f
proof
  fix idx p and as :: "offload_args list" and w :: world
  show "free_homogoenous_request_executor_args_breakdown ((uninit_executor_args hw p)\<lparr>x_total_requests := int n, x_idx := int idx,
      x_ts0 := p + 1, x_ts1 := p + 2, x_ts2 := p + 3, x_ts3 := p + 4, x_ts4 := p + 5,
      x_off_req_state_block := p + 6, x_off_req_xfer := p + 7, x_contexts := [p + 8..<p + 8 + n],
      x_off_req_state := replicate n f, x_comps := p + 8 + n, x_off_args := as\<rparr>) w =
    teardown [p + 1, p + 2, p + 3, p + 4, p + 5] (p + 8 + n) Some ([p + 8..<p + 8 + n] @ [p + 7, p + 6, p]) w"
    using free_contexts_frees [of "p + 8" n]
    by (simp add: free_homogoenous_request_executor_args_breakdown_def teardown_def frees_append frees_steps uninit_executor_args_def Let_def
        del: upt_Suc)
qed (auto simp: alloc_homogenous_request_executor_args_breakdown_def malloc_first malloc_put put_put create_contexts_put malloc_words_def
      allocate_crs_def put_blocks_updates uninit_executor_args_def Let_def eval_nat_numeral upt_conv_Cons simp del: upt_Suc)

section \<open>Iteration\<close>

lemma leaves_refl: "fresh w \<Longrightarrow> leaves (requests_completed w) [] 0 w w"
  by (simp add: leaves_def card_eq_0_iff) auto

lemma leaves_trans:
  assumes "fresh w" and "leaves c subs k w w1" and "leaves c subs' k' w1 w2"
  shows "leaves c (subs @ subs') (k + k') w w2"
  using assms new_blocks_trans [OF assms(1), of w1 w2] unfolding leaves_def by auto

lemma leaves_kinds: "fresh w \<Longrightarrow> leaves c subs k w w1 \<Longrightarrow> kinds w p = Some t \<Longrightarrow> kinds w1 p = Some t"
  by (metis fresh_kinds leaves_def not_le option.distinct(1))

lemma repeat_leaves:
  assumes "fresh w" and "requests_completed w = c"
    and "\<And>i v. i < m \<Longrightarrow> fresh v \<Longrightarrow> requests_completed v = c \<Longrightarrow> \<forall>p < nxt w. kinds v p = kinds w p \<Longrightarrow>
      g_indir_arr v = g_indir_arr w \<Longrightarrow>
      \<exists>v'. run i v = Some (Done v' ()) \<and> leaves c subs k v v' \<and> g_indir_arr v' = g_indir_arr v"
  shows "\<exists>w'. repeat_runs run [0..<m] w = Some (Done w' ()) \<and> leaves c (concat (replicate m subs)) (m * k) w w' \<and>
    g_indir_arr w' = g_indir_arr w"
  using assms(3)
proof (induction m)
  case 0
  then show ?case using leaves_refl [OF assms(1)] assms(2) by simp
next
  case (Suc m)
  then obtain w1 where 1: "repeat_runs run [0..<m] w = Some (Done w1 ())" "leaves c (concat (replicate m subs)) (m * k) w w1"
    "g_indir_arr w1 = g_indir_arr w" by (metis less_SucI)
  have "fresh w1" "requests_completed w1 = c" "\<forall>p < nxt w. kinds w1 p = kinds w p" using 1(2) by (simp_all add: leaves_def)
  with Suc.prems 1(3) obtain w2 where 2: "run m w1 = Some (Done w2 ())" "leaves c subs k w1 w2" "g_indir_arr w2 = g_indir_arr w1"
    by blast
  have "repeat_runs run [0..<Suc m] w = Some (Done w2 ())" using 1(1) 2(1) by (simp add: repeat_append)
  moreover have "concat (replicate (Suc m) subs) = concat (replicate m subs) @ subs"
    by (simp add: replicate_append_same [symmetric])
  ultimately show ?case using leaves_trans [OF assms(1) 1(2) 2(2)] 1(3) 2(3) by (simp add: add.commute)
qed

section \<open>Results\<close>

text \<open>The arrays for the results of \<open>iter\<close> calls are \<open>m\<close> blocks in a row.\<close>

locale stats_rig =
  fixes hw :: env and alloc_st :: "executor_stats \<Rightarrow> nat \<Rightarrow> world \<Rightarrow> (executor_stats \<times> world) option"
    and free_st :: "executor_stats \<Rightarrow> world \<Rightarrow> world option"
    and proc_st :: "executor_stats \<Rightarrow> nat \<Rightarrow> world \<Rightarrow> world option"
    and st :: "executor_stats \<Rightarrow> nat \<Rightarrow> ptr \<Rightarrow> executor_stats" and m :: nat
  assumes alloc: "alloc_st s iter w = Some (st s iter (nxt w), put_blocks w (map (fresh_words hw iter) [nxt w..<nxt w + m]))"
    and free: "free_st (st s iter p) w = frees [p..<p + m] w"
    and processed: "0 < iter \<Longrightarrow> iter < 2 ^ 31 \<Longrightarrow> fresh w \<Longrightarrow> \<forall>q \<in> {p..<p + m}. kinds w q = Some (KWords iter) \<Longrightarrow>
      \<exists>w'. proc_st (st s iter p) iter w = Some w' \<and> heap w' = heap w \<and> nxt w \<le> nxt w' \<and>
        requests_completed w' = requests_completed w \<and> submit_order w' = submit_order w \<and> g_indir_arr w' = g_indir_arr w"
begin

lemma run:
  assumes w: "fresh w" and iter: "0 < iter" "iter < 2 ^ 31" and c: "c = requests_completed w"
    and step: "\<And>i v. i < iter \<Longrightarrow> fresh v \<Longrightarrow> requests_completed v = c \<Longrightarrow>
      \<forall>q \<in> {nxt w + 5..<nxt w + 5 + m}. kinds v q = Some (KWords iter) \<Longrightarrow> \<forall>p < nxt w. kinds v p = kinds w p \<Longrightarrow>
      g_indir_arr v = g_indir_arr w \<Longrightarrow>
      \<exists>v'. three_phase_offload_timed_breakdown alloc_x free_x A Fr gen exec n s ax post
          (st (uninit_stats hw (nxt w + 4)) iter (nxt w + 5)) i v = Some (Done v' ()) \<and> leaves c subs k v v' \<and>
        g_indir_arr v' = g_indir_arr v"
  shows "\<exists>w'. run_three_phase_offload_timed hw alloc_x free_x alloc_st free_st proc_st A Fr gen exec iter n s ax post w =
      Some (Done w' ()) \<and> leaves c (concat (replicate iter subs)) (5 + iter * k) w w' \<and> g_indir_arr w' = g_indir_arr w"
proof -
  let ?w = "nxt w" and ?st = "st (uninit_stats hw (nxt w + 4)) iter (nxt w + 5)" and ?fw = "fresh_words hw iter"
  let ?bs = "[?fw ?w, ?fw (?w + 1), ?fw (?w + 2), ?fw (?w + 3), Opaque]" and ?cs = "map ?fw [?w + 5..<?w + 5 + m]"
  define w1 where "w1 = put_blocks w (?bs @ ?cs)"
  let ?run = "\<lambda>i. three_phase_offload_timed_breakdown alloc_x free_x A Fr gen exec n s ax post ?st i"
  let ?S = "{?w + 5..<?w + 5 + m}"
  have k1: "kinds w1 q = Some (KWords iter)" if "q \<in> ?S" for q
  proof -
    obtain j where j: "q = ?w + 5 + j" "j < m" using \<open>q \<in> ?S\<close> by (metis atLeastLessThan_iff le_Suc_ex nat_add_left_cancel_less)
    then show ?thesis using kinds_put [of "5 + j" "?bs @ ?cs" w] by (simp add: w1_def nth_append add.assoc)
  qed
  have f1: "fresh w1" using w by (simp add: w1_def fresh_def put_blocks_def)
  have n1: "nxt w1 = ?w + 5 + m" by (simp add: w1_def)
  have old1: "kinds w1 p = kinds w p" if "p < ?w" for p using that by (simp add: w1_def kinds_def put_blocks_def)
  have g1: "g_indir_arr w1 = g_indir_arr w" by (simp add: w1_def)
  have "\<exists>v'. ?run i v = Some (Done v' ()) \<and> leaves c subs k v v' \<and> g_indir_arr v' = g_indir_arr v"
    if "i < iter" "fresh v" "requests_completed v = c" "\<forall>p < nxt w1. kinds v p = kinds w1 p" "g_indir_arr v = g_indir_arr w1" for i v
    by (rule step [OF that(1-3)]) (use that(4,5) k1 old1 n1 g1 in auto)
  note step1 = this
  have c1: "requests_completed w1 = c" by (simp add: w1_def c)
  have "\<exists>w2. repeat_runs ?run [0..<iter] w1 = Some (Done w2 ()) \<and> leaves c (concat (replicate iter subs)) (iter * k) w1 w2 \<and>
      g_indir_arr w2 = g_indir_arr w1"
    by (rule repeat_leaves [OF f1 c1 step1])
  then obtain w2 where
    2: "repeat_runs ?run [0..<iter] w1 = Some (Done w2 ())" "leaves c (concat (replicate iter subs)) (iter * k) w1 w2"
    "g_indir_arr w2 = g_indir_arr w1"
    by blast
  have f2: "fresh w2" using 2(2) by (simp add: leaves_def)
  have k2: "\<forall>q \<in> ?S. kinds w2 q = Some (KWords iter)" using leaves_kinds [OF f1 2(2) k1] by blast
  from processed [OF iter f2 k2] obtain w3 where
    3: "proc_st ?st iter w2 = Some w3" "heap w3 = heap w2" "nxt w2 \<le> nxt w3" "requests_completed w3 = c" "submit_order w3 = submit_order w2"
    "g_indir_arr w3 = g_indir_arr w2"
    using 2(2) by (auto simp: leaves_def)
  have k3: "kinds w3 = kinds w2" using 3(2) by (simp add: kinds_def fun_eq_iff)
  let ?w4 = "without ?S w3"
  have "releases (kinds w3) ?S (frees [?w + 5..<?w + 5 + m])"
    using releases_frees [of "[?w + 5..<?w + 5 + m]" "kinds w3"] k2 k3 by auto
  then have 4: "free_st ?st w3 = Some ?w4" by (simp add: releases_def free)
  have "run_three_phase_offload_timed hw alloc_x free_x alloc_st free_st proc_st A Fr gen exec iter n s ax post w = Some (Done ?w4 ())"
    using alloc [of "uninit_stats hw (nxt w + 4)" iter "put_blocks w ?bs"] 2(1) 3(1) 4
    by (simp add: run_three_phase_offload_timed_def malloc_words_def malloc_first malloc_put put_put after_run_def w1_def
        eval_nat_numeral del: upt_Suc)
  moreover have "leaves c (concat (replicate iter subs)) (5 + iter * k) w ?w4"
  proof -
    have n2: "nxt w1 \<le> nxt w2" "\<forall>p < nxt w1. kinds w2 p = kinds w1 p" using 2(2) by (simp_all add: leaves_def)
    have "{p. heap w p = None \<and> heap ?w4 p \<noteq> None} = {?w..<?w + 5} \<union> {p. heap w1 p = None \<and> heap w2 p \<noteq> None}"
    proof (intro equalityI subsetI)
      fix p assume "p \<in> {p. heap w p = None \<and> heap ?w4 p \<noteq> None}"
      then have p: "heap w p = None" "heap w2 p \<noteq> None" "p \<notin> ?S" using 3(2) by (auto simp: heap_without split: if_splits)
      show "p \<in> {?w..<?w + 5} \<union> {p. heap w1 p = None \<and> heap w2 p \<noteq> None}"
      proof (cases "p < nxt w1")
        case True
        then have "heap w1 p \<noteq> None" using p(2) n2(2) by (metis kinds_def option.map_disc_iff)
        then have "?w \<le> p" using p(1) by (auto simp: w1_def put_blocks_def split: if_splits)
        with True p(3) n1 show ?thesis by auto
      next
        case False
        then show ?thesis using f1 p(2) by (simp add: fresh_def)
      qed
    next
      fix p assume "p \<in> {?w..<?w + 5} \<union> {p. heap w1 p = None \<and> heap w2 p \<noteq> None}"
      then show "p \<in> {p. heap w p = None \<and> heap ?w4 p \<noteq> None}"
      proof
        assume p: "p \<in> {?w..<?w + 5}"
        then have "heap w1 p \<noteq> None" by (simp add: w1_def put_blocks_def)
        then have "heap w2 p \<noteq> None" using p n1 n2(2) by (metis atLeastLessThan_iff kinds_def option.map_disc_iff trans_less_add1)
        with p w show ?thesis by (simp add: heap_without 3(2) fresh_def)
      next
        assume p: "p \<in> {p. heap w1 p = None \<and> heap w2 p \<noteq> None}"
        then have "nxt w1 \<le> p" using n2(2) by (metis (mono_tags) kinds_def mem_Collect_eq not_le option.map_disc_iff)
        with p w n1 show ?thesis by (simp add: heap_without 3(2) fresh_def)
      qed
    qed
    moreover have "{?w..<?w + 5} \<inter> {p. heap w1 p = None \<and> heap w2 p \<noteq> None} = {}" by (auto simp: w1_def put_blocks_def)
    moreover have "finite {p. heap w1 p = None \<and> heap w2 p \<noteq> None}"
      by (rule finite_subset [of _ "{..<nxt w2}"]) (use f2 in \<open>auto simp: fresh_def not_less [symmetric]\<close>)
    ultimately have "card {p. heap w p = None \<and> heap ?w4 p \<noteq> None} = 5 + iter * k"
      using 2(2) by (simp add: card_Un_disjoint leaves_def)
    moreover have "kinds ?w4 p = kinds w p" if "p < ?w" for p
      using that n1 n2(2) old1 k3 by (simp add: kinds_without)
    moreover have "fresh ?w4" using f2 3(2,3) by (simp add: fresh_def heap_without)
    moreover have "obs w1 = obs w" by (simp add: w1_def)
    ultimately show ?thesis using 2(2) 3(3-5) n1 by (simp add: leaves_def)
  qed
  moreover have "g_indir_arr ?w4 = g_indir_arr w" using 2(3) 3(6) g1 by simp
  ultimately show ?thesis by blast
qed

end

interpretation breakdown_stats: stats_rig hw "alloc_breakdown_stats hw" free_breakdown_stats "print_three_phase_breakdown_stats csqrt"
    "\<lambda>st iter p. st\<lparr>stats_iter := iter, pre_proc_times := p, offload_tax_times := p + 1, ax_func_times := p + 2, post_proc_times := p + 3\<rparr>"
    4 for hw and csqrt :: "u64 \<Rightarrow> 'd"
proof
  fix iter p and s :: executor_stats and w :: world assume i: "0 < iter" "iter < 2 ^ 31" and k: "\<forall>q \<in> {p..<p + 4}. kinds w q = Some (KWords iter)"
  have "kinds w p = Some (KWords iter)" "kinds w (p + 1) = Some (KWords iter)" "kinds w (p + 2) = Some (KWords iter)"
    "kinds w (p + 3) = Some (KWords iter)" using k by auto
  note pr = this [THEN stats_ok(2) [where csqrt = csqrt, OF i]]
  show "\<exists>w'. print_three_phase_breakdown_stats csqrt (s\<lparr>stats_iter := iter, pre_proc_times := p, offload_tax_times := p + 1,
      ax_func_times := p + 2, post_proc_times := p + 3\<rparr>) iter w = Some w' \<and> heap w' = heap w \<and> nxt w \<le> nxt w' \<and>
      requests_completed w' = requests_completed w \<and> submit_order w' = submit_order w \<and> g_indir_arr w' = g_indir_arr w"
    using pr by (simp add: print_three_phase_breakdown_stats_def)
qed (auto simp: alloc_breakdown_stats_def free_breakdown_stats_def malloc_words_def malloc_first malloc_put put_put
    eval_nat_numeral upt_conv_Cons simp del: upt_Suc)

text \<open>The differences of the start and end times are written into an array on the stack.\<close>

lemma exe_times_filled:
  assumes "kinds w (exe_time_end st) = Some (KWords iter)" and "kinds w (exe_time_start st) = Some (KWords iter)"
    and "kinds w p = Some (KWords iter)"
  shows "\<exists>w'. foldM (\<lambda>i w. do {
             stops \<leftarrow> get_words (exe_time_end st) w;
             stop \<leftarrow> arr_get stops (int i);
             starts \<leftarrow> get_words (exe_time_start st) w;
             start \<leftarrow> arr_get starts (int i);
             write_word p (int i) (stop - start) w
           }) [0..<iter] w = Some w' \<and> later undefined w w' \<and> (\<forall>q. q \<noteq> p \<longrightarrow> heap w' q = heap w q)"
proof (rule foldM_upt_rule)
  fix i v assume i: "i < iter" and "later undefined w v \<and> (\<forall>q. q \<noteq> p \<longrightarrow> heap v q = heap w q)"
  then have v: "later undefined w v" "\<forall>q. q \<noteq> p \<longrightarrow> heap v q = heap w q" by simp_all
  have k: "kinds v = kinds w" by (rule later_kinds [OF v(1)])
  obtain xs ys where x: "get_words (exe_time_end st) v = Some xs" "length xs = iter" "get_words (exe_time_start st) v = Some ys"
    "length ys = iter" using assms(1,2) [folded k] by (auto simp: kinds_words)
  from write_word_ok [OF assms(3) [folded k] i, of "xs ! i - ys ! i" undefined] obtain v' where
    v': "write_word p (int i) (xs ! i - ys ! i) v = Some v'" "later undefined v v'" by blast
  have "heap v' q = heap v q" if "q \<noteq> p" for q
    using v'(1) that by (auto simp: write_word_def split: bind_splits)
  with v v' x i later_trans [OF v(1) v'(2)] show "\<exists>s'. do {
             stops \<leftarrow> get_words (exe_time_end st) v;
             stop \<leftarrow> arr_get stops (int i);
             starts \<leftarrow> get_words (exe_time_start st) v;
             start \<leftarrow> arr_get starts (int i);
             write_word p (int i) (stop - start) v
           } = Some s' \<and> later undefined w s' \<and> (\<forall>q. q \<noteq> p \<longrightarrow> heap s' q = heap w q)"
    by (simp add: arr_get_nat)
qed simp_all

interpretation throughput_stats: stats_rig hw "alloc_throughput_stats hw" free_throughput_stats "print_throughput_stats csqrt hw"
    "\<lambda>st iter p. st\<lparr>exe_time_start := p, exe_time_end := p + 1, stats_iter := iter\<rparr>"
    2 for hw and csqrt :: "u64 \<Rightarrow> 'd"
proof
  fix iter p and s :: executor_stats and w :: world assume i: "0 < iter" "iter < 2 ^ 31" and f: "fresh w"
    and "\<forall>q \<in> {p..<p + 2}. kinds w q = Some (KWords iter)"
  then have k: "kinds w p = Some (KWords iter)" "kinds w (p + 1) = Some (KWords iter)" by auto
  let ?st = "s\<lparr>exe_time_start := p, exe_time_end := p + 1, stats_iter := iter\<rparr>"
  let ?q = "nxt w"
  define w1 where "w1 = put_blocks w [fresh_words hw iter ?q]"
  have s: "stack_array hw iter w = Some (?q, w1)" using i(1) by (simp add: stack_array_def malloc_words_def malloc_first w1_def)
  have q: "kinds w1 ?q = Some (KWords iter)" using kinds_put [of 0 "[fresh_words hw iter ?q]" w] by (simp add: w1_def)
  have lt: "p < ?q" "p + 1 < ?q" using f k by (auto simp: fresh_kinds not_less [symmetric])
  then have k1: "kinds w1 (exe_time_end ?st) = Some (KWords iter)" "kinds w1 (exe_time_start ?st) = Some (KWords iter)"
    using k by (simp_all add: w1_def kinds_def put_blocks_def)
  from exe_times_filled [OF k1 q] obtain w2 where
    2: "foldM (\<lambda>i w. do {
             stops \<leftarrow> get_words (exe_time_end ?st) w;
             stop \<leftarrow> arr_get stops (int i);
             starts \<leftarrow> get_words (exe_time_start ?st) w;
             start \<leftarrow> arr_get starts (int i);
             write_word ?q (int i) (stop - start) w
           }) [0..<iter] w1 = Some w2" "later undefined w1 w2" "\<forall>r. r \<noteq> ?q \<longrightarrow> heap w2 r = heap w1 r" by blast
  have q2: "kinds w2 ?q = Some (KWords iter)" using later_kinds [OF 2(2)] q by simp
  have "mfree ?q w2 = Some (without {?q} w2)"
    using releases_mfree [of ?q "kinds w2"] f q2 by (simp add: releases_def fresh_def)
  then have "print_throughput_stats csqrt hw ?st iter w = Some (without {?q} w2)"
    using s 2(1) stats_ok(1) [where csqrt = csqrt, OF i q2] by (simp add: print_throughput_stats_def)
  moreover have "heap (without {?q} w2) = heap w"
    using 2(3) f by (auto simp: heap_without fun_eq_iff w1_def put_blocks_def fresh_def)
  moreover have "nxt w2 = Suc ?q" using later_shape [OF 2(2)] by (simp add: shape_eq_iff w1_def)
  ultimately show "\<exists>w'. print_throughput_stats csqrt hw ?st iter w = Some w' \<and> heap w' = heap w \<and> nxt w \<le> nxt w' \<and>
      requests_completed w' = requests_completed w \<and> submit_order w' = submit_order w \<and> g_indir_arr w' = g_indir_arr w"
    using later_requests_completed [OF 2(2)] later_submit_order [OF 2(2)] later_shape [OF 2(2)] by (simp add: w1_def shape_eq_iff)
qed (auto simp: alloc_throughput_stats_def free_throughput_stats_def malloc_words_def malloc_first malloc_put put_put
    eval_nat_numeral upt_conv_Cons frees_steps simp del: upt_Suc)

end
