(* ===== verification/Composable_Runs.thy ===== *)
theory Composable_Runs
  imports Three_Phase_Harness
begin

text \<open>
  Whole runs of \<open>three_phase_composable.cpp\<close>.  The locale \<open>composed_app\<close> is what a run needs of an
  application: an allocator, a deallocator and buffers that suit the request functions; it is
  interpreted on the applications of the program.
\<close>

section \<open>An application\<close>

lemma breakdown_stamps: "breakdown_rig.stamps_at n f hw idx p = (p + 1, p + 2, p + 3, p + 4, p + 5)"
  unfolding breakdown_rig.stamps_at_def by (simp add: Let_def)

text \<open>A struct that a request function of the application can run on, in a heap of shape \<open>K\<close>;
  \<open>ground\<close> is about the blocks that were there before the run.\<close>

definition suited ::
  "(shape \<Rightarrow> bool) \<Rightarrow> (offload_args \<Rightarrow> (ptr \<times> (kind \<Rightarrow> bool)) list) \<Rightarrow> (offload_args \<Rightarrow> bool) \<Rightarrow> nat \<Rightarrow> shape \<Rightarrow> nat \<Rightarrow> offload_args \<Rightarrow> bool" where
  "suited ground needs R n K i a \<longleftrightarrow> ground K \<and> slot_args n i a \<and> R a \<and> (\<forall>(p, Q) \<in> set (needs a). \<exists>k. blocks K p = Some k \<and> Q k)"

definition grounded :: "(shape \<Rightarrow> bool) \<Rightarrow> world \<Rightarrow> bool" where
  "grounded ground w \<longleftrightarrow> fresh w \<and> (\<forall>K. (\<forall>p < nxt w. blocks K p = kinds w p) \<longrightarrow> indir_at K = g_indir_arr w \<longrightarrow> ground K)"

lemma grounded_later:
  "grounded ground w \<Longrightarrow> fresh v \<Longrightarrow> nxt w \<le> nxt v \<Longrightarrow> \<forall>p < nxt w. kinds v p = kinds w p \<Longrightarrow> g_indir_arr v = g_indir_arr w \<Longrightarrow>
    grounded ground v"
  by (auto simp: grounded_def)

lemma grounded_leaves:
  "grounded ground w \<Longrightarrow> leaves c subs k w v \<Longrightarrow> g_indir_arr v = g_indir_arr w \<Longrightarrow> grounded ground v"
  by (rule grounded_later) (simp_all add: leaves_def)

text \<open>What a run does: it ends, whatever the device reports, counts nothing, submits \<open>subs\<close>, and loses
  \<open>k\<close> blocks.\<close>

definition ends_run :: "nat list \<Rightarrow> nat \<Rightarrow> (world \<Rightarrow> unit outcome option) \<Rightarrow> world \<Rightarrow> bool" where
  "ends_run subs k run w \<longleftrightarrow> (\<exists>w'. run w = Some (Done w' ()) \<and> leaves (requests_completed w) subs k w w' \<and>
    g_indir_arr w' = g_indir_arr w)"

text \<open>Runs one after the other.\<close>

lemma in_sequence_ends:
  assumes "list_all2 (\<lambda>r subs. \<forall>v. grounded ground v \<longrightarrow> ends_run subs k r v) rs subss" and "grounded ground w"
  shows "ends_run (concat subss) (length rs * k) (in_sequence rs) w"
  using assms
proof (induction arbitrary: w rule: list_all2_induct)
  case Nil
  then show ?case using leaves_refl [of w] by (simp add: ends_run_def grounded_def)
next
  case (Cons r rs subs subss)
  obtain w1 where 1: "r w = Some (Done w1 ())" "leaves (requests_completed w) subs k w w1" "g_indir_arr w1 = g_indir_arr w"
    using Cons by (auto simp: ends_run_def)
  have c: "requests_completed w1 = requests_completed w" using 1(2) by (simp add: leaves_def)
  obtain w2 where 2: "in_sequence rs w1 = Some (Done w2 ())" "leaves (requests_completed w) (concat subss) (length rs * k) w1 w2"
    "g_indir_arr w2 = g_indir_arr w1"
    using Cons.IH [OF grounded_leaves [OF Cons.prems 1(2,3)]] c by (auto simp: ends_run_def)
  have f: "fresh w" using Cons.prems by (simp add: grounded_def)
  from leaves_trans [OF f 1(2) 2(2)] 1(1,3) 2(1,3) show ?case by (auto simp: ends_run_def)
qed

text \<open>The operations of a run whose requests submit \<open>m\<close> each, and of all runs of the program.\<close>

definition per_request :: "main_options \<Rightarrow> nat \<Rightarrow> nat list" where
  "per_request opts m = concat (replicate (o_itr opts) (concat (map (replicate m) [0..<o_total_requests opts])))"

lemma per_request_0: "per_request opts 0 = []"
  by (simp add: per_request_def)

lemma per_request_1: "concat (replicate (o_itr opts) [0..<o_total_requests opts]) = per_request opts 1"
proof -
  have "concat (map (replicate 1) xs) = xs" for xs :: "nat list" by (induction xs) simp_all
  then show ?thesis by (simp add: per_request_def)
qed

definition runs_submit :: "main_options \<Rightarrow> app \<Rightarrow> nat \<Rightarrow> nat list list" where
  "runs_submit opts A m = (if do_gpcore A then [[], []] else []) @ [per_request opts m] @
    (if do_thrpt A then [per_request opts m] else []) @
    (if do_yielding A then [per_request opts 1] @ (if do_thrpt A then [per_request opts 1] else []) else [])"

locale composed_app =
  fixes ready :: bool and hw :: env and opts :: main_options and A :: app and ground :: "shape \<Rightarrow> bool"
    and arg :: "stamps5 \<Rightarrow> nat \<Rightarrow> world \<Rightarrow> (offload_args \<times> world) option"
    and needs :: "offload_args \<Rightarrow> (ptr \<times> (kind \<Rightarrow> bool)) list" and freed :: "offload_args \<Rightarrow> ptr list"
    and R :: "offload_args \<Rightarrow> bool" and lost :: nat
  assumes env: "ready \<Longrightarrow> env_ok hw"
    and count: "ready \<Longrightarrow> 0 < o_total_requests opts" "ready \<Longrightarrow> o_total_requests opts < 2 ^ 31"
      "ready \<Longrightarrow> 0 < o_itr opts" "ready \<Longrightarrow> o_itr opts < 2 ^ 31"
    and structs: "ready \<Longrightarrow> \<exists>a bs. arg ts i w = Some (a, put_blocks w bs) \<and> laid_out needs freed R ts lost i (nxt w) a bs"
    and allocator: "allocator_fn A (o_total_requests opts) (o_payload_size opts) (o_payload_size opts) (final_output_size A)
        (input_gen A) ts = alloc_array (arg ts) (o_total_requests opts)"
    and deallocator: "stamped_offload_args_free_fn A (o_total_requests opts) =
        free_array (\<lambda>a. frees (freed a)) (o_total_requests opts)"
begin

abbreviation "n \<equiv> o_total_requests opts"
abbreviation "iter \<equiv> o_itr opts"
abbreviation "s \<equiv> o_payload_size opts"

definition "leaked = 5 + iter * (n * lost)"

lemma client:
  assumes ready
  shows "offload_supply (allocator_fn A n s s (final_output_size A) (input_gen A) ts) (stamped_offload_args_free_fn A n)
    (\<lambda>v. g_indir_arr v = q) True (n * lost) (\<lambda>K args. phase_structs needs R ts n K args \<and> indir_at K = q)"
  unfolding allocator deallocator by (rule phase_supply [OF structs [OF assms]])

lemma structs_suited:
  assumes "grounded ground w" and "phase_structs needs R ts n K args \<and> indir_at K = g_indir_arr w"
    and "\<forall>p < nxt w. blocks K p = kinds w p"
  shows "length args = n" "i < n \<Longrightarrow> suited ground needs R n K i (args ! i)" "i < n \<Longrightarrow> stamps_of (args ! i) = ts"
  using assms by (auto simp: phase_structs_def suited_def grounded_def)

text \<open>One call of the harness with each of the four executors; \<open>exec\<close> is a run of its loop.\<close>

lemma breakdown_harness:
  assumes ready and w: "grounded ground w" and idx: "idx < m" and st: "\<forall>p \<in> {pre_proc_times st, offload_tax_times st, ax_func_times st, post_proc_times st}. kinds w p = Some (KWords m)"
    and exec: "\<And>K args x c v. length args = n \<Longrightarrow> (\<And>i. i < n \<Longrightarrow> suited ground needs R n K i (args ! i)) \<Longrightarrow>
      (\<And>i. i < n \<Longrightarrow> five_stamps K n (args ! i)) \<Longrightarrow> ready_world K n c v \<Longrightarrow> executor_for n (replicate n f) args idx x \<Longrightarrow>
      breakdown_arrays K st idx \<Longrightarrow> \<exists>v'. ex x st v = Some (Done v' ()) \<and> ran K n c subs v v'"
  shows "ends_run subs (n * lost) (three_phase_offload_timed_breakdown
      (\<lambda>idx n. alloc_homogenous_request_executor_args_breakdown hw idx n f) free_homogoenous_request_executor_args_breakdown
      (allocator_fn A) (stamped_offload_args_free_fn A) (input_gen A) ex n s s (final_output_size A) st idx) w"
proof -
  let ?p = "Suc (nxt w)"
  let ?bs = "Opaque # map (fresh_words hw n) [?p + 1..<?p + 6] @ [Opaque, Opaque] @ replicate n Opaque @ [Opaque]"
  have fw: "fresh w" using w by (simp add: grounded_def)
  have "\<exists>v'. ex ((uninit_executor_args hw ?p)\<lparr>x_total_requests := int n, x_idx := int idx,
      x_ts0 := ?p + 1, x_ts1 := ?p + 2, x_ts2 := ?p + 3, x_ts3 := ?p + 4, x_ts4 := ?p + 5,
      x_off_req_state_block := ?p + 6, x_off_req_xfer := ?p + 7, x_contexts := [?p + 8..<?p + 8 + n],
      x_off_req_state := replicate n f, x_comps := ?p + 8 + n, x_off_args := args\<rparr>) st v = Some (Done v' ()) \<and>
      ran K n (requests_completed w) subs v v'"
    if a: "phase_structs needs R (breakdown_rig.stamps_at n f hw idx ?p) n K args \<and> indir_at K = g_indir_arr w"
      and k: "\<forall>j < length ?bs. blocks K (?p + j) = Some (kind_of (?bs ! j))" and old: "\<forall>p < nxt w. blocks K p = kinds w p"
      and r: "ready_world K n (requests_completed w) v" for K args v
  proof (rule exec [OF structs_suited(1) [OF w a old] structs_suited(2) [OF w a old] _ r])
    have w5: "blocks K (?p + j) = Some (KWords n)" if "1 \<le> j" "j < 6" for j
    proof -
      have "?bs ! j = fresh_words hw n (?p + j)" using that by (cases j) (simp_all add: nth_append nth_upt del: upt_Suc)
      with k that show ?thesis by simp
    qed
    show "five_stamps K n (args ! i)" if "i < n" for i
      using structs_suited(3) [OF w a old that, unfolded breakdown_stamps stamps_of_def] w5 [of 1] w5 [of 2] w5 [of 3] w5 [of 4] w5 [of 5]
      by (simp add: five_stamps_def)
    have lt: "p < nxt w" if "kinds w p = Some t" for p t using fw that by (metis fresh_kinds not_le option.distinct(1))
    show "breakdown_arrays K st idx" using st idx old lt unfolding breakdown_arrays_def by fastforce
  qed (simp_all add: executor_for_def)
  note ex = this
  show ?thesis unfolding ends_run_def
    by (rule breakdown_rig.harness [OF client [OF assms(1), where q = "g_indir_arr w"]]) (rule fw refl | erule (3) ex | simp only: conj_absorb)+
qed

lemma throughput_harness:
  assumes ready and w: "grounded ground w" and idx: "idx < m" and st: "\<forall>p \<in> {exe_time_start st, exe_time_end st}. kinds w p = Some (KWords m)"
    and exec: "\<And>K args x c v. length args = n \<Longrightarrow> (\<And>i. i < n \<Longrightarrow> suited ground needs R n K i (args ! i)) \<Longrightarrow>
      ready_world K n c v \<Longrightarrow> executor_for n (replicate n f) args idx x \<Longrightarrow>
      throughput_arrays K st idx \<Longrightarrow> \<exists>v'. ex x st v = Some (Done v' ()) \<and> ran K n c subs v v'"
  shows "ends_run subs (n * lost) (three_phase_offload_timed_breakdown
      (\<lambda>idx n. alloc_homogenous_request_executor_args_throughput hw idx n f) free_homogoenous_request_executor_args_throughput
      (allocator_fn A) (stamped_offload_args_free_fn A) (input_gen A) ex n s s (final_output_size A) st idx) w"
proof -
  let ?p = "Suc (nxt w)"
  let ?ts = "throughput_rig.stamps_at n f hw idx ?p"
  have fw: "fresh w" using w by (simp add: grounded_def)
  have "\<exists>v'. ex ((uninit_executor_args hw ?p)\<lparr>x_total_requests := int n, x_idx := int idx,
      x_off_req_state_block := ?p + 1, x_off_req_xfer := ?p + 2, x_contexts := [?p + 3..<?p + 3 + n],
      x_off_req_state := replicate n f, x_comps := ?p + 3 + n, x_off_args := args\<rparr>) st v = Some (Done v' ()) \<and>
      ran K n (requests_completed w) subs v v'"
    if a: "phase_structs needs R ?ts n K args \<and> indir_at K = g_indir_arr w"
      and old: "\<forall>p < nxt w. blocks K p = kinds w p" and r: "ready_world K n (requests_completed w) v" for K args v
  proof (rule exec [OF structs_suited(1) [OF w a old] structs_suited(2) [OF w a old] r])
    have lt: "p < nxt w" if "kinds w p = Some t" for p t using fw that by (metis fresh_kinds not_le option.distinct(1))
    show "throughput_arrays K st idx" using st idx old lt unfolding throughput_arrays_def by fastforce
  qed (simp_all add: executor_for_def)
  note ex = this
  show ?thesis unfolding ends_run_def
    by (rule throughput_rig.harness [OF client [OF assms(1), where q = "g_indir_arr w"]]) (rule fw refl | erule ex, assumption+ | simp only: conj_absorb)+
qed

text \<open>The runs: \<open>iter\<close> calls, with the results of each in its slot.\<close>

lemma breakdown:
  assumes ready and w: "grounded ground w"
    and exec: "\<And>K args st idx x c v. length args = n \<Longrightarrow> (\<And>i. i < n \<Longrightarrow> suited ground needs R n K i (args ! i)) \<Longrightarrow>
      (\<And>i. i < n \<Longrightarrow> five_stamps K n (args ! i)) \<Longrightarrow> ready_world K n c v \<Longrightarrow> executor_for n (replicate n f) args idx x \<Longrightarrow>
      breakdown_arrays K st idx \<Longrightarrow> \<exists>v'. ex x st v = Some (Done v' ()) \<and> ran K n c subs v v'"
  shows "ends_run (concat (replicate iter subs)) leaked (breakdown_run csqrt hw opts A f ex) w"
  unfolding ends_run_def leaked_def breakdown_run_def
proof (rule breakdown_stats.run [OF _ count(3,4) [OF assms(1)] refl])
  show "fresh w" using w by (simp add: grounded_def)
  fix i v assume i: "i < iter" and v: "fresh v" "requests_completed v = requests_completed w" "\<forall>p < nxt w. kinds v p = kinds w p"
    "g_indir_arr v = g_indir_arr w" and k: "\<forall>q \<in> {nxt w + 5..<nxt w + 5 + 4}. kinds v q = Some (KWords iter)"
  let ?st = "(uninit_stats hw (nxt w + 4))\<lparr>stats_iter := iter, pre_proc_times := nxt w + 5, offload_tax_times := nxt w + 5 + 1,
      ax_func_times := nxt w + 5 + 2, post_proc_times := nxt w + 5 + 3\<rparr>"
  have "nxt w + 5 < nxt v" using k v(1) by (metis atLeastLessThan_iff fresh_kinds le_refl less_add_same_cancel1 not_le option.distinct(1) zero_less_numeral)
  then have g: "grounded ground v" by (intro grounded_later [OF w v(1) _ v(3,4)]) simp
  have "ends_run subs (n * lost) (three_phase_offload_timed_breakdown
      (\<lambda>idx n. alloc_homogenous_request_executor_args_breakdown hw idx n f) free_homogoenous_request_executor_args_breakdown
      (allocator_fn A) (stamped_offload_args_free_fn A) (input_gen A) ex n s s (final_output_size A) ?st i) v"
    by (rule breakdown_harness [OF assms(1) g i _ exec]) (use k in auto)
  then show "\<exists>v'. three_phase_offload_timed_breakdown
      (\<lambda>idx n. alloc_homogenous_request_executor_args_breakdown hw idx n f) free_homogoenous_request_executor_args_breakdown
      (allocator_fn A) (stamped_offload_args_free_fn A) (input_gen A) ex n s s (final_output_size A) ?st i v = Some (Done v' ()) \<and>
      leaves (requests_completed w) subs (n * lost) v v' \<and> g_indir_arr v' = g_indir_arr v"
    using v(2) by (simp add: ends_run_def)
qed

lemma throughput:
  assumes ready and w: "grounded ground w"
    and exec: "\<And>K args st idx x c v. length args = n \<Longrightarrow> (\<And>i. i < n \<Longrightarrow> suited ground needs R n K i (args ! i)) \<Longrightarrow>
      ready_world K n c v \<Longrightarrow> executor_for n (replicate n f) args idx x \<Longrightarrow>
      throughput_arrays K st idx \<Longrightarrow> \<exists>v'. ex x st v = Some (Done v' ()) \<and> ran K n c subs v v'"
  shows "ends_run (concat (replicate iter subs)) leaked (throughput_run csqrt hw opts A f ex) w"
  unfolding ends_run_def leaked_def throughput_run_def
proof (rule throughput_stats.run [OF _ count(3,4) [OF assms(1)] refl])
  show "fresh w" using w by (simp add: grounded_def)
  fix i v assume i: "i < iter" and v: "fresh v" "requests_completed v = requests_completed w" "\<forall>p < nxt w. kinds v p = kinds w p"
    "g_indir_arr v = g_indir_arr w" and k: "\<forall>q \<in> {nxt w + 5..<nxt w + 5 + 2}. kinds v q = Some (KWords iter)"
  let ?st = "(uninit_stats hw (nxt w + 4))\<lparr>exe_time_start := nxt w + 5, exe_time_end := nxt w + 5 + 1, stats_iter := iter\<rparr>"
  have "nxt w + 5 < nxt v" using k v(1) by (metis atLeastLessThan_iff fresh_kinds le_refl less_add_same_cancel1 not_le option.distinct(1) zero_less_numeral)
  then have g: "grounded ground v" by (intro grounded_later [OF w v(1) _ v(3,4)]) simp
  have "ends_run subs (n * lost) (three_phase_offload_timed_breakdown
      (\<lambda>idx n. alloc_homogenous_request_executor_args_throughput hw idx n f) free_homogoenous_request_executor_args_throughput
      (allocator_fn A) (stamped_offload_args_free_fn A) (input_gen A) ex n s s (final_output_size A) ?st i) v"
    by (rule throughput_harness [OF assms(1) g i _ exec]) (use k in auto)
  then show "\<exists>v'. three_phase_offload_timed_breakdown
      (\<lambda>idx n. alloc_homogenous_request_executor_args_throughput hw idx n f) free_homogoenous_request_executor_args_throughput
      (allocator_fn A) (stamped_offload_args_free_fn A) (input_gen A) ex n s s (final_output_size A) ?st i v = Some (Done v' ()) \<and>
      leaves (requests_completed w) subs (n * lost) v v' \<and> g_indir_arr v' = g_indir_arr v"
    using v(2) by (simp add: ends_run_def)
qed

text \<open>The runs of the program: request functions that serve a struct in one slice, and fibers.\<close>

lemma suited_slices:
  assumes "length args = n" and "\<And>i. i < n \<Longrightarrow> runs m K n i (f (args ! i))"
  shows "uncounted_slices K n (replicate n f) args (\<lambda>i. replicate m i)"
  using runs_contract [OF assms] by (simp add: uncounted_slices_def)

lemma suited_fibers:
  assumes ready and "length args = n" and "\<And>i. i < n \<Longrightarrow> entry_ok 0 hw K n not_pending i (f (args ! i))"
  shows "uncounted_fibers hw K n (replicate n f) args"
  using entry_contract [OF env [OF assms(1)] assms(2,3)] by (simp add: uncounted_fibers_def)

lemma slices_breakdown:
  assumes ready and "grounded ground w" and f: "\<And>K i a. suited ground needs R n K i a \<Longrightarrow> five_stamps K n a \<Longrightarrow> runs m K n i (f a)"
  shows "ends_run (concat (replicate iter (concat (map (replicate m) [0..<n])))) leaked
    (breakdown_run csqrt hw opts A f (execute_three_phase_blocking_requests_closed_system_request_breakdown hw)) w"
proof (rule breakdown [OF assms(1,2)])
  fix K args st idx x c v
  assume a: "length args = n" "\<And>i. i < n \<Longrightarrow> suited ground needs R n K i (args ! i)" "\<And>i. i < n \<Longrightarrow> five_stamps K n (args ! i)"
    "ready_world K n c v" "executor_for n (replicate n f) args idx x" "breakdown_arrays K st idx"
  have "five_stamps K n (hd args)" using a(1,3) count(1) [OF assms(1)] by (metis hd_conv_nth length_greater_0_conv)
  from uncounted_slices.breakdown [OF suited_slices [OF a(1) f [OF a(2,3)]] ready_callable [OF a(4)] a(5) count(1,2) [OF assms(1)] a(1) this a(6)]
  show "\<exists>v'. execute_three_phase_blocking_requests_closed_system_request_breakdown hw x st v = Some (Done v' ()) \<and>
      ran K n c (concat (map (replicate m) [0..<n])) v v'" by auto
qed

lemma slices_throughput:
  assumes ready and "grounded ground w" and f: "\<And>K i a. suited ground needs R n K i a \<Longrightarrow> runs m K n i (f a)"
  shows "ends_run (concat (replicate iter (concat (map (replicate m) [0..<n])))) leaked
    (throughput_run csqrt hw opts A f (execute_three_phase_blocking_requests_closed_system_throughput hw)) w"
proof (rule throughput [OF assms(1,2)])
  fix K args st idx x c v
  assume a: "length args = n" "\<And>i. i < n \<Longrightarrow> suited ground needs R n K i (args ! i)"
    "ready_world K n c v" "executor_for n (replicate n f) args idx x" "throughput_arrays K st idx"
  from uncounted_slices.throughput [OF suited_slices [OF a(1) f [OF a(2)]] ready_callable [OF a(3)] a(4,5)]
  show "\<exists>v'. execute_three_phase_blocking_requests_closed_system_throughput hw x st v = Some (Done v' ()) \<and>
      ran K n c (concat (map (replicate m) [0..<n])) v v'" by auto
qed

lemma fibers_breakdown:
  assumes ready and "grounded ground w"
    and f: "\<And>K i a. suited ground needs R n K i a \<Longrightarrow> five_stamps K n a \<Longrightarrow> entry_ok 0 hw K n not_pending i (f a)"
  shows "ends_run (concat (replicate iter [0..<n])) leaked
    (breakdown_run csqrt hw opts A f (execute_three_phase_yielding_requests_closed_system_request_breakdown hw)) w"
proof (rule breakdown [OF assms(1,2)])
  fix K args st idx x c v
  assume a: "length args = n" "\<And>i. i < n \<Longrightarrow> suited ground needs R n K i (args ! i)" "\<And>i. i < n \<Longrightarrow> five_stamps K n (args ! i)"
    "ready_world K n c v" "executor_for n (replicate n f) args idx x" "breakdown_arrays K st idx"
  have "five_stamps K n (hd args)" using a(1,3) count(1) [OF assms(1)] by (metis hd_conv_nth length_greater_0_conv)
  from uncounted_fibers.breakdown [OF suited_fibers [OF assms(1) a(1) f [OF a(2,3)]] a(4,5) count(1,2) [OF assms(1)] a(1) this a(6)]
  show "\<exists>v'. execute_three_phase_yielding_requests_closed_system_request_breakdown hw x st v = Some (Done v' ()) \<and>
      ran K n c [0..<n] v v'" by auto
qed

lemma fibers_throughput:
  assumes ready and "grounded ground w" and f: "\<And>K i a. suited ground needs R n K i a \<Longrightarrow> entry_ok 0 hw K n not_pending i (f a)"
  shows "ends_run (concat (replicate iter [0..<n])) leaked
    (throughput_run csqrt hw opts A f (execute_yielding_three_phase_request_throughput hw)) w"
proof (rule throughput [OF assms(1,2)])
  fix K args st idx x c v
  assume a: "length args = n" "\<And>i. i < n \<Longrightarrow> suited ground needs R n K i (args ! i)"
    "ready_world K n c v" "executor_for n (replicate n f) args idx x" "throughput_arrays K st idx"
  from uncounted_fibers.throughput [OF suited_fibers [OF assms(1) a(1) f [OF a(2)]] a(3-5)]
  show "\<exists>v'. execute_yielding_three_phase_request_throughput hw x st v = Some (Done v' ()) \<and>
      ran K n c [0..<n] v v'" by auto
qed

lemma all_runs:
  assumes ready and "grounded ground w"
    and core: "\<And>K i a. do_gpcore A \<Longrightarrow> suited ground needs R n K i a \<Longrightarrow> five_stamps K n a \<Longrightarrow> runs 0 K n i (gpcore_breakdown_fn A a)"
      "\<And>K i a. do_gpcore A \<Longrightarrow> suited ground needs R n K i a \<Longrightarrow> runs 0 K n i (gpcore_throughput_fn A a)"
    and blocking: "\<And>K i a. suited ground needs R n K i a \<Longrightarrow> five_stamps K n a \<Longrightarrow> runs m K n i (blocking_breakdown_fn A a)"
      "\<And>K i a. do_thrpt A \<Longrightarrow> suited ground needs R n K i a \<Longrightarrow> runs m K n i (blocking_throughput_fn A a)"
    and yielding: "\<And>K i a. do_yielding A \<Longrightarrow> suited ground needs R n K i a \<Longrightarrow> five_stamps K n a \<Longrightarrow>
        entry_ok 0 hw K n not_pending i (yielding_breakdown_fn A a)"
      "\<And>K i a. do_yielding A \<Longrightarrow> suited ground needs R n K i a \<Longrightarrow> entry_ok 0 hw K n not_pending i (yielding_throughput_fn A a)"
  shows "ends_run (concat (runs_submit opts A m)) (length (runs_submit opts A m) * leaked) (in_sequence (app_runs csqrt hw opts A)) w"
proof -
  let ?E = "\<lambda>r subs. \<forall>v. grounded ground v \<longrightarrow> ends_run subs leaked r v"
  have "?E (breakdown_run csqrt hw opts A (gpcore_breakdown_fn A) (execute_three_phase_blocking_requests_closed_system_request_breakdown hw))
      (per_request opts 0)"
    "?E (throughput_run csqrt hw opts A (gpcore_throughput_fn A) (execute_three_phase_blocking_requests_closed_system_throughput hw))
      (per_request opts 0)" if "do_gpcore A"
    unfolding per_request_def
    by (intro allI impI, (rule slices_breakdown slices_throughput; (rule assms(1) core [OF that])?; assumption))+
  moreover have "?E (breakdown_run csqrt hw opts A (blocking_breakdown_fn A) (execute_three_phase_blocking_requests_closed_system_request_breakdown hw))
      (per_request opts m)"
    unfolding per_request_def by (intro allI impI, rule slices_breakdown; (rule assms(1) blocking(1))?; assumption)
  moreover have "?E (throughput_run csqrt hw opts A (blocking_throughput_fn A) (execute_three_phase_blocking_requests_closed_system_throughput hw))
      (per_request opts m)" if "do_thrpt A"
    unfolding per_request_def by (intro allI impI, rule slices_throughput; (rule assms(1) blocking(2) [OF that])?; assumption)
  moreover have "?E (breakdown_run csqrt hw opts A (yielding_breakdown_fn A) (execute_three_phase_yielding_requests_closed_system_request_breakdown hw))
      (per_request opts 1)"
    "?E (throughput_run csqrt hw opts A (yielding_throughput_fn A) (execute_yielding_three_phase_request_throughput hw)) (per_request opts 1)"
    if "do_yielding A"
    unfolding per_request_1 [symmetric]
    by (intro allI impI, (rule fibers_breakdown fibers_throughput; (rule assms(1) yielding [OF that])?; assumption))+
  ultimately have "list_all2 ?E (app_runs csqrt hw opts A) (runs_submit opts A m)"
    by (simp add: app_runs_def runs_submit_def per_request_0)
  from in_sequence_ends [OF this assms(2)] list_all2_lengthD [OF this] show ?thesis by simp
qed

end

end
