(* ===== verification/Composable_Apps.thy ===== *)
theory Composable_Apps
  imports Composable_Runs
begin

text \<open>
  The applications of \<open>three_phase_composable.cpp\<close> as instances of \<open>composed_app\<close>: the structs that
  their allocators build suit their request functions.
\<close>

section \<open>What the applications need\<close>

definition counts_ok :: "main_options \<Rightarrow> bool" where
  "counts_ok opts \<longleftrightarrow> 0 < o_total_requests opts \<and> o_total_requests opts < 2 ^ 31 \<and> 0 < o_itr opts \<and> o_itr opts < 2 ^ 31"

text \<open>The table of the library fits into the compression state.\<close>

definition aecs_table :: "env \<Rightarrow> bool" where
  "aecs_table hw \<longleftrightarrow> iaa_compress_aecs_size hw \<le> length (iaa_compress_aecs hw) \<and>
    iaa_compress_aecs_size hw \<le> iaa_compress_src2_size hw"

text \<open>The payload of \<open>GP_GP\<close> does not grow when it is compressed.\<close>

definition payload_shrinks :: "env \<Rightarrow> nat \<Rightarrow> bool" where
  "payload_shrinks hw n \<longleftrightarrow> (\<forall>w p sz w'. gen_compressed_request hw n w = Some ((p, sz), w') \<longrightarrow> sz \<le> n)"

interpretation shrinking: input_source "gen_compressed_request hw" "\<lambda>n. deflate_ok hw \<and> payload_shrinks hw n" 1 "\<lambda>n. n" for hw
proof
  fix n and w :: world assume hw: "deflate_ok hw \<and> payload_shrinks hw n"
  then obtain bs x sz where g: "gen_compressed_request hw n w = Some ((nxt w + 1, sz), put_blocks w (bs @ [Bytes x]))"
    "length bs = 1" "\<forall>b \<in> set bs. is_buffer b" "sz \<le> length x"
    using compressed.generates [of hw n w] by blast
  then have "sz \<le> n" using hw unfolding payload_shrinks_def by blast
  with g show "\<exists>bs x sz. gen_compressed_request hw n w = Some ((nxt w + 1, sz), put_blocks w (bs @ [Bytes x])) \<and>
      length bs = 1 \<and> (\<forall>b \<in> set bs. is_buffer b) \<and> sz \<le> length x \<and> sz \<le> n" by blast
qed

section \<open>Allocators and deallocators\<close>

lemmas app_fns = three_func_allocator_def null_two_func_allocator_def axcore_axcore_allocator_def
  memcpy_comp_gpcore_axcore_null_allocator_def axcore_axcore_compress_aecs_allocator_def free_three_phase_stamped_args_def
  free_null_two_phase_def free_axcore_axcore_def free_axcore_axcore_compress_aecs_def deser_app_def select_app_def
  only_blocking_breakdown_def Let_def

definition gather_ground :: "nat \<Rightarrow> env \<Rightarrow> shape \<Rightarrow> bool" where
  "gather_ground s hw K \<longleftrightarrow> (\<exists>m S. blocks K (indir_at K) = Some (KInts m S) \<and> num_accesses hw \<le> m \<and>
    (\<forall>j \<in> S. 0 \<le> j \<and> 4 * nat j + 4 \<le> s))"

abbreviation "pay \<equiv> o_payload_size"
abbreviation "base_ok hw opts \<equiv> env_ok hw \<and> counts_ok opts"

interpretation deser: composed_app "base_ok hw opts \<and> deflate_ok hw \<and> small_put_request hw (pay opts)" hw opts "deser_app hw"
    "\<lambda>_. True" "three_func_arg hw (gen_compressed_serialized_put_request hw) (pay opts) (pay opts) 4"
    "three_needs (get_compress_bound hw (pay opts)) (pay opts) 4" three_phase_fields
    "sizes_are (get_compress_bound hw (pay opts)) (pay opts) (pay opts) 4" 2 for hw opts
  by unfold_locales (simp_all add: counts_ok_def app_fns serialized.three_func_layout)

interpretation gather: composed_app "base_ok hw opts \<and> deflate_ok hw" hw opts "select_app hw (pay opts) (Some GATHER)"
    "gather_ground (pay opts) hw" "null_two_func_arg hw (gen_compressed_request hw) (pay opts) (pay opts) (num_accesses hw * 4)"
    "null_two_needs (pay opts) (num_accesses hw * 4)" three_phase_fields
    "sizes_are (get_compress_bound hw (pay opts)) (pay opts) (pay opts) (num_accesses hw * 4)" 1 for hw opts
  by unfold_locales (simp_all add: counts_ok_def app_fns compressed.null_two_func_layout [simplified])

interpretation ax_ax: composed_app "base_ok hw opts \<and> deflate_ok hw" hw opts "select_app hw (pay opts) (Some AX_AX)"
    "\<lambda>_. True" "axcore_axcore_arg hw (gen_compressed_request hw) (pay opts) (pay opts) (pay opts)"
    chain_needs axcore_axcore_fields "\<lambda>_. True" 1 for hw opts
  by unfold_locales (simp_all add: counts_ok_def app_fns compressed.axcore_axcore_layout [simplified])

interpretation ax_gp: composed_app "base_ok hw opts \<and> deflate_ok hw" hw opts "select_app hw (pay opts) (Some AX_GP)"
    "\<lambda>_. True" "null_two_func_arg hw (gen_compressed_request hw) (pay opts) (pay opts) (pay opts)"
    "null_two_needs (pay opts) (pay opts)" three_phase_fields
    "sizes_are (get_compress_bound hw (pay opts)) (pay opts) (pay opts) (pay opts)" 1 for hw opts
  by unfold_locales (simp_all add: counts_ok_def app_fns compressed.null_two_func_layout [simplified])

interpretation gp_gp: composed_app "base_ok hw opts \<and> deflate_ok hw \<and> payload_shrinks hw (pay opts)" hw opts
    "select_app hw (pay opts) (Some GP_GP)"
    "\<lambda>_. True" "null_two_func_arg hw (gen_compressed_request hw) (pay opts) (pay opts) (pay opts)"
    "null_two_needs (pay opts) (pay opts)" three_phase_fields
    "sizes_are (pay opts) (pay opts) (pay opts) (pay opts)" 1 for hw opts
  by unfold_locales (simp_all add: counts_ok_def app_fns shrinking.null_two_func_layout [simplified])

interpretation gp_ax: composed_app "base_ok hw opts \<and> deflate_ok hw" hw opts "select_app hw (pay opts) (Some GP_AX)"
    "\<lambda>_. True" "three_func_arg hw (gen_compressed_request hw) (pay opts) (pay opts) (pay opts)"
    "three_needs (get_compress_bound hw (pay opts)) (pay opts) (pay opts)" three_phase_fields
    "sizes_are (get_compress_bound hw (pay opts)) (pay opts) (pay opts) (pay opts)" 1 for hw opts
  by unfold_locales (simp_all add: counts_ok_def app_fns compressed.three_func_layout [simplified])

interpretation ax_ax_comp: composed_app "base_ok hw opts" hw opts "select_app hw (pay opts) (Some AX_AX_COMP)"
    "\<lambda>_. True" "axcore_axcore_compress_aecs_arg hw (gen_plaintext_request hw) (pay opts) (pay opts) (pay opts)"
    "aecs_needs (iaa_compress_src2_size hw)" axcore_axcore_aecs_fields "\<lambda>_. True" 0 for hw opts
  by unfold_locales (simp_all add: counts_ok_def app_fns plaintext.axcore_axcore_aecs_layout)

interpretation gp_ax_comp: composed_app "base_ok hw opts" hw opts "select_app hw (pay opts) (Some GP_AX_COMP)"
    "\<lambda>_. True" "gpcore_axcore_null_arg hw (gen_plaintext_request hw) (pay opts) (pay opts) (pay opts)"
    "\<lambda>a. three_needs (iaa_compress_max_dest_size hw) (iaa_compress_max_dest_size hw) (pay opts) a @
      aecs_needs (iaa_compress_src2_size hw) a" three_phase_fields
    "sizes_are (pay opts) (iaa_compress_max_dest_size hw) (pay opts) (pay opts)" 1 for hw opts
  by unfold_locales (simp_all add: counts_ok_def app_fns plaintext.gpcore_axcore_null_layout [simplified])

section \<open>The structs suit the requests\<close>

lemmas suit_simps = suited_def sizes_are_def three_needs_def null_two_needs_def chain_needs_def aecs_needs_def buffer_of_def
  room_for_def phases_fit_def copy_needs_def inflate_needs_def

definition values_fit :: "env \<Rightarrow> bool" where
  "values_fit hw \<longleftrightarrow> (\<forall>bs. length (parse_value hw bs) \<le> length bs)"

lemma deser_suits:
  assumes "env_ok hw" and "values_fit hw" and "inflate_ok hw"
    and "suited (\<lambda>_. True) (three_needs (get_compress_bound hw s) s 4) (sizes_are (get_compress_bound hw s) s s 4) n K i a"
  shows "hashes.fits hw K n i a" "core_hashes.fits hw K n i a"
proof -
  have d: "deser_needs hw K (a_pre_proc_input a) (a_pre_proc_output a) (a_pre_proc_input_size a) None"
    using assms(2,4) by (auto simp: deser_needs_def values_fit_def suit_simps) (metis le_trans)
  have h: "hash_needs hw K (a_ax_func_output a) (a_post_proc_output a) (a_post_proc_input_size a) (Some (a_max_post_proc_output_size a))"
    using assms(1,4) by (auto simp: hash_needs_def suit_simps)
  have "inflate_needs hw K (a_pre_proc_output a) (a_ax_func_output a) k (Some (a_max_axfunc_output_size a))"
    if g: "deser_gives hw (a_pre_proc_input_size a) None (Some k)" for k
  proof -
    have "k \<le> a_pre_proc_input_size a" using g assms(2) unfolding deser_gives_def values_fit_def by (metis option.inject)
    then show ?thesis using assms(3,4) by (auto simp: suit_simps intro: le_trans)
  qed
  with d h assms(1,4) show "hashes.fits hw K n i a" "core_hashes.fits hw K n i a"
    by (auto simp: hashes.fits_def core_hashes.fits_def phases_fit_def suited_def three_needs_def)
qed

lemma gather_suits:
  assumes "env_ok hw" and "inflate_ok hw"
    and "suited (gather_ground s hw) (null_two_needs s (num_accesses hw * 4)) (sizes_are c s s (num_accesses hw * 4)) n K i a"
  shows "gathers.fits hw K n i a" "core_gathers.fits hw K n i a"
proof -
  have g: "gather_needs hw K (a_ax_func_output a) (a_post_proc_output a) (a_post_proc_input_size a) (Some (a_max_post_proc_output_size a))"
    using assms(3) unfolding gather_needs_def gather_ground_def suit_simps by fastforce
  with assms show "gathers.fits hw K n i a" "core_gathers.fits hw K n i a"
    by (auto simp: gathers.fits_def core_gathers.fits_def suit_simps)
qed

lemma chain_suits:
  assumes "env_ok hw" and "suited (\<lambda>_. True) chain_needs (\<lambda>_. True) n K i a"
  shows "chain_fits hw K n i a"
  using assms by (auto simp: chain_fits_def suit_simps)

lemma ax_gp_suits:
  assumes "env_ok hw" and "inflate_ok hw" and "suited (\<lambda>_. True) (null_two_needs s s) (sizes_are c s s s) n K i a"
  shows "copies_inflates.fits hw K n i a"
  using assms by (auto simp: copies_inflates.fits_def suit_simps)

lemma gp_gp_suits:
  assumes "inflate_ok hw" and "suited (\<lambda>_. True) (null_two_needs s s) (sizes_are s s s s) n K i a"
  shows "core_copies_inflates.fits hw K n i a"
  using assms by (auto simp: core_copies_inflates.fits_def suit_simps)

lemma gp_ax_suits:
  assumes "env_ok hw" and "suited (\<lambda>_. True) (three_needs c s s) (sizes_are c s s s) n K i a"
  shows "core_copies.fits hw K n i a"
  using assms by (auto simp: core_copies.fits_def suit_simps)

lemma aecs_suits:
  assumes "aecs_table hw" and "\<exists>k. blocks K (a_aecs a) = Some k \<and> room_for (iaa_compress_src2_size hw) k"
  shows "aecs_ready hw (a_aecs a) K"
  using assms by (auto simp: aecs_ready_def aecs_table_def buffer_of_def room_for_def)

lemma ax_ax_comp_suits:
  assumes "env_ok hw" and "aecs_table hw" and "suited (\<lambda>_. True) (aecs_needs (iaa_compress_src2_size hw)) (\<lambda>_. True) n K i a"
  shows "chain_fits hw K n i a" "aecs_ready hw (a_aecs a) K"
proof -
  show "chain_fits hw K n i a" using assms by (auto simp: chain_fits_def suit_simps)
  show "aecs_ready hw (a_aecs a) K" by (rule aecs_suits [OF assms(2)]) (use assms(3) in \<open>auto simp: suited_def aecs_needs_def\<close>)
qed

lemma gp_ax_comp_suits:
  assumes "env_ok hw" and "aecs_table hw" and "s \<le> iaa_compress_max_dest_size hw"
    and "suited (\<lambda>_. True) (\<lambda>a. three_needs (iaa_compress_max_dest_size hw) (iaa_compress_max_dest_size hw) s a @
      aecs_needs (iaa_compress_src2_size hw) a) (sizes_are s (iaa_compress_max_dest_size hw) s s) n K i a"
  shows "core_copy_compress.fits hw (a_aecs a) K n i a"
proof -
  have "aecs_ready hw (a_aecs a) K" by (rule aecs_suits [OF assms(2)]) (use assms(4) in \<open>auto simp: suited_def aecs_needs_def\<close>)
  moreover have "phases_fit copy_needs (\<lambda>_ _ _ _ _. True) K n i a" using assms(3,4) by (auto simp: suit_simps)
  ultimately show ?thesis using assms(1) by (simp add: core_copy_compress.fits_def)
qed

section \<open>The blocking breakdown run of every application\<close>

definition app_ready :: "env \<Rightarrow> main_options \<Rightarrow> bool" where
  "app_ready hw opts \<longleftrightarrow> base_ok hw opts \<and> deflate_ok hw \<and> inflate_ok hw \<and> (case o_app_type opts of
      Some GATHER \<Rightarrow> 4 \<le> pay opts \<and> pay opts \<le> 2 ^ 26
    | Some AX_AX \<Rightarrow> True
    | Some AX_GP \<Rightarrow> True
    | Some GP_GP \<Rightarrow> payload_shrinks hw (pay opts)
    | Some GP_AX \<Rightarrow> True
    | Some AX_AX_COMP \<Rightarrow> aecs_table hw
    | Some GP_AX_COMP \<Rightarrow> aecs_table hw \<and> pay opts \<le> iaa_compress_max_dest_size hw
    | _ \<Rightarrow> small_put_request hw (pay opts) \<and> values_fit hw)"

text \<open>Accelerator operations of one request, and blocks that are lost with it.\<close>

definition operations :: "app_type option \<Rightarrow> nat" where
  "operations k = (case k of Some AX_AX \<Rightarrow> 2 | Some AX_AX_COMP \<Rightarrow> 2 | Some GP_GP \<Rightarrow> 0 | _ \<Rightarrow> 1)"

definition lost_blocks :: "app_type option \<Rightarrow> nat" where
  "lost_blocks k = (case k of Some AX_AX_COMP \<Rightarrow> 0 | Some GATHER \<Rightarrow> 1 | Some AX_AX \<Rightarrow> 1 | Some AX_GP \<Rightarrow> 1 | Some GP_GP \<Rightarrow> 1
    | Some GP_AX \<Rightarrow> 1 | Some GP_AX_COMP \<Rightarrow> 1 | _ \<Rightarrow> 2)"

definition app_ground :: "env \<Rightarrow> main_options \<Rightarrow> shape \<Rightarrow> bool" where
  "app_ground hw opts = (if o_app_type opts = Some GATHER then gather_ground (pay opts) hw else (\<lambda>_. True))"

definition run_loses :: "main_options \<Rightarrow> nat" where
  "run_loses opts = 5 + o_itr opts * (o_total_requests opts * lost_blocks (o_app_type opts))"

lemma app_type_cases:
  obtains "app = Some GATHER" | "app = Some AX_AX" | "app = Some AX_GP" | "app = Some GP_GP" | "app = Some GP_AX"
  | "app = Some AX_AX_COMP" | "app = Some GP_AX_COMP" | "app \<in> {None, Some DESER, Some DECRYPT}"
proof (cases app)
  case (Some k)
  then show ?thesis using that by (cases k) auto
qed (use that in auto)

lemma select_deser: "app \<in> {None, Some DESER, Some DECRYPT} \<Longrightarrow> select_app hw s app = deser_app hw"
  by (auto simp: select_app_def Let_def)

lemmas leak_defs = deser.leaked_def gather.leaked_def ax_ax.leaked_def ax_gp.leaked_def gp_gp.leaked_def gp_ax.leaked_def
  ax_ax_comp.leaked_def gp_ax_comp.leaked_def run_loses_def lost_blocks_def

lemmas blocking_fns = select_app_def deser_app_def only_blocking_breakdown_def Let_def

text \<open>The requests of the applications.\<close>

lemma deser_fns:
  assumes "app_ready hw opts" and "o_app_type opts \<in> {None, Some DESER, Some DECRYPT}"
    and "suited (\<lambda>_. True) (three_needs (get_compress_bound hw (pay opts)) (pay opts) 4)
      (sizes_are (get_compress_bound hw (pay opts)) (pay opts) (pay opts) 4) n K i a"
  shows "runs 0 K n i (gpcore_throughput_fn (deser_app hw) a)" "runs 1 K n i (blocking_throughput_fn (deser_app hw) a)"
    "entry_ok 0 hw K n not_pending i (yielding_throughput_fn (deser_app hw) a)"
    "five_stamps K n a \<Longrightarrow> runs 0 K n i (gpcore_breakdown_fn (deser_app hw) a)"
    "five_stamps K n a \<Longrightarrow> runs 1 K n i (blocking_breakdown_fn (deser_app hw) a)"
    "five_stamps K n a \<Longrightarrow> entry_ok 0 hw K n not_pending i (yielding_breakdown_fn (deser_app hw) a)"
proof -
  have r: "env_ok hw" "values_fit hw" "inflate_ok hw" using assms(1,2) by (auto simp: app_ready_def)
  note s = deser_suits [OF r assms(3)]
  show "runs 0 K n i (gpcore_throughput_fn (deser_app hw) a)" "runs 1 K n i (blocking_throughput_fn (deser_app hw) a)"
    "entry_ok 0 hw K n not_pending i (yielding_throughput_fn (deser_app hw) a)"
    "five_stamps K n a \<Longrightarrow> runs 0 K n i (gpcore_breakdown_fn (deser_app hw) a)"
    "five_stamps K n a \<Longrightarrow> runs 1 K n i (blocking_breakdown_fn (deser_app hw) a)"
    "five_stamps K n a \<Longrightarrow> entry_ok 0 hw K n not_pending i (yielding_breakdown_fn (deser_app hw) a)"
    unfolding deser_app_def by (simp_all add: request_runs deser_decomp_hash_entry s del: One_nat_def)
qed

lemma gather_fns:
  assumes "app_ready hw opts" and "suited (gather_ground (pay opts) hw) (null_two_needs (pay opts) (num_accesses hw * 4))
      (sizes_are (get_compress_bound hw (pay opts)) (pay opts) (pay opts) (num_accesses hw * 4)) n K i a"
    and "A = select_app hw (pay opts) (Some GATHER)"
  shows "runs 0 K n i (gpcore_throughput_fn A a)" "runs 1 K n i (blocking_throughput_fn A a)"
    "entry_ok 0 hw K n not_pending i (yielding_throughput_fn A a)"
    "five_stamps K n a \<Longrightarrow> runs 0 K n i (gpcore_breakdown_fn A a)"
    "five_stamps K n a \<Longrightarrow> runs 1 K n i (blocking_breakdown_fn A a)"
    "five_stamps K n a \<Longrightarrow> entry_ok 0 hw K n not_pending i (yielding_breakdown_fn A a)"
proof -
  have r: "env_ok hw" "inflate_ok hw" using assms(1) by (auto simp: app_ready_def)
  note s = gather_suits [OF r assms(2)]
  show "runs 0 K n i (gpcore_throughput_fn A a)" "runs 1 K n i (blocking_throughput_fn A a)"
    "entry_ok 0 hw K n not_pending i (yielding_throughput_fn A a)"
    "five_stamps K n a \<Longrightarrow> runs 0 K n i (gpcore_breakdown_fn A a)"
    "five_stamps K n a \<Longrightarrow> runs 1 K n i (blocking_breakdown_fn A a)"
    "five_stamps K n a \<Longrightarrow> entry_ok 0 hw K n not_pending i (yielding_breakdown_fn A a)"
    unfolding assms(3) blocking_fns by (simp_all add: request_runs decomp_gather_entry s del: One_nat_def)
qed

lemma chain_fns:
  "env_ok hw \<Longrightarrow> suited (\<lambda>_. True) chain_needs (\<lambda>_. True) n K i a \<Longrightarrow> five_stamps K n a \<Longrightarrow>
    runs 2 K n i (blocking_breakdown_fn (select_app hw s (Some AX_AX)) a)"
  "env_ok hw \<Longrightarrow> inflate_ok hw \<Longrightarrow> suited (\<lambda>_. True) (null_two_needs s s) (sizes_are c s s s) n K i a \<Longrightarrow> five_stamps K n a \<Longrightarrow>
    runs 1 K n i (blocking_breakdown_fn (select_app hw s (Some AX_GP)) a)"
  "inflate_ok hw \<Longrightarrow> suited (\<lambda>_. True) (null_two_needs s s) (sizes_are s s s s) n K i a \<Longrightarrow> five_stamps K n a \<Longrightarrow>
    runs 0 K n i (blocking_breakdown_fn (select_app hw s (Some GP_GP)) a)"
  "env_ok hw \<Longrightarrow> suited (\<lambda>_. True) (three_needs c s s) (sizes_are c s s s) n K i a \<Longrightarrow> five_stamps K n a \<Longrightarrow>
    runs 1 K n i (blocking_breakdown_fn (select_app hw s (Some GP_AX)) a)"
  "env_ok hw \<Longrightarrow> aecs_table hw \<Longrightarrow> suited (\<lambda>_. True) (aecs_needs (iaa_compress_src2_size hw)) (\<lambda>_. True) n K i a \<Longrightarrow> five_stamps K n a \<Longrightarrow>
    runs 2 K n i (blocking_breakdown_fn (select_app hw s (Some AX_AX_COMP)) a)"
  "env_ok hw \<Longrightarrow> aecs_table hw \<Longrightarrow> s \<le> iaa_compress_max_dest_size hw \<Longrightarrow>
    suited (\<lambda>_. True) (\<lambda>a. three_needs (iaa_compress_max_dest_size hw) (iaa_compress_max_dest_size hw) s a @
      aecs_needs (iaa_compress_src2_size hw) a) (sizes_are s (iaa_compress_max_dest_size hw) s s) n K i a \<Longrightarrow> five_stamps K n a \<Longrightarrow>
    runs 1 K n i (blocking_breakdown_fn (select_app hw s (Some GP_AX_COMP)) a)"
  unfolding blocking_fns
  by (simp_all add: memcpy_decomp_runs memcpy_comp_runs chain_suits ax_gp_suits gp_gp_suits gp_ax_suits ax_ax_comp_suits gp_ax_comp_suits
      del: One_nat_def)

section \<open>All runs of every application\<close>

lemma app_flags:
  "do_gpcore (select_app hw s (Some AX_AX)) = False" "do_thrpt (select_app hw s (Some AX_AX)) = False" "do_yielding (select_app hw s (Some AX_AX)) = False"
  "do_gpcore (select_app hw s (Some AX_GP)) = False" "do_thrpt (select_app hw s (Some AX_GP)) = False" "do_yielding (select_app hw s (Some AX_GP)) = False"
  "do_gpcore (select_app hw s (Some GP_GP)) = False" "do_thrpt (select_app hw s (Some GP_GP)) = False" "do_yielding (select_app hw s (Some GP_GP)) = False"
  "do_gpcore (select_app hw s (Some GP_AX)) = False" "do_thrpt (select_app hw s (Some GP_AX)) = False" "do_yielding (select_app hw s (Some GP_AX)) = False"
  "do_gpcore (select_app hw s (Some AX_AX_COMP)) = False" "do_thrpt (select_app hw s (Some AX_AX_COMP)) = False" "do_yielding (select_app hw s (Some AX_AX_COMP)) = False"
  "do_gpcore (select_app hw s (Some GP_AX_COMP)) = False" "do_thrpt (select_app hw s (Some GP_AX_COMP)) = False" "do_yielding (select_app hw s (Some GP_AX_COMP)) = False"
  "do_gpcore (select_app hw s (Some GATHER))" "do_thrpt (select_app hw s (Some GATHER))" "do_yielding (select_app hw s (Some GATHER))"
  "do_gpcore (deser_app hw)" "do_thrpt (deser_app hw)" "do_yielding (deser_app hw)"
  by (simp_all add: blocking_fns)

lemma app_runs_end:
  assumes "app_ready hw opts" and "grounded (app_ground hw opts) w" and "A = select_app hw (pay opts) (o_app_type opts)"
    and "m = operations (o_app_type opts)"
  shows "ends_run (concat (runs_submit opts A m)) (length (runs_submit opts A m) * run_loses opts) (in_sequence (app_runs csqrt hw opts A)) w"
proof -
  have ok: "env_ok hw" "inflate_ok hw" "base_ok hw opts \<and> deflate_ok hw" "base_ok hw opts" using assms(1) by (simp_all add: app_ready_def)
  have w: "o_app_type opts \<noteq> Some GATHER \<Longrightarrow> grounded (\<lambda>_. True) w" "o_app_type opts = Some GATHER \<Longrightarrow> grounded (gather_ground (pay opts) hw) w"
    using assms(2) by (simp_all add: app_ground_def)
  show ?thesis
  proof (cases rule: app_type_cases [of "o_app_type opts"])
    case 1
    then have e: "run_loses opts = gather.leaked opts" "m = 1" by (simp_all add: leak_defs assms(4) operations_def del: One_nat_def)
    show ?thesis unfolding e assms(3) 1
      by (rule gather.all_runs [OF ok(3) w(2) [OF 1] gather_fns(4,1,5,2,6,3) [OF assms(1) _ refl]])
  next
    case 2
    then have e: "run_loses opts = ax_ax.leaked opts" "m = 2" by (simp_all add: leak_defs assms(4) operations_def del: One_nat_def)
    show ?thesis unfolding e assms(3) 2
      by (rule ax_ax.all_runs) (use 2 ok w in \<open>simp_all add: app_flags chain_fns\<close>)
  next
    case 3
    then have e: "run_loses opts = ax_gp.leaked opts" "m = 1" by (simp_all add: leak_defs assms(4) operations_def del: One_nat_def)
    show ?thesis unfolding e assms(3) 3
      by (rule ax_gp.all_runs) (use 3 ok w in \<open>simp_all add: app_flags chain_fns del: One_nat_def\<close>)
  next
    case 4
    then have e: "run_loses opts = gp_gp.leaked opts" "m = 0" by (simp_all add: leak_defs assms(4) operations_def del: One_nat_def)
    show ?thesis unfolding e assms(3) 4
      by (rule gp_gp.all_runs) (use 4 ok w assms(1) in \<open>simp_all add: app_flags chain_fns app_ready_def\<close>)
  next
    case 5
    then have e: "run_loses opts = gp_ax.leaked opts" "m = 1" by (simp_all add: leak_defs assms(4) operations_def del: One_nat_def)
    show ?thesis unfolding e assms(3) 5
      by (rule gp_ax.all_runs) (use 5 ok w in \<open>simp_all add: app_flags chain_fns del: One_nat_def\<close>)
  next
    case 6
    then have e: "run_loses opts = ax_ax_comp.leaked opts" "m = 2" by (simp_all add: leak_defs assms(4) operations_def del: One_nat_def)
    show ?thesis unfolding e assms(3) 6
      by (rule ax_ax_comp.all_runs) (use 6 ok w assms(1) in \<open>simp_all add: app_flags chain_fns app_ready_def\<close>)
  next
    case 7
    then have e: "run_loses opts = gp_ax_comp.leaked opts" "m = 1" by (simp_all add: leak_defs assms(4) operations_def del: One_nat_def)
    show ?thesis unfolding e assms(3) 7
      by (rule gp_ax_comp.all_runs) (use 7 ok w assms(1) in \<open>simp_all add: app_flags chain_fns app_ready_def del: One_nat_def\<close>)
  next
    case 8
    then have e: "run_loses opts = deser.leaked opts" "m = 1" by (auto simp: leak_defs assms(4) operations_def simp del: One_nat_def)
    have r: "base_ok hw opts \<and> deflate_ok hw \<and> small_put_request hw (pay opts)" "grounded (\<lambda>_. True) w"
      using assms(1) 8 w(1) by (auto simp: app_ready_def)
    show ?thesis unfolding e assms(3) select_deser [OF 8]
      by (rule deser.all_runs [OF r deser_fns(4,1,5,2,6,3) [OF assms(1) 8]])
  qed
qed
section \<open>The program\<close>

definition program_submits :: "main_options \<Rightarrow> nat list" where
  "program_submits opts = (let subs = per_request opts (operations (o_app_type opts)) in
    if o_app_type opts \<in> {Some AX_AX, Some AX_GP, Some GP_GP, Some GP_AX, Some AX_AX_COMP, Some GP_AX_COMP} then subs
    else subs @ subs @ subs @ subs)"

definition program_loses :: "main_options \<Rightarrow> nat" where
  "program_loses opts = (let lost = run_loses opts in
    if o_app_type opts \<in> {Some AX_AX, Some AX_GP, Some GP_GP, Some GP_AX, Some AX_AX_COMP, Some GP_AX_COMP} then lost
    else if o_app_type opts = Some GATHER then 1 + 6 * lost else 6 * lost)"

lemma program_runs:
  assumes "A = select_app hw (pay opts) (o_app_type opts)" and "subs = runs_submit opts A (operations (o_app_type opts))"
  shows "concat subs = program_submits opts"
    "(if o_app_type opts = Some GATHER then 1 else 0) + length subs * run_loses opts = program_loses opts"
  unfolding assms
  by (cases rule: app_type_cases [of "o_app_type opts"];
      auto simp: runs_submit_def app_flags program_submits_def program_loses_def operations_def select_deser Let_def)+

lemma index_array_ready:
  assumes "fresh w" and "app_ready hw opts" and "o_app_type opts = Some GATHER" and "input_size hw = pay opts"
  shows "\<exists>p w1. indirect_array_gen hw w = Some (p, w1) \<and> grounded (app_ground hw opts) (w1\<lparr>g_indir_arr := p\<rparr>) \<and>
    leaves (requests_completed w) [] 1 w (w1\<lparr>g_indir_arr := p\<rparr>)"
proof -
  have "4 \<le> input_size hw" "input_size hw \<le> 2 ^ 26" using assms(2-4) by (simp_all add: app_ready_def)
  from indirect_array_gen_kind [OF this, of w] obtain idxs where
    g: "indirect_array_gen hw w = Some (malloc (Ints idxs) (w\<lparr>rands := rands w + num_accesses hw\<rparr>))" "length idxs = num_accesses hw"
    "floats_fit (input_size hw) (set idxs)" by blast
  define w1 where "w1 = (snd (malloc (Ints idxs) (w\<lparr>rands := rands w + num_accesses hw\<rparr>)))\<lparr>g_indir_arr := nxt w\<rparr>"
  have h: "heap w1 = (heap w)(nxt w \<mapsto> Ints idxs)" "nxt w1 = Suc (nxt w)" "requests_completed w1 = requests_completed w"
    "submit_order w1 = submit_order w" "g_indir_arr w1 = nxt w" by (simp_all add: w1_def malloc_def)
  have f: "fresh w1" using assms(1) h(1,2) by (simp add: fresh_def)
  have "gather_ground (pay opts) hw K" if k: "\<forall>p < nxt w1. blocks K p = kinds w1 p" "indir_at K = g_indir_arr w1" for K
  proof -
    have "blocks K (indir_at K) = Some (KInts (num_accesses hw) (set idxs))" using k h g(2) by (simp add: kinds_def)
    then show ?thesis using g(3) assms(4) by (fastforce simp: gather_ground_def floats_fit_def)
  qed
  then have "grounded (app_ground hw opts) w1" using f assms(3) by (simp add: grounded_def app_ground_def)
  moreover have "{p. heap w p = None \<and> heap w1 p \<noteq> None} = {nxt w}" using assms(1) h(1) by (auto simp: fresh_def)
  then have "leaves (requests_completed w) [] 1 w w1" using f h by (simp add: leaves_def kinds_def)
  moreover have "malloc (Ints idxs) (w\<lparr>rands := rands w + num_accesses hw\<rparr>) = (nxt w, snd (malloc (Ints idxs) (w\<lparr>rands := rands w + num_accesses hw\<rparr>)))"
    by (simp add: malloc_def)
  ultimately show ?thesis using g(1) unfolding w1_def by metis
qed

lemma composable_main_run:
  assumes "opts = fold parse_option argv default_options" and "hw' = app_env hw (pay opts) (o_app_type opts)"
    and "app_ready hw' opts" and "fresh w"
  shows "\<exists>w'. composable_main csqrt hw argv w = Some (Done w' ()) \<and>
    leaves (requests_completed w) (program_submits opts) (program_loses opts) w w'"
proof -
  let ?A = "select_app hw' (pay opts) (o_app_type opts)"
  let ?g = "if o_app_type opts = Some GATHER then 1 else 0"
  have "\<exists>w1. (if o_app_type opts = Some GATHER then do {
             (glob_indir_arr, w) \<leftarrow> indirect_array_gen hw' w;
             Some (w\<lparr>g_indir_arr := glob_indir_arr\<rparr>)
           } else Some w) = Some w1 \<and> grounded (app_ground hw' opts) w1 \<and> leaves (requests_completed w) [] ?g w w1"
  proof (cases "o_app_type opts = Some GATHER")
    case True
    then have "input_size hw' = pay opts" using assms(2) by (simp add: app_env_def)
    from index_array_ready [OF assms(4,3) True this] True show ?thesis by auto
  next
    case False
    then show ?thesis using leaves_refl [OF assms(4)] assms(4) by (simp add: grounded_def app_ground_def)
  qed
  then obtain w1 where 1: "(if o_app_type opts = Some GATHER then do {
             (glob_indir_arr, w) \<leftarrow> indirect_array_gen hw' w;
             Some (w\<lparr>g_indir_arr := glob_indir_arr\<rparr>)
           } else Some w) = Some w1" "grounded (app_ground hw' opts) w1" "leaves (requests_completed w) [] ?g w w1" by blast
  have c: "requests_completed w1 = requests_completed w" using 1(3) by (simp add: leaves_def)
  note subs = program_runs [OF refl refl, of opts hw']
  from app_runs_end [OF assms(3) 1(2) refl refl, of csqrt] obtain w2 where
    2: "in_sequence (app_runs csqrt hw' opts ?A) w1 = Some (Done w2 ())"
    "leaves (requests_completed w) (program_submits opts) (length (runs_submit opts ?A (operations (o_app_type opts))) * run_loses opts) w1 w2"
    unfolding ends_run_def subs(1) c by blast
  have "composable_main csqrt hw argv w = Some (Done w2 ())"
    unfolding composable_main_def Let_def assms(1) [symmetric] assms(2) [symmetric] 1(1) using 2(1) by simp
  with leaves_trans [OF assms(4) 1(3) 2(2)] show ?thesis unfolding subs(2) by auto
qed
section \<open>Properties\<close>


definition gather_argv :: "(char \<times> nat) list" where
  "gather_argv = [(CHR ''k'', 2), (CHR ''t'', 3), (CHR ''i'', 2), (CHR ''s'', 16)]"

lemma gather_opts: "fold parse_option gather_argv default_options = default_options\<lparr>o_app_type := Some GATHER,
    o_total_requests := 3, o_itr := 2, o_payload_size := 16\<rparr>"
  by (simp add: gather_argv_def parse_option_def app_of_nat_def arr_get_def numeral_2_eq_2)

lemma gather_sample: "app_env sample_env 16 (Some GATHER) = sample_env"
  by (simp add: app_env_def sample_env_def)

lemma sample_deflate_ok: "deflate_ok sample_env"
  by (auto simp: deflate_ok_def sample_env_def)


text \<open>What a struct must be for the blocking request of an application.\<close>

definition app_suits :: "env \<Rightarrow> main_options \<Rightarrow> shape \<Rightarrow> nat \<Rightarrow> nat \<Rightarrow> offload_args \<Rightarrow> bool" where
  "app_suits hw opts K n i a \<longleftrightarrow> five_stamps K n a \<and> (case o_app_type opts of
      Some GATHER \<Rightarrow> gathers.fits hw K n i a
    | Some AX_AX \<Rightarrow> chain_fits hw K n i a
    | Some AX_GP \<Rightarrow> copies_inflates.fits hw K n i a
    | Some GP_GP \<Rightarrow> core_copies_inflates.fits hw K n i a
    | Some GP_AX \<Rightarrow> core_copies.fits hw K n i a
    | Some AX_AX_COMP \<Rightarrow> chain_fits hw K n i a \<and> aecs_ready hw (a_aecs a) K
    | Some GP_AX_COMP \<Rightarrow> core_copy_compress.fits hw (a_aecs a) K n i a
    | _ \<Rightarrow> hashes.fits hw K n i a)"


section \<open>Concrete runs\<close>

text \<open>The executors of \<open>Three_Phase_Runs\<close> on the deserialize-decompress-hash requests, and on three of them.\<close>

locale deser_run =
  fixes hw :: env and K :: shape and n :: nat and args :: "offload_args list"
  assumes machine: "env_ok hw" and args: "length args = n" "i < n \<Longrightarrow> hashes.fits hw K n i (args ! i)"

sublocale deser_run \<subseteq> yielding: uncounted_fibers hw K n "replicate n (deser_decomp_hash_yielding hw)" args
  using entry_contract [OF machine args(1) deser_decomp_hash_entry(1) [OF args(2)]] by (simp add: uncounted_fibers_def)

sublocale deser_run \<subseteq> blocking: uncounted_slices K n "replicate n (deser_decomp_hash_blocking hw)" args "\<lambda>i. replicate 1 i"
  using runs_contract [OF args(1) deser_decomp_hash_runs(3) [OF args(2)]] by (simp add: uncounted_slices_def)

definition deser_arg :: "nat \<Rightarrow> offload_args" where
  "deser_arg i = (sample_arg i)\<lparr>a_pre_proc_input := 20 + i, a_pre_proc_input_size := 8, a_pre_proc_output := 30 + i,
    a_ax_func_output := 33 + i, a_post_proc_output := 36 + i, a_post_proc_input_size := 16, a_max_post_proc_output_size := 4\<rparr>"

interpretation deser3: deser_run sample_env "shape (sample_world 3)" 3 "map deser_arg [0..<3]"
proof
  fix i :: nat assume "i < 3"
  then have "phases_fit (deser_needs sample_env) (hash_needs sample_env) (shape (sample_world 3)) 3 i (deser_arg i)"
    by (simp add: phases_fit_def deser_needs_def hash_needs_def buffer_of_def slot_args_def deser_arg_def sample_arg_def sample_kinds
        sample_env_ok) (simp add: sample_env_def)
  then show "hashes.fits sample_env (shape (sample_world 3)) 3 i (map deser_arg [0..<3] ! i)"
    using \<open>i < 3\<close> sample_env_ok by (simp add: hashes.fits_def)
qed (simp_all add: sample_env_ok)

end
