(* ===== verification/Composable_Equiv.thy ===== *)
theory Composable_Equiv
  imports Composable_Requests Offload_Equiv
begin

text \<open>
  The composable requests on an accelerator compute what their versions for a general purpose core
  compute, when the device does what its manual says.  The locale \<open>data_phase\<close> is what the comparison
  needs of a phase, \<open>core_operation\<close> what it needs of an operation and of the function on the core
  that replaces it; the templates are compared once.
\<close>

section \<open>Worlds with the same data\<close>

text \<open>Time stamps, descriptors, counters and completion records may differ.\<close>

definition same_data :: "world \<Rightarrow> world \<Rightarrow> bool" where
  "same_data w u \<longleftrightarrow> kinds w = kinds u \<and> (\<forall>p. get_bytes p w = get_bytes p u \<and> get_ints p w = get_ints p u) \<and>
    g_indir_arr w = g_indir_arr u"

lemma same_dataD:
  "same_data w u \<Longrightarrow> get_bytes p u = get_bytes p w" "same_data w u \<Longrightarrow> get_ints p u = get_ints p w"
  "same_data w u \<Longrightarrow> g_indir_arr u = g_indir_arr w" "same_data w u \<Longrightarrow> kinds u = kinds w"
  by (simp_all add: same_data_def)

lemma same_data_refl: "same_data w w"
  by (simp add: same_data_def)

lemma same_data_trans: "same_data w u \<Longrightarrow> same_data u v \<Longrightarrow> same_data w v"
  by (simp add: same_data_def)

lemma get_bytes_set_bytes: "get_bytes q (set_bytes p bs w) = (if q = p then Some bs else get_bytes q w)"
  by (simp add: get_bytes_def set_bytes_def)

lemma get_ints_set_bytes: "get_ints q (set_bytes p bs w) = (if q = p then None else get_ints q w)"
  by (simp add: get_ints_def set_bytes_def)

lemma kinds_set_bytes: "kinds (set_bytes p bs w) = (kinds w)(p \<mapsto> KBytes (length bs))"
  by (auto simp: kinds_def set_bytes_def)

lemma set_bytes_world [simp]:
  "crs (set_bytes p bs w) = crs w" "g_indir_arr (set_bytes p bs w) = g_indir_arr w"
  by (simp_all add: set_bytes_def)

lemma same_data_set_bytes: "same_data w u \<Longrightarrow> same_data (set_bytes p bs w) (set_bytes p bs u)"
  by (auto simp: same_data_def get_bytes_set_bytes get_ints_set_bytes kinds_set_bytes)

lemma kinds_keep: "get_bytes p w = Some b \<Longrightarrow> length bs = length b \<Longrightarrow> kinds (set_bytes p bs w) = kinds w"
  using get_bytes_kind [of p w b] by (simp add: kinds_set_bytes fun_upd_idem)

lemma stamp_data:
  assumes "stamp hw ts idx w = Some w'"
  shows "same_data w w'" "crs w' = crs w"
proof -
  obtain xs t where x: "get_words ts w = Some xs" "w' = w\<lparr>tscs := Suc (tscs w), heap := (heap w)(ts \<mapsto> Words (xs[idx := t]))\<rparr>"
    using assms by (auto simp: stamp_def rdtsc_def bind_eq_Some_conv arr_set_def get_words_def split: if_splits)
  have "kinds w ts = Some (KWords (length xs))" using x(1) kinds_words by blast
  moreover have "heap w ts \<noteq> None" using x(1) by (cases "heap w ts") (simp_all add: get_words_def)
  ultimately show "same_data w w'" "crs w' = crs w"
    using x by (auto simp: same_data_def get_bytes_def get_ints_def kinds_def get_words_def fun_eq_iff split: option.splits block.splits)
qed

text \<open>A stamp that works in one world works in every world with the same kinds.\<close>

lemma stamp_respects:
  assumes "same_data w u" and "stamp hw ts idx w = Some w'"
  shows "\<exists>u'. stamp hw ts idx u = Some u' \<and> same_data w' u' \<and> crs u' = crs u"
proof -
  obtain xs where x: "get_words ts w = Some xs" "idx < length xs"
    using assms(2) by (auto simp: stamp_def rdtsc_def bind_eq_Some_conv arr_set_def get_words_def split: if_splits)
  then have "kinds u ts = Some (KWords (length xs))" using same_dataD(4) [OF assms(1)] kinds_words by metis
  then obtain ys where "get_words ts u = Some ys" "length ys = length xs" by (auto simp: kinds_words)
  then obtain u' where u': "stamp hw ts idx u = Some u'" using x(2) by (auto simp: stamp_def rdtsc_def arr_set_nat get_words_def)
  have "same_data w' u'"
    using assms(1) stamp_data(1) [OF assms(2)] stamp_data(1) [OF u'] by (auto simp: same_data_def)
  with u' stamp_data(2) [OF u'] show ?thesis by blast
qed

section \<open>Phases\<close>

abbreviation "same_result \<equiv> rel_option (rel_prod (=) same_data)"

locale data_phase =
  fixes f :: phase
  assumes respects: "same_data w u \<Longrightarrow> same_result (f inp out sz room w) (f inp out sz room u)"
    and quiet: "f inp out sz room w = Some (v, w') \<Longrightarrow> crs w' = crs w \<and> kinds w' = kinds w"
begin

lemma respectsD: "same_data w u \<Longrightarrow> f inp out sz room w = Some (v, w') \<Longrightarrow> \<exists>u'. f inp out sz room u = Some (v, u') \<and> same_data w' u'"
  using respects [of w u inp out sz room] by (cases "f inp out sz room u") auto

end

interpretation null_data: data_phase null_fn
  by unfold_locales (auto simp: null_fn_def)

interpretation copy_data: data_phase gpcore_do_memcpy
proof
  fix w u inp out sz room assume s: "same_data w u"
  show "same_result (gpcore_do_memcpy inp out sz room w) (gpcore_do_memcpy inp out sz room u)"
    by (auto simp: gpcore_do_memcpy_def memcpy_def same_dataD [OF s] same_data_set_bytes [OF s] split: bind_splits)
next
  fix w inp out sz room v w' assume "gpcore_do_memcpy inp out sz room w = Some (v, w')"
  then show "crs w' = crs w \<and> kinds w' = kinds w"
    by (auto simp: gpcore_do_memcpy_def memcpy_def bind_eq_Some_conv kinds_keep split: if_splits)
qed

lemma put_output_same: "same_data w u \<Longrightarrow> rel_option same_data (put_output p out w) (put_output p out u)"
  by (auto simp: put_output_def same_dataD same_data_set_bytes split: bind_splits)

lemma put_output_quiet: "put_output p out w = Some w' \<Longrightarrow> crs w' = crs w \<and> kinds w' = kinds w"
  by (auto simp: put_output_def bind_eq_Some_conv kinds_keep split: if_splits)

lemma same_result_bind:
  "rel_option same_data m m' \<Longrightarrow> (\<And>w u. same_data w u \<Longrightarrow> same_result (g w) (h u)) \<Longrightarrow> same_result (Option.bind m g) (Option.bind m' h)"
  by (cases m; cases m') auto

interpretation inflate_data: data_phase "inflate_phase hw" for hw
proof
  fix w u inp out sz room assume s: "same_data w u"
  have "rel_option (rel_prod (=) same_data) (gpcore_do_deflate_decompress hw inp out sz r w) (gpcore_do_deflate_decompress hw inp out sz r u)" for r
  proof (cases "get_bytes inp w")
    case (Some bs)
    then show ?thesis
      by (cases "inflate_loop hw bs sz r 0")
        (auto simp: gpcore_do_deflate_decompress_def same_dataD [OF s] s split: sum.splits intro!: same_result_bind [OF put_output_same [OF s]])
  qed (use s in \<open>auto simp: gpcore_do_deflate_decompress_def same_dataD [OF s]\<close>)
  note g = this
  show "same_result (inflate_phase hw inp out sz room w) (inflate_phase hw inp out sz room u)"
  proof (cases room)
    case (Some r)
    show ?thesis using g [of r]
      by (cases "gpcore_do_deflate_decompress hw inp out sz r w"; cases "gpcore_do_deflate_decompress hw inp out sz r u")
        (auto simp: inflate_phase_def Some)
  qed (simp add: inflate_phase_def)
next
  fix w inp out sz room v w' assume "inflate_phase hw inp out sz room w = Some (v, w')"
  then show "crs w' = crs w \<and> kinds w' = kinds w"
    by (auto simp: inflate_phase_def gpcore_do_deflate_decompress_def Let_def dest!: put_output_quiet
        split: bind_splits if_splits sum.splits)
qed

lemma store32_length: "store32 bs i v = Some bs' \<Longrightarrow> length bs' = length bs"
  by (auto simp: store32_def split: if_splits)

lemma foldM_same:
  assumes "\<And>i w u. same_data w u \<Longrightarrow> rel_option same_data (f i w) (f i u)" and "same_data w u"
  shows "rel_option same_data (foldM f is w) (foldM f is u)"
  using assms(2)
proof (induction "is" arbitrary: w u)
  case (Cons i "is")
  then show ?case using assms(1) [OF Cons.prems, of i] by (cases "f i w"; cases "f i u") auto
qed simp

lemma foldM_quiet:
  assumes "\<And>i w w'. f i w = Some w' \<Longrightarrow> crs w' = crs w \<and> kinds w' = kinds w"
  shows "foldM f is w = Some w' \<Longrightarrow> crs w' = crs w \<and> kinds w' = kinds w"
proof (induction "is" arbitrary: w)
  case (Cons i "is")
  then show ?case using assms [of i w] by (cases "f i w") fastforce+
qed simp

interpretation gather_data: data_phase "gather_access hw" for hw
proof
  fix w u inp out sz room assume s: "same_data w u"
  have "rel_option same_data (gather_step inp out i w) (gather_step inp out i u)" if s: "same_data w u" for i w u
    by (auto simp: gather_step_def same_dataD [OF s] same_data_set_bytes [OF s] split: bind_splits)
  from foldM_same [of "gather_step inp out", OF this s] show "same_result (gather_access hw inp out sz room w) (gather_access hw inp out sz room u)"
    unfolding gather_access_def by (rule same_result_bind) auto
next
  fix w inp out sz room v w' assume f: "gather_access hw inp out sz room w = Some (v, w')"
  have "crs w' = crs w \<and> kinds w' = kinds w" if "gather_step inp out i w = Some w'" for i w w'
    using that by (auto simp: gather_step_def bind_eq_Some_conv kinds_keep store32_length)
  from foldM_quiet [of "gather_step inp out", OF this] f show "crs w' = crs w \<and> kinds w' = kinds w"
    by (auto simp: gather_access_def bind_eq_Some_conv)
qed

interpretation deser_data: data_phase "deser_from_buf hw" for hw
proof
  fix w u inp out sz room assume s: "same_data w u"
  show "same_result (deser_from_buf hw inp out sz room w) (deser_from_buf hw inp out sz room u)"
    by (auto simp: deser_from_buf_def Let_def same_dataD [OF s] same_data_set_bytes [OF s] split: bind_splits)
next
  fix w inp out sz room v w' assume "deser_from_buf hw inp out sz room w = Some (v, w')"
  then show "crs w' = crs w \<and> kinds w' = kinds w"
    by (auto simp: deser_from_buf_def Let_def bind_eq_Some_conv kinds_keep split: if_splits)
qed

interpretation hash_data: data_phase "hash_buf hw" for hw
proof
  fix w u inp out sz room assume s: "same_data w u"
  show "same_result (hash_buf hw inp out sz room w) (hash_buf hw inp out sz room u)"
    by (auto simp: hash_buf_def same_dataD [OF s] same_data_set_bytes [OF s] split: bind_splits)
next
  fix w inp out sz room v w' assume "hash_buf hw inp out sz room w = Some (v, w')"
  then show "crs w' = crs w \<and> kinds w' = kinds w"
    by (auto simp: hash_buf_def bind_eq_Some_conv kinds_keep store32_length split: if_splits)
qed

section \<open>Operations\<close>

definition under_way :: "nat \<Rightarrow> ptr \<Rightarrow> hw_desc \<Rightarrow> world \<Rightarrow> world \<Rightarrow> bool" where
  "under_way i desc d w w' \<longleftrightarrow> (\<exists>k t es. w' = w\<lparr>enqs := k, crs := (crs w)[i := \<lparr>status = 0, job = Some (Hw d, t)\<rparr>], obs := es,
    heap := (heap w)(desc \<mapsto> Desc d)\<rparr>)"

text \<open>An operation that writes what \<open>mid\<close> writes on the core, when \<open>good\<close> holds of the source, the
  destination, the size of the input and the room.\<close>

locale core_operation =
  fixes hw :: env and prep :: prep_fn and submit :: submit_fn and mid :: phase
    and good :: "u8 list \<Rightarrow> u8 list \<Rightarrow> nat \<Rightarrow> nat \<Rightarrow> bool"
  assumes launches: "env_ok hw \<Longrightarrow> i < length (crs w) \<Longrightarrow> kinds w desc = Some KDesc \<Longrightarrow> get_bytes src w = Some s \<Longrightarrow>
      get_bytes dst w = Some b \<Longrightarrow> good s b sz room \<Longrightarrow>
      \<exists>d w1. Option.bind (prep desc src dst i sz w) (submit desc) = Some w1 \<and> under_way i desc d w w1 \<and>
        d_src_addr d = src \<and> d_dst_addr d = dst \<and> length (transfer hw d s b) = length b \<and>
        (\<exists>c. mid src dst sz (Some room) w = Some (c, set_bytes dst (transfer hw d s b) w))"

text \<open>Waiting for it; time stamps may be taken in between.\<close>

lemma same_heap: "heap u = heap w \<Longrightarrow> g_indir_arr u = g_indir_arr w \<Longrightarrow> same_data w u"
  by (simp add: same_data_def kinds_def get_bytes_def get_ints_def fun_eq_iff)

lemma under_way_data:
  assumes "kinds w desc = Some KDesc" and "under_way i desc d w w'"
  shows "same_data w w'"
proof -
  obtain d' where "heap w desc = Some (Desc d')" using assms(1) kinds_desc by blast
  with assms(2) show ?thesis by (auto simp: under_way_def same_data_def kinds_def get_bytes_def get_ints_def fun_eq_iff)
qed

lemma waited:
  assumes hw: "env_ok hw" and a: "alone i w" and i: "i < length (crs w)" and u: "under_way i desc d w w1"
    and v: "same_data w v" "crs v = crs w1"
    and src: "get_bytes (d_src_addr d) w = Some s" and dst: "get_bytes (d_dst_addr d) w = Some b"
  shows "\<exists>v1 v2. spin_on hw i v = Some v1 \<and> check_status hw i v1 = Some v2 \<and>
    same_data (set_bytes (d_dst_addr d) (transfer hw d s b) w) v2"
proof -
  have w: "alone i v" "i < length (crs v)" "\<exists>t. crs v ! i = \<lparr>status = 0, job = Some (Hw d, t)\<rparr>"
    using a i u v(2) by (auto simp: alone_def under_way_def)
  then obtain t where t: "crs v ! i = \<lparr>status = 0, job = Some (Hw d, t)\<rparr>" by blast
  have n0: "iax_comp_none hw = 0" using hw by (simp add: env_ok_def)
  from wait_alone [OF hw w(1,2) t] obtain p where p: "spin_on hw i v = Some (finished hw i (Hw d) p v)"
    by (auto simp: spin_on_def n0)
  have r: "check_status hw i (finished hw i (Hw d) p v) = Some (finished hw i (Hw d) (Suc p) v)"
    using read_status_finished [OF w(1,2), of hw "Hw d" p] by (simp add: check_status_def)
  have "same_data (run_work hw (Hw d) v) (finished hw i (Hw d) (Suc p) v)"
    by (rule same_heap) (simp_all add: finished_def)
  moreover have "run_work hw (Hw d) v = set_bytes (d_dst_addr d) (transfer hw d s b) v"
    using src dst by (simp add: run_work_def same_dataD [OF v(1)])
  ultimately have "same_data (set_bytes (d_dst_addr d) (transfer hw d s b) w) (finished hw i (Hw d) (Suc p) v)"
    using same_data_set_bytes [OF v(1)] same_data_trans by metis
  with p r show ?thesis by blast
qed

section \<open>The two operations\<close>

text \<open>The documented effect of a decompression: what zlib puts out for the same stream, when it ends
  within the room.\<close>

definition device_inflates :: "env \<Rightarrow> bool" where
  "device_inflates hw \<longleftrightarrow> (\<forall>d s b room out. d_opcode d = opcode_decompress hw \<longrightarrow>
    inflate_loop hw s (unat (d_xfer_size d)) room 0 = Some (Inr out) \<longrightarrow> length out \<le> length b \<longrightarrow>
    transfer hw d s b = out @ drop (length out) b)"

definition stream_fits :: "env \<Rightarrow> u8 list \<Rightarrow> u8 list \<Rightarrow> nat \<Rightarrow> nat \<Rightarrow> bool" where
  "stream_fits hw s b sz room \<longleftrightarrow> inflate_init hw = Z_OK \<and> sz < 2 ^ 32 \<and>
    (\<exists>out. inflate_loop hw s sz room 0 = Some (Inr out) \<and> length out \<le> length b)"

lemma submit_under_way:
  assumes hw: "env_ok hw" and i: "i < length (crs w)" and d: "d_completion_addr d = i"
    and p: "w' = w\<lparr>heap := (heap w)(desc \<mapsto> Desc d), crs := (crs w)[i := (crs w ! i)\<lparr>status := 0\<rparr>]\<rparr>"
  shows "\<exists>w1. blocking_submit hw q desc w' = Some w1 \<and> under_way i desc d w w1"
proof -
  have "heap w' desc = Some (Desc d)" "i < length (crs w')" using i by (simp_all add: p)
  from blocking_submit_ok [OF hw this(1) d this(2)] obtain k where "blocking_submit hw q desc w' = Some (w'\<lparr>enqs := Suc k,
       crs := (crs w')[i := (crs w' ! i)\<lparr>job := Some (Hw d, polls w' + latency hw k)\<rparr>], obs := obs w' @ [Submitted q d]\<rparr>)"
    by blast
  moreover have "under_way i desc d w (w'\<lparr>enqs := Suc k,
       crs := (crs w')[i := (crs w' ! i)\<lparr>job := Some (Hw d, polls w' + latency hw k)\<rparr>], obs := obs w' @ [Submitted q d]\<rparr>)"
    unfolding under_way_def by (intro exI [of _ "Suc k"] exI [of _ "polls w + latency hw k"] exI [of _ "obs w @ [Submitted q d]"])
      (use i in \<open>simp add: p world_simps\<close>)
  ultimately show ?thesis by blast
qed

interpretation inflate_op: core_operation hw "prepare_iaa_decompress_desc_with_preallocated_comp hw" "blocking_iaa_submit hw"
    "inflate_phase hw" "\<lambda>s b sz room. device_inflates hw \<and> stream_fits hw s b sz room" for hw
proof
  fix i w desc src s dst b sz room
  assume hw: "env_ok hw" and i: "i < length (crs w)" and k: "kinds w desc = Some KDesc" and sb: "get_bytes src w = Some s" "get_bytes dst w = Some b"
    and g: "device_inflates hw \<and> stream_fits hw s b sz room"
  define d where "d = zero_desc\<lparr>d_flags := 14, d_opcode := opcode_decompress hw, d_src_addr := src,
           d_dst_addr := dst, d_xfer_size := of_nat sz, d_completion_addr := i,
           d_compr_flags := 31, d_src2_addr := 0, d_src2_xfer_size := 0, d_max_dst_size := of_nat (iaa_compress_max_dest_size hw)\<rparr>"
  let ?w = "w\<lparr>heap := (heap w)(desc \<mapsto> Desc d), crs := (crs w)[i := (crs w ! i)\<lparr>status := 0\<rparr>]\<rparr>"
  have kc: "kinds (w\<lparr>crs := c\<rparr>) desc = Some KDesc" for c using k by (simp add: kinds_def)
  have p: "prepare_iaa_decompress_desc_with_preallocated_comp hw desc src dst i sz w = Some ?w"
    using i kc by (simp add: prepare_iaa_decompress_desc_with_preallocated_comp_def memset_comp_def set_desc_kind d_def)
  have "d_completion_addr d = i" by (simp add: d_def)
  from submit_under_way [OF hw i this refl, where desc = desc and q = IAA] obtain w1 where
    1: "blocking_iaa_submit hw desc ?w = Some w1" "under_way i desc d w w1" by (auto simp: blocking_iaa_submit_def)
  obtain out where o: "inflate_loop hw s sz room 0 = Some (Inr out)" "length out \<le> length b" "sz < 2 ^ 32" "inflate_init hw = Z_OK"
    using g by (auto simp: stream_fits_def)
  have "unat (d_xfer_size d) = sz" using o(3) by (simp add: d_def unat_of_nat_u32)
  then have t: "transfer hw d s b = out @ drop (length out) b" using g o(1,2) unfolding device_inflates_def by (simp add: d_def)
  have "\<exists>c. inflate_phase hw src dst sz (Some room) w = Some (c, set_bytes dst (transfer hw d s b) w)"
    using sb o by (simp add: inflate_phase_def gpcore_do_deflate_decompress_def put_output_def t Let_def)
  then show "\<exists>d w1. Option.bind (prepare_iaa_decompress_desc_with_preallocated_comp hw desc src dst i sz w) (blocking_iaa_submit hw desc) = Some w1 \<and>
      under_way i desc d w w1 \<and> d_src_addr d = src \<and> d_dst_addr d = dst \<and> length (transfer hw d s b) = length b \<and>
      (\<exists>c. inflate_phase hw src dst sz (Some room) w = Some (c, set_bytes dst (transfer hw d s b) w))"
    using p 1 o(2) t by (intro exI [of _ d] exI [of _ w1]) (simp add: d_def)
qed

interpretation copy_op: core_operation hw "prepare_dsa_memcpy_desc_with_preallocated_comp hw" "blocking_dsa_submit hw"
    gpcore_do_memcpy "\<lambda>s b sz room. device_copies hw \<and> sz < 2 ^ 32 \<and> sz \<le> length s \<and> sz \<le> length b" for hw
proof
  fix i w desc src s dst b sz and room :: nat
  assume hw: "env_ok hw" and i: "i < length (crs w)" and k: "kinds w desc = Some KDesc" and sb: "get_bytes src w = Some s" "get_bytes dst w = Some b"
    and g: "device_copies hw \<and> sz < 2 ^ 32 \<and> sz \<le> length s \<and> sz \<le> length b"
  define d where "d = zero_desc\<lparr>d_flags := flag_crav hw OR flag_rcr hw OR flag_bof hw, d_src_addr := src,
    d_dst_addr := dst, d_xfer_size := of_nat sz, d_opcode := opcode_memmove hw, d_completion_addr := i\<rparr>"
  let ?w = "w\<lparr>heap := (heap w)(desc \<mapsto> Desc d), crs := (crs w)[i := (crs w ! i)\<lparr>status := 0\<rparr>]\<rparr>"
  have p: "prepare_dsa_memcpy_desc_with_preallocated_comp hw desc src dst i sz w = Some ?w"
    using i k by (simp add: prepare_dsa_memcpy_desc_with_preallocated_comp_def memset_comp_def set_desc_kind d_def)
  have "d_completion_addr d = i" by (simp add: d_def)
  from submit_under_way [OF hw i this refl, where desc = desc and q = DSA] obtain w1 where
    1: "blocking_dsa_submit hw desc ?w = Some w1" "under_way i desc d w w1" by (auto simp: blocking_dsa_submit_def)
  have "unat (d_xfer_size d) = sz" using g by (simp add: d_def unat_of_nat_u32)
  then have t: "transfer hw d s b = take sz s @ drop sz b" using g unfolding device_copies_def by (simp add: d_def)
  have "\<exists>c. gpcore_do_memcpy src dst sz (Some room) w = Some (c, set_bytes dst (transfer hw d s b) w)"
    using sb g by (simp add: gpcore_do_memcpy_def memcpy_def t)
  then show "\<exists>d w1. Option.bind (prepare_dsa_memcpy_desc_with_preallocated_comp hw desc src dst i sz w) (blocking_dsa_submit hw desc) = Some w1 \<and>
      under_way i desc d w w1 \<and> d_src_addr d = src \<and> d_dst_addr d = dst \<and> length (transfer hw d s b) = length b \<and>
      (\<exists>c. gpcore_do_memcpy src dst sz (Some room) w = Some (c, set_bytes dst (transfer hw d s b) w))"
    using p 1 g t by (intro exI [of _ d] exI [of _ w1]) (simp add: d_def)
qed

section \<open>The templates\<close>

locale offload_or_core = pre: data_phase pre + mid: data_phase mid + post: data_phase post + op: core_operation hw prep submit mid good
  for hw :: env and pre mid post :: phase and prep :: prep_fn and submit :: submit_fn and good
begin

lemma untimed:
  assumes hw: "env_ok hw" and a: "alone i w" and i: "i < length (crs w)" and k: "kinds w desc = Some KDesc"
    and p: "pre inp buf sz None w = Some (Some n, w1)" and s: "get_bytes buf w1 = Some s" and b: "get_bytes out w1 = Some b"
    and g: "good s b n room"
    and core: "generic_gpcore_three_phase pre inp buf sz mid out room post res psz proom w = Some v"
  shows "\<exists>u. generic_blocking_three_phase hw pre inp buf sz prep submit (spin_on hw) i desc out room post res psz proom w = Some u \<and>
    same_data v u"
proof -
  have q: "crs w1 = crs w" "kinds w1 = kinds w" using pre.quiet [OF p] by simp_all
  have w1: "alone i w1" "i < length (crs w1)" "kinds w1 desc = Some KDesc" using a i k q by (simp_all add: alone_def)
  from op.launches [OF hw w1(2,3) s b g] obtain d w2 c where
    2: "Option.bind (prep desc buf out i n w1) (submit desc) = Some w2" "under_way i desc d w1 w2" "d_src_addr d = buf" "d_dst_addr d = out"
      "mid buf out n (Some room) w1 = Some (c, set_bytes out (transfer hw d s b) w1)" by blast
  have "get_bytes (d_src_addr d) w1 = Some s" "get_bytes (d_dst_addr d) w1 = Some b" using s b 2(3,4) by simp_all
  from waited [OF hw w1(1,2) 2(2) under_way_data [OF w1(3) 2(2)] refl this] obtain v1 v2 where
    3: "spin_on hw i w2 = Some v1" "check_status hw i v1 = Some v2" "same_data (set_bytes out (transfer hw d s b) w1) v2"
    unfolding 2(4) by blast
  obtain m where m: "post out res psz (Some proom) (set_bytes out (transfer hw d s b) w1) = Some (m, v)"
    using core p 2(5) by (auto simp: generic_gpcore_three_phase_def bind_eq_Some_conv)
  from post.respectsD [OF 3(3) m] obtain u where u: "post out res psz (Some proom) v2 = Some (m, u)" "same_data v u" by blast
  obtain w2' where "prep desc buf out i n w1 = Some w2'" "submit desc w2' = Some w2" using 2(1) by (auto simp: bind_eq_Some_conv)
  with p 3(1,2) u show ?thesis by (auto simp: generic_blocking_three_phase_def Let_def)
qed

lemma timed:
  assumes hw: "env_ok hw" and a: "alone i w" and i: "i < length (crs w)" and k: "kinds w desc = Some KDesc"
    and p: "pre inp buf sz None w = Some (Some n, w1)" and s: "get_bytes buf w1 = Some s" and b: "get_bytes out w1 = Some b"
    and g: "good s b n room"
    and core: "generic_gpcore_three_phase_timed hw pre inp buf sz mid out room post res psz proom (t0, t1, t2, t3, t4) idx w = Some v"
  shows "\<exists>u. generic_blocking_three_phase_timed hw pre inp buf sz prep submit (spin_on hw) i desc out room post res psz proom
      (t0, t1, t2, t3, t4) idx w = Some u \<and> same_data v u"
proof -
  obtain wA where wA: "stamp hw t0 idx w = Some wA" using core by (auto simp: generic_gpcore_three_phase_timed_def bind_eq_Some_conv)
  from pre.respectsD [OF stamp_data(1) [OF wA] p] obtain wB where wB: "pre inp buf sz None wA = Some (Some n, wB)" "same_data w1 wB" by blast
  obtain wC wD m wE wF r wG where
    C: "stamp hw t1 idx wB = Some wC" "stamp hw t2 idx wC = Some wD" "mid buf out n (Some room) wD = Some (m, wE)"
      "stamp hw t3 idx wE = Some wF" "post out res psz (Some proom) wF = Some (r, wG)" "stamp hw t4 idx wG = Some v"
    using core wA wB(1) by (auto simp: generic_gpcore_three_phase_timed_def bind_eq_Some_conv)
  have BC: "same_data w1 wC" using wB(2) stamp_data(1) [OF C(1)] same_data_trans by blast
  have q: "crs wC = crs w" using pre.quiet [OF wB(1)] stamp_data(2) [OF wA] stamp_data(2) [OF C(1)] by simp
  have "kinds w1 = kinds w" using pre.quiet [OF p] by simp
  then have w: "alone i wC" "i < length (crs wC)" "kinds wC desc = Some KDesc" "get_bytes buf wC = Some s" "get_bytes out wC = Some b"
    using a i k q s b same_dataD [OF BC] by (simp_all add: alone_def)
  from op.launches [OF hw w(2-5) g] obtain d w2 c where
    2: "Option.bind (prep desc buf out i n wC) (submit desc) = Some w2" "under_way i desc d wC w2" "d_src_addr d = buf" "d_dst_addr d = out"
      "mid buf out n (Some room) wC = Some (c, set_bytes out (transfer hw d s b) wC)" by blast
  from stamp_respects [OF under_way_data [OF w(3) 2(2)] C(2)] obtain u2 where
    u2: "stamp hw t2 idx w2 = Some u2" "same_data wD u2" "crs u2 = crs w2" by blast
  have CD: "same_data wC wD" by (rule stamp_data(1) [OF C(2)])
  have "get_bytes (d_src_addr d) wC = Some s" "get_bytes (d_dst_addr d) wC = Some b" using w(4,5) 2(3,4) by simp_all
  from waited [OF hw w(1,2) 2(2) same_data_trans [OF CD u2(2)] u2(3) this] obtain v1 v2 where
    3: "spin_on hw i u2 = Some v1" "check_status hw i v1 = Some v2" "same_data (set_bytes out (transfer hw d s b) wC) v2"
    unfolding 2(4) by blast
  from mid.respectsD [OF CD 2(5)] C(3) have "same_data (set_bytes out (transfer hw d s b) wC) wE" by auto
  then have E: "same_data wE v2" using 3(3) by (simp add: same_data_def)
  from stamp_respects [OF E C(4)] obtain v3 where v3: "stamp hw t3 idx v2 = Some v3" "same_data wF v3" by blast
  from post.respectsD [OF v3(2) C(5)] obtain v4 where v4: "post out res psz (Some proom) v3 = Some (r, v4)" "same_data wG v4" by blast
  from stamp_respects [OF v4(2) C(6)] obtain u where u: "stamp hw t4 idx v4 = Some u" "same_data v u" by blast
  obtain w2' where "prep desc buf out i n wC = Some w2'" "submit desc w2' = Some w2" using 2(1) by (auto simp: bind_eq_Some_conv)
  with wA wB(1) C(1) u2(1) 3(1,2) v3(1) v4(1) u show ?thesis by (auto simp: generic_blocking_three_phase_timed_def Let_def)
qed

end

interpretation deser_hash: offload_or_core hw "deser_from_buf hw" "inflate_phase hw" "hash_buf hw"
    "prepare_iaa_decompress_desc_with_preallocated_comp hw" "blocking_iaa_submit hw"
    "\<lambda>s b sz room. device_inflates hw \<and> stream_fits hw s b sz room" for hw
  by unfold_locales

interpretation decomp_gather: offload_or_core hw null_fn "inflate_phase hw" "gather_access hw"
    "prepare_iaa_decompress_desc_with_preallocated_comp hw" "blocking_iaa_submit hw"
    "\<lambda>s b sz room. device_inflates hw \<and> stream_fits hw s b sz room" for hw
  by unfold_locales

interpretation copy_inflate: offload_or_core hw null_fn gpcore_do_memcpy "inflate_phase hw"
    "prepare_dsa_memcpy_desc_with_preallocated_comp hw" "blocking_dsa_submit hw"
    "\<lambda>s b sz room. device_copies hw \<and> sz < 2 ^ 32 \<and> sz \<le> length s \<and> sz \<le> length b" for hw
  by unfold_locales

section \<open>Properties\<close>

text \<open>A request that is alone on the device, with a descriptor and three buffers.\<close>

definition alone_request :: "env \<Rightarrow> offload_args \<Rightarrow> world \<Rightarrow> bool" where
  "alone_request hw a w \<longleftrightarrow> env_ok hw \<and> alone (a_comp a) w \<and> a_comp a < length (crs w) \<and> kinds w (a_desc a) = Some KDesc \<and>
    distinct [a_pre_proc_output a, a_ax_func_output a, a_post_proc_output a]"

text \<open>A machine whose device copies and decompresses, for a format that is its own compression.\<close>

definition iaa_env :: env where
  "iaa_env = dsa_env\<lparr>inflate_call := (\<lambda>s i room k. if i \<le> room then (Z_STREAM_END, take i s) else (Z_DATA_ERROR, [])),
    transfer := (\<lambda>d s b. let n = unat (d_xfer_size d) in
      if d_opcode d = 0x42 \<and> length (take n s) \<le> length b then take n s @ drop (length (take n s)) b
      else transfer dsa_env d s b)\<rparr>"

lemma iaa_inflate: "n \<le> room \<Longrightarrow> inflate_loop iaa_env s n room 0 = Some (Inr (take n s))"
  by (subst inflate_loop.simps) (simp add: iaa_env_def inflate_error_def)

lemma iaa_inflate_fails: "room < n \<Longrightarrow> inflate_loop iaa_env s n room 0 = Some (Inl (Z_DATA_ERROR, []))"
  by (subst inflate_loop.simps) (simp add: iaa_env_def inflate_error_def)

lemma iaa_inflate_result: "inflate_loop iaa_env s n room 0 = Some (Inr out) \<Longrightarrow> out = take n s"
  using iaa_inflate [of n room s] iaa_inflate_fails [of room n s] by (cases "n \<le> room") auto

lemma iaa_env_ok: "env_ok iaa_env" "device_inflates iaa_env" "device_copies iaa_env" "num_accesses iaa_env = 3"
proof -
  have "env_ok dsa_env" by (rule dsa_env_ok)
  then show "env_ok iaa_env" by (auto simp: env_ok_def iaa_env_def Let_def)
  have "opcode_decompress iaa_env = 0x42" by (simp add: iaa_env_def dsa_env_def sample_env_def)
  moreover have "transfer iaa_env d s b = out @ drop (length out) b" if "d_opcode d = 0x42"
    and o: "inflate_loop iaa_env s (unat (d_xfer_size d)) room 0 = Some (Inr out)" and "length out \<le> length b" for d s b room out
    using that iaa_inflate_result [OF o] by (simp add: iaa_env_def Let_def)
  ultimately show "device_inflates iaa_env" unfolding device_inflates_def by simp
  show "device_copies iaa_env" "num_accesses iaa_env = 3"
    using dsa_env_ok(3,8) by (auto simp: device_copies_def iaa_env_def dsa_env_def sample_env_def)
qed

lemma iaa_fits: "n \<le> room \<Longrightarrow> n < 2 ^ 32 \<Longrightarrow> length (take n s) \<le> length b \<Longrightarrow> stream_fits iaa_env s b n room"
  using iaa_inflate [of n room s] by (auto simp: stream_fits_def) (simp add: iaa_env_def dsa_env_def sample_env_def)

definition iaa_arg :: offload_args where
  "iaa_arg = (sample_arg 1)\<lparr>a_pre_proc_input := 22, a_pre_proc_input_size := 8, a_pre_proc_output := 31,
    a_ax_func_output := 21, a_max_axfunc_output_size := 16, a_post_proc_output := 32, a_post_proc_input_size := 16,
    a_max_post_proc_output_size := 64\<rparr>"

lemma iaa_request:
  "alone_request iaa_env iaa_arg dsa_world" "a_pre_proc_input iaa_arg = 22" "a_pre_proc_input_size iaa_arg = 8" "a_pre_proc_output iaa_arg = 31"
  "a_ax_func_output iaa_arg = 21" "a_max_axfunc_output_size iaa_arg = 16" "a_post_proc_output iaa_arg = 32" "a_post_proc_input_size iaa_arg = 16"
  "get_bytes 32 dsa_world = Some (replicate 64 0)"
  using dsa_world_blocks(1) [of 1] dsa_world_blocks(2,3) iaa_env_ok(1)
  by (simp_all add: alone_request_def iaa_arg_def sample_arg_def)
    (simp add: dsa_world_def get_bytes_def set_bytes_def sample_world_def sample_heap_def)

lemma inflate_phase_run:
  assumes "stream_fits hw s b n room" and "get_bytes p w = Some s" and "get_bytes q w = Some b"
  shows "\<exists>out c. inflate_loop hw s n room 0 = Some (Inr out) \<and> inflate_phase hw p q n (Some room) w = Some (c, set_bytes q (out @ drop (length out) b) w)"
  using assms by (auto simp: stream_fits_def inflate_phase_def gpcore_do_deflate_decompress_def put_output_def Let_def)

lemma hash_buf_run:
  assumes "env_ok hw" and "get_bytes p w = Some d" and "n \<le> length d" and "get_bytes q w = Some r" and "4 \<le> length r"
  shows "\<exists>h r'. furc_hash (Some (\<lambda>i. d ! i)) n 16 (hash_garbage hw) = Some h \<and> load32 r' 0 = Some h \<and>
    hash_buf hw p q n room w = Some (Some 4, set_bytes q r' w)"
proof -
  obtain h where h: "furc_hash (Some (\<lambda>i. d ! i)) n 16 (hash_garbage hw) = Some h" using furc_hash_env [OF assms(1)] by blast
  have "0 + 4 \<le> length r" using assms(5) by simp
  from load_store32 [OF this, of h] obtain r' where "store32 r 0 h = Some r'" "load32 r' 0 = Some h" by auto
  with h assms show ?thesis by (auto simp: hash_buf_def)
qed

text \<open>C12: The deserialize, decompress and hash request on the IAA leaves the same data in memory as its
  version for the core, and both store the hash of the decompressed value of the message.\<close>

theorem deser_hash_offload_equals_core:
  assumes "alone_request hw a w" and "device_inflates hw"
    and "get_bytes (a_pre_proc_input a) w = Some msg" and "a_pre_proc_input_size a \<le> length msg"
    and "v = parse_value hw (take (a_pre_proc_input_size a) msg)"
    and "get_bytes (a_pre_proc_output a) w = Some p" and "length v \<le> length p"
    and "get_bytes (a_ax_func_output a) w = Some b" and "a_post_proc_input_size a \<le> length b"
    and "stream_fits hw (v @ drop (length v) p) b (length v) (a_max_axfunc_output_size a)"
    and "get_bytes (a_post_proc_output a) w = Some r" and "4 \<le> length r"
  shows "\<exists>w1 w2 out h res. deser_decomp_hash_gpcore hw a w = Some (Yield w1 returns) \<and>
    deser_decomp_hash_blocking hw a w = Some (Yield w2 returns) \<and> same_data w1 w2 \<and>
    inflate_loop hw (v @ drop (length v) p) (length v) (a_max_axfunc_output_size a) 0 = Some (Inr out) \<and>
    furc_hash (Some (\<lambda>i. (out @ drop (length out) b) ! i)) (a_post_proc_input_size a) 16 (hash_garbage hw) = Some h \<and>
    get_bytes (a_post_proc_output a) w2 = Some res \<and> load32 res 0 = Some h"
proof -
  let ?P = "a_pre_proc_output a" and ?A = "a_ax_func_output a" and ?R = "a_post_proc_output a"
  let ?s = "v @ drop (length v) p" and ?n = "length v" and ?room = "a_max_axfunc_output_size a" and ?psz = "a_post_proc_input_size a"
  have r: "env_ok hw" "alone (a_comp a) w" "a_comp a < length (crs w)" "kinds w (a_desc a) = Some KDesc" "?P \<noteq> ?A" "?P \<noteq> ?R" "?A \<noteq> ?R"
    using assms(1) by (simp_all add: alone_request_def)
  let ?w1 = "set_bytes ?P ?s w"
  have p: "deser_from_buf hw (a_pre_proc_input a) ?P (a_pre_proc_input_size a) None w = Some (Some ?n, ?w1)"
    using assms(3-7) by (simp add: deser_from_buf_def Let_def)
  have s: "get_bytes ?P ?w1 = Some ?s" "get_bytes ?A ?w1 = Some b" using assms(8) r by (simp_all add: get_bytes_set_bytes)
  from inflate_phase_run [OF assms(10) s] obtain out c where
    o: "inflate_loop hw ?s ?n ?room 0 = Some (Inr out)" "inflate_phase hw ?P ?A ?n (Some ?room) ?w1 = Some (c, set_bytes ?A (out @ drop (length out) b) ?w1)"
    by blast
  let ?d = "out @ drop (length out) b" and ?w2 = "set_bytes ?A (out @ drop (length out) b) ?w1"
  have d: "get_bytes ?A ?w2 = Some ?d" "?psz \<le> length ?d" "get_bytes ?R ?w2 = Some r"
    using assms(9-11) o(1) r by (auto simp: get_bytes_set_bytes stream_fits_def)
  from hash_buf_run [OF r(1) d assms(12)] obtain h r' where
    h: "furc_hash (Some (\<lambda>i. ?d ! i)) ?psz 16 (hash_garbage hw) = Some h" "load32 r' 0 = Some h"
      "\<And>room. hash_buf hw ?A ?R ?psz room ?w2 = Some (Some 4, set_bytes ?R r' ?w2)" by (auto simp: hash_buf_def)
  let ?v = "set_bytes ?R r' ?w2"
  have core: "generic_gpcore_three_phase (deser_from_buf hw) (a_pre_proc_input a) ?P (a_pre_proc_input_size a) (inflate_phase hw) ?A ?room
      (hash_buf hw) ?R ?psz (a_max_post_proc_output_size a) w = Some ?v"
    using p o(2) h(3) by (simp add: generic_gpcore_three_phase_def)
  from deser_hash.untimed [OF r(1-4) p s conjI [OF assms(2,10)] core] obtain u where
    u: "generic_blocking_three_phase hw (deser_from_buf hw) (a_pre_proc_input a) ?P (a_pre_proc_input_size a)
      (prepare_iaa_decompress_desc_with_preallocated_comp hw) (blocking_iaa_submit hw) (spin_on hw) (a_comp a) (a_desc a) ?A ?room
      (hash_buf hw) ?R ?psz (a_max_post_proc_output_size a) w = Some u" "same_data ?v u" by blast
  have "get_bytes ?R u = Some r'" using same_dataD(1) [OF u(2)] by (simp add: get_bytes_set_bytes)
  with core u o(1) h(1,2) show ?thesis
    by (auto simp: deser_decomp_hash_gpcore_def deser_decomp_hash_blocking_def then_complete_def complete_request_and_switch_to_scheduler_def)
qed

lemma deser_hash_offload_equals_core_witness:
  "\<exists>w1 w2 out h res. deser_decomp_hash_gpcore iaa_env iaa_arg dsa_world = Some (Yield w1 returns) \<and>
    deser_decomp_hash_blocking iaa_env iaa_arg dsa_world = Some (Yield w2 returns) \<and> same_data w1 w2 \<and>
    inflate_loop iaa_env (map of_nat [0..<8] @ replicate 8 7) 8 16 0 = Some (Inr out) \<and>
    furc_hash (Some (\<lambda>i. (out @ drop (length out) (replicate 16 9)) ! i)) 16 16 (hash_garbage iaa_env) = Some h \<and>
    get_bytes 32 w2 = Some res \<and> load32 res 0 = Some h"
proof -
  have v: "parse_value iaa_env (take 8 (map of_nat [0..<64])) = map of_nat [0..<8]"
    by (simp add: iaa_env_def dsa_env_def sample_env_def take_map)
  have f: "stream_fits iaa_env (map of_nat [0..<8] @ replicate 8 7) (replicate 16 9) 8 16" by (rule iaa_fits) simp_all
  show ?thesis
    using deser_hash_offload_equals_core [of iaa_env iaa_arg dsa_world "map of_nat [0..<64]" "map of_nat [0..<8]" "replicate 16 7" "replicate 16 9" "replicate 64 0"]
    by (simp add: iaa_request dsa_world_blocks iaa_env_ok v f)
qed

text \<open>The gather on \<open>float\<close>s.\<close>

lemma gather_run:
  assumes "get_ints (g_indir_arr w) w = Some idxs" and "n \<le> length idxs" and "get_bytes p w = Some d"
    and "\<forall>j \<in> set idxs. 0 \<le> j \<and> 4 * nat j + 4 \<le> length d" and "get_bytes q w = Some r" and "4 * n \<le> length r" and "p \<noteq> q"
  shows "\<exists>r'. foldM (gather_step p q) [0..<n] w = Some (set_bytes q r' w) \<and> length r' = length r \<and>
    (\<forall>i < n. load32 r' (4 * i) = load32 d (4 * nat (idxs ! i)))"
  using assms(2,6)
proof (induction n)
  case 0
  have "set_bytes q r w = w" using assms(5) by (auto simp: set_bytes_def get_bytes_def fun_upd_idem split: option.splits block.splits)
  then show ?case by (intro exI [of _ r]) simp
next
  case (Suc n)
  then obtain r' where r': "foldM (gather_step p q) [0..<n] w = Some (set_bytes q r' w)" "length r' = length r"
    "\<forall>i < n. load32 r' (4 * i) = load32 d (4 * nat (idxs ! i))" by fastforce
  let ?j = "idxs ! n"
  have j: "0 \<le> ?j" "4 * nat ?j + 4 \<le> length d" using assms(4) Suc.prems(1) nth_mem [of n idxs] by auto
  obtain x where x: "load32 d (4 * nat ?j) = Some x" using j(2) by (auto simp: load32_def)
  have "4 * n + 4 \<le> length r'" using Suc.prems(2) r'(2) by simp
  from load_store32 [OF this, of x] obtain r2 where r2: "store32 r' (4 * n) x = Some r2" "length r2 = length r'" "load32 r2 (4 * n) = Some x" by blast
  have "g_indir_arr w \<noteq> q" using assms(1,5) by (auto simp: get_ints_def get_bytes_def split: option.splits block.splits)
  then have "gather_step p q n (set_bytes q r' w) = Some (set_bytes q r2 (set_bytes q r' w))"
    using assms(1,3,7) x j(1) r2(1) Suc.prems(1)
    by (simp add: gather_step_def get_ints_set_bytes get_bytes_set_bytes arr_get_nat)
  moreover have "set_bytes q r2 (set_bytes q r' w) = set_bytes q r2 w" by (simp add: set_bytes_def)
  moreover have "load32 r2 (4 * i) = load32 d (4 * nat (idxs ! i))" if "i < Suc n" for i
  proof (cases "i = n")
    case False
    then have "load32 r2 (4 * i) = load32 r' (4 * i)" using that by (intro load_store32_other [OF r2(1)]) linarith
    with r'(3) that False show ?thesis by simp
  qed (simp add: r2(3) x)
  ultimately show ?case using r'(1,2) r2(2) by (intro exI [of _ r2]) (simp add: foldM_append)
qed


text \<open>C13: The decompress and gather request on the IAA leaves the same data in memory as its version
  for the core: the features of the decompressed buffer that the indirection array names.\<close>

theorem decomp_gather_offload_equals_core:
  assumes "alone_request hw a w" and "device_inflates hw"
    and "get_bytes (a_pre_proc_output a) w = Some s" and "get_bytes (a_ax_func_output a) w = Some b"
    and "stream_fits hw s b (a_pre_proc_input_size a) (a_max_axfunc_output_size a)"
    and "get_ints (g_indir_arr w) w = Some idxs" and "num_accesses hw \<le> length idxs"
    and "\<forall>j \<in> set idxs. 0 \<le> j \<and> 4 * nat j + 4 \<le> length b"
    and "get_bytes (a_post_proc_output a) w = Some r" and "4 * num_accesses hw \<le> length r"
  shows "\<exists>w1 w2 out res. decomp_gather_gpcore hw a w = Some (Yield w1 returns) \<and>
    decomp_gather_blocking hw a w = Some (Yield w2 returns) \<and> same_data w1 w2 \<and>
    inflate_loop hw s (a_pre_proc_input_size a) (a_max_axfunc_output_size a) 0 = Some (Inr out) \<and>
    get_bytes (a_post_proc_output a) w2 = Some res \<and>
    (\<forall>i < num_accesses hw. load32 res (4 * i) = load32 (out @ drop (length out) b) (4 * nat (idxs ! i)))"
proof -
  let ?P = "a_pre_proc_output a" and ?A = "a_ax_func_output a" and ?R = "a_post_proc_output a"
  let ?n = "a_pre_proc_input_size a" and ?room = "a_max_axfunc_output_size a" and ?psz = "a_post_proc_input_size a"
  have q: "env_ok hw" "alone (a_comp a) w" "a_comp a < length (crs w)" "kinds w (a_desc a) = Some KDesc" "?P \<noteq> ?A" "?P \<noteq> ?R" "?A \<noteq> ?R"
    using assms(1) by (simp_all add: alone_request_def)
  from inflate_phase_run [OF assms(5,3,4)] obtain out c where
    o: "inflate_loop hw s ?n ?room 0 = Some (Inr out)"
      "inflate_phase hw ?P ?A ?n (Some ?room) w = Some (c, set_bytes ?A (out @ drop (length out) b) w)" by blast
  let ?d = "out @ drop (length out) b"
  let ?w = "set_bytes ?A ?d w"
  have "g_indir_arr w \<noteq> ?A" using assms(4,6) by (auto simp: get_ints_def get_bytes_def split: option.splits block.splits)
  then have d: "get_ints (g_indir_arr ?w) ?w = Some idxs" "get_bytes ?A ?w = Some ?d" "length ?d = length b" "get_bytes ?R ?w = Some r"
    using assms(5,6,9) o(1) q by (auto simp: get_ints_set_bytes get_bytes_set_bytes stream_fits_def)
  from gather_run [OF d(1) assms(7) d(2) _ d(4) assms(10) q(7)] assms(8) d(3) obtain r' where
    r': "foldM (gather_step ?A ?R) [0..<num_accesses hw] ?w = Some (set_bytes ?R r' ?w)"
      "\<forall>i < num_accesses hw. load32 r' (4 * i) = load32 ?d (4 * nat (idxs ! i))" by auto
  let ?v = "set_bytes ?R r' ?w"
  have core: "generic_gpcore_three_phase null_fn (a_pre_proc_input a) ?P ?n (inflate_phase hw) ?A ?room
      (gather_access hw) ?R ?psz (a_max_post_proc_output_size a) w = Some ?v"
    using o(2) r'(1) by (simp add: generic_gpcore_three_phase_def null_fn_def gather_access_def)
  have p: "null_fn (a_pre_proc_input a) ?P ?n None w = Some (Some ?n, w)" by (simp add: null_fn_def)
  from decomp_gather.untimed [OF q(1-4) p assms(3,4) conjI [OF assms(2,5)] core] obtain u where
    u: "generic_blocking_three_phase hw null_fn (a_pre_proc_input a) ?P ?n
      (prepare_iaa_decompress_desc_with_preallocated_comp hw) (blocking_iaa_submit hw) (spin_on hw) (a_comp a) (a_desc a) ?A ?room
      (gather_access hw) ?R ?psz (a_max_post_proc_output_size a) w = Some u" "same_data ?v u" by blast
  have "get_bytes ?R u = Some r'" using same_dataD(1) [OF u(2)] by (simp add: get_bytes_set_bytes)
  with core u o(1) r'(2) show ?thesis
    by (auto simp: decomp_gather_gpcore_def decomp_gather_blocking_def then_complete_def complete_request_and_switch_to_scheduler_def)
qed

definition gather_world :: world where "gather_world = dsa_world\<lparr>g_indir_arr := 40\<rparr>"

lemma gather_world_blocks:
  "alone_request iaa_env iaa_arg gather_world" "get_bytes 31 gather_world = Some (replicate 16 7)" "get_bytes 21 gather_world = Some (replicate 16 9)"
  "get_bytes 32 gather_world = Some (replicate 64 0)" "get_ints (g_indir_arr gather_world) gather_world = Some [2, 0, 2]"
  using iaa_request(1,9) dsa_world_blocks(4,5,7) by (simp_all add: gather_world_def alone_request_def alone_def kinds_def get_bytes_def get_ints_def)

lemma decomp_gather_offload_equals_core_witness:
  "\<exists>w1 w2 out res. decomp_gather_gpcore iaa_env iaa_arg gather_world = Some (Yield w1 returns) \<and>
    decomp_gather_blocking iaa_env iaa_arg gather_world = Some (Yield w2 returns) \<and> same_data w1 w2 \<and>
    inflate_loop iaa_env (replicate 16 7) 8 16 0 = Some (Inr out) \<and> get_bytes 32 w2 = Some res \<and>
    (\<forall>i < 3. load32 res (4 * i) = load32 (out @ drop (length out) (replicate 16 9)) (4 * nat ([2, 0, 2] ! i)))"
proof -
  have f: "stream_fits iaa_env (replicate 16 7) (replicate 16 9) 8 16" by (rule iaa_fits) simp_all
  show ?thesis
    using decomp_gather_offload_equals_core [of iaa_env iaa_arg gather_world "replicate 16 7" "replicate 16 9" "[2, 0, 2]" "replicate 64 0"]
    by (simp add: gather_world_blocks iaa_request(2-8) iaa_env_ok f)
qed

text \<open>C14: Whenever the request that copies and decompresses on the core returns, the request that lets
  the DSA copy returns too, and both leave the same data in memory.\<close>

theorem copy_on_device_equals_core:
  assumes "alone_request hw a w" and "device_copies hw"
    and "get_bytes (a_pre_proc_output a) w = Some s" and "get_bytes (a_ax_func_output a) w = Some b"
    and "a_pre_proc_input_size a < 2 ^ 32" and "a_pre_proc_input_size a \<le> length s" and "a_pre_proc_input_size a \<le> length b"
    and "memcpy_decomp_gpcore_gpcore_stamped hw a w = Some (Yield w1 returns)"
  shows "\<exists>w2. memcpy_decomp_axcore_gpcore_stamped hw a w = Some (Yield w2 returns) \<and> same_data w1 w2"
proof -
  have q: "env_ok hw" "alone (a_comp a) w" "a_comp a < length (crs w)" "kinds w (a_desc a) = Some KDesc"
    using assms(1) by (simp_all add: alone_request_def)
  obtain t0 t1 t2 t3 t4 where t: "stamps_of a = (t0, t1, t2, t3, t4)" by (cases "stamps_of a") auto
  have v: "generic_gpcore_three_phase_timed hw null_fn (a_pre_proc_input a) (a_pre_proc_output a) (a_pre_proc_input_size a)
      gpcore_do_memcpy (a_ax_func_output a) (a_max_axfunc_output_size a) (inflate_phase hw) (a_post_proc_output a) (a_post_proc_input_size a)
      (a_max_post_proc_output_size a) (t0, t1, t2, t3, t4) (a_id a) w = Some w1"
    using assms(8) by (auto simp: memcpy_decomp_gpcore_gpcore_stamped_def then_complete_def t
        complete_request_and_switch_to_scheduler_def bind_eq_Some_conv)
  have p: "null_fn (a_pre_proc_input a) (a_pre_proc_output a) (a_pre_proc_input_size a) None w = Some (Some (a_pre_proc_input_size a), w)"
    by (simp add: null_fn_def)
  have g: "device_copies hw \<and> a_pre_proc_input_size a < 2 ^ 32 \<and> a_pre_proc_input_size a \<le> length s \<and> a_pre_proc_input_size a \<le> length b"
    using assms(2,5-7) by blast
  from copy_inflate.timed [OF q p assms(3,4) g v] obtain u where
    u: "generic_blocking_three_phase_timed hw null_fn (a_pre_proc_input a) (a_pre_proc_output a) (a_pre_proc_input_size a)
      (prepare_dsa_memcpy_desc_with_preallocated_comp hw) (blocking_dsa_submit hw) (spin_on hw) (a_comp a) (a_desc a)
      (a_ax_func_output a) (a_max_axfunc_output_size a) (inflate_phase hw) (a_post_proc_output a) (a_post_proc_input_size a)
      (a_max_post_proc_output_size a) (t0, t1, t2, t3, t4) (a_id a) w = Some u" "same_data w1 u" by blast
  then show ?thesis by (simp add: memcpy_decomp_axcore_gpcore_stamped_def then_complete_def t
        complete_request_and_switch_to_scheduler_def)
qed

lemma copy_on_device_equals_core_witness:
  "\<exists>w1 w2. memcpy_decomp_gpcore_gpcore_stamped iaa_env iaa_arg dsa_world = Some (Yield w1 returns) \<and>
    memcpy_decomp_axcore_gpcore_stamped iaa_env iaa_arg dsa_world = Some (Yield w2 returns) \<and> same_data w1 w2"
proof -
  have "\<exists>w1. memcpy_decomp_gpcore_gpcore_stamped iaa_env iaa_arg dsa_world = Some (Yield w1 returns)"
    using iaa_inflate [of 16 64]
    by (simp add: memcpy_decomp_gpcore_gpcore_stamped_def iaa_arg_def sample_arg_def stamps_of_def generic_gpcore_three_phase_timed_def
        null_fn_def gpcore_do_memcpy_def memcpy_def inflate_phase_def gpcore_do_deflate_decompress_def Let_def stamp_def rdtsc_def arr_set_def
        dsa_world_def get_bytes_def set_bytes_def get_words_def sample_world_def sample_heap_def put_output_def then_complete_def
        complete_request_and_switch_to_scheduler_def)
  then show ?thesis
    using copy_on_device_equals_core [of iaa_env iaa_arg dsa_world "replicate 16 7" "replicate 16 9"]
    by (auto simp: iaa_request dsa_world_blocks iaa_env_ok)
qed

end
