(* ===== verification/Router_Harness.thy ===== *)
theory Router_Harness
  imports Harness_Clients Posting_List
begin

text \<open>
  The harnesses of \<open>src/router_requests.cpp\<close>: the tests of the router requests on the emulated
  accelerator, whose payloads are moved into the last level cache by DSA, and on the core, which
  parses serialized requests.  The local \<open>std::string query\<close> is a constant; the copy that the
  allocators get by value owns a buffer on the heap.
\<close>

section \<open>Payloads and requests\<close>

text \<open>The body of the loop: \<open>str\<close> is the buffer of the string \<open>q\<close>.\<close>

definition pre_deserialized_payload :: "env \<Rightarrow> ptr \<Rightarrow> nat \<Rightarrow> nat \<Rightarrow> world \<Rightarrow> (ptr \<times> world) option" where
  "pre_deserialized_payload hw str sz i w =
    do {
      let (buf, w) = malloc_bytes hw sz w;
      w \<leftarrow> memcpy buf str sz w;
      Some (buf, w)
    }"

definition allocate_pre_deserialized_payloads ::
  "env \<Rightarrow> nat \<Rightarrow> u8 list \<Rightarrow> world \<Rightarrow> ((ptr \<times> ptr list) \<times> world) option" where
  "allocate_pre_deserialized_payloads hw total_requests q w =
    do {
      let (str, w) = malloc (Bytes q) w;
      (dst_bufs, w) \<leftarrow> alloc_array (pre_deserialized_payload hw str (length q)) total_requests w;
      w \<leftarrow> mfree str w;
      Some (dst_bufs, w)
    }"

definition pre_deserialized_dsa_payload :: "env \<Rightarrow> ptr \<Rightarrow> nat \<Rightarrow> nat \<Rightarrow> world \<Rightarrow> (ptr \<times> world) option" where
  "pre_deserialized_dsa_payload hw str sz i w =
    do {
      let (buf, w) = malloc_bytes hw sz w;
      w \<leftarrow> dsa_llc_realloc hw buf str sz 0 w;
      Some (buf, w)
    }"

definition allocate_pre_deserialized_dsa_payloads ::
  "env \<Rightarrow> nat \<Rightarrow> u8 list \<Rightarrow> world \<Rightarrow> ((ptr \<times> ptr list) \<times> world) option" where
  "allocate_pre_deserialized_dsa_payloads hw total_requests q w =
    do {
      let (str, w) = malloc (Bytes q) w;
      (dst_bufs, w) \<leftarrow> alloc_array (pre_deserialized_dsa_payload hw str (length q)) total_requests w;
      w \<leftarrow> mfree str w;
      Some (dst_bufs, w)
    }"

text \<open>\<open>free(off_args[i]); free(dst_bufs[i]);\<close> for every request.\<close>

definition free_pairs :: "nat \<Rightarrow> offload_args list \<Rightarrow> ptr list \<Rightarrow> world \<Rightarrow> world option" where
  "free_pairs total_requests off_args dst_bufs =
    foldM (\<lambda>i w. do {
      a \<leftarrow> arr_get off_args (int i);
      b \<leftarrow> arr_get dst_bufs (int i);
      w \<leftarrow> mfree (a_self a) w;
      mfree b w
    }) [0..<total_requests]"

section \<open>The tests on the emulated accelerator\<close>

definition yielding_ax_router_closed_loop_test ::
  "env \<Rightarrow> nat \<Rightarrow> nat \<Rightarrow> ptr \<Rightarrow> int \<Rightarrow> world \<Rightarrow> unit outcome option" where
  "yielding_ax_router_closed_loop_test hw requests_sampling_interval total_requests exetime start_idx w =
    do {
      let (self, w) = malloc Opaque w;
      sampling_interval_completion_times \<leftarrow> sampling_array total_requests requests_sampling_interval;
      let w = reset_counter w;
      (dst_bufs, w) \<leftarrow> allocate_pre_deserialized_dsa_payloads hw total_requests query w;
      let (comps, w) = allocate_crs total_requests w;
      (off_args, w) \<leftarrow> allocate_offload_requests hw total_requests (snd dst_bufs) w;
      let (offload_req_xfer, w) = malloc Opaque w;
      let (off_req_state, w) = malloc Opaque w;
      (states, w) \<leftarrow> create_contexts total_requests w;
      after_run
        (execute_yielding_requests_closed_system_with_sampling hw (int requests_sampling_interval)
          (int total_requests) sampling_interval_completion_times (snd off_args) (no_xfers (int total_requests))
          (replicate total_requests (yielding_router_request hw)) exetime start_idx w)
        (\<lambda>w. do {
          w \<leftarrow> free_contexts states total_requests w;
          w \<leftarrow> mfree offload_req_xfer w;
          w \<leftarrow> free_crs comps w;
          w \<leftarrow> free_pairs total_requests (snd off_args) (snd dst_bufs) w;
          w \<leftarrow> mfree (fst off_args) w;
          w \<leftarrow> mfree (fst dst_bufs) w;
          mfree self w
        })
    }"

definition blocking_ax_router_closed_loop_test ::
  "env \<Rightarrow> nat \<Rightarrow> nat \<Rightarrow> ptr \<Rightarrow> int \<Rightarrow> world \<Rightarrow> unit outcome option" where
  "blocking_ax_router_closed_loop_test hw requests_sampling_interval total_requests exetime idx w =
    do {
      let (self, w) = malloc Opaque w;
      sampling_interval_completion_times \<leftarrow> sampling_array total_requests requests_sampling_interval;
      let w = reset_counter w;
      (dst_bufs, w) \<leftarrow> allocate_pre_deserialized_dsa_payloads hw total_requests query w;
      let (comps, w) = allocate_crs total_requests w;
      (off_args, w) \<leftarrow> allocate_offload_requests hw total_requests (snd dst_bufs) w;
      let (off_req_state, w) = malloc Opaque w;
      (states, w) \<leftarrow> create_contexts total_requests w;
      after_run
        (execute_blocking_requests_closed_system_with_sampling hw (int total_requests)
          sampling_interval_completion_times (snd off_args)
          (replicate total_requests (blocking_router_request hw)) exetime idx w)
        (\<lambda>w. do {
          w \<leftarrow> free_contexts states total_requests w;
          w \<leftarrow> free_crs comps w;
          w \<leftarrow> free_pairs total_requests (snd off_args) (snd dst_bufs) w;
          w \<leftarrow> mfree (fst off_args) w;
          w \<leftarrow> mfree (fst dst_bufs) w;
          mfree self w
        })
    }"

text \<open>The breakdown tests allocate the array of request structs, the time stamp arrays and then the
  structs.\<close>

definition yielding_ax_router_request_breakdown_closed_loop_test ::
  "env \<Rightarrow> nat \<Rightarrow> nat \<Rightarrow> ptr \<Rightarrow> ptr \<Rightarrow> ptr \<Rightarrow> int \<Rightarrow> world \<Rightarrow> unit outcome option" where
  "yielding_ax_router_request_breakdown_closed_loop_test hw requests_sampling_interval total_requests
      off_times yield_to_resume_times hash_times idx w =
    do {
      let (self, w) = malloc Opaque w;
      sampling_interval_completion_times \<leftarrow> sampling_array total_requests requests_sampling_interval;
      let w = reset_counter w;
      (dst_bufs, w) \<leftarrow> allocate_pre_deserialized_dsa_payloads hw total_requests query w;
      let (comps, w) = allocate_crs total_requests w;
      let (off_args_blk, w) = malloc Opaque w;
      let (ts0, w) = malloc_words hw total_requests w;
      let (ts1, w) = malloc_words hw total_requests w;
      let (ts2, w) = malloc_words hw total_requests w;
      let (ts3, w) = malloc_words hw total_requests w;
      (off_args, w) \<leftarrow> alloc_loop (allocate_timed_offload_request hw (snd dst_bufs) ts0 ts1 ts2 ts3) [0..<total_requests] w;
      let (offload_req_xfer, w) = malloc Opaque w;
      let (off_req_state, w) = malloc Opaque w;
      (states, w) \<leftarrow> create_contexts total_requests w;
      after_run
        (execute_yielding_requests_closed_system_request_breakdown_sampled hw (int requests_sampling_interval)
          (int total_requests) sampling_interval_completion_times off_args (no_xfers (int total_requests))
          (replicate total_requests (yielding_router_request_stamp hw))
          off_times yield_to_resume_times hash_times idx w)
        (\<lambda>w. do {
          w \<leftarrow> free_contexts states total_requests w;
          w \<leftarrow> mfree offload_req_xfer w;
          w \<leftarrow> free_crs comps w;
          w \<leftarrow> free_pairs total_requests off_args (snd dst_bufs) w;
          w \<leftarrow> mfree off_args_blk w;
          w \<leftarrow> mfree (fst dst_bufs) w;
          mfree self w
        })
    }"

definition blocking_ax_router_request_breakdown_test ::
  "env \<Rightarrow> nat \<Rightarrow> nat \<Rightarrow> ptr \<Rightarrow> ptr \<Rightarrow> ptr \<Rightarrow> int \<Rightarrow> world \<Rightarrow> unit outcome option" where
  "blocking_ax_router_request_breakdown_test hw requests_sampling_interval total_requests
      off_times wait_times hash_times idx w =
    do {
      let (self, w) = malloc Opaque w;
      sampling_interval_completion_times \<leftarrow> sampling_array total_requests requests_sampling_interval;
      let w = reset_counter w;
      (dst_bufs, w) \<leftarrow> allocate_pre_deserialized_dsa_payloads hw total_requests query w;
      let (comps, w) = allocate_crs total_requests w;
      let (off_args_blk, w) = malloc Opaque w;
      let (ts0, w) = malloc_words hw total_requests w;
      let (ts1, w) = malloc_words hw total_requests w;
      let (ts2, w) = malloc_words hw total_requests w;
      let (ts3, w) = malloc_words hw total_requests w;
      (off_args, w) \<leftarrow> alloc_loop (allocate_timed_offload_request hw (snd dst_bufs) ts0 ts1 ts2 ts3) [0..<total_requests] w;
      let (off_req_state, w) = malloc Opaque w;
      (states, w) \<leftarrow> create_contexts total_requests w;
      after_run
        (execute_blocking_requests_closed_system_request_breakdown_sampled hw (int total_requests)
          sampling_interval_completion_times off_args
          (replicate total_requests (blocking_router_request_stamp hw)) off_times wait_times hash_times idx w)
        (\<lambda>w. do {
          w \<leftarrow> free_contexts states total_requests w;
          w \<leftarrow> free_crs comps w;
          w \<leftarrow> free_pairs total_requests off_args (snd dst_bufs) w;
          w \<leftarrow> mfree off_args_blk w;
          w \<leftarrow> mfree (fst dst_bufs) w;
          mfree self w
        })
    }"

section \<open>The tests on the core\<close>

text \<open>\<open>serialize_request(req, serialized)\<close>: the fields that are set are constants.\<close>

definition serialize_request :: "env \<Rightarrow> ptr \<Rightarrow> ptr \<Rightarrow> world \<Rightarrow> world option" where
  "serialize_request hw req serialized w =
    do {
      _ \<leftarrow> heap w req;
      _ \<leftarrow> get_bytes serialized w;
      let value = map of_char ''bar'';
      Some (set_bytes serialized (serialize_put hw query value) w)
    }"

text \<open>A \<open>RouterRequest\<close> and a \<open>std::string\<close> with its serialization.\<close>

definition new_router_request :: "env \<Rightarrow> nat \<Rightarrow> world \<Rightarrow> ((ptr \<times> ptr) \<times> world) option" where
  "new_router_request hw i w =
    do {
      let (req, w) = malloc Opaque w;
      let (str, w) = malloc (Bytes []) w;
      w \<leftarrow> serialize_request hw req str w;
      Some ((req, str), w)
    }"

text \<open>The request structs; \<open>cpu_request_args\<close> (\<open>None\<close>) has no identifier and no time stamps.\<close>

definition alloc_cpu_arg ::
  "env \<Rightarrow> (ptr \<times> ptr) list \<Rightarrow> (ptr \<times> ptr \<times> ptr) option \<Rightarrow> nat \<Rightarrow> world \<Rightarrow> (cpu_args \<times> world) option" where
  "alloc_cpu_arg hw requests ts i w =
    do {
      let (self, w) = malloc Opaque w;
      r \<leftarrow> arr_get requests (int i);
      let g = (\<lambda>i. unat (garbage hw self i));
      let (id, ts0, ts1, ts2) = (case ts of None \<Rightarrow> (g 0, g 1, g 2, g 3) | Some (ts0, ts1, ts2) \<Rightarrow> (i, ts0, ts1, ts2));
      Some (\<lparr>c_self = self, c_request = fst r, c_serialized = snd r, c_id = id,
        c_ts0 = ts0, c_ts1 = ts1, c_ts2 = ts2\<rparr>, w)
    }"

text \<open>\<open>delete deserializeIntoThisRequest[i]; delete serializedMCReqStrings[i]; free(cpu_args[i]);\<close>\<close>

definition free_cpu_requests :: "nat \<Rightarrow> (ptr \<times> ptr) list \<Rightarrow> cpu_args list \<Rightarrow> world \<Rightarrow> world option" where
  "free_cpu_requests total_requests requests cpu_args =
    foldM (\<lambda>i w. do {
      r \<leftarrow> arr_get requests (int i);
      a \<leftarrow> arr_get cpu_args (int i);
      w \<leftarrow> mfree (fst r) w;
      w \<leftarrow> mfree (snd r) w;
      mfree (c_self a) w
    }) [0..<total_requests]"

definition cpu_router_closed_loop_test ::
  "env \<Rightarrow> nat \<Rightarrow> nat \<Rightarrow> ptr \<Rightarrow> int \<Rightarrow> world \<Rightarrow> unit outcome option" where
  "cpu_router_closed_loop_test hw requests_sampling_interval total_requests exetimes idx w =
    do {
      sampling_interval_completion_times \<leftarrow> sampling_array total_requests requests_sampling_interval;
      let (self, w) = malloc Opaque w;
      let (deserializeIntoThisRequest, w) = malloc Opaque w;
      let (serializedMCReqStrings, w) = malloc Opaque w;
      (requests, w) \<leftarrow> alloc_loop (new_router_request hw) [0..<total_requests] w;
      let (cpu_args_blk, w) = malloc Opaque w;
      (cpu_args, w) \<leftarrow> alloc_loop (alloc_cpu_arg hw requests None) [0..<total_requests] w;
      let (cpu_req_state, w) = malloc Opaque w;
      (states, w) \<leftarrow> create_contexts total_requests w;
      let w = reset_counter w;
      after_run
        (execute_cpu_requests_closed_system_with_sampling hw (int total_requests)
          sampling_interval_completion_times cpu_args (replicate total_requests (cpu_router_request hw)) exetimes idx w)
        (\<lambda>w. do {
          w \<leftarrow> free_contexts states total_requests w;
          w \<leftarrow> free_cpu_requests total_requests requests cpu_args w;
          w \<leftarrow> mfree cpu_args_blk w;
          w \<leftarrow> mfree deserializeIntoThisRequest w;
          w \<leftarrow> mfree serializedMCReqStrings w;
          mfree self w
        })
    }"

definition cpu_router_request_breakdown ::
  "env \<Rightarrow> nat \<Rightarrow> nat \<Rightarrow> ptr \<Rightarrow> ptr \<Rightarrow> int \<Rightarrow> world \<Rightarrow> unit outcome option" where
  "cpu_router_request_breakdown hw requests_sampling_interval total_requests deser_times hash_times idx w =
    do {
      sampling_interval_completion_times \<leftarrow> sampling_array total_requests requests_sampling_interval;
      let (self, w) = malloc Opaque w;
      let (deserializeIntoThisRequest, w) = malloc Opaque w;
      let (serializedMCReqStrings, w) = malloc Opaque w;
      (requests, w) \<leftarrow> alloc_loop (new_router_request hw) [0..<total_requests] w;
      let (ts0, w) = malloc_words hw total_requests w;
      let (ts1, w) = malloc_words hw total_requests w;
      let (ts2, w) = malloc_words hw total_requests w;
      let (cpu_args_blk, w) = malloc Opaque w;
      (cpu_args, w) \<leftarrow> alloc_loop (alloc_cpu_arg hw requests (Some (ts0, ts1, ts2))) [0..<total_requests] w;
      let (cpu_req_state, w) = malloc Opaque w;
      (states, w) \<leftarrow> create_contexts total_requests w;
      let w = reset_counter w;
      after_run
        (execute_cpu_requests_closed_system_request_breakdown hw (int total_requests)
          sampling_interval_completion_times cpu_args (replicate total_requests (cpu_router_request_stamp hw))
          deser_times hash_times idx w)
        (\<lambda>w. do {
          w \<leftarrow> free_contexts states total_requests w;
          w \<leftarrow> free_cpu_requests total_requests requests cpu_args w;
          w \<leftarrow> mfree cpu_args_blk w;
          w \<leftarrow> mfree deserializeIntoThisRequest w;
          w \<leftarrow> mfree serializedMCReqStrings w;
          mfree self w
        })
    }"

end
