(* ===== verification/Router_Supply.thy ===== *)
theory Router_Supply
  imports Router_Harness
begin

text \<open>
  What the tests of the router requests allocate: the payloads that DSA moves, the request structs
  with and without time stamps, and what of it is never freed.
\<close>

section \<open>Arrays with one freed block per element\<close>

context allocator
begin

lemma array_shape:
  assumes "array_good n arr F G K" and h: "\<And>i a F G. good i a F G K \<Longrightarrow> finite F \<and> h a \<in> F"
  shows "finite F" and "distinct (fst arr # map h (snd arr))" and "set (fst arr # map h (snd arr)) \<subseteq> F"
proof -
  from assms(1) obtain Fs Gs where g: "all_good [0..<n] (snd arr) Fs Gs K" "fst arr \<notin> \<Union>(set Fs)"
    "F = insert (fst arr) (\<Union>(set Fs))" unfolding array_good_def by blast
  have len: "length Fs = n" "length (snd arr) = n" and gi: "\<And>i. i < n \<Longrightarrow> good i (snd arr ! i) (Fs ! i) (Gs ! i) K"
    and d: "\<And>i j. i < j \<Longrightarrow> j < n \<Longrightarrow> Fs ! i \<inter> Fs ! j = {}" using g(1) by (simp_all add: all_good_def)
  have m: "finite (Fs ! i)" "h (snd arr ! i) \<in> Fs ! i" if "i < n" for i using h [OF gi [OF that]] by simp_all
  have U: "\<Union>(set Fs) = (\<Union>i<n. Fs ! i)" using len(1) by (auto simp: set_conv_nth)
  show "finite F" using g(3) U m(1) by simp
  have sub: "set (map h (snd arr)) \<subseteq> \<Union>(set Fs)" using m(2) len U by (fastforce simp: in_set_conv_nth)
  then show "set (fst arr # map h (snd arr)) \<subseteq> F" using g(3) by auto
  have "h (snd arr ! i) \<noteq> h (snd arr ! j)" if "i < j" "j < n" for i j
    using d [OF that] m(2) [of i] m(2) [of j] that by auto
  then have "distinct (map h (snd arr))" using len(2) by (auto simp: distinct_conv_nth nat_neq_iff)
  then show "distinct (fst arr # map h (snd arr))" using sub g(2) by auto
qed

lemma array_freed:
  assumes "array_good n arr F G K" and h: "\<And>i a F G. good i a F G K \<Longrightarrow> G = {h a}"
  shows "G = set (fst arr # map h (snd arr))"
proof -
  from assms(1) obtain Fs Gs where g: "all_good [0..<n] (snd arr) Fs Gs K" "G = insert (fst arr) (\<Union>(set Gs))"
    unfolding array_good_def by blast
  have "Gs = map (\<lambda>a. {h a}) (snd arr)"
  proof (rule nth_equalityI)
    show "Gs ! i = map (\<lambda>a. {h a}) (snd arr) ! i" if "i < length Gs" for i
    proof -
      have "good i (snd arr ! i) (Fs ! i) (Gs ! i) K" "i < length (snd arr)" using that g(1) by (simp_all add: all_good_def)
      with h [OF this(1)] show ?thesis by simp
    qed
  qed (use g(1) in \<open>simp add: all_good_def\<close>)
  then have "\<Union>(set Gs) = h ` set (snd arr)" by auto
  with g(2) show ?thesis by simp
qed

end

section \<open>The payloads\<close>

definition payload_good :: "nat \<Rightarrow> nat \<Rightarrow> ptr \<Rightarrow> ptr set \<Rightarrow> ptr set \<Rightarrow> (ptr \<Rightarrow> kind option) \<Rightarrow> bool" where
  "payload_good sz i p F G K \<longleftrightarrow> G = {p} \<and> p \<in> F \<and> p \<noteq> 0 \<and> K p = Some (KBytes sz) \<and> finite F \<and>
    1 \<le> card (F - G) \<and> card (F - G) \<le> 5"

definition string_at :: "ptr \<Rightarrow> u8 list \<Rightarrow> world \<Rightarrow> bool" where
  "string_at str q w \<longleftrightarrow> heap w str = Some (Bytes q) \<and> str < nxt w"

lemma dsa_payload_alloc:
  assumes "dml_ok hw" and "string_at str q w" and "fresh w"
  shows "\<exists>p w' F G. pre_deserialized_dsa_payload hw str (length q) i w = Some (p, w') \<and> grows F w w' \<and> calm w w' \<and>
    string_at str q w' \<and> payload_good (length q) i p F G (kinds w')"
proof -
  let ?p = "nxt w" and ?b = "map (garbage hw (nxt w)) [0..<length q]"
  let ?w1 = "w\<lparr>heap := (heap w)(?p \<mapsto> Bytes ?b), nxt := Suc ?p\<rparr>"
  have m: "malloc_bytes hw (length q) w = (?p, ?w1)" by (simp add: malloc_bytes_def malloc_def)
  have str: "heap w str = Some (Bytes q)" "str < ?p" "str \<noteq> ?p" using assms(2) by (auto simp: string_at_def)
  have "fresh ?w1" "heap ?w1 str = Some (Bytes q)" "heap ?w1 ?p = Some (Bytes ?b)" "str \<noteq> ?p" "length q = length ?b"
    using assms(3) str by (auto simp: fresh_def)
  from dsa_llc_realloc_bytes [OF assms(1) this] obtain w' J where
    r: "dsa_llc_realloc hw ?p str (length q) 0 ?w1 = Some w'" "calm ?w1 w'" "finite J" "0 < card J" "card J \<le> 5"
      "grows J (?w1\<lparr>heap := (heap ?w1)(?p \<mapsto> Bytes q)\<rparr>) w'" by auto
  let ?w2 = "?w1\<lparr>heap := (heap ?w1)(?p \<mapsto> Bytes q)\<rparr>"
  have g: "grows {?p} w ?w2" by (auto simp: grows_def)
  have pJ: "?p \<notin> J" using grows_disjoint [OF g r(6)] by simp
  have "kinds ?w2 ?p = Some (KBytes (length q))" by (simp add: kinds_def)
  then have k: "kinds w' ?p = Some (KBytes (length q))" using grows_kinds [OF r(6) pJ] by simp
  have "string_at str q w'"
  proof -
    have "str \<notin> J" using r(6) str(2) by (auto simp: grows_def)
    then have "heap w' str = heap ?w2 str" using r(6) by (simp add: grows_def)
    moreover have "?p < nxt w'" using r(6) by (auto simp: grows_def)
    ultimately show ?thesis using str by (simp add: string_at_def)
  qed
  moreover have "calm w w'" using r(2) by (simp add: calm_def)
  moreover have "payload_good (length q) i ?p ({?p} \<union> J) {?p} (kinds w')"
  proof -
    have "({?p} \<union> J) - {?p} = J" using pJ by auto
    with r(3-5) k assms(3) show ?thesis by (simp add: payload_good_def fresh_def)
  qed
  ultimately show ?thesis using grows_trans [OF g r(6)] r(1) m by (auto simp: pre_deserialized_dsa_payload_def)
qed

interpretation dsa_payloads: allocator "pre_deserialized_dsa_payload hw str (length q)" mfree "payload_good (length q)" "\<lambda>_. True"
    "\<lambda>w. dml_ok hw \<and> string_at str q w" for hw str q
proof
  fix i w assume "dml_ok hw \<and> string_at str q w" and "fresh w"
  then show "\<exists>a w' F G. pre_deserialized_dsa_payload hw str (length q) i w = Some (a, w') \<and> grows F w w' \<and> calm w w' \<and>
      (dml_ok hw \<and> string_at str q w') \<and> payload_good (length q) i a F G (kinds w')"
    using dsa_payload_alloc [of hw str q w i] by blast
next
  fix i :: nat and a F G K assume "payload_good (length q) i a F G K"
  then show "releases K G (mfree a)" using releases_mfree [of a K] by (simp add: payload_good_def)
next
  fix b w assume "dml_ok hw \<and> string_at str q w" "fresh w"
  then show "dml_ok hw \<and> string_at str q (snd (malloc b w))" by (auto simp: string_at_def malloc_def)
qed (auto simp: payload_good_def)

text \<open>The array of payloads; between one and five DML jobs per payload are left behind.\<close>

lemma dsa_payloads_ok:
  assumes "dml_ok hw" and "fresh w"
  shows "\<exists>arr w' F jobs. allocate_pre_deserialized_dsa_payloads hw n q w = Some (arr, w') \<and> grows F w w' \<and> calm w w' \<and>
    finite F \<and> distinct (fst arr # snd arr) \<and> set (fst arr # snd arr) \<subseteq> F \<and> length (snd arr) = n \<and>
    card (F - set (fst arr # snd arr)) = jobs \<and> n \<le> jobs \<and> jobs \<le> n * 5 \<and>
    (\<forall>p \<in> set (snd arr). kinds w' p = Some (KBytes (length q)))"
proof -
  let ?s = "nxt w"
  obtain w1 where m: "malloc (Bytes q) w = (?s, w1)" by (simp add: malloc_def)
  have s: "string_at ?s q w1" "fresh w1" using m assms(2) by (auto simp: string_at_def malloc_def fresh_def)
  from dsa_payloads.array_alloc [of n hw ?s q w1] assms(1) s obtain arr w2 F G where
    a: "alloc_array (pre_deserialized_dsa_payload hw ?s (length q)) n w1 = Some (arr, w2)" "grows F w1 w2" "calm w1 w2"
      "string_at ?s q w2" "dsa_payloads.array_good q n arr F G (kinds w2)" by blast
  have mem: "finite F' \<and> id p \<in> F'" "G' = {id p}" "finite F' \<and> 1 \<le> card (F' - G') \<and> card (F' - G') \<le> 5"
    if "payload_good (length q) i p F' G' (kinds w2)" for i p F' G' using that unfolding payload_good_def id_apply by blast+
  have sh: "finite F" "distinct (fst arr # snd arr)" "set (fst arr # snd arr) \<subseteq> F"
    using dsa_payloads.array_shape [OF a(5), of id, OF mem(1)] by (simp_all add: id_def)
  have G: "G = set (fst arr # snd arr)" using dsa_payloads.array_freed [OF a(5), of id, OF mem(2)] by (simp add: id_def)
  have lost: "n \<le> card (F - G)" "card (F - G) \<le> n * 5"
    using dsa_payloads.array_lost_bounds [OF a(5) mem(3)] by simp_all
  let ?w' = "w2\<lparr>heap := (heap w2)(?s := None)\<rparr>"
  have sF: "?s \<notin> F" using a(2) m by (auto simp: grows_def malloc_def)
  have free: "mfree ?s w2 = Some ?w'" using a(4) assms(2) by (simp add: mfree_def string_at_def fresh_def)
  have gr: "grows F w ?w'" unfolding grows_def
  proof (intro conjI ballI allI impI)
    show "nxt w \<le> nxt ?w'" using grows_nxt [OF a(2)] m by (auto simp: malloc_def)
    show "nxt w \<le> p" "p < nxt ?w'" "heap ?w' p \<noteq> None" if "p \<in> F" for p using a(2) m sF that by (auto simp: grows_def malloc_def)
    show "heap ?w' p = heap w p" if "p \<notin> F" for p
    proof (cases "p = ?s")
      case True
      with assms(2) show ?thesis by (simp add: fresh_def)
    next
      case False
      have "heap w2 p = heap w1 p" using that a(2) by (simp add: grows_def)
      with False m show ?thesis by (auto simp: malloc_def)
    qed
  qed
  have "calm w ?w'" using a(3) m by (auto simp: calm_def malloc_def)
  moreover have "kinds ?w' p = Some (KBytes (length q))" if "p \<in> set (snd arr)" for p
  proof -
    from dsa_payloads.array_nth [OF a(5)] that obtain i F' G' where "payload_good (length q) i p F' G' (kinds w2)"
      by (auto simp: in_set_conv_nth)
    moreover have "p \<noteq> ?s" using that sh(3) sF by auto
    ultimately show ?thesis by (simp add: payload_good_def kinds_def)
  qed
  moreover have "length (snd arr) = n" using dsa_payloads.array_nth [OF a(5)] by simp
  moreover have "allocate_pre_deserialized_dsa_payloads hw n q w = Some (arr, ?w')"
    using m a(1) free by (simp add: allocate_pre_deserialized_dsa_payloads_def)
  ultimately show ?thesis using gr sh lost unfolding G by (intro exI [of _ arr] exI [of _ ?w'] exI [of _ F] exI [of _ "card (F - G)"]) (simp add: G)
qed

section \<open>The request structs\<close>

text \<open>\<open>desc\<close> tells that the struct gets a descriptor, which is never freed.\<close>

definition struct_good ::
  "ptr list \<Rightarrow> stamps \<Rightarrow> bool \<Rightarrow> nat \<Rightarrow> offload_args \<Rightarrow> ptr set \<Rightarrow> ptr set \<Rightarrow> (ptr \<Rightarrow> kind option) \<Rightarrow> bool" where
  "struct_good bufs ts desc i a F G K \<longleftrightarrow> slot_args (length bufs) i a \<and> a_dst_payload a = bufs ! i \<and> has_ts ts a \<and>
    G = {a_self a} \<and> F = (if desc then {a_self a, a_desc a} else {a_self a}) \<and> (desc \<longrightarrow> a_desc a \<noteq> a_self a) \<and>
    a_self a \<noteq> 0 \<and> K (a_self a) = Some KOpaque"

lemma struct_good_pair:
  "struct_good bufs ts desc i a F G K \<Longrightarrow> releases K G (mfree (a_self a))"
  "struct_good bufs ts desc i a F G K \<Longrightarrow> G \<subseteq> F"
  "struct_good bufs ts desc i a F G K \<Longrightarrow> \<forall>p \<in> F. K' p = K p \<Longrightarrow> struct_good bufs ts desc i a F G K'"
  "struct_good bufs ts desc i a F G K \<Longrightarrow> finite F \<and> a_self a \<in> F"
  "struct_good bufs ts desc i a F G K \<Longrightarrow> finite F \<and> card (F - G) = (if desc then 1 else 0)"
  "struct_good bufs ts desc i a F G K \<Longrightarrow> G = {a_self a}"
  using releases_mfree [of "a_self a" K] by (auto simp: struct_good_def)

lemma uninit_args_ids [simp]:
  "a_desc ((uninit_args hw p)\<lparr>a_desc := d, a_comp := i, a_dst_payload := b, a_id := j\<rparr>) = d"
  by simp

interpretation offload_structs: allocator "allocate_offload_request hw bufs" "\<lambda>a. mfree (a_self a)" "struct_good bufs None True"
    "\<lambda>i. i < length bufs" "\<lambda>_. True" for hw bufs
proof
  fix i w assume i: "i < length bufs" and "fresh w"
  let ?a = "(uninit_args hw (nxt w))\<lparr>a_desc := Suc (nxt w), a_comp := i, a_dst_payload := bufs ! i, a_id := i\<rparr>"
  let ?w = "put_blocks w [Opaque, Desc (uninit_desc hw (Suc (nxt w)))]"
  have "allocate_offload_request hw bufs i w = Some (?a, ?w)"
    using i by (simp add: allocate_offload_request_def malloc_desc_def malloc_first put_put arr_get_nat)
  moreover have "grows {nxt w, Suc (nxt w)} w ?w" "calm w ?w"
    using grows_put [of w "[Opaque, Desc (uninit_desc hw (Suc (nxt w)))]"] by (simp_all add: atLeastLessThanSuc insert_commute)
  moreover have "struct_good bufs None True i ?a {nxt w, Suc (nxt w)} {nxt w} (kinds ?w)"
    using i \<open>fresh w\<close> kinds_put [of 0 "[Opaque, Desc (uninit_desc hw (Suc (nxt w)))]" w]
    by (simp add: struct_good_def slot_args_def has_ts_def fresh_def)
  ultimately show "\<exists>a w' F G. allocate_offload_request hw bufs i w = Some (a, w') \<and> grows F w w' \<and> calm w w' \<and> True \<and>
      struct_good bufs None True i a F G (kinds w')" by blast
qed (rule TrueI | erule struct_good_pair | (erule struct_good_pair(3), assumption))+

interpretation timed_structs: allocator "allocate_timed_offload_request hw bufs t0 t1 t2 t3" "\<lambda>a. mfree (a_self a)"
    "struct_good bufs (Some (t0, t1, t2, t3)) False" "\<lambda>i. i < length bufs" "\<lambda>_. True" for hw bufs t0 t1 t2 t3
proof
  fix i w assume i: "i < length bufs" and "fresh w"
  let ?a = "set_ts (Some (t0, t1, t2, t3)) ((uninit_args hw (nxt w))\<lparr>a_comp := i, a_dst_payload := bufs ! i, a_id := i\<rparr>)"
  let ?w = "put_blocks w [Opaque]"
  have "allocate_timed_offload_request hw bufs t0 t1 t2 t3 i w = Some (?a, ?w)"
    using i by (simp add: allocate_timed_offload_request_def malloc_first arr_get_nat)
  moreover have "grows {nxt w} w ?w" "calm w ?w" using grows_put [of w "[Opaque]"] by simp_all
  moreover have "struct_good bufs (Some (t0, t1, t2, t3)) False i ?a {nxt w} {nxt w} (kinds ?w)"
    using i \<open>fresh w\<close> kinds_put [of 0 "[Opaque]" w] by (simp add: struct_good_def slot_args_def has_ts_def fresh_def)
  ultimately show "\<exists>a w' F G. allocate_timed_offload_request hw bufs t0 t1 t2 t3 i w = Some (a, w') \<and> grows F w w' \<and> calm w w' \<and>
      True \<and> struct_good bufs (Some (t0, t1, t2, t3)) False i a F G (kinds w')" by blast
qed (rule TrueI | erule struct_good_pair | (erule struct_good_pair(3), assumption))+

text \<open>What the tests need of the way in which they build the structs from the payloads; \<open>lost\<close> of the
  blocks are never freed.\<close>

locale router_supply =
  fixes mk :: "ptr list \<Rightarrow> world \<Rightarrow> ((ptr \<times> offload_args list) \<times> world) option" and n lost :: nat
    and serves :: "shape \<Rightarrow> offload_args list \<Rightarrow> bool"
  assumes mk_ok: "length bufs = n \<Longrightarrow> fresh w \<Longrightarrow> \<exists>arr w' F. mk bufs w = Some (arr, w') \<and> grows F w w' \<and> calm w w' \<and> finite F \<and>
      distinct (fst arr # map a_self (snd arr)) \<and> set (fst arr # map a_self (snd arr)) \<subseteq> F \<and>
      card (F - set (fst arr # map a_self (snd arr))) = lost \<and> length (snd arr) = n \<and>
      (\<forall>K. (\<forall>p \<in> F. blocks K p = kinds w' p) \<longrightarrow> (\<forall>p \<in> set bufs. blocks K p = Some (KBytes (length query))) \<longrightarrow> serves K (snd arr))"

definition router_structs :: "bool \<Rightarrow> nat \<Rightarrow> shape \<Rightarrow> offload_args list \<Rightarrow> bool" where
  "router_structs timed n K args \<longleftrightarrow> length args = n \<and> (\<forall>i < n. slot_args n i (args ! i) \<and>
    buffer_of K (a_dst_payload (args ! i)) query_size \<and> (timed \<longrightarrow> timed_args K n (args ! i)))"

lemma length_query [simp]: "length query = query_size"
  by (simp add: query_def query_size_def)

lemma struct_payload:
  assumes "struct_good bufs ts desc i a F G K'" and "\<forall>p \<in> set bufs. blocks K p = Some (KBytes (length query))"
  shows "slot_args (length bufs) i a" and "buffer_of K (a_dst_payload a) query_size" and "has_ts ts a"
  using assms by (auto simp: struct_good_def buffer_of_def slot_args_def)

interpretation plain_supply: router_supply "allocate_offload_requests hw n" n n "router_structs False n" for hw n
proof
  fix bufs :: "ptr list" and w assume b: "length bufs = n" and w: "fresh w"
  from offload_structs.array_alloc [of n bufs w hw] b w obtain arr w' F G where
    a: "alloc_array (allocate_offload_request hw bufs) n w = Some (arr, w')" "grows F w w'" "calm w w'"
      "offload_structs.array_good bufs n arr F G (kinds w')" by auto
  have sh: "finite F" "distinct (fst arr # map a_self (snd arr))" "set (fst arr # map a_self (snd arr)) \<subseteq> F"
    by (rule offload_structs.array_shape [OF a(4)], erule struct_good_pair)+
  have G: "G = set (fst arr # map a_self (snd arr))" by (rule offload_structs.array_freed [OF a(4)], erule struct_good_pair)
  have "card (F - G) = n * (if True then 1 else 0)" by (rule offload_structs.array_lost [OF a(4)], erule struct_good_pair)
  then have lost: "card (F - G) = n" by simp
  have "router_structs False n K (snd arr)" if "\<forall>p \<in> set bufs. blocks K p = Some (KBytes (length query))" for K
    using offload_structs.array_nth [OF a(4)] struct_payload [OF _ that] b by (fastforce simp: router_structs_def)
  then show "\<exists>arr w' F. allocate_offload_requests hw n bufs w = Some (arr, w') \<and> grows F w w' \<and> calm w w' \<and> finite F \<and>
      distinct (fst arr # map a_self (snd arr)) \<and> set (fst arr # map a_self (snd arr)) \<subseteq> F \<and>
      card (F - set (fst arr # map a_self (snd arr))) = n \<and> length (snd arr) = n \<and>
      (\<forall>K. (\<forall>p \<in> F. blocks K p = kinds w' p) \<longrightarrow> (\<forall>p \<in> set bufs. blocks K p = Some (KBytes (length query))) \<longrightarrow>
        router_structs False n K (snd arr))"
    using a(1-3) sh lost offload_structs.array_nth [OF a(4)] unfolding allocate_offload_requests_def G by blast
qed

text \<open>The breakdown tests, which also lose the time stamp arrays.\<close>

definition stamped_structs :: "env \<Rightarrow> nat \<Rightarrow> ptr list \<Rightarrow> world \<Rightarrow> ((ptr \<times> offload_args list) \<times> world) option" where
  "stamped_structs hw n dst_bufs w =
    do {
      let (off_args_blk, w) = malloc Opaque w;
      let (ts0, w) = malloc_words hw n w;
      let (ts1, w) = malloc_words hw n w;
      let (ts2, w) = malloc_words hw n w;
      let (ts3, w) = malloc_words hw n w;
      (off_args, w) \<leftarrow> alloc_loop (allocate_timed_offload_request hw dst_bufs ts0 ts1 ts2 ts3) [0..<n] w;
      Some ((off_args_blk, off_args), w)
    }"

interpretation stamped_supply: router_supply "stamped_structs hw n" n 4 "router_structs True n" for hw n
proof
  fix bufs :: "ptr list" and w assume b: "length bufs = n" and w: "fresh w"
  let ?p = "nxt w" and ?w1 = "put_blocks w [Opaque]"
  let ?ts = "[fresh_words hw n (?p + 1), fresh_words hw n (?p + 2), fresh_words hw n (?p + 3), fresh_words hw n (?p + 4)]"
  let ?w2 = "put_blocks ?w1 ?ts" and ?I = "{?p + 1..<?p + 5}"
  have I: "grows ?I ?w1 ?w2" using grows_put(1) [of ?w1 ?ts] by (simp add: eval_nat_numeral)
  have m: "malloc Opaque w = (?p, ?w1)" by (rule malloc_first)
  from timed_structs.array_around [of n bufs w ?p ?w1 ?I ?w2 hw "?p + 1" "?p + 2" "?p + 3" "?p + 4"] b w m I obtain as w3 F G where
    a: "alloc_loop (allocate_timed_offload_request hw bufs (?p + 1) (?p + 2) (?p + 3) (?p + 4)) [0..<n] ?w2 = Some (as, w3)"
      "grows (?I \<union> F) w w3" "?I \<inter> F = {}" "calm ?w2 w3"
      "timed_structs.array_good bufs (?p + 1) (?p + 2) (?p + 3) (?p + 4) n (?p, as) F G (kinds w3)" "\<forall>p \<in> ?I. kinds w3 p = kinds ?w2 p" by auto
  have sh: "finite F" "distinct (fst (?p, as) # map a_self (snd (?p, as)))" "set (fst (?p, as) # map a_self (snd (?p, as))) \<subseteq> F"
    by (rule timed_structs.array_shape [OF a(5)], erule struct_good_pair)+
  have G: "G = set (fst (?p, as) # map a_self (snd (?p, as)))" by (rule timed_structs.array_freed [OF a(5)], erule struct_good_pair)
  have "card (F - G) = n * (if False then 1 else 0)" by (rule timed_structs.array_lost [OF a(5)], erule struct_good_pair)
  then have FG: "F - G = {}" using sh(1) by simp
  have len: "length as = n" using timed_structs.array_nth [OF a(5)] by simp
  have ik: "kinds ?w2 (Suc ?p) = Some (KWords n)" "kinds ?w2 (Suc (Suc ?p)) = Some (KWords n)"
    "kinds ?w2 (Suc (Suc (Suc ?p))) = Some (KWords n)" "kinds ?w2 (Suc (Suc (Suc (Suc ?p)))) = Some (KWords n)"
    using kinds_put [of 0 ?ts ?w1] kinds_put [of 1 ?ts ?w1] kinds_put [of 2 ?ts ?w1] kinds_put [of 3 ?ts ?w1]
    by (simp_all add: eval_nat_numeral)
  have "?I \<union> F - G = ?I" using FG a(3) G sh(3) by blast
  then have c: "card (?I \<union> F - G) = 4" by simp
  have calm: "calm w w3" using a(4) by (simp add: calm_def)
  have "router_structs True n K as" if k: "\<forall>p \<in> ?I \<union> F. blocks K p = kinds w3 p"
    and q: "\<forall>p \<in> set bufs. blocks K p = Some (KBytes (length query))" for K
    unfolding router_structs_def
  proof (intro conjI allI impI len)
    fix i assume "i < n"
    then obtain F' G' where g: "struct_good bufs (Some (?p + 1, ?p + 2, ?p + 3, ?p + 4)) False i (as ! i) F' G' (kinds w3)"
      using timed_structs.array_nth [OF a(5)] by auto
    show "slot_args n i (as ! i)" "buffer_of K (a_dst_payload (as ! i)) query_size"
      using struct_payload(1,2) [OF g q] b by simp_all
    have "blocks K (?p + 1) = Some (KWords n)" "blocks K (?p + 2) = Some (KWords n)" "blocks K (?p + 3) = Some (KWords n)"
      "blocks K (?p + 4) = Some (KWords n)" using k a(6) ik by (simp_all add: eval_nat_numeral)
    with struct_payload(3) [OF g q] show "timed_args K n (as ! i)" by (simp add: timed_args_def has_ts_def)
  qed
  moreover have "stamped_structs hw n bufs w = Some ((?p, as), w3)"
    using a(1) by (simp add: stamped_structs_def malloc_first malloc_words_def put_put eval_nat_numeral)
  ultimately show "\<exists>arr w' F. stamped_structs hw n bufs w = Some (arr, w') \<and> grows F w w' \<and> calm w w' \<and> finite F \<and>
      distinct (fst arr # map a_self (snd arr)) \<and> set (fst arr # map a_self (snd arr)) \<subseteq> F \<and>
      card (F - set (fst arr # map a_self (snd arr))) = 4 \<and> length (snd arr) = n \<and>
      (\<forall>K. (\<forall>p \<in> F. blocks K p = kinds w' p) \<longrightarrow> (\<forall>p \<in> set bufs. blocks K p = Some (KBytes (length query))) \<longrightarrow>
        router_structs True n K (snd arr))"
    using a(2) sh c calm len unfolding G
    by (intro exI [of _ "(?p, as)"] exI [of _ w3] exI [of _ "?I \<union> F"]) auto
qed

section \<open>A test, from the allocation to the teardown\<close>

lemma releases_pairs:
  assumes "length args = n" and "length bufs = n" and "distinct (map a_self args @ bufs)" and "0 \<notin> set (map a_self args @ bufs)"
    and "\<forall>p \<in> set (map a_self args @ bufs). K p \<noteq> None"
  shows "releases K (set (map a_self args @ bufs)) (free_pairs n args bufs)"
proof -
  let ?D = "\<lambda>i. {a_self (args ! i), bufs ! i}"
  let ?f = "\<lambda>i w. Option.bind (arr_get args (int i)) (\<lambda>a. Option.bind (arr_get bufs (int i)) (\<lambda>b. Option.bind (mfree (a_self a) w) (mfree b)))"
  have i: "a_self (args ! i) \<in> set (map a_self args @ bufs)" "bufs ! i \<in> set (map a_self args @ bufs)" if "i < n" for i
    using that assms(1,2) by simp_all
  have d: "a_self (args ! i) \<noteq> bufs ! j" if "i < n" "j < n" for i j using that assms(1-3) by (metis disjoint_iff distinct_append length_map nth_map nth_mem)
  have dd: "a_self (args ! i) \<noteq> a_self (args ! j)" "bufs ! i \<noteq> bufs ! j" if "i < n" "j < n" "i \<noteq> j" for i j
    using that assms(1-3) nth_eq_iff_index_eq [of "map a_self args" i j] by (auto simp: nth_eq_iff_index_eq)
  have "releases K (\<Union>i \<in> set [0..<n]. ?D i) (foldM ?f [0..<n])"
  proof (rule releases_foldM)
    fix i assume "i \<in> set [0..<n]"
    then have n: "i < n" by simp
    have r: "releases K {a_self (args ! i)} (mfree (a_self (args ! i)))" "releases K {bufs ! i} (mfree (bufs ! i))"
      using i [OF n] assms(4,5) by (intro releases_mfree; metis)+
    have "releases K ({a_self (args ! i)} \<union> {bufs ! i}) (\<lambda>w. Option.bind (mfree (a_self (args ! i)) w) (mfree (bufs ! i)))"
      by (rule releases_bind [OF r]) (use d [OF n n] in simp)
    with n assms(1,2) show "releases K (?D i) (?f i)" by (simp add: arr_get_nat insert_commute)
  next
    show "?D ([0..<n] ! i) \<inter> ?D ([0..<n] ! j) = {}" if "i < j" "j < length [0..<n]" for i j
      using that d [of i j] d [of j i] dd [of i j] by auto
  qed
  moreover have "map (\<lambda>i. a_self (args ! i)) [0..<n] = map a_self args" "map ((!) bufs) [0..<n] = bufs"
    using assms(1,2) by (auto intro: nth_equalityI)
  then have "set (map (\<lambda>i. a_self (args ! i)) [0..<n]) \<union> set (map ((!) bufs) [0..<n]) = set (map a_self args @ bufs)" by simp
  then have "(\<Union>i \<in> set [0..<n]. ?D i) = set (map a_self args @ bufs)" unfolding set_map by auto
  ultimately show ?thesis by (simp add: free_pairs_def)
qed

context router_supply
begin

lemma run_router:
  assumes "dml_ok hw" and "fresh w"
    and exec: "\<And>K args w1. serves K args \<Longrightarrow> ready_world K n 0 w1 \<Longrightarrow> (\<forall>p < nxt w. blocks K p = kinds w p) \<Longrightarrow>
      \<exists>w8. exec args w1 = Some (Done w8 ()) \<and> served K n 0 [0..<n] w1 w8"
    and js: "distinct js" "\<forall>i \<in> set js. i < j"
  shows "\<exists>bufs w2 arr w3 w' jobs. allocate_pre_deserialized_dsa_payloads hw n query (reset_counter (put_blocks w [Opaque])) = Some (bufs, w2) \<and>
    mk (snd bufs) (snd (allocate_crs n w2)) = Some (arr, w3) \<and>
    after_run (exec (snd arr) (put_blocks w3 (replicate j Opaque @ replicate n Opaque)))
      (teardown (freed_suffix n j js (nxt w3)) (nxt w2) (free_pairs n (snd arr) (snd bufs)) [fst arr, fst bufs, nxt w]) = Some (Done w' ()) \<and>
    harness_done n [0..<n] (jobs + lost + (j - length js)) w w' \<and> n \<le> jobs \<and> jobs \<le> n * 5"
proof -
  let ?w1 = "reset_counter (put_blocks w [Opaque])" and ?cs = "replicate j Opaque @ replicate n Opaque"
  have f1: "fresh ?w1" using assms(2) by (auto simp: fresh_def reset_counter_def put_blocks_def)
  have g1: "grows {nxt w} w ?w1" using grows_put(1) [of w "[Opaque]"] by (simp add: grows_def reset_counter_def)
  from dsa_payloads_ok [OF assms(1) f1, of n query] obtain bufs w2 P jobs where
    2: "allocate_pre_deserialized_dsa_payloads hw n query ?w1 = Some (bufs, w2)" "grows P ?w1 w2" "calm ?w1 w2" "finite P"
      "distinct (fst bufs # snd bufs)" "set (fst bufs # snd bufs) \<subseteq> P" "length (snd bufs) = n"
      "card (P - set (fst bufs # snd bufs)) = jobs" "n \<le> jobs" "jobs \<le> n * 5"
      "\<forall>p \<in> set (snd bufs). kinds w2 p = Some (KBytes (length query))" by blast
  let ?wc = "snd (allocate_crs n w2)" and ?c = "nxt w2"
  have f2: "fresh w2" by (rule grows_fresh [OF 2(2) f1])
  have gc: "grows {?c} w2 ?wc" by (auto simp: allocate_crs_def malloc_def grows_def)
  from mk_ok [OF 2(7) grows_fresh [OF gc f2]] obtain arr w3 A where
    3: "mk (snd bufs) ?wc = Some (arr, w3)" "grows A ?wc w3" "calm ?wc w3" "finite A" "distinct (fst arr # map a_self (snd arr))"
      "set (fst arr # map a_self (snd arr)) \<subseteq> A" "card (A - set (fst arr # map a_self (snd arr))) = lost" "length (snd arr) = n"
      "\<forall>K. (\<forall>p \<in> A. blocks K p = kinds w3 p) \<longrightarrow> (\<forall>p \<in> set (snd bufs). blocks K p = Some (KBytes (length query))) \<longrightarrow> serves K (snd arr)"
    by blast
  let ?w4 = "put_blocks w3 ?cs" and ?S = "{nxt w3..<nxt w3 + length ?cs}"
  let ?xs = "freed_suffix n j js (nxt w3)" and ?ys = "[fst arr, fst bufs, nxt w]"
  let ?G = "set (map a_self (snd arr) @ snd bufs)"
  let ?D = "set ?xs \<union> ({?c} \<union> (?G \<union> set ?ys))"
  have g4: "grows ?S w3 ?w4" by (rule grows_put)
  let ?U = "{nxt w} \<union> P \<union> {?c} \<union> A \<union> ?S"
  have U: "grows ?U w ?w4"
    using grows_trans [OF grows_trans [OF grows_trans [OF grows_trans [OF g1 2(2)] gc] 3(2)] g4] .
  have wn: "nxt ?w1 = Suc (nxt w)" "nxt ?wc = Suc ?c" by (simp_all add: reset_counter_def allocate_crs_def malloc_def)
  have P: "P \<subseteq> {Suc (nxt w)..<?c}" "A \<subseteq> {Suc ?c..<nxt w3}" "Suc (nxt w) \<le> ?c" "Suc ?c \<le> nxt w3" "0 < nxt w"
    using 2(2) 3(2) wn assms(2) by (auto simp: grows_def fresh_def)
  note sub = 2(6) 3(6)
  note sx = freed_suffix_ok [OF js, of ?cs n "nxt w3", simplified length_append length_replicate, OF refl]
  have dj: "P \<inter> A = {}" "P \<inter> ?S = {}" "A \<inter> ?S = {}" "nxt w \<notin> P \<union> A \<union> ?S \<union> {?c}" "?c \<notin> P \<union> A \<union> ?S"
    using P by fastforce+
  have dist: "distinct (map a_self (snd arr) @ snd bufs)"
    unfolding distinct_append using 2(5) 3(5) sub dj(1) by (simp, blast)
  have k: "kinds ?w4 p = kinds w2 p" if "p < ?c" for p
  proof -
    have "p \<notin> A" "p \<notin> {?c}" using P(2) that by auto
    then have "kinds w3 p = kinds ?wc p" using grows_kinds [OF 3(2)] by blast
    moreover have "kinds ?wc p = kinds w2 p" using grows_kinds [OF gc \<open>p \<notin> {?c}\<close>] .
    moreover have "kinds ?w4 p = kinds w3 p" by (rule grows_kinds_below [OF g4]) (use that P in simp)
    ultimately show ?thesis by simp
  qed
  have kw: "\<forall>p < nxt w. blocks (shape ?w4) p = kinds w p"
    using grows_kinds_below [OF U] by simp
  have nz: "0 \<notin> ?U" using grows_nonzero [OF U assms(2)] by blast
  have al: "kinds ?w4 p \<noteq> None" if "p \<in> ?U" for p using U that by (auto simp: grows_def kinds_def)
  have DU: "?D \<subseteq> ?U" using sub sx(2) by auto
  have "serves (shape ?w4) (snd arr)"
  proof (rule 3(9) [rule_format])
    show "blocks (shape ?w4) p = kinds w3 p" if "p \<in> A" for p
      using grows_kinds_below [OF g4, of p] P(2) that by auto
    show "blocks (shape ?w4) p = Some (KBytes (length query))" if "p \<in> set (snd bufs)" for p
      using k [of p] 2(6,11) P(1) that by auto
  qed
  moreover have "ready_world (shape ?w4) n 0 ?w4"
    using 2(3) 3(3) by (simp add: ready_world_def calm_def reset_counter_def allocate_crs_def malloc_def)
  ultimately obtain w8 where 8: "exec (snd arr) ?w4 = Some (Done w8 ())" "served (shape ?w4) n 0 [0..<n] ?w4 w8"
    using exec kw by blast
  have fg: "frees_in True (shape ?w4) ?G (free_pairs n (snd arr) (snd bufs))"
  proof (rule frees_inI [OF releases_pairs [OF 3(8) 2(7) dist]])
    have "?G \<subseteq> ?U" using DU by blast
    then show "0 \<notin> ?G" "\<forall>p \<in> ?G. blocks (shape ?w4) p \<noteq> None" using nz al unfolding shape_sel by blast+
  qed
  have td: "frees_in True (shape ?w4) ?D (teardown ?xs ?c (free_pairs n (snd arr) (snd bufs)) ?ys)"
  proof (rule teardown_ok [OF fg])
    have "fst arr \<in> A" "fst bufs \<in> P" using sub by auto
    then have "fst arr \<noteq> fst bufs" "distinct ?ys" "set ?ys \<inter> ?S = {}" "?c \<notin> set ?ys" using dj by auto
    moreover have "?c \<notin> set ?xs" using sx(2) dj(5) by auto
    ultimately show "distinct (?c # ?xs @ ?ys)" using sx(1,2) by auto
    have "set (?c # ?xs @ ?ys) \<subseteq> ?U" using DU by auto
    then show "0 \<notin> set (?c # ?xs @ ?ys)" "\<forall>p \<in> set (?c # ?xs @ ?ys). blocks (shape ?w4) p \<noteq> None"
      using nz al unfolding shape_sel by blast+
    show "?G \<inter> set (?c # ?xs @ ?ys) = {}" 
    proof -
      have "?G \<inter> ?S = {}" "?c \<notin> ?G" "nxt w \<notin> ?G" using sub dj by auto
      moreover have "fst arr \<notin> ?G" "fst bufs \<notin> ?G" using 2(5) 3(5) sub dj(1) by auto
      ultimately show ?thesis using sx(2) by auto
    qed
  qed
  have "?U - ?D = (P - set (fst bufs # snd bufs)) \<union> (A - set (fst arr # map a_self (snd arr))) \<union> (?S - set ?xs)"
    using sub sx(2) dj by auto
  moreover have "card \<dots> = jobs + lost + (j - length js)"
  proof -
    have "(P - set (fst bufs # snd bufs)) \<inter> (A - set (fst arr # map a_self (snd arr))) = {}"
      "((P - set (fst bufs # snd bufs)) \<union> (A - set (fst arr # map a_self (snd arr)))) \<inter> (?S - set ?xs) = {}"
      using dj(1-3) by auto
    with 2(4,8) 3(4,7) sx(3) show ?thesis by (simp only: card_Un_disjoint finite_Un finite_Diff finite_atLeastLessThan simp_thms
        length_append length_replicate)
  qed
  ultimately have c: "card (?U - ?D) = jobs + lost + (j - length js)" by simp
  have "obs ?w4 = obs w" using 2(3) 3(3) by (simp add: calm_def reset_counter_def allocate_crs_def malloc_def)
  from harness_frame [OF assms(2) U this 8(2) td DU c, where x = "()"] obtain w' where
    "after_run (Some (Done w8 ())) (teardown ?xs ?c (free_pairs n (snd arr) (snd bufs)) ?ys) = Some (Done w' ())"
    "harness_done n [0..<n] (jobs + lost + (j - length js)) w w'" by (elim exE conjE) (rule that)
  then have "after_run (exec (snd arr) ?w4) (teardown ?xs ?c (free_pairs n (snd arr) (snd bufs)) ?ys) = Some (Done w' ())"
    "harness_done n [0..<n] (jobs + lost + (j - length js)) w w'" by (simp_all only: 8(1))
  with 2(1,9,10) 3(1) show ?thesis by (intro exI conjI)
qed

end

end
