(* ===== verification/Router_Tests.thy ===== *)
theory Router_Tests
  imports Router_Supply
begin

text \<open>
  Whole tests of the router requests, on the emulated accelerator and on the core.
\<close>

section \<open>Contracts of the stamped requests\<close>

lemma yielding_router_stamp_contract:
  assumes "env_ok hw" and "test_ok hw complete" and "\<And>k. \<not> busy hw k" and "router_run_args K n args" and "timed_run_args K n args"
  shows "yielding_offloads hw K n complete (replicate n (yielding_router_request_stamp hw)) args"
proof -
  have "yielding_requests hw K n complete (replicate n (yielding_router_request_stamp hw)) args"
    using assms by (intro yielding_contract yielding_router_request_stamp_entry)
      (auto simp: router_run_args_def timed_run_args_def)
  with assms(4) show ?thesis
    by (simp add: yielding_offloads_def yielding_offloads_axioms_def router_run_args_def)
qed

lemma blocking_router_stamp_contract:
  assumes "env_ok hw" and "test_ok hw complete" and "\<And>k. \<not> busy hw k" and "router_run_args K n args" and "timed_run_args K n args"
  shows "blocking_offloads K n (replicate n (blocking_router_request_stamp hw)) args (\<lambda>i. [i])"
proof -
  have "blocking_requests K n (replicate n (blocking_router_request_stamp hw)) args (\<lambda>i. [i])"
    using assms by (intro blocking_contract [where complete = complete and hw = hw]
        blocking_router_request_stamp_run) (auto simp: router_run_args_def timed_run_args_def)
  with assms(4) show ?thesis
    by (simp add: blocking_offloads_def blocking_offloads_axioms_def router_run_args_def)
qed

context yielding_offloads
begin

lemma yielding_breakdown_sampled:
  assumes c: "complete = is_completed" and "ready_world K n 0 w" and "0 < q" and "length stamps = Suc (n div q)"
    and "length xfers = n" and "two_phase_arrays K n (hd args) off wt hash idx"
  shows "\<exists>w'. execute_yielding_requests_closed_system_request_breakdown_sampled hw (int q) (int n) stamps args xfers ctxs
      off wt hash (int idx) w = Some (Done w' ()) \<and> all_served K n 0 w w'"
proof -
  let ?ts = "stamps[0 := Some (tsc hw (tscs w))]"
  have S0: "sampled q (Suc (n div q)) 0 (?ts, 1)" using assms(4) by (simp add: sampled_def nth_list_update)
  obtain w1 smp where l: "yielding_loop hw (requests_left (int n)) is_completed
      (sample_interval hw (int q)) (int n) ctxs args 0 0 xfers (?ts, 1) (w\<lparr>tscs := Suc (tscs w)\<rparr>) =
      Some (Done w1 smp)" "all_served K n 0 w w1"
    using loop_served [OF ready_later_tscs [OF assms(2)] assms(5) S0 again_requests_left
        sample_interval_ok [OF assms(3)], of "Suc (tscs w)"] all_served_tscs by (auto simp: c)
  moreover have "arr_set stamps 0 (Some (tsc hw (tscs w))) = Some ?ts" using assms(4) by (simp add: arr_set_def)
  ultimately show ?thesis using breakdown_served [OF l(2) assms(6)]
    by (auto simp: execute_yielding_requests_closed_system_request_breakdown_sampled_def rdtsc_def)
qed

end

section \<open>The tests on the emulated accelerator\<close>

text \<open>What they assume of the machine: the accelerator always has room.\<close>

definition router_machine :: "env \<Rightarrow> bool" where
  "router_machine hw \<longleftrightarrow> env_ok hw \<and> (\<forall>d. verdict hw d = COMP_STATUS_COMPLETED) \<and> (\<forall>k. \<not> busy hw k) \<and> dml_ok hw"

lemma router_machineD:
  assumes "router_machine hw"
  shows "env_ok hw" "test_ok hw is_completed" "\<And>k. \<not> busy hw k" "dml_ok hw"
  using assms by (auto simp: router_machine_def intro: test_ok_completed)

lemma router_structs_run:
  assumes "router_structs timed n K args" and "0 < n" and "n < 2 ^ 31"
  shows "router_run_args K n args" and "timed \<Longrightarrow> timed_run_args K n args"
  using assms by (auto simp: router_structs_def router_run_args_def timed_run_args_def)

lemma structs_arrays:
  assumes "timed_run_args K n args" and "router_run_args K n args" and "result_arrays (blocks K) off wt hash idx"
  shows "two_phase_arrays K n (hd args) off wt hash idx"
proof -
  have "args \<noteq> []" "0 < n" using assms(2) by (auto simp: router_run_args_def)
  then have "timed_args K n (hd args)" using assms(1,2) by (simp add: timed_run_args_def hd_conv_nth router_run_args_def)
  with assms(3) show ?thesis by (auto simp: two_phase_arrays_def timed_args_def result_arrays_def)
qed

lemma result_arrays_below:
  assumes "result_arrays (kinds w) off wt hash idx" and "fresh w" and "\<forall>p < nxt w. K p = kinds w p"
  shows "result_arrays K off wt hash idx"
proof -
  have "K p = Some (KWords m)" if "kinds w p = Some (KWords m)" for p m
    using that assms(2,3) by (metis fresh_kinds not_less option.distinct(1))
  with assms(1) show ?thesis unfolding result_arrays_def by blast
qed


lemma router_machine_sample: "router_machine sample_ax"
  using sample_ax_ok by (auto simp: router_machine_def dml_ok_def sample_ax_def sample_env_def)


lemma blocking_router_test:
  assumes "router_machine hw" and "fresh w" and "0 < n" and "n < 2 ^ 31" and "0 < q" and "q \<le> n"
    and "kinds w ex = Some (KWords len)" and "idx < len"
  shows "\<exists>w' jobs. blocking_ax_router_closed_loop_test hw q n ex (int idx) w = Some (Done w' ()) \<and>
    harness_done n [0..<n] (jobs + n + 1) w w' \<and> n \<le> jobs \<and> jobs \<le> 5 * n"
proof -
  note m = router_machineD [OF assms(1)]
  let ?exec = "\<lambda>args. execute_blocking_requests_closed_system_with_sampling hw (int n)
    (replicate (Suc (n div q)) None) args (replicate n (blocking_router_request hw)) ex (int idx)"
  have ex: "ex < nxt w" using assms(2,7) by (auto simp: fresh_kinds not_less [symmetric])
  have l: "1 < length (replicate (Suc (n div q)) (None :: u64 option))" using assms(5,6) by (simp add: div_greater_zero_iff)
  have "\<exists>w8. ?exec args w1 = Some (Done w8 ()) \<and> served K n 0 [0..<n] w1 w8"
    if "router_structs False n K args" "ready_world K n 0 w1" "\<forall>p < nxt w. blocks K p = kinds w p" for K args w1
  proof -
    have c: "blocking_offloads K n (replicate n (blocking_router_request hw)) args (\<lambda>i. [i])"
      by (rule blocking_router_contract [OF m(1-3) router_structs_run(1) [OF that(1) assms(3,4)]])
    have e: "blocks K ex = Some (KWords len)" using that(3) ex assms(7) by simp
    from blocking_offloads.with_sampling [OF c ready_callable [OF that(2)] l e assms(8)]
    show ?thesis by (simp add: concat_map_singleton)
  qed
  from plain_supply.run_router [OF m(4) assms(2), where exec = ?exec and js = "[]" and j = 1 and hwa = hw, OF this] show ?thesis
    using assms(5)
    by (auto simp: blocking_ax_router_closed_loop_test_def teardown_def [abs_def] harness_simps mult.commute [of 5 n] simp del: upt_Suc)
qed

lemma yielding_router_breakdown:
  assumes "router_machine hw" and "fresh w" and "0 < n" and "n < 2 ^ 31" and "0 < q" and "result_arrays (kinds w) off wt hash idx"
  shows "\<exists>w' jobs. yielding_ax_router_request_breakdown_closed_loop_test hw q n off wt hash (int idx) w = Some (Done w' ()) \<and>
    harness_done n [0..<n] (jobs + 4 + 1) w w' \<and> n \<le> jobs \<and> jobs \<le> 5 * n"
proof -
  note m = router_machineD [OF assms(1)]
  let ?exec = "\<lambda>args. execute_yielding_requests_closed_system_request_breakdown_sampled hw (int q) (int n)
    (replicate (Suc (n div q)) None) args (no_xfers (int n)) (replicate n (yielding_router_request_stamp hw)) off wt hash (int idx)"
  have "\<exists>w8. ?exec args w1 = Some (Done w8 ()) \<and> served K n 0 [0..<n] w1 w8"
    if "router_structs True n K args" "ready_world K n 0 w1" "\<forall>p < nxt w. blocks K p = kinds w p" for K args w1
  proof -
    note r = router_structs_run(1) [OF that(1) assms(3,4)] router_structs_run(2) [OF that(1) assms(3,4) TrueI]
    note c = yielding_router_stamp_contract [OF m(1-3) r]
    note a = structs_arrays [OF r(2,1) result_arrays_below [OF assms(6,2) that(3)]]
    from yielding_offloads.yielding_breakdown_sampled [OF c refl that(2) assms(5) _ _ a]
    show ?thesis by (auto simp: no_xfers_def served_all)
  qed
  from stamped_supply.run_router [OF m(4) assms(2), where exec = ?exec and js = "[0]" and j = 2 and hwa = hw, OF this] show ?thesis
    using assms(5)
    by (auto simp: yielding_ax_router_request_breakdown_closed_loop_test_def stamped_structs_def teardown_def [abs_def] harness_simps
        numeral_2_eq_2 mult.commute [of 5 n] simp del: upt_Suc split: bind_splits) blast
qed

lemma blocking_router_breakdown:
  assumes "router_machine hw" and "fresh w" and "0 < n" and "n < 2 ^ 31" and "0 < q" and "q \<le> n"
    and "result_arrays (kinds w) off wt hash idx"
  shows "\<exists>w' jobs. blocking_ax_router_request_breakdown_test hw q n off wt hash (int idx) w = Some (Done w' ()) \<and>
    harness_done n [0..<n] (jobs + 4 + 1) w w' \<and> n \<le> jobs \<and> jobs \<le> 5 * n"
proof -
  note m = router_machineD [OF assms(1)]
  let ?exec = "\<lambda>args. execute_blocking_requests_closed_system_request_breakdown_sampled hw (int n)
    (replicate (Suc (n div q)) None) args (replicate n (blocking_router_request_stamp hw)) off wt hash (int idx)"
  have l: "1 < length (replicate (Suc (n div q)) (None :: u64 option))" using assms(5,6) by (simp add: div_greater_zero_iff)
  have "\<exists>w8. ?exec args w1 = Some (Done w8 ()) \<and> served K n 0 [0..<n] w1 w8"
    if "router_structs True n K args" "ready_world K n 0 w1" "\<forall>p < nxt w. blocks K p = kinds w p" for K args w1
  proof -
    note r = router_structs_run(1) [OF that(1) assms(3,4)] router_structs_run(2) [OF that(1) assms(3,4) TrueI]
    note c = blocking_router_stamp_contract [OF m(1-3) r]
    note a = structs_arrays [OF r(2,1) result_arrays_below [OF assms(7,2) that(3)]]
    from blocking_offloads.breakdown_sampled [OF c ready_callable [OF that(2)] l a]
    show ?thesis by (simp add: concat_map_singleton)
  qed
  from stamped_supply.run_router [OF m(4) assms(2), where exec = ?exec and js = "[]" and j = 1 and hwa = hw, OF this] show ?thesis
    using assms(5)
    by (auto simp: blocking_ax_router_request_breakdown_test_def stamped_structs_def teardown_def [abs_def] harness_simps
        mult.commute [of 5 n] simp del: upt_Suc split: bind_splits) blast
qed

end
