(* ===== verification/Quiet_Requests.thy ===== *)
theory Quiet_Requests
  imports Harness_Runs
begin

text \<open>
  Requests that run on the core: each ends in one slice and submits nothing.  Unlike the contract
  \<open>core_requests\<close> this one does not need a completion record for every request, so it also covers
  the harnesses that allocate none.
\<close>

section \<open>Requests that submit nothing\<close>

definition quiet_requests ::
  "env \<Rightarrow> shape \<Rightarrow> nat \<Rightarrow> nat \<Rightarrow> ('a \<Rightarrow> world \<Rightarrow> world slice option) \<Rightarrow> 'a list \<Rightarrow> bool" where
  "quiet_requests hw K m n f args \<longleftrightarrow> length args = n \<and> (\<forall>i < n. fin_ok 1 hw K m (f (args ! i)))"

lemma quiet_loop:
  assumes q: "quiet_requests hw K m n f args"
  shows "c \<le> n \<Longrightarrow> shape w = K \<Longrightarrow> length (crs w) = m \<Longrightarrow> requests_completed w = int c \<Longrightarrow>
    \<exists>w'. blocking_loop (requests_left (int n)) (replicate n f) args c w = Some (Done w' ()) \<and> ran K m (int n) [] w w'"
proof (induction "n - c" arbitrary: c w)
  case 0
  then show ?case by (subst blocking_loop.simps) (simp add: requests_left_def ran_def)
next
  case (Suc k)
  then have c: "c < n" by simp
  have len: "length args = n" using q by (simp add: quiet_requests_def)
  from q c Suc.prems(2,3) obtain w1 r where 1: "f (args ! c) w = Some (Yield w1 r)" "finishes 1 hw w w1"
    unfolding fin_ok_def quiet_requests_def by blast
  note fr = finishes_frame [OF 1(2)]
  have "requests_completed w1 = int (Suc c)" "shape w1 = K" "length (crs w1) = m" using fr Suc.prems by simp_all
  moreover have "k = n - Suc c" "Suc c \<le> n" using Suc.hyps(2) c by simp_all
  ultimately obtain w' where
    w': "blocking_loop (requests_left (int n)) (replicate n f) args (Suc c) w1 = Some (Done w' ())" "ran K m (int n) [] w1 w'" using Suc.hyps(1) [of "Suc c" w1] by blast
  have "blocking_loop (requests_left (int n)) (replicate n f) args c w =
      blocking_loop (requests_left (int n)) (replicate n f) args (Suc c) w1"
    using Suc.prems(4) c 1(1) start_fiber_replicate [OF c len] by (subst blocking_loop.simps) (simp add: requests_left_def)
  with w' fr show ?case by (simp add: ran_def)
qed

text \<open>The two executors of such requests.\<close>

lemma quiet_timed_run:
  assumes "quiet_requests hw K m n f args" and "shape w = K" and "length (crs w) = m"
    and "requests_completed w = 0" and "1 < length stamps"
  shows "\<exists>w' ts t0 t1. timed_blocking_run hw (int n) stamps (replicate n f) args w = Some (Done w' ts) \<and>
    ran K m (int n) [] w w' \<and> interval ts 0 1 = Some (t1 - t0)"
proof -
  let ?s0 = "stamps[0 := Some (tsc hw (tscs w))]"
  have "shape (w\<lparr>tscs := Suc (tscs w)\<rparr>) = K" using assms(2) by (auto simp: shape_def kinds_def fun_eq_iff)
  with quiet_loop [OF assms(1), of 0 "w\<lparr>tscs := Suc (tscs w)\<rparr>"] assms(3,4) obtain w1 where
    l: "blocking_loop (requests_left (int n)) (replicate n f) args 0 (w\<lparr>tscs := Suc (tscs w)\<rparr>) = Some (Done w1 ())"
      "ran K m (int n) [] w w1" by (auto simp: ran_def)
  let ?w = "w1\<lparr>tscs := Suc (tscs w1)\<rparr>" and ?s1 = "?s0[1 := Some (tsc hw (tscs w1))]"
  have "arr_set stamps 0 (Some (tsc hw (tscs w))) = Some ?s0" "arr_set ?s0 1 (Some (tsc hw (tscs w1))) = Some ?s1"
    using assms(5) by (auto simp: arr_set_def)
  then have "timed_blocking_run hw (int n) stamps (replicate n f) args w = Some (Done ?w ?s1)"
    using l(1) by (simp add: timed_blocking_run_def rdtsc_def)
  moreover have "interval ?s1 0 1 = Some (tsc hw (tscs w1) - tsc hw (tscs w))"
    using assms(5) by (cases stamps) (simp_all add: interval_def arr_get_def)
  moreover have "ran K m (int n) [] w ?w" by (rule ran_later [OF l(2) later_tscs])
  ultimately show ?thesis by blast
qed

lemma quiet_with_sampling:
  assumes "quiet_requests hw K m n f args" and "shape w = K" and "length (crs w) = m"
    and "requests_completed w = 0" and "1 < length stamps" and "blocks K ex = Some (KWords len)" and "idx < len"
  shows "\<exists>w'. execute_cpu_requests_closed_system_with_sampling hw (int n) stamps args (replicate n f) ex (int idx) w =
    Some (Done w' ()) \<and> ran K m (int n) [] w w'"
proof -
  obtain w1 ts t0 t1 where r: "timed_blocking_run hw (int n) stamps (replicate n f) args w = Some (Done w1 ts)"
    "ran K m (int n) [] w w1" "interval ts 0 1 = Some (t1 - t0)" using quiet_timed_run [OF assms(1-5)] by blast
  have "kinds w1 ex = Some (KWords len)" using r(2) assms(6) by (auto simp: ran_def)
  from write_word_ok [OF this assms(7), of "t1 - t0" hw] obtain w2 where "write_word ex (int idx) (t1 - t0) w1 = Some w2" "later hw w1 w2" by blast
  with r ran_later [OF r(2)] show ?thesis by (auto simp: execute_cpu_requests_closed_system_with_sampling_def)
qed

lemma quiet_breakdown:
  assumes "quiet_requests hw K m n f args" and "shape w = K" and "length (crs w) = m"
    and "requests_completed w = 0" and "1 < length stamps" and "0 < n" and "n < 2 ^ 31"
    and "\<forall>ts \<in> {c_ts0 (hd args), c_ts1 (hd args), c_ts2 (hd args)}. blocks K ts = Some (KWords n)"
    and "blocks K p = Some (KWords l)" and "idx < l" and "blocks K q = Some (KWords l')" and "idx < l'"
  shows "\<exists>w'. execute_cpu_requests_closed_system_request_breakdown hw (int n) stamps args (replicate n f) p q (int idx) w =
    Some (Done w' ()) \<and> ran K m (int n) [] w w'"
proof -
  obtain w1 ts t0 t1 where r: "timed_blocking_run hw (int n) stamps (replicate n f) args w = Some (Done w1 ts)"
    "ran K m (int n) [] w w1" "interval ts 0 1 = Some (t1 - t0)" using quiet_timed_run [OF assms(1-5)] by blast
  have a: "arr_get args 0 = Some (hd args)" using assms(1,6) by (cases args) (simp_all add: arr_get_def quiet_requests_def)
  have w1: "requests_completed w1 = int n" "shape w1 = K" using r(2) by (simp_all add: ran_def)
  obtain w2 where "cpu_breakdown (c_ts0 (hd args)) (c_ts1 (hd args)) (c_ts2 (hd args)) (int n) p q (int idx) w1 = Some w2" "later hw w1 w2"
    using cpu_breakdown_ok [OF assms(6,7) w1(1), of "c_ts0 (hd args)" "c_ts1 (hd args)" "c_ts2 (hd args)" p l idx q l' hw] assms(8-) w1(2)
    by auto
  with r(1) a ran_later [OF r(2)] show ?thesis by (auto simp: execute_cpu_requests_closed_system_request_breakdown_def)
qed

end
