(* ===== verification/Router_Core.thy ===== *)
theory Router_Core
  imports Router_Tests Quiet_Requests
begin

text \<open>
  The tests of the router requests on the core: they allocate blocks of fixed number and order, so
  the heap before the run is known exactly, and so is what they leave behind.
\<close>

section \<open>The blocks of a test\<close>

text \<open>\<open>tsb\<close> are the time stamp arrays, if any.\<close>

definition serialized :: "env \<Rightarrow> u8 list" where "serialized hw = serialize_put hw query (map of_char ''bar'')"

definition core_blocks :: "env \<Rightarrow> block list \<Rightarrow> nat \<Rightarrow> block list" where
  "core_blocks hw tsb n = replicate 3 Opaque @ concat (replicate n [Opaque, Bytes (serialized hw)]) @ tsb @ [Opaque] @
    replicate n Opaque @ [Opaque] @ replicate n Opaque"

lemma new_router_request_put:
  "new_router_request hw i w = Some ((nxt w, Suc (nxt w)), put_blocks w [Opaque, Bytes (serialized hw)])"
proof -
  have "heap (put_blocks w [Opaque, Bytes []]) (nxt w) = Some Opaque" "heap (put_blocks w [Opaque, Bytes []]) (Suc (nxt w)) = Some (Bytes [])"
    using heap_put [of 0 "[Opaque, Bytes []]" w] heap_put [of 1 "[Opaque, Bytes []]" w] by simp_all
  moreover have "set_bytes (Suc (nxt w)) s (put_blocks w [Opaque, Bytes []]) = put_blocks w [Opaque, Bytes s]" for s
    using update_put [of 1 "[Opaque, Bytes []]" w "Bytes s"] by (simp add: set_bytes_def)
  ultimately show ?thesis
    by (simp add: new_router_request_def serialize_request_def malloc_first put_put get_bytes_def Let_def serialized_def)
qed

lemma new_router_requests_put:
  "alloc_loop (new_router_request hw) is w = Some (map (\<lambda>i. (nxt w + 2 * i, Suc (nxt w + 2 * i))) [0..<length is],
    put_blocks w (concat (replicate (length is) [Opaque, Bytes (serialized hw)])))"
proof (induction "is" arbitrary: w)
  case (Cons i "is")
  have "map (\<lambda>i. (nxt w + 2 * i, Suc (nxt w + 2 * i))) [0..<Suc (length is)] =
      (nxt w, Suc (nxt w)) # map (\<lambda>i. (Suc (Suc (nxt w)) + 2 * i, Suc (Suc (Suc (nxt w)) + 2 * i))) [0..<length is]"
    by (rule nth_equalityI) (auto simp: nth_Cons' simp del: upt_Suc)
  with Cons show ?case by (simp add: new_router_request_put put_put del: upt_Suc)
qed (simp add: put_blocks_Nil)

definition core_arg :: "env \<Rightarrow> ptr \<Rightarrow> (ptr \<times> ptr \<times> ptr) option \<Rightarrow> ptr \<Rightarrow> nat \<Rightarrow> cpu_args" where
  "core_arg hw r ts p i = (let g = \<lambda>i. unat (garbage hw p i);
      (id, ts0, ts1, ts2) = (case ts of None \<Rightarrow> (g 0, g 1, g 2, g 3) | Some (ts0, ts1, ts2) \<Rightarrow> (i, ts0, ts1, ts2)) in
    \<lparr>c_self = p, c_request = r + 2 * i, c_serialized = Suc (r + 2 * i), c_id = id, c_ts0 = ts0, c_ts1 = ts1, c_ts2 = ts2\<rparr>)"

lemma core_arg_sel:
  "c_self (core_arg hw r ts p i) = p" "c_serialized (core_arg hw r ts p i) = Suc (r + 2 * i)"
  "c_id (core_arg hw r (Some (a, b, c)) p i) = i" "c_ts0 (core_arg hw r (Some (a, b, c)) p i) = a"
  "c_ts1 (core_arg hw r (Some (a, b, c)) p i) = b" "c_ts2 (core_arg hw r (Some (a, b, c)) p i) = c"
  by (simp_all add: core_arg_def Let_def split: option.splits)

lemma alloc_core_args_put:
  assumes "k + j \<le> n"
  shows "alloc_loop (alloc_cpu_arg hw (map (\<lambda>i. (r + 2 * i, Suc (r + 2 * i))) [0..<n]) ts) [k..<k + j] w =
    Some (map (\<lambda>i. core_arg hw r ts (nxt w + i - k) i) [k..<k + j], put_blocks w (replicate j Opaque))"
  using assms
proof (induction j arbitrary: k w)
  case (Suc j)
  let ?rs = "map (\<lambda>i. (r + 2 * i, Suc (r + 2 * i))) [0..<n]"
  have u: "[k..<k + Suc j] = k # [Suc k..<Suc k + j]" using upt_conv_Cons [of k "k + Suc j"] by simp
  have k: "k < n" using Suc.prems by simp
  have "arr_get ?rs (int k) = Some (r + 2 * k, Suc (r + 2 * k))" using k by (simp add: arr_get_nat)
  then have 1: "alloc_cpu_arg hw ?rs ts k w = Some (core_arg hw r ts (nxt w) k, put_blocks w [Opaque])"
    by (simp add: alloc_cpu_arg_def core_arg_def malloc_first Let_def split: option.splits)
  have "Suc k + j \<le> n" using Suc.prems by simp
  from Suc.IH [OF this, of "put_blocks w [Opaque]"] 1 show ?case unfolding u
    by (simp add: put_put del: upt_Suc)
qed (simp add: put_blocks_Nil)

text \<open>What is freed: the contexts, the objects with their structs, and the arrays.\<close>

definition core_freed :: "ptr \<Rightarrow> nat \<Rightarrow> nat \<Rightarrow> ptr list" where
  "core_freed a t n = (let c = a + 3 + 2 * n + t in
    [c + 2 + n..<c + 2 + n + n] @ concat (map (\<lambda>i. [a + 3 + 2 * i, Suc (a + 3 + 2 * i), c + 1 + i]) [0..<n]) @ [c, a + 1, a + 2, a])"

lemma frees_concat: "frees (concat (map g is)) w = foldM (\<lambda>i. frees (g i)) is w"
  by (induction "is" arbitrary: w) (auto simp: frees_append split: bind_splits)

lemma free_cpu_requests_frees:
  "free_cpu_requests n (map (\<lambda>i. (r + 2 * i, Suc (r + 2 * i))) [0..<n]) (map (\<lambda>i. core_arg hw r ts (p + i) i) [0..<n]) w =
    frees (concat (map (\<lambda>i. [r + 2 * i, Suc (r + 2 * i), p + i]) [0..<n])) w"
proof -
  let ?rs = "map (\<lambda>i. (r + 2 * i, Suc (r + 2 * i))) [0..<n]" and ?as = "map (\<lambda>i. core_arg hw r ts (p + i) i) [0..<n]"
  have "foldM (\<lambda>i w. Option.bind (arr_get ?rs (int i)) (\<lambda>x. Option.bind (arr_get ?as (int i)) (\<lambda>a.
      Option.bind (mfree (fst x) w) (\<lambda>w. Option.bind (mfree (snd x) w) (mfree (c_self a)))))) is w =
    foldM (\<lambda>i. frees [r + 2 * i, Suc (r + 2 * i), p + i]) is w" if "set is \<subseteq> {..<n}" for "is" w
    using that by (induction "is" arbitrary: w) (auto simp: arr_get_nat core_arg_sel split: bind_splits)
  from this [of "[0..<n]" w] show ?thesis by (simp add: free_cpu_requests_def frees_concat lessThan_atLeast0 del: frees.simps)
qed

lemma core_triples:
  assumes "p + 2 * n \<le> q"
  shows "distinct (concat (map (\<lambda>i. [p + 2 * i, Suc (p + 2 * i), q + i]) [0..<n]))"
    and "set (concat (map (\<lambda>i. [p + 2 * i, Suc (p + 2 * i), q + i]) [0..<n])) \<subseteq> {p..<p + 2 * n} \<union> {q..<q + n}"
    and "length (concat (map (\<lambda>i. [p + 2 * i, Suc (p + 2 * i), q + i]) [0..<n])) = 3 * n"
  using assms by (induction n) fastforce+

lemma core_freed_ok:
  shows "distinct (core_freed a t n)" and "set (core_freed a t n) \<subseteq> {a..<a + (4 * n + 5 + t)}" and "length (core_freed a t n) = 4 * n + 4"
proof -
  let ?c = "a + 3 + 2 * n + t"
  have le: "a + 3 + 2 * n \<le> ?c + 1" by simp
  note tr = core_triples [OF le]
  have "set (concat (map (\<lambda>i. [a + 3 + 2 * i, Suc (a + 3 + 2 * i), ?c + 1 + i]) [0..<n])) \<inter> {?c + 2 + n..<?c + 2 + n + n} = {}"
    "set (concat (map (\<lambda>i. [a + 3 + 2 * i, Suc (a + 3 + 2 * i), ?c + 1 + i]) [0..<n])) \<inter> {?c, a + 1, a + 2, a} = {}"
    using tr(2) by fastforce+
  with tr(1) show "distinct (core_freed a t n)"
    by (simp only: core_freed_def Let_def distinct_append) (auto simp del: set_concat)
  show "set (core_freed a t n) \<subseteq> {a..<a + (4 * n + 5 + t)}"
    using tr(2) by (simp only: core_freed_def Let_def set_append) fastforce
  show "length (core_freed a t n) = 4 * n + 4" using tr(3) by (simp only: core_freed_def Let_def length_append) simp
qed

lemma length_core_blocks: "length (core_blocks hw tsb n) = 4 * n + 5 + length tsb"
  by (simp add: core_blocks_def length_concat sum_list_replicate)

text \<open>A run on such blocks leaves the array of contexts and the time stamp arrays.\<close>

lemma core_frame:
  assumes "fresh w" and r: "ran (shape (put_blocks w (core_blocks hw tsb n))) m c [] (put_blocks w (core_blocks hw tsb n)) w2"
  shows "\<exists>w3. after_run (Some (Done w2 x)) (frees (core_freed (nxt w) (length tsb) n)) = Some (Done w3 ()) \<and> leaves c [] (Suc (length tsb)) w w3"
proof -
  let ?bs = "core_blocks hw tsb n" and ?ps = "core_freed (nxt w) (length tsb) n"
  let ?w1 = "put_blocks w ?bs" and ?U = "{nxt w..<nxt w + length ?bs}"
  note ok = core_freed_ok [of "nxt w" "length tsb" n]
  have g: "grows ?U w ?w1" by (rule grows_put)
  have sub: "set ?ps \<subseteq> ?U" using ok(2) by (simp add: length_core_blocks)
  have "frees_in True (shape ?w1) (set ?ps) (frees ?ps)"
  proof (rule frees_inI [OF releases_frees [OF ok(1)]])
    show "0 \<notin> set ?ps" using sub assms(1) by (auto simp: fresh_def)
    show "\<forall>p \<in> set ?ps. blocks (shape ?w1) p \<noteq> None" using sub g by (auto simp: grows_def kinds_def)
  qed
  moreover have "card (?U - set ?ps) = Suc (length tsb)"
    using sub ok(3) distinct_card [OF ok(1)] by (subst card_Diff_subset) (simp_all add: length_core_blocks)
  ultimately show ?thesis using run_frame [OF assms(1) g _ r _ sub, where x = x] by fastforce
qed

section \<open>The tests\<close>

lemma concat_pairs_nth: "i < n \<Longrightarrow> concat (replicate n [x, y]) ! Suc (2 * i) = y"
proof (induction i arbitrary: n)
  case 0
  then show ?case by (cases n) simp_all
next
  case (Suc i)
  then show ?case by (cases n) simp_all
qed

lemma core_blocks_nth:
  assumes "i < n"
  shows "core_blocks hw tsb n ! (4 + 2 * i) = Bytes (serialized hw)"
    and "j < length tsb \<Longrightarrow> core_blocks hw tsb n ! (3 + 2 * n + j) = tsb ! j"
proof -
  let ?p = "concat (replicate n [Opaque, Bytes (serialized hw)])"
  have l: "length ?p = 2 * n" by (simp add: length_concat sum_list_replicate)
  have "core_blocks hw tsb n ! (4 + 2 * i) = (?p @ tsb @ [Opaque] @ replicate n Opaque @ [Opaque] @ replicate n Opaque) ! Suc (2 * i)"
    unfolding core_blocks_def by (simp add: nth_append)
  also have "\<dots> = ?p ! Suc (2 * i)" using assms l by (simp add: nth_append)
  finally show "core_blocks hw tsb n ! (4 + 2 * i) = Bytes (serialized hw)" using concat_pairs_nth [OF assms] by simp
  show "core_blocks hw tsb n ! (3 + 2 * n + j) = tsb ! j" if "j < length tsb"
    using that l unfolding core_blocks_def by (simp add: nth_append)
qed

lemma core_kinds:
  assumes K: "K = kinds (put_blocks w (core_blocks hw tsb n))"
  shows "i < n \<Longrightarrow> K (Suc (nxt w + 3 + 2 * i)) = Some (KBytes (length (serialized hw)))"
    and "0 < n \<Longrightarrow> j < length tsb \<Longrightarrow> K (nxt w + 3 + 2 * n + j) = Some (kind_of (tsb ! j))"
proof -
  have k: "K (nxt w + m) = Some (kind_of (core_blocks hw tsb n ! m))" if "m < 4 * n + 5 + length tsb" for m
    using kinds_put [of m "core_blocks hw tsb n" w] that by (simp add: K length_core_blocks)
  show "K (Suc (nxt w + 3 + 2 * i)) = Some (KBytes (length (serialized hw)))" if "i < n"
    using k [of "4 + 2 * i"] core_blocks_nth(1) [OF that, of hw tsb] that by (simp add: eval_nat_numeral)
  show "K (nxt w + 3 + 2 * n + j) = Some (kind_of (tsb ! j))" if "0 < n" "j < length tsb"
    using k [of "3 + 2 * n + j"] core_blocks_nth(2) [OF that, of hw] that by (simp add: add.assoc)
qed

text \<open>On the core nothing ties the time stamp arrays to the completion records.\<close>

lemma cpu_stamp_fin:
  assumes env: "env_ok hw" and ser: "blocks K (c_serialized a) = Some (KBytes l)" and "c_id a < n"
    and "blocks K (c_ts0 a) = Some (KWords n)" and "blocks K (c_ts1 a) = Some (KWords n)" and "blocks K (c_ts2 a) = Some (KWords n)"
  shows "fin_ok 1 hw K m (cpu_router_request_stamp hw a)"
proof -
  have st: "safe hw K m (stamp hw (c_ts0 a) (c_id a))" "safe hw K m (stamp hw (c_ts1 a) (c_id a))" "safe hw K m (stamp hw (c_ts2 a) (c_id a))"
    using assms(3-) by (auto intro: safe_stamp_any)
  have "fin_ok 1 hw K m (\<lambda>w. Option.bind (parse_request hw (c_serialized a) w) (\<lambda>key.
      Option.bind (stamp hw (c_ts1 a) (c_id a) w) (\<lambda>w. Option.bind (hash_key hw key w) (\<lambda>w.
        Option.bind (stamp hw (c_ts2 a) (c_id a) w) finish_request))))"
    unfolding fin_ok_def
  proof (intro allI impI)
    fix w assume w: "shape w = K" "length (crs w) = m"
    with ser obtain bs where bs: "get_bytes (c_serialized a) w = Some bs" by (auto simp: kinds_bytes)
    have "fin_ok 1 hw K m (\<lambda>w. Option.bind (stamp hw (c_ts1 a) (c_id a) w) (\<lambda>w.
        Option.bind (hash_key hw (parse_key hw bs) w) (\<lambda>w.
          Option.bind (stamp hw (c_ts2 a) (c_id a) w) finish_request)))"
      using env st by (intro fin_ok_bind [OF st(2)] fin_ok_bind [OF st(3)] request_rules)
    with w bs show "\<exists>w' k. Option.bind (parse_request hw (c_serialized a) w) (\<lambda>key.
        Option.bind (stamp hw (c_ts1 a) (c_id a) w) (\<lambda>w. Option.bind (hash_key hw key w) (\<lambda>w.
          Option.bind (stamp hw (c_ts2 a) (c_id a) w) finish_request))) = Some (Yield w' k) \<and> finishes 1 hw w w'"
      by (simp add: parse_request_def fin_ok_def)
  qed
  then show ?thesis
    unfolding cpu_router_request_stamp_def [abs_def] by (intro fin_ok_bind [OF st(1)])
qed

text \<open>The first and the last part of a test.\<close>

lemma core_setup:
  "\<exists>v1 v2 rs as. alloc_loop (new_router_request hw) [0..<n] (put_blocks w [Opaque, Opaque, Opaque]) = Some (rs, v1) \<and>
    nxt v1 = nxt w + 3 + 2 * n \<and>
    alloc_loop (alloc_cpu_arg hw rs ts) [0..<n] (put_blocks v1 (tsb @ [Opaque])) = Some (as, v2) \<and>
    reset_counter (put_blocks v2 (Opaque # replicate n Opaque)) = put_blocks (reset_counter w) (core_blocks hw tsb n) \<and>
    as = map (\<lambda>i. core_arg hw (nxt w + 3) ts (nxt w + 3 + 2 * n + length tsb + 1 + i) i) [0..<n] \<and>
    (\<forall>u. Option.bind (free_contexts [Suc (nxt v2)..<Suc (nxt v2) + n] n u) (\<lambda>u. Option.bind (free_cpu_requests n rs as u)
      (\<lambda>u. Option.bind (mfree (nxt v1 + length tsb) u) (\<lambda>u. Option.bind (mfree (Suc (nxt w)) u)
        (\<lambda>u. Option.bind (mfree (Suc (Suc (nxt w))) u) (mfree (nxt w)))))) = frees (core_freed (nxt w) (length tsb) n) u)"
proof -
  let ?a = "nxt w" and ?pairs = "concat (replicate n [Opaque, Bytes (serialized hw)])"
  let ?r = "?a + 3" and ?v0 = "put_blocks w [Opaque, Opaque, Opaque]"
  let ?v1 = "put_blocks ?v0 ?pairs" and ?rs = "map (\<lambda>i. (?r + 2 * i, Suc (?r + 2 * i))) [0..<n]"
  let ?p = "?r + 2 * n + length tsb + 1"
  let ?as = "map (\<lambda>i. core_arg hw ?r ts (?p + i) i) [0..<n]" and ?v2 = "put_blocks (put_blocks ?v1 (tsb @ [Opaque])) (replicate n Opaque)"
  have l: "length ?pairs = 2 * n" by (simp add: length_concat sum_list_replicate)
  have n0: "nxt ?v0 = ?r" by simp
  have n1: "nxt ?v1 = ?r + 2 * n" unfolding put_blocks_frame(1) [of ?v0] n0 l ..
  have n2: "nxt (put_blocks ?v1 (tsb @ [Opaque])) = ?p" unfolding put_blocks_frame(1) [of ?v1] n1 by simp
  have n3: "nxt ?v2 = ?p + n" unfolding put_blocks_frame(1) [of "put_blocks ?v1 (tsb @ [Opaque])"] n2 by simp
  have 1: "alloc_loop (new_router_request hw) [0..<n] ?v0 = Some (?rs, ?v1)"
    using new_router_requests_put [of hw "[0..<n]" ?v0] unfolding n0 by simp
  have 2: "alloc_loop (alloc_cpu_arg hw ?rs ts) [0..<n] (put_blocks ?v1 (tsb @ [Opaque])) = Some (?as, ?v2)"
    using alloc_core_args_put [of 0 n n hw ?r ts "put_blocks ?v1 (tsb @ [Opaque])"] unfolding n2 by simp
  have 3: "reset_counter (put_blocks ?v2 (Opaque # replicate n Opaque)) = put_blocks (reset_counter w) (core_blocks hw tsb n)"
    by (simp add: put_put reset_counter_def put_blocks_updates core_blocks_def eval_nat_numeral)
  have "free_contexts [Suc (?p + n)..<Suc (?p + n) + n] n u \<bind> (\<lambda>u. free_cpu_requests n ?rs ?as u \<bind>
      (\<lambda>u. mfree (?r + 2 * n + length tsb) u \<bind> (\<lambda>u. mfree (Suc ?a) u \<bind> (\<lambda>u. mfree (Suc (Suc ?a)) u \<bind> mfree ?a)))) =
    frees (core_freed ?a (length tsb) n) u" for u
  proof -
    have c: "core_freed ?a (length tsb) n = [Suc (?p + n)..<Suc (?p + n) + n] @
      concat (map (\<lambda>i. [?r + 2 * i, Suc (?r + 2 * i), ?p + i]) [0..<n]) @ [?r + 2 * n + length tsb, Suc ?a, Suc (Suc ?a), ?a]"
      by (simp add: core_freed_def Let_def add.assoc del: upt_Suc)
    show ?thesis unfolding c frees_append free_contexts_frees free_cpu_requests_frees by (simp add: frees_fun del: concat.simps)
  qed
  note 4 = this
  show ?thesis
    using 1 2 3 4 unfolding n1 [symmetric] n3 [symmetric]
    by (intro exI [of _ ?v1] exI [of _ ?v2] exI [of _ ?rs] exI [of _ ?as]) (simp only: n1 n3 simp_thms)
qed



text \<open>The breakdown leaves its three time stamp arrays, too.\<close>

lemma core_router_breakdown:
  assumes "env_ok hw" and "fresh w" and "0 < n" and "n < 2 ^ 31" and "0 < q" and "q \<le> n"
    and "kinds w p1 = Some (KWords l1)" and "idx < l1" and "kinds w p2 = Some (KWords l2)" and "idx < l2"
  shows "\<exists>w'. cpu_router_request_breakdown hw q n p1 p2 (int idx) w = Some (Done w' ()) \<and> leaves (int n) [] 4 w w'"
proof -
  let ?w = "reset_counter w" and ?a = "nxt w"
  define r where "r = ?a + 3 + 2 * n"
  let ?tsb = "[fresh_words hw n r, fresh_words hw n (Suc r), fresh_words hw n (Suc (Suc r))]"
  let ?w1 = "put_blocks ?w (core_blocks hw ?tsb n)" and ?ts = "Some (r, Suc r, Suc (Suc r))"
  have k: "kinds ?w = kinds w" "nxt ?w = ?a" by (simp_all add: kinds_def fun_eq_iff reset_counter_def)
  have fw: "fresh ?w" using assms(2) by (simp add: fresh_def reset_counter_def)
  have l: "1 < length (replicate (Suc (n div q)) (None :: u64 option))" using assms(5,6) by (simp add: div_greater_zero_iff)
  from core_setup [of hw n w ?ts ?tsb] obtain v1 v2 rs as where
    s: "alloc_loop (new_router_request hw) [0..<n] (put_blocks w [Opaque, Opaque, Opaque]) = Some (rs, v1)" "nxt v1 = r"
      "alloc_loop (alloc_cpu_arg hw rs ?ts) [0..<n] (put_blocks v1 (?tsb @ [Opaque])) = Some (as, v2)"
      "reset_counter (put_blocks v2 (Opaque # replicate n Opaque)) = ?w1"
      "as = map (\<lambda>i. core_arg hw (?a + 3) ?ts (?a + 3 + 2 * n + length ?tsb + 1 + i) i) [0..<n]"
      "\<forall>u. Option.bind (free_contexts [Suc (nxt v2)..<Suc (nxt v2) + n] n u) (\<lambda>u. Option.bind (free_cpu_requests n rs as u)
        (\<lambda>u. Option.bind (mfree (nxt v1 + length ?tsb) u) (\<lambda>u. Option.bind (mfree (Suc ?a) u)
          (\<lambda>u. Option.bind (mfree (Suc (Suc ?a)) u) (mfree ?a))))) = frees (core_freed ?a (length ?tsb) n) u"
    unfolding r_def by blast
  let ?exec = "execute_cpu_requests_closed_system_request_breakdown hw (int n) (replicate (Suc (n div q)) None) as
    (replicate n (cpu_router_request_stamp hw)) p1 p2 (int idx)"
  have rw: "nxt ?w + 3 + 2 * n = r" using k(2) by (simp add: r_def)
  have ts: "blocks (shape ?w1) r = Some (KWords n)" "blocks (shape ?w1) (Suc r) = Some (KWords n)"
    "blocks (shape ?w1) (Suc (Suc r)) = Some (KWords n)"
    using core_kinds(2) [OF refl assms(3), of 0 ?tsb ?w hw] core_kinds(2) [OF refl assms(3), of 1 ?tsb ?w hw]
      core_kinds(2) [OF refl assms(3), of 2 ?tsb ?w hw] unfolding rw by simp_all
  have "fin_ok 1 hw (shape ?w1) (length (crs ?w1)) (cpu_router_request_stamp hw (as ! i))" if "i < n" for i
    using that core_kinds(1) [OF refl that(1), of ?w hw ?tsb] k ts
    by (intro cpu_stamp_fin [OF assms(1), where n = n]) (simp_all add: s(5) core_arg_sel)
  then have q: "quiet_requests hw (shape ?w1) (length (crs ?w1)) n (cpu_router_request_stamp hw) as" by (simp add: quiet_requests_def s(5))
  have below: "blocks (shape ?w1) p = kinds w p" if "p < ?a" for p
    using grows_kinds_below [OF grows_put(1) [of ?w "core_blocks hw ?tsb n"], of p] that k by simp
  have "p1 < ?a" "p2 < ?a" using assms(2,7,9) by (auto simp: fresh_kinds not_less [symmetric])
  then have ek: "blocks (shape ?w1) p1 = Some (KWords l1)" "blocks (shape ?w1) p2 = Some (KWords l2)" using below assms(7,9) by simp_all
  have r0: "requests_completed ?w1 = 0" by (simp add: reset_counter_def)
  have "hd as = core_arg hw (?a + 3) ?ts (?a + 3 + 2 * n + 3 + 1) 0" using assms(3) by (simp add: s(5) hd_map)
  then have h: "\<forall>ts \<in> {c_ts0 (hd as), c_ts1 (hd as), c_ts2 (hd as)}. blocks (shape ?w1) ts = Some (KWords n)"
    using ts by (simp add: core_arg_sel)
  from quiet_breakdown [OF q refl refl r0 l assms(3,4) h ek(1) assms(8) ek(2) assms(10)] obtain w2 where
    2: "?exec ?w1 = Some (Done w2 ())" "ran (shape ?w1) (length (crs ?w1)) (int n) [] ?w1 w2" by blast
  from core_frame [OF fw 2(2), where x = "()"] obtain w3 where
    3: "after_run (Some (Done w2 ())) (frees (core_freed ?a (length ?tsb) n)) = Some (Done w3 ())" "leaves (int n) [] 4 ?w w3"
    by (auto simp: k eval_nat_numeral)
  have "cpu_router_request_breakdown hw q n p1 p2 (int idx) w = after_run (?exec ?w1) (frees (core_freed ?a (length ?tsb) n))"
    using assms(5) s(1-4) s(6) [rule_format]
    by (simp add: cpu_router_request_breakdown_def malloc_words_def malloc_first put_put sampling_array_def c_div_def create_contexts_put
        eval_nat_numeral del: upt_Suc)
  moreover have "leaves (int n) [] 4 w w3" using 3(2) k by (simp add: leaves_def reset_counter_def)
  ultimately show ?thesis using 2(1) 3(1) by auto
qed

end
