(* ===== verification/Core_Harness.thy ===== *)
theory Core_Harness
  imports Quiet_Requests Harness_Clients
begin

text \<open>
  The harnesses of the requests on the core (\<open>gpcore_closed_loop_test\<close>, \<open>gpcore_request_breakdown\<close>)
  with any supply of inputs, and the decompress-and-hash requests as their client.
\<close>

section \<open>Executors without completion records\<close>

lemma quiet_gpcore_sampling:
  assumes "quiet_requests hw K m n f args" and "shape w = K" and "length (crs w) = m" and "requests_completed w = 0"
    and "blocks K ex = Some (KWords len)" and "idx < len"
  shows "\<exists>w'. execute_gpcore_requests_closed_system_with_sampling hw (int n) args (replicate n f) ex (int idx) w =
    Some (Done w' ()) \<and> ran K m (int n) [] w w'"
proof -
  have "shape (w\<lparr>tscs := Suc (tscs w)\<rparr>) = K" using assms(2) by (auto simp: shape_def kinds_def fun_eq_iff)
  with quiet_loop [OF assms(1), of 0 "w\<lparr>tscs := Suc (tscs w)\<rparr>"] assms(3,4) obtain w1 where
    l: "blocking_loop (requests_left (int n)) (replicate n f) args 0 (w\<lparr>tscs := Suc (tscs w)\<rparr>) = Some (Done w1 ())"
      "ran K m (int n) [] w w1" by (auto simp: ran_def)
  let ?w = "w1\<lparr>tscs := Suc (tscs w1)\<rparr>"
  have r: "ran K m (int n) [] w ?w" by (rule ran_later [OF l(2) later_tscs])
  then have "kinds ?w ex = Some (KWords len)" using assms(5) by (auto simp: ran_def)
  from write_word_ok [OF this assms(6)] obtain w2 where
    "write_word ex (int idx) (tsc hw (tscs w1) - tsc hw (tscs w)) ?w = Some w2" "later hw ?w w2" by blast
  with l(1) ran_later [OF r] show ?thesis
    by (auto simp: execute_gpcore_requests_closed_system_with_sampling_def rdtsc_def)
qed

lemma quiet_gpcore_breakdown:
  assumes "quiet_requests hw K m n f args" and "shape w = K" and "length (crs w) = m" and "requests_completed w = 0"
    and "0 < n" and "n < 2 ^ 31"
    and "\<forall>ts \<in> {g_ts0 (hd args), g_ts1 (hd args), g_ts2 (hd args)}. blocks K ts = Some (KWords n)"
    and "blocks K p = Some (KWords l)" and "idx < l" and "blocks K q = Some (KWords l')" and "idx < l'"
  shows "\<exists>w'. execute_gpcore_requests_closed_system_request_breakdown (int n) args (replicate n f) p q (int idx) w =
    Some (Done w' ()) \<and> ran K m (int n) [] w w'"
proof -
  obtain w1 where r: "blocking_loop (requests_left (int n)) (replicate n f) args 0 w = Some (Done w1 ())"
    "ran K m (int n) [] w w1" using quiet_loop [OF assms(1), of 0 w] assms(2-4) by auto
  have a: "arr_get args 0 = Some (hd args)" using assms(1,5) by (cases args) (simp_all add: arr_get_def quiet_requests_def)
  have w1: "requests_completed w1 = int n" "shape w1 = K" using r(2) by (simp_all add: ran_def)
  obtain w2 where "cpu_breakdown (g_ts0 (hd args)) (g_ts1 (hd args)) (g_ts2 (hd args)) (int n) p q (int idx) w1 = Some w2" "later hw w1 w2"
    using cpu_breakdown_ok [OF assms(5,6) w1(1), of "g_ts0 (hd args)" "g_ts1 (hd args)" "g_ts2 (hd args)" p l idx q l' hw] assms(7-) w1(2)
    by auto
  with r(1) a ran_later [OF r(2)] show ?thesis by (auto simp: execute_gpcore_requests_closed_system_request_breakdown_def)
qed

section \<open>The argument structs\<close>

definition gpcore_arg :: "env \<Rightarrow> (ptr \<times> ptr list) list \<Rightarrow> (ptr \<times> ptr \<times> ptr) option \<Rightarrow> ptr \<Rightarrow> nat \<Rightarrow> gpcore_args" where
  "gpcore_arg hw xs ts p i = (let g = \<lambda>j. unat (garbage hw p j);
      (ts0, ts1, ts2) = (case ts of None \<Rightarrow> (g 0, g 1, g 2) | Some s \<Rightarrow> s) in
    \<lparr>g_self = p, g_inputs = snd (xs ! i), g_id = i, g_ts0 = ts0, g_ts1 = ts1, g_ts2 = ts2\<rparr>)"

lemma gpcore_arg_sel:
  "g_inputs (gpcore_arg hw xs ts p i) = snd (xs ! i)" "g_id (gpcore_arg hw xs ts p i) = i"
  "g_ts0 (gpcore_arg hw xs (Some (a, b, c)) p i) = a" "g_ts1 (gpcore_arg hw xs (Some (a, b, c)) p i) = b"
  "g_ts2 (gpcore_arg hw xs (Some (a, b, c)) p i) = c"
  by (simp_all add: gpcore_arg_def Let_def split: option.splits)

lemma alloc_gpcore_args_put:
  assumes "k + j \<le> length xs"
  shows "alloc_loop (alloc_gpcore_arg hw xs ts) [k..<k + j] w =
    Some (map (\<lambda>i. gpcore_arg hw xs ts (nxt w + i - k) i) [k..<k + j], put_blocks w (replicate j Opaque))"
  using assms
proof (induction j arbitrary: k w)
  case (Suc j)
  have u: "[k..<k + Suc j] = k # [Suc k..<Suc k + j]" using upt_conv_Cons [of k "k + Suc j"] by simp
  have k: "k < length xs" using Suc.prems by simp
  have 1: "alloc_gpcore_arg hw xs ts k w = Some (gpcore_arg hw xs ts (nxt w) k, put_blocks w [Opaque])"
    using k by (simp add: alloc_gpcore_arg_def gpcore_arg_def malloc_first arr_get_nat Let_def split: option.splits)
  have "Suc k + j \<le> length xs" using Suc.prems by simp
  from Suc.IH [OF this, of "put_blocks w [Opaque]"] 1 show ?case unfolding u
    by (simp add: put_put del: upt_Suc)
qed (simp add: put_blocks_Nil)

lemma alloc_gpcore_array_put:
  assumes "length xs = n"
  shows "alloc_array (alloc_gpcore_arg hw xs ts) n w =
    Some ((nxt w, map (\<lambda>i. gpcore_arg hw xs ts (Suc (nxt w) + i) i) [0..<n]), put_blocks w (replicate (Suc n) Opaque))"
  using alloc_gpcore_args_put [of 0 n xs hw ts "put_blocks w [Opaque]"] assms
  by (simp add: alloc_array_def malloc_first put_put del: upt_Suc)

text \<open>The structs of a run for given inputs.\<close>

definition core_args_for :: "nat \<Rightarrow> (ptr \<times> ptr list) list \<Rightarrow> gpcore_args list \<Rightarrow> bool" where
  "core_args_for n xs as \<longleftrightarrow> length as = n \<and> (\<forall>i < n. g_inputs (as ! i) = snd (xs ! i) \<and> g_id (as ! i) = i)"

definition core_stamps :: "shape \<Rightarrow> nat \<Rightarrow> gpcore_args list \<Rightarrow> bool" where
  "core_stamps K n as \<longleftrightarrow> (\<forall>i < n. core_timed_args K n i (as ! i))"

section \<open>The harnesses\<close>

text \<open>What these harnesses need of the allocator of their inputs.  They allocate no completion records;
  \<open>cs\<close> gives the blocks that they allocate after those of the client: the array of contexts, the
  contexts, \<open>m\<close> others.\<close>

context struct_supply
begin

lemma core_rig:
  assumes "pre w" and "fresh w"
  shows "\<exists>arr w' F G. alloc (put_blocks w [Opaque]) = Some (arr, w') \<and>
    grows (rig w 1 F w' (length (cs w'))) w (reset_counter (put_blocks w' (cs w'))) \<and>
    obs w' = obs w \<and> rigged w [Opaque] F G w' (cs w') \<and> card (F - G) = lost \<and>
    serves (shape (put_blocks w' (cs w'))) (snd arr) \<and> frees_in keeps_globals (shape (put_blocks w' (cs w'))) G (free_args arr)"
proof -
  let ?w1 = "put_blocks w [Opaque]"
  have "pre ?w1" by (rule pre_globals [OF assms(1)]) simp_all
  moreover have "fresh ?w1" using assms(2) by (simp add: fresh_def put_blocks_def)
  ultimately obtain arr w' F G where 1: "alloc ?w1 = Some (arr, w')" "grows F ?w1 w'" "obs w' = obs ?w1" "G \<subseteq> F" "card (F - G) = lost"
    "\<forall>K. (\<forall>p \<in> F. blocks K p = kinds w' p) \<longrightarrow> indir_at K = g_indir_arr w' \<longrightarrow> item_at K = g_item_buf w' \<longrightarrow>
      serves K (snd arr) \<and> frees_in keeps_globals K G (free_args arr)"
    using supplies [of ?w1] by blast
  let ?w7 = "put_blocks w' (cs w')"
  have F: "F \<subseteq> {nxt w + 1..<nxt w'}" using 1(2) by (auto simp: grows_def)
  have below: "kinds ?w7 p = kinds w' p" if "p < nxt w'" for p
    using grows_kinds_below [OF grows_put(1) that] .
  then have "\<forall>p \<in> F. blocks (shape ?w7) p = kinds w' p" using F by auto
  with 1(6) have s: "serves (shape ?w7) (snd arr)" "frees_in keeps_globals (shape ?w7) G (free_args arr)" by simp_all
  have 7: "kinds ?w7 p = kinds ?w1 p" if "p < nxt w + 1" for p
    using below [of p] grows_kinds_below [OF 1(2), of p] that grows_nxt [OF 1(2)] by simp
  have "kinds ?w7 p = kinds w p" if "p < nxt w" for p
    using 7 [of p] that by (simp add: kinds_def put_blocks_def)
  moreover have "kinds ?w7 (nxt w) = Some KOpaque"
    using 7 [of "nxt w"] kinds_put [of 0 "[Opaque]" w] by simp
  ultimately have "rigged w [Opaque] F G w' (cs w')"
    using F 1(4) kinds_put [of _ "cs w'" w'] grows_nxt [OF 1(2)] assms(2) by (simp add: rigged_def fresh_def)
  moreover have "grows (rig w 1 F w' (length (cs w'))) w ?w7"
    using grows_trans [OF grows_trans [OF grows_put(1) [of w "[Opaque]"] 1(2)] grows_put(1) [of w' "cs w'"]] by (simp add: rig_def)
  then have "grows (rig w 1 F w' (length (cs w'))) w (reset_counter ?w7)" by (simp add: grows_def reset_counter_def)
  ultimately show ?thesis using 1(1,3,5) s by auto
qed

text \<open>The part that the two harnesses share: the executor runs on the structs, then contexts, inputs and
  the proxy are freed.\<close>

lemma core_run:
  assumes "pre w" and "fresh w" and len: "\<And>w'. length (cs w') = Suc n + m"
    and exec: "\<And>arr w' v. v = reset_counter (put_blocks w' (cs w')) \<Longrightarrow> serves (shape v) (snd arr) \<Longrightarrow>
        \<forall>i < length (cs w'). kinds v (nxt w' + i) = Some (kind_of (cs w' ! i)) \<Longrightarrow> \<forall>p < nxt w. kinds v p = kinds w p \<Longrightarrow>
      \<exists>w8. exec arr w' v = Some (Done w8 ()) \<and> ran (shape v) (length (crs v)) c subs v w8"
  shows "\<exists>arr w' w3. alloc (put_blocks w [Opaque]) = Some (arr, w') \<and>
    after_run (exec arr w' (reset_counter (put_blocks w' (cs w'))))
      (\<lambda>u. Option.bind (free_contexts [Suc (nxt w')..<Suc (nxt w') + n] n u) (\<lambda>u. Option.bind (free_args arr u) (mfree (nxt w)))) =
        Some (Done w3 ()) \<and> leaves c subs (lost + Suc m) w w3"
proof -
  obtain arr w' F G where r: "alloc (put_blocks w [Opaque]) = Some (arr, w')"
    "grows (rig w 1 F w' (length (cs w'))) w (reset_counter (put_blocks w' (cs w')))" "obs w' = obs w"
    "rigged w [Opaque] F G w' (cs w')" "card (F - G) = lost"
    "serves (shape (put_blocks w' (cs w'))) (snd arr)" "frees_in keeps_globals (shape (put_blocks w' (cs w'))) G (free_args arr)"
    using core_rig [OF assms(1,2), of cs] by blast
  let ?v = "reset_counter (put_blocks w' (cs w'))" and ?C = "{Suc (nxt w')..<Suc (nxt w') + n}"
  let ?free = "\<lambda>u. Option.bind (free_contexts [Suc (nxt w')..<Suc (nxt w') + n] n u) (\<lambda>u. Option.bind (free_args arr u) (mfree (nxt w)))"
  have v: "shape ?v = shape (put_blocks w' (cs w'))" "kinds ?v = kinds (put_blocks w' (cs w'))"
    by (simp_all add: reset_counter_def shape_eq_iff kinds_def fun_eq_iff)
  have d: "F \<subseteq> {Suc (nxt w)..<nxt w'}" "Suc (nxt w) \<le> nxt w'" "G \<subseteq> F" "0 < nxt w"
    and cs: "\<forall>i < length (cs w'). kinds ?v (nxt w' + i) = Some (kind_of (cs w' ! i))"
    and old: "\<forall>p < nxt w. kinds ?v p = kinds w p" and proxy: "kinds ?v (nxt w) \<noteq> None"
    using r(4) by (simp_all add: rigged_def v)
  have serves: "serves (shape ?v) (snd arr)" using r(6) v(1) by simp
  obtain w8 where 8: "exec arr w' ?v = Some (Done w8 ())" "ran (shape ?v) (length (crs ?v)) c subs ?v w8"
    using exec [OF refl _ cs old] serves by blast
  have "kinds ?v p \<noteq> None" if "p \<in> ?C" for p
  proof -
    define i where "i = p - nxt w'"
    then have "p = nxt w' + i" "i < length (cs w')" using that len [of w'] by auto
    then show ?thesis using cs by simp
  qed
  then have fc: "frees_in True (shape ?v) ?C (free_contexts [Suc (nxt w')..<Suc (nxt w') + n] n)"
    by (intro frees_inI releases_contexts) auto
  have "frees_in keeps_globals (shape ?v) (G \<union> {nxt w}) (\<lambda>u. Option.bind (free_args arr u) (mfree (nxt w)))"
    by (rule frees_in_then [OF _ releases_mfree]) (use r(7) v d proxy in auto)
  then have f: "frees_in keeps_globals (shape ?v) (?C \<union> (G \<union> {nxt w})) ?free"
    by (rule frees_in_bind [OF fc]) (use d in auto)
  let ?S = "{nxt w'..<nxt w' + length (cs w')} - ?C"
  have "rig w 1 F w' (length (cs w')) - (?C \<union> (G \<union> {nxt w})) = (F - G) \<union> ?S"
    using d len [of w'] by (auto simp: rig_def)
  moreover have "card ?S = Suc m" using len [of w'] by (subst card_Diff_subset) auto
  moreover have "finite F" using d(1) finite_subset by blast
  moreover have "(F - G) \<inter> ?S = {}" using d(1) by auto
  ultimately have k: "card (rig w 1 F w' (length (cs w')) - (?C \<union> (G \<union> {nxt w}))) = lost + Suc m"
    using r(5) by (simp add: card_Un_disjoint)
  have sub: "?C \<union> (G \<union> {nxt w}) \<subseteq> rig w 1 F w' (length (cs w'))" using d len [of w'] by (auto simp: rig_def)
  have "obs ?v = obs w" using r(3) by (simp add: reset_counter_def)
  from run_frame [OF assms(2) r(2) this 8(2) f sub k, where x = "()"] r(1) 8(1) show ?thesis by auto
qed

end

text \<open>The supply of inputs.\<close>

locale input_supply = struct_supply alloc free_args pre keeps_globals lost serves
  for alloc :: "world \<Rightarrow> ((ptr \<times> (ptr \<times> ptr list) list) \<times> world) option"
    and free_args :: "ptr \<times> (ptr \<times> ptr list) list \<Rightarrow> world \<Rightarrow> world option"
    and pre :: "world \<Rightarrow> bool" and keeps_globals :: bool and lost :: nat
    and serves :: "shape \<Rightarrow> (ptr \<times> ptr list) list \<Rightarrow> bool"

context input_supply
begin

lemma gpcore_closed_loop:
  assumes "pre w" and "fresh w" and "A n = alloc" and "Fr n = free_args" and len: "\<And>K xs. serves K xs \<Longrightarrow> length xs = n"
    and serve: "\<And>K m xs as. serves K xs \<Longrightarrow> core_args_for n xs as \<Longrightarrow> quiet_requests hw K m n f as"
    and "0 < q" and "kinds w ex = Some (KWords l)" and "idx < l"
  shows "\<exists>w'. gpcore_closed_loop_test hw f A Fr q n ex (int idx) w = Some (Done w' ()) \<and> leaves (int n) [] (lost + n + 2) w w'"
proof -
  let ?cs = "\<lambda>w' :: world. Opaque # replicate n Opaque @ replicate (Suc n) Opaque"
  let ?as = "\<lambda>xs w'. map (\<lambda>i. gpcore_arg hw xs None (nxt w' + Suc (Suc n) + i) i) [0..<n]"
  let ?exec = "\<lambda>arr w'. execute_gpcore_requests_closed_system_with_sampling hw (int n) (?as (snd arr) w') (replicate n f) ex (int idx)"
  have ex: "ex < nxt w" using assms(2,8) by (auto simp: fresh_kinds not_less [symmetric])
  have "\<exists>w8. ?exec arr w' v = Some (Done w8 ()) \<and> ran (shape v) (length (crs v)) (int n) [] v w8"
    if v: "v = reset_counter (put_blocks w' (?cs w'))" "serves (shape v) (snd arr)" "\<forall>p < nxt w. kinds v p = kinds w p" for arr w' v
  proof -
    have "quiet_requests hw (shape v) (length (crs v)) n f (?as (snd arr) w')"
      by (rule serve [OF v(2)]) (simp_all add: core_args_for_def gpcore_arg_sel)
    moreover have "requests_completed v = 0" using v(1) by (simp add: reset_counter_def)
    moreover have "blocks (shape v) ex = Some (KWords l)" using v(3) ex assms(8) by simp
    ultimately show ?thesis using quiet_gpcore_sampling [where K = "shape v"] assms(9) by blast
  qed
  note run = this
  obtain arr w' w3 where r: "alloc (put_blocks w [Opaque]) = Some (arr, w')"
    "after_run (?exec arr w' (reset_counter (put_blocks w' (?cs w'))))
      (\<lambda>u. Option.bind (free_contexts [Suc (nxt w')..<Suc (nxt w') + n] n u) (\<lambda>u. Option.bind (free_args arr u) (mfree (nxt w)))) =
        Some (Done w3 ())" "leaves (int n) [] (lost + Suc (Suc n)) w w3"
    using core_run [OF assms(1,2), where cs = ?cs and exec = ?exec and m = "Suc n" and n = n and c = "int n" and subs = "[]"] run by fastforce
  have "length (snd arr) = n"
  proof -
    obtain arr2 w2 F G where "alloc (put_blocks w [Opaque]) = Some (arr2, w2)" "serves (shape (put_blocks w2 (?cs w2))) (snd arr2)"
      using core_rig [OF assms(1,2), of ?cs] by blast
    then show ?thesis using r(1) len by simp
  qed
  note args = alloc_gpcore_array_put [OF this, of hw None "put_blocks w' (Opaque # replicate n Opaque)"]
  have "gpcore_closed_loop_test hw f A Fr q n ex (int idx) w = Some (Done w3 ())"
    using r(1,2) assms(3,4,7) args
    by (simp add: gpcore_closed_loop_test_def malloc_first put_put sampling_array_def c_div_def create_contexts_put add.assoc
        del: upt_Suc replicate_Suc)
  with r(3) show ?thesis by (simp add: add.commute add.left_commute)
qed

lemma gpcore_breakdown:
  assumes "pre w" and "fresh w" and "A n = alloc" and "Fr n = free_args" and len: "\<And>K xs. serves K xs \<Longrightarrow> length xs = n"
    and serve: "\<And>K m xs as. serves K xs \<Longrightarrow> core_args_for n xs as \<Longrightarrow> core_stamps K n as \<Longrightarrow> quiet_requests hw K m n f as"
    and n: "0 < n" "n < 2 ^ 31" and "kinds w p = Some (KWords l)" and "idx < l" and "kinds w q = Some (KWords l')" and "idx < l'"
  shows "\<exists>w'. gpcore_request_breakdown hw f A Fr n p q (int idx) w = Some (Done w' ()) \<and> leaves (int n) [] (lost + n + 5) w w'"
proof -
  let ?a = "\<lambda>w' :: world. nxt w' + Suc n"
  let ?tsb = "\<lambda>w'. [fresh_words hw n (?a w'), fresh_words hw n (Suc (?a w')), fresh_words hw n (Suc (Suc (?a w')))]"
  let ?cs = "\<lambda>w'. Opaque # replicate n Opaque @ ?tsb w' @ replicate (Suc n) Opaque"
  let ?ts = "\<lambda>w'. Some (?a w', Suc (?a w'), Suc (Suc (?a w')))"
  let ?as = "\<lambda>xs w'. map (\<lambda>i. gpcore_arg hw xs (?ts w') (Suc (?a w' + 3) + i) i) [0..<n]"
  let ?exec = "\<lambda>arr w'. execute_gpcore_requests_closed_system_request_breakdown (int n) (?as (snd arr) w') (replicate n f) p q (int idx)"
  have pq: "p < nxt w" "q < nxt w" using assms(2,9,11) by (auto simp: fresh_kinds not_less [symmetric])
  have "\<exists>w8. ?exec arr w' v = Some (Done w8 ()) \<and> ran (shape v) (length (crs v)) (int n) [] v w8"
    if v: "v = reset_counter (put_blocks w' (?cs w'))" "serves (shape v) (snd arr)" "\<forall>p < nxt w. kinds v p = kinds w p"
      "\<forall>i < length (?cs w'). kinds v (nxt w' + i) = Some (kind_of (?cs w' ! i))" for arr w' v
  proof -
    have ts: "kinds v (?a w') = Some (KWords n)" "kinds v (Suc (?a w')) = Some (KWords n)" "kinds v (Suc (Suc (?a w'))) = Some (KWords n)"
      using v(4) [rule_format, of "Suc n"] v(4) [rule_format, of "Suc (Suc n)"] v(4) [rule_format, of "Suc (Suc (Suc n))"]
      by (simp_all add: nth_append)
    have q: "quiet_requests hw (shape v) (length (crs v)) n f (?as (snd arr) w')"
      by (rule serve [OF v(2)]) (use ts in \<open>simp_all add: core_args_for_def core_stamps_def gpcore_arg_sel core_timed_args_def\<close>)
    have hd: "hd (?as (snd arr) w') = gpcore_arg hw (snd arr) (?ts w') (Suc (?a w' + 3)) 0" using n(1) by (simp add: hd_map)
    have "requests_completed v = 0" using v(1) by (simp add: reset_counter_def)
    from quiet_gpcore_breakdown [OF q refl refl this n, of p l idx q l'] v(3) pq assms(9-) ts hd show ?thesis
      by (simp add: gpcore_arg_sel)
  qed
  note run = this
  obtain arr w' w3 where r: "alloc (put_blocks w [Opaque]) = Some (arr, w')"
    "after_run (?exec arr w' (reset_counter (put_blocks w' (?cs w'))))
      (\<lambda>u. Option.bind (free_contexts [Suc (nxt w')..<Suc (nxt w') + n] n u) (\<lambda>u. Option.bind (free_args arr u) (mfree (nxt w)))) =
        Some (Done w3 ())" "leaves (int n) [] (lost + Suc (Suc n + 3)) w w3"
    using core_run [OF assms(1,2), where cs = ?cs and exec = ?exec and m = "Suc n + 3" and n = n and c = "int n" and subs = "[]"] run by fastforce
  have "length (snd arr) = n"
  proof -
    obtain arr2 w2 F G where "alloc (put_blocks w [Opaque]) = Some (arr2, w2)" "serves (shape (put_blocks w2 (?cs w2))) (snd arr2)"
      using core_rig [OF assms(1,2), of ?cs] by blast
    then show ?thesis using r(1) len by simp
  qed
  note args = alloc_gpcore_array_put [OF this, of hw "?ts w'" "put_blocks w' (Opaque # replicate n Opaque @ ?tsb w')"]
  have "gpcore_request_breakdown hw f A Fr n p q (int idx) w = Some (Done w3 ())"
    using r(1,2) assms(3,4) args
    by (simp add: gpcore_request_breakdown_def malloc_first put_put create_contexts_put malloc_words_def add.assoc eval_nat_numeral
        del: upt_Suc replicate_Suc)
  moreover have "lost + Suc (Suc n + 3) = lost + n + 5" by simp
  ultimately show ?thesis using r(3) by metis
qed

end

section \<open>The decompress-and-hash requests\<close>

lemma inputs_good_lost:
  assumes "inputs_good P own m i a F G K"
  shows "finite F \<and> card (F - G) = own - m"
proof -
  let ?xs = "take own (snd a)" and ?ys = "take m (snd a)"
  have i: "own \<le> length (snd a)" "m \<le> own" "distinct (fst a # ?xs)" "F = set (fst a # ?xs)" "G = set (fst a # ?ys)"
    using assms by (simp_all add: inputs_good_def)
  have s: "set ?ys \<subseteq> set ?xs" using i(2) by (rule set_take_subset_set_take)
  have "F - G = set ?xs - set ?ys" using i(3-5) by auto
  moreover have "card (set ?xs - set ?ys) = own - m"
    using s i(1-3) distinct_card [of ?xs] distinct_card [of ?ys] distinct_take [of ?xs m]
    by (subst card_Diff_subset) (simp_all add: min_def)
  ultimately show ?thesis using i(4) by simp
qed

definition mc_structs :: "env \<Rightarrow> nat \<Rightarrow> shape \<Rightarrow> (ptr \<times> ptr list) list \<Rightarrow> bool" where
  "mc_structs hw n K xs \<longleftrightarrow> length xs = n \<and> (\<forall>i < n. mc_inputs hw (snd (xs ! i)) (blocks K))"

interpretation mc_supply: input_supply "compressed_mc_req_allocator hw n" "compressed_mc_req_free n" "\<lambda>w. deflate_ok hw" True n
    "mc_structs hw n" for hw n
  unfolding input_supply_def compressed_mc_req_allocator_def compressed_mc_req_free_def
proof (rule array_supplies [OF mc_reqs.allocator_axioms])
  show "mc_structs hw n K xs" if "length xs = n" "\<forall>i < n. \<exists>F G. inputs_good (mc_inputs hw) 3 2 i (xs ! i) F G (blocks K)" for K xs
    using that by (auto simp: mc_structs_def inputs_good_def)
  show "finite F \<and> card (F - G) = 1" if "inputs_good (mc_inputs hw) 3 2 i a F G K" for K i a F G
    using inputs_good_lost [OF that] by simp
qed simp_all

lemma mc_core_inputs:
  "length (g_query hw) \<le> iaa_compress_max_dest_size hw \<Longrightarrow> mc_inputs hw (g_inputs a) (blocks K) \<Longrightarrow> core_hash_inputs hw K a"
  by (auto simp: mc_inputs_def core_hash_inputs_def buffer_of_def)

text \<open>What the properties of the hash requests on the core assume of the machine.\<close>

definition core_hash_machine :: "env \<Rightarrow> bool" where
  "core_hash_machine hw \<longleftrightarrow> hash_machine hw \<and> inflate_ok hw"

lemma core_hash_quiet:
  assumes "core_hash_machine hw" and "mc_structs hw n K xs" and "core_args_for n xs as"
  shows "quiet_requests hw K m n (cpu_decompress_and_hash hw) as"
    and "core_stamps K n as \<Longrightarrow> quiet_requests hw K m n (cpu_decompress_and_hash_stamped hw) as"
proof -
  have hw: "env_ok hw" "inflate_ok hw" "length (g_query hw) \<le> iaa_compress_max_dest_size hw"
    using assms(1) by (simp_all add: core_hash_machine_def hash_machine_def)
  have i: "core_hash_inputs hw K (as ! i)" if "i < n" for i
    using that assms(2,3) by (intro mc_core_inputs [OF hw(3)]) (simp add: mc_structs_def core_args_for_def)
  then show "quiet_requests hw K m n (cpu_decompress_and_hash hw) as"
    using assms(3) cpu_decompress_and_hash_fin [OF hw(1,2)] by (simp add: quiet_requests_def core_args_for_def)
  show "quiet_requests hw K m n (cpu_decompress_and_hash_stamped hw) as" if "core_stamps K n as"
    using that i assms(3) cpu_decompress_and_hash_stamped_fin [OF hw(1,2)]
    unfolding quiet_requests_def core_args_for_def core_stamps_def by blast
qed

lemma core_hash_offered_load_ok:
  assumes "core_hash_machine hw" and "fresh w" and "0 < q" and "kinds w ex = Some (KWords l)" and "idx < l"
  shows "\<exists>w'. gpcore_closed_loop_test hw (cpu_decompress_and_hash hw) (compressed_mc_req_allocator hw) compressed_mc_req_free
      q n ex (int idx) w = Some (Done w' ()) \<and> leaves (int n) [] (2 * n + 2) w w'"
proof -
  have d: "deflate_ok hw" using assms(1) by (simp add: core_hash_machine_def hash_machine_def)
  have len: "mc_structs hw n K xs \<Longrightarrow> length xs = n" for K xs by (simp add: mc_structs_def)
  show ?thesis
    unfolding mult_2
    by (rule mc_supply.gpcore_closed_loop [where A = "compressed_mc_req_allocator hw" and Fr = compressed_mc_req_free
        and hw = hw and n = n and l = l and f = "cpu_decompress_and_hash hw", OF d assms(2) refl refl len _ assms(3-5)])
      (assumption, rule core_hash_quiet(1) [OF assms(1)])
qed

lemma core_hash_breakdown_ok:
  assumes "core_hash_machine hw" and "fresh w" and "0 < n" and "n < 2 ^ 31"
    and "kinds w p = Some (KWords l)" and "idx < l" and "kinds w q = Some (KWords l')" and "idx < l'"
  shows "\<exists>w'. gpcore_request_breakdown hw (cpu_decompress_and_hash_stamped hw) (compressed_mc_req_allocator hw) compressed_mc_req_free
      n p q (int idx) w = Some (Done w' ()) \<and> leaves (int n) [] (2 * n + 5) w w'"
proof -
  have d: "deflate_ok hw" using assms(1) by (simp add: core_hash_machine_def hash_machine_def)
  have len: "mc_structs hw n K xs \<Longrightarrow> length xs = n" for K xs by (simp add: mc_structs_def)
  show ?thesis
    unfolding mult_2
    by (rule mc_supply.gpcore_breakdown [where A = "compressed_mc_req_allocator hw" and Fr = compressed_mc_req_free
        and hw = hw and n = n and f = "cpu_decompress_and_hash_stamped hw", OF d assms(2) refl refl len _ assms(3-)])
      (assumption, rule core_hash_quiet(2) [OF assms(1)])
qed

end
