(* ===== verification/Fillers.thy ===== *)
theory Fillers
  imports Harness_Runs Requests_Memcpy
begin

text \<open>
  The fillers: fibers that use the time of an offload and give it back at a probe point
  (\<open>inc/probe_point.h\<close>, \<open>inc/inline/probe_point.ipp\<close>).  A filler works from one probe point to the
  next; at a probe point it reads the completion record it was last switched to with, and switches
  back to the scheduler when the record is completed.  Modelled are \<open>hash_interleaved\<close>
  (\<open>inc/filler_hash.h\<close>), \<open>antagonist_interleaved\<close> and \<open>icache_antagonist_interleaved\<close>
  (\<open>inc/filler_antagonist.h\<close>), \<open>dotproduct_interleaved\<close> (\<open>inc/filler_dp.h\<close>) and
  \<open>scatter_interleaved\<close> (\<open>decomp_and_scatter.cpp\<close>).

  The globals \<open>p_sig\<close> and \<open>sched_ctx\<close> belong to the filler that runs: \<open>init_probe\<close> and the return
  of every switch set \<open>p_sig\<close> to the record of that switch, so it is the argument of the slice.  The
  code switches back to the context that \<open>init_probe\<close> saved, also after later switches; the model
  switches back to the scheduler that resumed the filler.
\<close>

section \<open>Probe points\<close>

definition SIGNAL_SET :: u8 where "SIGNAL_SET = COMP_STATUS_COMPLETED"

definition is_signal_set :: "env \<Rightarrow> nat \<Rightarrow> world \<Rightarrow> (bool \<times> world) option" where
  "is_signal_set hw signal w = do { (s, w) \<leftarrow> read_status hw signal w; Some (s = SIGNAL_SET, w) }"

text \<open>A filler from a probe point on.  \<open>work\<close> is what it does between two probe points, on its local
  variables and the world; the result is the state at the probe point that saw the signal.\<close>

partial_function (option) until_signal ::
  "env \<Rightarrow> ('l \<Rightarrow> world \<Rightarrow> ('l \<times> world) option) \<Rightarrow> nat \<Rightarrow> 'l \<Rightarrow> world \<Rightarrow> ('l \<times> world) option" where
  "until_signal hw work p_sig l w =
    Option.bind (is_signal_set hw p_sig w) (\<lambda>(set, w).
      if set then Some (l, w)
      else Option.bind (work l w) (\<lambda>(l, w). until_signal hw work p_sig l w))"

text \<open>The code after a probe point, with the record the filler is resumed with.\<close>

definition after_probe ::
  "env \<Rightarrow> ('l \<Rightarrow> world \<Rightarrow> ('l \<times> world) option) \<Rightarrow> nat \<Rightarrow> 'l \<Rightarrow> world \<Rightarrow> ('l \<times> world) option" where
  "after_probe hw work p_sig l w = do { (l, w) \<leftarrow> work l w; until_signal hw work p_sig l w }"

text \<open>A filler that has switched back; it can be resumed as often as the scheduler likes.\<close>

primcorec suspended :: "(nat \<Rightarrow> 'l \<Rightarrow> world \<Rightarrow> ('l \<times> world) option) \<Rightarrow> 'l \<Rightarrow> world \<Rightarrow> world slice" where
  "suspended resume l w =
    Yield w (\<lambda>p_sig v. map_option (\<lambda>lv. suspended resume (fst lv) (snd lv)) (resume p_sig l v))"

definition slice_of :: "env \<Rightarrow> ('l \<Rightarrow> world \<Rightarrow> ('l \<times> world) option) \<Rightarrow> ('l \<times> world) option \<Rightarrow> world slice option" where
  "slice_of hw work r = map_option (\<lambda>lv. suspended (after_probe hw work) (fst lv) (snd lv)) r"

lemma slice_of_None [simp]: "slice_of hw work None = None"
  by (simp add: slice_of_def)

lemma slice_of_Some [simp]:
  "slice_of hw work (Some (l, w)) = Some (Yield w (\<lambda>p_sig v. slice_of hw work (after_probe hw work p_sig l v)))"
  unfolding slice_of_def by (simp, subst suspended.code, rule refl)

text \<open>Fillers whose first action is a probe point, and fillers that work first.\<close>

definition probes_first :: "env \<Rightarrow> ('l \<Rightarrow> world \<Rightarrow> ('l \<times> world) option) \<Rightarrow> 'l \<Rightarrow> fiber" where
  "probes_first hw work l p_sig w = slice_of hw work (until_signal hw work p_sig l w)"

definition works_first :: "env \<Rightarrow> ('l \<Rightarrow> world \<Rightarrow> ('l \<times> world) option) \<Rightarrow> 'l \<Rightarrow> fiber" where
  "works_first hw work l p_sig w = slice_of hw work (after_probe hw work p_sig l w)"

section \<open>The fillers of the repository\<close>

text \<open>\<open>hash_interleaved\<close> only probes.\<close>

definition hash_interleaved :: "env \<Rightarrow> fiber" where
  "hash_interleaved hw = probes_first hw (\<lambda>_ w. Some ((), w)) ()"

text \<open>The antagonist: \<open>buf_size\<close> already counts the elements, so the loop passes over a quarter of
  the buffer.  The local variables are the loop index and the buffer, whose initial contents are
  whatever is on the stack; signed overflow is undefined.\<close>

definition antagonist_buf_size :: nat where "antagonist_buf_size = 48 * 1024 div 4"

definition antagonist_passes :: nat where "antagonist_passes = antagonist_buf_size div 4"

definition int_incr :: "int \<Rightarrow> int option" where
  "int_incr x = (if x < 2 ^ 31 - 1 then Some (x + 1) else None)"

definition antagonist_work :: "nat \<times> int list \<Rightarrow> world \<Rightarrow> ((nat \<times> int list) \<times> world) option" where
  "antagonist_work l w = (case l of (i, buffer) \<Rightarrow>
    do {
      i \<leftarrow> (if i < antagonist_passes then Some i
           else do { glb \<leftarrow> arr_get buffer (int antagonist_buf_size - 1); Some 0 });
      buffer \<leftarrow> (if 0 < i then
          do { x \<leftarrow> arr_get buffer (int i - 1); y \<leftarrow> int_incr x; arr_set buffer (int i) y }
        else Some buffer);
      Some ((i + 1, buffer), w)
    })"

definition antagonist_interleaved :: "env \<Rightarrow> int list \<Rightarrow> fiber" where
  "antagonist_interleaved hw stack = works_first hw antagonist_work (0, stack)"

definition icache_antagonist_interleaved :: "env \<Rightarrow> int list \<Rightarrow> fiber" where
  "icache_antagonist_interleaved hw stack = works_first hw antagonist_work (0, stack)"

text \<open>\<open>dotproduct_interleaved\<close> reads \<open>item_buf\<close> once, when it starts, and the global
  \<open>user_filler_buf\<close>, a parameter here.  The sum is never used.  With less than one \<open>float\<close> the loop never probes.\<close>

definition dotproduct_work :: "env \<Rightarrow> ptr \<Rightarrow> ptr \<times> nat \<Rightarrow> world \<Rightarrow> ((ptr \<times> nat) \<times> world) option" where
  "dotproduct_work hw v2 l w = (case l of (v1, i) \<Rightarrow>
    do {
      w \<leftarrow> dot_product_step v1 v2 i w;
      Some ((v1, if Suc i < input_size hw div 4 then Suc i else 0), w)
    })"

definition dotproduct_interleaved :: "env \<Rightarrow> ptr \<Rightarrow> fiber" where
  "dotproduct_interleaved hw user_filler_buf p_sig w =
    (if input_size hw div 4 = 0 then None
     else probes_first hw (dotproduct_work hw user_filler_buf) (g_item_buf w, 0) p_sig w)"

text \<open>\<open>scatter_interleaved\<close> sets entries of \<open>glob_dst_buf\<close>, a parameter here.  Without accesses it
  never probes.\<close>

definition scatter_work :: "env \<Rightarrow> ptr \<Rightarrow> nat \<Rightarrow> world \<Rightarrow> (nat \<times> world) option" where
  "scatter_work hw glob_dst_buf i w =
    (if num_accesses hw = 0 then None
     else do {
       w \<leftarrow> scatter_step glob_dst_buf (g_indir_arr w) i w;
       Some (if Suc i < num_accesses hw then Suc i else 0, w)
     })"

definition scatter_interleaved :: "env \<Rightarrow> ptr \<Rightarrow> fiber" where
  "scatter_interleaved hw glob_dst_buf = works_first hw (scatter_work hw glob_dst_buf) 0"

section \<open>The contract between fillers and schedulers\<close>

text \<open>A filler that gives the processor back in every slice, with the signal set and nothing but
  time, the device and buffers having moved, and can be resumed again.\<close>

coinductive preemptible :: "env \<Rightarrow> shape \<Rightarrow> nat \<Rightarrow> fiber \<Rightarrow> bool" for hw K n where
  preempts: "(\<And>i w. i < n \<Longrightarrow> shape w = K \<Longrightarrow> length (crs w) = n \<Longrightarrow> watched is_completed (crs w ! i) \<Longrightarrow>
      \<exists>w' k'. k i w = Some (Yield w' k') \<and> later hw w w' \<and> is_completed (status (crs w' ! i)) \<and>
        preemptible hw K n k') \<Longrightarrow> preemptible hw K n k"

inductive_cases preemptibleE: "preemptible hw K n k"

text \<open>What a filler relies on is a piece of work that is defined in every state it can be in.\<close>

locale filler_work =
  fixes hw :: env and work :: "'l \<Rightarrow> world \<Rightarrow> ('l \<times> world) option"
    and ok :: "shape \<Rightarrow> bool" and I :: "shape \<Rightarrow> 'l \<Rightarrow> bool"
  assumes step: "ok K \<Longrightarrow> I K l \<Longrightarrow> shape w = K \<Longrightarrow> \<exists>l' w'. work l w = Some (l', w') \<and> I K l' \<and> later hw w w'"
begin

lemma until_signal_done:
  assumes hw: "env_ok hw" "test_ok hw is_completed" and K: "ok K"
    and "I K l" and "shape w = K" and "i < length (crs w)" and "watched is_completed (crs w ! i)"
  shows "\<exists>l' w'. until_signal hw work i l w = Some (l', w') \<and> I K l' \<and> later hw w w' \<and> is_completed (status (crs w' ! i))"
  using assms(4-)
proof (induction "polls_left i w" arbitrary: l w rule: less_induct)
  case less
  let ?w = "tick hw w"
  have rd: "is_signal_set hw i w = Some (is_completed (status (crs ?w ! i)), ?w)"
    using less.prems(3) by (simp add: is_signal_set_def read_status_def Let_def world_simps SIGNAL_SET_def is_completed_def)
  have l: "later hw w ?w" by (rule tick_later [OF hw(1)])
  have wt: "watched is_completed (crs ?w ! i)"
    by (rule watched_later [OF hw(2) later_nth [OF l less.prems(3)] less.prems(4)])
  show ?case
  proof (cases "is_completed (status (crs ?w ! i))")
    case True
    then have "until_signal hw work i l w = Some (l, ?w)" using rd by (subst until_signal.simps) simp
    with l True less.prems(1) show ?thesis by blast
  next
    case False
    with wt have nc: "\<not> completed_at i ?w"
      by (auto simp: watched_def completed_at_def COMP_STATUS_PENDING_def)
    then have "\<not> completed_at i w" using later_completed [OF hw(1) l less.prems(3)] by blast
    with less.prems(4) hw(2) have "job (crs w ! i) \<noteq> None"
      by (auto simp: watched_def completed_at_def test_ok_def)
    then have pl: "polls_left i ?w < polls_left i w" by (rule polls_left_tick [OF hw(1) less.prems(3) _ nc])
    have sh: "shape ?w = K" using later_shape [OF l] less.prems(2) by simp
    obtain l1 w1 where s: "work l ?w = Some (l1, w1)" "I K l1" "later hw ?w w1"
      using step [OF K less.prems(1) sh] by blast
    have i1: "i < length (crs ?w)" using less.prems(3) by (simp add: world_simps)
    have wt1: "watched is_completed (crs w1 ! i)" by (rule watched_later [OF hw(2) later_nth [OF s(3) i1] wt])
    have run: "until_signal hw work i l w = until_signal hw work i l1 w1"
      using rd s(1) False by (subst until_signal.simps) simp
    have "polls_left i w1 \<le> polls_left i ?w"
      using later_nth [OF s(3) i1] s(3) by (auto simp: comp_later_def polls_left_def later_def split: option.splits)
    then have "polls_left i w1 < polls_left i w" using pl by simp
    from less.hyps [OF this s(2) _ _ wt1] i1 sh s(3) obtain l' w' where
      "until_signal hw work i l1 w1 = Some (l', w')" "I K l'" "later hw w1 w'" "is_completed (status (crs w' ! i))"
      by (auto simp: later_length later_shape)
    with run later_trans [OF l later_trans [OF s(3)]] show ?thesis by auto
  qed
qed

lemma after_probe_done:
  assumes hw: "env_ok hw" "test_ok hw is_completed" and K: "ok K"
    and "I K l" and "shape w = K" and "i < length (crs w)" and "watched is_completed (crs w ! i)"
  shows "\<exists>l' w'. after_probe hw work i l w = Some (l', w') \<and> I K l' \<and> later hw w w' \<and> is_completed (status (crs w' ! i))"
proof -
  obtain l1 w1 where s: "work l w = Some (l1, w1)" "I K l1" "later hw w w1" using step [OF K assms(4,5)] by blast
  have "watched is_completed (crs w1 ! i)" by (rule watched_later [OF hw(2) later_nth [OF s(3) assms(6)] assms(7)])
  from until_signal_done [OF hw K s(2) _ _ this] assms(5,6) s(3) obtain l' w' where
    "until_signal hw work i l1 w1 = Some (l', w')" "I K l'" "later hw w1 w'" "is_completed (status (crs w' ! i))"
    by (auto simp: later_length later_shape)
  with s(1) later_trans [OF s(3)] show ?thesis by (auto simp: after_probe_def)
qed

lemma resumed_preemptible:
  assumes hw: "env_ok hw" "test_ok hw is_completed" and K: "ok K" and "I K l"
  shows "preemptible hw K n (\<lambda>p_sig v. slice_of hw work (after_probe hw work p_sig l v))"
  using assms(4)
proof (coinduction arbitrary: l)
  case preemptible
  show ?case
  proof (intro exI [of _ "\<lambda>p_sig v. slice_of hw work (after_probe hw work p_sig l v)"] conjI refl allI impI)
    fix i w assume w: "i < n" "shape w = K" "length (crs w) = n" "watched is_completed (crs w ! i)"
    have "i < length (crs w)" using w(1,3) by simp
    from after_probe_done [OF hw K preemptible w(2) this w(4)] obtain l' w' where
      r: "after_probe hw work i l w = Some (l', w')" "I K l'" "later hw w w'" "is_completed (status (crs w' ! i))" by blast
    then show "\<exists>w' k'. slice_of hw work (after_probe hw work i l w) = Some (Yield w' k') \<and> later hw w w' \<and>
        is_completed (status (crs w' ! i)) \<and>
        ((\<exists>l. k' = (\<lambda>p_sig v. slice_of hw work (after_probe hw work p_sig l v)) \<and> I K l) \<or> preemptible hw K n k')"
      by auto
  qed
qed

lemma works_first_preemptible:
  assumes "env_ok hw" and "test_ok hw is_completed" and "ok K" and "I K l"
  shows "preemptible hw K n (works_first hw work l)"
  using resumed_preemptible [OF assms, of n] by (simp add: works_first_def [abs_def])

lemma probes_first_slice:
  assumes hw: "env_ok hw" "test_ok hw is_completed" and K: "ok K" and "I K l"
    and w: "i < n" "shape w = K" "length (crs w) = n" "watched is_completed (crs w ! i)"
  shows "\<exists>w' k'. probes_first hw work l i w = Some (Yield w' k') \<and> later hw w w' \<and>
    is_completed (status (crs w' ! i)) \<and> preemptible hw K n k'"
proof -
  have "i < length (crs w)" using w(1,3) by simp
  from until_signal_done [OF hw K assms(4) w(2) this w(4)] obtain l' w' where
    r: "until_signal hw work i l w = Some (l', w')" "I K l'" "later hw w w'" "is_completed (status (crs w' ! i))" by blast
  with resumed_preemptible [OF hw K r(2), of n] show ?thesis
    by (auto simp: probes_first_def)
qed

lemma probes_first_preemptible:
  assumes "env_ok hw" and "test_ok hw is_completed" and "ok K" and "I K l"
  shows "preemptible hw K n (probes_first hw work l)"
  by (rule preempts) (rule probes_first_slice [OF assms])

end

section \<open>The fillers keep the contract\<close>

interpretation hash_filler: filler_work hw "\<lambda>_ w. Some ((), w)" "\<lambda>_. True" "\<lambda>_ _. True" for hw
  by unfold_locales auto

text \<open>The antagonist counts up from the first element, which is never written.\<close>

definition antagonist_buffer :: "int \<Rightarrow> nat \<times> int list \<Rightarrow> bool" where
  "antagonist_buffer g l \<longleftrightarrow> (case l of (i, buffer) \<Rightarrow> i \<le> antagonist_passes \<and> length buffer = antagonist_buf_size \<and>
    buffer ! 0 = g \<and> (\<forall>j < i. buffer ! j = g + int j))"

interpretation antagonist: filler_work hw antagonist_work "\<lambda>_. g + int antagonist_passes \<le> 2 ^ 31" "\<lambda>_. antagonist_buffer g"
  for hw g
proof
  fix K l and w :: world
  assume g: "g + int antagonist_passes \<le> 2 ^ 31" and l: "antagonist_buffer g l"
  obtain i buffer where l': "l = (i, buffer)" by (cases l)
  have p: "antagonist_passes = 3072" "antagonist_buf_size = 12288"
    by (simp_all add: antagonist_passes_def antagonist_buf_size_def)
  have b: "i \<le> 3072" "length buffer = 12288" "buffer ! 0 = g" "\<And>j. j < i \<Longrightarrow> buffer ! j = g + int j"
    using l by (simp_all add: l' antagonist_buffer_def p)
  define i' where "i' = (if i < antagonist_passes then i else 0)"
  have i': "(if i < antagonist_passes then Some i else do { glb \<leftarrow> arr_get buffer (int antagonist_buf_size - 1); Some 0 }) = Some i'"
    using b(2) by (simp add: p i'_def arr_get_def)
  show "\<exists>l' w'. antagonist_work l w = Some (l', w') \<and> antagonist_buffer g l' \<and> later hw w w'"
  proof (cases "i' = 0")
    case True
    with i' b show ?thesis by (auto simp: antagonist_work_def l' antagonist_buffer_def p)
  next
    case False
    then have lt: "i' = i" "0 < i" "i < 3072" by (auto simp: i'_def p split: if_splits)
    have "arr_get buffer (int i - 1) = Some (g + int (i - 1))"
      using b(2,4) lt by (simp add: arr_get_def nat_diff_distrib' of_nat_diff)
    moreover have "int_incr (g + int (i - 1)) = Some (g + int i)" using g lt by (simp add: int_incr_def p of_nat_diff)
    moreover have "arr_set buffer (int i) (g + int i) = Some (buffer[i := g + int i])" using b(2) lt by (simp add: arr_simps)
    ultimately have "antagonist_work l w = Some ((i + 1, buffer[i := g + int i]), w)"
      using i' lt by (simp add: antagonist_work_def l')
    moreover have "antagonist_buffer g (i + 1, buffer[i := g + int i])"
      using b lt by (auto simp: antagonist_buffer_def p nth_list_update less_Suc_eq)
    ultimately show ?thesis by blast
  qed
qed

text \<open>The dot product needs both vectors.\<close>

definition vector_at :: "env \<Rightarrow> shape \<Rightarrow> ptr \<Rightarrow> bool" where
  "vector_at hw K p \<longleftrightarrow> (\<exists>m. blocks K p = Some (KBytes m) \<and> input_size hw \<le> m)"

lemma dot_product_step_in_bounds:
  assumes "vector_at hw (shape w) v1" and "vector_at hw (shape w) v2" and "i < input_size hw div 4"
  shows "dot_product_step v1 v2 i w = Some w"
proof -
  obtain xs ys where "get_bytes v1 w = Some xs" "input_size hw \<le> length xs" "get_bytes v2 w = Some ys" "input_size hw \<le> length ys"
    using assms(1,2) by (auto simp: vector_at_def kinds_bytes)
  moreover have "4 * i + 4 \<le> input_size hw" using assms(3) by linarith
  ultimately show ?thesis by (simp add: dot_product_step_def load32_def)
qed

interpretation dotproduct: filler_work hw "dotproduct_work hw v2" "\<lambda>K. vector_at hw K v2 \<and> 4 \<le> input_size hw"
    "\<lambda>K l. vector_at hw K (fst l) \<and> snd l < input_size hw div 4" for hw v2
proof
  fix K l w
  assume a: "vector_at hw K v2 \<and> 4 \<le> input_size hw" "vector_at hw K (fst l) \<and> snd l < input_size hw div 4" "shape w = K"
  have "dot_product_step (fst l) v2 (snd l) w = Some w"
    by (rule dot_product_step_in_bounds [where hw = hw]) (use a in simp_all)
  then show "\<exists>l' w'. dotproduct_work hw v2 l w = Some (l', w') \<and> (vector_at hw K (fst l') \<and> snd l' < input_size hw div 4) \<and> later hw w w'"
    using a(1,2) by (cases l) (simp add: dotproduct_work_def)
qed

text \<open>One scatter step is in bounds where the whole scatter is.\<close>

lemma scatter_step_ok:
  assumes "scatter_args hw (shape w) dst ind" and "i < num_accesses hw"
  shows "\<exists>w'. scatter_step dst ind i w = Some w' \<and> later hw w w'"
proof -
  obtain idxs bs where a: "get_ints ind w = Some idxs" "num_accesses hw \<le> length idxs"
    "get_bytes dst w = Some bs" "floats_fit (length bs) (set idxs)"
    using assms by (auto simp: scatter_args_def kinds_bytes kinds_ints)
  then have "0 \<le> idxs ! i" "4 * (idxs ! i + 1) \<le> int (length bs)" using assms(2) by (auto simp: floats_fit_def)
  from store_float_ok [OF this, of FLOAT_ONE] obtain b2 where
    b2: "store_float bs (idxs ! i) FLOAT_ONE = Some b2" "length b2 = length bs" by blast
  then have "scatter_step dst ind i w = Some (set_bytes dst b2 w)"
    using a assms(2) by (simp add: scatter_step_def arr_simps)
  with later_set_bytes [OF a(3) b2(2)] show ?thesis by blast
qed

interpretation scatter: filler_work hw "scatter_work hw dst"
    "\<lambda>K. scatter_args hw K dst (indir_at K) \<and> 0 < num_accesses hw" "\<lambda>_ i. i < num_accesses hw" for hw dst
proof
  fix K i w
  assume a: "scatter_args hw K dst (indir_at K) \<and> 0 < num_accesses hw" "i < num_accesses hw" "shape w = K"
  then have "scatter_args hw (shape w) dst (g_indir_arr w)" by auto
  from scatter_step_ok [OF this a(2)] a(1) show
    "\<exists>l' w'. scatter_work hw dst i w = Some (l', w') \<and> l' < num_accesses hw \<and> later hw w w'"
    by (auto simp: scatter_work_def)
qed

text \<open>The fillers, with what each needs: a stack value that does not overflow, two vectors, a
  destination and indices.\<close>

lemma hash_interleaved_preemptible:
  "env_ok hw \<Longrightarrow> test_ok hw is_completed \<Longrightarrow> preemptible hw K n (hash_interleaved hw)"
  unfolding hash_interleaved_def by (rule hash_filler.probes_first_preemptible) simp_all

definition stack_ok :: "int list \<Rightarrow> bool" where
  "stack_ok stack \<longleftrightarrow> length stack = antagonist_buf_size \<and> hd stack + int antagonist_passes \<le> 2 ^ 31"

lemma antagonist_interleaved_preemptible:
  assumes "env_ok hw" and "test_ok hw is_completed" and "stack_ok stack"
  shows "preemptible hw K n (antagonist_interleaved hw stack)"
  unfolding antagonist_interleaved_def
proof (rule antagonist.works_first_preemptible [where g = "hd stack", OF assms(1,2)])
  have "stack \<noteq> []" using assms(3) by (auto simp: stack_ok_def antagonist_buf_size_def)
  then show "antagonist_buffer (hd stack) (0, stack)"
    using assms(3) by (simp add: antagonist_buffer_def stack_ok_def hd_conv_nth)
  show "hd stack + int antagonist_passes \<le> 2 ^ 31" using assms(3) by (simp add: stack_ok_def)
qed

lemma dotproduct_interleaved_preemptible:
  assumes "env_ok hw" and "test_ok hw is_completed" and "vector_at hw K (item_at K)" and "vector_at hw K u" and "4 \<le> input_size hw"
  shows "preemptible hw K n (dotproduct_interleaved hw u)"
proof (rule preempts)
  fix i w assume w: "i < n" "shape w = K" "length (crs w) = n" "watched is_completed (crs w ! i)"
  have "vector_at hw K (g_item_buf w)" using assms(3) w(2) by auto
  then have "\<exists>w' k'. probes_first hw (dotproduct_work hw u) (g_item_buf w, 0) i w = Some (Yield w' k') \<and> later hw w w' \<and>
      is_completed (status (crs w' ! i)) \<and> preemptible hw K n k'"
    by (intro dotproduct.probes_first_slice [OF assms(1,2) _ _ w]) (use assms(4,5) in auto)
  moreover have "input_size hw div 4 \<noteq> 0" using assms(5) by simp
  ultimately show "\<exists>w' k'. dotproduct_interleaved hw u i w = Some (Yield w' k') \<and> later hw w w' \<and>
      is_completed (status (crs w' ! i)) \<and> preemptible hw K n k'"
    unfolding dotproduct_interleaved_def by simp
qed

lemma scatter_interleaved_preemptible:
  assumes "env_ok hw" and "test_ok hw is_completed" and "scatter_args hw K dst (indir_at K)" and "0 < num_accesses hw"
  shows "preemptible hw K n (scatter_interleaved hw dst)"
  unfolding scatter_interleaved_def by (rule scatter.works_first_preemptible [OF assms(1,2)]) (use assms(3,4) in simp_all)

end
