(* ===== verification/Filler_Runs.thy ===== *)
theory Filler_Runs
  imports Fillers Harness_Clients
begin

text \<open>
  The executors and harnesses that switch to a filler while an offload is under way
  (\<open>execute_yielding_requests_interleaved\<close> with one filler for the run,
  \<open>execute_yielding_requests_multiple_filler_requests\<close> with one filler for each request), with any
  filler that keeps the contract \<open>preemptible\<close>, and the runs of the repository.
\<close>

section \<open>One offload covered by a filler\<close>

text \<open>The filler that will run next: the suspended one, or the one to start.\<close>

definition next_filler :: "env \<Rightarrow> shape \<Rightarrow> nat \<Rightarrow> fiber option \<Rightarrow> fiber option \<Rightarrow> bool" where
  "next_filler hw K n filler xfer \<longleftrightarrow>
    (\<exists>f. (case xfer of None \<Rightarrow> filler | Some k \<Rightarrow> Some k) = Some f \<and> preemptible hw K n f)"

lemma read_completed:
  assumes "i < length (crs w)"
  shows "read_status hw i w = Some (status (crs (tick hw w) ! i), tick hw w)"
  using assms by (simp add: read_status_def Let_def world_simps)

lemma completed_stays:
  assumes "test_ok hw is_completed" and "later hw w w'" and "i < length (crs w)" and "is_completed (status (crs w ! i))"
  shows "is_completed (status (crs w' ! i))"
  using later_nth [OF assms(2,3)] assms(1,4) by (auto simp: comp_later_def test_ok_def)

lemma filler_loop_completed:
  assumes "is_completed (status (crs (tick hw w) ! i))" and "i < length (crs w)"
  shows "filler_loop hw i filler xfer w = Some (Done (tick hw w) xfer)"
  using assms read_completed [OF assms(2), of hw] by (subst filler_loop.simps) (simp add: is_completed_def)

lemma filler_loop_done:
  assumes hw: "env_ok hw" "test_ok hw is_completed" and f: "next_filler hw K n filler xfer"
    and w: "shape w = K" "length (crs w) = n" "i < n" "watched is_completed (crs w ! i)"
  shows "\<exists>w' xfer'. filler_loop hw i filler xfer w = Some (Done w' xfer') \<and> later hw w w' \<and>
    is_completed (status (crs w' ! i)) \<and> next_filler hw K n filler xfer'"
proof -
  let ?w = "tick hw w"
  have i: "i < length (crs w)" "i < length (crs ?w)" using w(2,3) by (simp_all add: world_simps)
  have l: "later hw w ?w" by (rule tick_later [OF hw(1)])
  show ?thesis
  proof (cases "is_completed (status (crs ?w ! i))")
    case True
    then show ?thesis using filler_loop_completed [OF True i(1), of filler xfer] l f by blast
  next
    case False
    obtain k where k: "(case xfer of None \<Rightarrow> filler | Some k \<Rightarrow> Some k) = Some k" "preemptible hw K n k"
      using f by (auto simp: next_filler_def)
    have wt: "shape ?w = K" "length (crs ?w) = n" "watched is_completed (crs ?w ! i)"
      using later_shape [OF l] later_length [OF l] w(1,2) watched_later [OF hw(2) later_nth [OF l i(1)] w(4)] by simp_all
    obtain w1 k' where r: "k i ?w = Some (Yield w1 k')" "later hw ?w w1" "is_completed (status (crs w1 ! i))" "preemptible hw K n k'"
      using k(2) w(3) wt by (blast elim: preemptibleE)
    have i1: "i < length (crs w1)" using later_length [OF r(2)] i(2) by simp
    have l1: "later hw w1 (tick hw w1)" by (rule tick_later [OF hw(1)])
    have "filler_loop hw i filler xfer w = filler_loop hw i filler (Some k') w1"
      using False read_completed [OF i(1), of hw] k(1) r(1) by (subst filler_loop.simps) (simp add: is_completed_def)
    also have "\<dots> = Some (Done (tick hw w1) (Some k'))"
      by (rule filler_loop_completed [OF completed_stays [OF hw(2) l1 i1 r(3)] i1])
    finally show ?thesis using later_trans [OF l later_trans [OF r(2) l1]] completed_stays [OF hw(2) l1 i1 r(3)] r(4)
      by (auto simp: next_filler_def)
  qed
qed

section \<open>The executors\<close>

definition fillers_ok :: "env \<Rightarrow> shape \<Rightarrow> nat \<Rightarrow> (int \<Rightarrow> fiber option) \<Rightarrow> bool" where
  "fillers_ok hw K n fillers \<longleftrightarrow> (\<forall>c < n. \<exists>f. fillers (int c) = Some f \<and> preemptible hw K n f)"

context yielding_requests
begin

lemma interleaved_done:
  assumes cc: "complete = is_completed" and fl: "fillers_ok hw K n fillers"
    and "sched_inv 1 K n complete o0 0 c c w" and "length xfers = n"
    and "renew \<or> (\<forall>k. filler_xfer = Some k \<longrightarrow> preemptible hw K n k)"
  shows "\<exists>w'. interleaved_loop hw renew (int n) ctxs args fillers filler_xfer xfers w = Some (Done w' ()) \<and>
    sched_inv 1 K n complete o0 0 n n w'"
  using assms(3-)
proof (induction "n - c" arbitrary: c w xfers filler_xfer)
  case 0
  then have "c = n" "requests_completed w = int n" by (simp_all add: sched_inv_def)
  with 0 show ?case by (subst interleaved_loop.simps) simp
next
  case (Suc m)
  let ?xf = "if renew then None else filler_xfer"
  from Suc have c: "c < n" and rc: "requests_completed w = int c" by (simp_all add: sched_inv_def)
  obtain w1 k where st: "start_fiber ctxs args (int c) w = Some (Yield w1 k)"
    "starts hw c w w1" "resumable 1 hw K n complete c k"
    using start [OF c sched_invD [OF Suc.prems(1)]] by blast
  have i1: "sched_inv 1 K n complete o0 0 (Suc c) c w1"
    by (rule sched_inv_starts [OF t Suc.prems(1) c st(2)])
  then have w1: "watched is_completed (crs w1 ! c)" "requests_completed w1 = int c"
    using c cc by (simp_all add: sched_inv_def)
  have nf: "next_filler hw K n (fillers (int c)) ?xf"
    using fl c Suc.prems(3) by (auto simp: next_filler_def fillers_ok_def split: option.splits)
  from filler_loop_done [OF env t [unfolded cc] nf sched_invD [OF i1] c w1(1)] obtain w2 xf where
    w2: "filler_loop hw c (fillers (int c)) ?xf w1 = Some (Done w2 xf)" "later hw w1 w2"
      "is_completed (status (crs w2 ! c))" "next_filler hw K n (fillers (int c)) xf" by blast
  have i2: "sched_inv 1 K n complete o0 0 (Suc c) c w2" by (rule sched_inv_later [OF t w2(2) i1])
  have "complete (status (crs w2 ! c))" using w2(3) cc by simp
  with i2 st(3) obtain w3 k3 where r: "k 0 w2 = Some (Yield w3 k3)" "finishes 1 hw w2 w3"
    by (auto simp: resumable_def sched_inv_def)
  have i3: "sched_inv 1 K n complete o0 0 (Suc c) (Suc c) w3"
    by (rule sched_inv_finishes [OF t i2 _ r(2)]) simp
  have set: "arr_set xfers (int c) (Some k) = Some (xfers[c := Some k])"
    using Suc.prems(2) c by (simp only: arr_set_nat)
  have res: "resume_fiber (xfers[c := Some k]) (int c) 0 w2 = Some (Yield w3 k3)"
    using Suc.prems(2) c r(1) by (simp add: resume_fiber_def arr_simps)
  have rc2: "requests_completed w2 = int c" using i2 by (simp add: sched_inv_def)
  have "interleaved_loop hw renew (int n) ctxs args fillers filler_xfer xfers w =
      interleaved_loop hw renew (int n) ctxs args fillers xf (xfers[c := Some k]) w3"
    using rc c st(1) set w1(2) w2(1) rc2 res by (subst interleaved_loop.simps) simp
  moreover have "\<exists>w'. interleaved_loop hw renew (int n) ctxs args fillers xf (xfers[c := Some k]) w3 = Some (Done w' ()) \<and>
      sched_inv 1 K n complete o0 0 n n w'"
    by (rule Suc.hyps(1) [OF _ i3]) (use Suc.hyps(2) Suc.prems(2) w2(4) in \<open>auto simp: next_filler_def\<close>)
  ultimately show ?case by simp
qed

end

context yielding_offloads
begin

lemma interleaved:
  assumes c: "complete = is_completed" and "ready_world K n 0 w" and "length xfers = n"
    and "two_phase_arrays K n (hd args) off wt hash idx" and "preemptible hw K n f"
  shows "\<exists>w'. execute_yielding_requests_interleaved hw (int n) args xfers ctxs f off wt hash (int idx) w =
      Some (Done w' ()) \<and> all_served K n 0 w w'"
proof -
  have "fillers_ok hw K n (\<lambda>_. Some f)" using assms(5) by (simp add: fillers_ok_def)
  from interleaved_done [OF assms(1) this ready_sched_inv [OF assms(2)] assms(3), of False None] obtain w1 where
    l: "interleaved_loop hw False (int n) ctxs args (\<lambda>_. Some f) None xfers w = Some (Done w1 ())"
    "sched_inv 1 K n complete (submit_order w) 0 n n w1" by auto
  with breakdown_served [OF sched_all_served [OF l(2)] assms(4)] show ?thesis
    by (auto simp: execute_yielding_requests_interleaved_def)
qed

lemma multiple_fillers:
  assumes c: "complete = is_completed" and "ready_world K n 0 w" and "length xfers = n"
    and "two_phase_arrays K n (hd args) off wt hash idx" and "\<forall>f \<in> set fs. preemptible hw K n f" and "length fs = n"
  shows "\<exists>w'. execute_yielding_requests_multiple_filler_requests hw (int n) args xfers ctxs fs off wt hash (int idx) w =
      Some (Done w' ()) \<and> all_served K n 0 w w'"
proof -
  have "fillers_ok hw K n (arr_get fs)" using assms(5,6) by (simp add: fillers_ok_def arr_simps)
  from interleaved_done [OF assms(1) this ready_sched_inv [OF assms(2)] assms(3), of True None] obtain w1 where
    l: "interleaved_loop hw True (int n) ctxs args (arr_get fs) None xfers w = Some (Done w1 ())"
    "sched_inv 1 K n complete (submit_order w) 0 n n w1" by auto
  with breakdown_served [OF sched_all_served [OF l(2)] assms(4)] show ?thesis
    by (auto simp: execute_yielding_requests_multiple_filler_requests_def)
qed

end

section \<open>The harnesses\<close>

lemma free_two_arrays:
  assumes "b = a + n" and "c = b + n"
  shows "Option.bind (free_contexts [a..<b] n w) (\<lambda>w. Option.bind (free_contexts [b..<c] n w) g) =
    Option.bind (free_contexts [a..<c] (n + n) w) g"
proof -
  have "[a..<a + (n + n)] = [a..<b] @ [b..<c]"
    using upt_add_eq_append [of a b n] assms by (simp add: add.assoc)
  then have "free_contexts [a..<c] (n + n) w = frees ([a..<b] @ [b..<c]) w"
    using free_contexts_frees [of a "n + n" w] assms by (simp add: add.assoc)
  also have "\<dots> = Option.bind (free_contexts [a..<b] n w) (free_contexts [b..<c] n)"
  proof -
    have "free_contexts [a..<b] n w = frees [a..<b] w" "free_contexts [b..<c] n = frees [b..<c]"
      unfolding assms by (simp_all add: fun_eq_iff free_contexts_frees)
    then show ?thesis by (simp add: frees_append)
  qed
  finally show ?thesis by (simp add: bind_assoc)
qed

context offload_supply
begin

lemma interleaved_breakdown:
  assumes "pre w" and "fresh w" and "result_arrays (kinds w) off wt hash idx" and "0 < n"
    and "A n (nxt w + 1) (nxt w + 2) (nxt w + 3) (nxt w + 4) = alloc" and "Fr n = free_args"
    and serve: "\<And>K args. serves K args \<Longrightarrow> \<forall>i \<in> {1, 2, 3, 4}. blocks K (nxt w + i) = Some (KWords n) \<Longrightarrow>
      has_ts (timed_stamps (nxt w)) (hd args) \<and> yielding_offloads hw K n is_completed (replicate n f) args \<and>
      preemptible hw K n filler"
  shows "\<exists>w'. yielding_same_interleaved_request_breakdown hw f filler A Fr n off wt hash (int idx) w = Some (Done w' ()) \<and>
    harness_done n [0..<n] (lost + 6) w w'"
proof -
  let ?cs = "[Opaque, Opaque, Opaque] @ replicate n Opaque"
  let ?exec = "\<lambda>args. execute_yielding_requests_interleaved hw (int n) args (no_xfers (int n))
    (replicate n f) filler off wt hash (int idx)"
  have "\<exists>w8. ?exec args w1 = Some (Done w8 ()) \<and> served K n 0 [0..<n] w1 w8"
    if "yielding_offloads hw K n is_completed (replicate n f) args \<and> preemptible hw K n filler" "ready_world K n 0 w1"
      "two_phase_arrays K n (hd args) off wt hash idx" for K args w1
    using yielding_offloads.interleaved [OF conjunct1 [OF that(1)] refl that(2) _ that(3) conjunct2 [OF that(1)], of "no_xfers (int n)"]
    by (simp add: no_xfers_def served_all)
  note run = this
  have "\<exists>arr w' w3. alloc (put_blocks (prepared_world n w) (timed_prefix hw n (nxt w))) = Some (arr, w') \<and>
    after_run (?exec (snd arr) (put_blocks w' ?cs))
      (teardown (freed_suffix n 3 [0] (nxt w')) (nxt w + 5) (free_args arr) [nxt w]) = Some (Done w3 ()) \<and>
    harness_done n [0..<n] (5 - length [nxt w] + lost + (3 - length [0 :: nat])) w w3"
    by (rule run_timed [OF assms(1,2,3,7) run]) simp_all
  then obtain arr w' w3 where r: "alloc (put_blocks (prepared_world n w) (timed_prefix hw n (nxt w))) = Some (arr, w')"
    "after_run (?exec (snd arr) (put_blocks w' ?cs))
      (teardown (freed_suffix n 3 [0] (nxt w')) (nxt w + 5) (free_args arr) [nxt w]) = Some (Done w3 ())"
    "harness_done n [0..<n] (5 - length [nxt w] + lost + (3 - length [0 :: nat])) w w3" by blast
  have "yielding_same_interleaved_request_breakdown hw f filler A Fr n off wt hash (int idx) w = Some (Done w3 ())"
    using r(1,2) assms(4,5,6)
    by (simp add: yielding_same_interleaved_request_breakdown_def teardown_def [abs_def] harness_simps timed_prefix_def
        eval_nat_numeral del: upt_Suc)
  with r(3) show ?thesis by (simp add: add.commute eval_nat_numeral)
qed

lemma multiple_fillers_breakdown:
  assumes "pre w" and "fresh w" and "result_arrays (kinds w) off wt hash idx" and "0 < n"
    and "A n (nxt w + 1) (nxt w + 2) (nxt w + 3) (nxt w + 4) = alloc" and "Fr n = free_args"
    and serve: "\<And>K args. serves K args \<Longrightarrow> \<forall>i \<in> {1, 2, 3, 4}. blocks K (nxt w + i) = Some (KWords n) \<Longrightarrow>
      has_ts (timed_stamps (nxt w)) (hd args) \<and> yielding_offloads hw K n is_completed (replicate n f) args \<and>
      preemptible hw K n filler"
  shows "\<exists>w'. yielding_multiple_filler_request_breakdown hw f filler A Fr n off wt hash (int idx) w = Some (Done w' ()) \<and>
    harness_done n [0..<n] (lost + 6) w w'"
proof -
  let ?cs = "[Opaque, Opaque, Opaque] @ replicate (n + n) Opaque"
  let ?exec = "\<lambda>args. execute_yielding_requests_multiple_filler_requests hw (int n) args (no_xfers (int n))
    (replicate n f) (replicate n filler) off wt hash (int idx)"
  have "\<exists>w8. ?exec args w1 = Some (Done w8 ()) \<and> served K n 0 [0..<n] w1 w8"
    if "yielding_offloads hw K n is_completed (replicate n f) args \<and> preemptible hw K n filler" "ready_world K n 0 w1"
      "two_phase_arrays K n (hd args) off wt hash idx" for K args w1
  proof -
    have "\<forall>f \<in> set (replicate n filler). preemptible hw K n f" using that(1) by simp
    from yielding_offloads.multiple_fillers [OF conjunct1 [OF that(1)] refl that(2) _ that(3) this, of "no_xfers (int n)"]
    show ?thesis by (simp add: no_xfers_def served_all)
  qed
  note run = this
  have "\<exists>arr w' w3. alloc (put_blocks (prepared_world n w) (timed_prefix hw n (nxt w))) = Some (arr, w') \<and>
    after_run (?exec (snd arr) (put_blocks w' ?cs))
      (teardown (freed_suffix (n + n) 3 [0] (nxt w')) (nxt w + 5) (free_args arr) [nxt w]) = Some (Done w3 ()) \<and>
    harness_done n [0..<n] (5 - length [nxt w] + lost + (3 - length [0 :: nat])) w w3"
    by (rule run_timed [OF assms(1,2,3,7) run]) simp_all
  then obtain arr w' w3 where r: "alloc (put_blocks (prepared_world n w) (timed_prefix hw n (nxt w))) = Some (arr, w')"
    "after_run (?exec (snd arr) (put_blocks w' ?cs))
      (teardown (freed_suffix (n + n) 3 [0] (nxt w')) (nxt w + 5) (free_args arr) [nxt w]) = Some (Done w3 ())"
    "harness_done n [0..<n] (5 - length [nxt w] + lost + (3 - length [0 :: nat])) w w3" by blast
  have "yielding_multiple_filler_request_breakdown hw f filler A Fr n off wt hash (int idx) w = Some (Done w3 ())"
    using r(1,2) assms(4,5,6)
    by (simp add: yielding_multiple_filler_request_breakdown_def teardown_def [abs_def] harness_simps timed_prefix_def
        eval_nat_numeral replicate_add free_two_arrays add.assoc del: upt_Suc)
  with r(3) show ?thesis by (simp add: add.commute eval_nat_numeral)
qed

end

section \<open>Device errors\<close>

text \<open>A record that never gets the status of a successful operation.\<close>

definition never_succeeds :: "env \<Rightarrow> nat \<Rightarrow> world \<Rightarrow> bool" where
  "never_succeeds hw i w \<longleftrightarrow> i < length (crs w) \<and> \<not> is_completed (status (crs w ! i)) \<and>
    (\<forall>x t. job (crs w ! i) = Some (x, t) \<longrightarrow> \<not> is_completed (verdict_of hw x))"

lemma never_succeeds_later: "later hw w w' \<Longrightarrow> never_succeeds hw i w \<Longrightarrow> never_succeeds hw i w'"
  using later_nth [of hw w w' i] later_length [of hw w w'] by (auto simp: never_succeeds_def comp_later_def)

context filler_work
begin

lemma error_hangs_probe:
  assumes hw: "env_ok hw" and K: "ok K" and "I K l" and "shape w = K" and "never_succeeds hw i w"
  shows "until_signal hw work i l w = None"
proof (rule ccontr)
  define P where "P = (\<lambda>h wk p l w (r :: 'l \<times> world). h = hw \<and> wk = work \<and> I K l \<and> shape w = K \<and> never_succeeds hw p w \<longrightarrow> False)"
  assume "until_signal hw work i l w \<noteq> None"
  then obtain r where r: "until_signal hw work i l w = Some r" by blast
  have "P hw work i l w r"
  proof (rule until_signal.raw_induct [where P = P, OF _ r])
    fix rec h wk p l w r
    assume IH: "\<And>h wk p l w r. rec h wk p l w = Some r \<Longrightarrow> P h wk p l w r"
      and unrolled: "Option.bind (is_signal_set h p w) (\<lambda>(set, w).
        if set then Some (l, w) else Option.bind (wk l w) (\<lambda>(l, w). rec h wk p l w)) = Some r"
    show "P h wk p l w r"
      unfolding P_def
    proof
      assume a: "h = hw \<and> wk = work \<and> I K l \<and> shape w = K \<and> never_succeeds hw p w"
      let ?w = "tick hw w"
      have t: "later hw w ?w" by (rule tick_later [OF hw])
      have n1: "never_succeeds hw p ?w" using never_succeeds_later [OF t] a by blast
      have rd: "is_signal_set hw p w = Some (False, ?w)"
        using a n1 by (simp add: is_signal_set_def read_completed never_succeeds_def SIGNAL_SET_def is_completed_def)
      have sh: "shape ?w = K" using later_shape [OF t] a by simp
      obtain l1 w1 where s: "work l ?w = Some (l1, w1)" "I K l1" "later hw ?w w1" using step [OF K _ sh] a by blast
      have "rec h wk p l1 w1 = Some r" using unrolled rd s(1) a by simp
      from IH [OF this] show False
        using s(2) later_shape [OF s(3)] sh never_succeeds_later [OF s(3) n1] a by (simp add: P_def)
    qed
  qed
  with assms(3-5) show False by (simp add: P_def)
qed

lemma error_hangs_slice:
  assumes "env_ok hw" and "ok K" and "I K l" and "shape w = K" and "never_succeeds hw i w"
  shows "probes_first hw work l i w = None" and "works_first hw work l i w = None"
proof -
  show "probes_first hw work l i w = None"
    using error_hangs_probe [OF assms] by (simp add: probes_first_def)
  obtain l1 w1 where s: "work l w = Some (l1, w1)" "I K l1" "later hw w w1" using step [OF assms(2,3,4)] by blast
  have "shape w1 = K" using later_shape [OF s(3)] assms(4) by simp
  from error_hangs_probe [OF assms(1,2) s(2) this never_succeeds_later [OF s(3) assms(5)]] s(1)
  show "works_first hw work l i w = None" by (simp add: works_first_def after_probe_def)
qed

end

text \<open>The fillers of the repository in a heap that has what they use.\<close>

definition repo_filler :: "env \<Rightarrow> shape \<Rightarrow> fiber \<Rightarrow> bool" where
  "repo_filler hw K f \<longleftrightarrow> f = hash_interleaved hw \<or>
    (\<exists>stack. stack_ok stack \<and> (f = antagonist_interleaved hw stack \<or> f = icache_antagonist_interleaved hw stack)) \<or>
    (\<exists>u. vector_at hw K (item_at K) \<and> vector_at hw K u \<and> 4 \<le> input_size hw \<and> f = dotproduct_interleaved hw u) \<or>
    (\<exists>dst. scatter_args hw K dst (indir_at K) \<and> 0 < num_accesses hw \<and> f = scatter_interleaved hw dst)"

lemma icache_antagonist_same: "icache_antagonist_interleaved = antagonist_interleaved"
  by (simp add: fun_eq_iff icache_antagonist_interleaved_def antagonist_interleaved_def)

lemma repo_filler_preemptible:
  assumes "env_ok hw" and "test_ok hw is_completed" and "repo_filler hw K f"
  shows "preemptible hw K n f"
  using assms(3) unfolding repo_filler_def icache_antagonist_same
  by (auto intro: hash_interleaved_preemptible antagonist_interleaved_preemptible dotproduct_interleaved_preemptible
      scatter_interleaved_preemptible assms(1,2))

lemma repo_filler_hangs:
  assumes hw: "env_ok hw" and f: "repo_filler hw (shape w) f" and w: "never_succeeds hw i w"
  shows "f i w = None"
proof -
  consider "f = hash_interleaved hw" | stack where "stack_ok stack" "f = antagonist_interleaved hw stack"
    | u where "vector_at hw (shape w) (g_item_buf w)" "vector_at hw (shape w) u" "4 \<le> input_size hw" "f = dotproduct_interleaved hw u"
    | dst where "scatter_args hw (shape w) dst (indir_at (shape w))" "0 < num_accesses hw" "f = scatter_interleaved hw dst"
    using f unfolding repo_filler_def icache_antagonist_same by auto
  then show ?thesis
  proof cases
    case 1
    then show ?thesis unfolding hash_interleaved_def using hash_filler.error_hangs_slice(1) [OF hw _ _ refl w] by simp
  next
    case 2
    have "antagonist_buffer (hd stack) (0, stack)"
      using 2(1) by (cases stack) (simp_all add: antagonist_buffer_def stack_ok_def antagonist_buf_size_def)
    then show ?thesis using 2 antagonist.error_hangs_slice(2) [OF hw _ _ refl w, of "hd stack"]
      by (simp add: antagonist_interleaved_def stack_ok_def)
  next
    case 3
    then show ?thesis using dotproduct.error_hangs_slice(1) [OF hw _ _ refl w, of u "(g_item_buf w, 0)"]
      by (simp add: dotproduct_interleaved_def)
  next
    case 4
    then show ?thesis using scatter.error_hangs_slice(2) [OF hw _ _ refl w, of dst 0]
      by (simp add: scatter_interleaved_def)
  qed
qed

section \<open>Properties\<close>

lemma hash_interleaved_serve:
  assumes "hash_machine hw" and "0 < n" and "n < 2 ^ 31" and "\<And>K. repo_filler hw K filler"
    and "hash_structs hw (timed_stamps a) n K args" and "\<forall>i \<in> {1, 2, 3, 4}. blocks K (a + i) = Some (KWords n)"
  shows "has_ts (timed_stamps a) (hd args) \<and>
    yielding_offloads hw K n is_completed (replicate n (yielding_decompress_and_hash_request_stamped hw)) args \<and>
    preemptible hw K n filler"
proof -
  have hw: "env_ok hw" "\<forall>d. verdict hw d = COMP_STATUS_COMPLETED" "length (g_query hw) \<le> iaa_compress_max_dest_size hw"
    using assms(1) by (simp_all add: hash_machine_def)
  then have "test_ok hw is_completed" by (intro test_ok_completed) auto
  with hw repo_filler_preemptible [OF hw(1) _ assms(4)] hash_structs_run [OF assms(5,2,3) hw(3)] hash_structs_timed [OF assms(5,6)]
  show ?thesis by (auto intro: yielding_hash_stamped_contract)
qed

text \<open>The filler runs of the decompress-and-hash benchmark in its two variants.\<close>

lemma hash_interleaved_ok:
  assumes "hash_machine hw" and "fresh w" and "0 < n" and "n < 2 ^ 31" and "result_arrays (kinds w) off wt hash idx"
    and "\<And>K. repo_filler hw K filler"
  shows "\<exists>w'. yielding_same_interleaved_request_breakdown hw (yielding_decompress_and_hash_request_stamped hw) filler
      (alloc_decomp_and_hash_offload_args_stamped hw) free_decomp_and_hash_offload_args_stamped n off wt hash (int idx) w =
      Some (Done w' ()) \<and> harness_done n [0..<n] 6 w w'" (is ?same)
    and "\<exists>w'. yielding_multiple_filler_request_breakdown hw (yielding_decompress_and_hash_request_stamped hw) filler
      (alloc_decomp_and_hash_offload_args_stamped hw) free_decomp_and_hash_offload_args_stamped n off wt hash (int idx) w =
      Some (Done w' ()) \<and> harness_done n [0..<n] 6 w w'" (is ?multi)
proof -
  have d: "deflate_ok hw" using assms(1) by (simp add: hash_machine_def)
  note serve = hash_interleaved_serve [OF assms(1,3,4,6)]
  have "\<exists>w'. yielding_same_interleaved_request_breakdown hw (yielding_decompress_and_hash_request_stamped hw) filler
      (alloc_decomp_and_hash_offload_args_stamped hw) free_decomp_and_hash_offload_args_stamped n off wt hash (int idx) w =
      Some (Done w' ()) \<and> harness_done n [0..<n] (0 + 6) w w'"
    by (rule hash_supply.interleaved_breakdown [OF d assms(2,5,3) _ _ serve])
      (simp_all add: alloc_decomp_and_hash_offload_args_stamped_def free_decomp_and_hash_offload_args_stamped_def timed_stamps_def)
  then show ?same by simp
  have "\<exists>w'. yielding_multiple_filler_request_breakdown hw (yielding_decompress_and_hash_request_stamped hw) filler
      (alloc_decomp_and_hash_offload_args_stamped hw) free_decomp_and_hash_offload_args_stamped n off wt hash (int idx) w =
      Some (Done w' ()) \<and> harness_done n [0..<n] (0 + 6) w w'"
    by (rule hash_supply.multiple_fillers_breakdown [OF d assms(2,5,3) _ _ serve])
      (simp_all add: alloc_decomp_and_hash_offload_args_stamped_def free_decomp_and_hash_offload_args_stamped_def timed_stamps_def)
  then show ?multi by simp
qed


definition sample_stack :: "int list" where "sample_stack = replicate 12288 7"

lemma sample_stack_ok: "stack_ok sample_stack"
  by (simp add: stack_ok_def sample_stack_def antagonist_buf_size_def antagonist_passes_def hd_replicate)




text \<open>\<open>mlp.cpp\<close> runs the dot product filler before it allocates \<open>user_filler_buf\<close>: unless the
  offload is done at its first probe point, the filler reads through the null pointer.\<close>

theorem dotproduct_filler_null:
  assumes "heap w 0 = None" and "env_ok hw" and "i < length (crs w)" and "\<not> is_completed (status (crs (tick hw w) ! i))"
  shows "dotproduct_interleaved hw 0 i w = None"
proof -
  have "kinds (tick hw w) 0 = None" using later_kinds [OF tick_later [OF assms(2)], of w] assms(1) by (simp add: kinds_def)
  then have "get_bytes 0 (tick hw w) = None" by (simp add: kinds_def get_bytes_def)
  moreover have "is_signal_set hw i w = Some (False, tick hw w)"
    using assms(4) by (simp add: is_signal_set_def read_completed [OF assms(3)] SIGNAL_SET_def is_completed_def)
  ultimately have "until_signal hw (dotproduct_work hw 0) i (g_item_buf w, 0) w = None"
    by (subst until_signal.simps) (simp add: dotproduct_work_def dot_product_step_def split: Option.bind_splits)
  then show ?thesis by (simp add: dotproduct_interleaved_def probes_first_def)
qed

lemma dotproduct_filler_null_witness:
  "dotproduct_interleaved sample_env 0 1 (sample_world 3) = None"
proof -
  have "\<not> is_completed (status (crs (tick sample_env (sample_world 3)) ! 1))"
    using later_idle [OF tick_later [OF sample_env_ok], of 1 "sample_world 3"]
    by (simp add: sample_world_def idle_comp_def is_completed_def COMP_STATUS_COMPLETED_def)
  then show ?thesis
    by (intro dotproduct_filler_null [OF _ sample_env_ok]) (simp_all add: sample_world_def sample_heap_def)
qed

end
