(* ===== verification/Runner_Runs.thy ===== *)
theory Runner_Runs
  imports Runners Core_Harness Filler_Runs Composable_App
begin

text \<open>
  Whole calls of the runners of \<open>src/runners.cpp\<close>: given what a harness call guarantees, the loop of
  a runner, its statistics and what it leaves on the heap.
\<close>

section \<open>Runs that complete\<close>

definition completes :: "nat \<Rightarrow> nat list \<Rightarrow> nat \<Rightarrow> (world \<Rightarrow> unit outcome option) \<Rightarrow> world \<Rightarrow> bool" where
  "completes n subs k run w \<longleftrightarrow> (\<exists>w'. run w = Some (Done w' ()) \<and> harness_done n subs k w w')"

lemma repeat_completes:
  assumes "fresh w" and "\<And>i v. i < m \<Longrightarrow> fresh v \<Longrightarrow> nxt w \<le> nxt v \<Longrightarrow> \<forall>p < nxt w. kinds v p = kinds w p \<Longrightarrow> completes n subs k (run i) v"
  shows "\<exists>w'. repeat_runs run [0..<m] w = Some (Done w' ()) \<and> runs_done n subs k m w w'"
  using assms(2)
proof (induction m)
  case 0
  then show ?case using runs_done_0 [OF assms(1)] by simp
next
  case (Suc m)
  then obtain w1 where 1: "repeat_runs run [0..<m] w = Some (Done w1 ())" "runs_done n subs k m w w1"
    by (metis less_SucI)
  from 1(2) have "fresh w1" "nxt w \<le> nxt w1" "\<forall>p < nxt w. kinds w1 p = kinds w p" by (simp_all add: runs_done_def)
  with Suc.prems obtain w2 where 2: "run m w1 = Some (Done w2 ())" "harness_done n subs k w1 w2"
    unfolding completes_def by blast
  have "repeat_runs run [0..<Suc m] w = Some (Done w2 ())" using 1(1) 2(1) by (simp add: repeat_append)
  with runs_done_step [OF assms(1) 1(2) 2(2)] show ?case by blast
qed

text \<open>The frame of a runner: it allocates the arrays \<open>bs\<close>, and frees \<open>D\<close> of them at the end.\<close>

lemma runner_frame:
  assumes w: "fresh w" and r: "runs_done n subs k m (put_blocks w bs) w2" and m: "0 < m"
    and D: "D \<subseteq> {nxt w..<nxt w + length bs}"
  shows "harness_done n (concat (replicate m subs)) (k * m + (length bs - card D)) w (without D w2)"
proof -
  let ?w1 = "put_blocks w bs" and ?B = "{nxt w..<nxt w + length bs}"
  have 2: "fresh w2" "nxt w + length bs \<le> nxt w2" "\<forall>p < nxt w + length bs. kinds w2 p = kinds ?w1 p"
    "card {p. heap ?w1 p = None \<and> heap w2 p \<noteq> None} = k * m" using r by (simp_all add: runs_done_def)
  have old: "heap w p = None \<longleftrightarrow> kinds w p = None" for w p by (simp add: kinds_def)
  have new: "{p. heap w p = None \<and> heap (without D w2) p \<noteq> None} = {p. heap ?w1 p = None \<and> heap w2 p \<noteq> None} \<union> (?B - D)" (is "?L = ?N \<union> _")
  proof (intro equalityI subsetI)
    fix p assume p: "p \<in> ?L"
    then have "p \<notin> D" "heap w2 p \<noteq> None" by (auto simp: heap_without split: if_splits)
    with p show "p \<in> ?N \<union> (?B - D)" by (auto simp: put_blocks_def)
  next
    fix p assume p: "p \<in> ?N \<union> (?B - D)"
    show "p \<in> ?L"
    proof (cases "p \<in> ?B")
      case True
      then have "heap ?w1 p \<noteq> None" "heap w p = None" using w by (simp_all add: put_blocks_def fresh_def)
      moreover from this True have "heap w2 p \<noteq> None" using 2(3) by (simp add: old)
      ultimately show ?thesis using p True by (auto simp: heap_without)
    next
      case False
      then have "p \<notin> D" "heap w p = None" "heap w2 p \<noteq> None" using p D by (auto simp: put_blocks_def split: if_splits)
      then show ?thesis by (simp add: heap_without)
    qed
  qed
  have "?N \<subseteq> {..<nxt w2}" using 2(1) by (auto simp: fresh_def not_less [symmetric])
  then have "finite ?N" by (rule finite_subset) simp
  moreover have "?N \<inter> (?B - D) = {}" by (auto simp: put_blocks_def)
  moreover have "card (?B - D) = length bs - card D" using D by (subst card_Diff_subset) (auto intro: finite_subset)
  ultimately have "card ?L = k * m + (length bs - card D)" unfolding new using 2(4) by (simp add: card_Un_disjoint)
  moreover have "kinds (without D w2) p = kinds w p" if "p < nxt w" for p
  proof -
    have "p \<notin> D" using D that by auto
    moreover have "kinds w2 p = kinds ?w1 p" using 2(3) that by simp
    moreover have "kinds ?w1 p = kinds w p" using that by (simp add: kinds_def put_blocks_def)
    ultimately show ?thesis by (simp add: kinds_without)
  qed
  moreover have "fresh (without D w2)" using 2(1) by (simp add: fresh_def heap_without)
  ultimately show ?thesis using r m 2(2) by (simp add: harness_done_def runs_done_def)
qed

lemma fresh_put: "fresh w \<Longrightarrow> fresh (put_blocks w bs)"
  by (auto simp: fresh_def put_blocks_def)

section \<open>Breakdown runners\<close>

text \<open>The three arrays of results.\<close>

definition result_blocks :: "env \<Rightarrow> nat \<Rightarrow> ptr \<Rightarrow> block list" where
  "result_blocks hw iter a = [fresh_words hw iter a, fresh_words hw iter (Suc a), fresh_words hw iter (Suc (Suc a))]"

lemma result_blocks_put:
  "malloc_words hw iter w = (nxt w, put_blocks w [fresh_words hw iter (nxt w)])"
  by (simp add: malloc_words_def malloc_first)

lemma result_blocks_kinds:
  assumes "\<forall>p < nxt (put_blocks w (result_blocks hw iter (nxt w))). kinds v p = kinds (put_blocks w (result_blocks hw iter (nxt w))) p"
  shows "kinds v (nxt w) = Some (KWords iter)" and "kinds v (Suc (nxt w)) = Some (KWords iter)"
    and "kinds v (Suc (Suc (nxt w))) = Some (KWords iter)"
  using assms kinds_put [of 0 "result_blocks hw iter (nxt w)" w] kinds_put [of 1 "result_blocks hw iter (nxt w)" w]
    kinds_put [of 2 "result_blocks hw iter (nxt w)" w]
  by (simp_all add: result_blocks_def)

lemma breakdown_runner:
  fixes hw :: env
  assumes w: "fresh w" and iter: "0 < iter" "iter < 2 ^ 31"
    and h: "\<And>i v. i < iter \<Longrightarrow> fresh v \<Longrightarrow> result_arrays (kinds v) (nxt w) (Suc (nxt w)) (Suc (Suc (nxt w))) i \<Longrightarrow>
      completes n subs k (run i) v"
  defines "bs \<equiv> result_blocks hw iter (nxt w)"
  shows "\<exists>w2. repeat_runs run [0..<iter] (put_blocks w bs) = Some (Done w2 ()) \<and>
    harness_done n (concat (replicate iter subs)) (k * iter + 3) w w2 \<and>
    (\<forall>p \<in> {nxt w, Suc (nxt w), Suc (Suc (nxt w))}. print_stats csqrt p iter w2 = Some w2 \<and>
      (\<exists>arr m. get_words p w2 = Some arr \<and> median_from_array arr (int iter) = Some m))"
proof -
  have step: "completes n subs k (run i) v" if "i < iter" "fresh v" "\<forall>p < nxt (put_blocks w bs). kinds v p = kinds (put_blocks w bs) p" for i v
    using h [OF that(1,2)] result_blocks_kinds [OF that(3) [unfolded bs_def]] that(1) by (auto simp: result_arrays_def)
  obtain w2 where 2: "repeat_runs run [0..<iter] (put_blocks w bs) = Some (Done w2 ())" "runs_done n subs k iter (put_blocks w bs) w2"
    using repeat_completes [OF fresh_put [OF w], of iter bs n subs k run] step by blast
  have "\<forall>p < nxt (put_blocks w bs). kinds w2 p = kinds (put_blocks w bs) p" using 2(2) by (simp add: runs_done_def)
  note k = result_blocks_kinds [OF this [unfolded bs_def]]
  have "print_stats csqrt p iter w2 = Some w2 \<and> (\<exists>arr m. get_words p w2 = Some arr \<and> median_from_array arr (int iter) = Some m)"
    if p: "kinds w2 p = Some (KWords iter)" for p
  proof -
    obtain arr where arr: "get_words p w2 = Some arr" "length arr = iter" using p by (auto simp: kinds_words)
    with stats_ok(2) [OF iter p, of csqrt] stats_eval(2) [OF iter arr(2)] show ?thesis by auto
  qed
  moreover have "harness_done n (concat (replicate iter subs)) (k * iter + 3) w w2"
    using runner_frame [OF w 2(2) iter(1), of "{}"] by (simp add: bs_def result_blocks_def numeral_3_eq_3)
  ultimately show ?thesis using 2(1) k by auto
qed

lemma blocking_brkdown_runner:
  assumes "fresh w" and "0 < iter" and "iter < 2 ^ 31"
    and h: "\<And>i v. i < iter \<Longrightarrow> fresh v \<Longrightarrow> result_arrays (kinds v) (nxt w) (Suc (nxt w)) (Suc (Suc (nxt w))) i \<Longrightarrow>
      completes n subs k (blocking_ax_request_breakdown hw f A Fr n (nxt w) (Suc (nxt w)) (Suc (Suc (nxt w))) (int i)) v"
  shows "completes n (concat (replicate iter subs)) (k * iter + 3) (run_blocking_offload_request_brkdown csqrt hw f A Fr iter n) w"
proof -
  obtain w2 where "repeat_runs (\<lambda>i. blocking_ax_request_breakdown hw f A Fr n (nxt w) (Suc (nxt w)) (Suc (Suc (nxt w))) (int i))
      [0..<iter] (put_blocks w (result_blocks hw iter (nxt w))) = Some (Done w2 ())"
    "harness_done n (concat (replicate iter subs)) (k * iter + 3) w w2"
    "\<forall>p \<in> {nxt w, Suc (nxt w), Suc (Suc (nxt w))}. print_stats csqrt p iter w2 = Some w2"
    using breakdown_runner [where csqrt = csqrt and hw = hw and run = "\<lambda>i. blocking_ax_request_breakdown hw f A Fr n (nxt w) (Suc (nxt w)) (Suc (Suc (nxt w))) (int i)", OF assms(1-3) h] by blast
  then show ?thesis
    by (auto simp: completes_def run_blocking_offload_request_brkdown_def result_blocks_put put_put result_blocks_def after_run_def)
qed

lemma interleaved_brkdown_runner:
  assumes "fresh w" and "0 < iter" and "iter < 2 ^ 31"
    and h: "\<And>i v. i < iter \<Longrightarrow> fresh v \<Longrightarrow> result_arrays (kinds v) (nxt w) (Suc (nxt w)) (Suc (Suc (nxt w))) i \<Longrightarrow>
      completes n subs k (yielding_same_interleaved_request_breakdown hw f g A Fr n (nxt w) (Suc (nxt w)) (Suc (Suc (nxt w))) (int i)) v"
  shows "completes n (concat (replicate iter subs)) (k * iter + 3) (run_yielding_interleaved_request_brkdown csqrt hw f g A Fr iter n) w"
proof -
  obtain w2 where "repeat_runs (\<lambda>i. yielding_same_interleaved_request_breakdown hw f g A Fr n (nxt w) (Suc (nxt w)) (Suc (Suc (nxt w))) (int i))
      [0..<iter] (put_blocks w (result_blocks hw iter (nxt w))) = Some (Done w2 ())"
    "harness_done n (concat (replicate iter subs)) (k * iter + 3) w w2"
    "\<forall>p \<in> {nxt w, Suc (nxt w), Suc (Suc (nxt w))}. print_stats csqrt p iter w2 = Some w2"
    using breakdown_runner [where csqrt = csqrt and hw = hw and run = "\<lambda>i. yielding_same_interleaved_request_breakdown hw f g A Fr n (nxt w) (Suc (nxt w)) (Suc (Suc (nxt w))) (int i)", OF assms(1-3) h] by blast
  then show ?thesis
    by (auto simp: completes_def run_yielding_interleaved_request_brkdown_def result_blocks_put put_put result_blocks_def after_run_def)
qed

text \<open>The runner on the core returns a median; here its result is dropped, as most programs do.\<close>

definition without_result :: "'a outcome option \<Rightarrow> unit outcome option" where
  "without_result r = map_option (\<lambda>r. case r of Exited w \<Rightarrow> Exited w | Done w x \<Rightarrow> Done w ()) r"

lemma core_brkdown_runner:
  assumes "fresh w" and "0 < iter" and "iter < 2 ^ 31"
    and h: "\<And>i v. i < iter \<Longrightarrow> fresh v \<Longrightarrow> result_arrays (kinds v) (nxt w) (Suc (nxt w)) (Suc (Suc (nxt w))) i \<Longrightarrow>
      completes n subs k (gpcore_request_breakdown hw f A Fr n (Suc (nxt w)) (Suc (Suc (nxt w))) (int i)) v"
  shows "completes n (concat (replicate iter subs)) (k * iter + 3) (\<lambda>w. without_result (run_gpcore_request_brkdown csqrt hw f A Fr iter n w)) w"
proof -
  obtain w2 where 2: "repeat_runs (\<lambda>i. gpcore_request_breakdown hw f A Fr n (Suc (nxt w)) (Suc (Suc (nxt w))) (int i))
      [0..<iter] (put_blocks w (result_blocks hw iter (nxt w))) = Some (Done w2 ())"
    "harness_done n (concat (replicate iter subs)) (k * iter + 3) w w2"
    "\<forall>p \<in> {nxt w, Suc (nxt w), Suc (Suc (nxt w))}. print_stats csqrt p iter w2 = Some w2 \<and>
      (\<exists>arr m. get_words p w2 = Some arr \<and> median_from_array arr (int iter) = Some m)"
    using breakdown_runner [where csqrt = csqrt and hw = hw and run = "\<lambda>i. gpcore_request_breakdown hw f A Fr n (Suc (nxt w)) (Suc (Suc (nxt w))) (int i)", OF assms(1-3) h] by blast
  from 2(3) obtain arr m where "get_words (Suc (nxt w)) w2 = Some arr" "median_from_array arr (int iter) = Some m" by blast
  with 2 show ?thesis
    by (auto simp: completes_def without_result_def run_gpcore_request_brkdown_def result_blocks_put put_put result_blocks_def)
qed

section \<open>Offered load runners\<close>

text \<open>Their array of samples is on the stack of the runner.\<close>

lemma offered_runner:
  fixes hw :: env
  assumes w: "fresh w" and m: "0 < m" and len: "0 < len" "len < 2 ^ 31"
    and h: "\<And>i v. i < m \<Longrightarrow> fresh v \<Longrightarrow> kinds v (nxt w) = Some (KWords len) \<Longrightarrow> completes n subs k (run i) v"
  shows "\<exists>w2 w3. repeat_runs run [0..<m] (put_blocks w [fresh_words hw len (nxt w)]) = Some (Done w2 ()) \<and>
    mean_median_stdev_rps csqrt (nxt w) len w2 = Some w2 \<and> mfree (nxt w) w2 = Some w3 \<and>
    harness_done n (concat (replicate m subs)) (k * m) w w3"
proof -
  let ?bs = "[fresh_words hw len (nxt w)]"
  have b: "kinds v (nxt w) = Some (KWords len)" if "\<forall>p < nxt (put_blocks w ?bs). kinds v p = kinds (put_blocks w ?bs) p" for v
    using that kinds_put [of 0 ?bs w] by simp
  have step: "completes n subs k (run i) v" if "i < m" "fresh v" "\<forall>p < nxt (put_blocks w ?bs). kinds v p = kinds (put_blocks w ?bs) p" for i v
    by (rule h [OF that(1,2) b [OF that(3)]])
  obtain w2 where 2: "repeat_runs run [0..<m] (put_blocks w ?bs) = Some (Done w2 ())" "runs_done n subs k m (put_blocks w ?bs) w2"
    using repeat_completes [OF fresh_put [OF w], of m ?bs n subs k run] step by blast
  have k: "kinds w2 (nxt w) = Some (KWords len)" using 2(2) by (intro b) (simp add: runs_done_def)
  have "mfree (nxt w) w2 = Some (without {nxt w} w2)"
    using releases_mfree [of "nxt w" "kinds w2"] w k by (simp add: releases_def fresh_def)
  moreover have "harness_done n (concat (replicate m subs)) (k * m) w (without {nxt w} w2)"
    using runner_frame [OF w 2(2) m, of "{nxt w}"] by simp
  ultimately show ?thesis using 2(1) stats_ok(1) [OF len k, of csqrt] by blast
qed

lemma blocking_offered_runner:
  assumes "fresh w" and "0 < iter" and "iter < 2 ^ 31"
    and h: "\<And>i v. i < iter \<Longrightarrow> fresh v \<Longrightarrow> kinds v (nxt w) = Some (KWords iter) \<Longrightarrow>
      completes n subs k (blocking_request_offered_load hw f A Fr n n (nxt w) (int i)) v"
  shows "completes n (concat (replicate iter subs)) (k * iter) (run_blocking_offered_load csqrt hw f A Fr n iter) w"
proof -
  let ?run = "\<lambda>i. blocking_request_offered_load hw f A Fr n n (nxt w) (int i)"
  obtain w2 w3 where "repeat_runs ?run [0..<iter] (put_blocks w [fresh_words hw iter (nxt w)]) = Some (Done w2 ())"
    "mean_median_stdev_rps csqrt (nxt w) iter w2 = Some w2" "mfree (nxt w) w2 = Some w3"
    "harness_done n (concat (replicate iter subs)) (k * iter) w w3"
    using offered_runner [where hw = hw and csqrt = csqrt and run = ?run, OF assms(1,2,2,3) h] by blast
  then show ?thesis using assms(2)
    by (auto simp: completes_def run_blocking_offered_load_def stack_array_def result_blocks_put after_run_def)
qed

lemma core_offered_runner:
  assumes "fresh w" and "0 < iter" and "iter < 2 ^ 31"
    and h: "\<And>i v. i < iter \<Longrightarrow> fresh v \<Longrightarrow> kinds v (nxt w) = Some (KWords iter) \<Longrightarrow>
      completes n subs k (gpcore_closed_loop_test hw f A Fr n n (nxt w) (int i)) v"
  shows "completes n (concat (replicate iter subs)) (k * iter) (run_gpcore_offeredLoad csqrt hw f A Fr iter n) w"
proof -
  let ?run = "\<lambda>i. gpcore_closed_loop_test hw f A Fr n n (nxt w) (int i)"
  obtain w2 w3 where "repeat_runs ?run [0..<iter] (put_blocks w [fresh_words hw iter (nxt w)]) = Some (Done w2 ())"
    "mean_median_stdev_rps csqrt (nxt w) iter w2 = Some w2" "mfree (nxt w) w2 = Some w3"
    "harness_done n (concat (replicate iter subs)) (k * iter) w w3"
    using offered_runner [where hw = hw and csqrt = csqrt and run = ?run, OF assms(1,2,2,3) h] by blast
  then show ?thesis using assms(2)
    by (auto simp: completes_def run_gpcore_offeredLoad_def stack_array_def result_blocks_put after_run_def)
qed

lemma yielding_offered_runner:
  assumes "fresh w" and "0 < iter" and "0 < s" and "iter * s < 2 ^ 31"
    and h: "\<And>i v. i < iter \<Longrightarrow> fresh v \<Longrightarrow> kinds v (nxt w) = Some (KWords (iter * s)) \<Longrightarrow>
      completes n subs k (yielding_request_offered_load hw f A Fr (n div s) n (nxt w) (int (i * s))) v"
  shows "completes n (concat (replicate iter subs)) (k * iter) (run_yielding_offered_load csqrt hw f A Fr s n iter) w"
proof -
  let ?run = "\<lambda>i. yielding_request_offered_load hw f A Fr (n div s) n (nxt w) (int (i * s))"
  have p: "0 < iter * s" using assms(2,3) by simp
  obtain w2 w3 where "repeat_runs ?run [0..<iter] (put_blocks w [fresh_words hw (iter * s) (nxt w)]) = Some (Done w2 ())"
    "mean_median_stdev_rps csqrt (nxt w) (iter * s) w2 = Some w2" "mfree (nxt w) w2 = Some w3"
    "harness_done n (concat (replicate iter subs)) (k * iter) w w3"
    using offered_runner [where hw = hw and csqrt = csqrt and run = ?run, OF assms(1,2) p assms(4) h] by blast
  then show ?thesis using assms(2,3)
    by (auto simp: completes_def run_yielding_offered_load_def c_div_def stack_array_def result_blocks_put after_run_def)
qed

section \<open>One run after the other\<close>

lemma harness_done_trans:
  assumes "fresh w" and "harness_done n s1 k1 w w1" and "harness_done n s2 k2 w1 w2"
  shows "harness_done n (s1 @ s2) (k1 + k2) w w2"
  using assms new_blocks_trans [OF assms(1), of w1 w2] unfolding harness_done_def by auto

text \<open>Every run from a fresh heap in which the blocks of \<open>w0\<close> still have their sizes.\<close>

definition reliable :: "world \<Rightarrow> nat \<Rightarrow> nat list \<Rightarrow> nat \<Rightarrow> (world \<Rightarrow> unit outcome option) \<Rightarrow> bool" where
  "reliable w0 n subs k run \<longleftrightarrow> (\<forall>w. fresh w \<longrightarrow> nxt w0 \<le> nxt w \<longrightarrow> (\<forall>p < nxt w0. kinds w p = kinds w0 p) \<longrightarrow> completes n subs k run w)"

lemma in_sequence_completes:
  assumes "list_all2 (\<lambda>run (subs, k). reliable w0 n subs k run) runs xs" and "runs \<noteq> []"
    and "fresh w" and "nxt w0 \<le> nxt w" and "\<forall>p < nxt w0. kinds w p = kinds w0 p"
  shows "completes n (concat (map fst xs)) (sum_list (map snd xs)) (in_sequence runs) w"
  using assms
proof (induction runs arbitrary: xs w)
  case (Cons run runs)
  then obtain subs k ys where xs: "xs = (subs, k) # ys" and run: "reliable w0 n subs k run"
    and ys: "list_all2 (\<lambda>run (subs, k). reliable w0 n subs k run) runs ys" by (cases xs) auto
  obtain w1 where 1: "run w = Some (Done w1 ())" "harness_done n subs k w w1"
    using run Cons.prems(3-5) unfolding reliable_def completes_def by blast
  show ?case
  proof (cases "runs = []")
    case True
    then show ?thesis using 1 ys xs by (simp add: completes_def)
  next
    case False
    have "fresh w1" "nxt w0 \<le> nxt w1" "\<forall>p < nxt w0. kinds w1 p = kinds w0 p" using 1(2) Cons.prems(4,5) by (simp_all add: harness_done_def)
    from Cons.IH [OF ys False this] obtain w2 where
      "in_sequence runs w1 = Some (Done w2 ())" "harness_done n (concat (map fst ys)) (sum_list (map snd ys)) w1 w2"
      unfolding completes_def by blast
    with 1 harness_done_trans [OF Cons.prems(3) 1(2)] xs show ?thesis by (auto simp: completes_def)
  qed
qed simp

end
