(* ===== verification/Bench_Programs.thy ===== *)
theory Bench_Programs
  imports Runner_Runs Requests_Walker Harness_Memcpy Router_Harness
begin

text \<open>
  The benchmark programs as a whole: \<open>decomp_and_hash.cpp\<close>, \<open>decomp_and_scatter.cpp\<close>,
  \<open>memfill_and_gather.cpp\<close>, \<open>mlp.cpp\<close>, \<open>walker.cpp\<close>, \<open>switch_to_fill.cpp\<close> and
  \<open>emul_ax_router_request_breakdown.cpp\<close>.  Each parses its options, prepares the global variables
  and starts its runs one after the other.  Opening and closing the work queue, starting and stopping the thread of
  the emulated accelerator, and what is printed are left out.  The argument \<open>stack\<close> is what the
  antagonist finds in its buffer on the stack.
\<close>

section \<open>Options\<close>

text \<open>\<open>getopt(argc, argv, letters)\<close>: an option that is not one of the letters is reported as a
  question mark.  An option comes with the number that \<open>atoi\<close> makes of its argument.\<close>

definition getopt :: "string \<Rightarrow> (char \<times> nat) list \<Rightarrow> (char \<times> nat) list" where
  "getopt letters argv = map (\<lambda>(c, v). (if c \<noteq> CHR '':'' \<and> c \<in> set letters then c else CHR ''?'', v)) argv"

record bench_options =
  b_total_requests :: nat
  b_itr :: nat
  b_input_size :: nat
  b_num_accesses :: nat
  b_no_latency :: bool
  b_no_thrpt :: bool

definition bench_defaults :: "nat \<Rightarrow> nat \<Rightarrow> nat \<Rightarrow> bench_options" where
  "bench_defaults total_requests itr sz = \<lparr>b_total_requests = total_requests, b_itr = itr, b_input_size = sz,
    b_num_accesses = 10, b_no_latency = False, b_no_thrpt = False\<rparr>"

text \<open>The switches of \<open>decomp_and_hash.cpp\<close> and \<open>mlp.cpp\<close>, and of the programs with \<open>num_accesses\<close>.\<close>

definition hash_option :: "char \<times> nat \<Rightarrow> bench_options \<Rightarrow> bench_options" where
  "hash_option opt opts = (case opt of (c, v) \<Rightarrow>
    if c = CHR ''t'' then opts\<lparr>b_total_requests := v\<rparr>
    else if c = CHR ''i'' then opts\<lparr>b_itr := v\<rparr>
    else if c = CHR ''o'' then opts\<lparr>b_no_latency := True\<rparr>
    else if c = CHR ''h'' then opts\<lparr>b_no_thrpt := True\<rparr>
    else if c = CHR ''q'' then opts\<lparr>b_input_size := v\<rparr>
    else opts)"

definition scatter_option :: "char \<times> nat \<Rightarrow> bench_options \<Rightarrow> bench_options" where
  "scatter_option opt opts = (case opt of (c, v) \<Rightarrow>
    if c = CHR ''t'' then opts\<lparr>b_total_requests := v\<rparr>
    else if c = CHR ''i'' then opts\<lparr>b_itr := v\<rparr>
    else if c = CHR ''q'' then opts\<lparr>b_input_size := v\<rparr>
    else if c = CHR ''a'' then opts\<lparr>b_num_accesses := v\<rparr>
    else if c = CHR ''o'' then opts\<lparr>b_no_latency := True\<rparr>
    else if c = CHR ''h'' then opts\<lparr>b_no_thrpt := True\<rparr>
    else opts)"

definition hash_options :: "(char \<times> nat) list \<Rightarrow> bench_options" where
  "hash_options argv = fold hash_option (getopt ''t:i:r:s:q:d:h'' argv) (bench_defaults 1000 100 16384)"

definition mlp_options :: "(char \<times> nat) list \<Rightarrow> bench_options" where
  "mlp_options argv = fold hash_option (getopt ''t:i:r:s:q:d:h'' argv) (bench_defaults 1000 100 16384)"

definition scatter_options :: "(char \<times> nat) list \<Rightarrow> bench_options" where
  "scatter_options argv = fold scatter_option (getopt ''t:i:r:s:q:a:od:h'' argv) (bench_defaults 1 1 16384)"

definition memfill_options :: "(char \<times> nat) list \<Rightarrow> bench_options" where
  "memfill_options argv = fold scatter_option (getopt ''t:i:r:s:q:a:od:h'' argv) (bench_defaults 1000 100 100)"

text \<open>\<open>while(s.size() < n) s += append_string\<close>, where \<open>append_string\<close> is a copy of \<open>s\<close>.\<close>

definition grow_string :: "u8 list \<Rightarrow> nat \<Rightarrow> u8 list option" where
  "grow_string append_string n = while_option (\<lambda>s. length s < n) (\<lambda>s. s @ append_string) append_string"

text \<open>What follows a run, unless a fiber has ended the process.\<close>

definition then_run :: "unit outcome option \<Rightarrow> (world \<Rightarrow> unit outcome option) \<Rightarrow> unit outcome option" where
  "then_run r f = Option.bind r (\<lambda>r. case r of Exited w \<Rightarrow> Some (Exited w) | Done w _ \<Rightarrow> f w)"

section \<open>Decompress and hash\<close>

definition decomp_and_hash_latency ::
  "(u64 \<Rightarrow> 'd) \<Rightarrow> env \<Rightarrow> int list \<Rightarrow> bench_options \<Rightarrow> (world \<Rightarrow> unit outcome option) list" where
  "decomp_and_hash_latency csqrt hw stack opts = (let itr = b_itr opts; total_requests = b_total_requests opts in
    [\<lambda>w. without_result (run_gpcore_request_brkdown csqrt hw (cpu_decompress_and_hash_stamped hw)
       (compressed_mc_req_allocator hw) compressed_mc_req_free itr total_requests w),
     run_blocking_offload_request_brkdown csqrt hw (blocking_decompress_and_hash_request_stamped hw)
       (alloc_decomp_and_hash_offload_args_stamped hw) free_decomp_and_hash_offload_args_stamped itr total_requests,
     run_yielding_interleaved_request_brkdown csqrt hw (yielding_decompress_and_hash_request_stamped hw) (hash_interleaved hw)
       (alloc_decomp_and_hash_offload_args_stamped hw) free_decomp_and_hash_offload_args_stamped itr total_requests,
     run_yielding_interleaved_request_brkdown csqrt hw (yielding_decompress_and_hash_request_stamped hw) (antagonist_interleaved hw stack)
       (alloc_decomp_and_hash_offload_args_stamped hw) free_decomp_and_hash_offload_args_stamped itr total_requests])"

definition decomp_and_hash_thrpt ::
  "(u64 \<Rightarrow> 'd) \<Rightarrow> env \<Rightarrow> bench_options \<Rightarrow> (world \<Rightarrow> unit outcome option) list" where
  "decomp_and_hash_thrpt csqrt hw opts = (let itr = b_itr opts; total_requests = b_total_requests opts in
    [run_gpcore_offeredLoad csqrt hw (cpu_decompress_and_hash hw)
       (compressed_mc_req_allocator hw) compressed_mc_req_free itr total_requests,
     run_blocking_offered_load csqrt hw (blocking_decompress_and_hash_request hw)
       (alloc_decomp_and_hash_offload_args hw) free_decomp_and_hash_offload_args total_requests itr,
     run_yielding_offered_load csqrt hw (yielding_decompress_and_hash_request hw)
       (alloc_decomp_and_hash_offload_args hw) free_decomp_and_hash_offload_args 10 total_requests itr])"

definition decomp_and_hash_runs ::
  "(u64 \<Rightarrow> 'd) \<Rightarrow> env \<Rightarrow> int list \<Rightarrow> bench_options \<Rightarrow> (world \<Rightarrow> unit outcome option) list" where
  "decomp_and_hash_runs csqrt hw stack opts =
    (if \<not> b_no_latency opts then decomp_and_hash_latency csqrt hw stack opts else []) @
    (if \<not> b_no_thrpt opts then decomp_and_hash_thrpt csqrt hw opts else [])"

definition decomp_and_hash_main ::
  "(u64 \<Rightarrow> 'd) \<Rightarrow> env \<Rightarrow> int list \<Rightarrow> (char \<times> nat) list \<Rightarrow> world \<Rightarrow> unit outcome option" where
  "decomp_and_hash_main csqrt hw stack argv w =
    do {
      let opts = hash_options argv;
      query \<leftarrow> grow_string (g_query hw) (b_input_size opts);
      let hw = hw\<lparr>input_size := b_input_size opts, g_query := query\<rparr>;
      in_sequence (decomp_and_hash_runs csqrt hw stack opts) w
    }"

section \<open>Decompress and scatter\<close>

text \<open>The buffer of the filler is allocated between the runs; \<open>no_thrpt\<close> is not used.\<close>

definition decomp_and_scatter_latency ::
  "(u64 \<Rightarrow> 'd) \<Rightarrow> env \<Rightarrow> int list \<Rightarrow> bench_options \<Rightarrow> world \<Rightarrow> unit outcome option" where
  "decomp_and_scatter_latency csqrt hw stack opts w = (let itr = b_itr opts; total_requests = b_total_requests opts in
    then_run
      (in_sequence
        [\<lambda>w. without_result (run_gpcore_request_brkdown csqrt hw (cpu_decomp_and_scatter_stamped hw)
           (cpu_compressed_payload_allocator hw) free_cpu_compressed_payloads itr total_requests w),
         run_blocking_offload_request_brkdown csqrt hw (blocking_decomp_and_scatter_request_stamped hw)
           (alloc_offload_decomp_and_scatter_args_timed hw) free_offload_decomp_and_scatter_args_timed itr total_requests] w)
      (\<lambda>w. do {
        let (glob_dst_buf, w) = malloc_bytes hw (4 * input_size hw) w;
        in_sequence
          [run_yielding_interleaved_request_brkdown csqrt hw (yielding_decomp_and_scatter_stamped hw) (scatter_interleaved hw glob_dst_buf)
             (alloc_offload_decomp_and_scatter_args_timed hw) free_offload_decomp_and_scatter_args_timed itr total_requests,
           run_yielding_interleaved_request_brkdown csqrt hw (yielding_decomp_and_scatter_stamped hw) (antagonist_interleaved hw stack)
             (alloc_offload_decomp_and_scatter_args_timed hw) free_offload_decomp_and_scatter_args_timed itr total_requests] w
      }))"

definition decomp_and_scatter_thrpt ::
  "(u64 \<Rightarrow> 'd) \<Rightarrow> env \<Rightarrow> bench_options \<Rightarrow> (world \<Rightarrow> unit outcome option) list" where
  "decomp_and_scatter_thrpt csqrt hw opts = (let itr = b_itr opts; total_requests = b_total_requests opts in
    [run_gpcore_offeredLoad csqrt hw (cpu_decomp_and_scatter hw)
       (cpu_compressed_payload_allocator hw) free_cpu_compressed_payloads itr total_requests,
     run_blocking_offered_load csqrt hw (blocking_decomp_and_scatter_request hw)
       (alloc_offload_decomp_and_scatter_args hw) free_offload_decomp_and_scatter_args total_requests itr,
     run_yielding_offered_load csqrt hw (yielding_decomp_and_scatter hw)
       (alloc_offload_decomp_and_scatter_args hw) free_offload_decomp_and_scatter_args 10 total_requests itr])"

definition decomp_and_scatter_main ::
  "(u64 \<Rightarrow> 'd) \<Rightarrow> env \<Rightarrow> int list \<Rightarrow> (char \<times> nat) list \<Rightarrow> world \<Rightarrow> unit outcome option" where
  "decomp_and_scatter_main csqrt hw stack argv w =
    do {
      let opts = scatter_options argv;
      payload \<leftarrow> grow_string (g_payload hw) (b_input_size opts);
      let hw = hw\<lparr>input_size := b_input_size opts, num_accesses := b_num_accesses opts, g_payload := payload\<rparr>;
      then_run
        (if \<not> b_no_latency opts then decomp_and_scatter_latency csqrt hw stack opts w else Some (Done w ()))
        (in_sequence (decomp_and_scatter_thrpt csqrt hw opts))
    }"

section \<open>Memfill and gather\<close>

text \<open>\<open>no_thrpt\<close> is not used here either.\<close>

definition memfill_and_gather_runs ::
  "(u64 \<Rightarrow> 'd) \<Rightarrow> env \<Rightarrow> bench_options \<Rightarrow> (world \<Rightarrow> unit outcome option) list" where
  "memfill_and_gather_runs csqrt hw opts = (let itr = b_itr opts; total_requests = b_total_requests opts in
    (if \<not> b_no_latency opts then
      [\<lambda>w. without_result (run_gpcore_request_brkdown csqrt hw (cpu_memfill_stamped hw)
         (alloc_cpu_memfill_args hw) free_cpu_memfill_args itr total_requests w),
       run_blocking_offload_request_brkdown csqrt hw (blocking_memfill_stamped hw)
         (alloc_offload_memfill_and_gather_args_timed hw) free_offload_memfill_and_gather_args_timed itr total_requests]
     else []) @
    [run_gpcore_offeredLoad csqrt hw (cpu_memfill hw) (alloc_cpu_memfill_args hw) free_cpu_memfill_args itr total_requests,
     run_blocking_offered_load csqrt hw (blocking_memfill hw)
       (alloc_offload_memfill_and_gather_args hw) free_offload_memfill_and_gather_args total_requests itr,
     run_yielding_offered_load csqrt hw (yielding_memfill hw)
       (alloc_offload_memfill_and_gather_args hw) free_offload_memfill_and_gather_args 10 total_requests itr])"

definition memfill_and_gather_main ::
  "(u64 \<Rightarrow> 'd) \<Rightarrow> env \<Rightarrow> (char \<times> nat) list \<Rightarrow> world \<Rightarrow> unit outcome option" where
  "memfill_and_gather_main csqrt hw argv w = (let opts = memfill_options argv in
    in_sequence (memfill_and_gather_runs csqrt (hw\<lparr>input_size := b_input_size opts, num_accesses := b_num_accesses opts\<rparr>) opts) w)"

section \<open>Copy and dot product\<close>

text \<open>\<open>user_filler_buf\<close> is null when the filler runs; the buffer is populated after the runs.\<close>

definition mlp_latency ::
  "(u64 \<Rightarrow> 'd) \<Rightarrow> env \<Rightarrow> int list \<Rightarrow> bench_options \<Rightarrow> (world \<Rightarrow> unit outcome option) list" where
  "mlp_latency csqrt hw stack opts = (let itr = b_itr opts; total_requests = b_total_requests opts in
    [\<lambda>w. without_result (run_gpcore_request_brkdown csqrt hw (cpu_memcpy_and_compute_stamped hw mlp_kernel)
       (alloc_cpu_memcpy_and_compute_args hw (input_gen_dp hw)) free_cpu_memcpy_and_compute_args itr total_requests w),
     run_blocking_offload_request_brkdown csqrt hw (blocking_memcpy_and_compute_stamped hw mlp_kernel)
       (alloc_offload_memcpy_and_compute_args_timed hw (input_gen_dp hw)) free_offload_memcpy_and_compute_args_timed itr total_requests,
     run_yielding_interleaved_request_brkdown csqrt hw (yielding_memcpy_and_compute_stamped hw mlp_kernel) (dotproduct_interleaved hw 0)
       (alloc_offload_memcpy_and_compute_args_timed hw (input_gen_dp hw)) free_offload_memcpy_and_compute_args_timed itr total_requests,
     run_yielding_interleaved_request_brkdown csqrt hw (yielding_memcpy_and_compute_stamped hw mlp_kernel) (antagonist_interleaved hw stack)
       (alloc_offload_memcpy_and_compute_args_timed hw (input_gen_dp hw)) free_offload_memcpy_and_compute_args_timed itr total_requests])"

definition mlp_thrpt :: "(u64 \<Rightarrow> 'd) \<Rightarrow> env \<Rightarrow> bench_options \<Rightarrow> (world \<Rightarrow> unit outcome option) list" where
  "mlp_thrpt csqrt hw opts = (let itr = b_itr opts; total_requests = b_total_requests opts in
    [run_gpcore_offeredLoad csqrt hw (cpu_memcpy_and_compute mlp_kernel)
       (alloc_cpu_memcpy_and_compute_args hw (input_gen_dp hw)) free_cpu_memcpy_and_compute_args itr total_requests,
     run_blocking_offered_load csqrt hw (blocking_memcpy_and_compute hw mlp_kernel)
       (alloc_offload_memcpy_and_compute_args hw) free_offload_memcpy_and_compute_args total_requests itr,
     run_yielding_offered_load csqrt hw (yielding_memcpy_and_compute hw mlp_kernel)
       (alloc_offload_memcpy_and_compute_args hw) free_offload_memcpy_and_compute_args 10 total_requests itr])"

definition mlp_main ::
  "(u64 \<Rightarrow> 'd) \<Rightarrow> env \<Rightarrow> int list \<Rightarrow> (char \<times> nat) list \<Rightarrow> world \<Rightarrow> unit outcome option" where
  "mlp_main csqrt hw stack argv w =
    do {
      let opts = mlp_options argv;
      let hw = hw\<lparr>input_size := b_input_size opts\<rparr>;
      then_run
        (if \<not> b_no_latency opts then
           then_run (in_sequence (mlp_latency csqrt hw stack opts) w)
             (\<lambda>w. let (user_filler_buf, w) = input_gen_dp hw w in Some (Done w ()))
         else Some (Done w ()))
        (if \<not> b_no_thrpt opts then in_sequence (mlp_thrpt csqrt hw opts) else in_sequence [])
    }"

section \<open>Posting lists\<close>

text \<open>Closed loop calls with an array of times that is not freed, and the statistics.\<close>

definition closed_loops ::
  "(u64 \<Rightarrow> 'd) \<Rightarrow> env \<Rightarrow> nat \<Rightarrow> (ptr \<Rightarrow> int \<Rightarrow> world \<Rightarrow> unit outcome option) \<Rightarrow> world \<Rightarrow> unit outcome option" where
  "closed_loops csqrt hw iter test w =
    do {
      let (exe_time, w) = malloc_words hw iter w;
      after_run (repeat_runs (\<lambda>i. test exe_time (int i)) [0..<iter] w) (mean_median_stdev_rps csqrt exe_time iter)
    }"

text \<open>The time of the intersection on the core, which the first run returns, is given to the thread of the
  emulated accelerator.\<close>

definition run_gpcore_blocking_swtofill_simple_rank ::
  "(u64 \<Rightarrow> 'd) \<Rightarrow> env \<Rightarrow> nat \<Rightarrow> nat \<Rightarrow> nat \<Rightarrow> nat \<Rightarrow> world \<Rightarrow> unit outcome option" where
  "run_gpcore_blocking_swtofill_simple_rank csqrt hw new_pl total_requests sampling_interval iter w =
    (let hw = hw\<lparr>pl_len := int new_pl\<rparr> in
    in_sequence
      [\<lambda>w. without_result (run_gpcore_request_brkdown csqrt hw (cpu_simple_ranker_request_stamped hw)
         (allocate_posting_lists hw) free_posting_lists iter total_requests w),
       run_blocking_offload_request_brkdown_payloads csqrt hw (blocking_simple_ranker_request_stamped hw)
         (allocate_pre_intersected_posting_lists_llc hw) free_pre_intersected_posting_lists_llc iter total_requests,
       run_yielding_request_brkdown_payloads csqrt hw (yielding_simple_ranker_request_stamped hw)
         (allocate_pre_intersected_posting_lists_llc hw) free_pre_intersected_posting_lists_llc iter total_requests,
       closed_loops csqrt hw iter (\<lambda>cpu_exe_time i. gpcore_closed_loop_test hw cpu_simple_ranker_request
         (allocate_posting_lists hw) free_posting_lists total_requests total_requests cpu_exe_time i),
       closed_loops csqrt hw iter (\<lambda>blocking_exe_time i. blocking_ax_closed_loop_test hw (blocking_simple_ranker_request hw)
         (allocate_pre_intersected_posting_lists_llc hw) free_pre_intersected_posting_lists_llc
         total_requests total_requests blocking_exe_time i),
       closed_loops csqrt hw iter (\<lambda>yielding_exe_time i. yielding_offload_ax_closed_loop_test hw (yielding_simple_ranker_request hw)
         (allocate_pre_intersected_posting_lists_llc hw) free_pre_intersected_posting_lists_llc
         sampling_interval total_requests yielding_exe_time i)] w)"

definition walker_main :: "(u64 \<Rightarrow> 'd) \<Rightarrow> env \<Rightarrow> world \<Rightarrow> unit outcome option" where
  "walker_main csqrt hw =
    in_sequence [run_gpcore_blocking_swtofill_simple_rank csqrt hw 32 1000 1000 1,
      run_gpcore_blocking_swtofill_simple_rank csqrt hw 512 1000 1000 1]"

section \<open>Router requests\<close>

text \<open>The mean, the median and the deviation of an array.\<close>

definition three_stats :: "(u64 \<Rightarrow> 'd) \<Rightarrow> ptr \<Rightarrow> nat \<Rightarrow> world \<Rightarrow> world option" where
  "three_stats csqrt p n w =
    do {
      arr \<leftarrow> get_words p w;
      mean \<leftarrow> avg_from_array arr (int n);
      median \<leftarrow> median_from_array arr (int n);
      stddev \<leftarrow> stddev_from_array csqrt arr (int n);
      Some w
    }"

definition switch_to_fill_main :: "(u64 \<Rightarrow> 'd) \<Rightarrow> env \<Rightarrow> world \<Rightarrow> unit outcome option" where
  "switch_to_fill_main csqrt hw = (let iter = 1000; requests_sampling_interval = 1000; total_requests = 10000;
      num_yield_samples_per_iter = total_requests div requests_sampling_interval;
      num_yield_samples = num_yield_samples_per_iter * iter in
    in_sequence
      [\<lambda>w. do {
         let (exetime, w) = malloc_words hw iter w;
         after_run (repeat_runs (\<lambda>i. cpu_router_closed_loop_test hw total_requests total_requests exetime (int i)) [0..<iter] w)
           (three_stats csqrt exetime iter)
       },
       \<lambda>w. do {
         let (exetime, w) = malloc_words hw iter w;
         after_run (repeat_runs (\<lambda>i. blocking_ax_router_closed_loop_test hw total_requests total_requests exetime (int i)) [0..<iter] w)
           (\<lambda>w. do { w \<leftarrow> three_stats csqrt exetime iter w; mfree exetime w })
       },
       \<lambda>w. do {
         let (exetime, w) = malloc_words hw num_yield_samples w;
         after_run (repeat_runs (\<lambda>i. yielding_ax_router_closed_loop_test hw requests_sampling_interval total_requests exetime
             (int (i * num_yield_samples_per_iter))) [0..<iter] w)
           (three_stats csqrt exetime num_yield_samples)
       },
       \<lambda>w. do {
         let (off_times, w) = malloc_words hw iter w;
         let (wait_times, w) = malloc_words hw iter w;
         let (hash_times, w) = malloc_words hw iter w;
         let stats = (\<lambda>w. do { w \<leftarrow> three_stats csqrt off_times iter w; w \<leftarrow> three_stats csqrt wait_times iter w;
           three_stats csqrt hash_times iter w });
         then_run
           (after_run (repeat_runs (\<lambda>i. blocking_ax_router_request_breakdown_test hw total_requests total_requests
             off_times wait_times hash_times (int i)) [0..<iter] w) stats)
           (\<lambda>w. after_run (repeat_runs (\<lambda>i. yielding_ax_router_request_breakdown_closed_loop_test hw requests_sampling_interval
             total_requests off_times wait_times hash_times (int i)) [0..<iter] w)
             (\<lambda>w. do { w \<leftarrow> stats w; frees [off_times, wait_times, hash_times] w }))
       },
       \<lambda>w. do {
         let (deser_times, w) = malloc_words hw iter w;
         let (hash_times, w) = malloc_words hw iter w;
         after_run (repeat_runs (\<lambda>i. cpu_router_request_breakdown hw total_requests total_requests deser_times hash_times (int i)) [0..<iter] w)
           (\<lambda>w. do { w \<leftarrow> three_stats csqrt deser_times iter w; w \<leftarrow> three_stats csqrt hash_times iter w;
             frees [deser_times, hash_times] w })
       }])"

text \<open>One request without an executor; the completion record is a block of its own, and \<open>dst_payload\<close>
  is never written.\<close>

definition emul_ax_router_main :: "env \<Rightarrow> world \<Rightarrow> unit outcome option" where
  "emul_ax_router_main hw w =
    do {
      let (self, w) = malloc Opaque w;
      let (arg, w) = malloc Opaque w;
      let (comp, w) = malloc Opaque (w\<lparr>crs := [idle_comp\<lparr>status := COMP_STATUS_PENDING\<rparr>]\<rparr>);
      let (dst_payload, w) = malloc_bytes hw (length query) w;
      (st, w) \<leftarrow> submit_offload hw 0 dst_payload w;
      (if st = STATUS_FAIL then Some (Exited w)
       else do {
         w \<leftarrow> wait_while hw COMP_STATUS_PENDING 0 w;
         w \<leftarrow> hash_payload hw dst_payload (length query) w;
         Some (Done (count_request w) ())
       })
    }"

end
