(* ===== verification/Bench_Runs.thy ===== *)
theory Bench_Runs
  imports Bench_Programs
begin

text \<open>
  What the benchmark programs do as a whole.  The growing of the payload string ends, the options
  decide which runs are made, and \<open>decomp_and_hash\<close> with all of its runs ends, serves every request of
  every run, and leaks a number of blocks that is known exactly.
\<close>

section \<open>Growing a string\<close>

text \<open>The loop stops with a string of whole copies that has at least the wanted length.\<close>

lemma grow_string_ok:
  assumes "s \<noteq> []"
  shows "\<exists>k t. grow_string s n = Some t \<and> t = concat (replicate k s) \<and> n \<le> length t"
proof -
  let ?P = "\<lambda>t. \<exists>k. t = concat (replicate k s)"
  have "\<exists>t. while_option (\<lambda>t. length t < n) (\<lambda>t. t @ s) s = Some t"
    by (rule measure_while_option_Some [where P = "\<lambda>_. True" and f = "\<lambda>t. n - length t"])
      (use assms in \<open>simp_all add: diff_less_mono2\<close>)
  then obtain t where t: "while_option (\<lambda>t. length t < n) (\<lambda>t. t @ s) s = Some t" by blast
  have "?P t"
  proof (rule while_option_rule [where P = ?P, OF _ t])
    show "?P (u @ s)" if u: "?P u" for u
    proof -
      obtain k where "u = concat (replicate k s)" using u by blast
      then have "u @ s = concat (replicate (k + 1) s)" by (subst replicate_add) simp
      then show ?thesis by blast
    qed
    show "?P s" by (rule exI [of _ 1]) simp
  qed
  with while_option_stop [OF t] t show ?thesis by (auto simp: grow_string_def)
qed

section \<open>Options\<close>

text \<open>\<open>no_latency\<close> belongs to the letter \<open>o\<close>, which is not among those of \<open>getopt\<close>.\<close>

lemma hash_option_latency: "c \<noteq> CHR ''o'' \<Longrightarrow> b_no_latency (hash_option (c, v) opts) = b_no_latency opts"
  by (simp add: hash_option_def)

lemma fold_hash_option_latency:
  assumes "CHR ''o'' \<notin> set letters"
  shows "b_no_latency (fold hash_option (getopt letters argv) opts) = b_no_latency opts"
proof (induction argv arbitrary: opts)
  case (Cons a argv)
  obtain c v where a: "a = (c, v)" by fastforce
  have "b_no_latency (hash_option (c', v) opts) = b_no_latency opts"
    if "c' = (if c \<noteq> CHR '':'' \<and> c \<in> set letters then c else CHR ''?'')" for c'
    using that assms by (intro hash_option_latency) auto
  with Cons a show ?case by (simp add: getopt_def)
qed (simp add: getopt_def)

lemma hash_options_latency: "\<not> b_no_latency (hash_options argv)"
  unfolding hash_options_def by (subst fold_hash_option_latency) (simp_all add: bench_defaults_def)

section \<open>The runs of decompress and hash\<close>

lemma hash_blocking_load_ok:
  assumes "hash_machine hw" and "fresh w" and "0 < n" and "n < 2 ^ 31" and "kinds w ex = Some (KWords len)" and "idx < len"
  shows "\<exists>w'. blocking_request_offered_load hw (blocking_decompress_and_hash_request hw) (alloc_decomp_and_hash_offload_args hw)
      free_decomp_and_hash_offload_args n n ex (int idx) w = Some (Done w' ()) \<and> harness_done n [0..<n] 1 w w'"
proof -
  have hw: "env_ok hw" "\<forall>d. verdict hw d = COMP_STATUS_COMPLETED" "deflate_ok hw"
    "length (g_query hw) \<le> iaa_compress_max_dest_size hw" using assms(1) by (simp_all add: hash_machine_def)
  have serve: "blocking_offloads K n (replicate n (blocking_decompress_and_hash_request hw)) args (\<lambda>i. [i])"
    if "hash_structs hw None n K args" for K args
  proof -
    note r = hash_structs_run(1) [OF that assms(3,4) hw(4)]
    have "blocking_requests K n (replicate n (blocking_decompress_and_hash_request hw)) args (\<lambda>i. [i])"
      using r hw(1,2) by (intro blocking_contract [where complete = is_completed and hw = hw]
        blocking_decompress_and_hash_request_run) (auto simp: hash_run_args_def intro: test_ok_completed)
    with r show ?thesis by (simp add: blocking_offloads_def blocking_offloads_axioms_def hash_run_args_def)
  qed
  have "\<exists>w'. blocking_request_offered_load hw (blocking_decompress_and_hash_request hw) (alloc_decomp_and_hash_offload_args hw)
      free_decomp_and_hash_offload_args n n ex (int idx) w = Some (Done w' ()) \<and> harness_done n [0..<n] (0 + 1) w w'"
    by (rule hash_supply.blocking_offered_load [OF hw(3) assms(2) _ _ serve assms(3) order_refl assms(5,6)])
      (simp_all add: alloc_decomp_and_hash_offload_args_def free_decomp_and_hash_offload_args_def)
  then show ?thesis by simp
qed

text \<open>Each run of the program, from any fresh heap.\<close>

definition hash_latency_ends :: "nat \<Rightarrow> nat \<Rightarrow> (nat list \<times> nat) list" where
  "hash_latency_ends n k = [([], (2 * n + 5) * k + 3), (concat (replicate k [0..<n]), k + 3),
    (concat (replicate k [0..<n]), 6 * k + 3), (concat (replicate k [0..<n]), 6 * k + 3)]"

definition hash_thrpt_ends :: "nat \<Rightarrow> nat \<Rightarrow> (nat list \<times> nat) list" where
  "hash_thrpt_ends n k = [([], (2 * n + 2) * k), (concat (replicate k [0..<n]), k), (concat (replicate k [0..<n]), k)]"

lemma concat_replicate_Nil [simp]: "concat (replicate k []) = []"
  by (induction k) simp_all

lemma hash_latency_reliable:
  assumes "core_hash_machine hw" and "stack_ok stack" and "n = b_total_requests opts" and "k = b_itr opts"
    and "0 < n" and "n < 2 ^ 31" and "0 < k" and "k < 2 ^ 31"
  shows "list_all2 (\<lambda>run (subs, k). reliable w0 n subs k run) (decomp_and_hash_latency csqrt hw stack opts) (hash_latency_ends n k)"
proof -
  have hw: "hash_machine hw" using assms(1) by (simp add: core_hash_machine_def)
  have filler: "repo_filler hw K f" if "f \<in> {hash_interleaved hw, antagonist_interleaved hw stack}" for K f
    using that assms(2) by (auto simp: repo_filler_def)
  have "completes n (concat (replicate k [])) ((2 * n + 5) * k + 3) (\<lambda>w. without_result (run_gpcore_request_brkdown csqrt hw
      (cpu_decompress_and_hash_stamped hw) (compressed_mc_req_allocator hw) compressed_mc_req_free k n w)) w" if "fresh w" for w
  proof (rule core_brkdown_runner [OF that assms(7,8)])
    show "completes n [] (2 * n + 5) (gpcore_request_breakdown hw (cpu_decompress_and_hash_stamped hw) (compressed_mc_req_allocator hw)
        compressed_mc_req_free n (Suc (nxt w)) (Suc (Suc (nxt w))) (int i)) v"
      if "fresh v" "result_arrays (kinds v) (nxt w) (Suc (nxt w)) (Suc (Suc (nxt w))) i" for i v
      using that(2) core_hash_breakdown_ok [OF assms(1) that(1) assms(5,6)]
      by (fastforce simp: completes_def harness_done_leaves result_arrays_def)
  qed
  moreover have "completes n (concat (replicate k [0..<n])) (1 * k + 3) (run_blocking_offload_request_brkdown csqrt hw
      (blocking_decompress_and_hash_request_stamped hw) (alloc_decomp_and_hash_offload_args_stamped hw)
      free_decomp_and_hash_offload_args_stamped k n) w" if "fresh w" for w
    by (rule blocking_brkdown_runner [OF that assms(7,8)])
      (use hash_blocking_breakdown_harness [OF hw _ assms(5,6)] in \<open>simp add: completes_def\<close>)
  moreover have "completes n (concat (replicate k [0..<n])) (6 * k + 3) (run_yielding_interleaved_request_brkdown csqrt hw
      (yielding_decompress_and_hash_request_stamped hw) f (alloc_decomp_and_hash_offload_args_stamped hw)
      free_decomp_and_hash_offload_args_stamped k n) w"
    if "fresh w" "f \<in> {hash_interleaved hw, antagonist_interleaved hw stack}" for w f
    by (rule interleaved_brkdown_runner [OF that(1) assms(7,8)])
      (use hash_interleaved_ok(1) [OF hw _ assms(5,6) _ filler [OF that(2)]] in \<open>simp add: completes_def\<close>)
  ultimately show ?thesis
    using assms(3,4) by (simp add: decomp_and_hash_latency_def hash_latency_ends_def reliable_def Let_def)
qed

lemma hash_thrpt_reliable:
  assumes "core_hash_machine hw" and "n = b_total_requests opts" and "k = b_itr opts"
    and "10 \<le> n" and "n < 2 ^ 31" and "0 < k" and "k * 10 < 2 ^ 31" and "n div (n div 10) \<le> 10"
  shows "list_all2 (\<lambda>run (subs, k). reliable w0 n subs k run) (decomp_and_hash_thrpt csqrt hw opts) (hash_thrpt_ends n k)"
proof -
  have hw: "hash_machine hw" using assms(1) by (simp add: core_hash_machine_def)
  have n: "0 < n" "0 < n div 10" and k: "k < 2 ^ 31" using assms(4,7) by (simp_all add: div_greater_zero_iff)
  have "completes n (concat (replicate k [])) ((2 * n + 2) * k) (run_gpcore_offeredLoad csqrt hw
      (cpu_decompress_and_hash hw) (compressed_mc_req_allocator hw) compressed_mc_req_free k n) w" if "fresh w" for w
    by (rule core_offered_runner [OF that assms(6) k])
      (use core_hash_offered_load_ok [OF assms(1) _ n(1)] in \<open>fastforce simp: completes_def harness_done_leaves\<close>)
  moreover have "completes n (concat (replicate k [0..<n])) (1 * k) (run_blocking_offered_load csqrt hw
      (blocking_decompress_and_hash_request hw) (alloc_decomp_and_hash_offload_args hw) free_decomp_and_hash_offload_args n k) w"
    if "fresh w" for w
    by (rule blocking_offered_runner [OF that assms(6) k])
      (use hash_blocking_load_ok [OF hw _ n(1) assms(5)] in \<open>fastforce simp: completes_def\<close>)
  moreover have "completes n (concat (replicate k [0..<n])) (1 * k) (run_yielding_offered_load csqrt hw
      (yielding_decompress_and_hash_request hw) (alloc_decomp_and_hash_offload_args hw) free_decomp_and_hash_offload_args 10 n k) w"
    if "fresh w" for w
  proof (rule yielding_offered_runner [OF that assms(6) _ assms(7)])
    show "completes n [0..<n] 1 (yielding_request_offered_load hw (yielding_decompress_and_hash_request hw)
        (alloc_decomp_and_hash_offload_args hw) free_decomp_and_hash_offload_args (n div 10) n (nxt w) (int (i * 10))) v"
      if "i < k" "fresh v" "kinds v (nxt w) = Some (KWords (k * 10))" for i v
    proof -
      have "i * 10 + n div (n div 10) \<le> k * 10" using that(1) assms(8) by simp
      from hash_offered_load_ok [OF hw that(2) n(1) assms(5) n(2) that(3) this] show ?thesis by (simp add: completes_def)
    qed
  qed simp
  ultimately show ?thesis
    using assms(2,3) by (simp add: decomp_and_hash_thrpt_def hash_thrpt_ends_def reliable_def Let_def)
qed

section \<open>The program\<close>

text \<open>The submissions of all runs, and the blocks that they leave.\<close>

definition hash_program_submits :: "nat \<Rightarrow> nat \<Rightarrow> bool \<Rightarrow> nat list" where
  "hash_program_submits n k no_thrpt = concat (replicate ((if no_thrpt then 3 else 5) * k) [0..<n])"

definition hash_program_leak :: "nat \<Rightarrow> nat \<Rightarrow> bool \<Rightarrow> nat" where
  "hash_program_leak n k no_thrpt = (2 * n + 18) * k + 12 + (if no_thrpt then 0 else (2 * n + 4) * k)"

text \<open>The numbers of requests and of iterations with which all arrays have the right size.\<close>

definition hash_program_sizes :: "nat \<Rightarrow> nat \<Rightarrow> bool" where
  "hash_program_sizes n k \<longleftrightarrow> 10 \<le> n \<and> n < 2 ^ 31 \<and> n div (n div 10) \<le> 10 \<and> 0 < k \<and> k * 10 < 2 ^ 31"

lemma hash_program_totals:
  "concat (map fst (hash_latency_ends n k)) = hash_program_submits n k True"
  "sum_list (map snd (hash_latency_ends n k)) = hash_program_leak n k True"
  "concat (map fst (hash_latency_ends n k @ hash_thrpt_ends n k)) = hash_program_submits n k False"
  "sum_list (map snd (hash_latency_ends n k @ hash_thrpt_ends n k)) = hash_program_leak n k False"
  by (simp_all add: hash_latency_ends_def hash_thrpt_ends_def hash_program_submits_def hash_program_leak_def
      eval_nat_numeral replicate_add algebra_simps)

lemma hash_runs_complete:
  assumes "core_hash_machine hw" and "stack_ok stack" and "\<not> b_no_latency opts"
    and "hash_program_sizes (b_total_requests opts) (b_itr opts)" and "fresh w"
  shows "completes (b_total_requests opts) (hash_program_submits (b_total_requests opts) (b_itr opts) (b_no_thrpt opts))
    (hash_program_leak (b_total_requests opts) (b_itr opts) (b_no_thrpt opts))
    (in_sequence (decomp_and_hash_runs csqrt hw stack opts)) w"
proof -
  let ?n = "b_total_requests opts" and ?k = "b_itr opts"
  have s: "10 \<le> ?n" "0 < ?n" "?n < 2 ^ 31" "?n div (?n div 10) \<le> 10" "0 < ?k" "?k * 10 < 2 ^ 31" "?k < 2 ^ 31"
    using assms(4) by (simp_all add: hash_program_sizes_def)
  note l = hash_latency_reliable [OF assms(1,2) refl refl s(2,3,5,7), of w csqrt]
  note t = hash_thrpt_reliable [OF assms(1) refl refl s(1,3,5,6,4), of w csqrt]
  have runs: "decomp_and_hash_runs csqrt hw stack opts \<noteq> []"
    using assms(3) by (simp add: decomp_and_hash_runs_def decomp_and_hash_latency_def Let_def)
  show ?thesis
  proof (cases "b_no_thrpt opts")
    case True
    then have "list_all2 (\<lambda>run (subs, k). reliable w ?n subs k run) (decomp_and_hash_runs csqrt hw stack opts) (hash_latency_ends ?n ?k)"
      using l assms(3) by (simp add: decomp_and_hash_runs_def)
    from in_sequence_completes [OF this runs assms(5)] True show ?thesis by (simp add: hash_program_totals)
  next
    case False
    then have "list_all2 (\<lambda>run (subs, k). reliable w ?n subs k run) (decomp_and_hash_runs csqrt hw stack opts)
        (hash_latency_ends ?n ?k @ hash_thrpt_ends ?n ?k)"
      using list_all2_appendI [OF l t] assms(3) by (simp add: decomp_and_hash_runs_def)
    from in_sequence_completes [OF this runs assms(5)] False show ?thesis
      by (simp add: hash_program_totals del: map_append concat_append)
  qed
qed


definition sample_argv :: "(char \<times> nat) list" where
  "sample_argv = [(CHR ''t'', 10), (CHR ''o'', 0), (CHR ''i'', 2), (CHR ''q'', input_size sample_env)]"

lemma sample_argv_options: "hash_options sample_argv = (bench_defaults 10 2 (input_size sample_env))"
  by (simp add: hash_options_def sample_argv_def getopt_def hash_option_def bench_defaults_def)


end
