(* ===== verification/Access_Requests.thy ===== *)
theory Access_Requests
  imports Runner_Runs Three_Phase_Supply Harness_Memcpy
begin

text \<open>
  The requests of \<open>three_phase.cpp\<close> that touch their buffers with a stride: write a host buffer, let
  the DSA copy it, and then access a number of bytes of the host buffer and of the copy.  Bytes to
  access and stride are options of the program (a record here; they are not negative).
\<close>

section \<open>Touching a buffer\<close>

record access_options =
  host_buf_bytes_acc :: nat
  ax_buf_bytes_acc :: nat
  stride :: nat

text \<open>\<open>buf[i] = v\<close>.\<close>

definition store_byte :: "ptr \<Rightarrow> nat \<Rightarrow> u8 \<Rightarrow> world \<Rightarrow> world option" where
  "store_byte p i v w = do { bs \<leftarrow> get_bytes p w; bs \<leftarrow> arr_set bs (int i) v; Some (set_bytes p bs w) }"

text \<open>\<open>for(int i=0; i < len; i+=st) buf[i] = i\<close>: with the stride 0 it does not end, and the last
  increment must not overflow.\<close>

partial_function (option) touch_loop :: "ptr \<Rightarrow> nat \<Rightarrow> nat \<Rightarrow> nat \<Rightarrow> world \<Rightarrow> world option" where
  "touch_loop p len st i w =
    (if i < len then
       Option.bind (store_byte p i (of_nat i) w)
         (\<lambda>w. if i + st < 2 ^ 31 then touch_loop p len st (i + st) w else None)
     else Some w)"

definition touch :: "ptr \<Rightarrow> nat \<Rightarrow> nat \<Rightarrow> world \<Rightarrow> world option" where
  "touch p len st = touch_loop p len st 0"

section \<open>Requests\<close>

definition blocking_offload_and_linear_access_stamped :: "env \<Rightarrow> offload_args \<Rightarrow> world \<Rightarrow> world slice option" where
  "blocking_offload_and_linear_access_stamped hw args w =
    do {
      w \<leftarrow> stamp hw (a_ts0 args) (a_id args) w;
      w \<leftarrow> touch (a_src_payload args) (input_size hw) 64 w;
      w \<leftarrow> prepare_dsa_memcpy_desc_with_preallocated_comp hw (a_desc args) (a_src_payload args)
             (a_dst_payload args) (a_comp args) (input_size hw) w;
      w \<leftarrow> blocking_dsa_submit hw (a_desc args) w;
      w \<leftarrow> stamp hw (a_ts1 args) (a_id args) w;
      w \<leftarrow> spin_on hw (a_comp args) w;
      w \<leftarrow> stamp hw (a_ts2 args) (a_id args) w;
      w \<leftarrow> touch (a_src_payload args) (a_src_size args) (a_aux_size args) w;
      w \<leftarrow> touch (a_dst_payload args) (a_dst_size args) (a_aux_size args) w;
      w \<leftarrow> stamp hw (a_ts3 args) (a_id args) w;
      finish_request w
    }"

text \<open>The stride is the global variable here.\<close>

definition yielding_offload_and_linear_access_stamped ::
  "env \<Rightarrow> access_options \<Rightarrow> offload_args \<Rightarrow> world \<Rightarrow> world slice option" where
  "yielding_offload_and_linear_access_stamped hw opts args w =
    do {
      w \<leftarrow> stamp hw (a_ts0 args) (a_id args) w;
      w \<leftarrow> touch (a_src_payload args) (input_size hw) 64 w;
      w \<leftarrow> prepare_dsa_memcpy_desc_with_preallocated_comp hw (a_desc args) (a_src_payload args)
             (a_dst_payload args) (a_comp args) (input_size hw) w;
      w \<leftarrow> blocking_dsa_submit hw (a_desc args) w;
      w \<leftarrow> stamp hw (a_ts1 args) (a_id args) w;
      Some (Yield w (\<lambda>_ w.
        do {
          w \<leftarrow> stamp hw (a_ts2 args) (a_id args) w;
          w \<leftarrow> touch (a_src_payload args) (a_src_size args) (stride opts) w;
          w \<leftarrow> touch (a_dst_payload args) (a_dst_size args) (stride opts) w;
          w \<leftarrow> stamp hw (a_ts3 args) (a_id args) w;
          finish_request w
        }))
    }"

section \<open>Arguments\<close>

definition alloc_linear_access_arg ::
  "env \<Rightarrow> access_options \<Rightarrow> stamps \<Rightarrow> nat \<Rightarrow> world \<Rightarrow> (offload_args \<times> world) option" where
  "alloc_linear_access_arg hw opts ts i w =
    do {
      let (self, w) = malloc Opaque w;
      let (src, w) = malloc_bytes hw (input_size hw) w;
      w \<leftarrow> touch src (input_size hw) 64 w;
      let (dst, w) = malloc_bytes hw (input_size hw) w;
      w \<leftarrow> touch dst (input_size hw) 64 w;
      let (desc, w) = malloc_desc hw w;
      Some (set_ts ts ((uninit_args hw self)\<lparr>a_src_payload := src, a_dst_payload := dst,
        a_src_size := host_buf_bytes_acc opts, a_dst_size := ax_buf_bytes_acc opts, a_aux_size := stride opts,
        a_desc := desc, a_comp := i, a_id := i\<rparr>), w)
    }"

definition alloc_offload_linear_access_args ::
  "env \<Rightarrow> access_options \<Rightarrow> nat \<Rightarrow> ptr \<Rightarrow> ptr \<Rightarrow> ptr \<Rightarrow> ptr \<Rightarrow> world \<Rightarrow> ((ptr \<times> offload_args list) \<times> world) option" where
  "alloc_offload_linear_access_args hw opts total_requests ts0 ts1 ts2 ts3 =
    alloc_array (alloc_linear_access_arg hw opts (Some (ts0, ts1, ts2, ts3))) total_requests"

definition free_access_arg :: "offload_args \<Rightarrow> world \<Rightarrow> world option" where
  "free_access_arg a = frees [a_src_payload a, a_dst_payload a, a_self a]"

definition free_offload_linear_access_args :: "nat \<Rightarrow> ptr \<times> offload_args list \<Rightarrow> world \<Rightarrow> world option" where
  "free_offload_linear_access_args total_requests = free_array free_access_arg total_requests"

section \<open>What touching does\<close>

definition touched :: "nat \<Rightarrow> nat \<Rightarrow> nat \<Rightarrow> u8 list \<Rightarrow> u8 list" where
  "touched len st i bs = map (\<lambda>j. if i \<le> j \<and> j < len \<and> st dvd (j - i) then of_nat j else bs ! j) [0..<length bs]"

lemma length_touched [simp]: "length (touched len st i bs) = length bs"
  by (simp add: touched_def)

lemma touched_none: "len \<le> i \<Longrightarrow> touched len st i bs = bs"
  by (rule nth_equalityI) (auto simp: touched_def)

lemma touched_step:
  assumes "i < len" and "i < length bs" and "0 < st"
  shows "touched len st (i + st) (bs[i := of_nat i]) = touched len st i bs"
proof (rule nth_equalityI)
  fix j assume "j < length (touched len st (i + st) (bs[i := of_nat i]))"
  then have j: "j < length bs" by simp
  have "st dvd (j - i) \<longleftrightarrow> st dvd (j - (i + st))" if "i + st \<le> j"
  proof -
    from that obtain m where "j = i + st + m" using le_Suc_ex by blast
    then show ?thesis by simp
  qed
  moreover have "\<not> st dvd (j - i)" if "i < j" "j < i + st"
    using that by (auto dest: dvd_imp_le)
  ultimately have "(i + st \<le> j \<and> st dvd (j - (i + st)) \<or> j = i) \<longleftrightarrow> i \<le> j \<and> st dvd (j - i)"
    by (cases "j < i + st"; cases "j = i") auto
  then show "touched len st (i + st) (bs[i := of_nat i]) ! j = touched len st i bs ! j"
    using j assms by (auto simp: touched_def nth_list_update)
qed simp

lemma set_bytes_twice [simp]: "set_bytes p b (set_bytes p a w) = set_bytes p b w"
  by (simp add: set_bytes_def)

lemma set_bytes_same: "get_bytes p w = Some bs \<Longrightarrow> set_bytes p bs w = w"
  by (cases w) (auto simp: set_bytes_def get_bytes_def fun_eq_iff split: option.splits block.splits)

lemma get_set_bytes [simp]: "get_bytes p (set_bytes p bs w) = Some bs"
  by (simp add: set_bytes_def get_bytes_def)

lemma touch_loop_eq:
  assumes "0 < st" and "len + st \<le> 2 ^ 31" and "get_bytes p w = Some bs" and "len \<le> length bs"
  shows "touch_loop p len st i w = Some (set_bytes p (touched len st i bs) w)"
  using assms(3,4)
proof (induction "len - i" arbitrary: i w bs rule: less_induct)
  case less
  show ?case
  proof (cases "i < len")
    case False
    then show ?thesis using less.prems by (subst touch_loop.simps) (simp add: touched_none set_bytes_same)
  next
    case True
    then have i: "i < length bs" "i + st < 2 ^ 31" using less.prems(2) assms(2) by simp_all
    let ?bs = "bs[i := of_nat i]"
    have "touch_loop p len st i w = touch_loop p len st (i + st) (set_bytes p ?bs w)"
      using True i less.prems(1) by (subst touch_loop.simps) (simp add: store_byte_def arr_simps)
    also have "\<dots> = Some (set_bytes p (touched len st (i + st) ?bs) (set_bytes p ?bs w))"
      by (rule less.hyps) (use True assms(1) less.prems(2) in simp_all)
    also have "\<dots> = Some (set_bytes p (touched len st i bs) w)"
      using touched_step [OF True i(1) assms(1)] by simp
    finally show ?thesis .
  qed
qed

lemma touch_eq:
  "0 < st \<Longrightarrow> len + st \<le> 2 ^ 31 \<Longrightarrow> get_bytes p w = Some bs \<Longrightarrow> len \<le> length bs \<Longrightarrow>
    touch p len st w = Some (set_bytes p (touched len st 0 bs) w)"
  by (simp add: touch_def touch_loop_eq)

lemma safe_touch:
  assumes "buffer_of K p len" and "0 < st" and "len + st \<le> 2 ^ 31"
  shows "safe hw K n (touch p len st)"
  unfolding safe_def
proof (intro allI impI)
  fix w assume "shape w = K"
  then obtain bs where bs: "get_bytes p w = Some bs" "len \<le> length bs"
    using assms(1) by (auto simp: buffer_of_def kinds_bytes)
  then show "\<exists>w'. touch p len st w = Some w' \<and> later hw w w'"
    using touch_eq [OF assms(2,3) bs] later_set_bytes [OF bs(1)] by simp
qed

text \<open>Accesses that leave the buffer, and the stride 0.\<close>

lemma touch_loop_out_of_bounds:
  assumes "get_bytes p w = Some bs" and "0 < st" and "length bs \<le> i + k * st" and "i + k * st < len"
  shows "touch_loop p len st i w = None"
  using assms(1,3,4)
proof (induction k arbitrary: i w bs)
  case 0
  then show ?case by (subst touch_loop.simps) (simp add: store_byte_def arr_set_def)
next
  case (Suc k)
  show ?case
  proof (cases "i < length bs")
    case True
    have "touch_loop p len st (i + st) (set_bytes p (bs[i := of_nat i]) w) = None"
      by (rule Suc.IH [of _ "bs[i := of_nat i]"]) (use Suc.prems in \<open>simp_all add: add.commute add.left_commute\<close>)
    then show ?thesis using Suc.prems True
      by (subst touch_loop.simps) (simp add: store_byte_def arr_simps)
  qed (use Suc.prems in \<open>subst touch_loop.simps, simp add: store_byte_def arr_set_def\<close>)
qed

lemma touch_stride_zero:
  assumes "0 < len"
  shows "touch p len 0 w = None"
proof (rule ccontr)
  define P where "P = (\<lambda>q l (s :: nat) (i :: nat) (w :: world) (r :: world). q = p \<and> l = len \<and> s = 0 \<and> i = 0 \<longrightarrow> False)"
  assume "touch p len 0 w \<noteq> None"
  then obtain r where r: "touch_loop p len 0 0 w = Some r" unfolding touch_def by blast
  have "P p len 0 0 w r"
  proof (rule touch_loop.raw_induct [where P = P, OF _ r])
    fix rec q l s i w r
    assume IH: "\<And>q l s i w r. rec q l s i w = Some r \<Longrightarrow> P q l s i w r"
      and u: "(if i < l then Option.bind (store_byte q i (of_nat i) w) (\<lambda>w. if i + s < 2 ^ 31 then rec q l s (i + s) w else None)
        else Some w) = Some r"
    show "P q l s i w r"
      unfolding P_def
    proof
      assume q: "q = p \<and> l = len \<and> s = 0 \<and> i = 0"
      with u assms obtain x where "rec p len 0 0 x = Some r" by (auto split: bind_splits)
      from IH [OF this] show False by (simp add: P_def)
    qed
  qed
  then show False by (simp add: P_def)
qed

section \<open>Contracts\<close>

text \<open>The sizes of the structs that the allocator builds, in bounds.\<close>

definition access_ok :: "env \<Rightarrow> access_options \<Rightarrow> bool" where
  "access_ok hw opts \<longleftrightarrow> host_buf_bytes_acc opts \<le> input_size hw \<and> ax_buf_bytes_acc opts \<le> input_size hw \<and>
    0 < stride opts \<and> input_size hw + 64 \<le> 2 ^ 31 \<and> input_size hw + stride opts \<le> 2 ^ 31"

definition linear_arg :: "access_options \<Rightarrow> offload_args \<Rightarrow> bool" where
  "linear_arg opts a \<longleftrightarrow> a_src_size a = host_buf_bytes_acc opts \<and> a_dst_size a = ax_buf_bytes_acc opts \<and> a_aux_size a = stride opts"

definition linear_buffers :: "env \<Rightarrow> access_options \<Rightarrow> shape \<Rightarrow> offload_args \<Rightarrow> bool" where
  "linear_buffers hw opts K a \<longleftrightarrow> linear_arg opts a \<and> blocks K (a_desc a) = Some KDesc \<and>
    blocks K (a_src_payload a) = Some (KBytes (input_size hw)) \<and> blocks K (a_dst_payload a) = Some (KBytes (input_size hw))"

lemma linear_safe:
  assumes "access_ok hw opts" and "linear_buffers hw opts K a"
  shows "safe hw K n (touch (a_src_payload a) (input_size hw) 64)"
    and "safe hw K n (touch (a_src_payload a) (host_buf_bytes_acc opts) (stride opts))"
    and "safe hw K n (touch (a_dst_payload a) (ax_buf_bytes_acc opts) (stride opts))"
  by (rule safe_touch; use assms in \<open>auto simp: access_ok_def linear_buffers_def buffer_of_def\<close>)+

lemma blocking_offload_and_linear_access_stamped_run:
  assumes env: "env_ok hw" and "test_ok hw complete" and "slot_args n i a" and "timed_args K n a"
    and l: "access_ok hw opts" "linear_buffers hw opts K a"
  shows "run_ok 1 hw K n complete i (blocking_offload_and_linear_access_stamped hw a)"
proof -
  have a: "a_src_size a = host_buf_bytes_acc opts" "a_dst_size a = ax_buf_bytes_acc opts" "a_aux_size a = stride opts"
    "blocks K (a_desc a) = Some KDesc" using l(2) by (simp_all add: linear_buffers_def linear_arg_def)
  show ?thesis using assms(1-4) a linear_safe [OF l, of n]
    unfolding blocking_offload_and_linear_access_stamped_def [abs_def] args_defs spin_on_def
    by (simp, intro run_ok_bind [OF safe_stamp] run_ok_bind [of _ _ _ "touch _ _ _"] run_ok_memcpy wait_ok_bind [OF _ _ safe_stamp]
        wait_ok_wait request_rules; simp add: env_ok_def)
qed

lemma yielding_offload_and_linear_access_stamped_entry:
  assumes env: "env_ok hw" and "slot_args n i a" and "timed_args K n a"
    and l: "access_ok hw opts" "linear_buffers hw opts K a"
  shows "entry_ok 1 hw K n complete i (yielding_offload_and_linear_access_stamped hw opts a)"
proof -
  have a: "a_src_size a = host_buf_bytes_acc opts" "a_dst_size a = ax_buf_bytes_acc opts"
    "blocks K (a_desc a) = Some KDesc" using l(2) by (simp_all add: linear_buffers_def linear_arg_def)
  show ?thesis using assms(1-3) a linear_safe [OF l, of n]
    unfolding yielding_offload_and_linear_access_stamped_def [abs_def] args_defs
    by (simp, intro entry_ok_bind [OF safe_stamp] entry_ok_bind [of _ _ _ "touch _ _ _"] entry_ok_memcpy request_rules; simp)
qed

section \<open>Harnesses\<close>

lemma touch_put:
  assumes "k < length bs" and "bs ! k = Bytes b" and "len \<le> length b" and "0 < st" and "len + st \<le> 2 ^ 31"
  shows "touch (nxt w + k) len st (put_blocks w bs) = Some (put_blocks w (bs[k := Bytes (touched len st 0 b)]))"
  using touch_eq [OF assms(4,5) get_bytes_put [OF assms(1,2)] assms(3)] set_bytes_put [OF assms(1)] by simp

definition fresh_touched :: "env \<Rightarrow> ptr \<Rightarrow> block" where
  "fresh_touched hw p = Bytes (touched (input_size hw) 64 0 (map (garbage hw p) [0..<input_size hw]))"

lemma fresh_touched_kind [simp]: "kind_of (fresh_touched hw p) = KBytes (input_size hw)"
  by (simp add: fresh_touched_def)

lemma alloc_linear_access_put:
  assumes "access_ok hw opts"
  shows "alloc_linear_access_arg hw opts ts i w =
    Some (set_ts ts ((uninit_args hw (nxt w))\<lparr>a_src_payload := Suc (nxt w), a_dst_payload := Suc (Suc (nxt w)),
        a_src_size := host_buf_bytes_acc opts, a_dst_size := ax_buf_bytes_acc opts, a_aux_size := stride opts,
        a_desc := Suc (Suc (Suc (nxt w))), a_comp := i, a_id := i\<rparr>),
      put_blocks (w\<lparr>rands := rands w\<rparr>) [Opaque, fresh_touched hw (Suc (nxt w)), fresh_touched hw (Suc (Suc (nxt w))),
        Desc (uninit_desc hw (Suc (Suc (Suc (nxt w)))))])"
proof -
  let ?g = "\<lambda>p. map (garbage hw p) [0..<input_size hw]" and ?n = "nxt w"
  have n: "input_size hw + 64 \<le> 2 ^ 31" using assms by (simp add: access_ok_def)
  have "touch (Suc ?n) (input_size hw) 64 (put_blocks w [Opaque, Bytes (?g (Suc ?n))]) =
      Some (put_blocks w [Opaque, fresh_touched hw (Suc ?n)])"
    using touch_put [of 1 "[Opaque, Bytes (?g (Suc ?n))]" _ "input_size hw" 64 w] n by (simp add: fresh_touched_def)
  moreover have "touch (Suc (Suc ?n)) (input_size hw) 64 (put_blocks w [Opaque, fresh_touched hw (Suc ?n), Bytes (?g (Suc (Suc ?n)))]) =
      Some (put_blocks w [Opaque, fresh_touched hw (Suc ?n), fresh_touched hw (Suc (Suc ?n))])"
    using touch_put [of 2 "[Opaque, fresh_touched hw (Suc ?n), Bytes (?g (Suc (Suc ?n)))]" _ "input_size hw" 64 w] n
    by (simp add: fresh_touched_def)
  ultimately show ?thesis
    by (simp add: alloc_linear_access_arg_def malloc_bytes_def malloc_desc_def malloc_first put_put)
qed

lemma aux_size_set_ts [simp]: "a_aux_size (set_ts ts a) = a_aux_size a"
  by (cases "(ts, a)" rule: set_ts.cases) simp_all

interpretation linear_args: allocator "alloc_linear_access_arg hw opts ts" free_access_arg
    "request_good (linear_arg opts) ts (KBytes (input_size hw)) (\<lambda>k. k = KBytes (input_size hw)) True" "\<lambda>_. True"
    "\<lambda>_. access_ok hw opts"
  for hw opts ts
proof
  fix i w assume f: "fresh w" and ok: "access_ok hw opts"
  have "\<exists>a w' F G. alloc_linear_access_arg hw opts ts i w = Some (a, w') \<and> grows F w w' \<and> calm w w' \<and>
      request_good (linear_arg opts) ts (KBytes (input_size hw)) (\<lambda>k. k = KBytes (input_size hw)) True i a F G (kinds w')"
    by (rule request_alloc [OF alloc_linear_access_put [OF ok] f]) (simp_all add: linear_arg_def)
  then show "\<exists>a w' F G. alloc_linear_access_arg hw opts ts i w = Some (a, w') \<and> grows F w w' \<and> calm w w' \<and> access_ok hw opts \<and>
      request_good (linear_arg opts) ts (KBytes (input_size hw)) (\<lambda>k. k = KBytes (input_size hw)) True i a F G (kinds w')"
    using ok by simp
qed (auto simp: request_good_local request_good_freed free_access_arg_def free_memcpy_arg_def [symmetric] request_good_leaks)

definition linear_structs :: "env \<Rightarrow> access_options \<Rightarrow> stamps \<Rightarrow> nat \<Rightarrow> shape \<Rightarrow> offload_args list \<Rightarrow> bool" where
  "linear_structs hw opts ts n K args \<longleftrightarrow> length args = n \<and> (\<forall>i < n. slot_args n i (args ! i) \<and> has_ts ts (args ! i) \<and>
    linear_buffers hw opts K (args ! i))"

interpretation linear_supply: offload_supply "alloc_array (alloc_linear_access_arg hw opts ts) n" "free_array free_access_arg n"
    "\<lambda>w. access_ok hw opts" True n "linear_structs hw opts ts n" for hw opts ts n
proof (rule array_supply [OF linear_args.allocator_axioms])
  show "linear_structs hw opts ts n K args" if "length args = n" "\<forall>i < n. \<exists>F G. request_good (linear_arg opts) ts
      (KBytes (input_size hw)) (\<lambda>k. k = KBytes (input_size hw)) True i (args ! i) F G (blocks K)" for K args
    using that by (fastforce simp: linear_structs_def request_good_def slot_args_def linear_buffers_def)
qed (auto dest: request_good_lost)

lemma linear_timed:
  assumes "linear_structs hw opts (timed_stamps a) n K args" and "\<forall>i \<in> {1, 2, 3, 4}. blocks K (a + i) = Some (KWords n)"
  shows "timed_run_args K n args"
  using assms by (simp add: linear_structs_def timed_run_args_def timed_args_def has_ts_def timed_stamps_def)

text \<open>What the properties of these harnesses assume of the machine and the options.\<close>

definition access_machine :: "env \<Rightarrow> access_options \<Rightarrow> bool" where
  "access_machine hw opts \<longleftrightarrow> env_ok hw \<and> (\<forall>d. verdict hw d = COMP_STATUS_COMPLETED) \<and> access_ok hw opts"

lemma linear_contracts:
  assumes "access_machine hw opts" and "0 < n" and "n < 2 ^ 31" and "linear_structs hw opts (timed_stamps a) n K args"
    and "\<forall>i \<in> {1, 2, 3, 4}. blocks K (a + i) = Some (KWords n)"
  shows "has_ts (timed_stamps a) (hd args)"
    and "blocking_offloads K n (replicate n (blocking_offload_and_linear_access_stamped hw)) args (\<lambda>i. [i])"
    and "yielding_offloads hw K n is_completed (replicate n (yielding_offload_and_linear_access_stamped hw opts)) args"
proof -
  have hw: "env_ok hw" "test_ok hw is_completed" "access_ok hw opts"
    using assms(1) by (auto simp: access_machine_def intro: test_ok_completed)
  note t = linear_timed [OF assms(4,5)]
  have s: "length args = n" "\<forall>i < n. slot_args n i (args ! i) \<and> linear_buffers hw opts K (args ! i) \<and> timed_args K n (args ! i)"
    using assms(4) t by (auto simp: linear_structs_def timed_run_args_def)
  show "has_ts (timed_stamps a) (hd args)" using assms(2,4) by (auto simp: linear_structs_def hd_conv_nth)
  have "blocking_requests K n (replicate n (blocking_offload_and_linear_access_stamped hw)) args (\<lambda>i. [i])"
    using s hw assms(2,3) by (intro blocking_contract [where complete = is_completed and hw = hw]
        blocking_offload_and_linear_access_stamped_run) auto
  with assms(2,3) s show "blocking_offloads K n (replicate n (blocking_offload_and_linear_access_stamped hw)) args (\<lambda>i. [i])"
    by (simp add: blocking_offloads_def blocking_offloads_axioms_def)
  have "yielding_requests hw K n is_completed (replicate n (yielding_offload_and_linear_access_stamped hw opts)) args"
    using s hw assms(2,3) by (intro yielding_contract yielding_offload_and_linear_access_stamped_entry) auto
  with assms(2,3) s show "yielding_offloads hw K n is_completed (replicate n (yielding_offload_and_linear_access_stamped hw opts)) args"
    by (simp add: yielding_offloads_def yielding_offloads_axioms_def)
qed

lemma linear_blocking_breakdown_ok:
  assumes "access_machine hw opts" and "fresh w" and "0 < n" and "n < 2 ^ 31" and "result_arrays (kinds w) off wt hash idx"
  shows "\<exists>w'. blocking_ax_request_breakdown hw (blocking_offload_and_linear_access_stamped hw)
      (alloc_offload_linear_access_args hw opts) free_offload_linear_access_args n off wt hash (int idx) w =
      Some (Done w' ()) \<and> harness_done n [0..<n] (n + 1) w w'"
proof -
  have ok: "access_ok hw opts" using assms(1) by (simp add: access_machine_def)
  have "has_ts (timed_stamps (nxt w)) (hd args) \<and>
      blocking_offloads K n (replicate n (blocking_offload_and_linear_access_stamped hw)) args (\<lambda>i. [i])"
    if "linear_structs hw opts (timed_stamps (nxt w)) n K args" "\<forall>i \<in> {1, 2, 3, 4}. blocks K (nxt w + i) = Some (KWords n)" for K args
    using linear_contracts(1,2) [OF assms(1,3,4) that] by blast
  note serve = this
  show ?thesis
    by (rule linear_supply.blocking_breakdown [where hw = hw and opts = opts, OF ok assms(2,5) _ _ serve])
      (simp_all add: alloc_offload_linear_access_args_def free_offload_linear_access_args_def timed_stamps_def)
qed

lemma linear_interleaved_breakdown_ok:
  assumes "access_machine hw opts" and "fresh w" and "0 < n" and "n < 2 ^ 31" and "result_arrays (kinds w) off wt hash idx"
    and "\<And>K. repo_filler hw K filler"
  shows "\<exists>w'. yielding_same_interleaved_request_breakdown hw (yielding_offload_and_linear_access_stamped hw opts) filler
      (alloc_offload_linear_access_args hw opts) free_offload_linear_access_args n off wt hash (int idx) w =
      Some (Done w' ()) \<and> harness_done n [0..<n] (n + 6) w w'"
proof -
  have hw: "env_ok hw" "test_ok hw is_completed" "access_ok hw opts"
    using assms(1) by (auto simp: access_machine_def intro: test_ok_completed)
  have "has_ts (timed_stamps (nxt w)) (hd args) \<and>
      yielding_offloads hw K n is_completed (replicate n (yielding_offload_and_linear_access_stamped hw opts)) args \<and> preemptible hw K n filler"
    if "linear_structs hw opts (timed_stamps (nxt w)) n K args" "\<forall>i \<in> {1, 2, 3, 4}. blocks K (nxt w + i) = Some (KWords n)" for K args
    using linear_contracts(1,3) [OF assms(1,3,4) that] repo_filler_preemptible [OF hw(1,2) assms(6)] by blast
  note serve = this
  show ?thesis
    by (rule linear_supply.interleaved_breakdown [where hw = hw and opts = opts, OF hw(3) assms(2,5,3) _ _ serve])
      (simp_all add: alloc_offload_linear_access_args_def free_offload_linear_access_args_def timed_stamps_def)
qed

end
