(* ===== verification/Access_Serial.thy ===== *)
theory Access_Serial
  imports Access_Requests Offload_Equiv Composable_Equiv Payload_Gen
begin

text \<open>
  The requests of \<open>three_phase.cpp\<close> and \<open>traverse.cpp\<close> that chase pointers: one chain in a host buffer, one in an auxiliary
  buffer whose pointers already lead through the destination of the copy.  The chains are those of
  \<open>Payload_Gen\<close>, here as the bytes of a heap block; \<open>base p\<close> is the address of the block \<open>p\<close>.
  A pointer that leads out of the block it was read from is undefined here; the chains contain none.
  What is stored in \<open>chase_pointers_global\<close> is never read and not kept.
\<close>

section \<open>Pointers in memory\<close>

text \<open>A pointer in memory, little endian.\<close>

primrec to_bytes :: "nat \<Rightarrow> u64 \<Rightarrow> u8 list" where
  "to_bytes 0 v = []"
| "to_bytes (Suc n) v = ucast v # to_bytes n (drop_bit 8 v)"

primrec of_bytes :: "u8 list \<Rightarrow> u64" where
  "of_bytes [] = 0"
| "of_bytes (b # bs) = ucast b OR push_bit 8 (of_bytes bs)"

definition load64 :: "u8 list \<Rightarrow> nat \<Rightarrow> u64 option" where
  "load64 bs i = (if i + 8 \<le> length bs then Some (of_bytes (take 8 (drop i bs))) else None)"

text \<open>\<open>*q\<close> in the block at the address \<open>start\<close>.\<close>

definition read_ptr :: "u64 \<Rightarrow> u8 list \<Rightarrow> u64 \<Rightarrow> u64 option" where
  "read_ptr start bs q = load64 bs (unat (q - start))"

primrec chase_bytes :: "u64 \<Rightarrow> u8 list \<Rightarrow> nat \<Rightarrow> u64 \<Rightarrow> u64 option" where
  "chase_bytes start bs 0 q = read_ptr start bs q"
| "chase_bytes start bs (Suc cnt) q = Option.bind (read_ptr start bs q) (chase_bytes start bs cnt)"

definition chase :: "(ptr \<Rightarrow> u64) \<Rightarrow> ptr \<Rightarrow> nat \<Rightarrow> world \<Rightarrow> world option" where
  "chase base p cnt w =
    do {
      bs \<leftarrow> get_bytes p w;
      chase_pointers_global \<leftarrow> chase_bytes (base p) bs cnt (base p);
      Some w
    }"

text \<open>The slots of a chain as the content of a block of \<open>sz\<close> bytes; where no pointer was stored the
  bytes are what \<open>malloc\<close> left.\<close>

definition chain_bytes :: "(nat \<Rightarrow> u8) \<Rightarrow> nat \<Rightarrow> u64 option list \<Rightarrow> u8 list" where
  "chain_bytes g sz slots = map (\<lambda>j.
    if j div 8 < length slots then (case slots ! (j div 8) of None \<Rightarrow> g j | Some v \<Rightarrow> to_bytes 8 v ! (j mod 8)) else g j) [0..<sz]"

text \<open>\<open>create_random_chain_starting_at\<close> as it allocates; \<open>st\<close> is the address of \<open>st_addr\<close>, or that of
  the new block for \<open>create_random_chain\<close>.  The array of indices is never freed; what it contains is not modelled.\<close>

definition alloc_chain :: "env \<Rightarrow> nat \<Rightarrow> (ptr \<Rightarrow> u64) \<Rightarrow> world \<Rightarrow> (ptr \<times> world) option" where
  "alloc_chain hw sz st w =
    do {
      let (memory, w) = malloc_bytes hw sz w;
      let (indices, w) = malloc_words hw (sz div 64) w;
      slots \<leftarrow> create_random_chain_starting_at (\<lambda>k. rnd hw (rands w + k)) sz (st memory);
      let w = w\<lparr>rands := rands w + (sz div 64 - 1)\<rparr>;
      Some (memory, set_bytes memory (chain_bytes (garbage hw memory) sz slots) w)
    }"

section \<open>Arguments\<close>

definition alloc_serialized_access_arg ::
  "env \<Rightarrow> (ptr \<Rightarrow> u64) \<Rightarrow> access_options \<Rightarrow> stamps \<Rightarrow> nat \<Rightarrow> world \<Rightarrow> (offload_args \<times> world) option" where
  "alloc_serialized_access_arg hw base opts ts i w =
    do {
      let (self, w) = malloc Opaque w;
      (src, w) \<leftarrow> alloc_chain hw (input_size hw) base w;
      let (dst, w) = malloc_bytes hw (input_size hw) w;
      w \<leftarrow> touch dst (input_size hw) 64 w;
      (aux, w) \<leftarrow> alloc_chain hw (input_size hw) (\<lambda>_. base dst) w;
      let (desc, w) = malloc_desc hw w;
      Some (set_ts ts ((uninit_args hw self)\<lparr>a_src_payload := src, a_dst_payload := dst, a_aux_payload := aux,
        a_src_size := host_buf_bytes_acc opts, a_dst_size := ax_buf_bytes_acc opts,
        a_desc := desc, a_comp := i, a_id := i\<rparr>), w)
    }"

definition alloc_offload_serialized_access_args ::
  "env \<Rightarrow> (ptr \<Rightarrow> u64) \<Rightarrow> access_options \<Rightarrow> nat \<Rightarrow> ptr \<Rightarrow> ptr \<Rightarrow> ptr \<Rightarrow> ptr \<Rightarrow> world \<Rightarrow> ((ptr \<times> offload_args list) \<times> world) option" where
  "alloc_offload_serialized_access_args hw base opts total_requests ts0 ts1 ts2 ts3 =
    alloc_array (alloc_serialized_access_arg hw base opts (Some (ts0, ts1, ts2, ts3))) total_requests"

definition free_offload_serialized_access_args :: "nat \<Rightarrow> ptr \<times> offload_args list \<Rightarrow> world \<Rightarrow> world option" where
  "free_offload_serialized_access_args total_requests = free_array free_access_arg total_requests"

section \<open>Requests\<close>

text \<open>The second time stamp is taken before the descriptor is prepared, unlike in the linear request.\<close>

definition blocking_offload_and_serial_access_stamped ::
  "env \<Rightarrow> (ptr \<Rightarrow> u64) \<Rightarrow> offload_args \<Rightarrow> world \<Rightarrow> world slice option" where
  "blocking_offload_and_serial_access_stamped hw base args w =
    do {
      w \<leftarrow> stamp hw (a_ts0 args) (a_id args) w;
      w \<leftarrow> chase base (a_src_payload args) (input_size hw div 8) w;
      w \<leftarrow> stamp hw (a_ts1 args) (a_id args) w;
      w \<leftarrow> prepare_dsa_memcpy_desc_with_preallocated_comp hw (a_desc args) (a_aux_payload args)
             (a_dst_payload args) (a_comp args) (input_size hw) w;
      w \<leftarrow> blocking_dsa_submit hw (a_desc args) w;
      w \<leftarrow> spin_on hw (a_comp args) w;
      w \<leftarrow> stamp hw (a_ts2 args) (a_id args) w;
      w \<leftarrow> chase base (a_src_payload args) (a_src_size args div 8) w;
      w \<leftarrow> chase base (a_dst_payload args) (a_dst_size args div 8) w;
      w \<leftarrow> stamp hw (a_ts3 args) (a_id args) w;
      finish_request w
    }"

text \<open>The same function under another name.\<close>

definition blocking_offload_and_access_stamped ::
  "env \<Rightarrow> (ptr \<Rightarrow> u64) \<Rightarrow> offload_args \<Rightarrow> world \<Rightarrow> world slice option" where
  "blocking_offload_and_access_stamped hw base args w =
    do {
      w \<leftarrow> stamp hw (a_ts0 args) (a_id args) w;
      w \<leftarrow> chase base (a_src_payload args) (input_size hw div 8) w;
      w \<leftarrow> stamp hw (a_ts1 args) (a_id args) w;
      w \<leftarrow> prepare_dsa_memcpy_desc_with_preallocated_comp hw (a_desc args) (a_aux_payload args)
             (a_dst_payload args) (a_comp args) (input_size hw) w;
      w \<leftarrow> blocking_dsa_submit hw (a_desc args) w;
      w \<leftarrow> spin_on hw (a_comp args) w;
      w \<leftarrow> stamp hw (a_ts2 args) (a_id args) w;
      w \<leftarrow> chase base (a_src_payload args) (a_src_size args div 8) w;
      w \<leftarrow> chase base (a_dst_payload args) (a_dst_size args div 8) w;
      w \<leftarrow> stamp hw (a_ts3 args) (a_id args) w;
      finish_request w
    }"

definition yielding_offload_and_serial_access_stamped ::
  "env \<Rightarrow> (ptr \<Rightarrow> u64) \<Rightarrow> offload_args \<Rightarrow> world \<Rightarrow> world slice option" where
  "yielding_offload_and_serial_access_stamped hw base args w =
    do {
      w \<leftarrow> stamp hw (a_ts0 args) (a_id args) w;
      w \<leftarrow> chase base (a_src_payload args) (input_size hw div 8) w;
      w \<leftarrow> prepare_dsa_memcpy_desc_with_preallocated_comp hw (a_desc args) (a_aux_payload args)
             (a_dst_payload args) (a_comp args) (input_size hw) w;
      w \<leftarrow> blocking_dsa_submit hw (a_desc args) w;
      w \<leftarrow> stamp hw (a_ts1 args) (a_id args) w;
      Some (Yield w (\<lambda>_ w.
        do {
          w \<leftarrow> stamp hw (a_ts2 args) (a_id args) w;
          w \<leftarrow> chase base (a_src_payload args) (a_src_size args div 8) w;
          w \<leftarrow> chase base (a_dst_payload args) (a_dst_size args div 8) w;
          w \<leftarrow> stamp hw (a_ts3 args) (a_id args) w;
          finish_request w
        }))
    }"

section \<open>Chains in memory\<close>

lemma length_to_bytes [simp]: "length (to_bytes n v) = n"
  by (induction n arbitrary: v) simp_all

lemma of_bytes_to_bytes: "of_bytes (to_bytes n v) = take_bit (8 * n) v"
proof (induction n arbitrary: v)
  case (Suc n)
  have "(ucast (ucast v :: u8) :: u64) OR push_bit 8 (take_bit (8 * n) (drop_bit 8 v)) = take_bit (8 * Suc n) v"
  proof (rule bit_word_eqI)
    fix k assume "k < LENGTH(64)"
    then show "bit ((ucast (ucast v :: u8) :: u64) OR push_bit 8 (take_bit (8 * n) (drop_bit 8 v))) k = bit (take_bit (8 * Suc n) v) k"
      by (cases "k < 8") (auto simp: bit_simps)
  qed
  with Suc show ?case by simp
qed simp

lemma length_chain_bytes [simp]: "length (chain_bytes g sz slots) = sz"
  by (simp add: chain_bytes_def)

lemma load64_chain:
  assumes "slots ! k = Some v" and "k < length slots" and "length slots = sz div 8"
  shows "load64 (chain_bytes g sz slots) (8 * k) = Some v"
proof -
  have k: "8 * k + 8 \<le> sz" using assms(2,3) by linarith
  have "take 8 (drop (8 * k) (chain_bytes g sz slots)) = to_bytes 8 v"
  proof (rule nth_equalityI)
    fix j assume "j < length (take 8 (drop (8 * k) (chain_bytes g sz slots)))"
    then have j: "j < 8" by simp
    then have "(8 * k + j) div 8 = k" "(8 * k + j) mod 8 = j" "8 * k + j < sz" using k by simp_all
    then show "take 8 (drop (8 * k) (chain_bytes g sz slots)) ! j = to_bytes 8 v ! j"
      using assms(1,2) j by (simp add: chain_bytes_def)
  qed (use k in simp)
  then show ?thesis using k by (simp add: load64_def of_bytes_to_bytes take_bit_word_eq_self)
qed

text \<open>Memory in which pointers can be followed for ever from its first byte, if it is (or is copied to)
  the block at \<open>start\<close>.\<close>

definition chases :: "u64 \<Rightarrow> u8 list \<Rightarrow> bool" where
  "chases start bs \<longleftrightarrow> (\<exists>S. start \<in> S \<and> (\<forall>q \<in> S. \<exists>q' \<in> S. read_ptr start bs q = Some q'))"

lemma chases_bytes:
  assumes "chases start bs"
  shows "\<exists>v. chase_bytes start bs n start = Some v"
proof -
  obtain S where S: "start \<in> S" "\<And>q. q \<in> S \<Longrightarrow> \<exists>q' \<in> S. read_ptr start bs q = Some q'" using assms by (auto simp: chases_def)
  have "\<exists>v. chase_bytes start bs n q = Some v" if "q \<in> S" for q
    using that
  proof (induction n arbitrary: q)
    case (Suc n)
    then obtain q' where "q' \<in> S" "read_ptr start bs q = Some q'" using S(2) by blast
    with Suc.IH show ?case by auto
  qed (use S(2) in auto)
  with S(1) show ?thesis by blast
qed

lemma chase_ok: "get_bytes p w = Some bs \<Longrightarrow> chases (base p) bs \<Longrightarrow> chase base p n w = Some w"
  using chases_bytes [of "base p" bs n] by (auto simp: chase_def)

lemma len64: "LENGTH(64) = 64"
  by simp

text \<open>The random chains are of this kind.\<close>

lemma chain_chases:
  assumes "64 \<le> sz" and "sz \<le> 2 ^ 31"
  shows "\<exists>slots. create_random_chain_starting_at r sz st = Some slots \<and> chases st (chain_bytes g sz slots)"
proof -
  let ?len = "sz div 64" and ?addr = "\<lambda>k. st + 8 * of_nat k :: u64"
  obtain p m where m: "create_chain r ?addr sz = Some m" "length m = sz div 8" "set p = {0..<?len}" "length p = ?len"
    "\<And>i. i < ?len \<Longrightarrow> m ! (p ! i * 8) = Some (?addr (p ! (Suc i mod ?len) * 8))"
    using create_chain_spec [OF assms(1), of r ?addr] by blast
  have len: "0 < ?len" using div_le_mono [OF assms(1), of 64] by simp
  define S where "S = ?addr ` (\<lambda>i. p ! i * 8) ` {..<?len}"
  have "\<exists>q' \<in> S. read_ptr st (chain_bytes g sz m) q = Some q'" if q: "q \<in> S" for q
  proof -
    obtain i where i: "i < ?len" "q = ?addr (p ! i * 8)" using q by (auto simp: S_def)
    have pi: "p ! i < ?len" using m(3,4) i(1) nth_mem by fastforce
    then have k: "p ! i * 8 < sz div 8" by (rule line_slot_less)
    then have "8 * (p ! i * 8) < sz" by linarith
    then have "8 * (p ! i * 8) < 2 ^ 64" using assms(2) by simp
    then have "unat (of_nat (8 * (p ! i * 8)) :: u64) = 8 * (p ! i * 8)"
      unfolding unsigned_of_nat by (simp only: len64 of_nat_id take_bit_nat_eq_self)
    moreover have "q - st = of_nat (8 * (p ! i * 8))" using i(2) by simp
    ultimately have u: "unat (q - st) = 8 * (p ! i * 8)" by simp
    have "read_ptr st (chain_bytes g sz m) q = Some (?addr (p ! (Suc i mod ?len) * 8))"
      unfolding read_ptr_def u by (rule load64_chain [OF m(5) [OF i(1)]]) (use k m(2) in simp_all)
    moreover have "Suc i mod ?len < ?len" using len by (rule mod_less_divisor)
    then have "?addr (p ! (Suc i mod ?len) * 8) \<in> S" unfolding S_def by (intro imageI) simp
    ultimately show ?thesis by blast
  qed
  moreover have "st \<in> S"
  proof -
    have "0 \<in> set p" using m(3) len by simp
    then obtain i where "i < ?len" "p ! i = 0" using m(4) by (auto simp: in_set_conv_nth)
    then show ?thesis by (auto simp: S_def image_iff intro!: bexI [of _ i])
  qed
  ultimately show ?thesis using m(1) by (auto simp: chases_def create_random_chain_starting_at_def)
qed

section \<open>Requests on a device that copies\<close>

text \<open>The state right after waiting for an operation that is alone on the device.\<close>

lemma offloaded_spin:
  assumes hw: "env_ok hw" and a: "alone i w" and i: "i < length (crs w)"
    and d: "kinds w desc = Some KDesc" and c: "d_completion_addr d = i"
    and w1: "w1 = w\<lparr>enqs := k, crs := (crs w)[i := \<lparr>status = 0, job = Some (Hw d, t)\<rparr>],
      obs := es, heap := (heap w)(desc \<mapsto> Desc d)\<rparr>"
  shows "\<exists>w2. wait_while hw 0 i w1 = Some w2 \<and> offloaded hw i desc d w w2 \<and> shape w2 = shape w \<and>
    requests_completed w2 = requests_completed w"
proof -
  have a1: "alone i w1" "i < length (crs w1)" "crs w1 ! i = \<lparr>status = 0, job = Some (Hw d, t)\<rparr>"
    using a i by (auto simp: w1 alone_def)
  from wait_alone [OF hw a1] obtain p where p: "wait_while hw 0 i w1 = Some (finished hw i (Hw d) p w1)" by blast
  obtain w2 w3 where "wait_while hw 0 i w1 = Some w2" "read_status hw i w2 = Some (verdict hw d, w3)"
    "offloaded hw i desc d w w3" "shape w3 = shape w" using offloaded_wait [OF hw a i d c w1] by blast
  with p read_status_finished [OF a1(1,2), of hw "Hw d" p] have
    3: "offloaded hw i desc d w (finished hw i (Hw d) (Suc p) w1)" "shape (finished hw i (Hw d) (Suc p) w1) = shape w"
    by (simp_all add: verdict_of_def)
  have "heap (finished hw i (Hw d) p w1) = heap (finished hw i (Hw d) (Suc p) w1)"
    "shape (finished hw i (Hw d) p w1) = shape (finished hw i (Hw d) (Suc p) w1)"
    by (simp_all add: finished_def shape_def kinds_def fun_eq_iff)
  moreover have "requests_completed (finished hw i (Hw d) p w1) = requests_completed w"
    by (simp add: finished_def run_work_def set_bytes_def w1 split: option.splits)
  ultimately show ?thesis using p 3 by (auto simp: offloaded_def get_bytes_def)
qed

definition stamps_in :: "world \<Rightarrow> offload_args \<Rightarrow> bool" where
  "stamps_in w a \<longleftrightarrow> (\<forall>ts \<in> {a_ts0 a, a_ts1 a, a_ts2 a, a_ts3 a}. \<exists>l > a_id a. kinds w ts = Some (KWords l))"

lemma stamp_in:
  assumes "stamps_in w a" and "ts \<in> {a_ts0 a, a_ts1 a, a_ts2 a, a_ts3 a}"
  shows "\<exists>w'. stamp hw ts (a_id a) w = Some w' \<and> (\<forall>p. get_bytes p w' = get_bytes p w) \<and> crs w' = crs w \<and>
    shape w' = shape w \<and> stamps_in w' a \<and> requests_completed w' = requests_completed w"
proof -
  obtain l where "kinds w ts = Some (KWords l)" "a_id a < l" using assms by (auto simp: stamps_in_def)
  from stamp_ok [OF this] obtain w' where w': "stamp hw ts (a_id a) w = Some w'" "later hw w w'" by blast
  have "shape w' = shape w" by (rule later_shape [OF w'(2)])
  moreover from this have "stamps_in w' a" using assms(1) by (simp add: stamps_in_def shape_eq_iff)
  ultimately show ?thesis using w' stamp_data [OF w'(1)] by (auto simp: same_data_def later_def)
qed

lemma stamps_in_shape: "shape w' = shape w \<Longrightarrow> stamps_in w' a = stamps_in w a"
  by (simp add: stamps_in_def shape_eq_iff)

lemma serial_request_ok:
  assumes hw: "env_ok hw" "device_copies hw" and a: "alone (a_comp a) w" "a_comp a < length (crs w)"
    and d: "kinds w (a_desc a) = Some KDesc" and ts: "stamps_in w a" and sz: "input_size hw < 2 ^ 32"
    and src: "get_bytes (a_src_payload a) w = Some s" "chases (base (a_src_payload a)) s"
    and aux: "get_bytes (a_aux_payload a) w = Some x" "length x = input_size hw" "chases (base (a_dst_payload a)) x"
    and dst: "get_bytes (a_dst_payload a) w = Some y" "length y = input_size hw" "a_src_payload a \<noteq> a_dst_payload a"
  shows "\<exists>w'. blocking_offload_and_serial_access_stamped hw base a w = Some (Yield w' returns) \<and>
    get_bytes (a_dst_payload a) w' = Some x \<and> requests_completed w' = requests_completed w + 1 \<and> shape w' = shape w"
proof -
  let ?i = "a_comp a" and ?n = "input_size hw" and ?desc = "a_desc a"
  have n: "unat (of_nat ?n :: u32) = ?n" using sz by (rule unat_of_nat_u32)
  obtain w0 where 0: "stamp hw (a_ts0 a) (a_id a) w = Some w0" "\<And>p. get_bytes p w0 = get_bytes p w" "crs w0 = crs w" "shape w0 = shape w"
    "stamps_in w0 a" "requests_completed w0 = requests_completed w" using stamp_in [OF ts, of "a_ts0 a" hw] by auto
  obtain w1 where 1: "stamp hw (a_ts1 a) (a_id a) w0 = Some w1" "\<And>p. get_bytes p w1 = get_bytes p w" "crs w1 = crs w" "shape w1 = shape w"
    "requests_completed w1 = requests_completed w" using stamp_in [OF 0(5), of "a_ts1 a" hw] 0 by auto
  have a1: "alone ?i w1" "?i < length (crs w1)" "kinds w1 ?desc = Some KDesc"
    using a d 1(3,4) by (auto simp: alone_def shape_eq_iff)
  obtain e w2 k t es where 2: "Option.bind (prepare_dsa_memcpy_desc_with_preallocated_comp hw ?desc (a_aux_payload a) (a_dst_payload a) ?i ?n w1)
      (blocking_dsa_submit hw ?desc) = Some w2"
    "w2 = w1\<lparr>enqs := k, crs := (crs w1)[?i := \<lparr>status = 0, job = Some (Hw e, t)\<rparr>], obs := es, heap := (heap w1)(?desc \<mapsto> Desc e)\<rparr>"
    "d_opcode e = opcode_memmove hw" "d_src_addr e = a_aux_payload a" "d_dst_addr e = a_dst_payload a" "d_xfer_size e = of_nat ?n"
    "d_completion_addr e = ?i"
    using prepare_memcpy_alone [OF hw(1) a1(2,3)] by blast
  obtain w3 where 3: "wait_while hw 0 ?i w2 = Some w3" "offloaded hw ?i ?desc e w1 w3" "shape w3 = shape w1"
    "requests_completed w3 = requests_completed w1" using offloaded_spin [OF hw(1) a1 2(7,2)] by blast
  have "get_bytes (a_dst_payload a) w3 = Some (transfer hw e x y)"
    using 3(2) 2(4,5) 1(2) aux(1) dst(1) by (simp add: offloaded_def)
  moreover have "transfer hw e x y = x" using hw(2) 2(3,6) n aux(2) dst(2) by (simp add: device_copies_def)
  ultimately have x3: "get_bytes (a_dst_payload a) w3 = Some x" by simp
  have "a_src_payload a \<noteq> ?desc" using src(1) d by (auto simp: kinds_desc get_bytes_def)
  then have "heap w3 (a_src_payload a) = heap w1 (a_src_payload a)" using 3(2) 2(5) dst(3) unfolding offloaded_def by simp
  then have s3: "get_bytes (a_src_payload a) w3 = Some s" using 1(2) src(1) by (simp add: get_bytes_def)
  have "stamps_in w3 a" using ts 3(3) 1(4) stamps_in_shape by metis
  then obtain w4 where 4: "stamp hw (a_ts2 a) (a_id a) w3 = Some w4" "\<And>p. get_bytes p w4 = get_bytes p w3" "shape w4 = shape w3"
    "stamps_in w4 a" "requests_completed w4 = requests_completed w3" using stamp_in [of w3 a "a_ts2 a" hw] by auto
  obtain w5 where 5: "stamp hw (a_ts3 a) (a_id a) w4 = Some w5" "\<And>p. get_bytes p w5 = get_bytes p w4" "shape w5 = shape w4"
    "requests_completed w5 = requests_completed w4" using stamp_in [OF 4(4), of "a_ts3 a" hw] by auto
  have c: "chase base (a_src_payload a) m w0 = Some w0" "chase base (a_src_payload a) m w4 = Some w4"
    "chase base (a_dst_payload a) m w4 = Some w4" for m
    using 0(2) 4(2) s3 x3 src aux(3) by (auto intro: chase_ok)
  have "blocking_offload_and_serial_access_stamped hw base a w = Some (Yield (count_request w5) returns)"
    using 0(1) 1(1) 2(1) 3(1) 4(1) 5(1) c hw(1)
    by (auto simp: blocking_offload_and_serial_access_stamped_def spin_on_def env_ok_def finish_request_def bind_eq_Some_conv)
  moreover have "shape (count_request w5) = shape w" using 5(3) 4(3) 3(3) 1(4) by (simp add: world_simps)
  moreover have "get_bytes (a_dst_payload a) (count_request w5) = Some x" using 5(2) 4(2) x3 by (simp add: count_request_def get_bytes_def)
  ultimately show ?thesis using 5(4) 4(5) 3(4) 1(5) by (auto simp: count_request_def)
qed

section \<open>The allocated requests\<close>

lemma alloc_chain_put:
  assumes "64 \<le> sz" and "sz \<le> 2 ^ 31"
  shows "\<exists>bs k. alloc_chain hw sz st (put_blocks w cs) = Some (nxt w + length cs,
      put_blocks (w\<lparr>rands := k\<rparr>) (cs @ [Bytes bs, fresh_words hw (sz div 64) (Suc (nxt w + length cs))])) \<and>
    length bs = sz \<and> chases (st (nxt w + length cs)) bs"
proof -
  let ?p = "nxt w + length cs"
  obtain slots where c: "create_random_chain_starting_at (\<lambda>k. rnd hw (rands w + k)) sz (st ?p) = Some slots"
    "chases (st ?p) (chain_bytes (garbage hw ?p) sz slots)" using chain_chases [OF assms] by blast
  let ?ws = "fresh_words hw (sz div 64) (Suc ?p)" and ?b = "chain_bytes (garbage hw ?p) sz slots"
    and ?w = "w\<lparr>rands := rands w + (sz div 64 - 1)\<rparr>"
  have "set_bytes ?p ?b (put_blocks ?w (cs @ [Bytes g, ?ws])) = put_blocks ?w (cs @ [Bytes ?b, ?ws])" for g
    using set_bytes_put [of "length cs" "cs @ [Bytes g, ?ws]" ?w ?b] by simp
  then have "alloc_chain hw sz st (put_blocks w cs) = Some (?p, put_blocks ?w (cs @ [Bytes ?b, ?ws]))"
    using c(1) by (simp add: alloc_chain_def malloc_bytes_put malloc_words_def malloc_put put_blocks_rands)
  with c(2) show ?thesis by (auto intro: exI [of _ ?b])
qed

text \<open>The sizes for which the chains and the first touches are defined.\<close>

definition chain_size :: "env \<Rightarrow> bool" where
  "chain_size hw \<longleftrightarrow> 64 \<le> input_size hw \<and> input_size hw + 64 \<le> 2 ^ 31"

definition serial_blocks :: "env \<Rightarrow> ptr \<Rightarrow> u8 list \<Rightarrow> u8 list \<Rightarrow> u8 list \<Rightarrow> block list" where
  "serial_blocks hw p s y x = [Opaque, Bytes s, fresh_words hw (input_size hw div 64) (p + 2), Bytes y, Bytes x,
    fresh_words hw (input_size hw div 64) (p + 5), Desc (uninit_desc hw (p + 6))]"

lemma aux_payload_set_ts [simp]: "a_aux_payload (set_ts ts a) = a_aux_payload a"
  by (cases "(ts, a)" rule: set_ts.cases) simp_all

lemma alloc_serialized_put:
  assumes "chain_size hw"
  shows "\<exists>a s x y k. alloc_serialized_access_arg hw base opts (Some (t0, t1, t2, t3)) i w =
      Some (a, put_blocks (w\<lparr>rands := k\<rparr>) (serial_blocks hw (nxt w) s y x)) \<and>
    a_self a = nxt w \<and> a_src_payload a = nxt w + 1 \<and> a_dst_payload a = nxt w + 3 \<and> a_aux_payload a = nxt w + 4 \<and>
    a_desc a = nxt w + 6 \<and> a_comp a = i \<and> a_id a = i \<and> {a_ts0 a, a_ts1 a, a_ts2 a, a_ts3 a} = {t0, t1, t2, t3} \<and>
    length s = input_size hw \<and> length y = input_size hw \<and> length x = input_size hw \<and>
    chases (base (nxt w + 1)) s \<and> chases (base (nxt w + 3)) x"
proof -
  let ?n = "input_size hw" and ?p = "nxt w" and ?ws = "\<lambda>p. fresh_words hw (input_size hw div 64) p"
  have n: "64 \<le> ?n" "?n \<le> 2 ^ 31" "?n + 64 \<le> 2 ^ 31" using assms by (simp_all add: chain_size_def)
  obtain s k where s: "alloc_chain hw ?n base (put_blocks w [Opaque]) = Some (?p + 1,
      put_blocks (w\<lparr>rands := k\<rparr>) [Opaque, Bytes s, ?ws (?p + 2)])" "length s = ?n" "chases (base (?p + 1)) s"
    using alloc_chain_put [OF n(1,2), of hw base w "[Opaque]"] by auto
  let ?g = "map (garbage hw (?p + 3)) [0..<?n]"
  define y where "y = touched ?n 64 0 ?g"
  let ?w = "w\<lparr>rands := k\<rparr>" and ?bs = "[Opaque, Bytes s, ?ws (?p + 2), Bytes y]"
  have y: "touch (?p + 3) ?n 64 (put_blocks ?w [Opaque, Bytes s, ?ws (?p + 2), Bytes ?g]) = Some (put_blocks ?w ?bs)"
    using touch_put [of 3 "[Opaque, Bytes s, ?ws (?p + 2), Bytes ?g]" ?g ?n 64 ?w] n(3) by (simp add: y_def)
  have m: "malloc_bytes hw ?n (put_blocks ?w [Opaque, Bytes s, ?ws (?p + 2)]) =
      (?p + 3, put_blocks ?w [Opaque, Bytes s, ?ws (?p + 2), Bytes ?g])"
    using malloc_bytes_put [of hw ?n ?w "[Opaque, Bytes s, ?ws (?p + 2)]"] by (simp add: numeral_3_eq_3)
  have e: "nxt ?w + length ?bs = ?p + 4" "Suc (?p + 4) = ?p + 5" by simp_all
  obtain x k' where x: "alloc_chain hw ?n (\<lambda>_. base (?p + 3)) (put_blocks ?w ?bs) = Some (?p + 4,
      put_blocks (?w\<lparr>rands := k'\<rparr>) (?bs @ [Bytes x, ?ws (?p + 5)]))" "length x = ?n" "chases (base (?p + 3)) x"
    using alloc_chain_put [OF n(1,2), of hw "\<lambda>_. base (?p + 3)" ?w ?bs] unfolding e by blast
  let ?a = "set_ts (Some (t0, t1, t2, t3)) ((uninit_args hw ?p)\<lparr>a_src_payload := ?p + 1, a_dst_payload := ?p + 3, a_aux_payload := ?p + 4,
        a_src_size := host_buf_bytes_acc opts, a_dst_size := ax_buf_bytes_acc opts, a_desc := ?p + 6, a_comp := i, a_id := i\<rparr>)"
  have six: "?p + 6 = Suc (Suc (Suc (Suc (Suc (Suc ?p)))))" by simp
  have d: "malloc_desc hw (put_blocks (?w\<lparr>rands := k'\<rparr>) (?bs @ [Bytes x, ?ws (?p + 5)])) =
      (?p + 6, put_blocks (w\<lparr>rands := k'\<rparr>) (serial_blocks hw ?p s y x))"
    using malloc_put [of _ "w\<lparr>rands := k'\<rparr>" "?bs @ [Bytes x, ?ws (?p + 5)]"]
    by (simp add: malloc_desc_def serial_blocks_def six)
  have "alloc_serialized_access_arg hw base opts (Some (t0, t1, t2, t3)) i w =
      Some (?a, put_blocks (w\<lparr>rands := k'\<rparr>) (serial_blocks hw ?p s y x))"
    using s(1) y m x(1) d by (simp add: alloc_serialized_access_arg_def malloc_first)
  moreover have "a_self ?a = ?p \<and> a_src_payload ?a = ?p + 1 \<and> a_dst_payload ?a = ?p + 3 \<and> a_aux_payload ?a = ?p + 4 \<and>
    a_desc ?a = ?p + 6 \<and> a_comp ?a = i \<and> a_id ?a = i \<and> {a_ts0 ?a, a_ts1 ?a, a_ts2 ?a, a_ts3 ?a} = {t0, t1, t2, t3}"
    by (simp add: uninit_args_def)
  moreover have "length y = ?n" by (simp add: y_def)
  ultimately show ?thesis using s(2,3) x(2,3) by blast
qed

text \<open>C21: One pointer chasing request from its allocation to its end, whatever the numbers of accesses are: the request
  copies the auxiliary chain into its destination, and only there its pointers can be followed; both chains are chased in
  bounds, before and after the copy.  The deallocator leaves four blocks: the descriptor, the auxiliary chain and the arrays of
  indices of the two chains.\<close>

theorem serial_request_chases:
  assumes "env_ok hw" and "device_copies hw" and "chain_size hw" and "fresh w"
    and "i < length (crs w)" and "alone i w" and "\<forall>ts \<in> {t0, t1, t2, t3}. \<exists>l > i. kinds w ts = Some (KWords l)"
  shows "\<exists>a w1 w2 w3. alloc_serialized_access_arg hw base opts (Some (t0, t1, t2, t3)) i w = Some (a, w1) \<and>
    blocking_offload_and_serial_access_stamped hw base a w1 = Some (Yield w2 returns) \<and>
    get_bytes (a_dst_payload a) w2 = get_bytes (a_aux_payload a) w1 \<and> requests_completed w2 = requests_completed w + 1 \<and>
    free_access_arg a w2 = Some w3 \<and> card {p. heap w p = None \<and> heap w3 p \<noteq> None} = 4"
proof -
  let ?p = "nxt w" and ?n = "input_size hw"
  obtain a s x y k where A: "alloc_serialized_access_arg hw base opts (Some (t0, t1, t2, t3)) i w =
      Some (a, put_blocks (w\<lparr>rands := k\<rparr>) (serial_blocks hw ?p s y x)) \<and>
    a_self a = ?p \<and> a_src_payload a = ?p + 1 \<and> a_dst_payload a = ?p + 3 \<and> a_aux_payload a = ?p + 4 \<and>
    a_desc a = ?p + 6 \<and> a_comp a = i \<and> a_id a = i \<and> {a_ts0 a, a_ts1 a, a_ts2 a, a_ts3 a} = {t0, t1, t2, t3} \<and>
    length s = ?n \<and> length y = ?n \<and> length x = ?n \<and> chases (base (?p + 1)) s \<and> chases (base (?p + 3)) x"
    using alloc_serialized_put [OF assms(3), of base opts t0 t1 t2 t3 i w] by (elim exE) (rule that)
  note a = A [THEN conjunct1]
  from A have f: "a_self a = ?p" "a_src_payload a = ?p + 1" "a_dst_payload a = ?p + 3" "a_aux_payload a = ?p + 4" "a_desc a = ?p + 6"
      "a_comp a = i" "a_id a = i" "{a_ts0 a, a_ts1 a, a_ts2 a, a_ts3 a} = {t0, t1, t2, t3}"
    and b: "length s = ?n" "length y = ?n" "length x = ?n" "chases (base (?p + 1)) s" "chases (base (?p + 3)) x"
    by - (elim conjE, assumption)+
  let ?bs = "serial_blocks hw ?p s y x" and ?w0 = "w\<lparr>rands := k\<rparr>"
  let ?w1 = "put_blocks ?w0 ?bs"
  have g: "get_bytes (?p + 1) ?w1 = Some s" "get_bytes (?p + 3) ?w1 = Some y" "get_bytes (?p + 4) ?w1 = Some x"
    using get_bytes_put [of 1 ?bs s ?w0] get_bytes_put [of 3 ?bs y ?w0] get_bytes_put [of 4 ?bs x ?w0] by (simp_all add: serial_blocks_def)
  have d: "kinds ?w1 (?p + 6) = Some KDesc" using kinds_put [of 6 ?bs ?w0] by (simp add: serial_blocks_def)
  have old: "kinds ?w1 q = kinds w q" if "q < ?p" for q using that by (simp add: kinds_def put_blocks_def)
  have "stamps_in ?w1 a"
    unfolding stamps_in_def f(7,8)
  proof
    fix ts assume "ts \<in> {t0, t1, t2, t3}"
    then obtain l where l: "i < l" "kinds w ts = Some (KWords l)" using assms(7) by blast
    then have "ts < ?p" using assms(4) by (auto simp: fresh_kinds not_less [symmetric])
    with l old show "\<exists>l > i. kinds ?w1 ts = Some (KWords l)" by auto
  qed
  moreover have "alone i ?w1" "i < length (crs ?w1)" using assms(5,6) by (simp_all add: alone_def)
  moreover have "?n < 2 ^ 32" using assms(3) by (simp add: chain_size_def)
  ultimately obtain w2 where 2: "blocking_offload_and_serial_access_stamped hw base a ?w1 = Some (Yield w2 returns)"
    "get_bytes (?p + 3) w2 = Some x" "requests_completed w2 = requests_completed w + 1" "shape w2 = shape ?w1"
    using serial_request_ok [OF assms(1,2), of a ?w1 s base x y] f b g d by auto
  let ?G = "{?p + 1, ?p + 3, ?p}"
  have K: "kinds w2 q \<noteq> None" if "q \<in> ?G" for q
    using that 2(4) kinds_put [of 0 ?bs ?w0] kinds_put [of 1 ?bs ?w0] kinds_put [of 3 ?bs ?w0]
    by (auto simp: shape_eq_iff serial_blocks_def)
  have "releases (kinds w2) (set [?p + 1, ?p + 3, ?p]) (frees [?p + 1, ?p + 3, ?p])"
    by (rule releases_frees) (use K assms(4) in \<open>auto simp: fresh_def\<close>)
  then have free: "free_access_arg a w2 = Some (without ?G w2)" by (simp add: releases_def free_access_arg_def f)
  have len: "length ?bs = 7" by (simp add: serial_blocks_def)
  have "heap w2 q = None \<longleftrightarrow> heap ?w1 q = None" for q
    using 2(4) by (metis shape_eq_iff kinds_def map_option_is_None)
  also have "heap ?w1 q = None \<longleftrightarrow> \<not> (?p \<le> q \<and> q < ?p + 7) \<and> heap w q = None" for q
    unfolding put_blocks_def len by simp
  finally have h: "heap w2 q = None \<longleftrightarrow> \<not> (?p \<le> q \<and> q < ?p + 7) \<and> heap w q = None" for q .
  have h': "(\<exists>y. heap w2 q = Some y) \<longleftrightarrow> ?p \<le> q \<and> q < ?p + 7 \<or> (\<exists>y. heap w q = Some y)" for q
    using h [of q] by (metis not_None_eq)
  have "{q. heap w q = None \<and> heap (without ?G w2) q \<noteq> None} = {?p..<?p + 7} - ?G"
    unfolding heap_without using assms(4) by (auto simp: fresh_def h')
  moreover have "card ({?p..<?p + 7} - ?G) = 4" by (subst card_Diff_subset) auto
  ultimately show ?thesis using a 2 f g free by auto
qed

text \<open>A machine with buffers of one cache line.\<close>

lemma chain_env_ok: "env_ok (dsa_env\<lparr>input_size := 64\<rparr>)" "device_copies (dsa_env\<lparr>input_size := 64\<rparr>)" "chain_size (dsa_env\<lparr>input_size := 64\<rparr>)"
  using dsa_env_ok(1,3) by (simp_all add: env_ok_def device_copies_def chain_size_def)

lemma serial_request_chases_witness:
  "\<exists>a w1 w2 w3. alloc_serialized_access_arg (dsa_env\<lparr>input_size := 64\<rparr>) (\<lambda>p. of_nat (4096 * p)) \<lparr>host_buf_bytes_acc = 64, ax_buf_bytes_acc = 8, stride = 64\<rparr>
      (Some (1, 2, 3, 4)) 2 (sample_world 3) = Some (a, w1) \<and>
    blocking_offload_and_serial_access_stamped (dsa_env\<lparr>input_size := 64\<rparr>) (\<lambda>p. of_nat (4096 * p)) a w1 = Some (Yield w2 returns) \<and>
    get_bytes (a_dst_payload a) w2 = get_bytes (a_aux_payload a) w1 \<and> requests_completed w2 = requests_completed (sample_world 3) + 1 \<and>
    free_access_arg a w2 = Some w3 \<and> card {p. heap (sample_world 3) p = None \<and> heap w3 p \<noteq> None} = 4"
proof (rule serial_request_chases [OF chain_env_ok sample_fresh])
  show "alone 2 (sample_world 3)" "2 < length (crs (sample_world 3))" by (auto simp: alone_def sample_world_def idle_comp_def)
  show "\<forall>ts \<in> {1, 2, 3, 4}. \<exists>l > 2. kinds (sample_world 3) ts = Some (KWords l)" by (simp add: sample_kinds)
qed

end
