(* ===== verification/Traverse.thy ===== *)
theory Traverse
  imports Access_Requests Requests_Walker
begin

text \<open>
  The requests of \<open>traverse.cpp\<close>: walk a linked list that all requests share, let the DSA copy a buffer, and
  walk the list again.  The filler \<open>lltraverse_interleaved\<close> walks the same list while the copy is under way.
\<close>

section \<open>Arguments\<close>

text \<open>The list is in the global variable \<open>glb_ll_head\<close> when the structs are built.\<close>

definition alloc_traverse_arg :: "env \<Rightarrow> stamps \<Rightarrow> nat \<Rightarrow> world \<Rightarrow> (offload_args \<times> world) option" where
  "alloc_traverse_arg hw ts i w =
    (let (self, w) = malloc Opaque w;
         (src, w) = malloc_bytes hw (input_size hw) w;
         (dst, w) = malloc_bytes hw (input_size hw) w;
         (desc, w) = malloc_desc hw w
     in Some (set_ts ts ((uninit_args hw self)\<lparr>a_src_payload := src, a_dst_payload := dst, a_aux_payload := g_ll_head w,
          a_src_size := input_size hw, a_dst_size := input_size hw div sizeof_node, a_desc := desc, a_comp := i, a_id := i\<rparr>), w))"

text \<open>\<open>glb_ll_head\<close> is built by the first call, and again after every deallocation.\<close>

definition shared_list :: "env \<Rightarrow> world \<Rightarrow> world option" where
  "shared_list hw w =
    (if g_ll_head w = 0 then do {
       (head, w) \<leftarrow> build_host_ll hw (int (input_size hw div sizeof_node)) w;
       Some (w\<lparr>g_ll_head := head\<rparr>)
     } else Some w)"

definition alloc_offload_traverse_and_offload_args ::
  "env \<Rightarrow> nat \<Rightarrow> ptr \<Rightarrow> ptr \<Rightarrow> ptr \<Rightarrow> ptr \<Rightarrow> world \<Rightarrow> ((ptr \<times> offload_args list) \<times> world) option" where
  "alloc_offload_traverse_and_offload_args hw total_requests ts0 ts1 ts2 ts3 w =
    do {
      let (off_args, w) = malloc Opaque w;
      w \<leftarrow> shared_list hw w;
      (args, w) \<leftarrow> alloc_loop (alloc_traverse_arg hw (Some (ts0, ts1, ts2, ts3))) [0..<total_requests] w;
      Some ((off_args, args), w)
    }"

definition free_offload_traverse_and_offload_args :: "nat \<Rightarrow> ptr \<times> offload_args list \<Rightarrow> world \<Rightarrow> world option" where
  "free_offload_traverse_and_offload_args total_requests off_args w =
    do {
      w \<leftarrow> free_array free_access_arg total_requests off_args w;
      w \<leftarrow> free_ll (g_ll_head w) w;
      Some (w\<lparr>g_ll_head := 0\<rparr>)
    }"

section \<open>Requests\<close>

text \<open>\<open>glb_node_ptr = ll_head\<close>.  The walk is that of \<open>ll_simple\<close>.\<close>

definition set_node_ptr :: "ptr \<Rightarrow> world \<Rightarrow> world option" where
  "set_node_ptr p w = Some (w\<lparr>g_node_ptr := p\<rparr>)"

definition blocking_traverse_and_offload_stamped :: "env \<Rightarrow> offload_args \<Rightarrow> world \<Rightarrow> world slice option" where
  "blocking_traverse_and_offload_stamped hw args w =
    do {
      w \<leftarrow> stamp hw (a_ts0 args) (a_id args) w;
      w \<leftarrow> ll_simple (a_aux_payload args) w;
      w \<leftarrow> set_node_ptr (a_aux_payload args) w;
      w \<leftarrow> prepare_dsa_memcpy_desc_with_preallocated_comp hw (a_desc args) (a_src_payload args)
             (a_dst_payload args) (a_comp args) (input_size hw) w;
      w \<leftarrow> blocking_dsa_submit hw (a_desc args) w;
      w \<leftarrow> stamp hw (a_ts1 args) (a_id args) w;
      w \<leftarrow> spin_on hw (a_comp args) w;
      w \<leftarrow> stamp hw (a_ts2 args) (a_id args) w;
      w \<leftarrow> ll_simple (a_aux_payload args) w;
      w \<leftarrow> stamp hw (a_ts3 args) (a_id args) w;
      finish_request w
    }"

definition yielding_traverse_and_offload_stamped :: "env \<Rightarrow> offload_args \<Rightarrow> world \<Rightarrow> world slice option" where
  "yielding_traverse_and_offload_stamped hw args w =
    do {
      w \<leftarrow> stamp hw (a_ts0 args) (a_id args) w;
      w \<leftarrow> ll_simple (a_aux_payload args) w;
      w \<leftarrow> set_node_ptr (a_aux_payload args) w;
      w \<leftarrow> prepare_dsa_memcpy_desc_with_preallocated_comp hw (a_desc args) (a_src_payload args)
             (a_dst_payload args) (a_comp args) (input_size hw) w;
      w \<leftarrow> blocking_dsa_submit hw (a_desc args) w;
      w \<leftarrow> stamp hw (a_ts1 args) (a_id args) w;
      Some (Yield w (\<lambda>_ w.
        do {
          w \<leftarrow> stamp hw (a_ts2 args) (a_id args) w;
          w \<leftarrow> ll_simple (a_aux_payload args) w;
          w \<leftarrow> stamp hw (a_ts3 args) (a_id args) w;
          finish_request w
        }))
    }"

section \<open>The filler\<close>

text \<open>One turn of its loop after the signal was found clear.  At the end of the list it starts again: at
  \<open>glb_ll_head\<close> before the first interruption, at \<open>glb_node_ptr\<close> afterwards, since
  \<open>traversal_in_progress\<close> is never set again.\<close>

definition lltraverse_work :: "ptr \<times> bool \<Rightarrow> world \<Rightarrow> ((ptr \<times> bool) \<times> world) option" where
  "lltraverse_work l w = (case l of (cur, traversal_in_progress) \<Rightarrow>
    if cur = 0 then Some ((if traversal_in_progress then g_ll_head w else g_node_ptr w, traversal_in_progress), w)
    else do { (docID, next) \<leftarrow> get_node cur w; Some ((next, traversal_in_progress), w) })"

text \<open>An interruption clears \<open>cur\<close> and \<open>traversal_in_progress\<close>, so every resumption starts in the same local state.\<close>

definition lltraverse_resume :: "env \<Rightarrow> nat \<Rightarrow> unit \<Rightarrow> world \<Rightarrow> (unit \<times> world) option" where
  "lltraverse_resume hw p_sig u w =
    do { (l, w) \<leftarrow> after_probe hw lltraverse_work p_sig (0, False) w; Some ((), w) }"

definition lltraverse_resumed :: "env \<Rightarrow> fiber" where
  "lltraverse_resumed hw p_sig w =
    map_option (\<lambda>(u, w). suspended (lltraverse_resume hw) () w) (lltraverse_resume hw p_sig () w)"

definition lltraverse_interleaved :: "env \<Rightarrow> fiber" where
  "lltraverse_interleaved hw p_sig w =
    do {
      (l, w) \<leftarrow> until_signal hw lltraverse_work p_sig (g_node_ptr w, True) w;
      Some (suspended (lltraverse_resume hw) () w)
    }"

section \<open>Contracts of the requests\<close>

lemma safe_set_node_ptr [request_rules]: "safe hw K n (set_node_ptr p)"
  by (auto simp: safe_def set_node_ptr_def later_def shape_eq_iff kinds_def list_all2_refl fun_eq_iff)

definition traverse_buffers :: "shape \<Rightarrow> offload_args \<Rightarrow> bool" where
  "traverse_buffers K a \<longleftrightarrow> list_at K (a_aux_payload a) \<and> blocks K (a_desc a) = Some KDesc"

lemma blocking_traverse_and_offload_stamped_run:
  assumes env: "env_ok hw" and "test_ok hw complete" and "slot_args n i a" and "timed_args K n a" and "traverse_buffers K a"
  shows "run_ok 1 hw K n complete i (blocking_traverse_and_offload_stamped hw a)"
  using assms unfolding blocking_traverse_and_offload_stamped_def [abs_def] args_defs spin_on_def traverse_buffers_def
  by (simp, intro run_ok_bind [OF safe_stamp] run_ok_bind [OF safe_ll_simple] run_ok_bind [OF safe_set_node_ptr] run_ok_memcpy
      wait_ok_bind [OF _ _ safe_stamp] wait_ok_wait request_rules; simp add: env_ok_def)

lemma yielding_traverse_and_offload_stamped_entry:
  assumes env: "env_ok hw" and "slot_args n i a" and "timed_args K n a" and "traverse_buffers K a"
  shows "entry_ok 1 hw K n complete i (yielding_traverse_and_offload_stamped hw a)"
  using assms unfolding yielding_traverse_and_offload_stamped_def [abs_def] args_defs traverse_buffers_def
  by (simp, intro entry_ok_bind [OF safe_stamp] entry_ok_bind [OF safe_ll_simple] entry_ok_bind [OF safe_set_node_ptr] entry_ok_memcpy
      request_rules; simp)

section \<open>What the filler does\<close>

lemma suspended_lltraverse: "suspended (lltraverse_resume hw) () w = Yield w (lltraverse_resumed hw)"
  by (subst suspended.code) (simp add: lltraverse_resumed_def [abs_def] case_prod_beta')

text \<open>The same work with the two global variables as constants.\<close>

definition lltraverse_at :: "ptr \<Rightarrow> ptr \<Rightarrow> ptr \<times> bool \<Rightarrow> world \<Rightarrow> ((ptr \<times> bool) \<times> world) option" where
  "lltraverse_at node_ptr ll_head l w = (case l of (cur, traversal_in_progress) \<Rightarrow>
    if cur = 0 then Some ((if traversal_in_progress then ll_head else node_ptr, traversal_in_progress), w)
    else do { (docID, next) \<leftarrow> get_node cur w; Some ((next, traversal_in_progress), w) })"

lemma lltraverse_at_work: "g_node_ptr w = p \<Longrightarrow> g_ll_head w = h \<Longrightarrow> lltraverse_work l w = lltraverse_at p h l w"
  by (simp add: lltraverse_work_def lltraverse_at_def split: prod.splits)

lemma lltraverse_at_world: "lltraverse_at p h l w = Some (l', w') \<Longrightarrow> w' = w"
  by (auto simp: lltraverse_at_def bind_eq_Some_conv split: prod.splits if_splits)

interpretation traversal: filler_work hw "lltraverse_at p h" "\<lambda>K. list_at K p \<and> list_at K h" "\<lambda>K l. list_at K (fst l)" for hw p h
proof
  fix K and l :: "ptr \<times> bool" and w :: world
  assume a: "list_at K p \<and> list_at K h" "list_at K (fst l)" "shape w = K"
  obtain cur tip where l: "l = (cur, tip)" by (cases l)
  show "\<exists>l' w'. lltraverse_at p h l w = Some (l', w') \<and> list_at K (fst l') \<and> later hw w w'"
  proof (cases "cur = 0")
    case True
    then show ?thesis using a by (auto simp: lltraverse_at_def l)
  next
    case False
    obtain qs where qs: "seg (blocks K) cur qs 0" using a(2) by (auto simp: list_at_def l)
    with False obtain q qs' where "qs = q # qs'" by (cases qs) auto
    with qs obtain n where n: "blocks K cur = Some (KNode n)" "seg (blocks K) n qs' 0" by (auto split: option.splits kind.splits)
    then obtain d where "get_node cur w = Some (d, n)" using a(3) by (auto simp: kinds_node get_node_def)
    with n(2) False show ?thesis by (auto simp: lltraverse_at_def l list_at_def)
  qed
qed

lemma device_finish_pointers: "g_node_ptr (device_finish hw i w) = g_node_ptr w" "g_ll_head (device_finish hw i w) = g_ll_head w"
  by (simp_all add: device_finish_def Let_def run_work_def set_bytes_def split: option.splits work.splits)

lemma tick_pointers: "g_node_ptr (tick hw w) = g_node_ptr w" "g_ll_head (tick hw w) = g_ll_head w"
proof -
  have "g_node_ptr (fold (device_finish hw) is w) = g_node_ptr w" "g_ll_head (fold (device_finish hw) is w) = g_ll_head w"
    for "is" and w :: world
    by (induction "is" arbitrary: w) (simp_all add: device_finish_pointers)
  then show "g_node_ptr (tick hw w) = g_node_ptr w" "g_ll_head (tick hw w) = g_ll_head w" by (simp_all add: tick_def)
qed

lemma until_signal_pointers:
  assumes "until_signal hw (lltraverse_at p h) i l w = Some r" and "g_node_ptr w = p" and "g_ll_head w = h"
  shows "until_signal hw lltraverse_work i l w = Some r \<and> g_node_ptr (snd r) = p"
proof -
  define P where "P = (\<lambda>hw wk i l w (r :: (ptr \<times> bool) \<times> world). wk = lltraverse_at p h \<and> g_node_ptr w = p \<and> g_ll_head w = h \<longrightarrow>
    until_signal hw lltraverse_work i l w = Some r \<and> g_node_ptr (snd r) = p)"
  have "P hw (lltraverse_at p h) i l w r"
  proof (rule until_signal.raw_induct [where P = P, OF _ assms(1)])
    fix rec hw wk i l w r
    assume IH: "\<And>hw wk i l w r. rec hw wk i l w = Some r \<Longrightarrow> P hw wk i l w r"
      and u: "Option.bind (is_signal_set hw i w) (\<lambda>(set, w).
        if set then Some (l, w) else Option.bind (wk l w) (\<lambda>(l, w). rec hw wk i l w)) = Some r"
    show "P hw wk i l w r"
      unfolding P_def
    proof
      assume a: "wk = lltraverse_at p h \<and> g_node_ptr w = p \<and> g_ll_head w = h"
      obtain b w1 where s: "is_signal_set hw i w = Some (b, w1)" using u by (auto simp: bind_eq_Some_conv)
      then have w1: "w1 = tick hw w" by (auto simp: is_signal_set_def read_status_def Let_def split: if_splits)
      then have g: "g_node_ptr w1 = p" "g_ll_head w1 = h" using a by (simp_all add: tick_pointers)
      show "until_signal hw lltraverse_work i l w = Some r \<and> g_node_ptr (snd r) = p"
      proof (cases b)
        case True
        then show ?thesis using s u g by (subst until_signal.simps) auto
      next
        case False
        then obtain l2 w2 where 2: "lltraverse_at p h l w1 = Some (l2, w2)" "rec hw wk i l2 w2 = Some r"
          using s u a by (auto simp: bind_eq_Some_conv)
        have "w2 = w1" by (rule lltraverse_at_world [OF 2(1)])
        with IH [OF 2(2)] a g have "until_signal hw lltraverse_work i l2 w2 = Some r \<and> g_node_ptr (snd r) = p" by (simp add: P_def)
        moreover have "lltraverse_work l w1 = Some (l2, w2)" using lltraverse_at_work [OF g] 2(1) by simp
        ultimately show ?thesis using s False by (subst until_signal.simps) simp
      qed
    qed
  qed
  with assms(2,3) show ?thesis by (simp add: P_def)
qed


text \<open>A world with a list of two nodes and an operation under way.\<close>

definition traverse_world :: world where
  "traverse_world = (sample_world 3)\<lparr>heap := (heap (sample_world 3))(70 \<mapsto> Node 0 71, 71 \<mapsto> Node 1 0), nxt := 72,
    g_ll_head := 70, g_node_ptr := 70, crs := [\<lparr>status = 0, job = Some (Hw zero_desc, 9)\<rparr>]\<rparr>"


end
