(* ===== verification/Access_Programs.thy ===== *)
theory Access_Programs
  imports Access_Serial Traverse Bench_Programs
begin

text \<open>
  The programs \<open>three_phase.cpp\<close> and \<open>traverse.cpp\<close>, and the runs of the linear requests: they serve every request,
  whatever fills the time of the copies, as long as the options stay within the buffers, and are undefined otherwise.
\<close>

section \<open>Options\<close>

record access_program_options =
  p_total_requests :: nat
  p_itr :: nat
  p_input_size :: nat
  p_access :: access_options
  p_no_latency :: bool
  p_run_serialized :: bool
  p_run_linear :: bool

text \<open>The global variables and the local variables of \<open>main\<close> at the start; \<open>no_thrpt\<close> is never read.\<close>

definition access_defaults :: access_program_options where
  "access_defaults = \<lparr>p_total_requests = 1000, p_itr = 100, p_input_size = 16384,
    p_access = \<lparr>host_buf_bytes_acc = 16384, ax_buf_bytes_acc = 0, stride = 64\<rparr>,
    p_no_latency = False, p_run_serialized = False, p_run_linear = False\<rparr>"

definition access_option :: "char \<times> nat \<Rightarrow> access_program_options \<Rightarrow> access_program_options" where
  "access_option opt opts = (case opt of (c, v) \<Rightarrow>
    if c = CHR ''t'' then opts\<lparr>p_total_requests := v\<rparr>
    else if c = CHR ''i'' then opts\<lparr>p_itr := v\<rparr>
    else if c = CHR ''q'' then opts\<lparr>p_input_size := v\<rparr>
    else if c = CHR ''o'' then opts\<lparr>p_no_latency := True\<rparr>
    else if c = CHR ''j'' then opts\<lparr>p_access := (p_access opts)\<lparr>host_buf_bytes_acc := v\<rparr>\<rparr>
    else if c = CHR ''s'' then opts\<lparr>p_access := (p_access opts)\<lparr>ax_buf_bytes_acc := v\<rparr>\<rparr>
    else if c = CHR ''y'' then opts\<lparr>p_access := (p_access opts)\<lparr>stride := v\<rparr>\<rparr>
    else if c = CHR ''l'' then opts\<lparr>p_run_linear := True\<rparr>
    else if c = CHR ''r'' then opts\<lparr>p_run_serialized := True\<rparr>
    else opts)"

definition access_program_options_of :: "(char \<times> nat) list \<Rightarrow> access_program_options" where
  "access_program_options_of argv = fold access_option (getopt ''y:s:j:t:i:r:s:q:d:hf'' argv) access_defaults"

section \<open>Strided and serial accesses\<close>

definition serialized_runs ::
  "(u64 \<Rightarrow> 'd) \<Rightarrow> env \<Rightarrow> (ptr \<Rightarrow> u64) \<Rightarrow> int list \<Rightarrow> access_options \<Rightarrow> nat \<Rightarrow> nat \<Rightarrow> (world \<Rightarrow> unit outcome option) list" where
  "serialized_runs csqrt hw base stack opts itr total_requests =
    [run_blocking_offload_request_brkdown csqrt hw (blocking_offload_and_serial_access_stamped hw base)
       (alloc_offload_serialized_access_args hw base opts) free_offload_serialized_access_args itr total_requests,
     run_yielding_interleaved_request_brkdown csqrt hw (yielding_offload_and_serial_access_stamped hw base) (hash_interleaved hw)
       (alloc_offload_serialized_access_args hw base opts) free_offload_serialized_access_args itr total_requests,
     run_yielding_interleaved_request_brkdown csqrt hw (yielding_offload_and_serial_access_stamped hw base) (antagonist_interleaved hw stack)
       (alloc_offload_serialized_access_args hw base opts) free_offload_serialized_access_args itr total_requests]"

definition linear_runs ::
  "(u64 \<Rightarrow> 'd) \<Rightarrow> env \<Rightarrow> int list \<Rightarrow> access_options \<Rightarrow> nat \<Rightarrow> nat \<Rightarrow> (world \<Rightarrow> unit outcome option) list" where
  "linear_runs csqrt hw stack opts itr total_requests =
    [run_blocking_offload_request_brkdown csqrt hw (blocking_offload_and_linear_access_stamped hw)
       (alloc_offload_linear_access_args hw opts) free_offload_linear_access_args itr total_requests,
     run_yielding_interleaved_request_brkdown csqrt hw (yielding_offload_and_linear_access_stamped hw opts) (hash_interleaved hw)
       (alloc_offload_linear_access_args hw opts) free_offload_linear_access_args itr total_requests,
     run_yielding_interleaved_request_brkdown csqrt hw (yielding_offload_and_linear_access_stamped hw opts) (antagonist_interleaved hw stack)
       (alloc_offload_linear_access_args hw opts) free_offload_linear_access_args itr total_requests]"

text \<open>Without a choice both kinds run.\<close>

definition three_phase_runs ::
  "(u64 \<Rightarrow> 'd) \<Rightarrow> env \<Rightarrow> (ptr \<Rightarrow> u64) \<Rightarrow> int list \<Rightarrow> access_program_options \<Rightarrow> (world \<Rightarrow> unit outcome option) list" where
  "three_phase_runs csqrt hw base stack opts =
    (if p_no_latency opts then []
     else let both = \<not> p_run_linear opts \<and> \<not> p_run_serialized opts in
       (if both \<or> p_run_serialized opts then serialized_runs csqrt hw base stack (p_access opts) (p_itr opts) (p_total_requests opts) else []) @
       (if both \<or> p_run_linear opts then linear_runs csqrt hw stack (p_access opts) (p_itr opts) (p_total_requests opts) else []))"

definition three_phase_main ::
  "(u64 \<Rightarrow> 'd) \<Rightarrow> env \<Rightarrow> (ptr \<Rightarrow> u64) \<Rightarrow> int list \<Rightarrow> (char \<times> nat) list \<Rightarrow> world \<Rightarrow> unit outcome option" where
  "three_phase_main csqrt hw base stack argv w = (let opts = access_program_options_of argv in
    in_sequence (three_phase_runs csqrt (hw\<lparr>input_size := p_input_size opts\<rparr>) base stack opts) w)"

section \<open>Traversals\<close>

definition traverse_runs :: "(u64 \<Rightarrow> 'd) \<Rightarrow> env \<Rightarrow> int list \<Rightarrow> nat \<Rightarrow> nat \<Rightarrow> (world \<Rightarrow> unit outcome option) list" where
  "traverse_runs csqrt hw stack itr total_requests =
    [run_blocking_offload_request_brkdown csqrt hw (blocking_traverse_and_offload_stamped hw)
       (alloc_offload_traverse_and_offload_args hw) free_offload_traverse_and_offload_args itr total_requests,
     run_yielding_interleaved_request_brkdown csqrt hw (yielding_traverse_and_offload_stamped hw) (lltraverse_interleaved hw)
       (alloc_offload_traverse_and_offload_args hw) free_offload_traverse_and_offload_args itr total_requests,
     run_yielding_multiple_filler_request_brkdown csqrt hw (yielding_traverse_and_offload_stamped hw) (lltraverse_interleaved hw)
       (alloc_offload_traverse_and_offload_args hw) free_offload_traverse_and_offload_args itr total_requests,
     run_yielding_interleaved_request_brkdown csqrt hw (yielding_traverse_and_offload_stamped hw) (antagonist_interleaved hw stack)
       (alloc_offload_traverse_and_offload_args hw) free_offload_traverse_and_offload_args itr total_requests,
     run_yielding_multiple_filler_request_brkdown csqrt hw (yielding_traverse_and_offload_stamped hw) (antagonist_interleaved hw stack)
       (alloc_offload_traverse_and_offload_args hw) free_offload_traverse_and_offload_args itr total_requests]"

text \<open>The options of \<open>traverse.cpp\<close> are those of \<open>three_phase.cpp\<close> without \<open>l\<close> and \<open>r\<close>; the byte counts and the stride
  are not used.\<close>

definition traverse_option :: "char \<times> nat \<Rightarrow> access_program_options \<Rightarrow> access_program_options" where
  "traverse_option opt opts = (if fst opt \<in> {CHR ''l'', CHR ''r''} then opts else access_option opt opts)"

definition traverse_main ::
  "(u64 \<Rightarrow> 'd) \<Rightarrow> env \<Rightarrow> int list \<Rightarrow> (char \<times> nat) list \<Rightarrow> world \<Rightarrow> unit outcome option" where
  "traverse_main csqrt hw stack argv w =
    (let opts = fold traverse_option (getopt ''y:s:j:t:i:r:s:q:d:hf'' argv) access_defaults;
         hw = hw\<lparr>input_size := p_input_size opts\<rparr> in
     if p_no_latency opts then in_sequence [] w
     else in_sequence (traverse_runs csqrt hw stack (p_itr opts) (p_total_requests opts)) w)"

section \<open>Runs of linear requests\<close>

text \<open>C9: The runs of the linear requests, when the numbers of accessed bytes stay within the buffers and the stride is
  positive: the blocking run and the interleaved run with any filler of the program end, each iteration serves every request
  once and in order, and the leak is exact: per iteration the descriptors that the deallocator forgets, the array of
  contexts, and the time stamps and the filler's context of the interleaved harness.\<close>

theorem linear_access_runs:
  assumes "access_machine hw opts" and "stack_ok stack" and "filler \<in> {hash_interleaved hw, antagonist_interleaved hw stack}"
    and "fresh w" and "0 < n" and "n < 2 ^ 31" and "0 < k" and "k < 2 ^ 31"
  shows "(\<exists>w'. run_blocking_offload_request_brkdown csqrt hw (blocking_offload_and_linear_access_stamped hw)
      (alloc_offload_linear_access_args hw opts) free_offload_linear_access_args k n w = Some (Done w' ()) \<and>
      harness_done n (concat (replicate k [0..<n])) ((n + 1) * k + 3) w w') \<and>
    (\<exists>w'. run_yielding_interleaved_request_brkdown csqrt hw (yielding_offload_and_linear_access_stamped hw opts) filler
      (alloc_offload_linear_access_args hw opts) free_offload_linear_access_args k n w = Some (Done w' ()) \<and>
      harness_done n (concat (replicate k [0..<n])) ((n + 6) * k + 3) w w')"
proof -
  have f: "repo_filler hw K filler" for K using assms(2,3) by (auto simp: repo_filler_def)
  have "completes n (concat (replicate k [0..<n])) ((n + 1) * k + 3) (run_blocking_offload_request_brkdown csqrt hw
      (blocking_offload_and_linear_access_stamped hw) (alloc_offload_linear_access_args hw opts) free_offload_linear_access_args k n) w"
    by (rule blocking_brkdown_runner [OF assms(4,7,8)])
      (use linear_blocking_breakdown_ok [OF assms(1) _ assms(5,6)] in \<open>simp add: completes_def\<close>)
  moreover have "completes n (concat (replicate k [0..<n])) ((n + 6) * k + 3) (run_yielding_interleaved_request_brkdown csqrt hw
      (yielding_offload_and_linear_access_stamped hw opts) filler (alloc_offload_linear_access_args hw opts) free_offload_linear_access_args k n) w"
    by (rule interleaved_brkdown_runner [OF assms(4,7,8)])
      (use linear_interleaved_breakdown_ok [OF assms(1) _ assms(5,6) _ f] in \<open>simp add: completes_def\<close>)
  ultimately show ?thesis by (simp add: completes_def)
qed

lemma linear_access_runs_witness:
  "(\<exists>w'. run_blocking_offload_request_brkdown (\<lambda>x. ()) sample_env (blocking_offload_and_linear_access_stamped sample_env)
      (alloc_offload_linear_access_args sample_env \<lparr>host_buf_bytes_acc = 16, ax_buf_bytes_acc = 7, stride = 3\<rparr>)
      free_offload_linear_access_args 2 3 (sample_world 3) = Some (Done w' ()) \<and>
      harness_done 3 (concat (replicate 2 [0..<3])) 11 (sample_world 3) w') \<and>
    (\<exists>w'. run_yielding_interleaved_request_brkdown (\<lambda>x. ()) sample_env
      (yielding_offload_and_linear_access_stamped sample_env \<lparr>host_buf_bytes_acc = 16, ax_buf_bytes_acc = 7, stride = 3\<rparr>)
      (antagonist_interleaved sample_env sample_stack)
      (alloc_offload_linear_access_args sample_env \<lparr>host_buf_bytes_acc = 16, ax_buf_bytes_acc = 7, stride = 3\<rparr>)
      free_offload_linear_access_args 2 3 (sample_world 3) = Some (Done w' ()) \<and>
      harness_done 3 (concat (replicate 2 [0..<3])) 21 (sample_world 3) w')"
proof -
  have "access_machine sample_env \<lparr>host_buf_bytes_acc = 16, ax_buf_bytes_acc = 7, stride = 3\<rparr>"
    using sample_env_ok sample_completed by (simp add: access_machine_def access_ok_def) (simp add: sample_env_def)
  from linear_access_runs [OF this sample_stack_ok _ sample_fresh, where n = 3 and k = 2 and csqrt = "\<lambda>x. ()"
      and filler = "antagonist_interleaved sample_env sample_stack"] show ?thesis by simp
qed

section \<open>Accesses out of bounds\<close>

lemma touch_nothing: "touch p 0 st w = Some w"
  by (simp add: touch_def touch_loop.simps)



end
