(* ===== verification/Scan_Gather.thy ===== *)
theory Scan_Gather
  imports Requests_Scatter Bench_Programs Offload_Equiv Three_Phase_Supply
begin

text \<open>
  The program \<open>scan_and_gather.cpp\<close>: one extract operation on the IAA, after the same extraction in software.  The
  definitions of \<open>iaa_filter.h\<close> and \<open>iaa_do_extract\<close>, which belong to the accelerator library, are parameters.
  The file also has private copies of the memfill requests, which its \<open>main\<close> does not use.
\<close>

section \<open>The filter descriptor\<close>

text \<open>The library: sizes, constants, the content of a \<open>struct iaa_filter_aecs_t\<close> with its two filter
  parameters, and the software extraction: it gets the destination, the source, the struct, the number of inputs and the flags,
  and gives the length of its result and the new content of the destination.\<close>

record filter_library =
  filter_aecs_size :: nat
  filter_max_dest_size :: nat
  filter_opcode_extract :: u8
  filter_flag_rd_src2_aecs :: u32
  filter_aecs :: "u32 \<Rightarrow> u32 \<Rightarrow> u8 list"
  filter_extract :: "u8 list \<Rightarrow> u8 list \<Rightarrow> u8 list \<Rightarrow> u32 \<Rightarrow> u32 \<Rightarrow> u32 \<times> u8 list"

text \<open>\<open>memcpy\<close> of \<open>n\<close> bytes to the start of a block.\<close>

definition copy_in :: "ptr \<Rightarrow> u8 list \<Rightarrow> nat \<Rightarrow> world \<Rightarrow> world option" where
  "copy_in p src n w =
    do {
      bs \<leftarrow> get_bytes p w;
      (if n \<le> length bs \<and> n \<le> length src then Some (set_bytes p (take n src @ drop n bs) w) else None)
    }"

text \<open>The block for the filter parameters is never freed.\<close>

definition prepare_iaa_filter_desc_with_preallocated_comp ::
  "env \<Rightarrow> filter_library \<Rightarrow> ptr \<Rightarrow> ptr \<Rightarrow> ptr \<Rightarrow> nat \<Rightarrow> nat \<Rightarrow> u32 \<Rightarrow> u32 \<Rightarrow> u32 \<Rightarrow> world \<Rightarrow> world option" where
  "prepare_iaa_filter_desc_with_preallocated_comp hw lib desc src1 dst1 cr xfer_size num_inputs low_val high_val w =
    do {
      let (aecs, w) = malloc_bytes hw (filter_aecs_size lib) w;
      w \<leftarrow> copy_in aecs (replicate (filter_aecs_size lib) 0) (filter_aecs_size lib) w;
      w \<leftarrow> copy_in aecs (filter_aecs lib low_val high_val) (filter_aecs_size lib) w;
      w \<leftarrow> set_desc desc
        (zero_desc\<lparr>d_flags := flag_crav hw OR flag_rcr hw OR flag_bof hw OR filter_flag_rd_src2_aecs lib,
           d_opcode := filter_opcode_extract lib, d_src_addr := src1, d_dst_addr := dst1, d_xfer_size := of_nat xfer_size,
           d_num_inputs := num_inputs, d_filter_flags := 124, d_src2_addr := aecs,
           d_src2_xfer_size := of_nat (filter_aecs_size lib), d_max_dst_size := of_nat (filter_max_dest_size lib),
           d_completion_addr := cr\<rparr>) w;
      memset_comp cr w
    }"

section \<open>The program\<close>

text \<open>\<open>src1[i] = i\<close>.\<close>

definition seq_populate :: "ptr \<Rightarrow> nat \<Rightarrow> world \<Rightarrow> world option" where
  "seq_populate src1 iaa_num_inputs = foldM (\<lambda>i w. do {
      bs \<leftarrow> get_bytes src1 w;
      bs \<leftarrow> store32 bs (4 * i) (of_nat i);
      Some (set_bytes src1 bs w)
    }) [0..<iaa_num_inputs]"

text \<open>The options only set globals that nothing here reads: a local variable hides \<open>input_size\<close>.  What \<open>iaa_submit\<close> answers
  is ignored.  The result is the exit code.  The completion record and the descriptor are blocks of their own.\<close>

definition scan_and_gather_main :: "env \<Rightarrow> filter_library \<Rightarrow> world \<Rightarrow> int outcome option" where
  "scan_and_gather_main hw lib w =
    do {
      let input_size = 128 * 4;
      let iaa_num_inputs = input_size div 4;
      let low_val = 10;
      let high_val = of_nat iaa_num_inputs - 1;
      let (src1, w) = malloc_bytes hw (iaa_num_inputs * 4) w;
      let (dst1, w) = malloc_bytes hw (filter_max_dest_size lib) w;
      let (desc, w) = malloc_desc hw w;
      let (comp, w) = malloc Opaque (w\<lparr>crs := [idle_comp]\<rparr>);
      w \<leftarrow> seq_populate src1 iaa_num_inputs w;
      s \<leftarrow> get_bytes src1 w;
      d \<leftarrow> get_bytes dst1 w;
      let (sw_len, d) = filter_extract lib d s (filter_aecs lib low_val high_val) (of_nat iaa_num_inputs) 124;
      let w = set_bytes dst1 d w;
      let (src2, w) = malloc_bytes hw (iaa_compress_aecs_size hw) w;
      w \<leftarrow> copy_in src2 (iaa_compress_aecs hw) (iaa_compress_aecs_size hw) w;
      w \<leftarrow> prepare_iaa_filter_desc_with_preallocated_comp hw lib desc src1 dst1 0 (iaa_compress_max_dest_size hw)
             (of_nat iaa_num_inputs) low_val high_val w;
      (submitted, w) \<leftarrow> iaa_submit hw desc w;
      w \<leftarrow> wait_while hw (iax_comp_none hw) 0 w;
      (s, w) \<leftarrow> read_status hw 0 w;
      Some (Done w (if s \<noteq> iax_comp_success hw then -1 else 0))
    }"

section \<open>The private copies\<close>

definition scan_validate_feature_vec :: "env \<Rightarrow> ptr \<Rightarrow> ptr \<Rightarrow> world \<Rightarrow> world option" where
  "scan_validate_feature_vec hw feature_buf indirect_array w =
    do {
      xs \<leftarrow> get_ints indirect_array w;
      (if length xs < num_accesses hw then None
       else do {
         let xs = sort (take (num_accesses hw) xs) @ drop (num_accesses hw) xs;
         bs \<leftarrow> get_bytes feature_buf w;
         r \<leftarrow> validate_ents bs xs [0..<input_size hw div 4] 0;
         Some (w\<lparr>heap := (heap w)(indirect_array \<mapsto> Ints xs)\<rparr>)
       })
    }"

definition scan_indirect_array_gen :: "env \<Rightarrow> world \<Rightarrow> (ptr \<times> world) option" where
  "scan_indirect_array_gen hw w =
    (let num_feature_ent = input_size hw div 4 in
     if num_feature_ent = 0 \<and> 0 < num_accesses hw then None
     else
       (let idx = (\<lambda>i. rnd hw (rands w + i) mod num_feature_ent);
            indirect_array = map (\<lambda>i. int (float_round (idx i))) [0..<num_accesses hw] in
        Some (malloc (Ints indirect_array) (w\<lparr>rands := rands w + num_accesses hw\<rparr>))))"

definition scan_alloc_offload_arg :: "env \<Rightarrow> stamps \<Rightarrow> nat \<Rightarrow> world \<Rightarrow> (offload_args \<times> world) option" where
  "scan_alloc_offload_arg hw ts i w =
    do {
      let (self, w) = malloc Opaque w;
      let (src, w) = malloc_bytes hw (input_size hw) w;
      (dst, w) \<leftarrow> scan_indirect_array_gen hw w;
      let (desc, w) = malloc_desc hw w;
      Some (set_ts ts ((uninit_args hw self)\<lparr>a_src_payload := src, a_dst_payload := dst, a_src_size := input_size hw,
        a_desc := desc, a_comp := i, a_id := i\<rparr>), w)
    }"

definition scan_alloc_offload_args ::
  "env \<Rightarrow> nat \<Rightarrow> ptr \<Rightarrow> ptr \<Rightarrow> ptr \<Rightarrow> ptr \<Rightarrow> world \<Rightarrow> ((ptr \<times> offload_args list) \<times> world) option" where
  "scan_alloc_offload_args hw total_requests ts0 ts1 ts2 ts3 =
    alloc_array (scan_alloc_offload_arg hw (Some (ts0, ts1, ts2, ts3))) total_requests"

definition scan_free_offload_args :: "nat \<Rightarrow> ptr \<times> offload_args list \<Rightarrow> world \<Rightarrow> world option" where
  "scan_free_offload_args total_requests =
    free_array (\<lambda>a. frees [a_src_payload a, a_dst_payload a, a_desc a, a_self a]) total_requests"

definition scan_blocking_memfill_stamped :: "env \<Rightarrow> offload_args \<Rightarrow> world \<Rightarrow> world slice option" where
  "scan_blocking_memfill_stamped hw args w =
    do {
      w \<leftarrow> stamp hw (a_ts0 args) (a_id args) w;
      w \<leftarrow> prepare_dsa_memfill_desc_with_preallocated_comp hw (a_desc args) 0 (a_src_payload args)
             (a_comp args) (input_size hw) w;
      (submitted, w) \<leftarrow> dsa_submit hw (a_desc args) w;
      (if \<not> submitted then Some (Exit w)
       else do {
         w \<leftarrow> stamp hw (a_ts1 args) (a_id args) w;
         w \<leftarrow> wait_while hw (iax_comp_none hw) (a_comp args) w;
         (s, w) \<leftarrow> read_status hw (a_comp args) w;
         (if s \<noteq> iax_comp_success hw then Some (Exit w)
          else do {
            w \<leftarrow> stamp hw (a_ts2 args) (a_id args) w;
            w \<leftarrow> scatter hw (a_src_payload args) (a_dst_payload args) w;
            w \<leftarrow> stamp hw (a_ts3 args) (a_id args) w;
            w \<leftarrow> (if log_debug hw then scan_validate_feature_vec hw (a_src_payload args) (a_dst_payload args) w else Some w);
            finish_request w
          })
       })
    }"

definition scan_cpu_inputs :: "env \<Rightarrow> nat \<Rightarrow> world \<Rightarrow> ((ptr \<times> ptr list) \<times> world) option" where
  "scan_cpu_inputs hw i w =
    do {
      let (blk, w) = malloc Opaque w;
      let (buf, w) = malloc_bytes hw (input_size hw) w;
      (indir, w) \<leftarrow> scan_indirect_array_gen hw w;
      Some ((blk, [buf, indir]), w)
    }"

definition scan_alloc_cpu_args :: "env \<Rightarrow> nat \<Rightarrow> world \<Rightarrow> ((ptr \<times> (ptr \<times> ptr list) list) \<times> world) option" where
  "scan_alloc_cpu_args hw = alloc_array (scan_cpu_inputs hw)"

definition scan_free_cpu_args :: "nat \<Rightarrow> ptr \<times> (ptr \<times> ptr list) list \<Rightarrow> world \<Rightarrow> world option" where
  "scan_free_cpu_args total_requests = free_array (free_array mfree 2) total_requests"

definition scan_cpu_memfill_stamped :: "env \<Rightarrow> gpcore_args \<Rightarrow> world \<Rightarrow> world slice option" where
  "scan_cpu_memfill_stamped hw args w =
    do {
      feature_buf \<leftarrow> arr_get (g_inputs args) 0;
      indirect_array \<leftarrow> arr_get (g_inputs args) 1;
      w \<leftarrow> stamp hw (g_ts0 args) (g_id args) w;
      w \<leftarrow> memset_zero feature_buf (input_size hw) w;
      w \<leftarrow> stamp hw (g_ts1 args) (g_id args) w;
      w \<leftarrow> scatter hw feature_buf indirect_array w;
      w \<leftarrow> stamp hw (g_ts2 args) (g_id args) w;
      w \<leftarrow> (if log_debug hw then scan_validate_feature_vec hw feature_buf indirect_array w else Some w);
      finish_request w
    }"

text \<open>They are the functions of \<open>src/memfill_gather.cpp\<close> and \<open>src/gather_scatter.cpp\<close>, so what is proved of those
  holds for them.\<close>

lemma private_copies:
  "scan_validate_feature_vec = validate_scatter_array" "scan_indirect_array_gen = indirect_array_gen"
  "scan_alloc_offload_args = alloc_offload_memfill_and_gather_args_timed"
  "scan_free_offload_args = free_offload_memfill_and_gather_args_timed"
  "scan_alloc_cpu_args = alloc_cpu_memfill_args" "scan_free_cpu_args = free_cpu_memfill_args"
  "scan_blocking_memfill_stamped = blocking_memfill_stamped" "scan_cpu_memfill_stamped = cpu_memfill_stamped"
proof -
  show v: "scan_validate_feature_vec = validate_scatter_array"
    by (simp add: fun_eq_iff scan_validate_feature_vec_def validate_scatter_array_def)
  show g: "scan_indirect_array_gen = indirect_array_gen"
    by (simp add: fun_eq_iff scan_indirect_array_gen_def indirect_array_gen_def)
  have a: "scan_alloc_offload_arg = alloc_memfill_and_gather_arg"
    by (simp add: fun_eq_iff scan_alloc_offload_arg_def alloc_memfill_and_gather_arg_def g)
  show "scan_alloc_offload_args = alloc_offload_memfill_and_gather_args_timed"
    by (intro ext) (simp add: scan_alloc_offload_args_def alloc_offload_memfill_and_gather_args_timed_def a)
  show "scan_free_offload_args = free_offload_memfill_and_gather_args_timed"
    by (simp add: fun_eq_iff scan_free_offload_args_def free_offload_memfill_and_gather_args_timed_def free_payload_arg_def [abs_def])
  have c: "scan_cpu_inputs = cpu_memfill_inputs" by (simp add: fun_eq_iff scan_cpu_inputs_def cpu_memfill_inputs_def g)
  show "scan_alloc_cpu_args = alloc_cpu_memfill_args" by (intro ext) (simp add: scan_alloc_cpu_args_def alloc_cpu_memfill_args_def c)
  show "scan_free_cpu_args = free_cpu_memfill_args" by (simp add: fun_eq_iff scan_free_cpu_args_def free_cpu_memfill_args_def)
  show "scan_blocking_memfill_stamped = blocking_memfill_stamped"
    unfolding fun_eq_iff scan_blocking_memfill_stamped_def blocking_memfill_stamped_def validate_if_debug_def v by (intro allI refl)
  show "scan_cpu_memfill_stamped = cpu_memfill_stamped"
    unfolding fun_eq_iff scan_cpu_memfill_stamped_def cpu_memfill_stamped_def validate_if_debug_def v by (intro allI refl)
qed

section \<open>Waiting for an operation that was not accepted\<close>

definition idle_at :: "nat \<Rightarrow> world \<Rightarrow> bool" where
  "idle_at i w \<longleftrightarrow> i < length (crs w) \<and> crs w ! i = idle_comp"

lemma idle_later: "later hw w w' \<Longrightarrow> idle_at i w \<Longrightarrow> idle_at i w'"
  using later_nth [of hw w w' i] later_length [of hw w w'] by (auto simp: idle_at_def comp_later_def idle_comp_def)

lemma wait_idle:
  assumes hw: "env_ok hw" and "idle_at i w"
  shows "wait_while hw 0 i w = None"
proof (rule ccontr)
  define P where "P = (\<lambda>h (v :: u8) j (w :: world) (r :: world). h = hw \<and> v = 0 \<and> j = i \<and> idle_at i w \<longrightarrow> False)"
  assume "wait_while hw 0 i w \<noteq> None"
  then obtain r where r: "wait_while hw 0 i w = Some r" by blast
  have "P hw 0 i w r"
  proof (rule wait_while.raw_induct [where P = P, OF _ r])
    fix rec h v j w r
    assume IH: "\<And>h v j w r. rec h v j w = Some r \<Longrightarrow> P h v j w r"
      and u: "Option.bind (read_status h j w) (\<lambda>(s, w). if s = v then rec h v j w else Some w) = Some r"
    show "P h v j w r"
      unfolding P_def
    proof
      assume a: "h = hw \<and> v = 0 \<and> j = i \<and> idle_at i w"
      then have t: "idle_at i (tick hw w)" using idle_later [OF tick_later [OF hw]] by blast
      then have "read_status hw i w = Some (0, tick hw w)"
        using a by (simp add: read_status_def Let_def idle_at_def idle_comp_def world_simps)
      with u a have "rec hw 0 i (tick hw w) = Some r" by simp
      from IH [OF this] t show False by (simp add: P_def)
    qed
  qed
  with assms(2) show False by (simp add: P_def)
qed

section \<open>What the program does\<close>

lemma copy_in_put:
  assumes "k < length bs" and "bs ! k = Bytes b" and "n \<le> length b" and "n \<le> length src"
  shows "copy_in (nxt w + k) src n (put_blocks w bs) = Some (put_blocks w (bs[k := Bytes (take n src @ drop n b)]))"
  using get_bytes_put [OF assms(1,2), of w] set_bytes_put [OF assms(1), of w] assms(3,4) by (simp add: copy_in_def)

lemma seq_populate_put:
  assumes "length b = 512"
  shows "\<exists>b'. seq_populate (nxt w) 128 (put_blocks w (Bytes b # bs)) = Some (put_blocks w (Bytes b' # bs)) \<and> length b' = 512"
proof -
  let ?P = "\<lambda>(i :: nat) v. \<exists>b'. v = put_blocks w (Bytes b' # bs) \<and> length b' = 512"
  have "\<exists>v. foldM (\<lambda>(i :: nat) w'. Option.bind (get_bytes (nxt w) w') (\<lambda>bs. Option.bind (store32 bs (4 * i) (of_nat i))
      (\<lambda>bs. Some (set_bytes (nxt w) bs w')))) [0..<128] (put_blocks w (Bytes b # bs)) = Some v \<and> ?P 128 v"
  proof (rule foldM_upt_rule)
    show "?P 0 (put_blocks w (Bytes b # bs))" using assms by blast
  next
    fix i :: nat and v assume i: "i < 128" and "?P i v"
    then obtain b' where b': "v = put_blocks w (Bytes b' # bs)" "length b' = 512" by blast
    have "4 * i + 4 \<le> length b'" using i b'(2) by simp
    from load_store32 [OF this, of "of_nat i"] obtain c where c: "store32 b' (4 * i) (of_nat i) = Some c" "length c = 512" using b'(2) by auto
    have g: "get_bytes (nxt w) v = Some b'" "set_bytes (nxt w) c v = put_blocks w (Bytes c # bs)"
      using get_bytes_put [of 0 "Bytes b' # bs" b' w] set_bytes_put [of 0 "Bytes b' # bs" w c] b'(1) by simp_all
    have "Option.bind (get_bytes (nxt w) v) (\<lambda>bs. Option.bind (store32 bs (4 * i) (of_nat i)) (\<lambda>bs. Some (set_bytes (nxt w) bs v))) =
        Some (put_blocks w (Bytes c # bs))" using c(1) g by simp
    with c(2) show "\<exists>v'. Option.bind (get_bytes (nxt w) v) (\<lambda>bs. Option.bind (store32 bs (4 * i) (of_nat i))
        (\<lambda>bs. Some (set_bytes (nxt w) bs v))) = Some v' \<and> ?P (Suc i) v'" by blast
  qed simp_all
  then show ?thesis by (auto simp: seq_populate_def)
qed

text \<open>What the library promises: the struct and the built-in table are large enough.\<close>

definition filter_ok :: "env \<Rightarrow> filter_library \<Rightarrow> bool" where
  "filter_ok hw lib \<longleftrightarrow> (\<forall>lo hi. filter_aecs_size lib \<le> length (filter_aecs lib lo hi)) \<and>
    iaa_compress_aecs_size hw \<le> length (iaa_compress_aecs hw)"

text \<open>The descriptor is in place, and the completion record is clear.\<close>

lemma prepare_filter_put:
  assumes "filter_ok hw lib" and "bs ! k = Desc d0" and "k < length bs" and "0 < length (crs w)"
  shows "\<exists>d y. prepare_iaa_filter_desc_with_preallocated_comp hw lib (nxt w + k) src1 dst1 0 n m lo hi (put_blocks w bs) =
      Some ((put_blocks w ((bs @ [y])[k := Desc d]))\<lparr>crs := (crs w)[0 := (crs w ! 0)\<lparr>status := 0\<rparr>]\<rparr>) \<and>
    d_completion_addr d = 0 \<and> d_xfer_size d = of_nat n \<and> d_num_inputs d = m \<and> d_src_addr d = src1 \<and> d_dst_addr d = dst1"
proof -
  let ?s = "filter_aecs_size lib" and ?a = "nxt w + length bs" and ?c = "filter_aecs lib lo hi"
  let ?g = "map (garbage hw ?a) [0..<?s]"
  have s: "?s \<le> length ?c" using assms(1) by (simp add: filter_ok_def)
  have m: "malloc_bytes hw ?s (put_blocks w bs) = (?a, put_blocks w (bs @ [Bytes ?g]))" by (rule malloc_bytes_put)
  have z: "copy_in ?a (replicate ?s 0) ?s (put_blocks w (bs @ [Bytes ?g])) = Some (put_blocks w (bs @ [Bytes (replicate ?s 0)]))"
    using copy_in_put [of "length bs" "bs @ [Bytes ?g]" ?g ?s "replicate ?s 0" w] by simp
  have c: "copy_in ?a ?c ?s (put_blocks w (bs @ [Bytes (replicate ?s 0)])) = Some (put_blocks w (bs @ [Bytes (take ?s ?c)]))"
    using copy_in_put [of "length bs" "bs @ [Bytes (replicate ?s 0)]" "replicate ?s 0" ?s ?c w] s by simp
  let ?bs = "bs @ [Bytes (take ?s ?c)]"
  define d where "d = zero_desc\<lparr>d_flags := flag_crav hw OR flag_rcr hw OR flag_bof hw OR filter_flag_rd_src2_aecs lib,
    d_opcode := filter_opcode_extract lib, d_src_addr := src1, d_dst_addr := dst1, d_xfer_size := of_nat n,
    d_num_inputs := m, d_filter_flags := 124, d_src2_addr := ?a, d_src2_xfer_size := of_nat ?s,
    d_max_dst_size := of_nat (filter_max_dest_size lib), d_completion_addr := 0\<rparr>"
  have k: "k < length ?bs" "?bs ! k = Desc d0" using assms(2,3) by (simp_all add: nth_append)
  have "kinds (put_blocks w ?bs) (nxt w + k) = Some KDesc" using kinds_put [OF k(1), of w] k(2) by simp
  then have "set_desc (nxt w + k) d (put_blocks w ?bs) = Some (put_blocks w (?bs[k := Desc d]))"
    using update_put [OF k(1), of w "Desc d"] by (simp add: set_desc_kind)
  moreover have "memset_comp 0 (put_blocks w (?bs[k := Desc d])) =
      Some ((put_blocks w (?bs[k := Desc d]))\<lparr>crs := (crs w)[0 := (crs w ! 0)\<lparr>status := 0\<rparr>]\<rparr>)"
    using assms(4) by (simp add: memset_comp_def)
  ultimately have "prepare_iaa_filter_desc_with_preallocated_comp hw lib (nxt w + k) src1 dst1 0 n m lo hi (put_blocks w bs) =
      Some ((put_blocks w (?bs[k := Desc d]))\<lparr>crs := (crs w)[0 := (crs w ! 0)\<lparr>status := 0\<rparr>]\<rparr>)"
    by (simp add: prepare_iaa_filter_desc_with_preallocated_comp_def m z c d_def)
  then show ?thesis by (intro exI [of _ d] exI [of _ "Bytes (take ?s ?c)"]) (simp add: d_def)
qed

text \<open>The state of \<open>main\<close> just before the descriptor is submitted.\<close>

definition scan_blocks :: "hw_desc \<Rightarrow> u8 list \<Rightarrow> u8 list \<Rightarrow> u8 list \<Rightarrow> block \<Rightarrow> block list" where
  "scan_blocks d s b t y = [Bytes s, Bytes b, Desc d, Opaque, Bytes t, y]"

lemma put_blocks_counters: "enqs (put_blocks w bs) = enqs w" "polls (put_blocks w bs) = polls w" "obs (put_blocks w bs) = obs w"
  by (simp_all add: put_blocks_def)

lemma scan_prepared:
  assumes "filter_ok hw lib"
  shows "\<exists>d s b t y. scan_and_gather_main hw lib w =
      Option.bind (iaa_submit hw (nxt w + 2) ((put_blocks w (scan_blocks d s b t y))\<lparr>crs := [idle_comp]\<rparr>)) (\<lambda>(submitted, w).
      Option.bind (wait_while hw (iax_comp_none hw) 0 w) (\<lambda>w.
      Option.bind (read_status hw 0 w) (\<lambda>(s, w). Some (Done w (if s \<noteq> iax_comp_success hw then -1 else 0))))) \<and>
    length s = 512 \<and> d_completion_addr d = 0 \<and> d_xfer_size d = of_nat (iaa_compress_max_dest_size hw) \<and> d_num_inputs d = 128 \<and>
    d_src_addr d = nxt w \<and> d_dst_addr d = Suc (nxt w)"
proof -
  let ?w = "w\<lparr>crs := [idle_comp]\<rparr>" and ?n = "iaa_compress_aecs_size hw"
  have nx: "nxt ?w = nxt w" by simp
  have four: "Suc (Suc (Suc (Suc (nxt w)))) = nxt w + 4" by simp
  define g0 where "g0 = map (garbage hw (nxt w)) [0..<512]"
  define g1 where "g1 = map (garbage hw (Suc (nxt w))) [0..<filter_max_dest_size lib]"
  define g4 where "g4 = map (garbage hw (nxt w + 4)) [0..<?n]"
  have m0: "malloc_bytes hw 512 w = (nxt w, put_blocks w [Bytes g0])"
    using malloc_bytes_put [of hw 512 w "[]"] by (simp add: put_blocks_Nil g0_def)
  have m1: "malloc_bytes hw (filter_max_dest_size lib) (put_blocks w [Bytes g0]) = (Suc (nxt w), put_blocks w [Bytes g0, Bytes g1])"
    using malloc_bytes_put [of hw "filter_max_dest_size lib" w "[Bytes g0]"] by (simp add: g1_def)
  obtain d0 where m2: "malloc_desc hw (put_blocks w [Bytes g0, Bytes g1]) = (nxt w + 2, put_blocks w [Bytes g0, Bytes g1, Desc d0])"
    using malloc_put [of _ w "[Bytes g0, Bytes g1]"] by (simp add: malloc_desc_def)
  let ?b1 = "[Bytes g1, Desc d0, Opaque]"
  have m3: "malloc Opaque ((put_blocks w [Bytes g0, Bytes g1, Desc d0])\<lparr>crs := [idle_comp]\<rparr>) = (nxt w + 3, put_blocks ?w (Bytes g0 # ?b1))"
    using malloc_put [of Opaque ?w "[Bytes g0, Bytes g1, Desc d0]"] by (simp add: put_blocks_updates)
  have "length g0 = 512" by (simp add: g0_def)
  from seq_populate_put [OF this, of ?w ?b1] obtain s where
    s: "seq_populate (nxt w) 128 (put_blocks ?w (Bytes g0 # ?b1)) = Some (put_blocks ?w (Bytes s # ?b1))" "length s = 512"
    unfolding nx by blast
  have gs: "get_bytes (nxt w) (put_blocks ?w (Bytes s # ?b1)) = Some s" "get_bytes (Suc (nxt w)) (put_blocks ?w (Bytes s # ?b1)) = Some g1"
    using get_bytes_put [of 0 "Bytes s # ?b1" s ?w] get_bytes_put [of 1 "Bytes s # ?b1" g1 ?w] by simp_all
  obtain n b where sw: "filter_extract lib g1 s (filter_aecs lib 10 127) 128 124 = (n, b)" by fastforce
  let ?b2 = "[Bytes s, Bytes b, Desc d0, Opaque]"
  have sd: "set_bytes (Suc (nxt w)) b (put_blocks ?w (Bytes s # ?b1)) = put_blocks ?w ?b2"
    using set_bytes_put [of 1 "Bytes s # ?b1" ?w b] by simp
  have m4: "malloc_bytes hw ?n (put_blocks ?w ?b2) = (nxt w + 4, put_blocks ?w [Bytes s, Bytes b, Desc d0, Opaque, Bytes g4])"
    using malloc_bytes_put [of hw ?n ?w ?b2] four by (simp add: g4_def)
  define t where "t = take ?n (iaa_compress_aecs hw)"
  have c: "copy_in (nxt w + 4) (iaa_compress_aecs hw) ?n (put_blocks ?w [Bytes s, Bytes b, Desc d0, Opaque, Bytes g4]) = Some (put_blocks ?w [Bytes s, Bytes b, Desc d0, Opaque, Bytes t])"
    using copy_in_put [of 4 "?b2 @ [Bytes g4]" g4 ?n "iaa_compress_aecs hw" ?w] assms
    by (simp add: filter_ok_def t_def g4_def nth_append)
  from prepare_filter_put [OF assms, of "?b2 @ [Bytes t]" 2 d0 ?w "nxt w" "Suc (nxt w)" "iaa_compress_max_dest_size hw" 128 10 127]
  obtain d y where p: "prepare_iaa_filter_desc_with_preallocated_comp hw lib (nxt w + 2) (nxt w) (Suc (nxt w)) 0
      (iaa_compress_max_dest_size hw) 128 10 127 (put_blocks ?w [Bytes s, Bytes b, Desc d0, Opaque, Bytes t]) =
      Some ((put_blocks w (scan_blocks d s b t y))\<lparr>crs := [idle_comp]\<rparr>)"
    and d: "d_completion_addr d = 0" "d_xfer_size d = of_nat (iaa_compress_max_dest_size hw)" "d_num_inputs d = 128"
      "d_src_addr d = nxt w" "d_dst_addr d = Suc (nxt w)"
    by (auto simp: scan_blocks_def idle_comp_def put_blocks_updates)
  have "scan_and_gather_main hw lib w =
      Option.bind (iaa_submit hw (nxt w + 2) ((put_blocks w (scan_blocks d s b t y))\<lparr>crs := [idle_comp]\<rparr>)) (\<lambda>(submitted, w).
      Option.bind (wait_while hw (iax_comp_none hw) 0 w) (\<lambda>w.
      Option.bind (read_status hw 0 w) (\<lambda>(s, w). Some (Done w (if s \<noteq> iax_comp_success hw then -1 else 0)))))"
    by (simp add: scan_and_gather_main_def Let_def m0 m1 m2 m3 s(1) gs sw sd m4 c p del: add_2_eq_Suc')
  with s(2) d show ?thesis by blast
qed



text \<open>A library with a struct of two parameters, whose software extraction does nothing.\<close>

definition sample_filter :: filter_library where
  "sample_filter = \<lparr>filter_aecs_size = 8, filter_max_dest_size = 64, filter_opcode_extract = 0x54, filter_flag_rd_src2_aecs = 1,
    filter_aecs = (\<lambda>lo hi. [ucast lo, 0, 0, 0, ucast hi, 0, 0, 0]), filter_extract = (\<lambda>d s a n f. (0, d))\<rparr>"


end
