(* ===== verification/Hash_Dispatch.thy ===== *)
theory Hash_Dispatch
  imports Bench_Runs
begin

text \<open>
  The program \<open>decomp_and_hash_multi_threaded.cpp\<close>: one of the three offered load runs of the
  decompress-and-hash requests, chosen by an option.  Despite its name it has one thread, and unlike \<open>decomp_and_hash.cpp\<close>
  it does not grow the payload to the input size.
\<close>

section \<open>The program\<close>

datatype runner_type = GPCORE | BLOCKING | YIELDING

text \<open>The conversion of an integer to the enumeration; the \<open>switch\<close> has no case for the other values.\<close>

definition runner_of :: "nat \<Rightarrow> runner_type option" where
  "runner_of n = (if n = 0 then Some GPCORE else if n = 1 then Some BLOCKING else if n = 2 then Some YIELDING else None)"

record dispatch_options =
  m_total_requests :: nat
  m_itr :: nat
  m_run_typ :: "runner_type option"
  m_samples :: nat
  m_input_size :: nat

definition dispatch_defaults :: dispatch_options where
  "dispatch_defaults = \<lparr>m_total_requests = 100, m_itr = 2, m_run_typ = Some BLOCKING, m_samples = 10, m_input_size = 0\<rparr>"

definition dispatch_option :: "char \<times> nat \<Rightarrow> dispatch_options \<Rightarrow> dispatch_options" where
  "dispatch_option opt opts = (case opt of (c, v) \<Rightarrow>
    if c = CHR ''t'' then opts\<lparr>m_total_requests := v\<rparr>
    else if c = CHR ''i'' then opts\<lparr>m_itr := v\<rparr>
    else if c = CHR ''r'' then opts\<lparr>m_run_typ := runner_of v\<rparr>
    else if c = CHR ''s'' then opts\<lparr>m_samples := v\<rparr>
    else if c = CHR ''q'' then opts\<lparr>m_input_size := v\<rparr>
    else opts)"

definition dispatch_options_of :: "(char \<times> nat) list \<Rightarrow> dispatch_options" where
  "dispatch_options_of argv = fold dispatch_option (getopt ''t:i:r:s:q:'' argv) dispatch_defaults"

definition dispatch_run :: "(u64 \<Rightarrow> 'd) \<Rightarrow> env \<Rightarrow> dispatch_options \<Rightarrow> world \<Rightarrow> unit outcome option" where
  "dispatch_run csqrt hw opts w = (let itr = m_itr opts; total_requests = m_total_requests opts in
    case m_run_typ opts of
      None \<Rightarrow> Some (Done w ())
    | Some GPCORE \<Rightarrow> run_gpcore_offeredLoad csqrt hw (cpu_decompress_and_hash hw)
        (compressed_mc_req_allocator hw) compressed_mc_req_free itr total_requests w
    | Some BLOCKING \<Rightarrow> run_blocking_offered_load csqrt hw (blocking_decompress_and_hash_request hw)
        (alloc_decomp_and_hash_offload_args hw) free_decomp_and_hash_offload_args total_requests itr w
    | Some YIELDING \<Rightarrow> run_yielding_offered_load csqrt hw (yielding_decompress_and_hash_request hw)
        (alloc_decomp_and_hash_offload_args hw) free_decomp_and_hash_offload_args (m_samples opts) total_requests itr w)"

definition multi_threaded_main :: "(u64 \<Rightarrow> 'd) \<Rightarrow> env \<Rightarrow> (char \<times> nat) list \<Rightarrow> world \<Rightarrow> unit outcome option" where
  "multi_threaded_main csqrt hw argv w = (let opts = dispatch_options_of argv in
    dispatch_run csqrt (hw\<lparr>input_size := m_input_size opts\<rparr>) opts w)"

section \<open>What it does\<close>

text \<open>The numbers with which the arrays of the execution times have the right size.\<close>

definition dispatch_sizes :: "dispatch_options \<Rightarrow> bool" where
  "dispatch_sizes opts \<longleftrightarrow> (let n = m_total_requests opts; k = m_itr opts; s = m_samples opts in
    0 < n \<and> n < 2 ^ 31 \<and> 0 < k \<and> k < 2 ^ 31 \<and>
    (m_run_typ opts = Some YIELDING \<longrightarrow> 0 < s \<and> s \<le> n \<and> k * s < 2 ^ 31 \<and> n div (n div s) \<le> s))"

text \<open>The submissions of the chosen run and the blocks that it leaves.\<close>

definition dispatch_submits :: "dispatch_options \<Rightarrow> nat list" where
  "dispatch_submits opts = (if m_run_typ opts = Some GPCORE then [] else concat (replicate (m_itr opts) [0..<m_total_requests opts]))"

definition dispatch_leak :: "dispatch_options \<Rightarrow> nat" where
  "dispatch_leak opts = (if m_run_typ opts = Some GPCORE then (2 * m_total_requests opts + 2) * m_itr opts else m_itr opts)"

lemma dispatch_run_completes:
  assumes hw: "core_hash_machine hw" and "fresh w" and s: "dispatch_sizes opts" and r: "m_run_typ opts = Some r"
  shows "completes (m_total_requests opts) (dispatch_submits opts) (dispatch_leak opts) (dispatch_run csqrt hw opts) w"
proof -
  let ?n = "m_total_requests opts" and ?k = "m_itr opts" and ?s = "m_samples opts"
  have h: "hash_machine hw" using hw by (simp add: core_hash_machine_def)
  have n: "0 < ?n" "?n < 2 ^ 31" and k: "0 < ?k" "?k < 2 ^ 31" using s by (simp_all add: dispatch_sizes_def Let_def)
  show ?thesis
  proof (cases r)
    case GPCORE
    have "completes ?n (concat (replicate ?k [])) ((2 * ?n + 2) * ?k) (run_gpcore_offeredLoad csqrt hw
        (cpu_decompress_and_hash hw) (compressed_mc_req_allocator hw) compressed_mc_req_free ?k ?n) w"
      by (rule core_offered_runner [OF assms(2) k])
        (use core_hash_offered_load_ok [OF hw _ n(1)] in \<open>fastforce simp: completes_def harness_done_leaves\<close>)
    then show ?thesis using r GPCORE by (simp add: completes_def dispatch_run_def dispatch_submits_def dispatch_leak_def)
  next
    case BLOCKING
    have "completes ?n (concat (replicate ?k [0..<?n])) (1 * ?k) (run_blocking_offered_load csqrt hw
        (blocking_decompress_and_hash_request hw) (alloc_decomp_and_hash_offload_args hw) free_decomp_and_hash_offload_args ?n ?k) w"
      by (rule blocking_offered_runner [OF assms(2) k])
        (use hash_blocking_load_ok [OF h _ n] in \<open>fastforce simp: completes_def\<close>)
    then show ?thesis using r BLOCKING by (simp add: completes_def dispatch_run_def dispatch_submits_def dispatch_leak_def)
  next
    case YIELDING
    have y: "0 < ?s" "?s \<le> ?n" "?k * ?s < 2 ^ 31" "?n div (?n div ?s) \<le> ?s"
      using s r YIELDING by (simp_all add: dispatch_sizes_def Let_def)
    then have q: "0 < ?n div ?s" by (simp add: div_greater_zero_iff)
    have "completes ?n (concat (replicate ?k [0..<?n])) (1 * ?k) (run_yielding_offered_load csqrt hw
        (yielding_decompress_and_hash_request hw) (alloc_decomp_and_hash_offload_args hw) free_decomp_and_hash_offload_args ?s ?n ?k) w"
    proof (rule yielding_offered_runner [OF assms(2) k(1) y(1,3)])
      show "completes ?n [0..<?n] 1 (yielding_request_offered_load hw (yielding_decompress_and_hash_request hw)
          (alloc_decomp_and_hash_offload_args hw) free_decomp_and_hash_offload_args (?n div ?s) ?n (nxt w) (int (i * ?s))) v"
        if "i < ?k" "fresh v" "kinds v (nxt w) = Some (KWords (?k * ?s))" for i v
      proof -
        have "Suc i * ?s \<le> ?k * ?s" using that(1) by (intro mult_le_mono1) simp
        then have "i * ?s + ?n div (?n div ?s) \<le> ?k * ?s" using y(4) by simp
        from hash_offered_load_ok [OF h that(2) n q that(3) this] show ?thesis by (simp add: completes_def)
      qed
    qed
    then show ?thesis using r YIELDING by (simp add: completes_def dispatch_run_def dispatch_submits_def dispatch_leak_def)
  qed
qed

text \<open>The program ends for every choice of a run: a number that names no run does nothing at all, each other choice serves every
  request in every iteration, and the size of the payload does not depend on the option \<open>q\<close>.\<close>

theorem multi_threaded_main_ends:
  assumes "opts = dispatch_options_of argv" and "core_hash_machine (hw\<lparr>input_size := m_input_size opts\<rparr>)"
    and "fresh w" and "dispatch_sizes opts"
  shows "\<exists>w'. multi_threaded_main csqrt hw argv w = Some (Done w' ()) \<and>
    (if m_run_typ opts = None then w' = w
     else harness_done (m_total_requests opts) (dispatch_submits opts) (dispatch_leak opts) w w')"
proof (cases "m_run_typ opts")
  case None
  then show ?thesis using assms(1) by (simp add: multi_threaded_main_def dispatch_run_def Let_def)
next
  case (Some r)
  from dispatch_run_completes [OF assms(2-4) Some] Some assms(1) show ?thesis
    by (simp add: completes_def multi_threaded_main_def Let_def)
qed

end
