(* ===== verification/Ax_Thread.thy ===== *)
theory Ax_Thread
  imports Emul_Ax
begin

text \<open>
  The thread of the emulated accelerator: \<open>create_thread_pinned\<close> (\<open>src/thread_utils.cpp\<close>), and
  \<open>start_non_blocking_ax\<close> and \<open>stop_non_blocking_ax\<close> (\<open>src/emul_ax.cpp\<close>).  The thread library is a parameter:
  \<open>lib\<close> gives what each of its calls returns.  The calls are recorded in their order.
\<close>

section \<open>Creating a thread\<close>

datatype pthread_call = Attr_init | Attr_setaffinity nat | Attr_setinheritsched | Attr_setschedpolicy
  | Attr_setschedparam int | Attr_setdetachstate | Attr_setscope | Create bool | Attr_destroy | Join

type_synonym pthread_lib = "pthread_call \<Rightarrow> int"

text \<open>A call on the attributes: when it fails they are destroyed and the function returns.\<close>

definition set_attr :: "pthread_lib \<Rightarrow> pthread_call \<Rightarrow> (pthread_call list \<Rightarrow> int \<times> pthread_call list) \<Rightarrow>
    pthread_call list \<Rightarrow> int \<times> pthread_call list" where
  "set_attr lib c rest calls =
    (if lib c \<noteq> 0 then (STATUS_FAIL, calls @ [c, Attr_destroy]) else rest (calls @ [c]))"

text \<open>\<open>Create True\<close> is the call with the attributes, \<open>Create False\<close> the one without; what the second one returns
  is ignored.\<close>

definition create_thread_pinned :: "pthread_lib \<Rightarrow> nat \<Rightarrow> pthread_call list \<Rightarrow> int \<times> pthread_call list" where
  "create_thread_pinned lib coreId calls =
    (if lib Attr_init \<noteq> 0 then (STATUS_FAIL, calls @ [Attr_init])
     else foldr (set_attr lib)
       [Attr_setaffinity coreId, Attr_setinheritsched, Attr_setschedpolicy, Attr_setschedparam 15, Attr_setdetachstate, Attr_setscope]
       (\<lambda>calls. (STATUS_SUCCESS, if lib (Create True) \<noteq> 0 then calls @ [Create True, Create False] else calls @ [Create True]))
       (calls @ [Attr_init]))"

definition attr_calls :: "nat \<Rightarrow> pthread_call list" where
  "attr_calls coreId = [Attr_init, Attr_setaffinity coreId, Attr_setinheritsched, Attr_setschedpolicy,
    Attr_setschedparam 15, Attr_setdetachstate, Attr_setscope]"

text \<open>Whether one of the recorded calls has made a thread.\<close>

definition thread_made :: "pthread_lib \<Rightarrow> pthread_call list \<Rightarrow> bool" where
  "thread_made lib calls \<longleftrightarrow> (\<exists>a. Create a \<in> set calls \<and> lib (Create a) = 0)"

text \<open>Success is reported exactly when every call on the attributes worked, whether a thread was made or not; the
  attributes are destroyed on each failure after their initialisation, and never on success.\<close>

lemma create_thread_pinned_answer:
  assumes "create_thread_pinned lib core [] = (s, calls)"
  shows "s = STATUS_SUCCESS \<longleftrightarrow> (\<forall>c \<in> set (attr_calls core). lib c = 0)"
    and "Attr_destroy \<in> set calls \<longleftrightarrow> s \<noteq> STATUS_SUCCESS \<and> lib Attr_init = 0"
    and "s = STATUS_SUCCESS \<Longrightarrow> calls = attr_calls core @ (if lib (Create True) = 0 then [Create True] else [Create True, Create False])"
    and "s \<noteq> STATUS_SUCCESS \<Longrightarrow> \<not> thread_made lib calls"
  using assms
  by (auto simp: create_thread_pinned_def set_attr_def attr_calls_def STATUS_SUCCESS_def STATUS_FAIL_def thread_made_def split: if_splits)

section \<open>Starting and stopping the accelerator\<close>

text \<open>The answer of \<open>create_thread_pinned\<close> is ignored, the parameters are never freed; the thread runs from
  \<open>ax_init\<close>, with the global variables as they are.\<close>

definition start_non_blocking_ax ::
  "pthread_lib \<Rightarrow> u64 \<Rightarrow> int \<Rightarrow> ax_params \<Rightarrow> ax_state \<Rightarrow> pthread_call list \<Rightarrow> ax_params \<times> ax_state \<times> pthread_call list" where
  "start_non_blocking_ax lib offload_duration max_inflight params c calls =
    (let c = c\<lparr>keep_running := True\<rparr>;
         params = params\<lparr>max_inflights := max_inflight, p_offload_time := offload_duration\<rparr>;
         (status, calls) = create_thread_pinned lib 0 calls;
         c = (if thread_made lib calls
           then c\<lparr>axpc := AxStart, offload_in_flight := False, offload_in_flight_list := [], next_offload_completion_time := - 1,
             in_flight := 0, totalOffloads := 0, offloadDurationSum := 0, rejected_offloads := 0\<rparr>
           else c)
     in (params, c, calls))"

text \<open>\<open>pthread_join\<close> on a thread that was never made is undefined; otherwise it returns when the thread has ended, which is a
  step of the relation.\<close>

definition stop_non_blocking_ax :: "pthread_lib \<Rightarrow> ax_state \<Rightarrow> pthread_call list \<Rightarrow> (ax_state \<times> pthread_call list) option" where
  "stop_non_blocking_ax lib c calls =
    (if thread_made lib calls then Some (c\<lparr>keep_running := False\<rparr>, calls @ [Join]) else None)"

text \<open>When no thread can be made, the accelerator never takes a step, and stopping it is undefined although starting it
  has reported nothing.\<close>

lemma start_without_thread:
  assumes "lib (Create True) \<noteq> 0" and "lib (Create False) \<noteq> 0" and "start_non_blocking_ax lib d m params c [] = (params', c', calls)"
  shows "axpc c' = axpc c" and "stop_non_blocking_ax lib c' calls = None"
proof -
  have "\<not> thread_made lib calls'" for calls'
  proof -
    have "lib (Create a) \<noteq> 0" for a using assms(1,2) by (cases a) simp_all
    then show ?thesis by (simp add: thread_made_def)
  qed
  then show "axpc c' = axpc c" "stop_non_blocking_ax lib c' calls = None"
    using assms(3) by (auto simp: start_non_blocking_ax_def stop_non_blocking_ax_def Let_def split: prod.splits)
qed

section \<open>The thread ends\<close>

text \<open>How many of its own steps the thread may still take once \<open>keep_running\<close> is clear.\<close>

fun steps_left :: "ax_pc \<Rightarrow> nat" where
  "steps_left AxStopped = 0"
| "steps_left AxTop = 1"
| "steps_left AxStart = 2"
| "steps_left (AxPush t a) = 2"
| "steps_left AxRefuse = 2"
| "steps_left (AxAck t a) = 3"
| "steps_left (AxLoad t) = 4"
| "steps_left (AxDecide t) = 5"
| "steps_left AxPoll = 6"

lemma steps_left_device: "\<not> keep_running c \<Longrightarrow> steps_left (axpc (nonblocking_emul_ax (axpc c) p c)) \<le> steps_left (axpc c) - 1"
  by (cases "axpc c") (simp_all add: ax_start_def)

lemma stopped_stays: "\<not> keep_running c \<Longrightarrow> \<not> keep_running (nonblocking_emul_ax (axpc c) p c)"
  by (cases "axpc c") (auto simp: ax_start_def ax_push_def Let_def)

lemma caller_keeps: "axpc (submit_offload_step s c) = axpc c \<and> keep_running (submit_offload_step s c) = keep_running c"
  by (cases s) simp_all

lemma ax_exec_steps_left:
  "\<not> keep_running c \<Longrightarrow> steps_left (axpc (ax_exec p ms c)) \<le> steps_left (axpc c) - length (filter (\<lambda>m. m = Device) ms)"
proof (induction p ms c rule: ax_exec.induct)
  case (2 p ms c)
  then show ?case using steps_left_device [OF 2(2), of p] stopped_stays [OF 2(2), of p] by fastforce
next
  case (3 p ms c)
  then show ?case using caller_keeps [of "subpc c" c] by simp
next
  case (4 p i dst ms c)
  then show ?case by (cases "subpc c = SubIdle") (simp_all add: submit_call_def)
qed simp

text \<open>C31: Once \<open>keep_running\<close> is clear the accelerator thread leaves its loop within six of its own steps, whatever it was doing
  and whatever the caller does between them, so that the join of \<open>stop_non_blocking_ax\<close> returns.\<close>

theorem accelerator_thread_ends:
  assumes "\<not> keep_running c" and "6 \<le> length (filter (\<lambda>m. m = Device) ms)"
  shows "axpc (ax_exec p ms c) = AxStopped"
proof -
  have "steps_left (axpc c) \<le> 6" by (cases "axpc c") simp_all
  then have "steps_left (axpc (ax_exec p ms c)) = 0" using ax_exec_steps_left [OF assms(1), of p ms] assms(2) by simp
  then show ?thesis by (cases "axpc (ax_exec p ms c)") simp_all
qed

text \<open>The thread is stopped while one offload is in flight and a second one is being submitted.\<close>

lemma accelerator_thread_ends_witness:
  "axpc (ax_exec ax_sample (concat (replicate 6 [Device, Caller])) (ax_sample_state\<lparr>keep_running := False\<rparr>)) = AxStopped"
  using accelerator_thread_ends [of "ax_sample_state\<lparr>keep_running := False\<rparr>" "concat (replicate 6 [Device, Caller])" ax_sample]
  by (simp add: eval_nat_numeral)

text \<open>An offload that is submitted after the thread has ended is never answered: the caller stays in its waiting loop.\<close>

theorem submit_after_stop_hangs:
  assumes "axpc c = AxStopped" and "subpc c = SubWait" and "submit_flag c = OFFLOAD_REQUESTED"
  shows "subpc (ax_exec p ms c) = SubWait \<and> submit_flag (ax_exec p ms c) = OFFLOAD_REQUESTED"
  using assms by (induction p ms c rule: ax_exec.induct) simp_all

end
