(* ===== verification/Posting_Rank.thy ===== *)
theory Posting_Rank
  imports Posting_List
begin

text \<open>
  Ranking a posting list by the dot products of the two halves of each node's padding
  (\<open>dot_product\<close> and \<open>ll_dynamic_rank\<close> of \<open>inc/inline/posting_list.ipp\<close>).  Nothing writes the padding: its content is
  the parameter \<open>padding\<close>.  The array of 512 sums is a local variable; \<open>sums\<close> is what it holds at the start.
\<close>

definition sizeof_padding :: nat where "sizeof_padding = 40"

text \<open>The products of two bytes are added as integers, which never overflow for the sizes used here.\<close>

definition byte_dot_product :: "u8 list \<Rightarrow> u8 list \<Rightarrow> nat \<Rightarrow> int option" where
  "byte_dot_product a b len = foldM (\<lambda>i sum. do {
      x \<leftarrow> arr_get a (int i);
      y \<leftarrow> arr_get b (int i);
      Some (sum + uint x * uint y)
    }) [0..<len] 0"

partial_function (option) rank_loop :: "(ptr \<Rightarrow> u8 list) \<Rightarrow> ptr \<Rightarrow> int list \<Rightarrow> nat \<Rightarrow> world \<Rightarrow> int list option" where
  "rank_loop padding cur sums idx w =
    (if cur = 0 then Some sums
     else Option.bind (byte_dot_product (padding cur) (drop (sizeof_padding div 2) (padding cur)) (sizeof_padding div 2)) (\<lambda>sum.
       Option.bind (get_node cur w) (\<lambda>(d, n).
       Option.bind (arr_set sums (int idx) sum) (\<lambda>sums. rank_loop padding n sums (Suc idx) w))))"

definition ll_dynamic_rank :: "(ptr \<Rightarrow> u8 list) \<Rightarrow> int list \<Rightarrow> ptr \<Rightarrow> world \<Rightarrow> int list option" where
  "ll_dynamic_rank padding sums head w = rank_loop padding head sums 0 w"

text \<open>The dot product as a sum.\<close>

definition dots :: "u8 list \<Rightarrow> nat \<Rightarrow> int" where
  "dots bs n = (\<Sum>i < n. uint (bs ! i) * uint (bs ! (n + i)))"

lemma byte_dot_product_sum:
  assumes "length bs = 2 * n"
  shows "byte_dot_product bs (drop n bs) n = Some (dots bs n)"
proof -
  have "foldM (\<lambda>i sum. do { x \<leftarrow> arr_get bs (int i); y \<leftarrow> arr_get (drop n bs) (int i); Some (sum + uint x * uint y) }) [0..<m] 0 =
      Some (\<Sum>i < m. uint (bs ! i) * uint (bs ! (n + i)))" if "m \<le> n" for m
    using that
  proof (induction m)
    case (Suc m)
    then show ?case using assms by (simp add: foldM_append arr_get_def add.commute)
  qed simp
  then show ?thesis by (simp add: byte_dot_product_def dots_def)
qed

lemma dots_fit: "0 \<le> dots bs 20 \<and> dots bs 20 < 2 ^ 31"
proof -
  have b: "0 \<le> uint (b :: u8) \<and> uint b \<le> 255" for b using uint_lt2p [of b] by simp
  have "uint (x :: u8) * uint (y :: u8) \<le> 255 * 255" for x y by (rule mult_mono) (use b in auto)
  then have "dots bs 20 \<le> (\<Sum>i < (20 :: nat). 255 * 255)" unfolding dots_def by (intro sum_mono) simp
  moreover have "0 \<le> dots bs 20" unfolding dots_def by (intro sum_nonneg) simp
  ultimately show ?thesis by simp
qed

lemma rank_loop_list:
  assumes "seg (kinds w) p qs 0" and "\<forall>q \<in> set qs. length (padding q) = 40" and "idx \<le> length sums"
  shows "rank_loop padding p sums idx w = (if idx + length qs \<le> length sums
    then Some (take idx sums @ map (\<lambda>q. dots (padding q) 20) qs @ drop (idx + length qs) sums) else None)"
  using assms
proof (induction qs arbitrary: p idx sums)
  case Nil
  then show ?case by (simp add: rank_loop.simps)
next
  case (Cons q qs)
  obtain n where q: "p = q" "q \<noteq> 0" "heap w q = Some (Node (doc_of w q) n)" "seg (kinds w) n qs 0"
    using Cons.prems(1) unfolding seg_Cons by blast
  have d: "byte_dot_product (padding q) (drop 20 (padding q)) 20 = Some (dots (padding q) 20)"
    using Cons.prems(2) by (intro byte_dot_product_sum) simp
  have step: "rank_loop padding p sums idx w =
      Option.bind (arr_set sums (int idx) (dots (padding q) 20)) (\<lambda>sums. rank_loop padding n sums (Suc idx) w)"
    using q d by (subst rank_loop.simps) (simp add: get_node_def sizeof_padding_def)
  show ?case
  proof (cases "idx < length sums")
    case True
    have "rank_loop padding n (sums[idx := dots (padding q) 20]) (Suc idx) w = (if Suc idx + length qs \<le> length sums
        then Some (take (Suc idx) (sums[idx := dots (padding q) 20]) @ map (\<lambda>q. dots (padding q) 20) qs @
          drop (Suc idx + length qs) (sums[idx := dots (padding q) 20])) else None)"
      using Cons.IH [OF q(4), of "Suc idx" "sums[idx := dots (padding q) 20]"] Cons.prems(2) True by simp
    then show ?thesis using step True by (simp add: arr_set_def take_Suc_conv_app_nth)
  next
    case False
    then show ?thesis using step by (simp add: arr_set_def)
  qed
qed

text \<open>A list of at most 512 nodes gets one sum per node, in order; a longer one is written past the end of the array.\<close>

theorem ll_dynamic_rank_bounds:
  assumes "seg (kinds w) p qs 0" and "\<forall>q \<in> set qs. length (padding q) = sizeof_padding" and "length sums = 512"
  shows "ll_dynamic_rank padding sums p w =
    (if length qs \<le> 512 then Some (map (\<lambda>q. dots (padding q) 20) qs @ drop (length qs) sums) else None)"
  using rank_loop_list [OF assms(1), of padding 0 sums] assms(2,3) by (simp add: ll_dynamic_rank_def sizeof_padding_def)

end
