(* ===== verification/Feature_Crypto.thy ===== *)
theory Feature_Crypto
  imports Three_Phase_Supply
begin

text \<open>
  The encrypted payload of \<open>src/decrypt.cpp\<close>, and that \<open>decrypt_feature\<close> gives the payload back.  The cipher is a
  parameter: what \<open>ippsAES_GCMEncrypt\<close> makes of a plain text under the constant key and initialisation vector (\<open>None\<close> when it fails),
  the tag, and the size of the state.
\<close>

record cipher =
  gcm_state_size :: nat
  gcm_encrypt :: "u8 list \<Rightarrow> u8 list option"
  gcm_tag :: "u8 list \<Rightarrow> u8 list \<Rightarrow> u8 list"

text \<open>\<open>pState\<close> is a global variable, here the argument and part of the result.  Failures are only logged: then the
  destination keeps what \<open>malloc\<close> left in it.  The blocks of the additional data, of the plain text and of the tag are never freed.\<close>

definition gen_encrypted_feature ::
  "env \<Rightarrow> cipher \<Rightarrow> nat \<Rightarrow> ptr \<Rightarrow> world \<Rightarrow> ((ptr \<times> nat \<times> ptr) \<times> world) option" where
  "gen_encrypted_feature hw lib payload_size pState w =
    do {
      w \<leftarrow> (if pState \<noteq> 0 then mfree pState w else Some w);
      let (pState, w) = malloc_bytes hw (gcm_state_size lib) w;
      let (pAAD, w) = malloc_bytes hw 16 w;
      (pSrc, w) \<leftarrow> compressible_block hw ''01234567'' payload_size w;
      let (pDst, w) = malloc_bytes hw payload_size w;
      let (pTag, w) = malloc_bytes hw 16 w;
      src \<leftarrow> get_bytes pSrc w;
      aad \<leftarrow> get_bytes pAAD w;
      let w = (case gcm_encrypt lib src of None \<Rightarrow> w | Some c \<Rightarrow> set_bytes pDst (take payload_size c) w);
      let w = set_bytes pTag (take 16 (gcm_tag lib aad src)) w;
      Some ((pDst, payload_size, pState), w)
    }"

text \<open>The promise of the library: decryption undoes encryption, and neither changes the length.\<close>

definition cipher_ok :: "env \<Rightarrow> cipher \<Rightarrow> bool" where
  "cipher_ok hw lib \<longleftrightarrow> (\<forall>p. \<exists>c. gcm_encrypt lib p = Some c \<and> length c = length p \<and> gcm_decrypt hw c = Some p)"

text \<open>The plain text as bytes.\<close>

definition feature_bytes :: "nat \<Rightarrow> u8 list" where
  "feature_bytes n = map (\<lambda>j. of_char (''01234567'' ! (j mod 8))) [0..<n]"

lemma compressible_feature:
  "compressible_block hw ''01234567'' n w = Some (nxt w, put_blocks w [Bytes (feature_bytes n)])"
proof -
  let ?g = "map (garbage hw (nxt w)) [0..<n]"
  let ?s = "map (\<lambda>b. char_of (unat b)) ?g :: string"
  from gen_buf_loop_spec [of "''01234567''" 0 ?s] obtain p where
    p: "gen_compressible_buf ''01234567'' ?s = Some p" "length p = n" "\<forall>j < n. p ! j = ''01234567'' ! (j mod 8)"
    by (auto simp: gen_compressible_buf_def cyclic_upto_def)
  have "map of_char p = feature_bytes n" using p(2,3) by (intro nth_equalityI) (simp_all add: feature_bytes_def)
  moreover have "malloc_bytes hw n w = (nxt w, put_blocks w [Bytes ?g])" by (simp add: malloc_bytes_def malloc_first)
  ultimately show ?thesis
    using get_bytes_put [of 0 "[Bytes ?g]" ?g w] set_bytes_put [of 0 "[Bytes ?g]" w "map of_char p"] p(1)
    by (simp add: compressible_block_def)
qed


lemma gen_encrypted_put:
  assumes "cipher_ok hw lib" and "(if pState \<noteq> 0 then mfree pState w else Some w) = Some v"
  shows "\<exists>c b0 b1 b4. gen_encrypted_feature hw lib n pState w = Some ((nxt v + 3, n, nxt v),
      put_blocks v [b0, b1, Bytes (feature_bytes n), Bytes c, b4]) \<and> length c = n \<and> gcm_decrypt hw c = Some (feature_bytes n)"
proof -
  let ?f = "feature_bytes n"
  have l: "length ?f = n" by (simp add: feature_bytes_def)
  obtain c where c: "gcm_encrypt lib ?f = Some c" "length c = n" "gcm_decrypt hw c = Some ?f"
    using assms(1) l unfolding cipher_ok_def by metis
  define b0 where "b0 = map (garbage hw (nxt v)) [0..<gcm_state_size lib]"
  define b1 where "b1 = map (garbage hw (Suc (nxt v))) [0..<16]"
  define b3 where "b3 = map (garbage hw (nxt v + 3)) [0..<n]"
  define b4 where "b4 = map (garbage hw (nxt v + 4)) [0..<16]"
  have four: "Suc (Suc (Suc (Suc (nxt v)))) = nxt v + 4" and three: "Suc (Suc (Suc (nxt v))) = nxt v + 3"
    and n4: "(4 :: nat) = Suc (Suc (Suc (Suc 0)))" by simp_all
  have m0: "malloc_bytes hw (gcm_state_size lib) v = (nxt v, put_blocks v [Bytes b0])"
    using malloc_bytes_put [of hw "gcm_state_size lib" v "[]"] by (simp add: put_blocks_Nil b0_def)
  have m1: "malloc_bytes hw 16 (put_blocks v [Bytes b0]) = (Suc (nxt v), put_blocks v [Bytes b0, Bytes b1])"
    using malloc_bytes_put [of hw 16 v "[Bytes b0]"] by (simp add: b1_def)
  have m2: "compressible_block hw ''01234567'' n (put_blocks v [Bytes b0, Bytes b1]) =
      Some (Suc (Suc (nxt v)), put_blocks v [Bytes b0, Bytes b1, Bytes ?f])"
    by (simp add: compressible_feature put_put)
  have m3: "malloc_bytes hw n (put_blocks v [Bytes b0, Bytes b1, Bytes ?f]) = (nxt v + 3, put_blocks v [Bytes b0, Bytes b1, Bytes ?f, Bytes b3])"
    using malloc_bytes_put [of hw n v "[Bytes b0, Bytes b1, Bytes ?f]"] three by (simp add: b3_def)
  have m4: "malloc_bytes hw 16 (put_blocks v [Bytes b0, Bytes b1, Bytes ?f, Bytes b3]) =
      (nxt v + 4, put_blocks v [Bytes b0, Bytes b1, Bytes ?f, Bytes b3, Bytes b4])"
    using malloc_bytes_put [of hw 16 v "[Bytes b0, Bytes b1, Bytes ?f, Bytes b3]"] four by (simp add: b4_def)
  let ?bs = "[Bytes b0, Bytes b1, Bytes ?f, Bytes b3, Bytes b4]"
  have g: "get_bytes (Suc (Suc (nxt v))) (put_blocks v ?bs) = Some ?f" "get_bytes (Suc (nxt v)) (put_blocks v ?bs) = Some b1"
    using get_bytes_put [of 2 ?bs ?f v] get_bytes_put [of 1 ?bs b1 v] by simp_all
  have s: "set_bytes (nxt v + 3) x (put_blocks v ?bs) = put_blocks v [Bytes b0, Bytes b1, Bytes ?f, Bytes x, Bytes b4]"
    "set_bytes (nxt v + 4) y (put_blocks v [Bytes b0, Bytes b1, Bytes ?f, Bytes x, Bytes b4]) =
      put_blocks v [Bytes b0, Bytes b1, Bytes ?f, Bytes x, Bytes y]" for x y
    using set_bytes_put [of 3 ?bs v x] set_bytes_put [of 4 "[Bytes b0, Bytes b1, Bytes ?f, Bytes x, Bytes b4]" v y]
    by (simp_all add: numeral_3_eq_3 n4)
  show ?thesis
    unfolding gen_encrypted_feature_def assms(2)
    by (rule exI [of _ c], rule exI [of _ "Bytes b0"], rule exI [of _ "Bytes b1"], rule exI [of _ "Bytes (take 16 (gcm_tag lib b1 ?f))"])
      (simp add: m0 m1 m2 m3 m4 g c s)
qed


text \<open>A cipher that adds one to every byte.\<close>

definition sample_cipher :: cipher where
  "sample_cipher = \<lparr>gcm_state_size = 100, gcm_encrypt = (\<lambda>p. Some (map (\<lambda>b. b + 1) p)), gcm_tag = (\<lambda>a p. replicate 16 0)\<rparr>"


end
