(* ===== verification/Spec2Isabelle.thy ===== *)
theory Spec2Isabelle
  imports XMP_Prelude CH3_Hash Timer_Stats Payload_Gen Hash_Properties Emul_Ax Gather_Scatter
    Gpcore_Compress Requests_Scatter Requests_Memcpy Offload_Equiv Posting_List Requests_Walker Runners Harness_Memcpy Composable_Apps Composable_Equiv Router_Core Bench_Runs Access_Programs Scan_Gather Hash_Dispatch Ax_Thread Posting_Rank Feature_Crypto
begin

text \<open>
  Verification library of XMPGym.
\<close>

end
